(* ===== verification/Prelude.thy ===== *)
theory Prelude
  imports Main "HOL-Library.Sublist"
begin

text \<open>
  What the components share: Go's clock and durations, 64-bit signed arithmetic, the functions of
  the packages strings and strconv that the sources call, and the lemmas on them. A Go string is
  the list of its bytes, so \<open>length\<close> counts bytes as Go's \<open>len\<close> does.

  Collections: \<open>go_simps\<close> unfolds the thin wrappers of the clock; every component adds the
  equations of its small helpers to it.
\<close>

named_theorems go_simps

section \<open>Clock and durations\<close>

text \<open>
  A \<open>time.Time\<close> is the number of nanoseconds since Go's zero time, so \<open>time.Time{}\<close> is 0 and
  \<open>IsZero\<close> is the test against 0. A \<open>time.Duration\<close> is a count of nanoseconds. Every call of
  \<open>time.Now()\<close> in the sources is an argument of the definition that models the function.
\<close>

type_synonym time = int
type_synonym duration = int

definition zero_time :: time where
  "zero_time = 0"

definition is_zero :: "time \<Rightarrow> bool" where
  [go_simps]: "is_zero t \<longleftrightarrow> t = zero_time"

definition second :: duration where
  "second = 1000000000"

definition minute :: duration where
  "minute = 60 * second"

definition hour :: duration where
  "hour = 60 * minute"

text \<open>Signed 64-bit results: \<open>wrap64\<close> is what an int64 operation stores.\<close>

definition max_int64 :: int where
  "max_int64 = 2 ^ 63 - 1"

definition min_int64 :: int where
  "min_int64 = - (2 ^ 63)"

definition wrap64 :: "int \<Rightarrow> int" where
  "wrap64 x = (x + 2 ^ 63) mod 2 ^ 64 - 2 ^ 63"

definition in_int64 :: "int \<Rightarrow> bool" where
  "in_int64 x \<longleftrightarrow> min_int64 \<le> x \<and> x \<le> max_int64"

lemma wrap64_id [simp]: "in_int64 x \<Longrightarrow> wrap64 x = x"
  unfolding in_int64_def wrap64_def max_int64_def min_int64_def
  by (subst mod_pos_pos_trivial) auto

lemma in_int64_wrap64 [simp]: "in_int64 (wrap64 x)"
proof -
  have "0 \<le> (x + 2 ^ 63) mod 2 ^ 64" and "(x + 2 ^ 63) mod 2 ^ 64 < 2 ^ 64"
    by (rule pos_mod_sign pos_mod_bound; simp)+
  then show ?thesis
    unfolding in_int64_def wrap64_def max_int64_def min_int64_def by simp
qed

text \<open>\<open>time.Duration(n) * time.Second\<close> is an int64 product.\<close>

definition seconds :: "int \<Rightarrow> duration" where
  "seconds n = wrap64 (n * second)"

text \<open>The counts of seconds whose product does not wrap: about 292 years either way.\<close>

definition sane_seconds :: "int \<Rightarrow> bool" where
  "sane_seconds n \<longleftrightarrow> \<bar>n\<bar> \<le> 9223372036"

lemma seconds_sane: "sane_seconds n \<Longrightarrow> seconds n = n * second"
  unfolding sane_seconds_def seconds_def second_def
  by (rule wrap64_id) (auto simp: in_int64_def min_int64_def max_int64_def)

lemma seconds_pos: "sane_seconds n \<Longrightarrow> 0 < n \<Longrightarrow> 0 < seconds n"
  by (simp add: seconds_sane second_def)

text \<open>\<open>t.Sub(u)\<close> saturates at the bounds of a duration.\<close>

definition time_sub :: "time \<Rightarrow> time \<Rightarrow> duration" where
  "time_sub t u = max min_int64 (min max_int64 (t - u))"

lemma time_sub_less: "d \<le> max_int64 \<Longrightarrow> min_int64 < d \<Longrightarrow> time_sub t u < d \<longleftrightarrow> t - u < d"
  unfolding time_sub_def by (auto simp: min_def max_def)

lemma time_sub_nonpos: "time_sub t u \<le> 0 \<longleftrightarrow> t \<le> u"
  unfolding time_sub_def by (auto simp: min_int64_def max_int64_def min_def max_def)

lemma second_pos [simp]: "0 < second"
  by (simp add: second_def)

lemma minute_pos [simp]: "0 < minute"
  by (simp add: minute_def)

lemma hour_pos [simp]: "0 < hour"
  by (simp add: hour_def)

lemma durations_nonneg [simp]: "\<not> second < 0" "\<not> minute < 0" "\<not> hour < 0"
  by (simp_all add: not_less less_imp_le)

text \<open>\<open>t.Unix()\<close>: whole seconds since 1970, 62135596800 seconds after the zero time.\<close>

definition unix :: "time \<Rightarrow> int" where
  "unix t = t div second - 62135596800"

section \<open>Strings\<close>

text \<open>
  \<open>strings.TrimSpace\<close> removes the characters of the Unicode property White_Space from both ends.
  On UTF-8 bytes these are the encodings below; the first byte of each is never a continuation
  byte, so a match at either end of the byte list is a match of a whole rune.
\<close>

definition space_encodings :: "string list" where
  "space_encodings =
     [[CHR 0x09], [CHR 0x0A], [CHR 0x0B], [CHR 0x0C], [CHR 0x0D], [CHR 0x20],
      [CHR 0xC2, CHR 0x85], [CHR 0xC2, CHR 0xA0], [CHR 0xE1, CHR 0x9A, CHR 0x80],
      [CHR 0xE2, CHR 0x80, CHR 0x80], [CHR 0xE2, CHR 0x80, CHR 0x81],
      [CHR 0xE2, CHR 0x80, CHR 0x82], [CHR 0xE2, CHR 0x80, CHR 0x83],
      [CHR 0xE2, CHR 0x80, CHR 0x84], [CHR 0xE2, CHR 0x80, CHR 0x85],
      [CHR 0xE2, CHR 0x80, CHR 0x86], [CHR 0xE2, CHR 0x80, CHR 0x87],
      [CHR 0xE2, CHR 0x80, CHR 0x88], [CHR 0xE2, CHR 0x80, CHR 0x89],
      [CHR 0xE2, CHR 0x80, CHR 0x8A], [CHR 0xE2, CHR 0x80, CHR 0xA8],
      [CHR 0xE2, CHR 0x80, CHR 0xA9], [CHR 0xE2, CHR 0x80, CHR 0xAF],
      [CHR 0xE2, CHR 0x81, CHR 0x9F], [CHR 0xE3, CHR 0x80, CHR 0x80]]"

text \<open>How many bytes a leading match of one of the patterns takes, 0 for no match.\<close>

fun match_len :: "string list \<Rightarrow> string \<Rightarrow> nat" where
  "match_len [] s = 0"
| "match_len (e # es) s = (if e \<noteq> [] \<and> prefix e s then length e else match_len es s)"

lemma match_len_le: "match_len es s \<le> length s"
  by (induction es) (auto dest: prefix_length_le)

lemma match_len_Nil [simp]: "match_len es [] = 0"
  by (induction es) auto

lemma match_len_prefix: "prefix t s \<Longrightarrow> match_len es s = 0 \<Longrightarrow> match_len es t = 0"
  by (induction es) (auto split: if_splits dest: prefix_order.trans)

function strip_front :: "string list \<Rightarrow> string \<Rightarrow> string" where
  "strip_front es s =
     (if match_len es s = 0 then s else strip_front es (drop (match_len es s) s))"
  by pat_completeness auto
termination
proof (relation "measure (\<lambda>(es, s). length s)", goal_cases)
  case 1
  show ?case by simp
next
  case (2 es s)
  then have "s \<noteq> []" by auto
  with 2 show ?case by simp
qed

declare strip_front.simps [simp del]

definition trim_space :: "string \<Rightarrow> string" where
  "trim_space s =
     rev (strip_front (map rev space_encodings) (rev (strip_front space_encodings s)))"

lemma strip_front_no_match: "match_len es (strip_front es s) = 0"
  by (induction es s rule: strip_front.induct) (subst strip_front.simps, simp)

lemma strip_front_id: "match_len es s = 0 \<Longrightarrow> strip_front es s = s"
  by (subst strip_front.simps) simp

lemma strip_front_Nil [simp]: "strip_front es [] = []"
  by (simp add: strip_front_id)

lemma strip_front_suffix: "suffix (strip_front es s) s"
proof (induction es s rule: strip_front.induct)
  case (1 es s)
  show ?case
  proof (cases "match_len es s = 0")
    case True
    then show ?thesis by (simp add: strip_front_id)
  next
    case False
    with 1 have "suffix (strip_front es (drop (match_len es s) s)) (drop (match_len es s) s)"
      by blast
    then have "suffix (strip_front es (drop (match_len es s) s)) s"
      by (rule suffix_order.trans) (rule suffix_drop)
    with False show ?thesis by (subst strip_front.simps) simp
  qed
qed

lemma trim_space_Nil [simp]: "trim_space [] = []"
  by (simp add: trim_space_def)

lemma trim_space_idem [simp]: "trim_space (trim_space s) = trim_space s"
proof -
  let ?l = "strip_front space_encodings s" and ?re = "map rev space_encodings"
  let ?r = "strip_front ?re (rev ?l)"
  have "prefix (rev ?r) ?l"
    using strip_front_suffix [of ?re "rev ?l"] by (simp add: suffix_to_prefix)
  then have "match_len space_encodings (rev ?r) = 0"
    by (rule match_len_prefix) (rule strip_front_no_match)
  then show ?thesis
    by (simp add: trim_space_def strip_front_id strip_front_no_match)
qed

lemma match_len_witness:
  "match_len es s \<noteq> 0 \<Longrightarrow> \<exists>e \<in> set es. prefix e s \<and> match_len es s = length e"
  by (induction es) (auto split: if_splits)

lemma strip_front_not_Nil:
  "s \<noteq> [] \<Longrightarrow> \<forall>e \<in> set es. e = [] \<or> last e \<noteq> last s \<Longrightarrow> strip_front es s \<noteq> []"
proof (induction es s rule: strip_front.induct)
  case (1 es s)
  show ?case
  proof (cases "match_len es s = 0")
    case True
    with 1 show ?thesis by (simp add: strip_front_id)
  next
    case False
    then obtain e where e: "e \<in> set es" "prefix e s" "match_len es s = length e"
      using match_len_witness by blast
    then have "e \<noteq> s" using False 1 by auto
    with e(2) have "length e < length s"
      by (metis prefix_length_less strict_prefixI)
    with e(3) have d: "drop (match_len es s) s \<noteq> []" "last (drop (match_len es s) s) = last s"
      by simp_all
    from 1 False d have "strip_front es (drop (match_len es s) s) \<noteq> []" by simp
    with False show ?thesis by (subst strip_front.simps) simp
  qed
qed

text \<open>A text that starts with a letter is not blank.\<close>

lemma trim_space_not_blank:
  assumes "\<forall>e \<in> set space_encodings. hd e \<noteq> c"
  shows "trim_space (c # s) \<noteq> []"
proof -
  have "match_len es (c # s) = 0" if "\<forall>e \<in> set es. hd e \<noteq> c" for es
    using that by (induction es) (auto simp: prefix_def neq_Nil_conv)
  then have "strip_front space_encodings (c # s) = c # s"
    using assms by (intro strip_front_id) blast
  moreover have "strip_front (map rev space_encodings) (rev (c # s)) \<noteq> []"
    using assms by (intro strip_front_not_Nil) (auto simp: last_rev)
  ultimately show ?thesis by (simp add: trim_space_def)
qed

lemma trim_space_r [simp]: "trim_space (CHR ''r'' # s) \<noteq> []"
  by (rule trim_space_not_blank) (simp add: space_encodings_def)

text \<open>
  \<open>strings.ToLower\<close>, as far as a comparison with an ASCII literal can see it: the ASCII letters,
  and the two other runes whose lower case is an ASCII letter (U+0130 and U+212A). The sources
  only compare its results with such literals, or with each other after the same mapping.
\<close>

definition lower_byte :: "char \<Rightarrow> char" where
  "lower_byte c =
     (if 65 \<le> (of_char c :: nat) \<and> (of_char c :: nat) \<le> 90
      then char_of ((of_char c :: nat) + 32) else c)"

fun to_lower :: "string \<Rightarrow> string" where
  "to_lower [] = []"
| "to_lower (c # s) =
     (if c = CHR 0xC4 \<and> take 1 s = [CHR 0xB0] then CHR ''i'' # to_lower (drop 1 s)
      else if c = CHR 0xE2 \<and> take 2 s = [CHR 0x84, CHR 0xAA] then CHR ''k'' # to_lower (drop 2 s)
      else lower_byte c # to_lower s)"

text \<open>\<open>strings.TrimRight(s, "/")\<close> and \<open>strings.ReplaceAll(s, ":", "-")\<close>.\<close>

definition trim_right_slash :: "string \<Rightarrow> string" where
  "trim_right_slash s = rev (dropWhile (\<lambda>c. c = CHR ''/'') (rev s))"

definition replace_colons :: "string \<Rightarrow> string" where
  "replace_colons = map (\<lambda>c. if c = CHR '':'' then CHR ''-'' else c)"

subsection \<open>Runes\<close>

text \<open>
  \<open>[]rune(s)\<close> followed by \<open>string(..)\<close>: each rune is the list of its UTF-8 bytes, and a byte that
  starts no valid sequence decodes to U+FFFD, whose encoding is EF BF BD.
\<close>

definition byte_in :: "nat \<Rightarrow> nat \<Rightarrow> char \<Rightarrow> bool" where
  "byte_in a b c \<longleftrightarrow> a \<le> (of_char c :: nat) \<and> (of_char c :: nat) \<le> b"

definition replacement_rune :: string where
  "replacement_rune = [CHR 0xEF, CHR 0xBF, CHR 0xBD]"

text \<open>The length of the valid UTF-8 sequence at the front, 0 when there is none.\<close>

definition rune_len :: "string \<Rightarrow> nat" where
  "rune_len s =
     (case s of
        [] \<Rightarrow> 0
      | a # t \<Rightarrow>
          if byte_in 0 127 a then 1
          else if byte_in 194 223 a then
            (case t of b # _ \<Rightarrow> if byte_in 128 191 b then 2 else 0 | _ \<Rightarrow> 0)
          else if byte_in 224 239 a then
            (case t of
               b # c # _ \<Rightarrow>
                 if byte_in (if byte_in 224 224 a then 160 else 128)
                      (if byte_in 237 237 a then 159 else 191) b \<and> byte_in 128 191 c
                 then 3 else 0
             | _ \<Rightarrow> 0)
          else if byte_in 240 244 a then
            (case t of
               b # c # d # _ \<Rightarrow>
                 if byte_in (if byte_in 240 240 a then 144 else 128)
                      (if byte_in 244 244 a then 143 else 191) b \<and>
                    byte_in 128 191 c \<and> byte_in 128 191 d
                 then 4 else 0
             | _ \<Rightarrow> 0)
          else 0)"

function runes :: "string \<Rightarrow> string list" where
  "runes s =
     (if s = [] then []
      else if rune_len s = 0 then replacement_rune # runes (drop 1 s)
      else take (rune_len s) s # runes (drop (rune_len s) s))"
  by pat_completeness auto
termination
  by (relation "measure length") auto

declare runes.simps [simp del]

definition take_runes :: "nat \<Rightarrow> string \<Rightarrow> string" where
  "take_runes n s = concat (take n (runes s))"

text \<open>Texts of lower-case letters, digits and underscores are their own trimmed lower case.\<close>

definition plain_char :: "char \<Rightarrow> bool" where
  "plain_char c \<longleftrightarrow> byte_in 97 122 c \<or> byte_in 48 57 c \<or> c = CHR ''_''"

lemma space_not_plain:
  "list_all (\<lambda>e. \<not> plain_char (hd e) \<and> \<not> plain_char (last e) \<and> e \<noteq> []) space_encodings"
  by (simp add: space_encodings_def plain_char_def byte_in_def)

lemma match_len_hd: "\<forall>e \<in> set es. hd e \<noteq> c \<and> e \<noteq> [] \<Longrightarrow> match_len es (c # s) = 0"
  by (induction es) (auto simp: prefix_def neq_Nil_conv)

lemma trim_space_ends:
  assumes "s \<noteq> []" "plain_char (hd s)" "plain_char (last s)"
  shows "trim_space s = s"
proof -
  obtain c t where c: "s = c # t" using assms(1) by (cases s) auto
  have "match_len space_encodings (c # t) = 0"
    using assms c space_not_plain by (intro match_len_hd) (auto simp: list_all_iff)
  then have front: "strip_front space_encodings s = s" using c by (simp add: strip_front_id)
  obtain d u where d: "rev s = d # u" using assms(1) by (metis neq_Nil_conv rev_is_Nil_conv)
  then have "plain_char d" using assms(1,3) by (metis hd_rev list.sel(1))
  then have "match_len (map rev space_encodings) (d # u) = 0"
    using space_not_plain by (intro match_len_hd) (auto simp: list_all_iff hd_rev)
  then have "strip_front (map rev space_encodings) (rev s) = rev s" using d by (simp add: strip_front_id)
  then show ?thesis using front by (simp add: trim_space_def)
qed

lemma trim_space_plain: "list_all plain_char s \<Longrightarrow> trim_space s = s"
  by (cases "s = []") (auto simp: list_all_iff intro: trim_space_ends)

lemma to_lower_plain: "list_all plain_char s \<Longrightarrow> to_lower s = s"
  by (induction s) (auto simp: plain_char_def byte_in_def lower_byte_def)

section \<open>Decimal numbers\<close>

text \<open>\<open>strconv.FormatInt(n, 10)\<close> and the verb \<open>%d\<close>.\<close>

definition digit :: "nat \<Rightarrow> char" where
  "digit d = char_of (48 + d)"

definition digit_value :: "char \<Rightarrow> nat" where
  "digit_value c = of_char c - 48"

definition is_digit :: "char \<Rightarrow> bool" where
  "is_digit c \<longleftrightarrow> 48 \<le> (of_char c :: nat) \<and> (of_char c :: nat) \<le> 57"

fun dec :: "nat \<Rightarrow> string" where
  "dec n = (if n < 10 then [digit n] else dec (n div 10) @ [digit (n mod 10)])"

declare dec.simps [simp del]

definition format_int :: "int \<Rightarrow> string" where
  "format_int n = (if n < 0 then CHR ''-'' # dec (nat (- n)) else dec (nat n))"

definition undec :: "string \<Rightarrow> nat" where
  "undec s = foldl (\<lambda>a c. 10 * a + digit_value c) 0 s"

lemma digit_value_digit: "d < 10 \<Longrightarrow> digit_value (digit d) = d"
  unfolding digit_value_def digit_def by (subst of_char_of) simp

lemma is_digit_digit: "d < 10 \<Longrightarrow> is_digit (digit d)"
  unfolding is_digit_def digit_def by (simp add: of_char_of)

lemma dec_digits: "list_all is_digit (dec n)"
proof (induction n rule: dec.induct)
  case (1 n)
  show ?case
    using 1 by (subst dec.simps) (auto simp: is_digit_digit)
qed

lemma dec_not_Nil [simp]: "dec n \<noteq> []"
  by (subst dec.simps) simp

lemma undec_dec: "undec (dec n) = n"
proof (induction n rule: dec.induct)
  case (1 n)
  show ?case
  proof (cases "n < 10")
    case True
    then show ?thesis by (subst dec.simps) (simp add: undec_def digit_value_digit)
  next
    case False
    with 1 have "undec (dec (n div 10)) = n div 10" by blast
    with False show ?thesis
      by (subst dec.simps) (simp add: undec_def digit_value_digit)
  qed
qed

lemma dec_inj: "dec m = dec n \<longleftrightarrow> m = n"
  by (metis undec_dec)

lemma format_int_inj: "0 \<le> m \<Longrightarrow> 0 \<le> n \<Longrightarrow> format_int m = format_int n \<longleftrightarrow> m = n"
  by (auto simp: format_int_def dec_inj)

lemma not_digit_colon: "\<not> is_digit (CHR '':'')"
  by (simp add: is_digit_def)

text \<open>A decimal number in front of a separator that is no digit can be read back.\<close>

lemma split_at_sep:
  assumes "a @ c # x = b @ c # y" "list_all P a" "list_all P b" "\<not> P c"
  shows "a = b \<and> x = y"
  using assms
proof (induction a arbitrary: b)
  case Nil
  then show ?case by (cases b) auto
next
  case (Cons d a)
  then show ?case by (cases b) auto
qed

lemma dec_colon_inj: "dec m @ CHR '':'' # x = dec n @ CHR '':'' # y \<longleftrightarrow> m = n \<and> x = y"
  using split_at_sep [of "dec m" "CHR '':''" x "dec n" y is_digit]
  by (auto simp: dec_digits not_digit_colon dec_inj)

text \<open>
  \<open>strconv.Atoi\<close> and \<open>strconv.ParseInt(s, 10, 64)\<close>: an optional sign and digits, in the range of a
  64-bit int. An integer division truncates towards zero.
\<close>

definition atoi :: "string \<Rightarrow> int option" where
  "atoi s =
     (let (neg, ds) = (case s of
            c # t \<Rightarrow> if c = CHR ''-'' then (True, t) else if c = CHR ''+'' then (False, t) else (False, s)
          | [] \<Rightarrow> (False, []))
      in if ds = [] \<or> \<not> list_all is_digit ds then None
         else let v = (if neg then - int (undec ds) else int (undec ds))
              in if in_int64 v then Some v else None)"

definition go_div :: "int \<Rightarrow> int \<Rightarrow> int" where
  "go_div a b = (if a < 0 then - ((- a) div b) else a div b)"

section \<open>Maps\<close>

text \<open>
  Deleting while ranging over a Go map keeps exactly the entries the loop does not delete,
  whatever the iteration order.
\<close>

definition keep_entries :: "('v \<Rightarrow> bool) \<Rightarrow> ('k \<rightharpoonup> 'v) \<Rightarrow> 'k \<rightharpoonup> 'v" where
  "keep_entries P m = (\<lambda>k. case m k of None \<Rightarrow> None | Some v \<Rightarrow> if P v then Some v else None)"

lemma keep_entries_Some [simp]: "keep_entries P m k = Some v \<longleftrightarrow> m k = Some v \<and> P v"
  by (auto simp: keep_entries_def split: option.splits)

lemma keep_entries_None: "keep_entries P m k = None \<longleftrightarrow> (\<forall>v. m k = Some v \<longrightarrow> \<not> P v)"
  by (auto simp: keep_entries_def split: option.splits)

lemma keep_entries_empty [simp]: "keep_entries P Map.empty = Map.empty"
  by (simp add: keep_entries_def fun_eq_iff)

lemma dom_keep_entries: "dom (keep_entries P m) \<subseteq> dom m"
  by (auto simp: dom_def)

text \<open>\<open>append(xs[:0], the entries that pass)\<close>, the in-place filter of the sources.\<close>

lemma length_filter_mono: "(\<And>x. P x \<Longrightarrow> Q x) \<Longrightarrow> length (filter P xs) \<le> length (filter Q xs)"
  by (induction xs) auto

end
