(* ===== verification/Cache_State.thy ===== *)
theory Cache_State
  imports Prelude "HOL-Library.Word"
begin

text \<open>
  The state of the single-process cache backend (\<open>infra/cache/memory\<close>): the struct \<open>Cache\<close> of
  cache.go with the types of its fields, the repository types they store, the constructor, and the
  periodic sweep of maintenance.go that every writing operation runs.

  Every operation of the package holds the one mutex \<open>Cache.mu\<close> for its whole critical section,
  so an operation is a function of the whole state and concurrent calls are sequences of operations.
\<close>

section \<open>Stored types\<close>

text \<open>
  A value with its expiry: \<open>expiringString\<close>, \<open>expiringRAG\<close>, \<open>expiringProviderAuthTransaction\<close> and
  \<open>expiringProviderAuthGrant\<close> are this record at four value types.
\<close>

record 'v expiring =
  exp_value :: 'v
  expires_at :: time

type_synonym expiring_string = "string expiring"

text \<open>The score is a float32 the cache stores and never reads; it is its bit pattern.\<close>

record rag_chunk =
  chunk_content :: string
  chunk_file_name :: string
  chunk_file_id :: string
  chunk_index :: int
  chunk_modality :: string
  chunk_score :: "32 word"

type_synonym expiring_rag = "rag_chunk list expiring"

record provider_auth_transaction =
  tx_provider_slug :: string
  tx_client_id :: string
  tx_client_redirect_uri :: string
  tx_client_state :: string
  tx_client_code_challenge :: string
  tx_provider_code_verifier :: string
  tx_intent :: string
  tx_user_id :: nat
  tx_next :: string
  tx_expires_at :: time

record provider_auth_grant_profile =
  profile_display_name :: string
  profile_email :: string
  profile_email_verified :: bool
  profile_json :: string

record provider_auth_grant =
  grant_provider_slug :: string
  grant_client_id :: string
  grant_intent :: string
  grant_user_id :: nat
  grant_subject :: string
  grant_profile :: "provider_auth_grant_profile option"
  grant_error_code :: string
  grant_error_message :: string
  grant_error_details :: string
  grant_expires_at :: time

subsection \<open>Circuit breakers, rate limits and key counters\<close>

record circuit_state =
  open_until :: time
  probe_until :: time
  failures :: "time list"
  manual_open :: bool
  last_failure :: time

record upstream_metadata =
  meta_last_error :: string
  meta_last_failure :: time
  meta_last_success :: time

record rate_limit_state =
  backoff_until :: time
  backoff_count :: int
  count_expires :: time

record api_key_counter =
  next_key :: int
  last_used :: time

text \<open>The key pairs an upstream with a route.\<close>

type_synonym route_rate_limit_key = "nat \<times> nat"

record fixed_window_counter =
  fw_count :: int
  fw_expires_at :: time

subsection \<open>File queues\<close>

text \<open>
  A Go channel that is only ever closed, to wake the goroutines waiting on it, is its identity;
  the cache below records which identities have been made and the log of the closes.
\<close>

type_synonym chan = nat

type_synonym queue_name = string

definition queue_default :: queue_name where
  "queue_default = ''file_processing''"

definition queue_embedding :: queue_name where
  "queue_embedding = ''file_embedding''"

definition kind_embedding :: string where
  "kind_embedding = ''embedding''"

record file_message =
  msg_id :: string
  msg_user_id :: nat
  msg_file_id :: string
  msg_retry :: int
  msg_last_error :: string
  msg_reclaimed :: bool
  msg_kind :: string
  msg_queue :: queue_name
  msg_embedding_signature :: string
  msg_embedding_host :: string

record file_lease =
  consumer_name :: string
  leased_at :: time
  lease_message :: file_message

record file_queue_state =
  fq_queue :: "file_message list"
  fq_inflight :: "string \<rightharpoonup> file_lease"
  fq_dlq :: "file_message list"
  fq_notify :: chan

definition new_file_queue_state :: "chan \<Rightarrow> file_queue_state" where
  "new_file_queue_state ch =
     \<lparr>fq_queue = [], fq_inflight = Map.empty, fq_dlq = [], fq_notify = ch\<rparr>"

subsection \<open>Generation streams\<close>

record stream_message =
  sm_id :: string
  sm_seq :: int
  sm_payload :: string

record generation_stream =
  owner_id :: nat
  execution_id :: string
  conversation_id :: string
  owner_expires_at :: time
  active_expires_at :: time
  cancel_expires_at :: time
  events_expires_at :: time
  stream_seq :: int
  stream_events :: "stream_message list"
  text_content :: string
  text_seq :: int
  think_content :: string
  think_seq :: int
  think_round_id :: string
  think_metadata :: string
  stream_chan :: chan

text \<open>The zero struct with a fresh channel, as \<open>ensureStreamLocked\<close> allocates it.\<close>

definition fresh_stream :: "chan \<Rightarrow> generation_stream" where
  "fresh_stream ch =
     \<lparr>owner_id = 0, execution_id = [], conversation_id = [],
      owner_expires_at = zero_time, active_expires_at = zero_time,
      cancel_expires_at = zero_time, events_expires_at = zero_time,
      stream_seq = 0, stream_events = [], text_content = [], text_seq = 0,
      think_content = [], think_seq = 0, think_round_id = [], think_metadata = [],
      stream_chan = ch\<rparr>"

section \<open>The cache\<close>

text \<open>
  \<open>next_chan\<close> and \<open>closed_chans\<close> stand for the runtime's channels: the number made so far, and the
  log of every \<open>close\<close>. Closing a channel twice panics in Go, so the absence of that panic is
  distinctness of the log (\<open>chan_inv\<close> in theory \<open>Stream_Props\<close>).
\<close>

record cache =
  ops :: nat
  settings :: "string \<rightharpoonup> expiring_string"
  user_settings :: "string \<rightharpoonup> expiring_string"
  user_setting_versions :: "string \<rightharpoonup> expiring_string"
  file_seq :: int
  file_processing_queue :: file_queue_state
  file_embedding_queue :: file_queue_state
  rag :: "string \<rightharpoonup> expiring_rag"
  streams :: "string \<rightharpoonup> generation_stream"
  stream_notify :: chan
  upstream_cb :: "nat \<rightharpoonup> circuit_state"
  model_cb :: "string \<rightharpoonup> circuit_state"
  upstream_meta :: "nat \<rightharpoonup> upstream_metadata"
  rate_limits :: "route_rate_limit_key \<rightharpoonup> rate_limit_state"
  key_counters :: "nat \<rightharpoonup> api_key_counter"
  sliding_http :: "string \<rightharpoonup> time list"
  fixed_http :: "string \<rightharpoonup> fixed_window_counter"
  provider_auth_transactions :: "string \<rightharpoonup> provider_auth_transaction expiring"
  provider_auth_grants :: "string \<rightharpoonup> provider_auth_grant expiring"
  next_chan :: nat
  closed_chans :: "chan list"

definition new_cache :: cache where
  "new_cache =
     \<lparr>ops = 0, settings = Map.empty, user_settings = Map.empty,
      user_setting_versions = Map.empty, file_seq = 0,
      file_processing_queue = new_file_queue_state 0,
      file_embedding_queue = new_file_queue_state 1,
      rag = Map.empty, streams = Map.empty, stream_notify = 2,
      upstream_cb = Map.empty, model_cb = Map.empty, upstream_meta = Map.empty,
      rate_limits = Map.empty, key_counters = Map.empty, sliding_http = Map.empty,
      fixed_http = Map.empty, provider_auth_transactions = Map.empty,
      provider_auth_grants = Map.empty, next_chan = 3, closed_chans = []\<rparr>"

text \<open>\<open>ttlFromNow\<close> at the clock reading \<open>t\<close> it makes, and \<open>expired\<close>.\<close>

definition ttl_from :: "time \<Rightarrow> duration \<Rightarrow> time" where
  "ttl_from t ttl = (if ttl \<le> 0 then t + minute else t + ttl)"

definition expired :: "time \<Rightarrow> time \<Rightarrow> bool" where
  "expired t now \<longleftrightarrow> \<not> is_zero t \<and> t < now"

lemma ttl_from_gt [simp]: "t < ttl_from t d"
  by (simp add: ttl_from_def)

section \<open>Maintenance\<close>

definition maintenance_interval :: nat where
  "maintenance_interval = 256"

definition sliding_window_retention :: duration where
  "sliding_window_retention = 10 * minute"

definition circuit_metadata_retention :: duration where
  "circuit_metadata_retention = 30 * minute"

definition circuit_state_retention :: duration where
  "circuit_state_retention = 2 * hour"

definition key_counter_retention :: duration where
  "key_counter_retention = 24 * hour"

definition circuit_probe_ttl :: duration where
  "circuit_probe_ttl = 30 * second"

definition circuit_manual_open_duration :: duration where
  "circuit_manual_open_duration = 24 * hour"

lemma circuit_probe_ttl_pos [simp]: "0 < circuit_probe_ttl"
  by (simp add: circuit_probe_ttl_def)

lemma circuit_manual_open_duration_pos [simp]: "0 < circuit_manual_open_duration"
  by (simp add: circuit_manual_open_duration_def)

definition latest :: "time \<Rightarrow> time \<Rightarrow> time" where
  "latest a b = (if b < a then a else b)"

text \<open>A nil pointer, which is what a missing map entry reads as, is \<open>None\<close>.\<close>

definition circuit_state_expired :: "circuit_state option \<Rightarrow> time \<Rightarrow> bool" where
  "circuit_state_expired st now =
     (case st of
        None \<Rightarrow> True
      | Some s \<Rightarrow>
          if \<not> is_zero (open_until s) \<and> now < open_until s + circuit_probe_ttl then False
          else if now < probe_until s then False
          else if \<not> is_zero (last_failure s) \<and> now < last_failure s + circuit_state_retention
            then False
          else True)"

definition owner_expired :: "generation_stream \<Rightarrow> time \<Rightarrow> bool" where
  [go_simps]: "owner_expired s now \<longleftrightarrow> is_zero (owner_expires_at s) \<or> owner_expires_at s < now"

definition active_expired :: "generation_stream \<Rightarrow> time \<Rightarrow> bool" where
  [go_simps]: "active_expired s now \<longleftrightarrow> is_zero (active_expires_at s) \<or> active_expires_at s < now"

definition cancel_expired :: "generation_stream \<Rightarrow> time \<Rightarrow> bool" where
  [go_simps]: "cancel_expired s now \<longleftrightarrow> is_zero (cancel_expires_at s) \<or> cancel_expires_at s < now"

definition events_expired :: "generation_stream \<Rightarrow> time \<Rightarrow> bool" where
  [go_simps]: "events_expired s now \<longleftrightarrow> is_zero (events_expires_at s) \<or> events_expires_at s < now"

definition stream_dead :: "generation_stream \<Rightarrow> time \<Rightarrow> bool" where
  "stream_dead s now \<longleftrightarrow>
     owner_expired s now \<and> active_expired s now \<and> cancel_expired s now \<and> events_expired s now"

definition sweep_sliding :: "time \<Rightarrow> (string \<rightharpoonup> time list) \<Rightarrow> string \<rightharpoonup> time list" where
  "sweep_sliding cutoff m =
     (\<lambda>k. case m k of
            None \<Rightarrow> None
          | Some events \<Rightarrow>
              (let kept = filter (\<lambda>item. cutoff < item) events
               in if kept = [] then None else Some kept))"

definition meta_kept :: "time \<Rightarrow> upstream_metadata \<Rightarrow> bool" where
  "meta_kept now item \<longleftrightarrow>
     is_zero (meta_last_failure item) \<and> is_zero (meta_last_success item) \<or>
     \<not> latest (meta_last_failure item) (meta_last_success item) < now - circuit_metadata_retention"

definition sweep_expired :: "cache \<Rightarrow> time \<Rightarrow> cache" where
  "sweep_expired c now =
     c\<lparr>settings := keep_entries (\<lambda>i. \<not> expires_at i < now) (settings c),
       user_settings := keep_entries (\<lambda>i. \<not> expires_at i < now) (user_settings c),
       user_setting_versions := keep_entries (\<lambda>i. \<not> expires_at i < now) (user_setting_versions c),
       rag := keep_entries (\<lambda>i. \<not> expires_at i < now) (rag c),
       streams := keep_entries (\<lambda>s. \<not> stream_dead s now) (streams c),
       fixed_http := keep_entries (\<lambda>i. \<not> fw_expires_at i < now) (fixed_http c),
       provider_auth_transactions :=
         keep_entries (\<lambda>i. \<not> expires_at i < now) (provider_auth_transactions c),
       provider_auth_grants :=
         keep_entries (\<lambda>i. \<not> expires_at i < now) (provider_auth_grants c),
       sliding_http := sweep_sliding (now - sliding_window_retention) (sliding_http c),
       rate_limits :=
         keep_entries (\<lambda>i. \<not> (backoff_until i < now \<and> count_expires i < now)) (rate_limits c),
       upstream_meta := keep_entries (meta_kept now) (upstream_meta c),
       upstream_cb := keep_entries (\<lambda>s. \<not> circuit_state_expired (Some s) now) (upstream_cb c),
       model_cb := keep_entries (\<lambda>s. \<not> circuit_state_expired (Some s) now) (model_cb c),
       key_counters :=
         keep_entries (\<lambda>i. \<not> last_used i < now - key_counter_retention) (key_counters c)\<rparr>"

definition maybe_sweep :: "cache \<Rightarrow> time \<Rightarrow> cache" where
  "maybe_sweep c now =
     (let c = c\<lparr>ops := Suc (ops c)\<rparr>
      in if ops c mod maintenance_interval \<noteq> 0 then c else sweep_expired c now)"

lemma maybe_sweep_cases:
  "maybe_sweep c now = c\<lparr>ops := Suc (ops c)\<rparr> \<or>
   maybe_sweep c now = sweep_expired (c\<lparr>ops := Suc (ops c)\<rparr>) now"
  by (simp add: maybe_sweep_def Let_def)

lemma sweep_frame [simp]:
  "file_seq (sweep_expired c now) = file_seq c"
  "file_processing_queue (sweep_expired c now) = file_processing_queue c"
  "file_embedding_queue (sweep_expired c now) = file_embedding_queue c"
  "stream_notify (sweep_expired c now) = stream_notify c"
  "next_chan (sweep_expired c now) = next_chan c"
  "closed_chans (sweep_expired c now) = closed_chans c"
  by (simp_all add: sweep_expired_def)

lemma maybe_sweep_frame [simp]:
  "file_seq (maybe_sweep c now) = file_seq c"
  "file_processing_queue (maybe_sweep c now) = file_processing_queue c"
  "file_embedding_queue (maybe_sweep c now) = file_embedding_queue c"
  "stream_notify (maybe_sweep c now) = stream_notify c"
  "next_chan (maybe_sweep c now) = next_chan c"
  "closed_chans (maybe_sweep c now) = closed_chans c"
  by (simp_all add: maybe_sweep_def Let_def)

lemma sweep_maps:
  "upstream_cb (sweep_expired c now) =
     keep_entries (\<lambda>s. \<not> circuit_state_expired (Some s) now) (upstream_cb c)"
  "model_cb (sweep_expired c now) =
     keep_entries (\<lambda>s. \<not> circuit_state_expired (Some s) now) (model_cb c)"
  "rate_limits (sweep_expired c now) =
     keep_entries (\<lambda>i. \<not> (backoff_until i < now \<and> count_expires i < now)) (rate_limits c)"
  "key_counters (sweep_expired c now) =
     keep_entries (\<lambda>i. \<not> last_used i < now - key_counter_retention) (key_counters c)"
  "streams (sweep_expired c now) = keep_entries (\<lambda>s. \<not> stream_dead s now) (streams c)"
  "fixed_http (sweep_expired c now) = keep_entries (\<lambda>i. \<not> fw_expires_at i < now) (fixed_http c)"
  "sliding_http (sweep_expired c now) =
     sweep_sliding (now - sliding_window_retention) (sliding_http c)"
  "settings (sweep_expired c now) = keep_entries (\<lambda>i. \<not> expires_at i < now) (settings c)"
  "user_settings (sweep_expired c now) =
     keep_entries (\<lambda>i. \<not> expires_at i < now) (user_settings c)"
  "user_setting_versions (sweep_expired c now) =
     keep_entries (\<lambda>i. \<not> expires_at i < now) (user_setting_versions c)"
  "rag (sweep_expired c now) = keep_entries (\<lambda>i. \<not> expires_at i < now) (rag c)"
  "provider_auth_transactions (sweep_expired c now) =
     keep_entries (\<lambda>i. \<not> expires_at i < now) (provider_auth_transactions c)"
  "provider_auth_grants (sweep_expired c now) =
     keep_entries (\<lambda>i. \<not> expires_at i < now) (provider_auth_grants c)"
  "upstream_meta (sweep_expired c now) = keep_entries (meta_kept now) (upstream_meta c)"
  by (simp_all add: sweep_expired_def)

lemmas sweep_defs = sweep_maps keep_entries_def sweep_sliding_def

subsection \<open>The contract of the sweep\<close>

text \<open>
  The sweep is an optimisation: it may only remove what no later call can see. For one map of the
  cache, \<open>thin\<close> is what a sweep at \<open>now\<close> does to an entry, and \<open>view\<close> is what a call that reads the
  entry at a later time \<open>t\<close> sees of it.
\<close>

locale swept_map =
  fixes get :: "cache \<Rightarrow> 'k \<Rightarrow> 'v option"
    and thin :: "time \<Rightarrow> 'v option \<Rightarrow> 'v option"
  assumes get_sweep: "get (sweep_expired c now) k = thin now (get c k)"
    and get_ops: "get (c\<lparr>ops := n\<rparr>) k = get c k"
begin

lemma get_maybe_sweep:
  "get (maybe_sweep c now) k = get c k \<or> get (maybe_sweep c now) k = thin now (get c k)"
  using maybe_sweep_cases [of c now] by (auto simp: get_sweep get_ops)

end

locale swept_view = swept_map get thin
  for get :: "cache \<Rightarrow> 'k \<Rightarrow> 'v option"
    and thin :: "time \<Rightarrow> 'v option \<Rightarrow> 'v option" +
  fixes view :: "'v option \<Rightarrow> time \<Rightarrow> 'r"
  assumes thin_view: "0 \<le> now \<Longrightarrow> now < t \<Longrightarrow> view (thin now x) t = view x t"
begin

lemma sweep_transparent:
  "0 \<le> now \<Longrightarrow> now < t \<Longrightarrow> view (get (maybe_sweep c now) k) t = view (get c k) t"
  using get_maybe_sweep [of c now k] thin_view [of now t "get c k"] by auto

end

text \<open>Most maps drop whole entries; \<open>drop_dead\<close> is then the thinning.\<close>

definition drop_dead :: "('v \<Rightarrow> time \<Rightarrow> bool) \<Rightarrow> time \<Rightarrow> 'v option \<Rightarrow> 'v option" where
  "drop_dead dead now x = (case x of None \<Rightarrow> None | Some v \<Rightarrow> if dead v now then None else Some v)"

lemma drop_dead_simps [simp]:
  "drop_dead dead now None = None"
  "drop_dead dead now (Some v) = (if dead v now then None else Some v)"
  by (simp_all add: drop_dead_def)

lemma keep_entries_drop_dead: "keep_entries (\<lambda>v. \<not> dead v now) m k = drop_dead dead now (m k)"
  by (simp add: keep_entries_def drop_dead_def split: option.splits)

text \<open>The stores whose entries carry one expiry and are read as absent once it has passed.\<close>

definition expiring_dead :: "'v expiring \<Rightarrow> time \<Rightarrow> bool" where
  "expiring_dead i now \<longleftrightarrow> expires_at i < now"

lemma keep_expiring:
  "keep_entries (\<lambda>i. \<not> expires_at i < now) m k = drop_dead expiring_dead now (m k)"
  by (simp add: keep_entries_def drop_dead_def expiring_dead_def split: option.splits)

end
