(* ===== verification/Circuit.thy ===== *)
theory Circuit
  imports Cache_State
begin

text \<open>
  Two-level circuit breakers (channel.go): per upstream, and per model binding of an upstream. A
  breaker is open until \<open>open_until\<close>; in the \<open>circuit_probe_ttl\<close> after that it is half open and
  hands out one probe at a time; later it is closed. The string results of the source are the
  constructors of \<open>circuit_status\<close>.
\<close>

datatype circuit_status = Closed | Open | HalfOpenDenied | HalfOpenGranted

record circuit_failure_input =
  cf_upstream_id :: nat
  cf_model_key :: string
  cf_model_window_sec :: int
  cf_model_failure_threshold :: int
  cf_model_duration_sec :: int
  cf_upstream_window_sec :: int
  cf_upstream_failure_threshold :: int
  cf_upstream_model_threshold :: int
  cf_upstream_threshold_logic :: string
  cf_upstream_duration_sec :: int
  cf_active_model_keys :: "string list"

section \<open>Operations\<close>

definition zero_circuit :: circuit_state where
  "zero_circuit =
     \<lparr>open_until = zero_time, probe_until = zero_time, failures = [], manual_open = False,
      last_failure = zero_time\<rparr>"

definition model_circuit_key :: "nat \<Rightarrow> string \<Rightarrow> string" where
  "model_circuit_key uid model_key = dec uid @ CHR '':'' # trim_space model_key"

definition close_circuit :: "circuit_state \<Rightarrow> circuit_state" where
  "close_circuit s = s\<lparr>open_until := zero_time, probe_until := zero_time, manual_open := False\<rparr>"

definition check_circuit_state ::
  "circuit_state option \<Rightarrow> time \<Rightarrow> circuit_status \<times> circuit_state option" where
  "check_circuit_state st now =
     (case st of
        None \<Rightarrow> (Closed, None)
      | Some s \<Rightarrow>
          if manual_open s then
            (if now < open_until s then (Open, Some s) else (Closed, Some (close_circuit s)))
          else if now < open_until s then (Open, Some s)
          else if \<not> is_zero (open_until s) then
            (if open_until s + circuit_probe_ttl < now then (Closed, Some (close_circuit s))
             else if now < probe_until s then (HalfOpenDenied, Some s)
             else (HalfOpenGranted, Some (s\<lparr>probe_until := now + circuit_probe_ttl\<rparr>)))
          else (Closed, Some s))"

definition check_upstream_circuit_state :: "cache \<Rightarrow> nat \<Rightarrow> time \<Rightarrow> circuit_status \<times> cache" where
  "check_upstream_circuit_state c uid now =
     (let (status, st) = check_circuit_state (upstream_cb c uid) now
      in (status, c\<lparr>upstream_cb := (upstream_cb c)(uid := st)\<rparr>))"

definition check_model_circuit_state ::
  "cache \<Rightarrow> nat \<Rightarrow> string \<Rightarrow> time \<Rightarrow> circuit_status \<times> cache" where
  "check_model_circuit_state c uid model_key now =
     (let key = model_circuit_key uid model_key;
          (status, st) = check_circuit_state (model_cb c key) now
      in (status, c\<lparr>model_cb := (model_cb c)(key := st)\<rparr>))"

text \<open>\<open>ensureUpstreamCircuitLocked\<close> and \<open>ensureModelCircuitLocked\<close> return a pointer into the map.\<close>

definition ensure_upstream_circuit :: "cache \<Rightarrow> nat \<Rightarrow> circuit_state" where
  "ensure_upstream_circuit c uid =
     (case upstream_cb c uid of None \<Rightarrow> zero_circuit | Some s \<Rightarrow> s)"

definition ensure_model_circuit :: "cache \<Rightarrow> nat \<Rightarrow> string \<Rightarrow> circuit_state" where
  "ensure_model_circuit c uid model_key =
     (case model_cb c (model_circuit_key uid model_key) of None \<Rightarrow> zero_circuit | Some s \<Rightarrow> s)"

definition put_upstream_circuit :: "nat \<Rightarrow> circuit_state \<Rightarrow> cache \<Rightarrow> cache" where
  "put_upstream_circuit uid s c = c\<lparr>upstream_cb := (upstream_cb c)(uid \<mapsto> s)\<rparr>"

definition put_model_circuit :: "nat \<Rightarrow> string \<Rightarrow> circuit_state \<Rightarrow> cache \<Rightarrow> cache" where
  "put_model_circuit uid model_key s c =
     c\<lparr>model_cb := (model_cb c)(model_circuit_key uid model_key \<mapsto> s)\<rparr>"

definition failure_window :: "duration \<Rightarrow> duration" where
  "failure_window window = (if window \<le> 0 then 5 * minute else window)"

definition record_failure :: "circuit_state \<Rightarrow> time \<Rightarrow> duration \<Rightarrow> circuit_state" where
  "record_failure s now window =
     (let cutoff = now - failure_window window
      in s\<lparr>failures := filter (\<lambda>item. cutoff < item) (failures s) @ [now], last_failure := now\<rparr>)"

definition should_trip :: "circuit_state \<Rightarrow> int \<Rightarrow> bool" where
  "should_trip s threshold \<longleftrightarrow> 0 < threshold \<and> threshold \<le> int (length (failures s))"

fun open_model_count_loop ::
  "(string \<rightharpoonup> circuit_state) \<Rightarrow> nat \<Rightarrow> time \<Rightarrow> string list \<Rightarrow> string list \<Rightarrow> int" where
  "open_model_count_loop m uid now [] seen = 0"
| "open_model_count_loop m uid now (k # ks) seen =
     (let key = model_circuit_key uid k
      in if List.member seen key then open_model_count_loop m uid now ks seen
         else (case m key of None \<Rightarrow> 0 | Some s \<Rightarrow> if now < open_until s then 1 else 0)
              + open_model_count_loop m uid now ks (key # seen))"

definition open_model_count :: "cache \<Rightarrow> nat \<Rightarrow> string list \<Rightarrow> time \<Rightarrow> int" where
  "open_model_count c uid model_keys now =
     open_model_count_loop (model_cb c) uid now model_keys []"

record should_trip_upstream_input =
  st_failure_met :: bool
  st_failure_threshold :: int
  st_model_met :: bool
  st_model_threshold :: int
  st_logic :: string

definition should_trip_upstream :: "should_trip_upstream_input \<Rightarrow> bool" where
  "should_trip_upstream i =
     (if trim_space (st_logic i) = ''and'' then
        (if 0 < st_failure_threshold i \<and> 0 < st_model_threshold i
           then st_failure_met i \<and> st_model_met i
         else if 0 < st_failure_threshold i then st_failure_met i
         else if 0 < st_model_threshold i then st_model_met i
         else False)
      else st_failure_met i \<or> st_model_met i)"

definition model_after_failure :: "cache \<Rightarrow> circuit_failure_input \<Rightarrow> time \<Rightarrow> circuit_state" where
  "model_after_failure c i now =
     (let s = ensure_model_circuit c (cf_upstream_id i) (cf_model_key i);
          probe_failed = now < probe_until s;
          s = record_failure (s\<lparr>probe_until := zero_time\<rparr>) now (seconds (cf_model_window_sec i))
      in if (probe_failed \<or> should_trip s (cf_model_failure_threshold i)) \<and> 0 < cf_model_duration_sec i
         then s\<lparr>open_until := now + seconds (cf_model_duration_sec i), manual_open := False\<rparr>
         else s)"

definition upstream_after_failure :: "cache \<Rightarrow> circuit_failure_input \<Rightarrow> time \<Rightarrow> circuit_state" where
  "upstream_after_failure c i now =
     (let s = ensure_upstream_circuit c (cf_upstream_id i);
          probe_failed = now < probe_until s;
          s = record_failure (s\<lparr>probe_until := zero_time\<rparr>) now (seconds (cf_upstream_window_sec i));
          fail_met = (probe_failed \<or> should_trip s (cf_upstream_failure_threshold i));
          model_met = (0 < cf_upstream_model_threshold i \<and>
            cf_upstream_model_threshold i
              \<le> open_model_count c (cf_upstream_id i) (cf_active_model_keys i) now)
      in if should_trip_upstream
              \<lparr>st_failure_met = fail_met, st_failure_threshold = cf_upstream_failure_threshold i,
               st_model_met = model_met, st_model_threshold = cf_upstream_model_threshold i,
               st_logic = cf_upstream_threshold_logic i\<rparr> \<and> 0 < cf_upstream_duration_sec i
         then s\<lparr>open_until := now + seconds (cf_upstream_duration_sec i), manual_open := False\<rparr>
         else s)"

definition record_circuit_failure :: "cache \<Rightarrow> circuit_failure_input \<Rightarrow> time \<Rightarrow> cache" where
  "record_circuit_failure c i now =
     (if cf_upstream_id i = 0 \<or> trim_space (cf_model_key i) = [] then c
      else
        let c1 = put_model_circuit (cf_upstream_id i) (cf_model_key i) (model_after_failure c i now) c;
            c2 = put_upstream_circuit (cf_upstream_id i) (upstream_after_failure c1 i now) c1
        in maybe_sweep c2 now)"

definition record_failure_metadata :: "cache \<Rightarrow> nat \<Rightarrow> string \<Rightarrow> time \<Rightarrow> cache" where
  "record_failure_metadata c uid last_error now =
     maybe_sweep
       (c\<lparr>upstream_meta := (upstream_meta c)
          (uid \<mapsto> \<lparr>meta_last_error = last_error, meta_last_failure = now,
                  meta_last_success = zero_time\<rparr>)\<rparr>) now"

definition record_success_metadata :: "cache \<Rightarrow> nat \<Rightarrow> time \<Rightarrow> cache" where
  "record_success_metadata c uid now =
     (let meta = (case upstream_meta c uid of
                    None \<Rightarrow> \<lparr>meta_last_error = [], meta_last_failure = zero_time,
                             meta_last_success = zero_time\<rparr>
                  | Some m \<Rightarrow> m)
      in maybe_sweep
           (c\<lparr>upstream_meta := (upstream_meta c)(uid \<mapsto> meta\<lparr>meta_last_success := now\<rparr>)\<rparr>) now)"

definition clear_upstream_circuit_keys :: "cache \<Rightarrow> nat \<Rightarrow> cache" where
  "clear_upstream_circuit_keys c uid = c\<lparr>upstream_cb := (upstream_cb c)(uid := None)\<rparr>"

definition clear_model_circuit_keys :: "cache \<Rightarrow> nat \<Rightarrow> string \<Rightarrow> cache" where
  "clear_model_circuit_keys c uid model_key =
     c\<lparr>model_cb := (model_cb c)(model_circuit_key uid model_key := None)\<rparr>"

definition reset_all_circuit_states :: "cache \<Rightarrow> cache" where
  "reset_all_circuit_states c = c\<lparr>upstream_cb := Map.empty, model_cb := Map.empty\<rparr>"

definition release_probe :: "circuit_state option \<Rightarrow> circuit_state option" where
  "release_probe = map_option (\<lambda>s. s\<lparr>probe_until := zero_time\<rparr>)"

definition release_route_probes :: "cache \<Rightarrow> nat \<Rightarrow> string \<Rightarrow> cache" where
  "release_route_probes c uid model_key =
     (if trim_space model_key = []
      then c\<lparr>upstream_cb := (upstream_cb c)(uid := release_probe (upstream_cb c uid))\<rparr>
      else
        let key = model_circuit_key uid model_key
        in c\<lparr>model_cb := (model_cb c)(key := release_probe (model_cb c key))\<rparr>)"

definition open_manually :: "circuit_state \<Rightarrow> time \<Rightarrow> circuit_state" where
  "open_manually s now =
     s\<lparr>open_until := now + circuit_manual_open_duration, manual_open := True\<rparr>"

definition open_upstream_circuit :: "cache \<Rightarrow> nat \<Rightarrow> time \<Rightarrow> cache" where
  "open_upstream_circuit c uid now =
     maybe_sweep
       (put_upstream_circuit uid (open_manually (ensure_upstream_circuit c uid) now) c) now"

definition reset_upstream_circuit :: "cache \<Rightarrow> nat \<Rightarrow> cache" where
  "reset_upstream_circuit c uid =
     c\<lparr>upstream_cb := (upstream_cb c)(uid := None), upstream_meta := (upstream_meta c)(uid := None)\<rparr>"

definition open_model_circuit :: "cache \<Rightarrow> nat \<Rightarrow> string \<Rightarrow> time \<Rightarrow> cache" where
  "open_model_circuit c uid model_key now =
     maybe_sweep
       (put_model_circuit uid model_key
          (open_manually (ensure_model_circuit c uid model_key) now) c) now"

definition reset_model_circuit :: "cache \<Rightarrow> nat \<Rightarrow> string \<Rightarrow> cache" where
  "reset_model_circuit c uid model_key =
     c\<lparr>model_cb := (model_cb c)(model_circuit_key uid model_key := None)\<rparr>"

definition query_circuit_status :: "circuit_state option \<Rightarrow> time \<Rightarrow> bool \<times> string" where
  "query_circuit_status st now =
     (case st of
        None \<Rightarrow> (False, [])
      | Some s \<Rightarrow> if \<not> now < open_until s then (False, [])
                 else (True, format_int (unix (open_until s))))"

definition query_upstream_circuit_status :: "cache \<Rightarrow> nat \<Rightarrow> time \<Rightarrow> bool \<times> string" where
  "query_upstream_circuit_status c uid now = query_circuit_status (upstream_cb c uid) now"

definition query_model_circuit_status :: "cache \<Rightarrow> nat \<Rightarrow> string \<Rightarrow> time \<Rightarrow> bool \<times> string" where
  "query_model_circuit_status c uid model_key now =
     query_circuit_status (model_cb c (model_circuit_key uid model_key)) now"

section \<open>Keys\<close>

lemma model_circuit_key_eq_iff:
  "model_circuit_key u m = model_circuit_key u' m' \<longleftrightarrow> u = u' \<and> trim_space m = trim_space m'"
  by (simp add: model_circuit_key_def dec_colon_inj)

section \<open>One breaker over time\<close>

lemmas check_defs = check_circuit_state_def close_circuit_def is_zero_def zero_time_def

lemma check_None [simp]: "check_circuit_state None now = (Closed, None)"
  by (simp add: check_circuit_state_def)

lemma check_Open_iff: "fst (check_circuit_state (Some s) now) = Open \<longleftrightarrow> now < open_until s"
  by (simp add: check_circuit_state_def)

lemma check_Open_unchanged:
  "fst (check_circuit_state x now) = Open \<Longrightarrow> snd (check_circuit_state x now) = x"
  by (auto simp: check_circuit_state_def split: option.splits if_splits)

lemma check_failures [simp]:
  "map_option failures (snd (check_circuit_state x now)) = map_option failures x"
  "map_option last_failure (snd (check_circuit_state x now)) = map_option last_failure x"
  by (auto simp: check_circuit_state_def close_circuit_def split: option.splits)

text \<open>The four answers of a check that is not manual, by the time since the opening.\<close>

definition breaker_phase :: "circuit_state \<Rightarrow> time \<Rightarrow> circuit_status" where
  "breaker_phase s now =
     (if now < open_until s then Open
      else if manual_open s \<or> open_until s = 0 \<or> open_until s + circuit_probe_ttl < now then Closed
      else if now < probe_until s then HalfOpenDenied else HalfOpenGranted)"

lemma check_phase: "fst (check_circuit_state (Some s) now) = breaker_phase s now"
  by (simp add: check_defs breaker_phase_def)

text \<open>A breaker that no check will grant a probe on before \<open>e\<close>: settled closed, or probing.\<close>

definition no_grant_before :: "time \<Rightarrow> circuit_state option \<Rightarrow> bool" where
  "no_grant_before e x \<longleftrightarrow>
     (case x of
        None \<Rightarrow> True
      | Some s \<Rightarrow> \<not> manual_open s \<and> (open_until s = 0 \<or> e \<le> probe_until s))"

lemma no_grant_before_check:
  assumes "no_grant_before e x" "0 \<le> now" "now < e"
  shows "fst (check_circuit_state x now) \<noteq> HalfOpenGranted"
    and "no_grant_before e (snd (check_circuit_state x now))"
  using assms by (auto simp: no_grant_before_def check_defs split: option.splits)

lemma granted_no_grant_before:
  assumes "fst (check_circuit_state x now) = HalfOpenGranted"
  shows "no_grant_before (now + circuit_probe_ttl) (snd (check_circuit_state x now))"
  using assms by (auto simp: no_grant_before_def check_defs split: option.splits if_splits)

section \<open>Histories of calls\<close>

text \<open>
  The calls of the channel cache that reach a breaker, and one step of the cache per call. A slot
  names one breaker: an upstream, or the key of a model binding.
\<close>

datatype circuit_call =
    CheckUpstream nat
  | CheckModel nat string
  | RecordFailure circuit_failure_input
  | RecordFailureMeta nat string
  | RecordSuccessMeta nat
  | ClearUpstream nat
  | ClearModel nat string
  | ResetAll
  | ReleaseProbes nat string
  | OpenUpstream nat
  | ResetUpstream nat
  | OpenModel nat string
  | ResetModel nat string

datatype slot = UpstreamSlot nat | ModelSlot string

fun slot_state :: "cache \<Rightarrow> slot \<Rightarrow> circuit_state option" where
  "slot_state c (UpstreamSlot uid) = upstream_cb c uid"
| "slot_state c (ModelSlot key) = model_cb c key"

fun circuit_step :: "cache \<Rightarrow> time \<Rightarrow> circuit_call \<Rightarrow> circuit_status option \<times> cache" where
  "circuit_step c now (CheckUpstream uid) =
     (let (st, c') = check_upstream_circuit_state c uid now in (Some st, c'))"
| "circuit_step c now (CheckModel uid m) =
     (let (st, c') = check_model_circuit_state c uid m now in (Some st, c'))"
| "circuit_step c now (RecordFailure i) = (None, record_circuit_failure c i now)"
| "circuit_step c now (RecordFailureMeta uid e) = (None, record_failure_metadata c uid e now)"
| "circuit_step c now (RecordSuccessMeta uid) = (None, record_success_metadata c uid now)"
| "circuit_step c now (ClearUpstream uid) = (None, clear_upstream_circuit_keys c uid)"
| "circuit_step c now (ClearModel uid m) = (None, clear_model_circuit_keys c uid m)"
| "circuit_step c now ResetAll = (None, reset_all_circuit_states c)"
| "circuit_step c now (ReleaseProbes uid m) = (None, release_route_probes c uid m)"
| "circuit_step c now (OpenUpstream uid) = (None, open_upstream_circuit c uid now)"
| "circuit_step c now (ResetUpstream uid) = (None, reset_upstream_circuit c uid)"
| "circuit_step c now (OpenModel uid m) = (None, open_model_circuit c uid m now)"
| "circuit_step c now (ResetModel uid m) = (None, reset_model_circuit c uid m)"

text \<open>Which slot a check reads, and which slots any other call writes.\<close>

fun checked_slot :: "circuit_call \<Rightarrow> slot option" where
  "checked_slot (CheckUpstream uid) = Some (UpstreamSlot uid)"
| "checked_slot (CheckModel uid m) = Some (ModelSlot (model_circuit_key uid m))"
| "checked_slot call = None"

fun writes_slot :: "circuit_call \<Rightarrow> slot \<Rightarrow> bool" where
  "writes_slot (RecordFailure i) sl \<longleftrightarrow>
     cf_upstream_id i \<noteq> 0 \<and> trim_space (cf_model_key i) \<noteq> [] \<and>
     (sl = UpstreamSlot (cf_upstream_id i) \<or>
      sl = ModelSlot (model_circuit_key (cf_upstream_id i) (cf_model_key i)))"
| "writes_slot (ClearUpstream uid) sl \<longleftrightarrow> sl = UpstreamSlot uid"
| "writes_slot (ClearModel uid m) sl \<longleftrightarrow> sl = ModelSlot (model_circuit_key uid m)"
| "writes_slot ResetAll sl \<longleftrightarrow> True"
| "writes_slot (ReleaseProbes uid m) sl \<longleftrightarrow>
     sl = (if trim_space m = [] then UpstreamSlot uid else ModelSlot (model_circuit_key uid m))"
| "writes_slot (OpenUpstream uid) sl \<longleftrightarrow> sl = UpstreamSlot uid"
| "writes_slot (ResetUpstream uid) sl \<longleftrightarrow> sl = UpstreamSlot uid"
| "writes_slot (OpenModel uid m) sl \<longleftrightarrow> sl = ModelSlot (model_circuit_key uid m)"
| "writes_slot (ResetModel uid m) sl \<longleftrightarrow> sl = ModelSlot (model_circuit_key uid m)"
| "writes_slot call sl \<longleftrightarrow> False"

fun circuit_run :: "cache \<Rightarrow> (time \<times> circuit_call) list \<Rightarrow> circuit_status option list \<times> cache" where
  "circuit_run c [] = ([], c)"
| "circuit_run c ((now, call) # h) =
     (let (r, c') = circuit_step c now call; (rs, c'') = circuit_run c' h in (r # rs, c''))"

section \<open>The sweep and the breakers\<close>

definition circuit_dead :: "circuit_state \<Rightarrow> time \<Rightarrow> bool" where
  "circuit_dead s now \<longleftrightarrow> circuit_state_expired (Some s) now"

lemma slot_state_sweep:
  "slot_state (sweep_expired c now) sl = drop_dead circuit_dead now (slot_state c sl)"
  by (cases sl)
    (auto simp: sweep_maps keep_entries_def drop_dead_def circuit_dead_def split: option.splits)

lemma slot_state_ops: "slot_state (c\<lparr>ops := n\<rparr>) sl = slot_state c sl"
  by (cases sl) simp_all

lemma dead_circuit_closed:
  assumes "circuit_dead s now" "0 \<le> now" "now < t"
  shows "fst (check_circuit_state (Some s) t) = Closed"
  using assms
  by (auto simp: check_phase breaker_phase_def circuit_dead_def circuit_state_expired_def
        is_zero_def zero_time_def split: if_splits)
    (use circuit_probe_ttl_pos in linarith)+

interpretation breakers: swept_view slot_state "drop_dead circuit_dead"
  "\<lambda>x t. fst (check_circuit_state x t)"
  by unfold_locales
    (auto simp: slot_state_sweep slot_state_ops drop_dead_def dead_circuit_closed
      split: option.splits)

text \<open>What one call does to a slot: a check runs on it, any other call leaves it or sweeps it.\<close>

lemma slot_put [simp]:
  "slot_state (put_upstream_circuit uid s c) sl =
     (if sl = UpstreamSlot uid then Some s else slot_state c sl)"
  "slot_state (put_model_circuit uid m s c) sl =
     (if sl = ModelSlot (model_circuit_key uid m) then Some s else slot_state c sl)"
  by (cases sl; simp add: put_upstream_circuit_def put_model_circuit_def)+

lemma slot_meta [simp]: "slot_state (c\<lparr>upstream_meta := x\<rparr>) sl = slot_state c sl"
  by (cases sl) simp_all

lemma step_checked:
  assumes "checked_slot call = Some sl"
  shows "fst (circuit_step c now call) = Some (fst (check_circuit_state (slot_state c sl) now))"
    and "slot_state (snd (circuit_step c now call)) sl =
           snd (check_circuit_state (slot_state c sl) now)"
  using assms
  by (cases call;
      auto simp: check_upstream_circuit_state_def check_model_circuit_state_def Let_def
        split: prod.splits)+

lemma step_unwritten:
  assumes "\<not> writes_slot call sl" "checked_slot call \<noteq> Some sl"
  shows "slot_state (snd (circuit_step c now call)) sl = slot_state c sl \<or>
         slot_state (snd (circuit_step c now call)) sl = drop_dead circuit_dead now (slot_state c sl)"
proof -
  have swept: "\<And>d. slot_state d sl = slot_state c sl \<Longrightarrow>
      slot_state (maybe_sweep d now) sl = slot_state c sl \<or>
      slot_state (maybe_sweep d now) sl = drop_dead circuit_dead now (slot_state c sl)"
    using breakers.get_maybe_sweep by metis
  show ?thesis
  proof (cases call)
    case (RecordFailure i)
    then show ?thesis
      using assms by (auto simp: record_circuit_failure_def Let_def intro!: swept)
  next
    case (RecordFailureMeta uid e)
    then show ?thesis
      using swept by (simp add: record_failure_metadata_def)
  next
    case (RecordSuccessMeta uid)
    then show ?thesis
      using swept by (simp add: record_success_metadata_def Let_def)
  next
    case (OpenUpstream uid)
    then show ?thesis
      using assms swept by (simp add: open_upstream_circuit_def)
  next
    case (OpenModel uid m)
    then show ?thesis
      using assms swept by (simp add: open_model_circuit_def)
  qed (use assms in \<open>cases sl; auto simp: check_upstream_circuit_state_def
      check_model_circuit_state_def clear_upstream_circuit_keys_def clear_model_circuit_keys_def
      release_route_probes_def reset_upstream_circuit_def reset_model_circuit_def Let_def
      split: prod.splits if_splits\<close>)+
qed

section \<open>Probes, openness and isolation over histories\<close>

definition times_between :: "time \<Rightarrow> time \<Rightarrow> (time \<times> circuit_call) list \<Rightarrow> bool" where
  "times_between lo hi h \<longleftrightarrow> list_all (\<lambda>(t, call). lo \<le> t \<and> t < hi) h"

definition leaves_slot :: "slot \<Rightarrow> (time \<times> circuit_call) list \<Rightarrow> bool" where
  "leaves_slot sl h \<longleftrightarrow> list_all (\<lambda>(t, call). \<not> writes_slot call sl) h"

text \<open>
  A predicate on the state of a slot that checks keep and that survives the loss of a dead entry
  holds along a history that does not write the slot; the answers to its checks follow.
\<close>

lemma run_slot_inv:
  assumes P0: "P (slot_state c sl)"
    and h: "times_between lo hi h" "leaves_slot sl h"
    and chk: "\<And>x now. P x \<Longrightarrow> lo \<le> now \<Longrightarrow> now < hi \<Longrightarrow>
        Q (fst (check_circuit_state x now)) \<and> P (snd (check_circuit_state x now))"
    and thin: "\<And>x now. P x \<Longrightarrow> lo \<le> now \<Longrightarrow> now < hi \<Longrightarrow> P (drop_dead circuit_dead now x)"
  shows "P (slot_state (snd (circuit_run c h)) sl) \<and>
         (\<forall>i < length h. checked_slot (snd (h ! i)) = Some sl \<longrightarrow>
            (\<exists>st. fst (circuit_run c h) ! i = Some st \<and> Q st))"
  using P0 h
proof (induction h arbitrary: c)
  case Nil
  then show ?case by simp
next
  case (Cons e h)
  obtain now call where e: "e = (now, call)" by (cases e)
  let ?c = "snd (circuit_step c now call)"
  from Cons.prems e have now: "lo \<le> now" "now < hi" and w: "\<not> writes_slot call sl"
    and h: "times_between lo hi h" "leaves_slot sl h"
    by (auto simp: times_between_def leaves_slot_def)
  have P: "P (slot_state ?c sl)"
  proof (cases "checked_slot call = Some sl")
    case True
    then show ?thesis using step_checked(2) chk Cons.prems(1) now by metis
  next
    case False
    then show ?thesis using step_unwritten [OF w False] thin Cons.prems(1) now by metis
  qed
  have Q: "checked_slot call = Some sl \<Longrightarrow> \<exists>st. fst (circuit_step c now call) = Some st \<and> Q st"
    using step_checked(1) chk Cons.prems(1) now by blast
  from Cons.IH [OF P h] Q show ?case
    by (auto simp: e nth_Cons split: prod.splits nat.splits)
qed

text \<open>
  C21. Probe exclusivity. Once a check has granted a half-open probe of a breaker at time \<open>t\<close>, then
  in any history of channel-cache calls during the next \<open>circuit_probe_ttl\<close> that does not record a
  failure on, clear, reset, release or manually open that breaker, no further check of it is
  granted a probe, whatever the other calls, their order and the sweeps they trigger.
\<close>

theorem probe_exclusive:
  assumes "checked_slot call = Some sl" "0 \<le> t"
    and "circuit_step c t call = (Some HalfOpenGranted, c')"
    and "times_between t (t + circuit_probe_ttl) h" "leaves_slot sl h"
    and "i < length h" "checked_slot (snd (h ! i)) = Some sl"
  shows "fst (circuit_run c' h) ! i \<noteq> Some HalfOpenGranted"
proof -
  let ?e = "t + circuit_probe_ttl"
  have "no_grant_before ?e (slot_state c' sl)"
    using step_checked [OF assms(1), of c t] assms(3) granted_no_grant_before
    by (metis fst_conv option.inject snd_conv)
  moreover have "\<And>x now. no_grant_before ?e x \<Longrightarrow> no_grant_before ?e (drop_dead circuit_dead now x)"
    by (simp add: no_grant_before_def drop_dead_def split: option.splits)
  ultimately show ?thesis
    using run_slot_inv [of "no_grant_before ?e" c' sl t ?e h "\<lambda>st. st \<noteq> HalfOpenGranted"]
      no_grant_before_check [of ?e] assms(2,4-7) by fastforce
qed

text \<open>
  An open breaker stays open. While no call writes the breaker, every check of it before its
  deadline answers Open, and no sweep loses the entry.
\<close>

theorem open_until_deadline:
  assumes "slot_state c sl = Some s" "0 < open_until s"
    and "times_between lo (open_until s) h" "leaves_slot sl h"
  shows "slot_state (snd (circuit_run c h)) sl = Some s \<and>
         (\<forall>i < length h. checked_slot (snd (h ! i)) = Some sl \<longrightarrow>
            fst (circuit_run c h) ! i = Some Open)"
proof -
  have "now < open_until s + circuit_probe_ttl" if "now < open_until s" for now
    using circuit_probe_ttl_pos that by linarith
  then have "\<And>now. now < open_until s \<Longrightarrow> \<not> circuit_dead s now"
    using assms(2) by (simp add: circuit_dead_def circuit_state_expired_def is_zero_def zero_time_def)
  then show ?thesis
    using run_slot_inv [of "\<lambda>x. x = Some s" c sl lo "open_until s" h "\<lambda>st. st = Open"] assms
    by (auto simp: check_Open_iff [THEN iffD2] check_Open_unchanged)
qed

text \<open>
  Isolation. A call that neither writes nor checks a breaker, in particular a failure recorded
  for another binding or another upstream, changes no later answer of that breaker, even when the
  call runs the periodic sweep.
\<close>

theorem breaker_isolation:
  assumes "\<not> writes_slot call sl" "checked_slot call \<noteq> Some sl" "0 \<le> now" "now < t"
  shows "fst (check_circuit_state (slot_state (snd (circuit_step c now call)) sl) t) =
         fst (check_circuit_state (slot_state c sl) t)"
  using step_unwritten [OF assms(1,2), of c now] breakers.thin_view [OF assms(3,4)] by metis

section \<open>The failure window\<close>

text \<open>
  The breaker keeps one list of failure times and filters it in place at every failure. Its
  specification is declarative: the failures of the whole history that lie in the window.
\<close>

definition recent :: "time \<Rightarrow> circuit_state option \<Rightarrow> time list" where
  "recent cutoff x = (case x of None \<Rightarrow> [] | Some s \<Rightarrow> filter (\<lambda>u. cutoff < u) (failures s))"

definition failures_below :: "circuit_state option \<Rightarrow> time \<Rightarrow> bool" where
  "failures_below x now \<longleftrightarrow>
     (case x of
        None \<Rightarrow> True
      | Some s \<Rightarrow> (\<forall>u \<in> set (failures s). 0 < u \<and> u \<le> last_failure s) \<and> last_failure s \<le> now)"

text \<open>\<open>tracks W ts now x\<close>: seen from any time from \<open>now\<close> on, the entry holds exactly the failures
  \<open>ts\<close> of the last \<open>W\<close>.\<close>

definition tracks :: "duration \<Rightarrow> time list \<Rightarrow> time \<Rightarrow> circuit_state option \<Rightarrow> bool" where
  "tracks W ts now x \<longleftrightarrow>
     failures_below x now \<and> (\<forall>t \<ge> now. recent (t - W) x = filter (\<lambda>u. t - W < u) ts)"

fun forgets_slot :: "circuit_call \<Rightarrow> slot \<Rightarrow> bool" where
  "forgets_slot (ClearUpstream uid) sl \<longleftrightarrow> sl = UpstreamSlot uid"
| "forgets_slot (ClearModel uid m) sl \<longleftrightarrow> sl = ModelSlot (model_circuit_key uid m)"
| "forgets_slot ResetAll sl \<longleftrightarrow> True"
| "forgets_slot (ResetUpstream uid) sl \<longleftrightarrow> sl = UpstreamSlot uid"
| "forgets_slot (ResetModel uid m) sl \<longleftrightarrow> sl = ModelSlot (model_circuit_key uid m)"
| "forgets_slot call sl \<longleftrightarrow> False"

text \<open>The window a recorded failure counts in, for each of the two breakers it writes.\<close>

fun slot_window :: "circuit_failure_input \<Rightarrow> slot \<Rightarrow> duration" where
  "slot_window i (UpstreamSlot uid) = failure_window (seconds (cf_upstream_window_sec i))"
| "slot_window i (ModelSlot key) = failure_window (seconds (cf_model_window_sec i))"

fun records_failure :: "circuit_call \<Rightarrow> slot \<Rightarrow> bool" where
  "records_failure (RecordFailure i) sl \<longleftrightarrow> writes_slot (RecordFailure i) sl"
| "records_failure call sl \<longleftrightarrow> False"

fun call_window :: "circuit_call \<Rightarrow> slot \<Rightarrow> duration" where
  "call_window (RecordFailure i) sl = slot_window i sl"
| "call_window call sl = 0"

definition failure_times :: "slot \<Rightarrow> (time \<times> circuit_call) list \<Rightarrow> time list" where
  "failure_times sl h = map fst (filter (\<lambda>(t, call). records_failure call sl) h)"

lemma recent_same_failures:
  "map_option failures x = map_option failures y \<Longrightarrow> recent k x = recent k y"
  by (cases x; cases y) (simp_all add: recent_def)

lemma failures_below_same:
  assumes "map_option failures x = map_option failures y"
    and "map_option last_failure x = map_option last_failure y"
  shows "failures_below x = failures_below y"
  using assms by (cases x; cases y) (simp_all add: failures_below_def fun_eq_iff)

lemma tracks_same:
  assumes "map_option failures x = map_option failures y"
    and "map_option last_failure x = map_option last_failure y"
  shows "tracks W ts now x = tracks W ts now y"
  using recent_same_failures [OF assms(1)] failures_below_same [OF assms] by (simp add: tracks_def)

lemma tracks_later: "tracks W ts now x \<Longrightarrow> now \<le> t \<Longrightarrow> tracks W ts t x"
  by (auto simp: tracks_def failures_below_def split: option.splits)

lemma tracks_thin:
  assumes "tracks W ts now x" "W \<le> circuit_state_retention" "0 \<le> now"
  shows "tracks W ts now (drop_dead circuit_dead now x)"
proof (cases x)
  case None
  with assms show ?thesis by simp
next
  case (Some s)
  show ?thesis
  proof (cases "circuit_dead s now")
    case False
    with Some assms(1) show ?thesis by simp
  next
    case True
    have below: "\<forall>u \<in> set (failures s). 0 < u \<and> u \<le> last_failure s"
      using assms(1) Some by (simp add: tracks_def failures_below_def)
    have dead: "last_failure s = 0 \<or> last_failure s + circuit_state_retention \<le> now"
      using True by (simp add: circuit_dead_def circuit_state_expired_def is_zero_def zero_time_def
          not_less split: if_splits)
    have "recent (t - W) x = []" if "now \<le> t" for t
      unfolding recent_def Some option.case filter_empty_conv
    proof
      fix u assume "u \<in> set (failures s)"
      with below dead assms(2) that show "\<not> t - W < u" by fastforce
    qed
    with assms(1) Some True show ?thesis
      by (simp add: tracks_def failures_below_def recent_def)
  qed
qed

lemma record_failure_recent:
  assumes "W \<le> failure_window w" "tracks W ts n x" "n \<le> now" "0 < now" "0 < W"
    and x: "failures s = (case x of None \<Rightarrow> [] | Some s' \<Rightarrow> failures s')"
  shows "failure_window w = W \<Longrightarrow> failures (record_failure s now w) = filter (\<lambda>u. now - W < u) (ts @ [now])"
    and "tracks W (ts @ [now]) now (Some (record_failure s now w))"
proof -
  let ?V = "failure_window w"
  have f: "failures (record_failure s now w) = filter (\<lambda>u. now - ?V < u) (failures s @ [now])"
    using assms(1,5) by (simp add: record_failure_def Let_def)
  have eq: "filter (\<lambda>u. t - W < u) (failures s) = filter (\<lambda>u. t - W < u) ts" if "now \<le> t" for t
    using assms(2,3) x that by (simp add: tracks_def recent_def split: option.splits)
  show "failures (record_failure s now w) = filter (\<lambda>u. now - W < u) (ts @ [now])" if "?V = W"
    using f eq [of now] that by simp
  have below: "\<forall>u \<in> set (failures s). 0 < u \<and> u \<le> now"
    using assms(2,3) x by (fastforce simp: tracks_def failures_below_def split: option.splits)
  have sub: "filter (\<lambda>u. t - W < u) (filter (\<lambda>u. now - ?V < u) us) = filter (\<lambda>u. t - W < u) us"
    if "now \<le> t" for t us
    unfolding filter_filter using that assms(1) by (intro filter_cong) auto
  have "failures_below (Some (record_failure s now w)) now"
    using below assms(4) by (auto simp: failures_below_def record_failure_def Let_def)
  moreover have "recent (t - W) (Some (record_failure s now w)) = filter (\<lambda>u. t - W < u) (ts @ [now])"
    if "now \<le> t" for t
    unfolding recent_def option.case f sub [OF that] using eq [OF that] by simp
  ultimately show "tracks W (ts @ [now]) now (Some (record_failure s now w))"
    by (simp add: tracks_def)
qed

lemma model_after_failure_fields:
  "failures (model_after_failure c i now) =
     failures (record_failure (ensure_model_circuit c (cf_upstream_id i) (cf_model_key i)) now
       (seconds (cf_model_window_sec i)))"
  "last_failure (model_after_failure c i now) = now"
  "failures (upstream_after_failure c i now) =
     failures (record_failure (ensure_upstream_circuit c (cf_upstream_id i)) now
       (seconds (cf_upstream_window_sec i)))"
  "last_failure (upstream_after_failure c i now) = now"
  by (simp_all add: model_after_failure_def upstream_after_failure_def record_failure_def Let_def)

lemma put_circuit_maps [simp]:
  "upstream_cb (put_upstream_circuit uid s c) = (upstream_cb c)(uid \<mapsto> s)"
  "model_cb (put_model_circuit uid m s c) = (model_cb c)(model_circuit_key uid m \<mapsto> s)"
  "upstream_cb (put_model_circuit uid m s c) = upstream_cb c"
  "model_cb (put_upstream_circuit uid s c) = model_cb c"
  by (simp_all add: put_upstream_circuit_def put_model_circuit_def)

text \<open>A recorded failure on a slot it writes, up to the sweep at the end of the call.\<close>

lemma record_step_slot:
  assumes "writes_slot (RecordFailure i) sl"
  obtains s f where "slot_state f sl = Some s"
    and "record_circuit_failure c i now = maybe_sweep f now"
    and "failures s = failures (record_failure
           (case slot_state c sl of None \<Rightarrow> zero_circuit | Some s' \<Rightarrow> s') now
           (case sl of UpstreamSlot _ \<Rightarrow> seconds (cf_upstream_window_sec i)
                     | ModelSlot _ \<Rightarrow> seconds (cf_model_window_sec i)))"
    and "last_failure s = now"
proof -
  let ?c1 = "put_model_circuit (cf_upstream_id i) (cf_model_key i) (model_after_failure c i now) c"
  let ?c2 = "put_upstream_circuit (cf_upstream_id i) (upstream_after_failure ?c1 i now) ?c1"
  have r: "record_circuit_failure c i now = maybe_sweep ?c2 now"
    using assms by (auto simp: record_circuit_failure_def Let_def)
  show thesis
  proof (cases sl)
    case (UpstreamSlot uid)
    with assms have "uid = cf_upstream_id i" by simp
    with UpstreamSlot show ?thesis
      by (intro that [of ?c2 "upstream_after_failure ?c1 i now", OF _ r])
        (simp_all add: model_after_failure_fields ensure_upstream_circuit_def)
  next
    case (ModelSlot key)
    with assms have "key = model_circuit_key (cf_upstream_id i) (cf_model_key i)" by simp
    with ModelSlot show ?thesis
      by (intro that [of ?c2 "model_after_failure c i now", OF _ r])
        (simp_all add: model_after_failure_fields ensure_model_circuit_def)
  qed
qed

lemma failures_zero_circuit [simp]: "failures zero_circuit = []"
  by (simp add: zero_circuit_def)

lemma recorded_tracks:
  assumes "writes_slot (RecordFailure i) sl" "W \<le> slot_window i sl" "0 < W"
    and "W \<le> circuit_state_retention" "tracks W ts n (slot_state c sl)" "n \<le> now" "0 < now"
  shows "tracks W (ts @ [now]) now (slot_state (record_circuit_failure c i now) sl)"
proof -
  let ?s0 = "case slot_state c sl of None \<Rightarrow> zero_circuit | Some s' \<Rightarrow> s'"
  let ?w = "case sl of UpstreamSlot _ \<Rightarrow> seconds (cf_upstream_window_sec i)
                     | ModelSlot _ \<Rightarrow> seconds (cf_model_window_sec i)"
  obtain s f where f: "slot_state f sl = Some s" "record_circuit_failure c i now = maybe_sweep f now"
    "failures s = failures (record_failure ?s0 now ?w)" "last_failure s = now"
    by (rule record_step_slot [OF assms(1)])
  have w: "W \<le> failure_window ?w"
    using assms(2) by (cases sl) simp_all
  have x: "failures ?s0 = (case slot_state c sl of None \<Rightarrow> [] | Some s' \<Rightarrow> failures s')"
    by (simp split: option.splits)
  have "tracks W (ts @ [now]) now (Some (record_failure ?s0 now ?w))"
    using record_failure_recent(2) [OF w assms(5,6,7,3) x] .
  then have "tracks W (ts @ [now]) now (slot_state f sl)"
    using f by (subst tracks_same) (simp_all add: record_failure_def Let_def)
  then show ?thesis
    using breakers.get_maybe_sweep [of f now sl] tracks_thin assms(4,7) f(2)
    by (metis less_imp_le)
qed

lemma tracks_open:
  assumes "tracks W ts now x" "0 < now"
  shows "tracks W ts now (Some (open_manually (case x of None \<Rightarrow> zero_circuit | Some s \<Rightarrow> s) t))"
  using assms
  by (cases x)
    (simp_all add: tracks_def failures_below_def recent_def open_manually_def zero_circuit_def
      zero_time_def)

lemma kept_tracks:
  assumes "\<not> forgets_slot call sl" "\<not> records_failure call sl"
    and "W \<le> circuit_state_retention" "tracks W ts n (slot_state c sl)" "n \<le> now" "0 < now"
  shows "tracks W ts now (slot_state (snd (circuit_step c now call)) sl)"
proof -
  have t: "tracks W ts now (slot_state c sl)"
    using assms(4,5) by (rule tracks_later)
  then have thin: "tracks W ts now (drop_dead circuit_dead now (slot_state c sl))"
    using assms(3,6) by (simp add: tracks_thin)
  have swept: "tracks W ts now (slot_state d sl) \<Longrightarrow> tracks W ts now (slot_state (maybe_sweep d now) sl)"
    for d using breakers.get_maybe_sweep [of d now sl] tracks_thin assms(3,6) by (metis less_imp_le)
  consider "checked_slot call = Some sl" | "checked_slot call \<noteq> Some sl" "\<not> writes_slot call sl"
    | "checked_slot call \<noteq> Some sl" "writes_slot call sl" by blast
  then show ?thesis
  proof cases
    case 1
    then show ?thesis
      using t tracks_same [OF check_failures] by (simp add: step_checked(2))
  next
    case 2
    then show ?thesis
      using step_unwritten [of call sl c now] t thin by auto
  next
    case 3
    then show ?thesis
    proof (cases call)
      case (ReleaseProbes uid m)
      with 3 t show ?thesis
        by (cases sl; subst tracks_same [of _ "slot_state c sl"])
          (auto simp: release_route_probes_def release_probe_def Let_def option.map_comp comp_def
            split: if_splits)
    next
      case (OpenUpstream uid)
      with 3 show ?thesis
        using swept tracks_open [OF t assms(6)]
        by (simp add: open_upstream_circuit_def ensure_upstream_circuit_def)
    next
      case (OpenModel uid m)
      with 3 show ?thesis
        using swept tracks_open [OF t assms(6)]
        by (simp add: open_model_circuit_def ensure_model_circuit_def)
    qed (use assms 3 in auto)
  qed
qed

text \<open>
  A history of the cache over which a breaker's failures of a window \<open>W\<close> can be counted: the clock readings are positive and
  in order, the breaker is never cleared or reset, and no failure of it was recorded with a shorter window, which
  would have dropped failures that the longer one counts.
\<close>

definition counting_history :: "duration \<Rightarrow> slot \<Rightarrow> (time \<times> circuit_call) list \<Rightarrow> bool" where
  "counting_history W sl h \<longleftrightarrow>
     sorted (map fst h) \<and>
     list_all (\<lambda>(t, call). 0 < t \<and> \<not> forgets_slot call sl \<and>
       (records_failure call sl \<longrightarrow> W \<le> call_window call sl)) h"

lemma counting_history_Cons:
  "counting_history W sl ((now, call) # h) \<longleftrightarrow>
     (\<forall>t \<in> set (map fst h). now \<le> t) \<and> 0 < now \<and> \<not> forgets_slot call sl \<and>
     (records_failure call sl \<longrightarrow> W \<le> call_window call sl) \<and> counting_history W sl h"
  by (auto simp: counting_history_def)

lemma step_tracks:
  assumes "\<not> forgets_slot call sl" "records_failure call sl \<longrightarrow> W \<le> call_window call sl"
    and "0 < W" "W \<le> circuit_state_retention" "tracks W ts n (slot_state c sl)"
    and "n \<le> now" "0 < now"
  shows "tracks W (ts @ failure_times sl [(now, call)]) now
           (slot_state (snd (circuit_step c now call)) sl)"
proof (cases "records_failure call sl")
  case True
  then obtain i where "call = RecordFailure i" by (cases call) auto
  with True assms recorded_tracks [of i sl W ts n c now] show ?thesis
    by (simp add: failure_times_def)
next
  case False
  with assms kept_tracks [of call sl W ts n c now] show ?thesis
    by (simp add: failure_times_def)
qed

lemma run_tracks:
  assumes "tracks W ts n (slot_state c sl)" "counting_history W sl h"
    and "\<forall>t \<in> set (map fst h). n \<le> t" "0 < W" "W \<le> circuit_state_retention"
  shows "\<exists>n' \<in> insert n (set (map fst h)).
           tracks W (ts @ failure_times sl h) n' (slot_state (snd (circuit_run c h)) sl)"
  using assms
proof (induction h arbitrary: c ts n)
  case Nil
  then show ?case by (simp add: failure_times_def)
next
  case (Cons e h)
  obtain now call where e: "e = (now, call)" by (cases e)
  let ?c = "snd (circuit_step c now call)"
  have h: "counting_history W sl h" "\<forall>t \<in> set (map fst h). now \<le> t" and
    call: "\<not> forgets_slot call sl" "records_failure call sl \<longrightarrow> W \<le> call_window call sl" "0 < now"
    using Cons.prems(2) unfolding e counting_history_Cons by auto
  have "tracks W (ts @ failure_times sl [(now, call)]) now (slot_state ?c sl)"
    using step_tracks [OF call(1,2) Cons.prems(4,5,1) _ call(3)] Cons.prems(3) e by simp
  from Cons.IH [OF this h Cons.prems(4,5)]
  obtain n' where n': "n' \<in> insert now (set (map fst h))"
    "tracks W ((ts @ failure_times sl [(now, call)]) @ failure_times sl h) n'
       (slot_state (snd (circuit_run ?c h)) sl)" by blast
  have "failure_times sl (e # h) = failure_times sl [(now, call)] @ failure_times sl h"
    and "snd (circuit_run c (e # h)) = snd (circuit_run ?c h)"
    by (simp_all add: e failure_times_def split: prod.splits)
  with n' show ?case by (auto simp: e)
qed

lemma new_cache_tracks: "tracks W [] 0 (slot_state new_cache sl)"
  by (cases sl) (simp_all add: tracks_def failures_below_def recent_def new_cache_def)

text \<open>The failures a breaker counts when the next one comes, from the history alone.\<close>

lemma history_failures:
  assumes "counting_history W sl (h @ [(t, RecordFailure i)])"
    and "writes_slot (RecordFailure i) sl" "0 < W" "W \<le> circuit_state_retention"
    and W: "slot_window i sl = W"
    and x: "failures s = (case slot_state (snd (circuit_run new_cache h)) sl of
                            None \<Rightarrow> [] | Some s' \<Rightarrow> failures s')"
    and w: "failure_window w = slot_window i sl"
  shows "failures (record_failure s t w) =
           filter (\<lambda>u. t - W < u) (failure_times sl (h @ [(t, RecordFailure i)]))"
proof -
  have h: "counting_history W sl h" and t: "\<forall>u \<in> set (map fst h). u \<le> t" "0 < t"
    using assms(1,2) by (auto simp: counting_history_def sorted_append)
  have pos: "\<forall>u \<in> set (map fst h). 0 \<le> u"
    using h by (auto simp: counting_history_def list_all_iff)
  obtain n where n: "n = 0 \<or> n \<in> set (map fst h)"
    "tracks W (failure_times sl h) n (slot_state (snd (circuit_run new_cache h)) sl)"
    using run_tracks [OF new_cache_tracks h pos assms(3,4)] by auto
  then have "n \<le> t" using t by auto
  from record_failure_recent(1) [OF _ n(2) this t(2) assms(3) x, of w] w W
  show ?thesis using assms(2) by (simp add: failure_times_def)
qed

lemma fresh_failure_alive:
  assumes "last_failure s = t" "0 < t"
  shows "drop_dead circuit_dead t (Some s) = Some s"
proof -
  have "t < t + circuit_state_retention"
    by (simp add: circuit_state_retention_def)
  with assms show ?thesis
    by (simp add: circuit_dead_def circuit_state_expired_def is_zero_def zero_time_def)
qed

lemma record_model_slot:
  assumes "writes_slot (RecordFailure i) sl" "sl = ModelSlot key" "0 < t"
  shows "slot_state (record_circuit_failure c i t) sl = Some (model_after_failure c i t)"
proof -
  let ?c1 = "put_model_circuit (cf_upstream_id i) (cf_model_key i) (model_after_failure c i t) c"
  let ?c2 = "put_upstream_circuit (cf_upstream_id i) (upstream_after_failure ?c1 i t) ?c1"
  have "record_circuit_failure c i t = maybe_sweep ?c2 t" "slot_state ?c2 sl = Some (model_after_failure c i t)"
    using assms by (auto simp: record_circuit_failure_def Let_def)
  then show ?thesis
    using breakers.get_maybe_sweep [of ?c2 t sl]
      fresh_failure_alive [OF model_after_failure_fields(2) assms(3)] by metis
qed

text \<open>
  C16. Exact tripping of a model breaker. A failure of a binding is recorded with the window \<open>W\<close> (at most the retention of two
  hours) and a positive open time that a duration can hold, after any history of calls since start-up with positive
  clock readings in time order: failures with these or other settings, checks, probes, manual openings and
  sweeps. The breaker was never cleared or reset, and earlier failures of it had windows at least as wide. Then
  the breaker is open at once iff the failures recorded for it in the whole history that lie in \<open>W\<close>, this
  one included, reach the threshold, which is positive, or a half-open probe was outstanding, or it was open already. The list that is
  cut in place, manual openings and sweeps do not change the count.
\<close>

theorem model_breaker_trips_exactly:
  assumes "counting_history W (ModelSlot key) (h @ [(t, RecordFailure i)])"
    and "writes_slot (RecordFailure i) (ModelSlot key)" "0 < W" "W \<le> circuit_state_retention"
    and W: "slot_window i (ModelSlot key) = W"
    and "0 < cf_model_duration_sec i" "sane_seconds (cf_model_duration_sec i)"
    and c: "c = snd (circuit_run new_cache h)"
  shows "fst (check_circuit_state
                (slot_state (snd (circuit_step c t (RecordFailure i))) (ModelSlot key)) t) = Open \<longleftrightarrow>
         0 < cf_model_failure_threshold i \<and>
         cf_model_failure_threshold i
           \<le> int (length (filter (\<lambda>u. t - W < u)
                (failure_times (ModelSlot key) (h @ [(t, RecordFailure i)])))) \<or>
         (\<exists>s. slot_state c (ModelSlot key) = Some s \<and> (t < probe_until s \<or> t < open_until s))"
proof -
  let ?sl = "ModelSlot key" and ?w = "seconds (cf_model_window_sec i)"
  let ?s0 = "ensure_model_circuit c (cf_upstream_id i) (cf_model_key i)"
  let ?s1 = "record_failure (?s0\<lparr>probe_until := zero_time\<rparr>) t ?w"
  have key: "key = model_circuit_key (cf_upstream_id i) (cf_model_key i)"
    using assms(2) by simp
  have t: "0 < t"
    using assms(1) by (simp add: counting_history_def)
  have fail: "failures ?s1 =
      filter (\<lambda>u. t - W < u) (failure_times ?sl (h @ [(t, RecordFailure i)]))"
    using history_failures [OF assms(1-4) W, of "?s0\<lparr>probe_until := zero_time\<rparr>" ?w] c key
    by (simp add: ensure_model_circuit_def split: option.splits)
  have d: "t < t + seconds (cf_model_duration_sec i)"
    using seconds_pos [OF assms(7,6)] by simp
  have old: "open_until ?s1 = open_until ?s0"
    by (simp add: record_failure_def Let_def)
  have zero: "(t < probe_until ?s0 \<or> t < open_until ?s0) \<longleftrightarrow>
      (\<exists>s. slot_state c ?sl = Some s \<and> (t < probe_until s \<or> t < open_until s))"
    using t by (auto simp: ensure_model_circuit_def key zero_circuit_def zero_time_def
        split: option.splits)
  have "slot_state (snd (circuit_step c t (RecordFailure i))) ?sl = Some (model_after_failure c i t)"
    using record_model_slot [OF assms(2) refl t] by simp
  then show ?thesis
    unfolding zero [symmetric] fail [symmetric] using assms(6) d old
    by (auto simp: check_Open_iff model_after_failure_def Let_def should_trip_def)
qed

section \<open>The upstream breaker\<close>

definition open_keys :: "cache \<Rightarrow> nat \<Rightarrow> string list \<Rightarrow> time \<Rightarrow> string set" where
  "open_keys c uid ks now =
     {key \<in> model_circuit_key uid ` set ks.
        fst (check_circuit_state (slot_state c (ModelSlot key)) now) = Open}"

lemma check_open_entry:
  "fst (check_circuit_state x now) = Open \<longleftrightarrow> (\<exists>s. x = Some s \<and> now < open_until s)"
  by (cases x) (simp_all add: check_Open_iff)

lemma open_model_count_loop_card:
  "open_model_count_loop m uid now ks seen =
     int (card {key \<in> model_circuit_key uid ` set ks - set seen.
            \<exists>s. m key = Some s \<and> now < open_until s})"
proof (induction ks arbitrary: seen)
  case Nil
  then show ?case by simp
next
  case (Cons k ks)
  let ?k = "model_circuit_key uid k"
  let ?P = "\<lambda>key. \<exists>s. m key = Some s \<and> now < open_until s"
  let ?A = "\<lambda>seen. {key \<in> model_circuit_key uid ` set ks - set seen. ?P key}"
  have "{key \<in> model_circuit_key uid ` set (k # ks) - set seen. ?P key} =
      (if ?k \<notin> set seen \<and> ?P ?k then insert ?k (?A (?k # seen))
       else if ?k \<in> set seen then ?A seen else ?A (?k # seen))"
    by auto
  moreover have "finite (?A (?k # seen))" "?k \<notin> ?A (?k # seen)" by auto
  ultimately show ?case
    by (auto simp: Cons.IH Let_def split: option.splits)
qed

lemma open_model_count_card: "open_model_count c uid ks now = int (card (open_keys c uid ks now))"
  by (simp add: open_model_count_def open_model_count_loop_card open_keys_def check_open_entry)

lemma sweep_keeps_open:
  assumes "0 < now"
  shows "fst (check_circuit_state (drop_dead circuit_dead now x) now) = Open \<longleftrightarrow>
         fst (check_circuit_state x now) = Open"
proof (cases x)
  case None
  then show ?thesis by simp
next
  case (Some s)
  have "now < open_until s \<Longrightarrow> now < open_until s + circuit_probe_ttl"
    using circuit_probe_ttl_pos by linarith
  with assms Some show ?thesis
    by (auto simp: check_open_entry circuit_dead_def circuit_state_expired_def is_zero_def
        zero_time_def)
qed

lemma open_keys_maybe_sweep:
  assumes "0 < now"
  shows "open_keys (maybe_sweep c now) uid ks now = open_keys c uid ks now"
proof -
  have "fst (check_circuit_state (slot_state (maybe_sweep c now) sl) now) = Open \<longleftrightarrow>
        fst (check_circuit_state (slot_state c sl) now) = Open" for sl
    using breakers.get_maybe_sweep [of c now sl] sweep_keeps_open [OF assms] by metis
  then show ?thesis by (simp add: open_keys_def del: slot_state.simps)
qed

lemma open_keys_put_upstream [simp]:
  "open_keys (put_upstream_circuit u s c) uid ks now = open_keys c uid ks now"
  by (simp add: open_keys_def)

text \<open>
  The policy an administrator configures, on the two conditions: the failure threshold is met (or a
  probe failed), and enough of the upstream's model breakers are open.
\<close>

definition upstream_policy :: "circuit_failure_input \<Rightarrow> bool \<Rightarrow> bool \<Rightarrow> bool" where
  "upstream_policy i F M =
     (if trim_space (cf_upstream_threshold_logic i) = ''and''
      then (0 < cf_upstream_failure_threshold i \<or> 0 < cf_upstream_model_threshold i) \<and>
           (0 < cf_upstream_failure_threshold i \<longrightarrow> F) \<and> (0 < cf_upstream_model_threshold i \<longrightarrow> M)
      else F \<or> M)"

lemma should_trip_upstream_policy:
  "should_trip_upstream
     \<lparr>st_failure_met = F, st_failure_threshold = cf_upstream_failure_threshold i,
      st_model_met = M, st_model_threshold = cf_upstream_model_threshold i,
      st_logic = cf_upstream_threshold_logic i\<rparr> = upstream_policy i F M"
  by (simp add: should_trip_upstream_def upstream_policy_def)

text \<open>
  The upstream breaker follows its configured policy. In any such history the upstream's
  breaker is open right after a recorded failure iff it was open already, or the policy holds of
  (the failures of the window reach the threshold, or a probe was outstanding) and (the distinct
  active bindings of the upstream whose breakers are open after this failure reach the model
  threshold). Bindings listed twice count once.
\<close>

theorem upstream_breaker_policy:
  assumes "counting_history W (UpstreamSlot uid) (h @ [(t, RecordFailure i)])"
    and "writes_slot (RecordFailure i) (UpstreamSlot uid)" "0 < W" "W \<le> circuit_state_retention"
    and W: "slot_window i (UpstreamSlot uid) = W"
    and "0 < cf_upstream_duration_sec i" "sane_seconds (cf_upstream_duration_sec i)"
    and c: "c = snd (circuit_run new_cache h)"
    and c': "c' = snd (circuit_step c t (RecordFailure i))"
  shows "fst (check_circuit_state (slot_state c' (UpstreamSlot uid)) t) = Open \<longleftrightarrow>
         fst (check_circuit_state (slot_state c (UpstreamSlot uid)) t) = Open \<or>
         upstream_policy i
           ((\<exists>s. slot_state c (UpstreamSlot uid) = Some s \<and> t < probe_until s) \<or>
            0 < cf_upstream_failure_threshold i \<and>
            cf_upstream_failure_threshold i
              \<le> int (length (filter (\<lambda>u. t - W < u)
                   (failure_times (UpstreamSlot uid) (h @ [(t, RecordFailure i)])))))
           (0 < cf_upstream_model_threshold i \<and>
            cf_upstream_model_threshold i \<le> int (card (open_keys c' uid (cf_active_model_keys i) t)))"
proof -
  let ?sl = "UpstreamSlot uid" and ?w = "seconds (cf_upstream_window_sec i)"
  let ?c1 = "put_model_circuit uid (cf_model_key i) (model_after_failure c i t) c"
  let ?c2 = "put_upstream_circuit uid (upstream_after_failure ?c1 i t) ?c1"
  let ?s0 = "ensure_upstream_circuit c uid"
  let ?s1 = "record_failure (?s0\<lparr>probe_until := zero_time\<rparr>) t ?w"
  have uid: "uid = cf_upstream_id i" and t: "0 < t"
    using assms(1,2) by (simp_all add: counting_history_def)
  have s0: "ensure_upstream_circuit ?c1 uid = ?s0"
    by (simp add: ensure_upstream_circuit_def)
  have fail: "failures ?s1 =
      filter (\<lambda>u. t - W < u) (failure_times ?sl (h @ [(t, RecordFailure i)]))"
    using history_failures [OF assms(1-4) W, of "?s0\<lparr>probe_until := zero_time\<rparr>" ?w] c
    by (simp add: ensure_upstream_circuit_def split: option.splits)
  have d: "t < t + seconds (cf_upstream_duration_sec i)"
    using seconds_pos [OF assms(7,6)] by simp
  have c'2: "c' = maybe_sweep ?c2 t"
    using assms(2) uid c' by (auto simp: record_circuit_failure_def Let_def)
  have last: "last_failure (upstream_after_failure ?c1 i t) = t"
    by (rule model_after_failure_fields)
  have s': "slot_state c' ?sl = Some (upstream_after_failure ?c1 i t)"
    using breakers.get_maybe_sweep [of ?c2 t ?sl] fresh_failure_alive [OF last t]
    unfolding c'2 by auto
  have keys: "open_model_count ?c1 uid (cf_active_model_keys i) t =
      int (card (open_keys c' uid (cf_active_model_keys i) t))"
    using open_keys_maybe_sweep [OF t, of ?c2] by (simp add: c'2 open_model_count_card)
  have old: "open_until ?s1 = open_until ?s0"
    by (simp add: record_failure_def Let_def)
  have probe: "t < probe_until ?s0 \<longleftrightarrow> (\<exists>s. slot_state c ?sl = Some s \<and> t < probe_until s)"
    and opened: "t < open_until ?s0 \<longleftrightarrow> fst (check_circuit_state (slot_state c ?sl) t) = Open"
    using t by (auto simp: ensure_upstream_circuit_def zero_circuit_def zero_time_def
        check_open_entry split: option.splits)
  show ?thesis
    unfolding probe [symmetric] opened [symmetric] fail [symmetric] keys [symmetric] s'
    using assms(6) d old
    by (auto simp: check_Open_iff upstream_after_failure_def should_trip_upstream_policy s0
        uid [symmetric] should_trip_def Let_def)
qed

text \<open>
  A failure that trips a breaker overrides a manual opening: whatever the breaker held, its
  deadline becomes the time of the failure plus the configured duration and the manual mark is
  gone, so a manual opening for 24 hours ends as soon as the shorter automatic one does.
\<close>

theorem trip_overrides_manual_opening:
  assumes "writes_slot (RecordFailure i) (ModelSlot key)" "0 < t"
    and "cf_model_failure_threshold i = 1" "0 < cf_model_duration_sec i"
    and "sane_seconds (cf_model_duration_sec i)"
  shows "\<exists>s. slot_state (snd (circuit_step c t (RecordFailure i))) (ModelSlot key) = Some s \<and>
             open_until s = t + cf_model_duration_sec i * second \<and> \<not> manual_open s"
proof -
  have "slot_state (snd (circuit_step c t (RecordFailure i))) (ModelSlot key) =
      Some (model_after_failure c i t)"
    using record_model_slot [OF assms(1) refl assms(2)] by simp
  then show ?thesis
    using assms(3-5)
    by (simp add: model_after_failure_def Let_def should_trip_def record_failure_def seconds_sane)
qed

section \<open>Concrete runs\<close>

text \<open>Two failures a minute apart trip a breaker with threshold 2 for a minute; the settings change in between.\<close>

definition sample_failure :: circuit_failure_input where
  "sample_failure =
     \<lparr>cf_upstream_id = 1, cf_model_key = ''m'', cf_model_window_sec = 180,
      cf_model_failure_threshold = 2, cf_model_duration_sec = 60, cf_upstream_window_sec = 180,
      cf_upstream_failure_threshold = 2, cf_upstream_model_threshold = 1,
      cf_upstream_threshold_logic = ''and'', cf_upstream_duration_sec = 60,
      cf_active_model_keys = [''m'', ''m'']\<rparr>"

lemma trim_samples [simp]: "trim_space ''m'' = ''m''" "trim_space ''and'' = ''and''"
  by code_simp+

lemma sample_seconds [simp]:
  "seconds 180 = 180 * second" "seconds 300 = 300 * second" "seconds 60 = 60 * second" "sane_seconds 60" "sane_seconds 180"
  by (simp_all add: seconds_def second_def sane_seconds_def wrap64_def)

definition sample_key :: string where
  "sample_key = model_circuit_key 1 ''m''"

definition sample_history :: "(time \<times> circuit_call) list" where
  "sample_history =
     [(second, RecordFailure (sample_failure\<lparr>cf_model_window_sec := 300, cf_model_duration_sec := - 5\<rparr>))]"

lemmas sample_defs = sample_failure_def sample_history_def sample_key_def counting_history_def
  failure_times_def failure_window_def circuit_state_retention_def second_def minute_def hour_def

theorem model_breaker_trips_exactly_witness:
  "fst (check_circuit_state
          (slot_state (snd (circuit_step (snd (circuit_run new_cache sample_history)) (61 * second)
             (RecordFailure sample_failure))) (ModelSlot sample_key)) (61 * second)) = Open"
proof -
  have "counting_history (180 * second) (ModelSlot sample_key)
      (sample_history @ [(61 * second, RecordFailure sample_failure)])"
    by (simp add: sample_defs)
  from model_breaker_trips_exactly [OF this _ _ _ _ _ _ refl] show ?thesis
    by (simp add: sample_defs)
qed

theorem upstream_breaker_policy_witness:
  "fst (check_circuit_state
          (slot_state (snd (circuit_step (snd (circuit_run new_cache [])) (61 * second)
             (RecordFailure sample_failure))) (UpstreamSlot 1)) (61 * second)) \<noteq> Open"
proof -
  have "counting_history (180 * second) (UpstreamSlot 1)
      ([] @ [(61 * second, RecordFailure sample_failure)])"
    by (simp add: sample_defs)
  from upstream_breaker_policy [OF this _ _ _ _ _ _ refl refl] show ?thesis
    by (simp add: sample_defs upstream_policy_def new_cache_def)
qed

text \<open>A breaker whose deadline has just passed.\<close>

definition half_open_cache :: cache where
  "half_open_cache =
     new_cache\<lparr>upstream_cb := [1 \<mapsto> zero_circuit\<lparr>open_until := 10 * second\<rparr>]\<rparr>"

theorem probe_exclusive_witness:
  "circuit_step half_open_cache (11 * second) (CheckUpstream 1) =
     (Some HalfOpenGranted, snd (circuit_step half_open_cache (11 * second) (CheckUpstream 1))) \<and>
   fst (circuit_run (snd (circuit_step half_open_cache (11 * second) (CheckUpstream 1)))
     [(12 * second, RecordSuccessMeta 1), (13 * second, CheckUpstream 1)]) ! 1
     \<noteq> Some HalfOpenGranted"
proof -
  let ?c' = "snd (circuit_step half_open_cache (11 * second) (CheckUpstream 1))"
  have g: "circuit_step half_open_cache (11 * second) (CheckUpstream 1) = (Some HalfOpenGranted, ?c')"
    by (simp add: half_open_cache_def check_upstream_circuit_state_def check_defs zero_circuit_def
        second_def circuit_probe_ttl_def Let_def)
  moreover have "fst (circuit_run ?c' [(12 * second, RecordSuccessMeta 1), (13 * second, CheckUpstream 1)]) ! 1
      \<noteq> Some HalfOpenGranted"
    by (rule probe_exclusive [OF _ _ g, of "UpstreamSlot 1"])
      (simp_all add: times_between_def leaves_slot_def second_def circuit_probe_ttl_def)
  ultimately show ?thesis by simp
qed

theorem open_until_deadline_witness:
  "slot_state (snd (circuit_run half_open_cache [(second, CheckUpstream 1)])) (UpstreamSlot 1) =
     Some (zero_circuit\<lparr>open_until := 10 * second\<rparr>) \<and>
   fst (circuit_run half_open_cache [(second, CheckUpstream 1)]) ! 0 = Some Open"
  using open_until_deadline [of half_open_cache "UpstreamSlot 1"
      "zero_circuit\<lparr>open_until := 10 * second\<rparr>" 0 "[(second, CheckUpstream 1)]"]
  by (simp add: half_open_cache_def times_between_def leaves_slot_def second_def)

theorem breaker_isolation_witness:
  "fst (check_circuit_state (slot_state
      (snd (circuit_step half_open_cache second (RecordFailure (sample_failure\<lparr>cf_upstream_id := 2\<rparr>))))
      (UpstreamSlot 1)) (11 * second)) = HalfOpenGranted"
  using breaker_isolation [of "RecordFailure (sample_failure\<lparr>cf_upstream_id := 2\<rparr>)" "UpstreamSlot 1"
      second "11 * second" half_open_cache]
  by (simp add: half_open_cache_def sample_failure_def check_defs zero_circuit_def second_def
      circuit_probe_ttl_def)

theorem trip_overrides_manual_opening_witness:
  "\<exists>s. slot_state (snd (circuit_step (open_model_circuit new_cache 1 ''m'' second) (2 * second)
          (RecordFailure (sample_failure\<lparr>cf_model_failure_threshold := 1\<rparr>)))) (ModelSlot sample_key) = Some s \<and>
       open_until s = 2 * second + 60 * second \<and> \<not> manual_open s"
  using trip_overrides_manual_opening [of "sample_failure\<lparr>cf_model_failure_threshold := 1\<rparr>" sample_key
      "2 * second" "open_model_circuit new_cache 1 ''m'' second"]
  by (simp add: sample_failure_def sample_key_def)

end
