(* ===== verification/Backoff.thy ===== *)
theory Backoff
  imports Cache_State
begin

text \<open>
  The rate-limit backoff per route and the round-robin counters of the upstream API keys (the rest
  of channel.go). The exponential loop runs on Go's int, which wraps; its closed form holds where
  the product of the maximum and the multiplier fits.
\<close>

record backoff_params =
  bp_upstream_id :: nat
  bp_route_id :: nat
  bp_base_sec :: int
  bp_max_sec :: int
  bp_multiplier :: int
  bp_retry_after_sec :: int

text \<open>The loop body for \<open>n\<close> more attempts; both exits of the body return the maximum.\<close>

fun backoff_loop :: "nat \<Rightarrow> int \<Rightarrow> int \<Rightarrow> int \<Rightarrow> int" where
  "backoff_loop 0 multiplier max_sec backoff = backoff"
| "backoff_loop (Suc n) multiplier max_sec backoff =
     (if max_sec \<le> backoff then max_sec
      else let backoff = wrap64 (backoff * multiplier)
           in if max_sec \<le> backoff then max_sec else backoff_loop n multiplier max_sec backoff)"

definition backoff_base :: "backoff_params \<Rightarrow> int" where
  "backoff_base p = (if bp_base_sec p \<le> 0 then 5 else bp_base_sec p)"

definition backoff_max :: "backoff_params \<Rightarrow> int" where
  "backoff_max p = (if bp_max_sec p \<le> 0 then 60 else bp_max_sec p)"

definition backoff_multiplier :: "backoff_params \<Rightarrow> int" where
  "backoff_multiplier p = (if bp_multiplier p \<le> 1 then 2 else bp_multiplier p)"

definition calculate_backoff_seconds :: "int \<Rightarrow> backoff_params \<Rightarrow> int" where
  "calculate_backoff_seconds attempt p =
     (let max_sec = backoff_max p;
          backoff = backoff_loop (nat (attempt - 1)) (backoff_multiplier p) max_sec (backoff_base p);
          backoff = (if backoff < bp_retry_after_sec p then bp_retry_after_sec p else backoff)
      in if max_sec < backoff then max_sec else backoff)"

definition zero_rate_limit :: rate_limit_state where
  "zero_rate_limit = \<lparr>backoff_until = zero_time, backoff_count = 0, count_expires = zero_time\<rparr>"

definition rate_limit_of :: "rate_limit_state option \<Rightarrow> rate_limit_state" where
  "rate_limit_of x = (case x of None \<Rightarrow> zero_rate_limit | Some s \<Rightarrow> s)"

definition remaining_backoff :: "rate_limit_state option \<Rightarrow> time \<Rightarrow> duration" where
  "remaining_backoff x now =
     (let remaining = time_sub (backoff_until (rate_limit_of x)) now
      in if remaining \<le> 0 then 0 else remaining)"

definition get_rate_limit_backoff :: "cache \<Rightarrow> nat \<Rightarrow> nat \<Rightarrow> time \<Rightarrow> duration" where
  "get_rate_limit_backoff c uid rid now =
     (if uid = 0 \<or> rid = 0 then 0 else remaining_backoff (rate_limits c (uid, rid)) now)"

definition next_rate_limit :: "rate_limit_state option \<Rightarrow> backoff_params \<Rightarrow> time \<Rightarrow> rate_limit_state"
  where
  "next_rate_limit x p now =
     (let s = rate_limit_of x;
          count = (if count_expires s < now then 0 else backoff_count s) + 1
      in \<lparr>backoff_until = now + seconds (calculate_backoff_seconds count p),
          backoff_count = count, count_expires = now + 5 * minute\<rparr>)"

definition record_rate_limit_backoff :: "cache \<Rightarrow> backoff_params \<Rightarrow> time \<Rightarrow> cache" where
  "record_rate_limit_backoff c p now =
     (if bp_upstream_id p = 0 \<or> bp_route_id p = 0 then c
      else
        let key = (bp_upstream_id p, bp_route_id p)
        in maybe_sweep
             (c\<lparr>rate_limits := (rate_limits c)(key \<mapsto> next_rate_limit (rate_limits c key) p now)\<rparr>) now)"

definition clear_rate_limit_backoff :: "cache \<Rightarrow> nat \<Rightarrow> nat \<Rightarrow> cache" where
  "clear_rate_limit_backoff c uid rid =
     (if uid = 0 \<or> rid = 0 then c
      else c\<lparr>rate_limits := (rate_limits c)((uid, rid) := None)\<rparr>)"

definition incr_api_key_counter :: "cache \<Rightarrow> nat \<Rightarrow> time \<Rightarrow> int \<times> bool \<times> cache" where
  "incr_api_key_counter c uid now =
     (let next = (case key_counters c uid of None \<Rightarrow> 0 | Some k \<Rightarrow> next_key k)
      in (next, True,
          maybe_sweep
            (c\<lparr>key_counters := (key_counters c)
               (uid \<mapsto> \<lparr>next_key = wrap64 (next + 1), last_used = now\<rparr>)\<rparr>) now))"

section \<open>The closed form of the backoff\<close>

lemma backoff_params_pos [simp]:
  "0 < backoff_base p" "0 < backoff_max p" "1 < backoff_multiplier p"
  by (simp_all add: backoff_base_def backoff_max_def backoff_multiplier_def)

lemma backoff_loop_closed:
  assumes "0 < b" "1 < k" "0 < m" "m * k \<le> max_int64" "n = 0 \<longrightarrow> b \<le> m"
  shows "backoff_loop n k m b = min m (b * k ^ n)"
  using assms
proof (induction n arbitrary: b)
  case 0
  then show ?case by simp
next
  case (Suc n)
  have pow: "1 \<le> k ^ n" "1 \<le> k ^ Suc n"
    using Suc.prems(2) by (auto intro: one_le_power simp del: power_Suc)
  show ?case
  proof (cases "m \<le> b")
    case True
    have "b * 1 \<le> b * k ^ Suc n"
      using pow Suc.prems(1) by (intro mult_left_mono) auto
    with True show ?thesis by simp
  next
    case False
    have "b * k \<le> m * k" "0 < b * k"
      using False Suc.prems by (auto intro: mult_right_mono)
    then have w: "wrap64 (b * k) = b * k"
      using Suc.prems(4) by (intro wrap64_id) (simp add: in_int64_def min_int64_def)
    show ?thesis
    proof (cases "m \<le> b * k")
      case True
      have "b * k * 1 \<le> b * k * k ^ n"
        using pow \<open>0 < b * k\<close> by (intro mult_left_mono) auto
      with True False show ?thesis by (simp add: w Let_def mult.assoc)
    next
      case small: False
      then have "backoff_loop n k m (b * k) = min m (b * k * k ^ n)"
        using Suc.prems(2-4) \<open>0 < b * k\<close> by (simp add: Suc.IH)
      with small False show ?thesis by (simp add: w Let_def mult.assoc)
    qed
  qed
qed

text \<open>
  The wait after the n-th rate-limit answer in a row is base * multiplier^(n-1), raised to the
  upstream's Retry-After and capped at the maximum, with the defaults 5, 2 and 60 for parameters
  that are not set; the early exits of the loop do not change the value.
\<close>

theorem backoff_closed_form:
  assumes "1 \<le> attempt" "backoff_max p * backoff_multiplier p \<le> max_int64"
  shows "calculate_backoff_seconds attempt p =
         min (backoff_max p)
           (max (backoff_base p * backoff_multiplier p ^ nat (attempt - 1)) (bp_retry_after_sec p))"
proof (cases "nat (attempt - 1) = 0 \<and> backoff_max p < backoff_base p")
  case True
  then show ?thesis
    by (auto simp: calculate_backoff_seconds_def Let_def)
next
  case False
  then have "backoff_loop (nat (attempt - 1)) (backoff_multiplier p) (backoff_max p) (backoff_base p) =
      min (backoff_max p) (backoff_base p * backoff_multiplier p ^ nat (attempt - 1))"
    using assms by (intro backoff_loop_closed) auto
  then show ?thesis
    by (auto simp: calculate_backoff_seconds_def Let_def)
qed

theorem backoff_closed_form_witness:
  "calculate_backoff_seconds 3
     \<lparr>bp_upstream_id = 1, bp_route_id = 1, bp_base_sec = 0, bp_max_sec = 0, bp_multiplier = 0,
      bp_retry_after_sec = 7\<rparr> = 20"
  by (subst backoff_closed_form)
    (simp_all add: backoff_max_def backoff_base_def backoff_multiplier_def max_int64_def)

lemma backoff_bounds:
  assumes "1 \<le> attempt" "backoff_max p * backoff_multiplier p \<le> max_int64"
  shows "0 < calculate_backoff_seconds attempt p" "calculate_backoff_seconds attempt p \<le> backoff_max p"
proof -
  have "0 < backoff_base p * backoff_multiplier p ^ nat (attempt - 1)"
    using less_trans [OF zero_less_one backoff_params_pos(3) [of p]] by simp
  then show "0 < calculate_backoff_seconds attempt p" "calculate_backoff_seconds attempt p \<le> backoff_max p"
    unfolding backoff_closed_form [OF assms] by simp_all
qed

section \<open>The backoff state and the sweep\<close>

text \<open>What later calls see of an entry: the remaining wait, and the attempt number they continue.\<close>

definition backoff_view :: "rate_limit_state option \<Rightarrow> time \<Rightarrow> duration \<times> int" where
  "backoff_view x t =
     (remaining_backoff x t,
      if count_expires (rate_limit_of x) < t then 0 else backoff_count (rate_limit_of x))"

definition rate_limit_dead :: "rate_limit_state \<Rightarrow> time \<Rightarrow> bool" where
  "rate_limit_dead s now \<longleftrightarrow> backoff_until s < now \<and> count_expires s < now"

interpretation backoffs: swept_view "\<lambda>c. rate_limits c" "drop_dead rate_limit_dead" backoff_view
  by unfold_locales
    (auto simp: sweep_maps keep_entries_def drop_dead_def rate_limit_dead_def backoff_view_def
      remaining_backoff_def rate_limit_of_def zero_rate_limit_def zero_time_def Let_def
      time_sub_nonpos split: option.splits)

lemma backoff_view_next:
  "next_rate_limit x p now =
     (let count = snd (backoff_view x now) + 1
      in \<lparr>backoff_until = now + seconds (calculate_backoff_seconds count p),
          backoff_count = count, count_expires = now + 5 * minute\<rparr>)"
  by (simp add: next_rate_limit_def backoff_view_def Let_def)

text \<open>A run of rate-limit answers of one route.\<close>

fun record_answers :: "cache \<Rightarrow> backoff_params \<Rightarrow> time list \<Rightarrow> cache" where
  "record_answers c p [] = c"
| "record_answers c p (t # ts) = record_answers (record_rate_limit_backoff c p t) p ts"

definition steady :: "time list \<Rightarrow> bool" where
  "steady ts \<longleftrightarrow> sorted_wrt (<) ts \<and> (\<forall>i < length ts - 1. ts ! Suc i - ts ! i \<le> 5 * minute)"

lemma steady_Cons: "steady (t # u # ts) \<longleftrightarrow> t < u \<and> u - t \<le> 5 * minute \<and> steady (u # ts)"
proof -
  have "(\<forall>i < length (t # u # ts) - 1. (t # u # ts) ! Suc i - (t # u # ts) ! i \<le> 5 * minute) \<longleftrightarrow>
      u - t \<le> 5 * minute \<and> (\<forall>i < length (u # ts) - 1. (u # ts) ! Suc i - (u # ts) ! i \<le> 5 * minute)"
    by (auto simp: nth_Cons less_Suc_eq_0_disj split: nat.splits)
  then show ?thesis
    unfolding steady_def by (auto dest: less_trans)
qed

lemma record_answer_entry:
  assumes "bp_upstream_id p \<noteq> 0" "bp_route_id p \<noteq> 0"
  shows "rate_limits (record_rate_limit_backoff c p t) (bp_upstream_id p, bp_route_id p) =
         Some (next_rate_limit (rate_limits c (bp_upstream_id p, bp_route_id p)) p t)"
proof -
  let ?k = "(bp_upstream_id p, bp_route_id p)"
  let ?d = "c\<lparr>rate_limits := (rate_limits c)(?k \<mapsto> next_rate_limit (rate_limits c ?k) p t)\<rparr>"
  have "\<not> rate_limit_dead (next_rate_limit (rate_limits c ?k) p t) t"
    by (simp add: rate_limit_dead_def next_rate_limit_def Let_def)
  then have "rate_limits (maybe_sweep ?d t) ?k = rate_limits ?d ?k"
    using backoffs.get_maybe_sweep [of ?d t ?k] by auto
  then show ?thesis
    using assms by (simp add: record_rate_limit_backoff_def Let_def)
qed

lemma record_answers_count:
  assumes "bp_upstream_id p \<noteq> 0" "bp_route_id p \<noteq> 0" "steady (t # ts)"
    and "snd (backoff_view (rate_limits c (bp_upstream_id p, bp_route_id p)) t) = n"
  shows "rate_limits (record_answers c p (t # ts)) (bp_upstream_id p, bp_route_id p) =
         Some \<lparr>backoff_until = last (t # ts) +
                 seconds (calculate_backoff_seconds (n + int (length (t # ts))) p),
               backoff_count = n + int (length (t # ts)),
               count_expires = last (t # ts) + 5 * minute\<rparr>"
  using assms(3,4)
proof (induction ts arbitrary: t c n)
  case Nil
  then show ?case
    using record_answer_entry [OF assms(1,2)] by (simp add: backoff_view_next Let_def)
next
  case (Cons u ts)
  let ?c = "record_rate_limit_backoff c p t" and ?k = "(bp_upstream_id p, bp_route_id p)"
  have "snd (backoff_view (rate_limits ?c ?k) u) = n + 1"
    using record_answer_entry [OF assms(1,2)] Cons.prems
    by (simp add: backoff_view_def [of "Some _"] backoff_view_next rate_limit_of_def Let_def steady_Cons)
  from Cons.IH [OF _ this] Cons.prems show ?case
    by (simp add: steady_Cons algebra_simps)
qed

text \<open>
  Backoff over a run of answers. For a route with no backoff recorded, after k rate-limit
  answers in time order at most five minutes apart, whatever sweeps ran in between, a request at a
  later time t still waits for the closed form of attempt k, less the time since the last answer;
  once that has passed the route is free again.
\<close>

theorem backoff_after_answers:
  assumes "bp_upstream_id p \<noteq> 0" "bp_route_id p \<noteq> 0" "steady ts" "ts \<noteq> []" "0 < hd ts"
    and "rate_limits c (bp_upstream_id p, bp_route_id p) = None"
    and "backoff_max p * backoff_multiplier p \<le> max_int64" "sane_seconds (backoff_max p)"
    and "last ts \<le> t"
  shows "get_rate_limit_backoff (record_answers c p ts) (bp_upstream_id p) (bp_route_id p) t =
         max 0 (calculate_backoff_seconds (int (length ts)) p * second - (t - last ts))"
proof -
  obtain u us where ts: "ts = u # us" using assms(4) by (cases ts) auto
  let ?b = "calculate_backoff_seconds (int (length ts)) p"
  have b: "0 < ?b" "?b \<le> backoff_max p"
    using backoff_bounds [OF _ assms(7), of "int (length ts)"] ts by simp_all
  then have "seconds ?b = ?b * second" and small: "?b * second \<le> max_int64"
    using assms(8) by (auto simp: seconds_sane sane_seconds_def max_int64_def second_def)
  moreover have "snd (backoff_view (rate_limits c (bp_upstream_id p, bp_route_id p)) u) = 0"
    using assms(5,6) ts by (simp add: backoff_view_def rate_limit_of_def zero_rate_limit_def zero_time_def)
  ultimately have "rate_limits (record_answers c p ts) (bp_upstream_id p, bp_route_id p) =
      Some \<lparr>backoff_until = last ts + ?b * second, backoff_count = int (length ts),
            count_expires = last ts + 5 * minute\<rparr>"
    using record_answers_count [OF assms(1,2), of u us c 0] assms(3) ts by simp
  then show ?thesis
    using assms(1,2,9) small b
    by (auto simp: get_rate_limit_backoff_def remaining_backoff_def rate_limit_of_def time_sub_def
        Let_def min_int64_def max_int64_def second_def)
qed

definition sample_params :: backoff_params where
  "sample_params =
     \<lparr>bp_upstream_id = 3, bp_route_id = 4, bp_base_sec = 10, bp_max_sec = 600, bp_multiplier = 3,
      bp_retry_after_sec = 0\<rparr>"

theorem backoff_after_answers_witness:
  "get_rate_limit_backoff (record_answers new_cache sample_params [second, 20 * second]) 3 4
     (25 * second) = 25 * second"
proof -
  have s: "steady [second, 20 * second]"
    by (simp add: steady_Cons second_def minute_def) (simp add: steady_def)
  have "calculate_backoff_seconds 2 sample_params = 30"
    by (simp add: calculate_backoff_seconds_def sample_params_def backoff_max_def backoff_base_def
        backoff_multiplier_def numeral_2_eq_2 in_int64_def min_int64_def max_int64_def)
  then show ?thesis
    using backoff_after_answers [of sample_params "[second, 20 * second]" new_cache "25 * second"] s
    by (simp add: sample_params_def backoff_max_def backoff_multiplier_def max_int64_def
        sane_seconds_def new_cache_def second_def)
qed

end
