(* ===== verification/Limiter.thy ===== *)
theory Limiter
  imports Cache_State
begin

text \<open>
  The two request limiters of the in-memory backend (rate_limiter.go), and the contract the HTTP
  middleware relies on: an interface locale for a sliding-window limiter, its reference run that
  keeps every admitted request for ever, and the interpretation on the cache.
\<close>

section \<open>Operations\<close>

definition allow_sliding_window ::
  "cache \<Rightarrow> string \<Rightarrow> int \<Rightarrow> duration \<Rightarrow> time \<Rightarrow> bool \<times> cache" where
  "allow_sliding_window c key limit window now =
     (if trim_space key = [] \<or> limit \<le> 0 then (True, c)
      else
        let window = (if window \<le> 0 then minute else window);
            cutoff = now - window;
            events = filter (\<lambda>item. cutoff < item)
              (case sliding_http c key of None \<Rightarrow> [] | Some es \<Rightarrow> es);
            allowed = (int (length events) < limit);
            events = (if allowed then events @ [now] else events)
        in (allowed, maybe_sweep (c\<lparr>sliding_http := (sliding_http c)(key \<mapsto> events)\<rparr>) now))"

definition zero_fixed_window :: fixed_window_counter where
  "zero_fixed_window = \<lparr>fw_count = 0, fw_expires_at = zero_time\<rparr>"

fun fixed_window_loop ::
  "(string \<rightharpoonup> fixed_window_counter) \<Rightarrow> int \<Rightarrow> duration \<Rightarrow> time \<Rightarrow> string list \<Rightarrow> bool \<Rightarrow>
     bool \<times> (string \<rightharpoonup> fixed_window_counter)" where
  "fixed_window_loop m limit ttl now [] allowed = (allowed, m)"
| "fixed_window_loop m limit ttl now (k # ks) allowed =
     (let key = trim_space k
      in if key = [] then fixed_window_loop m limit ttl now ks allowed
         else
           let item = (case m key of None \<Rightarrow> zero_fixed_window | Some i \<Rightarrow> i);
               item = (if fw_expires_at item < now
                       then \<lparr>fw_count = 0, fw_expires_at = now + ttl\<rparr> else item);
               item = item\<lparr>fw_count := fw_count item + 1\<rparr>
           in fixed_window_loop (m(key \<mapsto> item)) limit ttl now ks
                (if limit < fw_count item then False else allowed))"

definition allow_fixed_window ::
  "cache \<Rightarrow> string list \<Rightarrow> int \<Rightarrow> duration \<Rightarrow> time \<Rightarrow> bool \<times> cache" where
  "allow_fixed_window c keys limit ttl now =
     (if keys = [] \<or> limit \<le> 0 then (True, c)
      else
        let ttl = (if ttl \<le> 0 then minute else ttl);
            (allowed, m) = fixed_window_loop (fixed_http c) limit ttl now keys True
        in (allowed, maybe_sweep (c\<lparr>fixed_http := m\<rparr>) now))"

section \<open>The sliding window as an interface\<close>

text \<open>
  A history of a limiter: a request on a key with a limit, or anything else the backend does, which
  may run its maintenance. \<open>metered\<close> requests are the ones the limiter counts at all.
\<close>

datatype limiter_event = Request string int | Maintenance

definition metered :: "string \<Rightarrow> int \<Rightarrow> bool" where
  "metered key limit \<longleftrightarrow> trim_space key \<noteq> [] \<and> 0 < limit"

fun limiter_run ::
  "('c \<Rightarrow> string \<Rightarrow> int \<Rightarrow> time \<Rightarrow> bool \<times> 'c) \<Rightarrow> ('c \<Rightarrow> time \<Rightarrow> 'c) \<Rightarrow> 'c \<Rightarrow>
     (time \<times> limiter_event) list \<Rightarrow> bool list" where
  "limiter_run allow tick c [] = []"
| "limiter_run allow tick c ((now, Request key limit) # h) =
     (let (ok, c') = allow c key limit now in ok # limiter_run allow tick c' h)"
| "limiter_run allow tick c ((now, Maintenance) # h) =
     True # limiter_run allow tick (tick c now) h"

text \<open>The reference: a log of every admitted request per key, counted over the window.\<close>

fun reference_run ::
  "duration \<Rightarrow> (string \<Rightarrow> time list) \<Rightarrow> (time \<times> limiter_event) list \<Rightarrow> bool list" where
  "reference_run W log [] = []"
| "reference_run W log ((now, Request key limit) # h) =
     (if \<not> metered key limit then True # reference_run W log h
      else if int (length (filter (\<lambda>u. now - W < u) (log key))) < limit
        then True # reference_run W (log(key := log key @ [now])) h
      else False # reference_run W log h)"
| "reference_run W log ((now, Maintenance) # h) = True # reference_run W log h"

text \<open>The times at which a run admitted metered requests on a key.\<close>

fun admitted_times :: "string \<Rightarrow> (time \<times> limiter_event) list \<Rightarrow> bool list \<Rightarrow> time list" where
  "admitted_times k ((now, Request key limit) # h) (ok # oks) =
     (if ok \<and> key = k \<and> metered key limit then now # admitted_times k h oks
      else admitted_times k h oks)"
| "admitted_times k (e # h) (ok # oks) = admitted_times k h oks"
| "admitted_times k h oks = []"

text \<open>
  What a sliding-window limiter promises for windows of length \<open>W\<close>: \<open>seen c key cutoff\<close> are the
  requests it has admitted on \<open>key\<close> after \<open>cutoff\<close>, kept right for every cutoff that a request
  from \<open>now\<close> on can ask for.
\<close>

locale sliding_limiter =
  fixes allow :: "'c \<Rightarrow> string \<Rightarrow> int \<Rightarrow> time \<Rightarrow> bool \<times> 'c"
    and tick :: "'c \<Rightarrow> time \<Rightarrow> 'c"
    and start :: 'c
    and W :: duration
    and seen :: "'c \<Rightarrow> string \<Rightarrow> time \<Rightarrow> time list"
  assumes window_pos: "0 < W"
    and seen_start: "seen start key cutoff = []"
    and allow_unmetered: "\<not> metered key limit \<Longrightarrow> allow c key limit now = (True, c)"
    and allow_iff: "metered key limit \<Longrightarrow>
          fst (allow c key limit now) \<longleftrightarrow> int (length (seen c key (now - W))) < limit"
    and seen_allow: "metered key limit \<Longrightarrow> now - W \<le> cutoff \<Longrightarrow>
          seen (snd (allow c key limit now)) k cutoff =
            seen c k cutoff @ (if k = key \<and> fst (allow c key limit now) \<and> cutoff < now then [now] else [])"
    and seen_tick: "now - W \<le> cutoff \<Longrightarrow> seen (tick c now) k cutoff = seen c k cutoff"
begin

definition agrees :: "'c \<Rightarrow> (string \<Rightarrow> time list) \<Rightarrow> time \<Rightarrow> bool" where
  "agrees c log n \<longleftrightarrow> (\<forall>k cutoff. n - W \<le> cutoff \<longrightarrow> seen c k cutoff = filter (\<lambda>u. cutoff < u) (log k))"

lemma agrees_start: "agrees start (\<lambda>_. []) n"
  by (simp add: agrees_def seen_start)

lemma run_refines_reference:
  assumes "agrees c log n" "sorted (n # map fst h)"
  shows "limiter_run allow tick c h = reference_run W log h"
  using assms
proof (induction h arbitrary: c log n)
  case Nil
  then show ?case by simp
next
  case (Cons e h)
  obtain now ev where e: "e = (now, ev)" by (cases e)
  have now: "n \<le> now" "sorted (now # map fst h)"
    using Cons.prems(2) e by auto
  have a: "agrees c log now"
    using Cons.prems(1) now(1) by (simp add: agrees_def)
  show ?case
  proof (cases ev)
    case Maintenance
    have "agrees (tick c now) log now"
      using a by (simp add: agrees_def seen_tick)
    then show ?thesis
      using Cons.IH now(2) by (simp add: e Maintenance)
  next
    case (Request key limit)
    show ?thesis
    proof (cases "metered key limit")
      case False
      then show ?thesis
        using Cons.IH [OF a now(2)] by (simp add: e Request allow_unmetered)
    next
      case True
      let ?ok = "fst (allow c key limit now)"
      have "agrees (snd (allow c key limit now)) (if ?ok then log(key := log key @ [now]) else log) now"
        using a True by (auto simp: agrees_def seen_allow)
      from Cons.IH [OF this now(2)]
      have run: "limiter_run allow tick (snd (allow c key limit now)) h =
        reference_run W (if ?ok then log(key := log key @ [now]) else log) h" .
      have "?ok \<longleftrightarrow> int (length (filter (\<lambda>u. now - W < u) (log key))) < limit"
        using a True by (simp add: agrees_def allow_iff)
      with run True show ?thesis
        by (cases ?ok) (simp_all add: e Request case_prod_beta del: fun_upd_apply)
    qed
  qed
qed

lemma run_is_reference:
  assumes "sorted (map fst h)"
  shows "limiter_run allow tick start h = reference_run W (\<lambda>_. []) h"
proof (cases h)
  case (Cons e h')
  with assms show ?thesis
    by (intro run_refines_reference [where n = "fst e"] agrees_start) auto
qed simp

end

text \<open>The guarantee of the reference: never more than the limit in any window.\<close>

definition limit_at_most :: "string \<Rightarrow> int \<Rightarrow> (time \<times> limiter_event) list \<Rightarrow> bool" where
  "limit_at_most k L h \<longleftrightarrow>
     list_all (\<lambda>(t, e). case e of Request key limit \<Rightarrow> key = k \<longrightarrow> limit \<le> L | Maintenance \<Rightarrow> True) h"

lemma reference_safe:
  assumes "\<And>t. int (length (filter (\<lambda>u. t - W < u \<and> u \<le> t) (log k))) \<le> max 0 L"
    and "\<forall>u \<in> set (log k). u \<le> n" "sorted (n # map fst h)" "limit_at_most k L h" "0 < W"
  shows "int (length (filter (\<lambda>u. t - W < u \<and> u \<le> t)
           (log k @ admitted_times k h (reference_run W log h)))) \<le> max 0 L"
  using assms
proof (induction h arbitrary: log n)
  case Nil
  then show ?case by simp
next
  case (Cons e h)
  obtain now ev where e: "e = (now, ev)" by (cases e)
  have h: "n \<le> now" "sorted (now # map fst h)" "limit_at_most k L h"
    using Cons.prems(3,4) e by (auto simp: limit_at_most_def)
  have old: "\<forall>u \<in> set (log k). u \<le> now"
    using Cons.prems(2) h(1) by force
  note keep = Cons.IH [of log now, OF Cons.prems(1) old h(2,3) Cons.prems(5)]
  show ?case
  proof (cases ev)
    case Maintenance
    then show ?thesis using keep by (simp add: e)
  next
    case (Request key limit)
    show ?thesis
    proof (cases "metered key limit \<and> int (length (filter (\<lambda>u. now - W < u) (log key))) < limit")
      case False
      then show ?thesis using keep by (auto simp: e Request)
    next
      case True
      let ?log = "log(key := log key @ [now])"
      have l: "key = k \<Longrightarrow> limit \<le> L"
        using Cons.prems(4) by (simp add: e Request limit_at_most_def)
      have "int (length (filter (\<lambda>u. t - W < u \<and> u \<le> t) (?log k))) \<le> max 0 L" for t
      proof (cases "key = k \<and> t - W < now \<and> now \<le> t")
        case False
        then show ?thesis using Cons.prems(1) [of t] by auto
      next
        case in_window: True
        then have "length (filter (\<lambda>u. t - W < u \<and> u \<le> t) (log k))
            \<le> length (filter (\<lambda>u. now - W < u) (log k))"
          by (intro length_filter_mono) auto
        with True in_window l show ?thesis by auto
      qed
      then have "int (length (filter (\<lambda>u. t - W < u \<and> u \<le> t)
          (?log k @ admitted_times k h (reference_run W ?log h)))) \<le> max 0 L"
        using old h Cons.prems(5) by (intro Cons.IH [where n = now]) auto
      then show ?thesis
        using True by (auto simp: e Request split: if_splits)
    qed
  qed
qed

section \<open>The cache is a sliding-window limiter\<close>

definition seen_requests :: "cache \<Rightarrow> string \<Rightarrow> time \<Rightarrow> time list" where
  "seen_requests c key cutoff =
     filter (\<lambda>u. cutoff < u) (case sliding_http c key of None \<Rightarrow> [] | Some es \<Rightarrow> es)"

text \<open>The window of every caller, \<open>rateLimitWindow\<close> of the middleware.\<close>

definition rate_limit_window :: duration where
  "rate_limit_window = minute"

lemma rate_limit_window_facts [simp]:
  "0 < rate_limit_window" "rate_limit_window \<le> sliding_window_retention"
  by (simp_all add: rate_limit_window_def sliding_window_retention_def minute_def second_def)

definition allow_in_window :: "cache \<Rightarrow> string \<Rightarrow> int \<Rightarrow> time \<Rightarrow> bool \<times> cache" where
  "allow_in_window c key limit now = allow_sliding_window c key limit rate_limit_window now"

definition sliding_thin :: "time \<Rightarrow> time list option \<Rightarrow> time list option" where
  "sliding_thin now x =
     (case x of
        None \<Rightarrow> None
      | Some es \<Rightarrow>
          (let kept = filter (\<lambda>u. now - sliding_window_retention < u) es
           in if kept = [] then None else Some kept))"

interpretation sliding_map: swept_map "\<lambda>c. sliding_http c" sliding_thin
  by unfold_locales
    (simp_all add: sweep_maps sweep_sliding_def sliding_thin_def split: option.splits)

lemma thin_seen:
  assumes "now - sliding_window_retention \<le> cutoff"
  shows "filter (\<lambda>u. cutoff < u) (case sliding_thin now x of None \<Rightarrow> [] | Some es \<Rightarrow> es) =
         filter (\<lambda>u. cutoff < u) (case x of None \<Rightarrow> [] | Some es \<Rightarrow> es)"
proof (cases x)
  case None
  then show ?thesis by (simp add: sliding_thin_def)
next
  case (Some es)
  have "filter (\<lambda>u. cutoff < u) (filter (\<lambda>u. now - sliding_window_retention < u) es) =
      filter (\<lambda>u. cutoff < u) es"
    unfolding filter_filter using assms by (intro filter_cong) auto
  then show ?thesis
    using Some by (cases "filter (\<lambda>u. now - sliding_window_retention < u) es = []")
      (simp_all add: sliding_thin_def Let_def del: filter_filter)
qed

lemma seen_maybe_sweep:
  assumes "now - sliding_window_retention \<le> cutoff"
  shows "seen_requests (maybe_sweep c now) k cutoff = seen_requests c k cutoff"
  using sliding_map.get_maybe_sweep [of c now k] thin_seen [OF assms, of "sliding_http c k"]
  by (auto simp: seen_requests_def)

lemma filter_later_cutoff:
  "a \<le> b \<Longrightarrow> filter (\<lambda>u. b < u) (filter (\<lambda>u. (a :: int) < u) xs) = filter (\<lambda>u. b < u) xs"
  unfolding filter_filter by (intro filter_cong) auto

lemma allow_in_window_metered:
  assumes "metered key limit"
  shows "allow_in_window c key limit now =
    (int (length (seen_requests c key (now - rate_limit_window))) < limit,
     maybe_sweep (c\<lparr>sliding_http := (sliding_http c)(key \<mapsto>
       seen_requests c key (now - rate_limit_window) @
       (if int (length (seen_requests c key (now - rate_limit_window))) < limit then [now] else []))\<rparr>) now)"
proof -
  have "\<not> rate_limit_window \<le> 0" by (simp add: not_le)
  with assms show ?thesis
    by (auto simp: allow_in_window_def allow_sliding_window_def metered_def seen_requests_def Let_def)
qed

interpretation memory_limiter:
  sliding_limiter allow_in_window maybe_sweep new_cache rate_limit_window seen_requests
proof (unfold_locales, goal_cases)
  case 1
  show ?case by simp
next
  case (2 key cutoff)
  show ?case by (simp add: seen_requests_def new_cache_def)
next
  case (3 key limit c now)
  then show ?case by (auto simp: allow_in_window_def allow_sliding_window_def metered_def)
next
  case (4 key limit c now)
  then show ?case by (simp add: allow_in_window_metered)
next
  case (5 key limit now cutoff c k)
  then have "now - sliding_window_retention \<le> cutoff"
    using rate_limit_window_facts(2) by linarith
  with 5 show ?case
    by (simp add: allow_in_window_metered seen_maybe_sweep)
      (simp add: seen_requests_def filter_later_cutoff del: filter_filter)
next
  case (6 now cutoff c k)
  then have "now - sliding_window_retention \<le> cutoff"
    using rate_limit_window_facts(2) by linarith
  then show ?case by (rule seen_maybe_sweep)
qed

lemma limiter_bound:
  assumes "sorted (map fst h)" "limit_at_most k L h"
  shows "int (length (filter (\<lambda>u. t - rate_limit_window < u \<and> u \<le> t)
           (admitted_times k h (limiter_run allow_in_window maybe_sweep new_cache h)))) \<le> max 0 L"
proof (cases h)
  case Nil
  then show ?thesis by simp
next
  case (Cons e h')
  have "int (length (filter (\<lambda>u. t - rate_limit_window < u \<and> u \<le> t)
      ((\<lambda>_. []) k @ admitted_times k h (reference_run rate_limit_window (\<lambda>_. []) h)))) \<le> max 0 L"
    using assms Cons by (intro reference_safe [where n = "fst e"]) auto
  then show ?thesis
    using memory_limiter.run_is_reference [OF assms(1)] by simp
qed

text \<open>
  C20. For every history of metered and unmetered requests and of other backend calls whose clock
  readings do not run backwards, the in-memory limiter, which forgets requests when it filters its
  slices and when the sweep runs, answers exactly like the reference that never forgets anything.
\<close>

theorem sliding_window_is_reference:
  assumes "sorted (map fst h)"
  shows "limiter_run allow_in_window maybe_sweep new_cache h =
         reference_run rate_limit_window (\<lambda>_. []) h"
  using assms by (rule memory_limiter.run_is_reference)

definition limiter_sample :: "(time \<times> limiter_event) list" where
  "limiter_sample =
     [(second, Request ''u'' 1), (2 * second, Request ''u'' 1), (3 * second, Maintenance),
      (minute, Request '' '' 1), (minute + second, Request ''u'' 1)]"

lemma limiter_sample_sorted: "sorted (map fst limiter_sample)"
  by (simp add: limiter_sample_def second_def minute_def)

lemma limiter_sample_reference:
  "reference_run rate_limit_window (\<lambda>_. []) limiter_sample = [True, False, True, True, True]"
proof -
  have t: "trim_space ''u'' = ''u''" "trim_space '' '' = []"
    by code_simp+
  then show ?thesis
    by (simp add: limiter_sample_def second_def minute_def rate_limit_window_def metered_def)
qed

theorem sliding_window_is_reference_witness:
  "limiter_run allow_in_window maybe_sweep new_cache limiter_sample = [True, False, True, True, True]"
  using sliding_window_is_reference [OF limiter_sample_sorted] limiter_sample_reference by simp

text \<open>
  In any half-open window of \<open>rateLimitWindow\<close>, wherever it starts, the limiter has admitted
  at most \<open>L\<close> metered requests on a key whose requests never ask for a limit above \<open>L\<close>.
\<close>

theorem sliding_window_never_exceeds:
  assumes "sorted (map fst h)" "limit_at_most k L h"
  shows "int (length (filter (\<lambda>u. t - rate_limit_window < u \<and> u \<le> t)
           (admitted_times k h (limiter_run allow_in_window maybe_sweep new_cache h)))) \<le> max 0 L"
  using assms by (rule limiter_bound)

theorem sliding_window_never_exceeds_witness:
  "int (length (filter (\<lambda>u. minute - rate_limit_window < u \<and> u \<le> minute)
     (admitted_times ''u'' limiter_sample
       (limiter_run allow_in_window maybe_sweep new_cache limiter_sample)))) \<le> 1"
proof -
  have "limit_at_most ''u'' 1 limiter_sample"
    by (simp add: limit_at_most_def limiter_sample_def)
  from sliding_window_never_exceeds [OF limiter_sample_sorted this, of minute] show ?thesis by simp
qed

section \<open>The fixed window\<close>

text \<open>What a call at \<open>t\<close> sees of a counter: nothing once the window has passed.\<close>

definition fixed_view :: "fixed_window_counter option \<Rightarrow> time \<Rightarrow> (int \<times> time) option" where
  "fixed_view x t =
     (case x of None \<Rightarrow> None
      | Some i \<Rightarrow> if fw_expires_at i < t then None else Some (fw_count i, fw_expires_at i))"

interpretation fixed_windows:
  swept_view "\<lambda>c. fixed_http c" "drop_dead (\<lambda>i now. fw_expires_at i < now)" fixed_view
  by unfold_locales
    (auto simp: sweep_maps keep_entries_def drop_dead_def fixed_view_def split: option.splits)

text \<open>A sequence of calls with one limit and one time to live, as one middleware makes them.\<close>

fun fixed_run :: "cache \<Rightarrow> int \<Rightarrow> duration \<Rightarrow> (time \<times> string list) list \<Rightarrow> bool list" where
  "fixed_run c limit ttl [] = []"
| "fixed_run c limit ttl ((now, keys) # h) =
     (let (ok, c') = allow_fixed_window c keys limit ttl now in ok # fixed_run c' limit ttl h)"

text \<open>The answers to the calls on the one key \<open>k\<close>; the other calls must not name it.\<close>

definition own_answers :: "string \<Rightarrow> (time \<times> string list) list \<Rightarrow> bool list \<Rightarrow> bool list" where
  "own_answers k h oks = map snd (filter (\<lambda>((now, keys), ok). keys = [k]) (zip h oks))"

definition own_calls :: "string \<Rightarrow> (time \<times> string list) list \<Rightarrow> nat" where
  "own_calls k h = length (filter (\<lambda>(now, keys). keys = [k]) h)"

definition single_keyed :: "string \<Rightarrow> (time \<times> string list) list \<Rightarrow> bool" where
  "single_keyed k h \<longleftrightarrow>
     list_all (\<lambda>(now, keys). keys = [k] \<or> list_all (\<lambda>key. trim_space key \<noteq> trim_space k) keys) h"

lemma fixed_loop_other:
  "list_all (\<lambda>key. trim_space key \<noteq> k) keys \<Longrightarrow>
   snd (fixed_window_loop m limit ttl now keys allowed) k = m k"
  by (induction keys arbitrary: m allowed) (auto simp: Let_def)

lemma sweep_keeps_live_window:
  assumes "fixed_http c k = Some i" "now \<le> fw_expires_at i"
  shows "fixed_http (maybe_sweep c now) k = Some i"
  using fixed_windows.get_maybe_sweep [of c now k] assms by (auto simp: drop_dead_def)

lemma allow_own:
  assumes "trim_space k \<noteq> []" "0 < limit" "0 < ttl" "0 < now"
    and "(n, e) = (case fixed_view (fixed_http c (trim_space k)) now of
                     None \<Rightarrow> (1, now + ttl) | Some (n, e) \<Rightarrow> (n + 1, e))"
  shows "fst (allow_fixed_window c [k] limit ttl now) \<longleftrightarrow> n \<le> limit"
    and "fixed_http (snd (allow_fixed_window c [k] limit ttl now)) (trim_space k) =
         Some \<lparr>fw_count = n, fw_expires_at = e\<rparr>"
  using assms
  by (auto simp: allow_fixed_window_def Let_def fixed_view_def zero_fixed_window_def zero_time_def
      not_le not_less split: option.splits if_splits intro!: sweep_keeps_live_window)

lemma allow_other:
  assumes "list_all (\<lambda>key. trim_space key \<noteq> k) keys" "fixed_http c k = Some i" "now \<le> fw_expires_at i"
  shows "fixed_http (snd (allow_fixed_window c keys limit ttl now)) k = Some i"
  using assms fixed_loop_other [OF assms(1), of "fixed_http c" limit "if ttl \<le> 0 then minute else ttl" now True]
  by (auto simp: allow_fixed_window_def Let_def case_prod_beta intro!: sweep_keeps_live_window)

lemma own_answers_Cons:
  "own_answers k ((now, keys) # h) (ok # oks) =
     (if keys = [k] then ok # own_answers k h oks else own_answers k h oks)"
  by (simp add: own_answers_def)

lemma own_calls_Cons:
  "own_calls k ((now, keys) # h) = (if keys = [k] then Suc (own_calls k h) else own_calls k h)"
  by (simp add: own_calls_def)

lemma fixed_run_in_window:
  assumes "trim_space k \<noteq> []" "0 < limit" "0 < ttl"
    and "fixed_http c (trim_space k) = Some \<lparr>fw_count = n, fw_expires_at = e\<rparr>"
    and "single_keyed k h" "list_all (\<lambda>(t, keys). 0 < t \<and> t \<le> e) h"
  shows "own_answers k h (fixed_run c limit ttl h) =
         map (\<lambda>i. n + int i < limit) [0..<own_calls k h]"
  using assms(4-6)
proof (induction h arbitrary: c n)
  case Nil
  then show ?case by (simp add: own_answers_def own_calls_def)
next
  case (Cons x h)
  obtain now keys where x: "x = (now, keys)" by (cases x)
  have h: "single_keyed k h" "list_all (\<lambda>(t, keys). 0 < t \<and> t \<le> e) h" "0 < now" "now \<le> e"
    using Cons.prems(2,3) x by (simp_all add: single_keyed_def)
  let ?c = "snd (allow_fixed_window c keys limit ttl now)"
  show ?case
  proof (cases "keys = [k]")
    case True
    have v: "(n + 1, e) = (case fixed_view (fixed_http c (trim_space k)) now of
        None \<Rightarrow> (1, now + ttl) | Some (n, e) \<Rightarrow> (n + 1, e))"
      using Cons.prems(1) h(4) by (simp add: fixed_view_def)
    note own = allow_own [OF assms(1-3) h(3) v]
    have "own_answers k h (fixed_run ?c limit ttl h) =
        map (\<lambda>i. n + 1 + int i < limit) [0..<own_calls k h]"
      using own(2) True by (intro Cons.IH h) simp
    moreover have "map (\<lambda>i. n + int i < limit) [0..<Suc m] =
        (n + 1 \<le> limit) # map (\<lambda>i. n + 1 + int i < limit) [0..<m]" for m
      by (subst map_upt_Suc) (auto simp: add.assoc)
    ultimately show ?thesis
      using own(1) True
      by (simp add: x case_prod_beta own_answers_Cons own_calls_Cons del: upt_Suc)
  next
    case False
    then have "list_all (\<lambda>key. trim_space key \<noteq> trim_space k) keys"
      using Cons.prems(2) by (simp add: x single_keyed_def)
    from allow_other [OF this Cons.prems(1)] h(4)
    have "own_answers k h (fixed_run ?c limit ttl h) =
        map (\<lambda>i. n + int i < limit) [0..<own_calls k h]"
      by (intro Cons.IH h) simp
    then show ?thesis
      using False by (simp add: x case_prod_beta own_answers_Cons own_calls_Cons)
  qed
qed

text \<open>
  From the first call on a key whose window is closed, and for every further call within the
  time to live, whatever calls on other keys and sweeps come between, the i-th call on the key is
  allowed exactly when i is at most the limit.
\<close>

theorem fixed_window_exact:
  assumes "trim_space k \<noteq> []" "0 < limit" "0 < ttl" "0 < t0"
    and "fixed_view (fixed_http c (trim_space k)) t0 = None"
    and "single_keyed k h" "list_all (\<lambda>(t, keys). 0 < t \<and> t \<le> t0 + ttl) h"
  shows "own_answers k ((t0, [k]) # h) (fixed_run c limit ttl ((t0, [k]) # h)) =
         map (\<lambda>i. int i < limit) [0..<Suc (own_calls k h)]"
proof -
  have v: "(1, t0 + ttl) = (case fixed_view (fixed_http c (trim_space k)) t0 of
      None \<Rightarrow> (1, t0 + ttl) | Some (n, e) \<Rightarrow> (n + 1, e))"
    using assms(5) by simp
  note own = allow_own [OF assms(1-4) v]
  have "own_answers k h (fixed_run (snd (allow_fixed_window c [k] limit ttl t0)) limit ttl h) =
      map (\<lambda>i. 1 + int i < limit) [0..<own_calls k h]"
    by (rule fixed_run_in_window [OF assms(1-3) own(2) assms(6,7)])
  moreover have "map (\<lambda>i. int i < limit) [0..<Suc m] = (1 \<le> limit) # map (\<lambda>i. 1 + int i < limit) [0..<m]"
    for m
    using assms(2) by (subst map_upt_Suc) simp
  ultimately show ?thesis
    using own(1) by (simp add: case_prod_beta own_answers_Cons del: upt_Suc)
qed

theorem fixed_window_exact_witness:
  "own_answers ''ip'' [(second, [''ip'']), (2 * second, [''x'']), (3 * second, [''ip''])]
     (fixed_run new_cache 1 minute
       [(second, [''ip'']), (2 * second, [''x'']), (3 * second, [''ip''])]) = [True, False]"
proof -
  have t: "trim_space ''ip'' = ''ip''" "trim_space ''x'' = ''x''"
    by code_simp+
  have h: "single_keyed ''ip'' [(2 * second, [''x'']), (3 * second, [''ip''])]"
    by (simp add: single_keyed_def t)
  have "own_calls ''ip'' [(2 * second, [''x'']), (3 * second, [''ip''])] = 1"
    by (simp add: own_calls_def)
  then show ?thesis
    using fixed_window_exact [of "''ip''" 1 minute second new_cache
        "[(2 * second, [''x'']), (3 * second, [''ip''])]"] t h
    by (simp add: fixed_view_def new_cache_def second_def minute_def)
qed

end
