(* ===== verification/Http_Limit.thy ===== *)
theory Http_Limit
  imports Limiter
begin

text \<open>
  The rate-limiting middleware of the HTTP server (transport/http/middleware/ratelimit.go): the
  policies, the keys, and the three handlers, over any \<open>RateLimiter\<close>; then the guarantee the
  handlers give on the in-memory cache.
\<close>

section \<open>Requests, configuration and outcomes\<close>

text \<open>
  What a handler reads of the \<open>gin.Context\<close>: the route template, the path of the URL, the method,
  \<open>ClientIP()\<close>, and the two context values the authentication middleware sets (the role only when
  its dynamic type is a string).
\<close>

record http_request =
  full_path :: string
  url_path :: "string option"
  req_method :: string
  client_ip :: string
  ctx_user_id :: "nat option"
  ctx_user_role :: "string option"

record rate_config =
  rate_limit_enabled :: bool
  rate_limit_rpm :: int
  public_auth_rate_limit_rpm :: int

datatype limit_error = Rate_exceeded | Refresh_exceeded | Authentication_exceeded

record rate_limit_policy =
  pol_name :: string
  pol_limit :: int
  pol_window :: duration
  pol_ttl :: duration
  pol_err :: limit_error

text \<open>Either the chain goes on, or status 429 is written with its headers and the chain aborts.\<close>

datatype http_outcome =
  Next
| Too_many (retry_after: int) (limit_header: int) (reset_header: int) (limit_err: limit_error)

text \<open>The \<open>RateLimiter\<close> interface; a result None is an error of the store.\<close>

record 'c rate_limiter =
  rl_sliding :: "'c \<Rightarrow> string \<Rightarrow> int \<Rightarrow> duration \<Rightarrow> duration \<Rightarrow> time \<Rightarrow> bool option \<times> 'c"
  rl_fixed :: "'c \<Rightarrow> string list \<Rightarrow> int \<Rightarrow> duration \<Rightarrow> time \<Rightarrow> bool option \<times> 'c"

definition memory_rate_limiter :: "cache rate_limiter" where
  "memory_rate_limiter =
     \<lparr>rl_sliding = (\<lambda>c key limit window ttl now.
        let (ok, c') = allow_sliding_window c key limit window now in (Some ok, c')),
      rl_fixed = (\<lambda>c keys limit ttl now.
        let (ok, c') = allow_fixed_window c keys limit ttl now in (Some ok, c'))\<rparr>"

definition is_admin_role :: "string \<Rightarrow> bool" where
  "is_admin_role role \<longleftrightarrow> role = ''admin'' \<or> role = ''superadmin''"

section \<open>Routes\<close>

definition trim_prefix :: "string \<Rightarrow> string \<Rightarrow> string" where
  "trim_prefix s p = (if prefix p s then drop (length p) s else s)"

definition normalized_route_path :: "http_request \<Rightarrow> string" where
  "normalized_route_path r =
     (let route = trim_space (full_path r);
          route = (if route = [] then (case url_path r of None \<Rightarrow> route | Some p \<Rightarrow> trim_space p)
                   else route);
          route = trim_prefix route ''/api/v1''
      in if route = [] then ''/''
         else if \<not> prefix ''/'' route then CHR ''/'' # route
         else route)"

definition is_message_generation_route :: "string \<Rightarrow> string \<Rightarrow> bool" where
  "is_message_generation_route m route \<longleftrightarrow>
     m = ''POST'' \<and> (suffix ''/messages'' route \<or> suffix ''/messages/stream'' route \<or>
                      suffix ''/cancel'' route)"

definition is_media_generation_route :: "string \<Rightarrow> string \<Rightarrow> bool" where
  "is_media_generation_route m route \<longleftrightarrow>
     m = ''POST'' \<and> (sublist ''/media/images/'' route \<or> sublist ''/media/videos/'' route)"

definition is_file_upload_route :: "string \<Rightarrow> string \<Rightarrow> bool" where
  "is_file_upload_route m route \<longleftrightarrow> m = ''POST'' \<and> route = ''/files''"

definition is_polling_route :: "string \<Rightarrow> string \<Rightarrow> bool" where
  "is_polling_route m route \<longleftrightarrow>
     (if m = ''POST''
      then route = ''/files/processing/statuses'' \<or> route = ''/conversation-runs/statuses'' \<or>
           suffix ''/files/processing/statuses'' route
      else m = ''GET'' \<and> (suffix ''/processing'' route \<or> suffix ''/runs'' route \<or>
                           suffix ''/stream'' route))"

definition is_public_auth_read_route :: "string \<Rightarrow> string \<Rightarrow> bool" where
  "is_public_auth_read_route m route \<longleftrightarrow>
     (if m \<noteq> ''GET'' then False else route = ''/auth/login-options'' \<or> suffix ''/logo'' route)"

section \<open>Policies\<close>

definition default_authenticated_rpm :: int where
  "default_authenticated_rpm = 60"

definition default_public_auth_rpm :: int where
  "default_public_auth_rpm = 30"

definition at_least :: "int \<Rightarrow> int \<Rightarrow> int" where
  "at_least value minimum = (if value < minimum then minimum else value)"

definition is_limit_enabled :: "rate_config option \<Rightarrow> bool" where
  "is_limit_enabled rt = (case rt of None \<Rightarrow> False | Some cfg \<Rightarrow> rate_limit_enabled cfg)"

definition authenticated_rpm :: "rate_config option \<Rightarrow> int" where
  "authenticated_rpm rt =
     (case rt of None \<Rightarrow> default_authenticated_rpm
      | Some cfg \<Rightarrow> if 0 < rate_limit_rpm cfg then rate_limit_rpm cfg else default_authenticated_rpm)"

definition public_auth_rpm :: "rate_config option \<Rightarrow> int" where
  "public_auth_rpm rt =
     (case rt of None \<Rightarrow> default_public_auth_rpm
      | Some cfg \<Rightarrow> if 0 < public_auth_rate_limit_rpm cfg then public_auth_rate_limit_rpm cfg
                    else default_public_auth_rpm)"

definition new_rate_limit_policy :: "string \<Rightarrow> int \<Rightarrow> limit_error \<Rightarrow> rate_limit_policy" where
  "new_rate_limit_policy name limit err =
     \<lparr>pol_name = name, pol_limit = (if limit \<le> 0 then default_authenticated_rpm else limit),
      pol_window = rate_limit_window, pol_ttl = 2 * rate_limit_window, pol_err = err\<rparr>"

text \<open>
  The multiplications are on Go's int; the halving is of a positive number, so \<open>div\<close> is its
  truncated division.
\<close>

definition authenticated_policy :: "http_request \<Rightarrow> int \<Rightarrow> rate_limit_policy" where
  "authenticated_policy r base =
     (let route = normalized_route_path r; m = req_method r
      in if is_media_generation_route m route
           then new_rate_limit_policy ''media_generation'' (at_least (base div 2) 30) Rate_exceeded
         else if is_message_generation_route m route
           then new_rate_limit_policy ''message_generation''
                  (at_least base default_authenticated_rpm) Rate_exceeded
         else if is_file_upload_route m route
           then new_rate_limit_policy ''file_upload'' (at_least (wrap64 (base * 2)) 120) Rate_exceeded
         else if is_polling_route m route
           then new_rate_limit_policy ''polling'' (at_least (wrap64 (base * 10)) 600) Rate_exceeded
         else if m = ''GET''
           then new_rate_limit_policy ''read'' (at_least (wrap64 (base * 10)) 600) Rate_exceeded
         else if m = ''POST'' \<or> m = ''PUT'' \<or> m = ''PATCH'' \<or> m = ''DELETE''
           then new_rate_limit_policy ''write'' (at_least (wrap64 (base * 4)) 240) Rate_exceeded
         else new_rate_limit_policy ''general'' (at_least (wrap64 (base * 6)) 360) Rate_exceeded)"

definition public_policy :: "http_request \<Rightarrow> int \<Rightarrow> rate_limit_policy" where
  "public_policy r base =
     (let route = normalized_route_path r; m = req_method r
      in if route = ''/auth/refresh''
           then new_rate_limit_policy ''auth_refresh'' (at_least (wrap64 (base * 10)) 300) Refresh_exceeded
         else if is_public_auth_read_route m route
           then new_rate_limit_policy ''public_auth_read'' (at_least (wrap64 (base * 10)) 300) Rate_exceeded
         else if prefix ''/auth/'' route
           then new_rate_limit_policy ''public_auth'' base Authentication_exceeded
         else if prefix ''/billing/payments/'' route
           then new_rate_limit_policy ''payment_callback'' (at_least (wrap64 (base * 20)) 600) Rate_exceeded
         else if route = ''/settings/login-page'' \<or> prefix ''/shared-conversations/'' route
           then new_rate_limit_policy ''public_read'' (at_least (wrap64 (base * 20)) 600) Rate_exceeded
         else new_rate_limit_policy ''public'' (at_least (wrap64 (base * 10)) 300) Rate_exceeded)"

section \<open>Handlers\<close>

definition write_rate_limit_error :: "rate_limit_policy \<Rightarrow> time \<Rightarrow> http_outcome" where
  "write_rate_limit_error p now =
     (let retry_after = pol_window p div second;
          retry_after = (if retry_after \<le> 0 then 60 else retry_after)
      in Too_many retry_after (pol_limit p) (unix (now + pol_window p)) (pol_err p))"

definition user_limit_key :: "nat \<Rightarrow> string \<Rightarrow> string" where
  "user_limit_key uid name = ''ratelimit:user:'' @ dec uid @ CHR '':'' # name"

text \<open>The tail of the handlers: a store error lets the request through.\<close>

definition limit_verdict :: "rate_limit_policy \<Rightarrow> time \<Rightarrow> bool option \<Rightarrow> http_outcome" where
  "limit_verdict p now res =
     (case res of None \<Rightarrow> Next | Some allowed \<Rightarrow> if allowed then Next else write_rate_limit_error p now)"

definition rate_limit ::
  "'c rate_limiter option \<Rightarrow> rate_config option \<Rightarrow> 'c \<Rightarrow> http_request \<Rightarrow> time \<Rightarrow> http_outcome \<times> 'c" where
  "rate_limit limiter rt c r now =
     (case limiter of
        None \<Rightarrow> (Next, c)
      | Some l \<Rightarrow>
          if \<not> is_limit_enabled rt then (Next, c)
          else case ctx_user_id r of
            None \<Rightarrow> (Next, c)
          | Some uid \<Rightarrow>
              if (case ctx_user_role r of None \<Rightarrow> False | Some role \<Rightarrow> is_admin_role role) then (Next, c)
              else
                let p = authenticated_policy r (authenticated_rpm rt);
                    (res, c') = rl_sliding l c (user_limit_key uid (pol_name p)) (pol_limit p)
                                  (pol_window p) (pol_ttl p) now
                in (limit_verdict p now res, c'))"

definition public_limit_key :: "rate_limit_policy \<Rightarrow> http_request \<Rightarrow> string \<Rightarrow> string" where
  "public_limit_key p r ip =
     (if pol_name p = ''auth_refresh'' then ''ratelimit:token-refresh:ip:'' @ ip
      else ''ratelimit:public:'' @ pol_name p @ '':'' @ normalized_route_path r @ '':ip:'' @ ip)"

definition public_auth_rate_limit ::
  "'c rate_limiter option \<Rightarrow> rate_config option \<Rightarrow> 'c \<Rightarrow> http_request \<Rightarrow> time \<Rightarrow> http_outcome \<times> 'c" where
  "public_auth_rate_limit limiter rt c r now =
     (case limiter of
        None \<Rightarrow> (Next, c)
      | Some l \<Rightarrow>
          if \<not> is_limit_enabled rt then (Next, c)
          else
            let ip = (if client_ip r = [] then ''unknown'' else client_ip r);
                p = public_policy r (public_auth_rpm rt);
                (res, c') = rl_fixed l c [public_limit_key p r ip] (pol_limit p) (pol_ttl p) now
            in (limit_verdict p now res, c'))"

definition upstream_probe_rate_limit ::
  "'c rate_limiter option \<Rightarrow> int \<Rightarrow> 'c \<Rightarrow> http_request \<Rightarrow> time \<Rightarrow> http_outcome \<times> 'c" where
  "upstream_probe_rate_limit limiter per_minute c r now =
     (let p = new_rate_limit_policy ''upstream_probe'' per_minute Rate_exceeded
      in case limiter of
           None \<Rightarrow> (Next, c)
         | Some l \<Rightarrow>
             (case ctx_user_id r of
                None \<Rightarrow> (Next, c)
              | Some uid \<Rightarrow>
                  let (res, c') = rl_sliding l c (user_limit_key uid ''upstream_probe'') (pol_limit p)
                                    (pol_window p) (pol_ttl p) now
                  in (limit_verdict p now res, c')))"

section \<open>Handlers over a sliding window\<close>

text \<open>
  A history of the server as the limiter sees it: requests that reach the handler, and other calls
  of the backend that may run the cache's maintenance. A handler is \<open>metered\<close> by \<open>meter\<close> when it
  lets a request through without touching the store, or asks the sliding window for the key and the
  limit that \<open>meter\<close> gives.
\<close>

datatype http_event = Arrives http_request | Backend

type_synonym handler = "cache \<Rightarrow> http_request \<Rightarrow> time \<Rightarrow> http_outcome \<times> cache"

fun http_run :: "handler \<Rightarrow> cache \<Rightarrow> (time \<times> http_event) list \<Rightarrow> http_outcome list" where
  "http_run hnd c [] = []"
| "http_run hnd c ((now, Arrives r) # h) = (let (out, c') = hnd c r now in out # http_run hnd c' h)"
| "http_run hnd c ((now, Backend) # h) = Next # http_run hnd (maybe_sweep c now) h"

fun limiter_events ::
  "(http_request \<Rightarrow> (string \<times> int) option) \<Rightarrow> (time \<times> http_event) list \<Rightarrow> (time \<times> limiter_event) list"
  where
  "limiter_events meter [] = []"
| "limiter_events meter ((now, Arrives r) # h) =
     (case meter r of None \<Rightarrow> limiter_events meter h
      | Some (k, l) \<Rightarrow> (now, Request k l) # limiter_events meter h)"
| "limiter_events meter ((now, Backend) # h) = (now, Maintenance) # limiter_events meter h"

text \<open>The times at which requests that satisfy \<open>sel\<close> were let through.\<close>

fun served :: "(http_request \<Rightarrow> bool) \<Rightarrow> (time \<times> http_event) list \<Rightarrow> http_outcome list \<Rightarrow> time list" where
  "served sel ((now, Arrives r) # h) (out # outs) =
     (if sel r \<and> out = Next then now # served sel h outs else served sel h outs)"
| "served sel (e # h) (out # outs) = served sel h outs"
| "served sel h outs = []"

definition metered_by :: "(http_request \<Rightarrow> (string \<times> int) option) \<Rightarrow> string \<Rightarrow> http_request \<Rightarrow> bool" where
  "metered_by meter k r \<longleftrightarrow> (case meter r of None \<Rightarrow> False | Some (k', l) \<Rightarrow> k' = k)"

lemma sorted_limiter_events:
  "sorted (map fst h) \<Longrightarrow> sorted (map fst (limiter_events meter h))"
proof (induction h)
  case Nil
  then show ?case by simp
next
  case (Cons x h)
  obtain now e where x: "x = (now, e)" by (cases x)
  have "set (map fst (limiter_events meter h)) \<subseteq> set (map fst h)" for h
  proof (induction h)
    case (Cons x h)
    then show ?case by (cases x; cases "snd x") (auto split: option.splits)
  qed simp
  with Cons show ?case
    by (cases e) (fastforce simp: x split: option.splits)+
qed

locale limited_handler =
  fixes handler :: handler
    and meter :: "http_request \<Rightarrow> (string \<times> int) option"
  assumes unmetered: "meter r = None \<Longrightarrow> handler c r now = (Next, c)"
    and asks: "meter r = Some (k, l) \<Longrightarrow>
          (fst (handler c r now) = Next \<longleftrightarrow> fst (allow_in_window c k l now)) \<and>
          snd (handler c r now) = snd (allow_in_window c k l now)"
    and meters: "meter r = Some (k, l) \<Longrightarrow> metered k l"
begin

lemma served_admitted:
  "served (metered_by meter k) h (http_run handler c h) =
   admitted_times k (limiter_events meter h)
     (limiter_run allow_in_window maybe_sweep c (limiter_events meter h))"
proof (induction h arbitrary: c)
  case Nil
  then show ?case by simp
next
  case (Cons x h)
  obtain now e where x: "x = (now, e)" by (cases x)
  show ?case
  proof (cases e)
    case Backend
    then show ?thesis using Cons by (simp add: x)
  next
    case (Arrives r)
    show ?thesis
    proof (cases "meter r")
      case None
      then show ?thesis using Cons by (simp add: x Arrives unmetered metered_by_def)
    next
      case (Some kl)
      obtain k' l where kl: "kl = (k', l)" by (cases kl)
      show ?thesis
        using Cons asks [of r k' l c now] meters [of r k' l] Some
        by (cases "k' = k") (simp_all add: x Arrives kl metered_by_def case_prod_beta)
    qed
  qed
qed

lemma limit_events_at_most:
  assumes "\<And>r l. meter r = Some (k, l) \<Longrightarrow> l \<le> L"
  shows "limit_at_most k L (limiter_events meter h)"
  using assms
  by (induction meter h rule: limiter_events.induct) (auto simp: limit_at_most_def split: option.splits)

lemma never_exceeds:
  assumes "sorted (map fst h)" "\<And>r l. meter r = Some (k, l) \<Longrightarrow> l \<le> L"
  shows "int (length (filter (\<lambda>u. t - rate_limit_window < u \<and> u \<le> t)
           (served (metered_by meter k) h (http_run handler new_cache h)))) \<le> max 0 L"
  unfolding served_admitted
  by (intro limiter_bound sorted_limiter_events limit_events_at_most assms)

end

text \<open>The two handlers on the in-memory limiter, and what they meter.\<close>

definition user_meter :: "rate_config option \<Rightarrow> http_request \<Rightarrow> (string \<times> int) option" where
  "user_meter rt r =
     (case ctx_user_id r of
        None \<Rightarrow> None
      | Some uid \<Rightarrow>
          if \<not> is_limit_enabled rt \<or>
             (case ctx_user_role r of None \<Rightarrow> False | Some role \<Rightarrow> is_admin_role role)
          then None
          else let p = authenticated_policy r (authenticated_rpm rt)
               in Some (user_limit_key uid (pol_name p), pol_limit p))"

definition probe_meter :: "int \<Rightarrow> http_request \<Rightarrow> (string \<times> int) option" where
  "probe_meter per_minute r =
     (case ctx_user_id r of
        None \<Rightarrow> None
      | Some uid \<Rightarrow> Some (user_limit_key uid ''upstream_probe'',
          pol_limit (new_rate_limit_policy ''upstream_probe'' per_minute Rate_exceeded)))"

lemma new_policy_simps [simp]:
  "pol_name (new_rate_limit_policy name limit err) = name"
  "pol_window (new_rate_limit_policy name limit err) = rate_limit_window"
  "pol_err (new_rate_limit_policy name limit err) = err"
  "0 < pol_limit (new_rate_limit_policy name limit err)"
  by (simp_all add: new_rate_limit_policy_def default_authenticated_rpm_def)

lemma authenticated_policy_frame [simp]:
  "pol_window (authenticated_policy r base) = rate_limit_window"
  "0 < pol_limit (authenticated_policy r base)"
  by (simp_all add: authenticated_policy_def Let_def)

text \<open>The class name determines the limit, so the whole policy.\<close>

definition class_limit :: "string \<Rightarrow> int \<Rightarrow> int" where
  "class_limit name base =
     (if name = ''media_generation'' then at_least (base div 2) 30
      else if name = ''message_generation'' then at_least base default_authenticated_rpm
      else if name = ''file_upload'' then at_least (wrap64 (base * 2)) 120
      else if name = ''polling'' \<or> name = ''read'' then at_least (wrap64 (base * 10)) 600
      else if name = ''write'' then at_least (wrap64 (base * 4)) 240
      else at_least (wrap64 (base * 6)) 360)"

lemma policy_of_class:
  "authenticated_policy r base =
     new_rate_limit_policy (pol_name (authenticated_policy r base))
       (class_limit (pol_name (authenticated_policy r base)) base) Rate_exceeded"
  unfolding authenticated_policy_def Let_def
  by (split if_split | simp only: if_True if_False | intro conjI impI)+
    (simp_all add: class_limit_def)

lemma same_name_same_policy:
  "pol_name (authenticated_policy r base) = pol_name (authenticated_policy r' base) \<Longrightarrow>
   authenticated_policy r base = authenticated_policy r' base"
  by (subst (1 2) policy_of_class) simp

lemma user_limit_key_inj:
  "user_limit_key u name = user_limit_key u' name' \<longleftrightarrow> u = u' \<and> name = name'"
  by (simp add: user_limit_key_def dec_colon_inj)

lemma user_limit_key_metered: "0 < l \<Longrightarrow> metered (user_limit_key u name) l"
  by (simp add: metered_def user_limit_key_def)

lemma refusal_not_Next [simp]: "write_rate_limit_error p now \<noteq> Next"
  by (simp add: write_rate_limit_error_def Let_def)

lemma limit_verdict_simps [simp]:
  "limit_verdict p now (Some ok) = (if ok then Next else write_rate_limit_error p now)"
  "limit_verdict p now None = Next"
  by (simp_all add: limit_verdict_def)

lemma memory_sliding [simp]:
  "rl_sliding memory_rate_limiter c k l rate_limit_window ttl now =
     (Some (fst (allow_in_window c k l now)), snd (allow_in_window c k l now))"
  by (simp add: memory_rate_limiter_def allow_in_window_def case_prod_beta)

lemma user_handler:
  "rate_limit (Some memory_rate_limiter) rt c r now =
     (case user_meter rt r of None \<Rightarrow> (Next, c)
      | Some (k, l) \<Rightarrow>
          (limit_verdict (authenticated_policy r (authenticated_rpm rt)) now
             (Some (fst (allow_in_window c k l now))), snd (allow_in_window c k l now)))"
  by (simp add: rate_limit_def user_meter_def Let_def split: option.split)

lemma probe_handler:
  "upstream_probe_rate_limit (Some memory_rate_limiter) n c r now =
     (case probe_meter n r of None \<Rightarrow> (Next, c)
      | Some (k, l) \<Rightarrow>
          (limit_verdict (new_rate_limit_policy ''upstream_probe'' n Rate_exceeded) now
             (Some (fst (allow_in_window c k l now))), snd (allow_in_window c k l now)))"
  by (simp add: upstream_probe_rate_limit_def probe_meter_def Let_def split: option.split)

lemma meters_metered:
  "user_meter rt r = Some (k, l) \<Longrightarrow> metered k l"
  "probe_meter n r = Some (k, l) \<Longrightarrow> metered k l"
  by (auto simp: user_meter_def probe_meter_def Let_def user_limit_key_metered
      split: option.splits if_splits)

interpretation user_limits:
  limited_handler "rate_limit (Some memory_rate_limiter) rt" "user_meter rt" for rt
  by unfold_locales (simp_all add: user_handler meters_metered)

interpretation probe_limits:
  limited_handler "upstream_probe_rate_limit (Some memory_rate_limiter) n" "probe_meter n" for n
  by unfold_locales (simp_all add: probe_handler meters_metered)

section \<open>Guarantees\<close>

text \<open>A request of the user that is not exempt and falls under the policy.\<close>

definition under_policy :: "rate_config option \<Rightarrow> nat \<Rightarrow> rate_limit_policy \<Rightarrow> http_request \<Rightarrow> bool" where
  "under_policy rt uid p r \<longleftrightarrow>
     ctx_user_id r = Some uid \<and>
     \<not> (case ctx_user_role r of None \<Rightarrow> False | Some role \<Rightarrow> is_admin_role role) \<and>
     authenticated_policy r (authenticated_rpm rt) = p"

lemma under_policy_metered:
  assumes "is_limit_enabled rt" "p = authenticated_policy r0 (authenticated_rpm rt)"
  shows "under_policy rt uid p = metered_by (user_meter rt) (user_limit_key uid (pol_name p))"
  using assms same_name_same_policy
  by (fastforce simp: under_policy_def metered_by_def user_meter_def Let_def user_limit_key_inj
      fun_eq_iff split: option.splits)

text \<open>
  While rate limiting is on, a user who is not an administrator gets at most the limit of a
  request class served in any minute, whatever mix of routes, users and backend work the history
  holds: classes and users never share a window.
\<close>

theorem user_class_limit:
  assumes "is_limit_enabled rt" "sorted (map fst h)"
  shows "int (length (filter (\<lambda>u. t - rate_limit_window < u \<and> u \<le> t)
           (served (under_policy rt uid (authenticated_policy r0 (authenticated_rpm rt))) h
             (http_run (rate_limit (Some memory_rate_limiter) rt) new_cache h))))
         \<le> pol_limit (authenticated_policy r0 (authenticated_rpm rt))"
proof -
  let ?p = "authenticated_policy r0 (authenticated_rpm rt)"
  have bound: "l \<le> pol_limit ?p" if "user_meter rt r = Some (user_limit_key uid (pol_name ?p), l)" for r l
    using that same_name_same_policy [of r "authenticated_rpm rt" r0]
    by (auto simp: user_meter_def Let_def user_limit_key_inj split: option.splits if_splits)
  have "max 0 (pol_limit ?p) \<le> pol_limit ?p"
    using authenticated_policy_frame(2) [of r0 "authenticated_rpm rt"] by linarith
  then show ?thesis
    unfolding under_policy_metered [OF assms(1) refl]
    by (rule order_trans [rotated]) (rule user_limits.never_exceeds [OF assms(2)], erule bound)
qed

definition sample_request :: "string \<Rightarrow> http_request" where
  "sample_request role =
     \<lparr>full_path = ''/api/v1/files'', url_path = None, req_method = ''POST'', client_ip = ''10.0.0.1'',
      ctx_user_id = Some 7, ctx_user_role = Some role\<rparr>"

definition sample_config :: "rate_config option" where
  "sample_config =
     Some \<lparr>rate_limit_enabled = True, rate_limit_rpm = 60, public_auth_rate_limit_rpm = 30\<rparr>"

definition sample_arrivals :: "string \<Rightarrow> (time \<times> http_event) list" where
  "sample_arrivals role =
     [(second, Arrives (sample_request role)), (2 * second, Backend),
      (3 * second, Arrives (sample_request role))]"

lemma sample_arrivals_sorted: "sorted (map fst (sample_arrivals role))"
  by (simp add: sample_arrivals_def second_def)

lemma sample_policy_limit: "pol_limit (authenticated_policy (sample_request ''user'') 60) = 120"
  by code_simp

theorem user_class_limit_witness:
  "int (length (filter (\<lambda>u. minute - rate_limit_window < u \<and> u \<le> minute)
     (served (under_policy sample_config 7 (authenticated_policy (sample_request ''user'') 60))
       (sample_arrivals ''user'')
       (http_run (rate_limit (Some memory_rate_limiter) sample_config) new_cache
         (sample_arrivals ''user''))))) \<le> 120"
proof -
  have "is_limit_enabled sample_config" "authenticated_rpm sample_config = 60"
    by (simp_all add: is_limit_enabled_def authenticated_rpm_def sample_config_def)
  with user_class_limit [OF _ sample_arrivals_sorted, of sample_config minute 7 "sample_request ''user''"]
  show ?thesis by (simp add: sample_policy_limit)
qed

text \<open>
  The probe limit holds for every user, administrators included, whatever the configuration:
  in any minute at most the configured number of a user's probe requests is let through (60 where
  the configured number is not positive).
\<close>

theorem probe_limit_for_everyone:
  assumes "sorted (map fst h)"
  shows "int (length (filter (\<lambda>u. t - rate_limit_window < u \<and> u \<le> t)
           (served (\<lambda>r. ctx_user_id r = Some uid) h
             (http_run (upstream_probe_rate_limit (Some memory_rate_limiter) n) new_cache h))))
         \<le> (if n \<le> 0 then 60 else n)"
proof -
  let ?k = "user_limit_key uid ''upstream_probe''"
  have sel: "(\<lambda>r. ctx_user_id r = Some uid) = metered_by (probe_meter n) ?k"
    by (auto simp: metered_by_def probe_meter_def user_limit_key_inj fun_eq_iff split: option.splits)
  have bound: "l \<le> (if n \<le> 0 then 60 else n)" if "probe_meter n r = Some (?k, l)" for r l
    using that
    by (auto simp: probe_meter_def new_rate_limit_policy_def default_authenticated_rpm_def
        split: option.splits)
  have "max 0 (if n \<le> 0 then 60 else n) \<le> (if n \<le> 0 then 60 else n)"
    by simp
  then show ?thesis
    unfolding sel
    by (rule order_trans [rotated]) (rule probe_limits.never_exceeds [OF assms], erule bound)
qed

theorem probe_limit_for_everyone_witness:
  "int (length (filter (\<lambda>u. minute - rate_limit_window < u \<and> u \<le> minute)
     (served (\<lambda>r. ctx_user_id r = Some 7) (sample_arrivals ''admin'')
       (http_run (upstream_probe_rate_limit (Some memory_rate_limiter) 1) new_cache
         (sample_arrivals ''admin''))))) \<le> 1"
  using probe_limit_for_everyone [OF sample_arrivals_sorted, of minute 7 "''admin''" 1] by simp

end
