(* ===== verification/Kv.thy ===== *)
theory Kv
  imports Cache_State
begin

text \<open>
  The keyed stores of the in-memory backend: settings (settings.go), user settings and their
  versions (usersettings.go), retrieval chunks (rag.go), and the one-time transactions and grants
  of the provider authentication bridge (provider_auth_bridge.go). Where a function reads the clock
  twice it takes two readings; a fresh UUID is an argument.
\<close>

datatype repo_error = ErrNotFound | ErrInvalidInput

section \<open>Settings\<close>

definition settings_key :: "string \<Rightarrow> string \<Rightarrow> string" where
  "settings_key ns key = ns @ CHR '':'' # key"

definition set_setting :: "cache \<Rightarrow> string \<Rightarrow> string \<Rightarrow> string \<Rightarrow> time \<Rightarrow> cache" where
  "set_setting c ns key val now =
     maybe_sweep (c\<lparr>settings := (settings c)
       (settings_key ns key \<mapsto> \<lparr>exp_value = val, expires_at = now + minute\<rparr>)\<rparr>) now"

definition del_setting :: "cache \<Rightarrow> string \<Rightarrow> string \<Rightarrow> time \<Rightarrow> cache" where
  "del_setting c ns key now =
     maybe_sweep (c\<lparr>settings := (settings c)(settings_key ns key := None)\<rparr>) now"

section \<open>User settings\<close>

definition user_setting_version_key :: "nat \<Rightarrow> string \<Rightarrow> string" where
  "user_setting_version_key uid key = dec uid @ CHR '':'' # key"

definition user_setting_value_key :: "nat \<Rightarrow> string \<Rightarrow> string \<Rightarrow> string" where
  "user_setting_value_key uid key version = dec uid @ CHR '':'' # key @ CHR '':'' # version"

definition get_user_setting_cache_version ::
  "cache \<Rightarrow> nat \<Rightarrow> string \<Rightarrow> duration \<Rightarrow> time \<Rightarrow> time \<Rightarrow> string \<Rightarrow> string \<times> cache" where
  "get_user_setting_cache_version c uid key ttl now later uuid =
     (let ck = user_setting_version_key uid key;
          fresh = (uuid, maybe_sweep (c\<lparr>user_setting_versions := (user_setting_versions c)
                     (ck \<mapsto> \<lparr>exp_value = uuid, expires_at = ttl_from later ttl\<rparr>)\<rparr>) now)
      in case user_setting_versions c ck of
           None \<Rightarrow> fresh
         | Some item \<Rightarrow>
             if now < expires_at item
             then (exp_value item, c\<lparr>user_setting_versions := (user_setting_versions c)
                     (ck \<mapsto> item\<lparr>expires_at := ttl_from later ttl\<rparr>)\<rparr>)
             else fresh)"

definition advance_user_setting_cache_version ::
  "cache \<Rightarrow> nat \<Rightarrow> string \<Rightarrow> duration \<Rightarrow> time \<Rightarrow> time \<Rightarrow> string \<Rightarrow> string \<times> cache" where
  "advance_user_setting_cache_version c uid key ttl now later uuid =
     (uuid, maybe_sweep (c\<lparr>user_setting_versions := (user_setting_versions c)
        (user_setting_version_key uid key \<mapsto>
           \<lparr>exp_value = uuid, expires_at = ttl_from now ttl\<rparr>)\<rparr>) later)"

definition get_user_setting_cache ::
  "cache \<Rightarrow> nat \<Rightarrow> string \<Rightarrow> string \<Rightarrow> time \<Rightarrow> string option \<times> cache" where
  "get_user_setting_cache c uid key version now =
     (let ck = user_setting_value_key uid key version
      in case user_settings c ck of
           None \<Rightarrow> (None, c)
         | Some item \<Rightarrow>
             if \<not> now < expires_at item
             then (None, c\<lparr>user_settings := (user_settings c)(ck := None)\<rparr>)
             else (Some (exp_value item), c))"

definition set_user_setting_cache ::
  "cache \<Rightarrow> nat \<Rightarrow> string \<Rightarrow> string \<Rightarrow> string \<Rightarrow> duration \<Rightarrow> time \<Rightarrow> time \<Rightarrow> cache" where
  "set_user_setting_cache c uid key version val ttl now later =
     maybe_sweep (c\<lparr>user_settings := (user_settings c)
       (user_setting_value_key uid key version \<mapsto>
          \<lparr>exp_value = val, expires_at = ttl_from later ttl\<rparr>)\<rparr>) now"

lemma user_setting_version_key_inj:
  "user_setting_version_key u k = user_setting_version_key u' k' \<longleftrightarrow> u = u' \<and> k = k'"
  by (simp add: user_setting_version_key_def dec_colon_inj)

text \<open>A UUID holds no colon, so the last colon of a value key ends the setting's name.\<close>

lemma split_at_last_sep:
  assumes "a @ x # u = b @ x # v" "x \<notin> set u" "x \<notin> set v"
  shows "a = b \<and> u = v"
proof -
  have "rev u @ x # rev a = rev v @ x # rev b"
    using arg_cong [OF assms(1), of rev] by simp
  from split_at_sep [OF this, of "\<lambda>y. y \<noteq> x"] assms(2,3) show ?thesis
    by (auto simp: list_all_iff)
qed

lemma user_setting_value_key_inj:
  assumes "CHR '':'' \<notin> set v" "CHR '':'' \<notin> set v'"
  shows "user_setting_value_key u k v = user_setting_value_key u' k' v' \<longleftrightarrow>
         u = u' \<and> k = k' \<and> v = v'"
  using split_at_last_sep [of k "CHR '':''" v k' v'] assms
  by (auto simp: user_setting_value_key_def dec_colon_inj)

section \<open>Retrieval chunks\<close>

definition get_rag_cache :: "cache \<Rightarrow> string \<Rightarrow> time \<Rightarrow> rag_chunk list option \<times> cache" where
  "get_rag_cache c key now =
     (case rag c key of
        None \<Rightarrow> (None, c\<lparr>rag := (rag c)(key := None)\<rparr>)
      | Some item \<Rightarrow>
          if expired (expires_at item) now then (None, c\<lparr>rag := (rag c)(key := None)\<rparr>)
          else (Some (exp_value item), c))"

definition set_rag_cache ::
  "cache \<Rightarrow> string \<Rightarrow> rag_chunk list \<Rightarrow> duration \<Rightarrow> time \<Rightarrow> time \<Rightarrow> cache" where
  "set_rag_cache c key chunks ttl now later =
     maybe_sweep (c\<lparr>rag := (rag c)
       (key \<mapsto> \<lparr>exp_value = chunks, expires_at = ttl_from later ttl\<rparr>)\<rparr>) now"

section \<open>The provider authentication bridge\<close>

definition put_provider_auth_transaction ::
  "cache \<Rightarrow> string \<Rightarrow> provider_auth_transaction \<Rightarrow> duration \<Rightarrow> time \<Rightarrow> repo_error + cache" where
  "put_provider_auth_transaction c tid item ttl now =
     (if tid = [] \<or> ttl \<le> 0 then Inl ErrInvalidInput
      else let c = maybe_sweep c now
           in Inr (c\<lparr>provider_auth_transactions := (provider_auth_transactions c)
                (tid \<mapsto> \<lparr>exp_value = item, expires_at = now + ttl\<rparr>)\<rparr>))"

definition consume_provider_auth_transaction ::
  "cache \<Rightarrow> string \<Rightarrow> time \<Rightarrow> (repo_error + provider_auth_transaction) \<times> cache" where
  "consume_provider_auth_transaction c tid now =
     (if tid = [] then (Inl ErrNotFound, c)
      else case provider_auth_transactions c tid of
             None \<Rightarrow> (Inl ErrNotFound, c)
           | Some item \<Rightarrow>
               (if expires_at item < now then Inl ErrNotFound else Inr (exp_value item),
                c\<lparr>provider_auth_transactions := (provider_auth_transactions c)(tid := None)\<rparr>))"

definition put_provider_auth_grant ::
  "cache \<Rightarrow> string \<Rightarrow> provider_auth_grant \<Rightarrow> duration \<Rightarrow> time \<Rightarrow> repo_error + cache" where
  "put_provider_auth_grant c key item ttl now =
     (if key = [] \<or> ttl \<le> 0 then Inl ErrInvalidInput
      else let c = maybe_sweep c now
           in Inr (c\<lparr>provider_auth_grants := (provider_auth_grants c)
                (key \<mapsto> \<lparr>exp_value = item, expires_at = now + ttl\<rparr>)\<rparr>))"

definition consume_provider_auth_grant ::
  "cache \<Rightarrow> string \<Rightarrow> time \<Rightarrow> (repo_error + provider_auth_grant) \<times> cache" where
  "consume_provider_auth_grant c key now =
     (if key = [] then (Inl ErrNotFound, c)
      else case provider_auth_grants c key of
             None \<Rightarrow> (Inl ErrNotFound, c)
           | Some item \<Rightarrow>
               (if expires_at item < now then Inl ErrNotFound else Inr (exp_value item),
                c\<lparr>provider_auth_grants := (provider_auth_grants c)(key := None)\<rparr>))"

section \<open>One-time stores\<close>

text \<open>
  The calls on a store whose entries are handed out once, with the maintenance other calls run
  between them, and the answers to its reads.
\<close>

datatype 'v store_call = Put string 'v duration | Take string | Upkeep

fun store_takes ::
  "(cache \<Rightarrow> string \<Rightarrow> 'v \<Rightarrow> duration \<Rightarrow> time \<Rightarrow> repo_error + cache) \<Rightarrow>
   (cache \<Rightarrow> string \<Rightarrow> time \<Rightarrow> (repo_error + 'v) \<times> cache) \<Rightarrow>
   string \<Rightarrow> cache \<Rightarrow> (time \<times> 'v store_call) list \<Rightarrow> (repo_error + 'v) list" where
  "store_takes pt tk k c [] = []"
| "store_takes pt tk k c ((now, Put tid item ttl) # h) =
     (case pt c tid item ttl now of
        Inl e \<Rightarrow> store_takes pt tk k c h
      | Inr c' \<Rightarrow> store_takes pt tk k c' h)"
| "store_takes pt tk k c ((now, Take tid) # h) =
     (let (res, c') = tk c tid now
      in if tid = k then res # store_takes pt tk k c' h else store_takes pt tk k c' h)"
| "store_takes pt tk k c ((now, Upkeep) # h) = store_takes pt tk k (maybe_sweep c now) h"

definition puts_on :: "string \<Rightarrow> 'v store_call \<Rightarrow> bool" where
  "puts_on k e = (case e of Put tid item ttl \<Rightarrow> tid = k | Take tid \<Rightarrow> False | Upkeep \<Rightarrow> False)"

definition take_times :: "string \<Rightarrow> (time \<times> 'v store_call) list \<Rightarrow> time list" where
  "take_times k h = map fst (filter (\<lambda>(t, e). case e of Take tid \<Rightarrow> tid = k | _ \<Rightarrow> False) h)"

text \<open>What the reads of one stored item answer: the first gets it unless it is late.\<close>

definition single_use :: "'v \<Rightarrow> time \<Rightarrow> time list \<Rightarrow> (repo_error + 'v) list" where
  "single_use item deadline ts =
     (case ts of
        [] \<Rightarrow> []
      | t # ts' \<Rightarrow> (if deadline < t then Inl ErrNotFound else Inr item) # map (\<lambda>_. Inl ErrNotFound) ts')"

locale one_time_store =
  fixes put :: "cache \<Rightarrow> string \<Rightarrow> 'v \<Rightarrow> duration \<Rightarrow> time \<Rightarrow> repo_error + cache"
    and take :: "cache \<Rightarrow> string \<Rightarrow> time \<Rightarrow> (repo_error + 'v) \<times> cache"
    and stored :: "cache \<Rightarrow> string \<Rightarrow> 'v expiring option"
  assumes put_stores: "k \<noteq> [] \<Longrightarrow> 0 < ttl \<Longrightarrow>
          \<exists>c'. put c k item ttl now = Inr c' \<and>
               stored c' k = Some \<lparr>exp_value = item, expires_at = now + ttl\<rparr>"
    and put_other: "put c tid item ttl now = Inr c' \<Longrightarrow> tid \<noteq> k \<Longrightarrow>
          stored c' k = stored c k \<or> stored c' k = drop_dead expiring_dead now (stored c k)"
    and take_stored: "k \<noteq> [] \<Longrightarrow> stored c k = Some i \<Longrightarrow>
          fst (take c k now) = (if expires_at i < now then Inl ErrNotFound else Inr (exp_value i)) \<and>
          stored (snd (take c k now)) k = None"
    and take_missing: "stored c k = None \<Longrightarrow> take c k now = (Inl ErrNotFound, c)"
    and take_other: "tid \<noteq> k \<Longrightarrow> stored (snd (take c tid now)) k = stored c k"
    and upkeep: "stored (maybe_sweep c now) k = stored c k \<or>
          stored (maybe_sweep c now) k = drop_dead expiring_dead now (stored c k)"
begin

lemma takes_missing:
  assumes "stored c k = None" "\<forall>(t, e) \<in> set h. \<not> puts_on k e"
  shows "store_takes put take k c h = map (\<lambda>_. Inl ErrNotFound) (take_times k h)"
  using assms
proof (induction h arbitrary: c)
  case Nil
  then show ?case by (simp add: take_times_def)
next
  case (Cons x h)
  obtain now e where x: "x = (now, e)" by (cases x)
  show ?case
  proof (cases e)
    case (Put tid item ttl)
    with Cons.prems x have "tid \<noteq> k" by (simp add: puts_on_def)
    with Cons put_other [of c tid item ttl now _ k] show ?thesis
      by (auto simp: x Put take_times_def split: sum.splits)
  next
    case (Take tid)
    with Cons take_missing [of c k now] take_other [of tid k c now] show ?thesis
      by (cases "tid = k") (auto simp: x take_times_def case_prod_beta)
  next
    case Upkeep
    with Cons upkeep [of c now k] show ?thesis
      by (auto simp: x take_times_def)
  qed
qed

lemma single_use_late:
  "\<forall>t \<in> set ts. d < t \<Longrightarrow> single_use item d ts = map (\<lambda>_. Inl ErrNotFound) ts"
  by (cases ts) (auto simp: single_use_def)

lemma take_times_bound:
  "sorted (map fst ((now, e) # h)) \<Longrightarrow> d < now \<Longrightarrow> \<forall>t \<in> set (take_times k h). d < t"
  by (auto simp: take_times_def)

lemma takes_stored:
  assumes "k \<noteq> []" "stored c k = Some \<lparr>exp_value = item, expires_at = d\<rparr>"
    and "sorted (map fst h)" "\<forall>(t, e) \<in> set h. \<not> puts_on k e"
  shows "store_takes put take k c h = single_use item d (take_times k h)"
  using assms(2-4)
proof (induction h arbitrary: c)
  case Nil
  then show ?case by (simp add: take_times_def single_use_def)
next
  case (Cons x h)
  obtain now e where x: "x = (now, e)" by (cases x)
  have h: "sorted (map fst h)" "\<forall>(t, e) \<in> set h. \<not> puts_on k e"
    using Cons.prems(2,3) by (auto simp: x)
  have swept: "store_takes put take k c' h = single_use item d (take_times k h)"
    if "stored c' k = stored c k \<or> stored c' k = drop_dead expiring_dead now (stored c k)" for c'
  proof (cases "stored c' k")
    case None
    with that Cons.prems(1) have "d < now"
      by (auto simp: expiring_dead_def split: if_splits)
    with take_times_bound [of now e h d k] Cons.prems(2) None h(2) show ?thesis
      by (simp add: x single_use_late takes_missing)
  next
    case (Some i)
    with that Cons.prems(1) have "stored c' k = Some \<lparr>exp_value = item, expires_at = d\<rparr>"
      by (auto split: if_splits)
    then show ?thesis using h by (rule Cons.IH)
  qed
  show ?case
  proof (cases e)
    case (Put tid item' ttl)
    with Cons.prems x have other: "tid \<noteq> k" by (simp add: puts_on_def)
    have t: "take_times k (x # h) = take_times k h"
      by (simp add: x Put take_times_def)
    show ?thesis
    proof (cases "put c tid item' ttl now")
      case (Inl err)
      with swept [of c] t show ?thesis by (simp add: x Put)
    next
      case (Inr c')
      with swept [of c'] put_other [OF Inr other] t show ?thesis by (simp add: x Put)
    qed
  next
    case (Take tid)
    show ?thesis
    proof (cases "tid = k")
      case True
      with take_stored [OF assms(1) Cons.prems(1), of now] takes_missing [OF _ h(2)] show ?thesis
        by (simp add: x Take take_times_def single_use_def case_prod_beta)
    next
      case False
      with swept [of "snd (take c tid now)"] take_other [OF False, of c now] show ?thesis
        by (simp add: x Take take_times_def case_prod_beta)
    qed
  next
    case Upkeep
    with swept [of "maybe_sweep c now"] upkeep [of c now k] show ?thesis
      by (simp add: x take_times_def)
  qed
qed

lemma single_use_after_put:
  assumes "k \<noteq> []" "0 < ttl" "sorted (map fst h)" "\<forall>(t, e) \<in> set h. \<not> puts_on k e"
  shows "store_takes put take k c ((now, Put k item ttl) # h) =
         single_use item (now + ttl) (take_times k h)"
  using put_stores [OF assms(1,2), of c item now] takes_stored [OF assms(1) _ assms(3,4)] by auto

end

interpretation transaction_map:
  swept_map "\<lambda>c. provider_auth_transactions c" "drop_dead expiring_dead"
  by unfold_locales (simp_all add: sweep_maps keep_expiring)

interpretation grant_map:
  swept_map "\<lambda>c. provider_auth_grants c" "drop_dead expiring_dead"
  by unfold_locales (simp_all add: sweep_maps keep_expiring)

interpretation transaction_store:
  one_time_store put_provider_auth_transaction consume_provider_auth_transaction
    "\<lambda>c. provider_auth_transactions c"
proof (unfold_locales, goal_cases)
  case (2 c tid item ttl now c' k)
  then show ?case
    using transaction_map.get_maybe_sweep [of c now k]
    by (auto simp: put_provider_auth_transaction_def Let_def split: if_splits)
next
  case (6 c now k)
  show ?case by (rule transaction_map.get_maybe_sweep)
qed (auto simp: put_provider_auth_transaction_def consume_provider_auth_transaction_def Let_def
    split: option.splits)

interpretation grant_store:
  one_time_store put_provider_auth_grant consume_provider_auth_grant "\<lambda>c. provider_auth_grants c"
proof (unfold_locales, goal_cases)
  case (2 c tid item ttl now c' k)
  then show ?case
    using grant_map.get_maybe_sweep [of c now k]
    by (auto simp: put_provider_auth_grant_def Let_def split: if_splits)
next
  case (6 c now k)
  show ?case by (rule grant_map.get_maybe_sweep)
qed (auto simp: put_provider_auth_grant_def consume_provider_auth_grant_def Let_def
    split: option.splits)

lemma transaction_single_use:
  assumes "tid \<noteq> []" "0 < ttl" "sorted (map fst h)" "\<forall>(t, e) \<in> set h. \<not> puts_on tid e"
  shows "store_takes put_provider_auth_transaction consume_provider_auth_transaction tid c
           ((now, Put tid item ttl) # h) = single_use item (now + ttl) (take_times tid h)"
  using assms by (rule transaction_store.single_use_after_put)

text \<open>
  C39. A grant of the authentication bridge is redeemed at most once. After it is stored under a nonblank id, which no later
  store uses again, the first redemption gets it when it comes within the time to live, and finds nothing when it comes later;
  every further redemption finds nothing, whatever redemptions and stores of other grants and sweeps, in the order of
  their times, come in between.
\<close>

theorem grant_redeemed_once:
  assumes "key \<noteq> []" "0 < ttl" "sorted (map fst h)" "\<forall>(t, e) \<in> set h. \<not> puts_on key e"
  shows "store_takes put_provider_auth_grant consume_provider_auth_grant key c
           ((now, Put key item ttl) # h) = single_use item (now + ttl) (take_times key h)"
  using assms by (rule grant_store.single_use_after_put)

definition sample_grant :: provider_auth_grant where
  "sample_grant =
     \<lparr>grant_provider_slug = ''github'', grant_client_id = ''deeix-web'', grant_intent = ''login'',
      grant_user_id = 7, grant_subject = ''s'', grant_profile = None, grant_error_code = [],
      grant_error_message = [], grant_error_details = [], grant_expires_at = 0\<rparr>"

theorem grant_redeemed_once_witness:
  "store_takes put_provider_auth_grant consume_provider_auth_grant ''g'' new_cache
     [(second, Put ''g'' sample_grant minute), (2 * second, Take ''g''), (3 * second, Take ''x''),
      (4 * second, Take ''g'')] = [Inr sample_grant, Inl ErrNotFound]"
  by (subst grant_redeemed_once)
    (simp_all add: puts_on_def second_def minute_def take_times_def single_use_def)

end
