(* ===== verification/Setting_Coherence.thy ===== *)
theory Setting_Coherence
  imports Kv
begin

text \<open>
  The shared cache of user settings as the conversation service uses it
  (application/conversation/service_cache.go: \<open>getUserSettingCached\<close>, \<open>RefreshUserSettingCache\<close>).
  A read and a refresh are several calls of the cache and the database with other requests in
  between, so they are modelled as a step relation: each step is one atomic call, and a request in
  flight is an entry of \<open>sw_pending\<close>.
\<close>

definition user_setting_cache_ttl :: duration where
  "user_setting_cache_ttl = 10 * minute"

text \<open>
  A request in flight: it holds a version and will look it up; it has missed (or has just advanced
  the version) and will load the setting from the database; it has loaded a value and will store it.
\<close>

datatype pending =
  Reading nat string string
| Missed nat string string
| Loaded nat string string string

text \<open>
  The database is the list of the values committed for each user and setting. \<open>sw_born\<close> is a ghost:
  for every version ever made, whose it is and how many commits there were at that moment.
\<close>

record settings_world =
  sw_cache :: cache
  sw_db :: "nat \<Rightarrow> string \<Rightarrow> string list"
  sw_pending :: "pending list"
  sw_born :: "string \<rightharpoonup> nat \<times> string \<times> nat"

definition initial_world :: settings_world where
  "initial_world =
     \<lparr>sw_cache = new_cache, sw_db = (\<lambda>_ _. []), sw_pending = [], sw_born = Map.empty\<rparr>"

text \<open>The setting after its first \<open>n\<close> commits; a setting never written reads as empty.\<close>

definition value_at :: "string list \<Rightarrow> nat \<Rightarrow> string" where
  "value_at vs n = (if n = 0 then [] else vs ! (n - 1))"

definition current_value :: "string list \<Rightarrow> string" where
  "current_value vs = value_at vs (length vs)"

lemma value_at_append: "n \<le> length vs \<Longrightarrow> value_at (vs @ xs) n = value_at vs n"
  by (auto simp: value_at_def nth_append)

definition commit_value :: "settings_world \<Rightarrow> nat \<Rightarrow> string \<Rightarrow> string \<Rightarrow> settings_world" where
  "commit_value w u k val =
     w\<lparr>sw_db := (sw_db w)(u := (sw_db w u)(k := sw_db w u k @ [val]))\<rparr>"

text \<open>The version is remembered with its moment when the call made it.\<close>

definition remember_version ::
  "settings_world \<Rightarrow> nat \<Rightarrow> string \<Rightarrow> string \<Rightarrow> string \<Rightarrow> string \<rightharpoonup> nat \<times> string \<times> nat" where
  "remember_version w u k uuid v =
     (if v = uuid then (sw_born w)(uuid \<mapsto> (u, k, length (sw_db w u k))) else sw_born w)"

datatype setting_label =
  Committed nat string
| Refreshed nat string
| Began nat string string
| Answered nat string string string
| Internal

definition fresh_uuid :: "settings_world \<Rightarrow> string \<Rightarrow> bool" where
  "fresh_uuid w uuid \<longleftrightarrow> sw_born w uuid = None \<and> CHR '':'' \<notin> set uuid"

inductive setting_step :: "settings_world \<Rightarrow> setting_label \<Rightarrow> settings_world \<Rightarrow> bool" where
  Commit: "setting_step w (Committed u k) (commit_value w u k val)"
| Begin_read:
    "fresh_uuid w uuid \<Longrightarrow>
     get_user_setting_cache_version (sw_cache w) u k user_setting_cache_ttl now later uuid = (v, c) \<Longrightarrow>
     setting_step w (Began u k v)
       (w\<lparr>sw_cache := c, sw_pending := Reading u k v # sw_pending w,
          sw_born := remember_version w u k uuid v\<rparr>)"
| Hit:
    "Reading u k v \<in> set (sw_pending w) \<Longrightarrow>
     get_user_setting_cache (sw_cache w) u k v now = (Some val, c) \<Longrightarrow>
     setting_step w (Answered u k v val)
       (w\<lparr>sw_cache := c, sw_pending := remove1 (Reading u k v) (sw_pending w)\<rparr>)"
| Miss:
    "Reading u k v \<in> set (sw_pending w) \<Longrightarrow>
     get_user_setting_cache (sw_cache w) u k v now = (None, c) \<Longrightarrow>
     setting_step w Internal
       (w\<lparr>sw_cache := c, sw_pending := Missed u k v # remove1 (Reading u k v) (sw_pending w)\<rparr>)"
| Load:
    "Missed u k v \<in> set (sw_pending w) \<Longrightarrow>
     setting_step w Internal
       (w\<lparr>sw_pending := Loaded u k v (current_value (sw_db w u k)) #
            remove1 (Missed u k v) (sw_pending w)\<rparr>)"
| Store:
    "Loaded u k v val \<in> set (sw_pending w) \<Longrightarrow>
     setting_step w (Answered u k v val)
       (w\<lparr>sw_cache := set_user_setting_cache (sw_cache w) u k v val user_setting_cache_ttl now later,
          sw_pending := remove1 (Loaded u k v val) (sw_pending w)\<rparr>)"
| Refresh:
    "fresh_uuid w uuid \<Longrightarrow>
     advance_user_setting_cache_version (sw_cache w) u k user_setting_cache_ttl now later uuid = (v, c) \<Longrightarrow>
     setting_step w (Refreshed u k)
       (w\<lparr>sw_cache := c, sw_pending := Missed u k v # sw_pending w,
          sw_born := remember_version w u k uuid v\<rparr>)"
| Give_up:
    "p \<in> set (sw_pending w) \<Longrightarrow>
     setting_step w Internal (w\<lparr>sw_pending := remove1 p (sw_pending w)\<rparr>)"
| Upkeep: "setting_step w Internal (w\<lparr>sw_cache := maybe_sweep (sw_cache w) now\<rparr>)"

inductive_cases Began_cases: "setting_step w (Began u k v) w'"
inductive_cases Refreshed_cases: "setting_step w (Refreshed u k) w'"

definition setting_steps :: "settings_world \<Rightarrow> settings_world \<Rightarrow> bool" where
  "setting_steps = (\<lambda>w w'. \<exists>l. setting_step w l w')\<^sup>*\<^sup>*"

section \<open>What the cache operations do to the two maps\<close>

lemma sweep_shrinks:
  "user_settings (maybe_sweep c now) key = Some i \<Longrightarrow> user_settings c key = Some i"
  "user_setting_versions (maybe_sweep c now) key = Some i \<Longrightarrow> user_setting_versions c key = Some i"
  using maybe_sweep_cases [of c now] by (auto simp: sweep_maps)

lemma get_version_maps:
  assumes "get_user_setting_cache_version c u k ttl now later uuid = (v, c')"
  shows "user_settings c' key = Some i \<Longrightarrow> user_settings c key = Some i"
    and "user_setting_versions c' key = Some j \<Longrightarrow>
         (\<exists>j'. user_setting_versions c key = Some j' \<and> exp_value j' = exp_value j) \<or>
         key = user_setting_version_key u k \<and> exp_value j = v \<and> v = uuid"
    and "v = uuid \<or> (\<exists>j. user_setting_versions c (user_setting_version_key u k) = Some j \<and> v = exp_value j)"
  using assms
  by (auto simp: get_user_setting_cache_version_def Let_def dest!: sweep_shrinks
      split: option.splits if_splits)

lemma advance_version_maps:
  assumes "advance_user_setting_cache_version c u k ttl now later uuid = (v, c')"
  shows "user_settings c' key = Some i \<Longrightarrow> user_settings c key = Some i"
    and "user_setting_versions c' key = Some j \<Longrightarrow>
         key \<noteq> user_setting_version_key u k \<and> user_setting_versions c key = Some j \<or>
         key = user_setting_version_key u k \<and> exp_value j = uuid"
    and "v = uuid"
  using assms
  by (auto simp: advance_user_setting_cache_version_def dest!: sweep_shrinks split: if_splits)

lemma get_value_maps:
  assumes "get_user_setting_cache c u k v now = (r, c')"
  shows "user_settings c' key = Some i \<Longrightarrow> user_settings c key = Some i"
    and "user_setting_versions c' = user_setting_versions c"
    and "r = Some val \<Longrightarrow>
         \<exists>i. user_settings c (user_setting_value_key u k v) = Some i \<and> exp_value i = val"
  using assms
  by (auto simp: get_user_setting_cache_def Let_def split: option.splits if_splits)

lemma set_value_maps:
  "user_settings (set_user_setting_cache c u k v val ttl now later) key = Some i \<Longrightarrow>
     user_settings c key = Some i \<or> key = user_setting_value_key u k v \<and> exp_value i = val"
  "user_setting_versions (set_user_setting_cache c u k v val ttl now later) key = Some j \<Longrightarrow>
     user_setting_versions c key = Some j"
  by (auto simp: set_user_setting_cache_def dest!: sweep_shrinks split: if_splits)

section \<open>The invariant\<close>

text \<open>
  A value was committed by the \<open>i\<close>-th commit of the setting for some \<open>i\<close> not before the version
  was made.
\<close>

definition since_version :: "settings_world \<Rightarrow> nat \<Rightarrow> string \<Rightarrow> string \<Rightarrow> string \<Rightarrow> bool" where
  "since_version w u k v val \<longleftrightarrow>
     (\<exists>n i. sw_born w v = Some (u, k, n) \<and> n \<le> i \<and> i \<le> length (sw_db w u k) \<and>
            val = value_at (sw_db w u k) i)"

definition born_for :: "settings_world \<Rightarrow> nat \<Rightarrow> string \<Rightarrow> string \<Rightarrow> bool" where
  "born_for w u k v \<longleftrightarrow> (\<exists>n. sw_born w v = Some (u, k, n))"

definition pending_ok :: "settings_world \<Rightarrow> pending \<Rightarrow> bool" where
  "pending_ok w p =
     (case p of
        Reading u k v \<Rightarrow> born_for w u k v
      | Missed u k v \<Rightarrow> born_for w u k v
      | Loaded u k v val \<Rightarrow> since_version w u k v val)"

definition world_ok :: "settings_world \<Rightarrow> bool" where
  "world_ok w \<longleftrightarrow>
     (\<forall>v u k n. sw_born w v = Some (u, k, n) \<longrightarrow> n \<le> length (sw_db w u k) \<and> CHR '':'' \<notin> set v) \<and>
     (\<forall>p \<in> set (sw_pending w). pending_ok w p) \<and>
     (\<forall>u k j. user_setting_versions (sw_cache w) (user_setting_version_key u k) = Some j \<longrightarrow>
        born_for w u k (exp_value j)) \<and>
     (\<forall>key i. user_settings (sw_cache w) key = Some i \<longrightarrow>
        (\<exists>u k v. key = user_setting_value_key u k v \<and> since_version w u k v (exp_value i)))"

text \<open>Facts about versions survive new versions and new commits.\<close>

definition extends :: "settings_world \<Rightarrow> settings_world \<Rightarrow> bool" where
  "extends w w' \<longleftrightarrow> sw_born w \<subseteq>\<^sub>m sw_born w' \<and> (\<forall>u k. prefix (sw_db w u k) (sw_db w' u k))"

lemma extends_since:
  assumes "extends w w'" "since_version w u k v val"
  shows "since_version w' u k v val"
proof -
  obtain n i where ni: "sw_born w v = Some (u, k, n)" "n \<le> i" "i \<le> length (sw_db w u k)"
      "val = value_at (sw_db w u k) i"
    using assms(2) by (auto simp: since_version_def)
  from assms(1) obtain xs where xs: "sw_db w' u k = sw_db w u k @ xs"
    unfolding extends_def prefix_def by blast
  have "sw_born w' v = Some (u, k, n)"
    using assms(1) ni(1) by (auto simp: extends_def map_le_def dom_def)
  with ni xs show ?thesis
    by (auto simp: since_version_def value_at_append intro!: exI [of _ i])
qed

lemma extends_born: "extends w w' \<Longrightarrow> born_for w u k v \<Longrightarrow> born_for w' u k v"
  by (auto simp: extends_def born_for_def map_le_def dom_def)

lemma extends_pending: "extends w w' \<Longrightarrow> pending_ok w p \<Longrightarrow> pending_ok w' p"
  by (auto simp: pending_ok_def extends_since extends_born split: pending.splits)

lemma extends_refl [simp]: "extends w w"
  by (simp add: extends_def)

lemma step_extends:
  assumes "setting_step w l w'"
  shows "extends w w'"
  using assms
  by (cases rule: setting_step.cases)
    (auto simp: extends_def commit_value_def remember_version_def fresh_uuid_def map_le_def)

lemma extends_length: "extends w w' \<Longrightarrow> length (sw_db w u k) \<le> length (sw_db w' u k)"
  by (simp add: extends_def prefix_length_le)

text \<open>A step keeps the invariant when everything it adds satisfies it.\<close>

lemma world_okI:
  assumes w: "world_ok w" and ext: "extends w w'"
    and born: "\<And>v u k n. sw_born w' v = Some (u, k, n) \<Longrightarrow>
          sw_born w v = Some (u, k, n) \<or> n \<le> length (sw_db w' u k) \<and> CHR '':'' \<notin> set v"
    and pend: "\<And>p. p \<in> set (sw_pending w') \<Longrightarrow> p \<in> set (sw_pending w) \<or> pending_ok w' p"
    and vers: "\<And>u k j. user_setting_versions (sw_cache w') (user_setting_version_key u k) = Some j \<Longrightarrow>
          (\<exists>j'. user_setting_versions (sw_cache w) (user_setting_version_key u k) = Some j' \<and>
                exp_value j' = exp_value j) \<or> born_for w' u k (exp_value j)"
    and vals: "\<And>key i. user_settings (sw_cache w') key = Some i \<Longrightarrow>
          user_settings (sw_cache w) key = Some i \<or>
          (\<exists>u k v. key = user_setting_value_key u k v \<and> since_version w' u k v (exp_value i))"
  shows "world_ok w'"
  unfolding world_ok_def
proof (intro conjI allI ballI impI)
  fix v u k n
  assume "sw_born w' v = Some (u, k, n)"
  with born [OF this] w extends_length [OF ext, of u k]
  show "n \<le> length (sw_db w' u k)" "CHR '':'' \<notin> set v"
    unfolding world_ok_def by (blast intro: le_trans)+
next
  fix p assume "p \<in> set (sw_pending w')"
  with pend [OF this] w extends_pending [OF ext] show "pending_ok w' p"
    by (auto simp: world_ok_def)
next
  fix u k j
  assume "user_setting_versions (sw_cache w') (user_setting_version_key u k) = Some j"
  with vers [OF this] w extends_born [OF ext] show "born_for w' u k (exp_value j)"
    by (auto simp: world_ok_def) metis
next
  fix key i assume "user_settings (sw_cache w') key = Some i"
  with vals [OF this] w extends_since [OF ext]
  show "\<exists>u k v. key = user_setting_value_key u k v \<and> since_version w' u k v (exp_value i)"
    unfolding world_ok_def by blast
qed

lemma pendingD: "world_ok w \<Longrightarrow> p \<in> set (sw_pending w) \<Longrightarrow> pending_ok w p"
  by (simp add: world_ok_def)

lemma born_boundD: "world_ok w \<Longrightarrow> sw_born w v = Some (u, k, n) \<Longrightarrow> n \<le> length (sw_db w u k)"
  by (simp add: world_ok_def)

lemma storedD:
  "world_ok w \<Longrightarrow> user_settings (sw_cache w) key = Some i \<Longrightarrow>
   \<exists>u k v. key = user_setting_value_key u k v \<and> since_version w u k v (exp_value i)"
  by (simp add: world_ok_def)

lemma step_world_ok:
  assumes "setting_step w l w'" "world_ok w"
  shows "world_ok w'"
  using assms(1)
proof (cases rule: setting_step.cases)
  case (Commit u k val)
  show ?thesis
    using assms Commit by (intro world_okI [OF assms(2) step_extends [OF assms(1)]])
      (auto simp: commit_value_def)
next
  case (Begin_read uuid u k now later v c)
  note g = get_version_maps [OF Begin_read(4)]
  have v: "born_for w' u k v"
    using g(3) assms(2)
    by (auto simp: Begin_read(2) born_for_def remember_version_def world_ok_def)
  show ?thesis
  proof (rule world_okI [OF assms(2) step_extends [OF assms(1)]])
    fix u' k' j
    assume "user_setting_versions (sw_cache w') (user_setting_version_key u' k') = Some j"
    with g(2) [of "user_setting_version_key u' k'" j] v
    show "(\<exists>j'. user_setting_versions (sw_cache w) (user_setting_version_key u' k') = Some j' \<and>
        exp_value j' = exp_value j) \<or> born_for w' u' k' (exp_value j)"
      by (auto simp: Begin_read(2) user_setting_version_key_inj)
  qed (use Begin_read g(1) v in
    \<open>auto simp: remember_version_def fresh_uuid_def pending_ok_def split: if_splits\<close>)
next
  case (Hit u k v now val c)
  note g = get_value_maps [OF Hit(4)]
  show ?thesis
    using Hit g(1,2) by (intro world_okI [OF assms(2) step_extends [OF assms(1)]])
      (auto dest: subsetD [OF set_remove1_subset])
next
  case (Miss u k v now c)
  note g = get_value_maps [OF Miss(4)]
  have "born_for w' u k v"
    using pendingD [OF assms(2) Miss(3)] by (simp add: pending_ok_def born_for_def Miss(2))
  then show ?thesis
    using Miss g(1,2) by (intro world_okI [OF assms(2) step_extends [OF assms(1)]])
      (auto simp: pending_ok_def dest: subsetD [OF set_remove1_subset])
next
  case (Load u k v)
  have "since_version w' u k v (current_value (sw_db w u k))"
    using pendingD [OF assms(2) Load(3)] born_boundD [OF assms(2)]
    by (fastforce simp: pending_ok_def born_for_def since_version_def current_value_def Load(2))
  then show ?thesis
    using Load by (intro world_okI [OF assms(2) step_extends [OF assms(1)]])
      (auto simp: pending_ok_def dest: subsetD [OF set_remove1_subset])
next
  case (Store u k v val now later)
  have s: "since_version w' u k v val"
    using pendingD [OF assms(2) Store(3)] by (simp add: pending_ok_def since_version_def Store(2))
  show ?thesis
  proof (rule world_okI [OF assms(2) step_extends [OF assms(1)]])
    fix key i assume "user_settings (sw_cache w') key = Some i"
    with s show "user_settings (sw_cache w) key = Some i \<or>
        (\<exists>u k v. key = user_setting_value_key u k v \<and> since_version w' u k v (exp_value i))"
      using set_value_maps(1) [of "sw_cache w" u k v val user_setting_cache_ttl now later key i]
      by (auto simp: Store(2))
  qed (use Store in \<open>auto dest: subsetD [OF set_remove1_subset] set_value_maps(2)\<close>)
next
  case (Refresh uuid u k now later v c)
  note g = advance_version_maps [OF Refresh(4)]
  have v: "born_for w' u k uuid"
    using g(3) by (auto simp: Refresh(2) born_for_def remember_version_def)
  show ?thesis
  proof (rule world_okI [OF assms(2) step_extends [OF assms(1)]])
    fix u' k' j
    assume "user_setting_versions (sw_cache w') (user_setting_version_key u' k') = Some j"
    with g(2) [of "user_setting_version_key u' k'" j] v
    show "(\<exists>j'. user_setting_versions (sw_cache w) (user_setting_version_key u' k') = Some j' \<and>
        exp_value j' = exp_value j) \<or> born_for w' u' k' (exp_value j)"
      by (auto simp: Refresh(2) user_setting_version_key_inj)
  qed (use Refresh g(1,3) v in
    \<open>auto simp: remember_version_def fresh_uuid_def pending_ok_def split: if_splits\<close>)
next
  case (Give_up p)
  then show ?thesis
    by (intro world_okI [OF assms(2) step_extends [OF assms(1)]]) (auto dest: subsetD [OF set_remove1_subset])
next
  case (Upkeep now)
  then show ?thesis
    by (intro world_okI [OF assms(2) step_extends [OF assms(1)]]) (auto dest: sweep_shrinks)
qed

lemma initial_world_ok: "world_ok initial_world"
  by (simp add: world_ok_def initial_world_def new_cache_def)

lemma steps_induct [consumes 1, case_names refl step]:
  assumes "setting_steps w w'" "P w"
    and "\<And>x l y. setting_steps w x \<Longrightarrow> setting_step x l y \<Longrightarrow> P x \<Longrightarrow> P y"
  shows "P w'"
  using assms(1) unfolding setting_steps_def
  by (induction rule: rtranclp_induct) (use assms(2,3) in \<open>auto simp: setting_steps_def\<close>)

lemma steps_world_ok: "setting_steps w w' \<Longrightarrow> world_ok w \<Longrightarrow> world_ok w'"
  by (induction rule: steps_induct) (auto dest: step_world_ok)

section \<open>Reads after a refresh\<close>

text \<open>Every version that is current for the setting was made after its first \<open>N\<close> commits.\<close>

definition current_since :: "nat \<Rightarrow> string \<Rightarrow> nat \<Rightarrow> settings_world \<Rightarrow> bool" where
  "current_since u k N w \<longleftrightarrow>
     N \<le> length (sw_db w u k) \<and>
     (\<forall>j. user_setting_versions (sw_cache w) (user_setting_version_key u k) = Some j \<longrightarrow>
        (\<exists>n. sw_born w (exp_value j) = Some (u, k, n) \<and> N \<le> n))"

lemma step_current_since:
  assumes "setting_step x l y" "world_ok x" "current_since u k N x"
  shows "current_since u k N y"
proof -
  note len = le_trans [OF _ extends_length [OF step_extends [OF assms(1)], of u k]]
  have keep: "current_since u k N y"
    if "\<And>j. user_setting_versions (sw_cache y) (user_setting_version_key u k) = Some j \<Longrightarrow>
        (\<exists>j'. user_setting_versions (sw_cache x) (user_setting_version_key u k) = Some j' \<and>
          exp_value j' = exp_value j) \<or>
        (\<exists>n. sw_born y (exp_value j) = Some (u, k, n) \<and> N \<le> n)"
    using that assms(3) len step_extends [OF assms(1)]
    by (fastforce simp: current_since_def extends_def map_le_def dom_def)
  show ?thesis
    using assms(1)
  proof (cases rule: setting_step.cases)
    case (Begin_read uuid u' k' now later v c)
    note g = get_version_maps [OF Begin_read(4)]
    show ?thesis
      using g(2) [of "user_setting_version_key u k"] assms(3)
      by (intro keep) (auto simp: Begin_read(2) remember_version_def user_setting_version_key_inj
        current_since_def)
  next
    case (Refresh uuid u' k' now later v c)
    note g = advance_version_maps [OF Refresh(4)]
    show ?thesis
      using g(2) [of "user_setting_version_key u k"] g(3) assms(3)
      by (intro keep) (auto simp: Refresh(2) remember_version_def user_setting_version_key_inj
        current_since_def)
  next
    case (Store u' k' v val now later)
    then show ?thesis by (intro keep) (auto dest: set_value_maps)
  next
    case (Hit u' k' v now val c)
    then show ?thesis using get_value_maps(2) [OF Hit(4)] by (intro keep) auto
  next
    case (Miss u' k' v now c)
    then show ?thesis using get_value_maps(2) [OF Miss(4)] by (intro keep) auto
  qed (rule keep; auto simp: commit_value_def dest: sweep_shrinks)+
qed

lemma steps_current_since:
  assumes "setting_steps w w'" "world_ok w" "current_since u k N w"
  shows "current_since u k N w'"
  using assms
proof (induction rule: steps_induct)
  case (step x l y)
  then show ?case using step_current_since steps_world_ok by blast
qed simp

lemma refresh_current_since:
  assumes "setting_step w (Refreshed u k) w'"
  shows "current_since u k (length (sw_db w u k)) w'"
proof -
  obtain uuid now later v c where r: "w' = w\<lparr>sw_cache := c, sw_pending := Missed u k v # sw_pending w,
        sw_born := remember_version w u k uuid v\<rparr>"
      "advance_user_setting_cache_version (sw_cache w) u k user_setting_cache_ttl now later uuid = (v, c)"
    using assms by (rule Refreshed_cases) blast
  note g = advance_version_maps [OF r(2)]
  show ?thesis
    using g(2) [of "user_setting_version_key u k"] g(3)
    by (auto simp: r(1) current_since_def remember_version_def)
qed

lemma began_since:
  assumes "setting_step w (Began u k v) w'" "current_since u k N w"
  shows "\<exists>n. sw_born w' v = Some (u, k, n) \<and> N \<le> n"
proof -
  obtain uuid now later c where r: "w' = w\<lparr>sw_cache := c, sw_pending := Reading u k v # sw_pending w,
        sw_born := remember_version w u k uuid v\<rparr>" "fresh_uuid w uuid"
      "get_user_setting_cache_version (sw_cache w) u k user_setting_cache_ttl now later uuid = (v, c)"
    using assms(1) by (rule Began_cases) blast
  show ?thesis
    using get_version_maps(3) [OF r(3)] r(2) assms(2)
    by (auto simp: r(1) current_since_def remember_version_def fresh_uuid_def)
qed

lemma steps_extends: "setting_steps w w' \<Longrightarrow> extends w w'"
proof (induction rule: steps_induct)
  case (step x l y)
  with step_extends [OF step(2)] show ?case
    unfolding extends_def by (blast intro: map_le_trans prefix_order.trans)
qed simp

lemma answer_since:
  assumes "setting_step w l w'" "world_ok w" "l = Answered u k v val"
  shows "since_version w' u k v val"
  using assms(1)
proof (cases rule: setting_step.cases)
  case (Hit u1 k1 v1 now val1 c)
  then have hit: "Reading u k v \<in> set (sw_pending w)"
      "get_user_setting_cache (sw_cache w) u k v now = (Some val, c)"
    using assms(3) by auto
  obtain e where e: "user_settings (sw_cache w) (user_setting_value_key u k v) = Some e"
      "exp_value e = val"
    using get_value_maps(3) [OF hit(2) refl] by blast
  obtain u' k' v' where i: "since_version w u' k' v' val"
      "user_setting_value_key u k v = user_setting_value_key u' k' v'"
    using storedD [OF assms(2) e(1)] e(2) by blast
  have "born_for w u k v" "born_for w u' k' v'"
    using pendingD [OF assms(2) hit(1)] i(1) by (auto simp: pending_ok_def since_version_def born_for_def)
  then have "CHR '':'' \<notin> set v" "CHR '':'' \<notin> set v'"
    using assms(2) by (auto simp: world_ok_def born_for_def)
  with i(2) have "u' = u" "k' = k" "v' = v" by (auto simp: user_setting_value_key_inj)
  with i(1) extends_since [OF step_extends [OF assms(1)]] show ?thesis by blast
next
  case (Store u1 k1 v1 val1 now later)
  then have "since_version w u k v val"
    using pendingD [OF assms(2)] assms(3) by (force simp: pending_ok_def)
  then show ?thesis by (rule extends_since [OF step_extends [OF assms(1)]])
qed (use assms(3) in auto)

text \<open>
  C26. Once a refresh of a setting has advanced its version, no read that begins later answers with
  a value older than the commits the refresh followed, however readers still holding the old
  version, other refreshes, new commits, expiries and the maintenance interleave with it.
\<close>

theorem refreshed_setting_never_stale:
  assumes "setting_steps initial_world w0" "setting_step w0 (Refreshed u k) w1"
    and "setting_steps w1 w2" "setting_step w2 (Began u k v) w3"
    and "setting_steps w3 w4" "setting_step w4 (Answered u k v val) w5"
  shows "\<exists>i. length (sw_db w0 u k) \<le> i \<and> i \<le> length (sw_db w5 u k) \<and>
             val = value_at (sw_db w5 u k) i"
proof -
  have ok0: "world_ok w0" using assms(1) initial_world_ok by (rule steps_world_ok)
  have ok1: "world_ok w1" using assms(2) ok0 by (rule step_world_ok)
  have ok2: "world_ok w2" using assms(3) ok1 by (rule steps_world_ok)
  have ok3: "world_ok w3" using assms(4) ok2 by (rule step_world_ok)
  have ok4: "world_ok w4" using assms(5) ok3 by (rule steps_world_ok)
  have "current_since u k (length (sw_db w0 u k)) w2"
    using assms(3) ok1 refresh_current_since [OF assms(2)] by (rule steps_current_since)
  with began_since [OF assms(4)] obtain n
    where n: "sw_born w3 v = Some (u, k, n)" "length (sw_db w0 u k) \<le> n" by blast
  have "sw_born w5 v = Some (u, k, n)"
    using n(1) steps_extends [OF assms(5)] step_extends [OF assms(6)]
    by (auto simp: extends_def map_le_def dom_def)
  with answer_since [OF assms(6) ok4 refl] n(2) show ?thesis
    by (auto simp: since_version_def intro: le_trans)
qed

text \<open>A concrete run: commit, refresh, then a read that misses, loads and stores.\<close>

definition run0 :: settings_world where
  "run0 = commit_value initial_world 7 ''theme'' ''dark''"

definition run1 :: settings_world where
  "run1 = run0\<lparr>sw_cache := snd (advance_user_setting_cache_version (sw_cache run0) 7 ''theme''
                 user_setting_cache_ttl second second ''v1''),
     sw_pending := Missed 7 ''theme'' ''v1'' # sw_pending run0,
     sw_born := remember_version run0 7 ''theme'' ''v1'' ''v1''\<rparr>"

definition run3 :: settings_world where
  "run3 = run1\<lparr>sw_cache := snd (get_user_setting_cache_version (sw_cache run1) 7 ''theme''
                 user_setting_cache_ttl (2 * second) (2 * second) ''v2''),
     sw_pending := Reading 7 ''theme'' ''v1'' # sw_pending run1,
     sw_born := remember_version run1 7 ''theme'' ''v2'' ''v1''\<rparr>"

definition run4 :: settings_world where
  "run4 = run3\<lparr>sw_pending := Loaded 7 ''theme'' ''v1'' (current_value (sw_db run3 7 ''theme'')) #
     remove1 (Missed 7 ''theme'' ''v1'') (sw_pending run3)\<rparr>"

definition run5 :: settings_world where
  "run5 = run4\<lparr>sw_cache := set_user_setting_cache (sw_cache run4) 7 ''theme'' ''v1'' ''dark''
                 user_setting_cache_ttl (3 * second) (3 * second),
     sw_pending := remove1 (Loaded 7 ''theme'' ''v1'' ''dark'') (sw_pending run4)\<rparr>"

lemma setting_steps_refl [simp]: "setting_steps w w"
  by (simp add: setting_steps_def)

lemma setting_steps_one: "setting_step w l w' \<Longrightarrow> setting_steps w w'"
  unfolding setting_steps_def by blast

lemma sample_run:
  "setting_step initial_world (Committed 7 ''theme'') run0"
  "setting_step run0 (Refreshed 7 ''theme'') run1"
  "setting_step run1 (Began 7 ''theme'' ''v1'') run3"
  "setting_step run3 Internal run4"
  "setting_step run4 (Answered 7 ''theme'' ''v1'' ''dark'') run5"
proof -
  show "setting_step initial_world (Committed 7 ''theme'') run0"
    unfolding run0_def by (rule Commit)
  show "setting_step run0 (Refreshed 7 ''theme'') run1"
    unfolding run1_def
    by (rule Refresh [where now = second and later = second])
      (simp_all add: fresh_uuid_def run0_def commit_value_def initial_world_def
        advance_user_setting_cache_version_def)
  show "setting_step run1 (Began 7 ''theme'' ''v1'') run3"
    unfolding run3_def
    by (rule Begin_read [where now = "2 * second" and later = "2 * second"])
      (simp_all add: fresh_uuid_def run1_def run0_def commit_value_def initial_world_def new_cache_def
        advance_user_setting_cache_version_def get_user_setting_cache_version_def remember_version_def
        maybe_sweep_def maintenance_interval_def ttl_from_def user_setting_cache_ttl_def second_def
        minute_def)
  show "setting_step run3 Internal run4"
    unfolding run4_def by (rule Load) (simp add: run3_def run1_def)
  show "setting_step run4 (Answered 7 ''theme'' ''v1'' ''dark'') run5"
    unfolding run5_def
    by (rule Store)
      (simp add: run4_def run3_def run1_def run0_def commit_value_def initial_world_def
        current_value_def value_at_def)
qed

theorem refreshed_setting_never_stale_witness:
  "\<exists>i. 1 \<le> i \<and> i \<le> length (sw_db run5 7 ''theme'') \<and> ''dark'' = value_at (sw_db run5 7 ''theme'') i"
proof -
  have "length (sw_db run0 7 ''theme'') = 1"
    by (simp add: run0_def commit_value_def initial_world_def)
  with refreshed_setting_never_stale [OF setting_steps_one [OF sample_run(1)] sample_run(2)
      setting_steps_refl sample_run(3) setting_steps_one [OF sample_run(4)] sample_run(5)]
  show ?thesis by simp
qed

end
