(* ===== verification/Gen_Stream.thy ===== *)
theory Gen_Stream
  imports Kv
begin

text \<open>
  The generation streams of the in-memory backend (generation_stream.go): the lease of a run's
  executor, its recoverable events and snapshots, cancellation, and the shared feed of active runs.
  \<open>now\<close> is the reading of the clock an operation makes first; \<open>t1\<close>, \<open>t2\<close> and \<open>t3\<close> are the later
  readings its calls of \<open>ttlFromNow\<close> make, in the order of the code. The sequence number is an
  unbounded integer (it would take \<open>2 ^ 63\<close> events to wrap).
\<close>

record stream_lease =
  run_id :: string
  lease_execution_id :: string
  lease_user_id :: nat
  lease_conversation_id :: string

record think_append =
  ta_round_id :: string
  ta_delta :: string
  ta_content :: string
  ta_replace :: bool
  ta_metadata :: string

record stream_append =
  sa_payload :: string
  sa_text_delta :: string
  sa_think :: "think_append option"

record text_snapshot =
  ts_seq :: int
  ts_content :: string

record think_snapshot =
  ks_seq :: int
  ks_round_id :: string
  ks_content :: string
  ks_metadata :: string

section \<open>Streams and channels\<close>

definition put_stream :: "string \<Rightarrow> generation_stream \<Rightarrow> cache \<Rightarrow> cache" where
  "put_stream rid s c = c\<lparr>streams := (streams c)(rid \<mapsto> s)\<rparr>"

text \<open>\<open>notifyLocked\<close> on the stream: close its channel and make a new one.\<close>

definition notify_stream :: "generation_stream \<Rightarrow> cache \<Rightarrow> generation_stream \<times> cache" where
  "notify_stream s c =
     (s\<lparr>stream_chan := next_chan c\<rparr>,
      c\<lparr>closed_chans := closed_chans c @ [stream_chan s], next_chan := Suc (next_chan c)\<rparr>)"

definition notify_generation_streams :: "cache \<Rightarrow> cache" where
  "notify_generation_streams c =
     c\<lparr>closed_chans := closed_chans c @ [stream_notify c], stream_notify := next_chan c,
       next_chan := Suc (next_chan c)\<rparr>"

definition ensure_stream :: "cache \<Rightarrow> string \<Rightarrow> generation_stream \<times> cache" where
  "ensure_stream c rid =
     (let rid = trim_space rid
      in case streams c rid of
           Some s \<Rightarrow> (s, c)
         | None \<Rightarrow>
             (let s = fresh_stream (next_chan c)
              in (s, put_stream rid s (c\<lparr>next_chan := Suc (next_chan c)\<rparr>))))"

definition reset_events :: "generation_stream \<Rightarrow> generation_stream" where
  "reset_events s =
     s\<lparr>stream_events := [], text_content := [], text_seq := 0, think_content := [], think_seq := 0,
       think_round_id := [], think_metadata := []\<rparr>"

section \<open>Leases\<close>

definition claim_generation_stream ::
  "cache \<Rightarrow> stream_lease \<Rightarrow> duration \<Rightarrow> duration \<Rightarrow> time \<Rightarrow> time \<Rightarrow> time \<Rightarrow> bool \<times> cache" where
  "claim_generation_stream c lease lease_ttl ownership_ttl now t1 t2 =
     (let rid = trim_space (run_id lease); eid = trim_space (lease_execution_id lease);
          uid = lease_user_id lease; cid = trim_space (lease_conversation_id lease)
      in if rid = [] \<or> eid = [] \<or> uid = 0 \<or> cid = [] then (False, c)
         else
           let ownership_ttl = (if ownership_ttl < lease_ttl then lease_ttl else ownership_ttl);
               take = (\<lambda>s c.
                 let s = s\<lparr>owner_id := uid, execution_id := eid, conversation_id := cid,
                           owner_expires_at := ttl_from t1 ownership_ttl,
                           active_expires_at := ttl_from t2 lease_ttl,
                           cancel_expires_at := zero_time\<rparr>;
                     (s, c) = notify_stream s c
                 in (True, maybe_sweep (notify_generation_streams (put_stream rid s c)) now))
           in case streams c rid of
                Some s \<Rightarrow>
                  if \<not> active_expired s now \<and> execution_id s = eid \<and> owner_id s = uid \<and>
                     conversation_id s = cid
                  then (True, notify_generation_streams (put_stream rid
                         (s\<lparr>owner_expires_at := ttl_from t1 ownership_ttl,
                            active_expires_at := ttl_from t2 lease_ttl\<rparr>) c))
                  else if \<not> active_expired s now \<or> \<not> owner_expired s now then (False, c)
                  else take (reset_events s) c
              | None \<Rightarrow> (let (s, c) = ensure_stream c rid in take s c))"

definition get_generation_stream_owner :: "cache \<Rightarrow> string \<Rightarrow> time \<Rightarrow> nat \<times> bool" where
  "get_generation_stream_owner c rid now =
     (case streams c (trim_space rid) of
        None \<Rightarrow> (0, False)
      | Some s \<Rightarrow> if owner_id s = 0 \<or> owner_expired s now then (0, False) else (owner_id s, True))"

text \<open>The check of renewal and completion, and the weaker one of appends and resets.\<close>

definition lease_matches :: "generation_stream \<Rightarrow> stream_lease \<Rightarrow> bool" where
  "lease_matches s lease \<longleftrightarrow>
     execution_id s = trim_space (lease_execution_id lease) \<and> owner_id s = lease_user_id lease \<and>
     conversation_id s = trim_space (lease_conversation_id lease)"

definition renew_generation_stream_lease ::
  "cache \<Rightarrow> stream_lease \<Rightarrow> duration \<Rightarrow> duration \<Rightarrow> time \<Rightarrow> time \<Rightarrow> time \<Rightarrow> bool \<times> cache" where
  "renew_generation_stream_lease c lease lease_ttl ownership_ttl now t1 t2 =
     (let ownership_ttl = (if ownership_ttl < lease_ttl then lease_ttl else ownership_ttl);
          rid = trim_space (run_id lease)
      in case streams c rid of
           None \<Rightarrow> (False, c)
         | Some s \<Rightarrow>
             if \<not> lease_matches s lease \<or> active_expired s now then (False, c)
             else (True, maybe_sweep (put_stream rid
                    (s\<lparr>active_expires_at := ttl_from t1 lease_ttl,
                       owner_expires_at := ttl_from t2 ownership_ttl\<rparr>) c) now))"

definition complete_generation_stream ::
  "cache \<Rightarrow> stream_lease \<Rightarrow> duration \<Rightarrow> time \<Rightarrow> time \<Rightarrow> time \<Rightarrow> time \<Rightarrow> bool \<times> cache" where
  "complete_generation_stream c lease retention now t1 t2 t3 =
     (let rid = trim_space (run_id lease)
      in case streams c rid of
           None \<Rightarrow> (False, c)
         | Some s \<Rightarrow>
             if \<not> lease_matches s lease \<or> owner_expired s now then (False, c)
             else
               let s = s\<lparr>execution_id := [], active_expires_at := zero_time,
                         owner_expires_at := ttl_from t1 retention,
                         events_expires_at := ttl_from t2 retention\<rparr>;
                   s = (if \<not> cancel_expired s now
                        then s\<lparr>cancel_expires_at := ttl_from t3 retention\<rparr> else s);
                   (s, c) = notify_stream s c
               in (True, maybe_sweep (notify_generation_streams (put_stream rid s c)) now))"

definition abandon_generation_stream :: "cache \<Rightarrow> stream_lease \<Rightarrow> time \<Rightarrow> bool \<times> cache" where
  "abandon_generation_stream c lease now =
     (let rid = trim_space (run_id lease)
      in case streams c rid of
           None \<Rightarrow> (False, c)
         | Some s \<Rightarrow>
             if execution_id s \<noteq> trim_space (lease_execution_id lease) \<or>
                owner_id s \<noteq> lease_user_id lease \<or> active_expired s now then (False, c)
             else
               let (s, c) = notify_stream s c
               in (True, notify_generation_streams (c\<lparr>streams := (streams c)(rid := None)\<rparr>)))"

text \<open>The listing ranges over the map in the order \<open>rids\<close>, after the maintenance.\<close>

definition list_active_generation_streams ::
  "cache \<Rightarrow> nat \<Rightarrow> string list \<Rightarrow> time \<Rightarrow> (string \<times> string) list \<times> cache" where
  "list_active_generation_streams c uid rids now =
     (let c = maybe_sweep c now
      in (List.map_filter
            (\<lambda>rid. case streams c rid of
               None \<Rightarrow> None
             | Some s \<Rightarrow>
                 if owner_id s \<noteq> uid \<or> active_expired s now \<or> trim_space (conversation_id s) = []
                 then None else Some (rid, conversation_id s)) rids, c))"

definition is_generation_stream_active :: "cache \<Rightarrow> string \<Rightarrow> time \<Rightarrow> bool" where
  "is_generation_stream_active c rid now =
     (case streams c (trim_space rid) of None \<Rightarrow> False | Some s \<Rightarrow> \<not> active_expired s now)"

definition request_generation_stream_cancel ::
  "cache \<Rightarrow> string \<Rightarrow> nat \<Rightarrow> duration \<Rightarrow> time \<Rightarrow> time \<Rightarrow> time \<Rightarrow> bool \<times> cache" where
  "request_generation_stream_cancel c rid uid ttl now t1 t2 =
     (let rid = trim_space rid
      in case streams c rid of
           None \<Rightarrow> (False, c)
         | Some s \<Rightarrow>
             if owner_id s \<noteq> uid \<or> active_expired s now then (False, c)
             else
               let (s, c) = notify_stream (s\<lparr>cancel_expires_at := ttl_from t1 ttl\<rparr>) c
               in (True, maybe_sweep (put_stream rid s c) t2))"

definition is_generation_stream_canceled :: "cache \<Rightarrow> string \<Rightarrow> time \<Rightarrow> bool" where
  "is_generation_stream_canceled c rid now =
     (case streams c (trim_space rid) of None \<Rightarrow> False | Some s \<Rightarrow> \<not> cancel_expired s now)"

section \<open>Events\<close>

definition append_think :: "think_append option \<Rightarrow> generation_stream \<Rightarrow> generation_stream" where
  "append_think input s =
     (case input of
        None \<Rightarrow> s
      | Some k \<Rightarrow>
          let rid = trim_space (ta_round_id k);
              rid = (if rid = [] then think_round_id s else rid);
              s = (if rid \<noteq> [] \<and> think_round_id s \<noteq> [] \<and> rid \<noteq> think_round_id s
                   then s\<lparr>think_content := []\<rparr> else s);
              s = (if ta_replace k then s\<lparr>think_content := ta_content k\<rparr>
                   else s\<lparr>think_content := think_content s @ ta_delta k\<rparr>)
          in s\<lparr>think_seq := stream_seq s, think_round_id := rid, think_metadata := ta_metadata k\<rparr>)"

definition next_message :: "generation_stream \<Rightarrow> stream_append \<Rightarrow> stream_message" where
  "next_message s input =
     \<lparr>sm_id = format_int (stream_seq s + 1), sm_seq = stream_seq s + 1, sm_payload = sa_payload input\<rparr>"

text \<open>The event and the snapshots, then the cut to the newest \<open>max_events\<close>.\<close>

definition push_event :: "generation_stream \<Rightarrow> stream_append \<Rightarrow> generation_stream" where
  "push_event s input =
     (let msg = next_message s input;
          s = s\<lparr>stream_seq := stream_seq s + 1, stream_events := stream_events s @ [msg]\<rparr>;
          s = (if sa_text_delta input \<noteq> []
               then s\<lparr>text_content := text_content s @ sa_text_delta input, text_seq := stream_seq s\<rparr>
               else s)
      in append_think (sa_think input) s)"

definition cut_events :: "int \<Rightarrow> generation_stream \<Rightarrow> generation_stream" where
  "cut_events max_events s =
     (let max_events = (if max_events \<le> 0 then 1024 else max_events);
          excess = int (length (stream_events s)) - max_events
      in if 0 < excess then s\<lparr>stream_events := drop (nat excess) (stream_events s)\<rparr> else s)"

definition append_event ::
  "generation_stream \<Rightarrow> cache \<Rightarrow> stream_append \<Rightarrow> int \<Rightarrow> duration \<Rightarrow> time \<Rightarrow>
     stream_message \<times> generation_stream \<times> cache" where
  "append_event s c input max_events ttl t1 =
     (next_message s input,
      notify_stream ((cut_events max_events (push_event s input))\<lparr>events_expires_at := ttl_from t1 ttl\<rparr>) c)"

definition append_generation_stream_event ::
  "cache \<Rightarrow> stream_lease \<Rightarrow> stream_append \<Rightarrow> int \<Rightarrow> duration \<Rightarrow> time \<Rightarrow> time \<Rightarrow>
     stream_message option \<times> cache" where
  "append_generation_stream_event c lease input max_events ttl now t1 =
     (let rid = trim_space (run_id lease)
      in case streams c rid of
           None \<Rightarrow> (None, c)
         | Some s \<Rightarrow>
             if execution_id s \<noteq> trim_space (lease_execution_id lease) \<or> active_expired s now
             then (None, c)
             else
               let (msg, s, c) = append_event s c input max_events ttl t1
               in (Some msg, maybe_sweep (notify_generation_streams (put_stream rid s c)) now))"

definition active_feed :: string where
  "active_feed = ''active_events_v1''"

definition append_active_generation_event ::
  "cache \<Rightarrow> stream_append \<Rightarrow> int \<Rightarrow> duration \<Rightarrow> time \<Rightarrow> time \<Rightarrow> stream_message \<times> cache" where
  "append_active_generation_event c input max_events ttl t1 t2 =
     (let (s, c) = ensure_stream c active_feed;
          (msg, s, c) = append_event s c input max_events ttl t1
      in (msg, maybe_sweep (notify_generation_streams (put_stream (trim_space active_feed) s c)) t2))"

definition get_think_snapshot :: "cache \<Rightarrow> string \<Rightarrow> time \<Rightarrow> think_snapshot option" where
  "get_think_snapshot c rid now =
     (case streams c (trim_space rid) of
        None \<Rightarrow> None
      | Some s \<Rightarrow>
          if events_expired s now \<or> think_seq s \<le> 0 then None
          else Some \<lparr>ks_seq = think_seq s, ks_round_id = think_round_id s,
                     ks_content = think_content s, ks_metadata = think_metadata s\<rparr>)"

definition get_text_snapshot :: "cache \<Rightarrow> string \<Rightarrow> time \<Rightarrow> text_snapshot option" where
  "get_text_snapshot c rid now =
     (case streams c (trim_space rid) of
        None \<Rightarrow> None
      | Some s \<Rightarrow>
          if events_expired s now \<or> text_seq s \<le> 0 then None
          else Some \<lparr>ts_seq = text_seq s, ts_content = text_content s\<rparr>)"

definition list_generation_stream_events :: "cache \<Rightarrow> string \<Rightarrow> int \<Rightarrow> time \<Rightarrow> stream_message list" where
  "list_generation_stream_events c rid limit now =
     (case streams c (trim_space rid) of
        None \<Rightarrow> []
      | Some s \<Rightarrow>
          if events_expired s now then []
          else if limit \<le> 0 \<or> int (length (stream_events s)) \<le> limit then stream_events s
          else drop (length (stream_events s) - nat limit) (stream_events s))"

definition reset_generation_stream_events :: "cache \<Rightarrow> stream_lease \<Rightarrow> time \<Rightarrow> bool \<times> cache" where
  "reset_generation_stream_events c lease now =
     (let rid = trim_space (run_id lease)
      in case streams c rid of
           None \<Rightarrow> (False, c)
         | Some s \<Rightarrow>
             if execution_id s \<noteq> trim_space (lease_execution_id lease) \<or> active_expired s now
             then (False, c)
             else
               let (s, c) = notify_stream (reset_events s) c
               in (True, notify_generation_streams (put_stream rid s c)))"

section \<open>Reading\<close>

text \<open>\<open>parseStreamID\<close> with the part of \<open>strconv.ParseInt\<close> that digits and a plus sign reach.\<close>

fun parse_uint :: "nat \<Rightarrow> string \<Rightarrow> nat option" where
  "parse_uint n [] = Some n"
| "parse_uint n (d # s) =
     (if \<not> is_digit d then None
      else if (2 ^ 64 - 1) div 10 + 1 \<le> n then Some (2 ^ 64 - 1)
      else if 2 ^ 64 \<le> n * 10 + digit_value d then Some (2 ^ 64 - 1)
      else parse_uint (n * 10 + digit_value d) s)"

definition parse_int_or_max :: "string \<Rightarrow> int" where
  "parse_int_or_max s =
     (let digits = (if take 1 s = ''+'' then drop 1 s else s)
      in if digits = [] then 0
         else case parse_uint 0 digits of
                None \<Rightarrow> 0
              | Some n \<Rightarrow> if 2 ^ 63 \<le> n then max_int64 else int n)"

definition parse_stream_id :: "string \<Rightarrow> int" where
  "parse_stream_id raw =
     (let val = trim_space raw
      in if val = [] \<or> val = ''0-0'' then 0
         else parse_int_or_max (takeWhile (\<lambda>ch. ch \<noteq> CHR ''-'') val))"

fun events_after_loop :: "stream_message list \<Rightarrow> int \<Rightarrow> int \<Rightarrow> stream_message list \<Rightarrow> stream_message list" where
  "events_after_loop [] after limit results = results"
| "events_after_loop (item # items) after limit results =
     (if sm_seq item \<le> after then events_after_loop items after limit results
      else let results = results @ [item]
           in if 0 < limit \<and> limit \<le> int (length results) then results
              else events_after_loop items after limit results)"

definition generation_events_after :: "stream_message list \<Rightarrow> int \<Rightarrow> int \<Rightarrow> stream_message list" where
  "generation_events_after events after limit = events_after_loop events after limit []"

text \<open>One turn of the reader's loop under the lock: events, or the channel to wait on.\<close>

definition stream_read_attempt ::
  "cache \<Rightarrow> string \<Rightarrow> int \<Rightarrow> int \<Rightarrow> time \<Rightarrow> stream_message list + chan" where
  "stream_read_attempt c rid after limit now =
     (case streams c (trim_space rid) of
        None \<Rightarrow> Inr (stream_notify c)
      | Some s \<Rightarrow>
          if events_expired s now then Inr (stream_notify c)
          else let records = generation_events_after (stream_events s) after limit
               in if records \<noteq> [] then Inl records else Inr (stream_chan s))"

text \<open>
  The reader: each round has the cache as the other calls left it, the clock, and whether the wait
  ends by the channel (True) or by the context or the deadline (False).
\<close>

fun read_generation_stream_events ::
  "string \<Rightarrow> string \<Rightarrow> int \<Rightarrow> (cache \<times> time \<times> bool) list \<Rightarrow> stream_message list option" where
  "read_generation_stream_events rid after_id limit [] = None"
| "read_generation_stream_events rid after_id limit ((c, now, notified) # rounds) =
     (case stream_read_attempt c rid (parse_stream_id after_id) limit now of
        Inl records \<Rightarrow> Some records
      | Inr ch \<Rightarrow>
          if notified then read_generation_stream_events rid after_id limit rounds else Some [])"

end
