(* ===== verification/File_Queue.thy ===== *)
theory File_Queue
  imports Kv
begin

text \<open>
  The file processing queues of the in-memory backend (file_queue.go): two queues, each with the
  waiting messages, the leases of the messages handed out, a dead-letter list and the channel that
  wakes blocked readers. \<open>cancelled\<close> is the state of the caller's context at the call; the sequence
  number is an unbounded integer (it would take \<open>2 ^ 63\<close> messages to wrap).
\<close>

section \<open>Operations\<close>

datatype queue_error = ContextDone | QueueFull | QueueInvalidInput

definition file_processing_min_idle :: duration where
  "file_processing_min_idle = 45 * second"

definition max_file_queue_error_size :: nat where
  "max_file_queue_error_size = 255"

definition max_file_queue_length :: nat where
  "max_file_queue_length = 10000"

definition max_dead_letters :: nat where
  "max_dead_letters = 10000"

definition file_queue :: "cache \<Rightarrow> queue_name \<Rightarrow> file_queue_state" where
  "file_queue c q =
     (if q = queue_embedding then file_embedding_queue c else file_processing_queue c)"

definition put_file_queue :: "queue_name \<Rightarrow> file_queue_state \<Rightarrow> cache \<Rightarrow> cache" where
  "put_file_queue q s c =
     (if q = queue_embedding then c\<lparr>file_embedding_queue := s\<rparr> else c\<lparr>file_processing_queue := s\<rparr>)"

definition queue_for_message :: "file_message \<Rightarrow> queue_name" where
  "queue_for_message m =
     (if msg_queue m \<noteq> [] then msg_queue m
      else if msg_kind m = kind_embedding then queue_embedding
      else queue_default)"

text \<open>\<open>notifyFileQueueLocked\<close>: close the channel of the queue and make a new one.\<close>

definition notify_file_queue :: "queue_name \<Rightarrow> cache \<Rightarrow> cache" where
  "notify_file_queue q c =
     (let s = file_queue c q
      in put_file_queue q (s\<lparr>fq_notify := next_chan c\<rparr>)
           (c\<lparr>closed_chans := closed_chans c @ [fq_notify s], next_chan := Suc (next_chan c)\<rparr>))"

definition truncate_file_queue_error :: "string \<Rightarrow> string" where
  "truncate_file_queue_error message =
     (let val = trim_space message
      in if max_file_queue_error_size < length (runes val)
         then take_runes max_file_queue_error_size val else val)"

definition next_seq :: "cache \<Rightarrow> cache" where
  "next_seq c = c\<lparr>file_seq := file_seq c + 1\<rparr>"

definition enqueue_file_message ::
  "cache \<Rightarrow> bool \<Rightarrow> file_message \<Rightarrow> time \<Rightarrow> (queue_error + unit) \<times> cache" where
  "enqueue_file_message c cancelled m now =
     (if trim_space (msg_file_id m) = [] then (Inr (), c)
      else if cancelled then (Inl ContextDone, c)
      else
        let q = msg_queue m; s = file_queue c q
        in if max_file_queue_length \<le> length (fq_queue s) then (Inl QueueFull, maybe_sweep c now)
           else
             let c = next_seq c;
                 m = m\<lparr>msg_id := format_int (file_seq c), msg_file_id := trim_space (msg_file_id m),
                       msg_last_error := truncate_file_queue_error (msg_last_error m)\<rparr>;
                 c = put_file_queue q (s\<lparr>fq_queue := fq_queue s @ [m]\<rparr>) c
             in (Inr (), maybe_sweep (notify_file_queue q c) now))"

definition processing_message :: "nat \<Rightarrow> string \<Rightarrow> int \<Rightarrow> string \<Rightarrow> file_message" where
  "processing_message uid fid retry last_error =
     \<lparr>msg_id = [], msg_user_id = uid, msg_file_id = fid, msg_retry = retry,
      msg_last_error = last_error, msg_reclaimed = False, msg_kind = [], msg_queue = queue_default,
      msg_embedding_signature = [], msg_embedding_host = []\<rparr>"

definition enqueue_file_processing ::
  "cache \<Rightarrow> bool \<Rightarrow> nat \<Rightarrow> string \<Rightarrow> int \<Rightarrow> string \<Rightarrow> time \<Rightarrow> (queue_error + unit) \<times> cache" where
  "enqueue_file_processing c cancelled uid fid retry last_error now =
     enqueue_file_message c cancelled (processing_message uid fid retry last_error) now"

definition enqueue_file_embedding ::
  "cache \<Rightarrow> bool \<Rightarrow> nat \<Rightarrow> string \<Rightarrow> string \<Rightarrow> string \<Rightarrow> time \<Rightarrow> (queue_error + unit) \<times> cache" where
  "enqueue_file_embedding c cancelled uid fid signature host now =
     (let fid = trim_space fid; signature = trim_space signature;
          host = trim_right_slash (trim_space host)
      in if fid = [] \<or> signature = [] \<or> host = [] then (Inl QueueInvalidInput, c)
         else enqueue_file_message c cancelled
                \<lparr>msg_id = [], msg_user_id = uid, msg_file_id = fid, msg_retry = 0,
                 msg_last_error = [], msg_reclaimed = False, msg_kind = kind_embedding,
                 msg_queue = queue_embedding, msg_embedding_signature = signature,
                 msg_embedding_host = host\<rparr> now)"

text \<open>
  The loop over the leases in the order \<open>ids\<close> in which Go ranges over the map; the empty
  identifier stands for no candidate yet.
\<close>

fun oldest_timed_out ::
  "(string \<rightharpoonup> file_lease) \<Rightarrow> time \<Rightarrow> string list \<Rightarrow> string \<times> file_lease option \<Rightarrow>
     string \<times> file_lease option" where
  "oldest_timed_out inflight now [] cand = cand"
| "oldest_timed_out inflight now (mid # ids) cand =
     (case inflight mid of
        None \<Rightarrow> oldest_timed_out inflight now ids cand
      | Some l \<Rightarrow>
          if time_sub now (leased_at l) < file_processing_min_idle
          then oldest_timed_out inflight now ids cand
          else if fst cand = [] \<or> (case snd cand of None \<Rightarrow> True | Some b \<Rightarrow> leased_at l < leased_at b)
          then oldest_timed_out inflight now ids (mid, Some l)
          else oldest_timed_out inflight now ids cand)"

definition claim_timed_out ::
  "cache \<Rightarrow> bool \<Rightarrow> string \<Rightarrow> queue_name \<Rightarrow> string list \<Rightarrow> time \<Rightarrow>
     (queue_error + file_message list) \<times> cache" where
  "claim_timed_out c cancelled consumer q ids now =
     (if trim_space consumer = [] then (Inr [], c)
      else if cancelled then (Inl ContextDone, c)
      else
        let s = file_queue c q
        in case oldest_timed_out (fq_inflight s) now ids ([], None) of
             (mid, None) \<Rightarrow> (Inr [], c)
           | (mid, Some l) \<Rightarrow>
               if mid = [] then (Inr [], c)
               else
                 let m = (lease_message l)\<lparr>msg_reclaimed := True\<rparr>;
                     l = \<lparr>consumer_name = trim_space consumer, leased_at = now, lease_message = m\<rparr>
                 in (Inr [m], put_file_queue q (s\<lparr>fq_inflight := (fq_inflight s)(mid \<mapsto> l)\<rparr>) c))"

text \<open>One turn of the reader's loop under the lock: a message leased, or the channel to wait on.\<close>

definition read_attempt ::
  "cache \<Rightarrow> string \<Rightarrow> queue_name \<Rightarrow> time \<Rightarrow> (file_message + chan) \<times> cache" where
  "read_attempt c consumer q now =
     (let s = file_queue c q
      in case fq_queue s of
           m # rest \<Rightarrow>
             (Inl m, put_file_queue q
               (s\<lparr>fq_queue := rest,
                  fq_inflight := (fq_inflight s)(msg_id m \<mapsto>
                    \<lparr>consumer_name = trim_space consumer, leased_at = now, lease_message = m\<rparr>)\<rparr>) c)
         | [] \<Rightarrow> (Inr (fq_notify s), c))"

text \<open>
  The reader: each round finds the context cancelled or not, the cache as the other calls have left
  it and the clock; an empty queue waits for the first of three signals. None: still waiting when
  the given rounds end.
\<close>

datatype wake = ByContext | ByTimer | ByNotify

fun read_file_messages ::
  "string \<Rightarrow> queue_name \<Rightarrow> (bool \<times> cache \<times> time \<times> wake) list \<Rightarrow>
     ((queue_error + file_message list) \<times> cache) option" where
  "read_file_messages consumer q [] = None"
| "read_file_messages consumer q ((cancelled, c, now, signal) # rounds) =
     (if trim_space consumer = [] then Some (Inr [], c)
      else if cancelled then Some (Inl ContextDone, c)
      else case read_attempt c consumer q now of
        (Inl m, c') \<Rightarrow> Some (Inr [m], c')
      | (Inr ch, c') \<Rightarrow>
          (case signal of
             ByContext \<Rightarrow> Some (Inl ContextDone, c')
           | ByTimer \<Rightarrow> Some (Inr [], c')
           | ByNotify \<Rightarrow> read_file_messages consumer q rounds))"

text \<open>The lease that the four lease operations look up and check against the caller.\<close>

definition held_lease :: "cache \<Rightarrow> string \<Rightarrow> file_message \<Rightarrow> file_lease option" where
  "held_lease c consumer m =
     (case fq_inflight (file_queue c (queue_for_message m)) (trim_space (msg_id m)) of
        None \<Rightarrow> None
      | Some l \<Rightarrow> if consumer_name l \<noteq> trim_space consumer then None else Some l)"

definition renew_lease ::
  "cache \<Rightarrow> bool \<Rightarrow> string \<Rightarrow> file_message \<Rightarrow> time \<Rightarrow> (queue_error + bool) \<times> cache" where
  "renew_lease c cancelled consumer m now =
     (if cancelled then (Inl ContextDone, c)
      else case held_lease c consumer m of
        None \<Rightarrow> (Inr False, c)
      | Some l \<Rightarrow>
          let q = queue_for_message m; s = file_queue c q
          in (Inr True, put_file_queue q
               (s\<lparr>fq_inflight := (fq_inflight s)(trim_space (msg_id m) \<mapsto> l\<lparr>leased_at := now\<rparr>)\<rparr>) c))"

definition settle_message ::
  "cache \<Rightarrow> bool \<Rightarrow> string \<Rightarrow> file_message \<Rightarrow> time \<Rightarrow> (queue_error + bool) \<times> cache" where
  "settle_message c cancelled consumer m now =
     (if cancelled then (Inl ContextDone, c)
      else case held_lease c consumer m of
        None \<Rightarrow> (Inr False, c)
      | Some l \<Rightarrow>
          let q = queue_for_message m; s = file_queue c q
          in (Inr True, maybe_sweep (put_file_queue q
               (s\<lparr>fq_inflight := (fq_inflight s)(trim_space (msg_id m) := None)\<rparr>) c) now))"

text \<open>The copy that goes back to the queue or to the dead letters.\<close>

definition moved_message :: "string \<Rightarrow> file_message \<Rightarrow> int \<Rightarrow> string \<Rightarrow> file_message" where
  "moved_message mid m retry last_error =
     \<lparr>msg_id = mid, msg_user_id = msg_user_id m, msg_file_id = trim_space (msg_file_id m),
      msg_retry = retry, msg_last_error = truncate_file_queue_error last_error,
      msg_reclaimed = False, msg_kind = msg_kind m, msg_queue = queue_for_message m,
      msg_embedding_signature = msg_embedding_signature m, msg_embedding_host = msg_embedding_host m\<rparr>"

definition requeue_message ::
  "cache \<Rightarrow> bool \<Rightarrow> string \<Rightarrow> file_message \<Rightarrow> int \<Rightarrow> string \<Rightarrow> time \<Rightarrow> (queue_error + bool) \<times> cache"
  where
  "requeue_message c cancelled consumer m retry last_error now =
     (if cancelled then (Inl ContextDone, c)
      else case held_lease c consumer m of
        None \<Rightarrow> (Inr False, c)
      | Some l \<Rightarrow>
          let q = queue_for_message m; c = next_seq c; s = file_queue c q;
              s = s\<lparr>fq_queue := fq_queue s @ [moved_message (format_int (file_seq c)) m retry last_error],
                    fq_inflight := (fq_inflight s)(trim_space (msg_id m) := None)\<rparr>
          in (Inr True, maybe_sweep (notify_file_queue q (put_file_queue q s c)) now))"

definition keep_last :: "nat \<Rightarrow> 'a list \<Rightarrow> 'a list" where
  "keep_last n xs = (if n < length xs then drop (length xs - n) xs else xs)"

definition dead_letter_message ::
  "cache \<Rightarrow> bool \<Rightarrow> string \<Rightarrow> file_message \<Rightarrow> string \<Rightarrow> time \<Rightarrow> (queue_error + bool) \<times> cache" where
  "dead_letter_message c cancelled consumer m last_error now =
     (if cancelled then (Inl ContextDone, c)
      else case held_lease c consumer m of
        None \<Rightarrow> (Inr False, c)
      | Some l \<Rightarrow>
          let q = queue_for_message m; c = next_seq c; s = file_queue c q;
              d = moved_message (''dlq-'' @ format_int (file_seq c)) m (msg_retry m) last_error;
              s = s\<lparr>fq_dlq := keep_last max_dead_letters (fq_dlq s @ [d]),
                    fq_inflight := (fq_inflight s)(trim_space (msg_id m) := None)\<rparr>
          in (Inr True, maybe_sweep (put_file_queue q s c) now))"

end
