(* ===== verification/Queue_Props.thy ===== *)
theory Queue_Props
  imports File_Queue "HOL-Library.Multiset"
begin

text \<open>
  The guarantees of the file queues over histories of calls: identifiers are never reused, a message
  is completed at most once, none is lost, readers are not left asleep, and reclaiming respects the
  idle time.
\<close>

section \<open>Histories\<close>

datatype queue_call =
  Enqueue_processing nat string int string
| Enqueue_embedding nat string string string
| Claim string queue_name "string list"
| Read string queue_name
| Renew string file_message
| Settle string file_message
| Requeue string file_message int string
| Dead_letter string file_message string
| Queue_upkeep

datatype queue_result =
  Q_error queue_error
| Q_done
| Q_messages "file_message list"
| Q_flag bool
| Q_wait chan

fun flag_result :: "(queue_error + bool) \<times> cache \<Rightarrow> queue_result \<times> cache" where
  "flag_result (Inl e, c) = (Q_error e, c)"
| "flag_result (Inr b, c) = (Q_flag b, c)"

fun unit_result :: "(queue_error + unit) \<times> cache \<Rightarrow> queue_result \<times> cache" where
  "unit_result (Inl e, c) = (Q_error e, c)"
| "unit_result (Inr b, c) = (Q_done, c)"

text \<open>A read is one turn of the reader's loop by a named consumer.\<close>

fun queue_step :: "cache \<Rightarrow> bool \<times> time \<times> queue_call \<Rightarrow> queue_result \<times> cache" where
  "queue_step c (x, now, Enqueue_processing u f r e) = unit_result (enqueue_file_processing c x u f r e now)"
| "queue_step c (x, now, Enqueue_embedding u f s h) = unit_result (enqueue_file_embedding c x u f s h now)"
| "queue_step c (x, now, Claim cn q ids) =
     (case claim_timed_out c x cn q ids now of
        (Inl e, c') \<Rightarrow> (Q_error e, c') | (Inr ms, c') \<Rightarrow> (Q_messages ms, c'))"
| "queue_step c (x, now, Read cn q) =
     (if trim_space cn = [] then (Q_messages [], c)
      else if x then (Q_error ContextDone, c)
      else case read_attempt c cn q now of
        (Inl m, c') \<Rightarrow> (Q_messages [m], c') | (Inr ch, c') \<Rightarrow> (Q_wait ch, c'))"
| "queue_step c (x, now, Renew cn m) = flag_result (renew_lease c x cn m now)"
| "queue_step c (x, now, Settle cn m) = flag_result (settle_message c x cn m now)"
| "queue_step c (x, now, Requeue cn m r e) = flag_result (requeue_message c x cn m r e now)"
| "queue_step c (x, now, Dead_letter cn m e) = flag_result (dead_letter_message c x cn m e now)"
| "queue_step c (x, now, Queue_upkeep) = (Q_done, maybe_sweep c now)"

fun queue_run :: "cache \<Rightarrow> (bool \<times> time \<times> queue_call) list \<Rightarrow> queue_result list \<times> cache" where
  "queue_run c [] = ([], c)"
| "queue_run c (e # h) =
     (let (r, c') = queue_step c e; (rs, c'') = queue_run c' h in (r # rs, c''))"

section \<open>What a call does to the queues\<close>

text \<open>
  Seen from the queues, a successful call is one of five moves: it appends a new message under the
  next number (releasing a lease or not), hands out the first message, rewrites the lease of a
  message, or drops a lease.
\<close>

definition occurs :: "file_queue_state \<Rightarrow> string \<Rightarrow> nat" where
  "occurs s x = count_list (map msg_id (fq_queue s)) x + (if fq_inflight s x = None then 0 else 1)"

definition copies :: "cache \<Rightarrow> string \<Rightarrow> nat" where
  "copies c x = occurs (file_processing_queue c) x + occurs (file_embedding_queue c) x"

definition issued :: "cache \<Rightarrow> string \<Rightarrow> bool" where
  "issued c x \<longleftrightarrow> (\<exists>n. 0 < n \<and> n \<le> file_seq c \<and> x = format_int n)"

definition queue_inv :: "cache \<Rightarrow> bool" where
  "queue_inv c \<longleftrightarrow>
     0 \<le> file_seq c \<and>
     (\<forall>x. copies c x \<le> 1 \<and> (0 < copies c x \<longrightarrow> issued c x)) \<and>
     (\<forall>q x l. fq_inflight (file_queue c q) x = Some l \<longrightarrow> msg_id (lease_message l) = x) \<and>
     (\<forall>q. finite (dom (fq_inflight (file_queue c q))))"

lemma file_queue_put [simp]:
  "file_queue (put_file_queue q s c) q' =
     (if (q = queue_embedding) = (q' = queue_embedding) then s else file_queue c q')"
  by (auto simp: file_queue_def put_file_queue_def)

lemma put_file_queue_frame [simp]:
  "file_seq (put_file_queue q s c) = file_seq c"
  "closed_chans (put_file_queue q s c) = closed_chans c"
  "next_chan (put_file_queue q s c) = next_chan c"
  "stream_notify (put_file_queue q s c) = stream_notify c"
  "streams (put_file_queue q s c) = streams c"
  by (simp_all add: put_file_queue_def)

lemma file_queue_frame [simp]:
  "file_queue (c\<lparr>file_seq := n\<rparr>) q = file_queue c q"
  "file_queue (c\<lparr>closed_chans := cl, next_chan := k\<rparr>) q = file_queue c q"
  "file_queue (maybe_sweep c now) q = file_queue c q"
  by (simp_all add: file_queue_def)

lemma next_seq_simps [simp]:
  "file_seq (next_seq c) = file_seq c + 1"
  "file_queue (next_seq c) q = file_queue c q"
  "closed_chans (next_seq c) = closed_chans c"
  "next_chan (next_seq c) = next_chan c"
  "stream_notify (next_seq c) = stream_notify c"
  "streams (next_seq c) = streams c"
  by (simp_all add: next_seq_def)

lemma notify_simps [simp]:
  "file_seq (notify_file_queue q c) = file_seq c"
  "closed_chans (notify_file_queue q c) = closed_chans c @ [fq_notify (file_queue c q)]"
  "next_chan (notify_file_queue q c) = Suc (next_chan c)"
  "stream_notify (notify_file_queue q c) = stream_notify c"
  "streams (notify_file_queue q c) = streams c"
  "file_queue (notify_file_queue q c) q' =
     (if (q = queue_embedding) = (q' = queue_embedding)
      then (file_queue c q')\<lparr>fq_notify := next_chan c\<rparr> else file_queue c q')"
  by (simp_all add: notify_file_queue_def Let_def) (auto simp: file_queue_def)

text \<open>The moves, as updates of the queue \<open>q\<close>; \<open>s'\<close> is its next state.\<close>

definition appends :: "cache \<Rightarrow> queue_name \<Rightarrow> file_message \<Rightarrow> string option \<Rightarrow> cache \<Rightarrow> bool" where
  "appends c q m rel c' \<longleftrightarrow>
     file_seq c' = file_seq c + 1 \<and> msg_id m = format_int (file_seq c') \<and>
     fq_queue (file_queue c' q) = fq_queue (file_queue c q) @ [m] \<and>
     fq_inflight (file_queue c' q) =
       (case rel of None \<Rightarrow> fq_inflight (file_queue c q)
        | Some x \<Rightarrow> (fq_inflight (file_queue c q))(x := None)) \<and>
     fq_notify (file_queue c' q) = next_chan c \<and>
     closed_chans c' = closed_chans c @ [fq_notify (file_queue c q)] \<and>
     next_chan c' = Suc (next_chan c)"

definition hands_out :: "cache \<Rightarrow> queue_name \<Rightarrow> file_message \<Rightarrow> file_lease \<Rightarrow> cache \<Rightarrow> bool" where
  "hands_out c q m l c' \<longleftrightarrow>
     file_seq c' = file_seq c \<and> fq_queue (file_queue c q) = m # fq_queue (file_queue c' q) \<and>
     lease_message l = m \<and>
     fq_inflight (file_queue c' q) = (fq_inflight (file_queue c q))(msg_id m \<mapsto> l) \<and>
     fq_notify (file_queue c' q) = fq_notify (file_queue c q) \<and>
     closed_chans c' = closed_chans c \<and> next_chan c' = next_chan c"

definition releases :: "cache \<Rightarrow> queue_name \<Rightarrow> string \<Rightarrow> file_lease option \<Rightarrow> cache \<Rightarrow> bool" where
  "releases c q x l' c' \<longleftrightarrow>
     file_seq c \<le> file_seq c' \<and> fq_queue (file_queue c' q) = fq_queue (file_queue c q) \<and>
     (\<exists>l. fq_inflight (file_queue c q) x = Some l \<and>
          (\<forall>l''. l' = Some l'' \<longrightarrow> msg_id (lease_message l'') = msg_id (lease_message l))) \<and>
     fq_inflight (file_queue c' q) = (fq_inflight (file_queue c q))(x := l') \<and>
     fq_notify (file_queue c' q) = fq_notify (file_queue c q) \<and>
     closed_chans c' = closed_chans c \<and> next_chan c' = next_chan c"

definition other_queue :: "cache \<Rightarrow> queue_name \<Rightarrow> cache \<Rightarrow> bool" where
  "other_queue c q c' \<longleftrightarrow>
     (\<forall>q'. (q' = queue_embedding) \<noteq> (q = queue_embedding) \<longrightarrow> file_queue c' q' = file_queue c q')"

definition same_queues :: "cache \<Rightarrow> cache \<Rightarrow> bool" where
  "same_queues c c' \<longleftrightarrow>
     file_seq c' = file_seq c \<and> (\<forall>q. file_queue c' q = file_queue c q) \<and>
     closed_chans c' = closed_chans c \<and> next_chan c' = next_chan c"

lemma held_leaseD:
  "held_lease c cn m = Some l \<Longrightarrow>
   fq_inflight (file_queue c (queue_for_message m)) (trim_space (msg_id m)) = Some l"
  by (auto simp: held_lease_def split: option.splits if_splits)

lemma enqueue_moves:
  assumes "enqueue_file_message c x m now = (r, c')"
  shows "same_queues c c' \<and> (r = Inr () \<longrightarrow> trim_space (msg_file_id m) = []) \<or>
         (\<exists>m'. appends c (msg_queue m) m' None c' \<and> other_queue c (msg_queue m) c' \<and> r = Inr () \<and>
               trim_space (msg_file_id m) \<noteq> [])"
  using assms
  by (auto simp: enqueue_file_message_def Let_def same_queues_def appends_def other_queue_def
      split: if_splits)

lemma read_moves:
  assumes "read_attempt c cn q now = (r, c')"
  shows "(\<exists>ch. r = Inr ch \<and> c' = c \<and> fq_queue (file_queue c q) = [] \<and> ch = fq_notify (file_queue c q)) \<or>
         (\<exists>m. r = Inl m \<and> other_queue c q c' \<and>
            hands_out c q m \<lparr>consumer_name = trim_space cn, leased_at = now, lease_message = m\<rparr> c')"
  using assms
  by (auto simp: read_attempt_def Let_def hands_out_def other_queue_def split: list.splits)

lemma renew_moves:
  assumes "renew_lease c x cn m now = (r, c')"
  shows "c' = c \<and> r \<noteq> Inr True \<or>
         (\<exists>l. fq_inflight (file_queue c (queue_for_message m)) (trim_space (msg_id m)) = Some l \<and>
            releases c (queue_for_message m) (trim_space (msg_id m)) (Some (l\<lparr>leased_at := now\<rparr>)) c') \<and>
         other_queue c (queue_for_message m) c'"
  using assms
  by (auto simp: renew_lease_def Let_def releases_def other_queue_def dest!: held_leaseD
      split: if_splits option.splits)

lemma settle_moves:
  assumes "settle_message c x cn m now = (r, c')"
  shows "c' = c \<and> r \<noteq> Inr True \<or>
         r = Inr True \<and> releases c (queue_for_message m) (trim_space (msg_id m)) None c' \<and>
         other_queue c (queue_for_message m) c'"
  using assms
  by (auto simp: settle_message_def Let_def releases_def other_queue_def dest!: held_leaseD
      split: if_splits option.splits)

lemma dead_letter_moves:
  assumes "dead_letter_message c x cn m e now = (r, c')"
  shows "c' = c \<and> r \<noteq> Inr True \<or>
         r = Inr True \<and> releases c (queue_for_message m) (trim_space (msg_id m)) None c' \<and>
         other_queue c (queue_for_message m) c'"
  using assms
  by (auto simp: dead_letter_message_def Let_def releases_def other_queue_def dest!: held_leaseD
      split: if_splits option.splits)

lemma requeue_moves:
  assumes "requeue_message c x cn m rt e now = (r, c')"
  shows "c' = c \<and> r \<noteq> Inr True \<or>
         r = Inr True \<and>
         (\<exists>m' l. appends c (queue_for_message m) m' (Some (trim_space (msg_id m))) c' \<and>
            fq_inflight (file_queue c (queue_for_message m)) (trim_space (msg_id m)) = Some l) \<and>
         other_queue c (queue_for_message m) c'"
  using assms
  by (auto simp: requeue_message_def Let_def appends_def other_queue_def moved_message_def
      dest!: held_leaseD split: if_splits option.splits)

subsection \<open>Claims\<close>

definition idle :: "time \<Rightarrow> file_lease \<Rightarrow> bool" where
  "idle now l \<longleftrightarrow> \<not> time_sub now (leased_at l) < file_processing_min_idle"

text \<open>The candidate is an idle lease of the map, and no idle lease seen so far is older.\<close>

definition candidate_ok ::
  "(string \<rightharpoonup> file_lease) \<Rightarrow> time \<Rightarrow> string set \<Rightarrow> string \<times> file_lease option \<Rightarrow> bool" where
  "candidate_ok inflight now X cand \<longleftrightarrow>
     (case cand of
        (mid, None) \<Rightarrow> mid = [] \<and> (\<forall>x \<in> X. \<forall>l. inflight x = Some l \<longrightarrow> \<not> idle now l)
      | (mid, Some b) \<Rightarrow>
          mid \<noteq> [] \<and> inflight mid = Some b \<and> idle now b \<and>
          (\<forall>x \<in> X. \<forall>l. inflight x = Some l \<longrightarrow> idle now l \<longrightarrow> leased_at b \<le> leased_at l))"

definition next_candidate ::
  "(string \<rightharpoonup> file_lease) \<Rightarrow> time \<Rightarrow> string \<Rightarrow> string \<times> file_lease option \<Rightarrow>
     string \<times> file_lease option" where
  "next_candidate inflight now y cand =
     (case inflight y of
        None \<Rightarrow> cand
      | Some l \<Rightarrow>
          if idle now l \<and>
             (fst cand = [] \<or> (case snd cand of None \<Rightarrow> True | Some b \<Rightarrow> leased_at l < leased_at b))
          then (y, Some l) else cand)"

lemma oldest_timed_out_Cons:
  "oldest_timed_out inflight now (y # ids) cand =
     oldest_timed_out inflight now ids (next_candidate inflight now y cand)"
  by (auto simp: next_candidate_def idle_def split: option.split)

lemma next_candidate_ok:
  assumes "inflight [] = None" "candidate_ok inflight now X cand"
  shows "candidate_ok inflight now (insert y X) (next_candidate inflight now y cand)"
  using assms
  by (cases "inflight y"; cases "y = []"; cases cand; cases "snd cand")
    (auto simp: candidate_ok_def next_candidate_def)

lemma oldest_timed_out_ok:
  assumes "inflight [] = None" "candidate_ok inflight now X cand"
  shows "candidate_ok inflight now (X \<union> set ids) (oldest_timed_out inflight now ids cand)"
  using assms(2)
proof (induction ids arbitrary: X cand)
  case (Cons y ids)
  from Cons.IH [OF next_candidate_ok [OF assms(1) Cons.prems, of y]] show ?case
    by (simp only: oldest_timed_out_Cons) simp
qed simp

text \<open>A claim rewrites the lease of an idle message, the oldest where the order covers the map.\<close>

lemma claim_moves:
  assumes "claim_timed_out c x cn q ids now = (r, c')"
    and "fq_inflight (file_queue c q) [] = None"
  shows "c' = c \<and> (r = Inl ContextDone \<and> x \<or> r = Inr [] \<and> (trim_space cn = [] \<or>
            (\<forall>y \<in> set ids. \<forall>l. fq_inflight (file_queue c q) y = Some l \<longrightarrow> \<not> idle now l))) \<or>
         (\<exists>mid l m. fq_inflight (file_queue c q) mid = Some l \<and> idle now l \<and>
            (\<forall>y \<in> set ids. \<forall>l'. fq_inflight (file_queue c q) y = Some l' \<longrightarrow> idle now l' \<longrightarrow>
               leased_at l \<le> leased_at l') \<and>
            m = (lease_message l)\<lparr>msg_reclaimed := True\<rparr> \<and> r = Inr [m] \<and>
            releases c q mid (Some \<lparr>consumer_name = trim_space cn, leased_at = now,
              lease_message = m\<rparr>) c' \<and> other_queue c q c')"
proof -
  let ?s = "file_queue c q"
  obtain mid b where o: "oldest_timed_out (fq_inflight ?s) now ids ([], None) = (mid, b)"
    by fastforce
  have "candidate_ok (fq_inflight ?s) now {} ([], None)"
    by (simp add: candidate_ok_def)
  from oldest_timed_out_ok [OF assms(2) this, of ids] o
  have ok: "candidate_ok (fq_inflight ?s) now (set ids) (mid, b)" by simp
  show ?thesis
  proof (cases "trim_space cn = [] \<or> x \<or> b = None")
    case True
    with assms(1) o ok show ?thesis
      by (auto simp: claim_timed_out_def Let_def candidate_ok_def split: if_splits)
  next
    case False
    then obtain l where l: "b = Some l" by auto
    show ?thesis
      using ok False assms(1) o l
      by (intro disjI2 exI [of _ mid] exI [of _ l] exI [of _ "(lease_message l)\<lparr>msg_reclaimed := True\<rparr>"])
        (auto simp: claim_timed_out_def Let_def candidate_ok_def releases_def other_queue_def)
  qed
qed

subsection \<open>One step\<close>

text \<open>The message a call completes, and the calls that add work to the backlog.\<close>

fun completes :: "queue_call \<Rightarrow> queue_result \<Rightarrow> string option" where
  "completes (Settle cn m) (Q_flag True) = Some (trim_space (msg_id m))"
| "completes (Requeue cn m r e) (Q_flag True) = Some (trim_space (msg_id m))"
| "completes (Dead_letter cn m e) (Q_flag True) = Some (trim_space (msg_id m))"
| "completes call res = None"

fun accepts :: "queue_call \<Rightarrow> queue_result \<Rightarrow> bool" where
  "accepts (Enqueue_processing u f r e) Q_done \<longleftrightarrow> trim_space f \<noteq> []"
| "accepts (Enqueue_embedding u f s h) Q_done \<longleftrightarrow> True"
| "accepts call res \<longleftrightarrow> False"

fun requeues :: "queue_call \<Rightarrow> bool" where
  "requeues (Requeue cn m r e) = True"
| "requeues call = False"

lemma processing_queue_names [simp]: "queue_default \<noteq> queue_embedding"
  by (simp add: queue_default_def queue_embedding_def)

lemma enqueue_processing_moves:
  assumes "enqueue_file_processing c x u f rt e now = (r, c')"
  shows "same_queues c c' \<and> (r = Inr () \<longrightarrow> trim_space f = []) \<or>
         (\<exists>m. appends c queue_default m None c' \<and> other_queue c queue_default c' \<and> r = Inr () \<and>
              trim_space f \<noteq> [])"
  using enqueue_moves [OF assms [unfolded enqueue_file_processing_def]]
  by (simp add: processing_message_def)

lemma enqueue_embedding_moves:
  assumes "enqueue_file_embedding c x u f s h now = (r, c')"
  shows "same_queues c c' \<and> r \<noteq> Inr () \<or>
         (\<exists>m. appends c queue_embedding m None c' \<and> other_queue c queue_embedding c' \<and> r = Inr ())"
proof (cases "trim_space f = [] \<or> trim_space s = [] \<or> trim_right_slash (trim_space h) = []")
  case True
  with assms show ?thesis
    by (auto simp: enqueue_file_embedding_def Let_def same_queues_def)
next
  case False
  with assms enqueue_moves show ?thesis
    by (fastforce simp: enqueue_file_embedding_def Let_def)
qed

lemma same_queues_refl [simp]: "same_queues c c"
  by (simp add: same_queues_def)

lemma same_queues_sweep [simp]: "same_queues c (maybe_sweep c now)"
  by (simp add: same_queues_def)

lemma flag_result_eq:
  "flag_result p = (r, c') \<longleftrightarrow>
     (\<exists>e. p = (Inl e, c') \<and> r = Q_error e) \<or> (\<exists>b. p = (Inr b, c') \<and> r = Q_flag b)"
  by (cases p rule: flag_result.cases) auto

lemma unit_result_eq:
  "unit_result p = (r, c') \<longleftrightarrow>
     (\<exists>e. p = (Inl e, c') \<and> r = Q_error e) \<or> (p = (Inr (), c') \<and> r = Q_done)"
  by (cases p rule: unit_result.cases) auto

text \<open>The messages a call hands out.\<close>

definition hands :: "string \<Rightarrow> queue_result \<Rightarrow> bool" where
  [go_simps]: "hands y r \<longleftrightarrow> (case r of Q_messages ms \<Rightarrow> y \<in> msg_id ` set ms | _ \<Rightarrow> False)"

text \<open>The kinds of a step.\<close>

definition unmoved :: "cache \<Rightarrow> queue_call \<Rightarrow> queue_result \<Rightarrow> cache \<Rightarrow> bool" where
  "unmoved c call r c' \<longleftrightarrow> same_queues c c' \<and> completes call r = None \<and> \<not> accepts call r \<and> (\<forall>y. \<not> hands y r)"

definition appended :: "cache \<Rightarrow> queue_call \<Rightarrow> queue_result \<Rightarrow> cache \<Rightarrow> bool" where
  "appended c call r c' \<longleftrightarrow>
     (\<exists>q m. appends c q m None c' \<and> other_queue c q c') \<and> completes call r = None \<and> accepts call r \<and>
     (\<forall>y. \<not> hands y r)"

definition moved_back :: "cache \<Rightarrow> queue_call \<Rightarrow> queue_result \<Rightarrow> cache \<Rightarrow> bool" where
  "moved_back c call r c' \<longleftrightarrow>
     (\<exists>q m y l. appends c q m (Some y) c' \<and> other_queue c q c' \<and>
        fq_inflight (file_queue c q) y = Some l \<and> completes call r = Some y) \<and>
     \<not> accepts call r \<and> requeues call \<and> (\<forall>y. \<not> hands y r)"

definition handed_out :: "cache \<Rightarrow> time \<Rightarrow> queue_call \<Rightarrow> queue_result \<Rightarrow> cache \<Rightarrow> bool" where
  "handed_out c now call r c' \<longleftrightarrow>
     (\<exists>q m l. hands_out c q m l c' \<and> other_queue c q c' \<and> leased_at l = now \<and>
        (\<forall>y. hands y r \<longrightarrow> y = msg_id m)) \<and> completes call r = None \<and> \<not> accepts call r"

definition rewritten :: "cache \<Rightarrow> time \<Rightarrow> queue_call \<Rightarrow> queue_result \<Rightarrow> cache \<Rightarrow> bool" where
  "rewritten c now call r c' \<longleftrightarrow>
     (\<exists>q z l old. releases c q z (Some l) c' \<and> other_queue c q c' \<and> leased_at l = now \<and>
        fq_inflight (file_queue c q) z = Some old \<and>
        (\<forall>y. hands y r \<longrightarrow> idle now old \<and> y = msg_id (lease_message old))) \<and> completes call r = None \<and>
     \<not> accepts call r"

definition dropped :: "cache \<Rightarrow> queue_call \<Rightarrow> queue_result \<Rightarrow> cache \<Rightarrow> bool" where
  "dropped c call r c' \<longleftrightarrow>
     (\<exists>q y. releases c q y None c' \<and> other_queue c q c' \<and> completes call r = Some y) \<and>
     \<not> accepts call r \<and> \<not> requeues call \<and> (\<forall>y. \<not> hands y r)"

lemmas step_kinds = unmoved_def appended_def moved_back_def handed_out_def rewritten_def dropped_def

lemma step_moves:
  assumes step: "queue_step c (x, now, call) = (r, c')"
    and keys: "\<And>q. fq_inflight (file_queue c q) [] = None"
  shows "unmoved c call r c' \<or> appended c call r c' \<or> moved_back c call r c' \<or>
         handed_out c now call r c' \<or> rewritten c now call r c' \<or> dropped c call r c'"
proof (cases call)
  case (Enqueue_processing u f rt e)
  show ?thesis
    using step unfolding Enqueue_processing
    by (auto simp: hands_def unit_result_eq unmoved_def appended_def dest!: enqueue_processing_moves)
next
  case (Enqueue_embedding u f s h)
  show ?thesis
    using step unfolding Enqueue_embedding
    by (auto simp: hands_def unit_result_eq unmoved_def appended_def dest!: enqueue_embedding_moves)
next
  case (Claim cn q ids)
  obtain res where res: "claim_timed_out c x cn q ids now = (res, c')" "completes call r = None"
      "\<not> accepts call r" "\<And>y. hands y r \<longleftrightarrow> (\<exists>ms. res = Inr ms \<and> y \<in> msg_id ` set ms)"
    using step Claim by (auto simp: hands_def split: prod.splits sum.splits)
  show ?thesis
    using claim_moves [OF res(1) keys]
  proof (elim disjE exE conjE, goal_cases)
    case (4 mid l m)
    then have "rewritten c now call r c'"
      unfolding rewritten_def using res(2-4)
      by (intro conjI exI [of _ q] exI [of _ mid] exI [of _ l]
          exI [of _ "\<lparr>consumer_name = trim_space cn, leased_at = now, lease_message = m\<rparr>"]) auto
    then show ?case by blast
  qed (use res(2-4) in \<open>auto simp: unmoved_def\<close>)
next
  case (Read cn q)
  show ?thesis
  proof (cases "trim_space cn = [] \<or> x")
    case True
    with step show ?thesis unfolding Read by (auto simp: hands_def unmoved_def split: if_splits)
  next
    case False
    with step Read obtain res where res: "read_attempt c cn q now = (res, c')"
        "completes call r = None" "\<not> accepts call r"
        "\<And>y. hands y r \<longleftrightarrow> (\<exists>m. res = Inl m \<and> y = msg_id m)"
      by (auto simp: hands_def split: prod.splits sum.splits)
    show ?thesis
      using read_moves [OF res(1)]
    proof (elim disjE exE conjE, goal_cases)
      case (2 m)
      then have "handed_out c now call r c'"
        unfolding handed_out_def using res(2-4)
        by (intro conjI exI [of _ q] exI [of _ m]
            exI [of _ "\<lparr>consumer_name = trim_space cn, leased_at = now, lease_message = m\<rparr>"]) auto
      then show ?case by blast
    qed (use res(2-4) in \<open>auto simp: unmoved_def\<close>)
  qed
next
  case (Renew cn m)
  show ?thesis
    using step unfolding Renew
    by (fastforce simp: hands_def flag_result_eq unmoved_def rewritten_def dest!: renew_moves)
next
  case (Settle cn m)
  show ?thesis
    using step unfolding Settle
    by (auto simp: hands_def flag_result_eq unmoved_def dropped_def dest!: settle_moves)
next
  case (Requeue cn m rt e)
  show ?thesis
    using step unfolding Requeue
    by (auto simp: hands_def flag_result_eq unmoved_def moved_back_def dest!: requeue_moves)
      (metis option.distinct(1))+
next
  case (Dead_letter cn m e)
  show ?thesis
    using step unfolding Dead_letter
    by (auto simp: hands_def flag_result_eq unmoved_def dropped_def dest!: dead_letter_moves)
next
  case Queue_upkeep
  show ?thesis using step unfolding Queue_upkeep by (auto simp: hands_def unmoved_def)
qed

section \<open>Identifiers\<close>

definition other_name :: "queue_name \<Rightarrow> queue_name" where
  "other_name q = (if q = queue_embedding then queue_default else queue_embedding)"

lemma copies_split:
  "copies c x = occurs (file_queue c q) x + occurs (file_queue c (other_name q)) x"
  by (simp add: copies_def file_queue_def other_name_def)

lemma other_queueD: "other_queue c q c' \<Longrightarrow> file_queue c' (other_name q) = file_queue c (other_name q)"
  by (simp add: other_queue_def other_name_def)

text \<open>A move in \<open>q\<close> changes the copies of an identifier as it changes those in \<open>q\<close>.\<close>

lemma copies_move:
  assumes "other_queue c q c'"
  shows "copies c' x + occurs (file_queue c q) x = copies c x + occurs (file_queue c' q) x"
  by (simp add: copies_split [of _ x q] other_queueD [OF assms])

lemma copies_append:
  assumes "appends c q m rel c'" "other_queue c q c'" "\<And>y. rel = Some y \<Longrightarrow> fq_inflight (file_queue c q) y \<noteq> None"
  shows "copies c' x + (if rel = Some x then 1 else 0) = copies c x + (if x = msg_id m then 1 else 0)"
  using assms(1) assms(3) copies_move [OF assms(2), of x]
  by (auto simp: appends_def occurs_def split: if_splits option.splits)

lemma copies_hand:
  assumes "hands_out c q m l c'" "other_queue c q c'" "copies c (msg_id m) \<le> 1"
  shows "copies c' x = copies c x"
proof -
  have "occurs (file_queue c q) (msg_id m) \<le> 1"
    using assms(3) by (simp add: copies_split [of _ _ q])
  then show ?thesis
    using assms(1) copies_move [OF assms(2), of x]
    by (auto simp: hands_out_def occurs_def split: if_splits)
qed

lemma copies_release:
  assumes "releases c q y l c'" "other_queue c q c'"
  shows "copies c' x + (if x = y \<and> l = None then 1 else 0) = copies c x"
  using assms(1) copies_move [OF assms(2), of x]
  by (auto simp: releases_def occurs_def split: if_splits)

lemma issued_mono: "file_seq c \<le> file_seq c' \<Longrightarrow> issued c x \<Longrightarrow> issued c' x"
  by (auto simp: issued_def)

lemma not_issued_next: "0 \<le> file_seq c \<Longrightarrow> \<not> issued c (format_int (file_seq c + 1))"
  by (auto simp: issued_def format_int_inj)

lemma same_queues_copies: "same_queues c c' \<Longrightarrow> copies c' x = copies c x"
  by (simp add: same_queues_def copies_split [of _ _ queue_default])

lemma format_int_not_Nil [simp]: "format_int n \<noteq> []"
  by (simp add: format_int_def)

lemma queue_inv_keys: "queue_inv c \<Longrightarrow> fq_inflight (file_queue c q) [] = None"
proof (rule ccontr)
  assume inv: "queue_inv c" and "fq_inflight (file_queue c q) [] \<noteq> None"
  then have "0 < copies c []"
    by (auto simp: copies_split [of _ _ q] occurs_def)
  with inv have "issued c []" by (simp add: queue_inv_def)
  then show False unfolding issued_def by (metis format_int_not_Nil)
qed

lemma fresh_no_copies: "queue_inv c \<Longrightarrow> copies c (format_int (file_seq c + 1)) = 0"
  using not_issued_next by (auto simp: queue_inv_def)

lemma keyed_step:
  assumes "other_queue c q c'"
    and "\<And>x l. fq_inflight (file_queue c' q) x = Some l \<Longrightarrow> msg_id (lease_message l) = x"
    and "finite (dom (fq_inflight (file_queue c' q)))"
    and "\<forall>q x l. fq_inflight (file_queue c q) x = Some l \<longrightarrow> msg_id (lease_message l) = x"
    and "\<forall>q. finite (dom (fq_inflight (file_queue c q)))"
  shows "(\<forall>q x l. fq_inflight (file_queue c' q) x = Some l \<longrightarrow> msg_id (lease_message l) = x) \<and>
         (\<forall>q. finite (dom (fq_inflight (file_queue c' q))))"
proof -
  have "file_queue c' q' = file_queue c' q \<or> file_queue c' q' = file_queue c q'" for q'
    using assms(1) by (cases "(q' = queue_embedding) = (q = queue_embedding)")
      (auto simp: other_queue_def file_queue_def)
  then show ?thesis using assms by metis
qed

lemma queue_inv_append:
  assumes "queue_inv c" "appends c q m rel c'" "other_queue c q c'"
    "\<And>y. rel = Some y \<Longrightarrow> fq_inflight (file_queue c q) y \<noteq> None"
  shows "queue_inv c'"
proof -
  have seq: "file_seq c' = file_seq c + 1" "msg_id m = format_int (file_seq c + 1)"
    using assms(2) by (auto simp: appends_def)
  have "copies c' x \<le> 1 \<and> (0 < copies c' x \<longrightarrow> issued c' x)" for x
  proof (cases "x = msg_id m")
    case True
    have "issued c' x"
      using assms(1) by (auto simp: issued_def seq True queue_inv_def intro!: exI [of _ "file_seq c + 1"])
    with copies_append [OF assms(2-4), of x] fresh_no_copies [OF assms(1)] show ?thesis
      by (simp add: True seq split: if_splits)
  next
    case False
    with copies_append [OF assms(2-4), of x] have "copies c' x \<le> copies c x"
      by (auto split: if_splits)
    moreover have "copies c x \<le> 1" "0 < copies c x \<Longrightarrow> issued c x"
      using assms(1) by (simp_all add: queue_inv_def)
    ultimately show ?thesis
      using issued_mono [of c c' x] seq(1) by fastforce
  qed
  moreover have "(\<forall>q x l. fq_inflight (file_queue c' q) x = Some l \<longrightarrow> msg_id (lease_message l) = x) \<and>
      (\<forall>q. finite (dom (fq_inflight (file_queue c' q))))"
    using assms(1,2)
    by (intro keyed_step [OF assms(3)])
      (auto simp: appends_def queue_inv_def split: option.splits if_splits)
  ultimately show ?thesis
    using assms(1) seq(1) by (auto simp: queue_inv_def)
qed

lemma queue_inv_hand:
  assumes "queue_inv c" "hands_out c q m l c'" "other_queue c q c'"
  shows "queue_inv c'"
proof -
  have "copies c (msg_id m) \<le> 1" using assms(1) by (simp add: queue_inv_def)
  note same = copies_hand [OF assms(2,3) this]
  have "(\<forall>q x l. fq_inflight (file_queue c' q) x = Some l \<longrightarrow> msg_id (lease_message l) = x) \<and>
      (\<forall>q. finite (dom (fq_inflight (file_queue c' q))))"
    using assms(1,2)
    by (intro keyed_step [OF assms(3)]) (auto simp: hands_out_def queue_inv_def split: if_splits)
  then show ?thesis
    using assms(1,2) same by (auto simp: queue_inv_def hands_out_def issued_def)
qed

lemma queue_inv_release:
  assumes "queue_inv c" "releases c q y l c'" "other_queue c q c'"
  shows "queue_inv c'"
proof -
  have "copies c' x \<le> copies c x" for x
    using copies_release [OF assms(2,3), of x] by (simp split: if_splits)
  then have "copies c' x \<le> 1 \<and> (0 < copies c' x \<longrightarrow> issued c' x)" for x
    using assms(1,2) issued_mono [of c c' x]
    by (auto simp: queue_inv_def releases_def) (meson le_trans less_le_trans)+
  moreover have "(\<forall>q x l. fq_inflight (file_queue c' q) x = Some l \<longrightarrow> msg_id (lease_message l) = x) \<and>
      (\<forall>q. finite (dom (fq_inflight (file_queue c' q))))"
    using assms(1,2)
    by (intro keyed_step [OF assms(3)]) (auto simp: releases_def queue_inv_def split: if_splits)
  ultimately show ?thesis
    using assms(1,2) by (auto simp: queue_inv_def releases_def)
qed

lemma queue_inv_step:
  assumes "queue_inv c" "queue_step c (x, now, call) = (r, c')"
  shows "queue_inv c'"
  using step_moves [OF assms(2) queue_inv_keys [OF assms(1)]]
proof (elim disjE)
  assume "unmoved c call r c'"
  with assms(1) show ?thesis
    using same_queues_copies [of c c']
    by (simp add: unmoved_def queue_inv_def) (simp add: same_queues_def issued_def)
next
  assume "appended c call r c'"
  with assms(1) show ?thesis by (auto simp: appended_def intro: queue_inv_append)
next
  assume "moved_back c call r c'"
  with assms(1) show ?thesis by (auto simp: moved_back_def intro: queue_inv_append)
next
  assume "handed_out c now call r c'"
  with assms(1) show ?thesis by (auto simp: handed_out_def intro: queue_inv_hand)
next
  assume "rewritten c now call r c'"
  with assms(1) show ?thesis by (auto simp: rewritten_def intro: queue_inv_release)
next
  assume "dropped c call r c'"
  with assms(1) show ?thesis by (auto simp: dropped_def intro: queue_inv_release)
qed

lemma new_cache_queues [simp]:
  "fq_queue (file_queue new_cache q) = []" "fq_inflight (file_queue new_cache q) = Map.empty"
  "file_seq new_cache = 0"
  by (simp_all add: file_queue_def new_cache_def new_file_queue_state_def)

lemma queue_inv_new [simp]: "queue_inv new_cache"
  by (simp add: queue_inv_def copies_split [of _ _ queue_default] occurs_def)

section \<open>Completion\<close>

text \<open>Once an issued message has left the queues, it never comes back.\<close>

definition gone :: "cache \<Rightarrow> string \<Rightarrow> bool" where
  "gone c y \<longleftrightarrow> issued c y \<and> copies c y = 0"

lemma step_effect:
  assumes "queue_inv c" "queue_step c (x, now, call) = (r, c')"
  shows "gone c y \<Longrightarrow> gone c' y \<and> completes call r \<noteq> Some y"
    and "completes call r = Some y \<Longrightarrow> gone c' y"
proof -
  have leased: "0 < copies c y" if "fq_inflight (file_queue c q) y = Some l" for q y l
    using that by (simp add: copies_split [of _ _ q] occurs_def)
  have iss: "issued c y" if "fq_inflight (file_queue c q) y = Some l" for q y l
    using leased [OF that] assms(1) by (simp add: queue_inv_def)
  have app: "copies c' y = 0 \<and> issued c' y"
    if a: "appends c q m rel c'" "other_queue c q c'" "\<And>z. rel = Some z \<Longrightarrow> fq_inflight (file_queue c q) z \<noteq> None"
      and g: "gone c y \<or> rel = Some y" for q m rel y
  proof -
    have "issued c y"
      using g a(3) iss by (auto simp: gone_def)
    moreover have "\<not> issued c (msg_id m)"
      using a(1) not_issued_next [of c] assms(1) by (simp add: appends_def queue_inv_def)
    moreover have "copies c y \<le> 1" using assms(1) by (simp add: queue_inv_def)
    ultimately show ?thesis
      using copies_append [OF a, of y] g a(1) issued_mono [of c c' y]
      by (auto simp: gone_def appends_def split: if_splits)
  qed
  have rel: "copies c' y = 0 \<and> issued c' y"
    if a: "releases c q z l c'" "other_queue c q c'" and g: "gone c y \<or> y = z \<and> l = None" for q z l y
  proof -
    have "issued c y" using g a(1) iss by (auto simp: gone_def releases_def)
    moreover have "copies c y \<le> 1" using assms(1) by (simp add: queue_inv_def)
    ultimately show ?thesis
      using copies_release [OF a, of y] g a(1) issued_mono [of c c' y]
      by (auto simp: gone_def releases_def split: if_splits)
  qed
  note moves = step_moves [OF assms(2) queue_inv_keys [OF assms(1)]]
  show "gone c' y" if fin: "completes call r = Some y"
  proof -
    from moves fin have "moved_back c call r c' \<or> dropped c call r c'"
      by (auto simp: step_kinds)
    then show ?thesis
    proof
      assume "moved_back c call r c'"
      then obtain q m l where "appends c q m (Some y) c'" "other_queue c q c'"
          "fq_inflight (file_queue c q) y = Some l"
        using fin by (auto simp: moved_back_def)
      with app [of q m "Some y" y] show ?thesis by (simp add: gone_def)
    next
      assume "dropped c call r c'"
      then obtain q where "releases c q y None c'" "other_queue c q c'"
        using fin by (auto simp: dropped_def)
      with rel [of q y None y] show ?thesis by (simp add: gone_def)
    qed
  qed
  show "gone c' y \<and> completes call r \<noteq> Some y" if g: "gone c y"
    using moves
  proof (elim disjE)
    assume "unmoved c call r c'"
    with g show ?thesis
      by (auto simp: unmoved_def gone_def same_queues_copies) (auto simp: same_queues_def issued_def)
  next
    assume k: "handed_out c now call r c'"
    then obtain q m l where a: "hands_out c q m l c'" "other_queue c q c'"
      by (auto simp: handed_out_def)
    have "copies c (msg_id m) \<le> 1" using assms(1) by (simp add: queue_inv_def)
    with copies_hand [OF a this, of y] g a(1) k show ?thesis
      by (simp add: gone_def hands_out_def issued_def handed_out_def)
  next
    assume "appended c call r c'"
    with g app [where rel = None and y = y] show ?thesis by (auto simp: appended_def gone_def)
  next
    assume "moved_back c call r c'"
    then obtain q m z l where a: "appends c q m (Some z) c'" "other_queue c q c'"
        "fq_inflight (file_queue c q) z = Some l" "completes call r = Some z"
      by (auto simp: moved_back_def)
    with app [of q m "Some z" y] leased [OF a(3)] g show ?thesis by (auto simp: gone_def)
  next
    assume "rewritten c now call r c'"
    with g rel [where y = y] show ?thesis by (auto simp: rewritten_def gone_def)
  next
    assume "dropped c call r c'"
    then obtain q z where a: "releases c q z None c'" "other_queue c q c'" "completes call r = Some z"
      by (auto simp: dropped_def)
    then obtain l where "fq_inflight (file_queue c q) z = Some l"
      by (auto simp: releases_def)
    with rel [OF a(1,2), of y] leased [of q z l] a(3) g show ?thesis by (auto simp: gone_def)
  qed
qed

lemma queue_run_Cons:
  "queue_run c ((x, now, call) # h) =
     (let (r, c') = queue_step c (x, now, call) in (r # fst (queue_run c' h), snd (queue_run c' h)))"
  by (simp add: case_prod_beta)

lemma queue_inv_run: "queue_inv c \<Longrightarrow> queue_inv (snd (queue_run c h))"
proof (induction h arbitrary: c)
  case (Cons e h)
  obtain x now call where e: "e = (x, now, call)" by (cases e)
  obtain r c' where s: "queue_step c e = (r, c')" by fastforce
  with queue_inv_step [OF Cons.prems, of x now call r c'] Cons.IH [of c'] show ?case
    by (simp add: e case_prod_beta)
qed simp

text \<open>The calls of a history that completed the message \<open>y\<close>, and the successful completions.\<close>

definition completions :: "string \<Rightarrow> (bool \<times> time \<times> queue_call) list \<Rightarrow> queue_result list \<Rightarrow> nat" where
  "completions y h rs =
     length (filter (\<lambda>((x, now, call), r). completes call r = Some y) (zip h rs))"

lemma completions_gone:
  assumes "queue_inv c" "gone c y"
  shows "completions y h (fst (queue_run c h)) = 0"
  using assms
proof (induction h arbitrary: c)
  case Nil
  then show ?case by (simp add: completions_def)
next
  case (Cons e h)
  obtain x now call where e: "e = (x, now, call)" by (cases e)
  obtain r c' where s: "queue_step c (x, now, call) = (r, c')" by fastforce
  from Cons.IH [OF queue_inv_step [OF Cons.prems(1) s]] step_effect(1) [OF Cons.prems(1) s Cons.prems(2)]
  show ?case by (simp add: e s completions_def case_prod_beta)
qed

text \<open>
  C14. A message is completed at most once: over any history of calls on the two queues, by any
  consumers, with any clocks, at most one settlement, requeue or dead-lettering of an identifier
  succeeds. A consumer whose lease was reclaimed and finished by another can no longer act on it.
\<close>

theorem message_completed_once:
  "completions y h (fst (queue_run new_cache h)) \<le> 1"
proof -
  have "completions y h (fst (queue_run c h)) \<le> 1" if "queue_inv c" for c
    using that
  proof (induction h arbitrary: c)
    case Nil
    then show ?case by (simp add: completions_def)
  next
    case (Cons e h)
    obtain x now call where e: "e = (x, now, call)" by (cases e)
    obtain r c' where s: "queue_step c (x, now, call) = (r, c')" by fastforce
    note inv = queue_inv_step [OF Cons.prems s]
    show ?case
    proof (cases "completes call r = Some y")
      case True
      from completions_gone [OF inv step_effect(2) [OF Cons.prems s True], of h] True show ?thesis
        by (simp add: e s completions_def case_prod_beta)
    next
      case False
      with Cons.IH [OF inv] show ?thesis
        by (simp add: e s completions_def case_prod_beta)
    qed
  qed
  then show ?thesis by simp
qed

section \<open>Conservation\<close>

text \<open>
  What a queue is for its users: the messages that wait or are leased, each with all of its fields but the mark of a
  reclaim, and the dead letters. Who holds which message, since when, and in which order they wait is left out.
\<close>

definition plain :: "file_message \<Rightarrow> file_message" where
  "plain m = m\<lparr>msg_reclaimed := False\<rparr>"

definition leased :: "(string \<rightharpoonup> file_lease) \<Rightarrow> file_message multiset" where
  "leased inflight = image_mset (\<lambda>x. plain (lease_message (the (inflight x)))) (mset_set (dom inflight))"

definition contents :: "file_queue_state \<Rightarrow> file_message multiset" where
  "contents s = image_mset plain (mset (fq_queue s)) + leased (fq_inflight s)"

record queue_spec =
  spec_seq :: int
  spec_bag :: "bool \<Rightarrow> file_message multiset"
  spec_dead :: "bool \<Rightarrow> file_message list"

definition empty_spec :: queue_spec where
  "empty_spec = \<lparr>spec_seq = 0, spec_bag = (\<lambda>_. {#}), spec_dead = (\<lambda>_. [])\<rparr>"

definition is_embedding :: "queue_name \<Rightarrow> bool" where
  "is_embedding q \<longleftrightarrow> q = queue_embedding"

text \<open>The specification: a message comes under the next number, and goes by its identifier.\<close>

definition spec_add :: "queue_name \<Rightarrow> (string \<Rightarrow> file_message) \<Rightarrow> queue_spec \<Rightarrow> queue_spec" where
  "spec_add q m b = b\<lparr>spec_seq := spec_seq b + 1,
     spec_bag := (spec_bag b)(is_embedding q := add_mset (m (format_int (spec_seq b + 1))) (spec_bag b (is_embedding q)))\<rparr>"

definition spec_remove :: "file_message \<Rightarrow> queue_spec \<Rightarrow> queue_spec" where
  "spec_remove m b = b\<lparr>spec_bag := (spec_bag b)(is_embedding (queue_for_message m) :=
     {#x \<in># spec_bag b (is_embedding (queue_for_message m)). msg_id x \<noteq> trim_space (msg_id m)#})\<rparr>"

definition spec_bury :: "file_message \<Rightarrow> string \<Rightarrow> queue_spec \<Rightarrow> queue_spec" where
  "spec_bury m e b = b\<lparr>spec_seq := spec_seq b + 1,
     spec_dead := (spec_dead b)(is_embedding (queue_for_message m) := spec_dead b (is_embedding (queue_for_message m)) @
       [moved_message (''dlq-'' @ format_int (spec_seq b + 1)) m (msg_retry m) e])\<rparr>"

definition accepted_message :: "file_message \<Rightarrow> string \<Rightarrow> file_message" where
  "accepted_message m mid = m\<lparr>msg_id := mid, msg_file_id := trim_space (msg_file_id m),
     msg_last_error := truncate_file_queue_error (msg_last_error m)\<rparr>"

definition embedding_message :: "nat \<Rightarrow> string \<Rightarrow> string \<Rightarrow> string \<Rightarrow> file_message" where
  "embedding_message u f s h =
     \<lparr>msg_id = [], msg_user_id = u, msg_file_id = trim_space f, msg_retry = 0, msg_last_error = [],
      msg_reclaimed = False, msg_kind = kind_embedding, msg_queue = queue_embedding,
      msg_embedding_signature = trim_space s, msg_embedding_host = trim_right_slash (trim_space h)\<rparr>"

fun spec_step :: "queue_call \<Rightarrow> queue_result \<Rightarrow> queue_spec \<Rightarrow> queue_spec" where
  "spec_step (Enqueue_processing u f r e) Q_done b =
     (if trim_space f = [] then b else spec_add queue_default (accepted_message (processing_message u f r e)) b)"
| "spec_step (Enqueue_embedding u f s h) Q_done b =
     spec_add queue_embedding (accepted_message (embedding_message u f s h)) b"
| "spec_step (Settle cn m) (Q_flag True) b = spec_remove m b"
| "spec_step (Requeue cn m r e) (Q_flag True) b =
     spec_add (queue_for_message m) (\<lambda>mid. moved_message mid m r e) (spec_remove m b)"
| "spec_step (Dead_letter cn m e) (Q_flag True) b = spec_bury m e (spec_remove m b)"
| "spec_step call res b = b"

text \<open>A message that is handed out is one of the queue's.\<close>

fun hand_ok :: "queue_call \<Rightarrow> queue_result \<Rightarrow> queue_spec \<Rightarrow> bool" where
  "hand_ok (Read cn q) (Q_messages ms) b \<longleftrightarrow> (\<forall>m \<in> set ms. plain m \<in># spec_bag b (is_embedding q))"
| "hand_ok (Claim cn q ids) (Q_messages ms) b \<longleftrightarrow> (\<forall>m \<in> set ms. plain m \<in># spec_bag b (is_embedding q))"
| "hand_ok call res b \<longleftrightarrow> True"

fun spec_run :: "queue_spec \<Rightarrow> (bool \<times> time \<times> queue_call) list \<Rightarrow> queue_result list \<Rightarrow> bool \<times> queue_spec" where
  "spec_run b ((x, now, call) # h) (r # rs) =
     (let (ok, b') = spec_run (spec_step call r b) h rs in (hand_ok call r b \<and> ok, b'))"
| "spec_run b h rs = (True, b)"

definition meets_spec :: "cache \<Rightarrow> queue_spec \<Rightarrow> bool" where
  "meets_spec c b \<longleftrightarrow> file_seq c = spec_seq b \<and>
     (\<forall>q. contents (file_queue c q) = spec_bag b (is_embedding q) \<and>
          fq_dlq (file_queue c q) = keep_last max_dead_letters (spec_dead b (is_embedding q)))"

subsection \<open>The leases as a multiset\<close>

lemma leased_upd:
  assumes "finite (dom f)"
  shows "leased (f(x \<mapsto> l)) = add_mset (plain (lease_message l)) (leased (f(x := None)))"
proof -
  have "dom (f(x \<mapsto> l)) = insert x (dom (f(x := None)))" by auto
  moreover have "image_mset (\<lambda>y. plain (lease_message (the ((f(x \<mapsto> l)) y)))) (mset_set (dom (f(x := None)))) =
      image_mset (\<lambda>y. plain (lease_message (the ((f(x := None)) y)))) (mset_set (dom (f(x := None))))"
    using assms by (intro image_mset_cong) auto
  ultimately show ?thesis using assms by (simp add: leased_def mset_set.insert_remove)
qed

lemma leased_split:
  "finite (dom f) \<Longrightarrow> f x = Some l \<Longrightarrow> leased f = add_mset (plain (lease_message l)) (leased (f(x := None)))"
  using leased_upd [of f x l] by (simp add: fun_upd_idem)

lemma leased_new: "finite (dom f) \<Longrightarrow> f x = None \<Longrightarrow> leased (f(x \<mapsto> l)) = add_mset (plain (lease_message l)) (leased f)"
  by (simp add: leased_upd fun_upd_idem)

lemma leased_again:
  "finite (dom f) \<Longrightarrow> f x = Some l \<Longrightarrow> plain (lease_message l') = plain (lease_message l) \<Longrightarrow> leased (f(x \<mapsto> l')) = leased f"
  by (simp add: leased_upd leased_split [of f x l])

lemma plain_id [simp]: "msg_id (plain m) = msg_id m"
  by (simp add: plain_def)

lemma leased_ids:
  assumes "finite (dom f)" "\<And>y l. f y = Some l \<Longrightarrow> msg_id (lease_message l) = y" "m \<in># leased f"
  shows "f (msg_id m) \<noteq> None"
  using assms by (auto simp: leased_def)

text \<open>Taking a leased message out by its identifier.\<close>

lemma contents_remove:
  assumes inv: "queue_inv c" and l: "fq_inflight (file_queue c q) x = Some l"
  shows "{#m \<in># contents (file_queue c q). msg_id m \<noteq> x#} =
    image_mset plain (mset (fq_queue (file_queue c q))) + leased ((fq_inflight (file_queue c q))(x := None))"
proof -
  let ?s = "file_queue c q"
  have fin: "finite (dom (fq_inflight ?s))" using inv by (simp add: queue_inv_def)
  have keyed: "msg_id (lease_message l') = y" if "fq_inflight ?s y = Some l'" for y l'
    using inv that by (auto simp: queue_inv_def)
  have "x \<notin> set (map msg_id (fq_queue ?s))"
  proof -
    have "copies c x \<le> 1" using inv by (simp add: queue_inv_def)
    then show ?thesis
      using l by (auto simp: copies_split [of _ _ q] occurs_def count_list_0_iff)
  qed
  then have "{#m \<in># image_mset plain (mset (fq_queue ?s)). msg_id m \<noteq> x#} = image_mset plain (mset (fq_queue ?s))"
    by (auto intro!: filter_mset_eq_conv [THEN iffD2])
  moreover have "{#m \<in># leased ((fq_inflight ?s)(x := None)). msg_id m \<noteq> x#} = leased ((fq_inflight ?s)(x := None))"
    using leased_ids [of "(fq_inflight ?s)(x := None)"] fin keyed
    by (fastforce intro!: filter_mset_eq_conv [THEN iffD2] split: if_splits)
  ultimately show ?thesis
    using keyed [OF l] by (simp add: contents_def leased_split [OF fin l])
qed

lemma keep_last_again: "keep_last n (keep_last n xs @ [x]) = keep_last n (xs @ [x])"
proof (cases "n < length xs")
  case True
  then show ?thesis by (simp add: keep_last_def Suc_diff_le)
next
  case False
  then show ?thesis by (simp add: keep_last_def)
qed

subsection \<open>Every call does what the specification says\<close>

lemma meets_update:
  assumes "meets_spec c b" "\<And>p. file_queue c' p = (if is_embedding p = is_embedding q then s else file_queue c p)"
    and "file_seq c' = spec_seq b'" "spec_bag b' = (spec_bag b)(is_embedding q := contents s)"
    and "spec_dead b' = (spec_dead b)(is_embedding q := d)" "fq_dlq s = keep_last max_dead_letters d"
  shows "meets_spec c' b'"
  using assms by (auto simp: meets_spec_def)

lemma meets_same:
  assumes "meets_spec c b" "file_seq c' = file_seq c" "\<And>p. file_queue c' p = file_queue c p"
  shows "meets_spec c' b"
  using assms by (simp add: meets_spec_def)

lemma meets_bag: "meets_spec c b \<Longrightarrow> spec_bag b (is_embedding q) = contents (file_queue c q)"
  by (simp add: meets_spec_def)

lemma meets_dead: "meets_spec c b \<Longrightarrow> fq_dlq (file_queue c q) = keep_last max_dead_letters (spec_dead b (is_embedding q))"
  by (simp add: meets_spec_def)

lemma meets_seq: "meets_spec c b \<Longrightarrow> spec_seq b = file_seq c"
  by (simp add: meets_spec_def)

lemmas meets_fields = meets_bag meets_bag [unfolded is_embedding_def] meets_dead [unfolded is_embedding_def] meets_seq

lemma meets_keep:
  assumes "meets_spec c b" "\<And>p. file_queue c' p = (if is_embedding p = is_embedding q then s else file_queue c p)"
    and "file_seq c' = file_seq c" "contents s = contents (file_queue c q)" "fq_dlq s = fq_dlq (file_queue c q)"
  shows "meets_spec c' b"
  using assms by (auto simp: meets_spec_def)

lemma enqueue_meets:
  assumes "meets_spec c b" "enqueue_file_message c x m now = (r, c')" "\<not> msg_reclaimed m"
  shows "meets_spec c' (if r = Inr () \<and> trim_space (msg_file_id m) \<noteq> []
    then spec_add (msg_queue m) (accepted_message m) b else b)"
proof -
  let ?q = "msg_queue m" and ?m = "accepted_message m (format_int (file_seq c + 1))"
  let ?s = "(file_queue c ?q)\<lparr>fq_queue := fq_queue (file_queue c ?q) @ [?m], fq_notify := next_chan c\<rparr>"
  have "plain ?m = ?m" using assms(3) by (simp add: plain_def accepted_message_def)
  then have bag: "contents ?s = add_mset ?m (contents (file_queue c ?q))"
    by (simp add: contents_def)
  show ?thesis
  proof (cases "r = Inr () \<and> trim_space (msg_file_id m) \<noteq> []")
    case True
    have "meets_spec c' (spec_add ?q (accepted_message m) b)"
      by (rule meets_update [OF assms(1), of _ ?q ?s])
        (use assms(2) True in \<open>auto simp: enqueue_file_message_def Let_def is_embedding_def spec_add_def
          bag [unfolded accepted_message_def] accepted_message_def meets_fields [OF assms(1)] split: if_splits\<close>)
    then show ?thesis using True by simp
  next
    case False
    then have "meets_spec c' b"
      using assms(2) by (intro meets_same [OF assms(1)]) (auto simp: enqueue_file_message_def Let_def split: if_splits)
    then show ?thesis using False by auto
  qed
qed

lemma remove_meets:
  assumes inv: "queue_inv c" and meets: "meets_spec c b" and l: "held_lease c cn m = Some l"
  shows "contents ((file_queue c (queue_for_message m))\<lparr>fq_inflight :=
      (fq_inflight (file_queue c (queue_for_message m)))(trim_space (msg_id m) := None)\<rparr>) =
    spec_bag (spec_remove m b) (is_embedding (queue_for_message m))"
  using contents_remove [OF inv held_leaseD [OF l]]
  by (simp add: spec_remove_def meets_bag [OF meets] contents_def)

lemma contents_fields [simp]:
  "contents (s\<lparr>fq_notify := n\<rparr>) = contents s"
  "contents (s\<lparr>fq_dlq := d\<rparr>) = contents s"
  by (simp_all add: contents_def)

lemma settle_meets:
  assumes "queue_inv c" "meets_spec c b" "settle_message c x cn m now = (r, c')"
  shows "meets_spec c' (if r = Inr True then spec_remove m b else b)"
proof (cases "x \<or> held_lease c cn m = None")
  case True
  then show ?thesis using assms(2,3) by (cases x) (auto simp: settle_message_def)
next
  case False
  then obtain l where l: "held_lease c cn m = Some l" by auto
  let ?s = "(file_queue c (queue_for_message m))\<lparr>fq_inflight :=
    (fq_inflight (file_queue c (queue_for_message m)))(trim_space (msg_id m) := None)\<rparr>"
  have "meets_spec c' (spec_remove m b)"
    by (rule meets_update [OF assms(2), of _ "queue_for_message m" ?s])
      (use assms(3) False l in \<open>auto simp: settle_message_def Let_def is_embedding_def
        remove_meets [OF assms(1,2) l] spec_remove_def meets_fields [OF assms(2)]\<close>)
  then show ?thesis using assms(3) False l by (auto simp: settle_message_def Let_def)
qed

lemma requeue_meets:
  assumes "queue_inv c" "meets_spec c b" "requeue_message c x cn m rt e now = (r, c')"
  shows "meets_spec c' (if r = Inr True
    then spec_add (queue_for_message m) (\<lambda>mid. moved_message mid m rt e) (spec_remove m b) else b)"
proof (cases "x \<or> held_lease c cn m = None")
  case True
  then show ?thesis using assms(2,3) by (cases x) (auto simp: requeue_message_def)
next
  case False
  then obtain l where l: "held_lease c cn m = Some l" by auto
  let ?q = "queue_for_message m" and ?m = "moved_message (format_int (file_seq c + 1)) m rt e"
  let ?s = "(file_queue c ?q)\<lparr>fq_queue := fq_queue (file_queue c ?q) @ [?m], fq_inflight :=
    (fq_inflight (file_queue c ?q))(trim_space (msg_id m) := None), fq_notify := next_chan c\<rparr>"
  have "plain ?m = ?m" by (simp add: plain_def moved_message_def)
  then have bag: "contents ?s = add_mset ?m (spec_bag (spec_remove m b) (is_embedding ?q))"
    using remove_meets [OF assms(1,2) l] by (simp add: contents_def)
  have "meets_spec c' (spec_add ?q (\<lambda>mid. moved_message mid m rt e) (spec_remove m b))"
    by (rule meets_update [OF assms(2), of _ ?q ?s])
      (use assms(3) False l bag in \<open>auto simp: requeue_message_def Let_def is_embedding_def
        spec_add_def spec_remove_def meets_fields [OF assms(2)]\<close>)
  then show ?thesis using assms(3) False l by (auto simp: requeue_message_def Let_def)
qed

lemma dead_letter_meets:
  assumes "queue_inv c" "meets_spec c b" "dead_letter_message c x cn m e now = (r, c')"
  shows "meets_spec c' (if r = Inr True then spec_bury m e (spec_remove m b) else b)"
proof (cases "x \<or> held_lease c cn m = None")
  case True
  then show ?thesis using assms(2,3) by (cases x) (auto simp: dead_letter_message_def)
next
  case False
  then obtain l where l: "held_lease c cn m = Some l" by auto
  let ?q = "queue_for_message m"
  let ?d = "moved_message (''dlq-'' @ format_int (file_seq c + 1)) m (msg_retry m) e"
  let ?s = "(file_queue c ?q)\<lparr>fq_dlq := keep_last max_dead_letters (fq_dlq (file_queue c ?q) @ [?d]), fq_inflight :=
    (fq_inflight (file_queue c ?q))(trim_space (msg_id m) := None)\<rparr>"
  have bag: "contents ?s = spec_bag (spec_remove m b) (is_embedding ?q)"
    using remove_meets [OF assms(1,2) l] by (simp add: contents_def)
  have "meets_spec c' (spec_bury m e (spec_remove m b))"
    by (rule meets_update [OF assms(2), of _ ?q ?s _ "spec_dead b (is_embedding ?q) @ [?d]"])
      (use assms(3) False l bag in \<open>auto simp: dead_letter_message_def Let_def is_embedding_def keep_last_again
        spec_bury_def spec_remove_def meets_fields [OF assms(2)]\<close>)
  then show ?thesis using assms(3) False l by (auto simp: dead_letter_message_def Let_def)
qed

lemma renew_meets:
  assumes "queue_inv c" "meets_spec c b" "renew_lease c x cn m now = (r, c')"
  shows "meets_spec c' b"
proof (cases "x \<or> held_lease c cn m = None")
  case True
  then show ?thesis using assms(2,3) by (cases x) (auto simp: renew_lease_def)
next
  case False
  then obtain l where l: "held_lease c cn m = Some l" by auto
  let ?q = "queue_for_message m"
  let ?s = "(file_queue c ?q)\<lparr>fq_inflight := (fq_inflight (file_queue c ?q))(trim_space (msg_id m) \<mapsto> l\<lparr>leased_at := now\<rparr>)\<rparr>"
  have "contents ?s = contents (file_queue c ?q)"
    using leased_again [where f = "fq_inflight (file_queue c ?q)", OF _ held_leaseD [OF l]] assms(1)
    by (simp add: contents_def queue_inv_def)
  then show ?thesis
    by (intro meets_keep [OF assms(2), of _ ?q ?s])
      (use assms(3) False l in \<open>auto simp: renew_lease_def Let_def is_embedding_def\<close>)
qed

lemma read_meets:
  assumes "queue_inv c" "meets_spec c b" "read_attempt c cn q now = (r, c')"
  shows "meets_spec c' b \<and> (\<forall>m. r = Inl m \<longrightarrow> plain m \<in># spec_bag b (is_embedding q))"
proof (cases "fq_queue (file_queue c q)")
  case Nil
  then show ?thesis using assms(2,3) by (auto simp: read_attempt_def Let_def)
next
  case (Cons m rest)
  let ?l = "\<lparr>consumer_name = trim_space cn, leased_at = now, lease_message = m\<rparr>"
  let ?s = "(file_queue c q)\<lparr>fq_queue := rest, fq_inflight := (fq_inflight (file_queue c q))(msg_id m \<mapsto> ?l)\<rparr>"
  have "copies c (msg_id m) \<le> 1" using assms(1) by (simp add: queue_inv_def)
  then have "fq_inflight (file_queue c q) (msg_id m) = None"
    using Cons by (auto simp: copies_split [of _ _ q] occurs_def split: if_splits)
  then have bag: "contents ?s = contents (file_queue c q)"
    using leased_new [of "fq_inflight (file_queue c q)" "msg_id m" ?l] assms(1) Cons
    by (simp add: contents_def queue_inv_def)
  have "meets_spec c' b"
    by (rule meets_keep [OF assms(2), of _ q ?s])
      (use assms(3) Cons bag in \<open>auto simp: read_attempt_def Let_def is_embedding_def\<close>)
  then show ?thesis
    using assms(3) Cons by (auto simp: read_attempt_def Let_def meets_bag [OF assms(2)] contents_def)
qed

lemma claim_meets:
  assumes "queue_inv c" "meets_spec c b" "claim_timed_out c x cn q ids now = (r, c')"
  shows "meets_spec c' b \<and> (\<forall>ms. r = Inr ms \<longrightarrow> (\<forall>m \<in> set ms. plain m \<in># spec_bag b (is_embedding q)))"
proof -
  let ?f = "fq_inflight (file_queue c q)"
  obtain mid best where o: "oldest_timed_out ?f now ids ([], None) = (mid, best)" by fastforce
  have "candidate_ok ?f now {} ([], None)" by (simp add: candidate_ok_def)
  from oldest_timed_out_ok [OF queue_inv_keys [OF assms(1)] this, of ids] o
  have ok: "candidate_ok ?f now (set ids) (mid, best)" by simp
  show ?thesis
  proof (cases "trim_space cn = [] \<or> x \<or> best = None")
    case True
    then show ?thesis using assms(2,3) o by (auto simp: claim_timed_out_def Let_def split: if_splits)
  next
    case False
    then obtain l where l: "best = Some l" by auto
    then have f: "?f mid = Some l" "mid \<noteq> []" using ok by (auto simp: candidate_ok_def)
    let ?m = "(lease_message l)\<lparr>msg_reclaimed := True\<rparr>"
    let ?l = "\<lparr>consumer_name = trim_space cn, leased_at = now, lease_message = ?m\<rparr>"
    let ?s = "(file_queue c q)\<lparr>fq_inflight := ?f(mid \<mapsto> ?l)\<rparr>"
    have fin: "finite (dom ?f)" using assms(1) by (simp add: queue_inv_def)
    have same: "plain ?m = plain (lease_message l)" by (simp add: plain_def)
    then have bag: "contents ?s = contents (file_queue c q)"
      using leased_again [OF fin f(1), of ?l] by (simp add: contents_def)
    have "meets_spec c' b"
      by (rule meets_keep [OF assms(2), of _ q ?s])
        (use assms(3) False o l f bag in \<open>auto simp: claim_timed_out_def Let_def is_embedding_def\<close>)
    then show ?thesis
      using assms(3) False o l f same leased_split [OF fin f(1)]
      by (auto simp: claim_timed_out_def Let_def meets_bag [OF assms(2)] contents_def)
  qed
qed

lemma message_fields [simp]:
  "msg_queue (processing_message u f rt e) = queue_default" "msg_file_id (processing_message u f rt e) = f"
  "\<not> msg_reclaimed (processing_message u f rt e)"
  "msg_queue (embedding_message u f s h) = queue_embedding" "msg_file_id (embedding_message u f s h) = trim_space f"
  "\<not> msg_reclaimed (embedding_message u f s h)"
  by (simp_all add: processing_message_def embedding_message_def)

lemma settle_kept: "r \<noteq> Q_flag True \<Longrightarrow> spec_step (Settle cn m) r b = b"
  by (cases "(Settle cn m, r, b)" rule: spec_step.cases) auto

lemma requeue_kept: "r \<noteq> Q_flag True \<Longrightarrow> spec_step (Requeue cn m rt e) r b = b"
  by (cases "(Requeue cn m rt e, r, b)" rule: spec_step.cases) auto

lemma dead_letter_kept: "r \<noteq> Q_flag True \<Longrightarrow> spec_step (Dead_letter cn m e) r b = b"
  by (cases "(Dead_letter cn m e, r, b)" rule: spec_step.cases) auto

lemmas spec_step_kept = settle_kept requeue_kept dead_letter_kept

lemma enqueue_processing_meets:
  assumes "meets_spec c b" "enqueue_file_processing c x u f rt e now = (r, c')"
  shows "meets_spec c' (if r = Inr () \<and> trim_space f \<noteq> []
    then spec_add queue_default (accepted_message (processing_message u f rt e)) b else b)"
  using enqueue_meets [OF assms(1) assms(2) [unfolded enqueue_file_processing_def]]
  by (auto split: if_splits)

lemma enqueue_embedding_meets:
  assumes "meets_spec c b" "enqueue_file_embedding c x u f s h now = (r, c')"
  shows "meets_spec c' (if r = Inr () then spec_add queue_embedding (accepted_message (embedding_message u f s h)) b else b)"
proof (cases "trim_space f = [] \<or> trim_space s = [] \<or> trim_right_slash (trim_space h) = []")
  case True
  then show ?thesis using assms by (auto simp: enqueue_file_embedding_def Let_def)
next
  case False
  then have "enqueue_file_message c x (embedding_message u f s h) now = (r, c')"
    using assms(2) by (simp add: enqueue_file_embedding_def Let_def embedding_message_def)
  from enqueue_meets [OF assms(1) this] show ?thesis using False by (simp split: if_splits)
qed

lemma step_meets:
  assumes inv: "queue_inv c" and meets: "meets_spec c b" and step: "queue_step c (x, now, call) = (r, c')"
  shows "meets_spec c' (spec_step call r b) \<and> hand_ok call r b"
proof (cases call)
  case (Enqueue_processing u f rt e)
  show ?thesis
    using step enqueue_processing_meets [OF meets, of x u f rt e now] unfolding Enqueue_processing
    by (fastforce simp: unit_result_eq)
next
  case (Enqueue_embedding u f s h)
  show ?thesis
    using step enqueue_embedding_meets [OF meets, of x u f s h now] unfolding Enqueue_embedding
    by (fastforce simp: unit_result_eq)
next
  case (Claim cn q ids)
  show ?thesis
    using step claim_meets [OF inv meets, of x cn q ids now] unfolding Claim
    by (auto split: prod.splits sum.splits)
next
  case (Read cn q)
  show ?thesis
    using step meets read_meets [OF inv meets, of cn q now] unfolding Read
    by (auto split: prod.splits sum.splits if_splits)
next
  case (Renew cn m)
  show ?thesis
    using step renew_meets [OF inv meets, of x cn m now] unfolding Renew by (auto simp: flag_result_eq)
next
  case (Settle cn m)
  obtain res where res: "settle_message c x cn m now = (res, c')" "r = Q_flag True \<longleftrightarrow> res = Inr True"
    using step Settle by (auto simp: flag_result_eq)
  show ?thesis
    using settle_meets [OF inv meets res(1)] res(2) unfolding Settle by (cases "r = Q_flag True") (auto simp: spec_step_kept)
next
  case (Requeue cn m rt e)
  obtain res where res: "requeue_message c x cn m rt e now = (res, c')" "r = Q_flag True \<longleftrightarrow> res = Inr True"
    using step Requeue by (auto simp: flag_result_eq)
  show ?thesis
    using requeue_meets [OF inv meets res(1)] res(2) unfolding Requeue by (cases "r = Q_flag True") (auto simp: spec_step_kept)
next
  case (Dead_letter cn m e)
  obtain res where res: "dead_letter_message c x cn m e now = (res, c')" "r = Q_flag True \<longleftrightarrow> res = Inr True"
    using step Dead_letter by (auto simp: flag_result_eq)
  show ?thesis
    using dead_letter_meets [OF inv meets res(1)] res(2) unfolding Dead_letter
    by (cases "r = Q_flag True") (auto simp: spec_step_kept)
next
  case Queue_upkeep
  then show ?thesis using step meets by (auto intro: meets_same)
qed

lemma run_meets:
  assumes "queue_inv c" "meets_spec c b"
  shows "fst (spec_run b h (fst (queue_run c h))) \<and> meets_spec (snd (queue_run c h)) (snd (spec_run b h (fst (queue_run c h))))"
  using assms
proof (induction h arbitrary: c b)
  case (Cons e h)
  obtain x now call where e: "e = (x, now, call)" by (cases e)
  obtain r c' where s: "queue_step c (x, now, call) = (r, c')" by fastforce
  from Cons.IH [OF queue_inv_step [OF Cons.prems(1) s]] step_meets [OF Cons.prems s]
  show ?case by (simp add: e s case_prod_beta)
qed simp

text \<open>
  C25. No message is lost, made up, doubled or changed. The two queues do, over any history, what a bag of messages does that knows
  nothing of leases, consumers, clocks or reclaims: what a queue holds, waiting or leased, is exactly the bag of the
  messages accepted, each under its own number and with the content it was accepted or requeued with, without those
  settled, requeued or dead-lettered by their identifier; the dead letters are the newest ten thousand of
  those dead-lettered; and every message that is handed out is one of the bag.
\<close>

theorem messages_conserved:
  "let c = snd (queue_run new_cache h); (handed_ok, b) = spec_run empty_spec h (fst (queue_run new_cache h))
   in handed_ok \<and>
      (\<forall>q. contents (file_queue c q) = spec_bag b (is_embedding q) \<and>
           fq_dlq (file_queue c q) = keep_last max_dead_letters (spec_dead b (is_embedding q)))"
proof -
  have "meets_spec new_cache empty_spec"
    by (simp add: meets_spec_def empty_spec_def contents_def leased_def keep_last_def)
      (simp add: file_queue_def new_cache_def new_file_queue_state_def)
  from run_meets [OF queue_inv_new this, of h] show ?thesis
    by (simp add: Let_def case_prod_beta meets_spec_def)
qed

section \<open>Reclaiming\<close>

lemma inflight_other:
  "other_queue c q c' \<Longrightarrow> file_queue c' q' = file_queue c q' \<or> file_queue c' q' = file_queue c' q \<and> file_queue c q' = file_queue c q"
  by (cases "(q' = queue_embedding) = (q = queue_embedding)") (auto simp: other_queue_def file_queue_def)

text \<open>
  A claim hands out exactly one message when some lease of the queue has been idle for the
  minimum time, and it is one whose lease is the oldest, whatever the order of the map; the lease
  passes to the claiming consumer at the time of the claim. It hands out nothing when no lease is
  idle.
\<close>

theorem claim_takes_oldest_idle:
  assumes "c = snd (queue_run new_cache h)" "trim_space cn \<noteq> []"
    and "set ids = dom (fq_inflight (file_queue c q))"
  shows "case claim_timed_out c False cn q ids now of
      (Inr [], c') \<Rightarrow>
        c' = c \<and> (\<forall>y l. fq_inflight (file_queue c q) y = Some l \<longrightarrow> \<not> idle now l)
    | (Inr [m], c') \<Rightarrow>
        (\<exists>l. fq_inflight (file_queue c q) (msg_id m) = Some l \<and> idle now l \<and>
           (\<forall>y l'. fq_inflight (file_queue c q) y = Some l' \<longrightarrow> idle now l' \<longrightarrow> leased_at l \<le> leased_at l') \<and>
           m = (lease_message l)\<lparr>msg_reclaimed := True\<rparr> \<and>
           fq_inflight (file_queue c' q) (msg_id m) =
             Some \<lparr>consumer_name = trim_space cn, leased_at = now, lease_message = m\<rparr>)
    | _ \<Rightarrow> False"
proof -
  have inv: "queue_inv c" using assms(1) queue_inv_run by simp
  obtain r c' where r: "claim_timed_out c False cn q ids now = (r, c')" by fastforce
  have keyed: "msg_id (lease_message l) = y" if "fq_inflight (file_queue c q) y = Some l" for y l
    using that inv by (simp add: queue_inv_def)
  have ids: "y \<in> set ids" if "fq_inflight (file_queue c q) y = Some l" for y l
    using that assms(3) by (simp add: domI)
  from claim_moves [OF r queue_inv_keys [OF inv]] show ?thesis
  proof (elim disjE exE conjE, goal_cases)
    case 1
    then show ?case by simp
  next
    case 2
    then show ?case using assms(2) by simp
  next
    case 3
    then show ?case using r ids by auto
  next
    case (4 mid l m)
    then have "msg_id m = mid" using keyed by simp
    with 4 r ids show ?case by (auto simp: releases_def)
  qed
qed

definition sample_queue_calls :: "(bool \<times> time \<times> queue_call) list" where
  "sample_queue_calls =
     [(False, second, Enqueue_processing 7 ''f1'' 0 []), (False, 2 * second, Read ''w1'' queue_default)]"

lemma sample_queue_state:
  "file_queue (snd (queue_run new_cache sample_queue_calls)) queue_default =
     \<lparr>fq_queue = [],
      fq_inflight = [''1'' \<mapsto> \<lparr>consumer_name = ''w1'', leased_at = 2 * second,
        lease_message = (processing_message 7 ''f1'' 0 [])\<lparr>msg_id := ''1''\<rparr>\<rparr>],
      fq_dlq = [], fq_notify = 3\<rparr>"
proof -
  have t: "trim_space ''w1'' = ''w1''" "trim_space ''f1'' = ''f1''"
      "truncate_file_queue_error [] = []" "format_int 1 = ''1''"
    by code_simp+
  show ?thesis
    by (simp add: sample_queue_calls_def t enqueue_file_processing_def enqueue_file_message_def
        read_attempt_def Let_def processing_message_def max_file_queue_length_def new_cache_def
        file_queue_def new_file_queue_state_def case_prod_beta next_seq_def put_file_queue_def
        notify_file_queue_def)
qed

theorem claim_takes_oldest_idle_witness:
  "case claim_timed_out (snd (queue_run new_cache sample_queue_calls)) False ''w2'' queue_default
      [''1''] (minute + 2 * second) of
      (Inr [], c') \<Rightarrow>
        c' = snd (queue_run new_cache sample_queue_calls) \<and>
        (\<forall>y l. fq_inflight (file_queue (snd (queue_run new_cache sample_queue_calls)) queue_default) y
            = Some l \<longrightarrow> \<not> idle (minute + 2 * second) l)
    | (Inr [m], c') \<Rightarrow>
        (\<exists>l. fq_inflight (file_queue (snd (queue_run new_cache sample_queue_calls)) queue_default)
             (msg_id m) = Some l \<and> idle (minute + 2 * second) l \<and>
           (\<forall>y l'. fq_inflight (file_queue (snd (queue_run new_cache sample_queue_calls)) queue_default) y
              = Some l' \<longrightarrow> idle (minute + 2 * second) l' \<longrightarrow> leased_at l \<le> leased_at l') \<and>
           m = (lease_message l)\<lparr>msg_reclaimed := True\<rparr> \<and>
           fq_inflight (file_queue c' queue_default) (msg_id m) =
             Some \<lparr>consumer_name = trim_space ''w2'', leased_at = minute + 2 * second,
               lease_message = m\<rparr>)
    | _ \<Rightarrow> False"
proof -
  have "trim_space ''w2'' \<noteq> []" by code_simp
  from claim_takes_oldest_idle [OF refl this, of "[''1'']" sample_queue_calls queue_default]
  show ?thesis by (simp only: sample_queue_state) simp
qed

text \<open>
  A message under the protection of a lease taken at \<open>t\<close>: the lease is not older, or the message is
  finished.
\<close>

definition protected_since :: "time \<Rightarrow> string \<Rightarrow> cache \<Rightarrow> bool" where
  "protected_since t y c \<longleftrightarrow>
     gone c y \<or> (\<exists>q l. fq_inflight (file_queue c q) y = Some l \<and> t \<le> leased_at l)"

lemma not_idle_within:
  "t \<le> leased_at l \<Longrightarrow> now < t + file_processing_min_idle \<Longrightarrow> \<not> idle now l"
  by (auto simp: idle_def file_processing_min_idle_def time_sub_def second_def max_int64_def min_int64_def)

text \<open>What a lease may become in one call.\<close>

lemma lease_unique:
  assumes "queue_inv c" "fq_inflight (file_queue c q) y = Some l"
  shows "y \<notin> set (map msg_id (fq_queue (file_queue c q')))"
    and "fq_inflight (file_queue c q') y = Some l' \<Longrightarrow> file_queue c q' = file_queue c q"
proof -
  have "copies c y \<le> 1" using assms(1) by (simp add: queue_inv_def)
  moreover have "file_queue c q' = file_queue c q \<or> file_queue c q' = file_queue c (other_name q)"
    by (auto simp: file_queue_def other_name_def)
  ultimately show "y \<notin> set (map msg_id (fq_queue (file_queue c q')))"
      "fq_inflight (file_queue c q') y = Some l' \<Longrightarrow> file_queue c q' = file_queue c q"
    using assms(2) by (auto simp: copies_split [of _ _ q] occurs_def count_list_0_iff split: if_splits)
qed

lemma protected_step:
  assumes "queue_inv c" "queue_step c (x, now, call) = (r, c')" "protected_since t y c" "t \<le> now"
    and "now < t + file_processing_min_idle"
  shows "protected_since t y c'"
proof (cases "completes call r = Some y \<or> gone c y")
  case True
  with step_effect [OF assms(1,2)] show ?thesis by (auto simp: protected_since_def)
next
  case False
  then obtain q l where l: "fq_inflight (file_queue c q) y = Some l" "t \<le> leased_at l"
    using assms(3) by (auto simp: protected_since_def)
  have stay: "protected_since t y c'"
    if "other_queue c p c'" "fq_inflight (file_queue c' p) y = fq_inflight (file_queue c p) y" for p
    using inflight_other [OF that(1), of q] that(2) l unfolding protected_since_def by metis
  from step_moves [OF assms(2) queue_inv_keys [OF assms(1)]] show ?thesis
  proof (elim disjE)
    assume "unmoved c call r c'"
    with l show ?thesis unfolding unmoved_def same_queues_def protected_since_def by metis
  next
    assume "appended c call r c'"
    then show ?thesis by (auto simp: appended_def appends_def intro: stay)
  next
    assume "moved_back c call r c'"
    with False show ?thesis by (auto simp: moved_back_def appends_def intro: stay)
  next
    assume "dropped c call r c'"
    with False show ?thesis by (auto simp: dropped_def releases_def intro: stay)
  next
    assume "handed_out c now call r c'"
    then obtain p m l' where m: "hands_out c p m l' c'" "other_queue c p c'"
      by (auto simp: handed_out_def)
    with lease_unique(1) [OF assms(1) l(1), of p] have "msg_id m \<noteq> y"
      by (auto simp: hands_out_def)
    with m show ?thesis by (auto simp: hands_out_def intro: stay)
  next
    assume "rewritten c now call r c'"
    then obtain p z l' where z: "releases c p z (Some l') c'" "other_queue c p c'" "leased_at l' = now"
      by (auto simp: rewritten_def)
    show ?thesis
    proof (cases "z = y")
      case True
      with z(1) have "fq_inflight (file_queue c' p) y = Some l'" by (simp add: releases_def)
      with z(3) assms(4) show ?thesis unfolding protected_since_def by blast
    next
      case False
      with z show ?thesis by (auto simp: releases_def intro: stay)
    qed
  qed
qed

lemma protected_not_handed:
  assumes "queue_inv c" "queue_step c (x, now, call) = (r, c')" "protected_since t y c"
    and "now < t + file_processing_min_idle"
  shows "\<not> hands y r"
proof
  assume y: "hands y r"
  from step_moves [OF assms(2) queue_inv_keys [OF assms(1)]] y
  have "handed_out c now call r c' \<or> rewritten c now call r c'"
    by (auto simp: unmoved_def appended_def moved_back_def dropped_def)
  then show False
  proof
    assume "handed_out c now call r c'"
    then obtain p m l' where m: "hands_out c p m l' c'" "msg_id m = y"
      using y by (auto simp: handed_out_def)
    then have q: "y \<in> set (map msg_id (fq_queue (file_queue c p)))"
      by (auto simp: hands_out_def)
    then have "count_list (map msg_id (fq_queue (file_queue c p))) y \<noteq> 0"
      by (simp only: count_list_0_iff) simp
    then have "0 < copies c y" by (simp add: copies_split [of _ _ p] occurs_def)
    with q lease_unique(1) [OF assms(1), of _ y _ p] assms(3) show False
      by (auto simp: protected_since_def gone_def)
  next
    assume "rewritten c now call r c'"
    then obtain p z old where z: "fq_inflight (file_queue c p) z = Some old" "idle now old"
        "msg_id (lease_message old) = y"
      using y by (auto simp: rewritten_def)
    then have zy: "z = y" using assms(1) by (auto simp: queue_inv_def)
    with z(1) have "0 < copies c y" by (auto simp: copies_split [of _ _ p] occurs_def)
    with assms(3) obtain q l where l: "fq_inflight (file_queue c q) y = Some l" "t \<le> leased_at l"
      by (auto simp: protected_since_def gone_def)
    with lease_unique(2) [OF assms(1) l(1), of p old] z(1) zy have "old = l" by auto
    with not_idle_within [OF l(2) assms(4)] z(2) show False by simp
  qed
qed

text \<open>
  C27. A message handed to a consumer at \<open>t\<close> is handed to nobody else before \<open>t\<close> plus the minimum
  idle time, whatever calls are made in between: two workers never hold the same message inside
  that time, and renewing only prolongs it.
\<close>

theorem lease_is_exclusive:
  assumes "c = snd (queue_run new_cache h0)" "queue_step c (b, t, call) = (Q_messages [m], c')"
    and "\<forall>(x, u, e) \<in> set h. t \<le> u \<and> u < t + file_processing_min_idle"
    and "Q_messages ms \<in> set (fst (queue_run c' h))"
  shows "msg_id m \<notin> msg_id ` set ms"
proof -
  let ?y = "msg_id m"
  have inv: "queue_inv c" using assms(1) queue_inv_run by simp
  have hm: "hands ?y (Q_messages [m])" by (simp add: hands_def)
  have "protected_since t ?y c'"
    using step_moves [OF assms(2) queue_inv_keys [OF inv]] hm
  proof (elim disjE)
    assume "handed_out c t call (Q_messages [m]) c'"
    then obtain q m' l where "hands_out c q m' l c'" "leased_at l = t" "?y = msg_id m'"
      using hm by (auto simp: handed_out_def)
    then have "fq_inflight (file_queue c' q) ?y = Some l" "leased_at l = t"
      by (auto simp: hands_out_def)
    then show ?thesis unfolding protected_since_def by blast
  next
    assume "rewritten c t call (Q_messages [m]) c'"
    then obtain q z l old where z: "releases c q z (Some l) c'" "leased_at l = t"
        "fq_inflight (file_queue c q) z = Some old" "msg_id (lease_message old) = ?y"
      using hm by (auto simp: rewritten_def)
    then have "z = ?y" using inv by (auto simp: queue_inv_def)
    with z(1) have "fq_inflight (file_queue c' q) ?y = Some l" by (simp add: releases_def)
    with z(2) show ?thesis unfolding protected_since_def by blast
  qed (auto simp: unmoved_def appended_def moved_back_def dropped_def)
  moreover have "\<not> hands ?y r"
    if "protected_since t ?y c" "queue_inv c" "r \<in> set (fst (queue_run c h))" for c r
    using that assms(3)
  proof (induction h arbitrary: c)
    case (Cons e h)
    obtain x now call where e: "e = (x, now, call)" by (cases e)
    obtain r' c'' where s: "queue_step c (x, now, call) = (r', c'')" by fastforce
    have n: "t \<le> now" "now < t + file_processing_min_idle" using Cons.prems(4) e by auto
    from Cons.prems(3) have "r = r' \<or> r \<in> set (fst (queue_run c'' h))"
      by (simp add: e s case_prod_beta)
    with protected_not_handed [OF Cons.prems(2) s Cons.prems(1) n(2)]
      Cons.IH [OF protected_step [OF Cons.prems(2) s Cons.prems(1) n] queue_inv_step [OF Cons.prems(2) s]]
      Cons.prems(4)
    show ?case by auto
  qed simp
  ultimately have "\<not> hands ?y (Q_messages ms)"
    using assms(4) queue_inv_step [OF inv assms(2)] by blast
  then show ?thesis by (simp add: hands_def)
qed

definition two_files :: "(bool \<times> time \<times> queue_call) list" where
  "two_files = [(False, second, Enqueue_processing 7 ''f1'' 0 []),
                (False, second, Enqueue_processing 7 ''f2'' 0 [])]"

definition sample_message :: "string \<Rightarrow> string \<Rightarrow> file_message" where
  "sample_message mid fid = (processing_message 7 fid 0 [])\<lparr>msg_id := mid\<rparr>"

lemma two_files_queue:
  "fq_queue (file_queue (snd (queue_run new_cache two_files)) queue_default) =
     [sample_message ''1'' ''f1'', sample_message ''2'' ''f2'']"
proof -
  have t: "trim_space ''f1'' = ''f1''" "trim_space ''f2'' = ''f2''"
      "truncate_file_queue_error [] = []" "format_int 1 = ''1''" "format_int 2 = ''2''"
    by code_simp+
  show ?thesis
    by (simp add: t two_files_def sample_message_def enqueue_file_processing_def
        enqueue_file_message_def Let_def processing_message_def max_file_queue_length_def
        case_prod_beta)
qed

theorem lease_is_exclusive_witness:
  "''1'' \<notin> msg_id ` set [sample_message ''2'' ''f2'']"
proof -
  let ?c = "snd (queue_run new_cache two_files)"
  have t: "trim_space ''w1'' \<noteq> []" "trim_space ''w2'' \<noteq> []"
    by code_simp+
  obtain c' where s: "queue_step ?c (False, 2 * second, Read ''w1'' queue_default) =
      (Q_messages [sample_message ''1'' ''f1''], c')"
      and q: "fq_queue (file_queue c' queue_default) = [sample_message ''2'' ''f2'']"
    using t two_files_queue by (simp add: read_attempt_def Let_def)
  have h: "\<forall>(x, u, e) \<in> set [(False, 3 * second, Read ''w2'' queue_default)].
      2 * second \<le> u \<and> u < 2 * second + file_processing_min_idle"
    by (simp add: second_def file_processing_min_idle_def)
  have "Q_messages [sample_message ''2'' ''f2''] \<in>
      set (fst (queue_run c' [(False, 3 * second, Read ''w2'' queue_default)]))"
    using t q by (simp add: read_attempt_def Let_def)
  from lease_is_exclusive [OF refl s h this] show ?thesis by (simp add: sample_message_def)
qed

section \<open>Waking readers\<close>

definition awake_or_waiting :: "queue_name \<Rightarrow> chan \<Rightarrow> cache \<Rightarrow> bool" where
  "awake_or_waiting q ch c \<longleftrightarrow>
     ch \<in> set (closed_chans c) \<or>
     fq_notify (file_queue c q) = ch \<and> fq_queue (file_queue c q) = []"

lemma awake_step:
  assumes "queue_inv c" "queue_step c (x, now, call) = (r, c')" "awake_or_waiting q ch c"
  shows "awake_or_waiting q ch c'"
proof -
  have app: "awake_or_waiting q ch c'" if "appends c p m rel c'" "other_queue c p c'" for p m rel
    using that assms(3) inflight_other [OF that(2), of q]
    by (auto simp: awake_or_waiting_def appends_def)
  from step_moves [OF assms(2) queue_inv_keys [OF assms(1)]] assms(3) show ?thesis
  proof (elim disjE)
    assume "handed_out c now call r c'"
    then obtain p m l where "hands_out c p m l c'" "other_queue c p c'"
      by (auto simp: handed_out_def)
    with assms(3) inflight_other [of c p c' q] show ?thesis
      by (auto simp: awake_or_waiting_def hands_out_def)
  next
    assume "rewritten c now call r c'"
    then obtain p z l where "releases c p z (Some l) c'" "other_queue c p c'"
      by (auto simp: rewritten_def)
    with assms(3) inflight_other [of c p c' q] show ?thesis
      by (auto simp: awake_or_waiting_def releases_def)
  next
    assume "dropped c call r c'"
    then obtain p z where "releases c p z None c'" "other_queue c p c'"
      by (auto simp: dropped_def)
    with assms(3) inflight_other [of c p c' q] show ?thesis
      by (auto simp: awake_or_waiting_def releases_def)
  qed (auto simp: unmoved_def same_queues_def awake_or_waiting_def appended_def moved_back_def
      dest: app)
qed

text \<open>
  C28. No wake-up is lost: when a reader has found its queue empty and taken its channel to wait on,
  and at any later moment the queue holds a message, that channel has been closed, so the reader is
  not left waiting for its timer.
\<close>

theorem no_lost_wakeup:
  assumes "c = snd (queue_run new_cache h0)" "read_attempt c cn q now = (Inr ch, c')"
    and "fq_queue (file_queue (snd (queue_run c' h)) q) \<noteq> []"
  shows "ch \<in> set (closed_chans (snd (queue_run c' h)))"
proof -
  have inv: "queue_inv c" using assms(1) queue_inv_run by simp
  from read_moves [OF assms(2)] have c': "c' = c" "awake_or_waiting q ch c"
    by (auto simp: awake_or_waiting_def)
  have "awake_or_waiting q ch (snd (queue_run c h))" if "awake_or_waiting q ch c" "queue_inv c" for c
    using that
  proof (induction h arbitrary: c)
    case (Cons e h)
    obtain x now call where e: "e = (x, now, call)" by (cases e)
    obtain r c'' where s: "queue_step c (x, now, call) = (r, c'')" by fastforce
    from Cons.IH [OF awake_step [OF Cons.prems(2) s Cons.prems(1)] queue_inv_step [OF Cons.prems(2) s]]
    show ?case by (simp add: e s case_prod_beta)
  qed simp
  from this [OF c'(2) inv] assms(3) show ?thesis
    by (auto simp: awake_or_waiting_def c'(1))
qed

theorem no_lost_wakeup_witness:
  "0 \<in> set (closed_chans (snd (queue_run new_cache [(False, second, Enqueue_processing 7 ''f1'' 0 [])])))"
proof -
  have r: "read_attempt new_cache ''w1'' queue_default 0 = (Inr 0, new_cache)"
    by (simp add: read_attempt_def new_cache_def file_queue_def new_file_queue_state_def)
  have t: "trim_space ''f1'' = ''f1''"
    by code_simp
  have "fq_queue (file_queue (snd (queue_run new_cache
      [(False, second, Enqueue_processing 7 ''f1'' 0 [])])) queue_default) \<noteq> []"
    by (simp add: t enqueue_file_processing_def enqueue_file_message_def Let_def
        processing_message_def max_file_queue_length_def)
  then show ?thesis
    using no_lost_wakeup [of new_cache "[]" "''w1''" queue_default 0 0 new_cache
        "[(False, second, Enqueue_processing 7 ''f1'' 0 [])]"] r
    by simp
qed

end
