(* ===== verification/Stream_Props.thy ===== *)
theory Stream_Props
  imports Gen_Stream Queue_Props
begin

text \<open>
  The guarantees of the generation streams over histories of calls: the event log is gapless and
  bounded, a cursor resumes without loss, a run has one executor, a completed run is sealed, and no
  channel of the backend is ever closed twice.
\<close>

section \<open>Histories\<close>

datatype stream_call =
  S_claim stream_lease duration duration
| S_renew stream_lease duration duration
| S_complete stream_lease duration
| S_abandon stream_lease
| S_cancel string nat duration
| S_append stream_lease stream_append int duration
| S_feed stream_append int duration
| S_reset stream_lease
| S_upkeep

datatype stream_result = S_flag bool | S_event "stream_message option"

text \<open>The four readings of the clock a call may make, in order.\<close>

record readings =
  at_now :: time
  at_1 :: time
  at_2 :: time
  at_3 :: time

fun stream_step :: "cache \<Rightarrow> readings \<times> stream_call \<Rightarrow> stream_result \<times> cache" where
  "stream_step c (t, S_claim l a b) =
     map_prod S_flag (\<lambda>x. x) (claim_generation_stream c l a b (at_now t) (at_1 t) (at_2 t))"
| "stream_step c (t, S_renew l a b) =
     map_prod S_flag (\<lambda>x. x) (renew_generation_stream_lease c l a b (at_now t) (at_1 t) (at_2 t))"
| "stream_step c (t, S_complete l r) =
     map_prod S_flag (\<lambda>x. x) (complete_generation_stream c l r (at_now t) (at_1 t) (at_2 t) (at_3 t))"
| "stream_step c (t, S_abandon l) = map_prod S_flag (\<lambda>x. x) (abandon_generation_stream c l (at_now t))"
| "stream_step c (t, S_cancel r u d) =
     map_prod S_flag (\<lambda>x. x) (request_generation_stream_cancel c r u d (at_now t) (at_1 t) (at_2 t))"
| "stream_step c (t, S_append l i m d) =
     map_prod S_event (\<lambda>x. x) (append_generation_stream_event c l i m d (at_now t) (at_1 t))"
| "stream_step c (t, S_feed i m d) =
     map_prod (\<lambda>e. S_event (Some e)) (\<lambda>x. x) (append_active_generation_event c i m d (at_1 t) (at_2 t))"
| "stream_step c (t, S_reset l) = map_prod S_flag (\<lambda>x. x) (reset_generation_stream_events c l (at_now t))"
| "stream_step c (t, S_upkeep) = (S_flag True, maybe_sweep c (at_now t))"

fun stream_run :: "cache \<Rightarrow> (readings \<times> stream_call) list \<Rightarrow> stream_result list \<times> cache" where
  "stream_run c [] = ([], c)"
| "stream_run c (e # h) =
     (let (r, c') = stream_step c e; (rs, c'') = stream_run c' h in (r # rs, c''))"

section \<open>Properties of every stream\<close>

definition all_streams :: "(generation_stream \<Rightarrow> bool) \<Rightarrow> cache \<Rightarrow> bool" where
  "all_streams P c \<longleftrightarrow> (\<forall>rid s. streams c rid = Some s \<longrightarrow> P s)"

lemma all_streamsD: "all_streams P c \<Longrightarrow> streams c rid = Some s \<Longrightarrow> P s"
  by (simp add: all_streams_def)

lemma streams_sweep:
  "streams (maybe_sweep c now) rid = Some s \<Longrightarrow> streams c rid = Some s"
  using maybe_sweep_cases [of c now] by (auto simp: sweep_maps)

lemma all_streams_frame [simp]:
  "all_streams P (c\<lparr>next_chan := n\<rparr>) = all_streams P c"
  "all_streams P (c\<lparr>closed_chans := cl, next_chan := n\<rparr>) = all_streams P c"
  "all_streams P (c\<lparr>closed_chans := cl\<rparr>) = all_streams P c"
  "all_streams P (notify_generation_streams c) = all_streams P c"
  by (simp_all add: all_streams_def notify_generation_streams_def)

lemma all_streams_sweep: "all_streams P c \<Longrightarrow> all_streams P (maybe_sweep c now)"
  unfolding all_streams_def by (blast dest: streams_sweep)

lemma all_streams_put: "all_streams P c \<Longrightarrow> P s \<Longrightarrow> all_streams P (put_stream rid s c)"
  by (simp add: all_streams_def put_stream_def)

lemma all_streams_delete:
  "all_streams P c \<Longrightarrow>
   all_streams P (c\<lparr>closed_chans := cl, next_chan := n, streams := (streams c)(rid := None)\<rparr>)"
  by (simp add: all_streams_def)

lemma notify_stream_simps [simp]:
  "fst (notify_stream s c) = s\<lparr>stream_chan := next_chan c\<rparr>"
  "snd (notify_stream s c) =
     c\<lparr>closed_chans := closed_chans c @ [stream_chan s], next_chan := Suc (next_chan c)\<rparr>"
  by (simp_all add: notify_stream_def)

subsection \<open>The event log\<close>

text \<open>
  The retained events carry consecutive numbers ending at the stream's number, each with its own
  number as identifier; the snapshots are not ahead of it.
\<close>

definition log_ok :: "generation_stream \<Rightarrow> bool" where
  "log_ok s \<longleftrightarrow>
     int (length (stream_events s)) \<le> stream_seq s \<and>
     map sm_seq (stream_events s) = [stream_seq s - int (length (stream_events s)) + 1 .. stream_seq s] \<and>
     (\<forall>m \<in> set (stream_events s). sm_id m = format_int (sm_seq m)) \<and>
     text_seq s \<le> stream_seq s \<and> think_seq s \<le> stream_seq s"

lemma log_ok_cong:
  assumes "stream_seq s' = stream_seq s" "stream_events s' = stream_events s"
    "text_seq s' = text_seq s" "think_seq s' = think_seq s"
  shows "log_ok s' = log_ok s"
  using assms by (simp add: log_ok_def)

lemma log_ok_fresh: "log_ok (fresh_stream ch)"
  by (simp add: log_ok_def fresh_stream_def)

lemma log_ok_reset: "log_ok s \<Longrightarrow> log_ok (reset_events s)"
  by (simp add: log_ok_def reset_events_def)

lemma drop_upto: "drop n [i..j] = [i + int n .. j]"
proof (induction n arbitrary: i)
  case (Suc n)
  show ?case
  proof (cases "i \<le> j")
    case True
    with Suc show ?thesis by (simp add: upto_rec1 add.assoc)
  next
    case False
    then show ?thesis by simp
  qed
qed simp

lemma upto_snoc: "i \<le> j + 1 \<Longrightarrow> [i..j] @ [j + 1] = [i..j + 1]"
  using upto_rec2 [of i "j + 1"] by simp

lemma append_think_frame [simp]:
  "stream_seq (append_think k s) = stream_seq s"
  "stream_events (append_think k s) = stream_events s"
  "text_seq (append_think k s) = text_seq s"
  "text_content (append_think k s) = text_content s"
  "stream_chan (append_think k s) = stream_chan s"
  "execution_id (append_think k s) = execution_id s"
  "owner_id (append_think k s) = owner_id s"
  "conversation_id (append_think k s) = conversation_id s"
  "active_expires_at (append_think k s) = active_expires_at s"
  "owner_expires_at (append_think k s) = owner_expires_at s"
  "cancel_expires_at (append_think k s) = cancel_expires_at s"
  by (simp_all add: append_think_def Let_def split: option.split)

lemma append_think_seq: "think_seq s \<le> stream_seq s \<Longrightarrow> think_seq (append_think k s) \<le> stream_seq s"
  by (simp add: append_think_def Let_def split: option.split)

lemma push_event_frame [simp]:
  "stream_seq (push_event s input) = stream_seq s + 1"
  "stream_events (push_event s input) = stream_events s @ [next_message s input]"
  "stream_chan (push_event s input) = stream_chan s"
  "execution_id (push_event s input) = execution_id s"
  "owner_id (push_event s input) = owner_id s"
  "conversation_id (push_event s input) = conversation_id s"
  "active_expires_at (push_event s input) = active_expires_at s"
  "owner_expires_at (push_event s input) = owner_expires_at s"
  "text_content (push_event s input) = text_content s @ sa_text_delta input"
  by (simp_all add: push_event_def Let_def)

lemma push_event_seqs:
  "text_seq s \<le> stream_seq s \<Longrightarrow> text_seq (push_event s input) \<le> stream_seq s + 1"
  "think_seq s \<le> stream_seq s \<Longrightarrow> think_seq (push_event s input) \<le> stream_seq s + 1"
  by (simp_all add: push_event_def Let_def append_think_def split: option.split)

definition event_cap :: "int \<Rightarrow> int" where
  "event_cap m = (if m \<le> 0 then 1024 else m)"

lemma cut_events_eq:
  "cut_events m s =
     s\<lparr>stream_events := drop (nat (int (length (stream_events s)) - event_cap m)) (stream_events s)\<rparr>"
  by (simp add: cut_events_def event_cap_def Let_def)

lemma cut_events_frame [simp]:
  "stream_seq (cut_events m s) = stream_seq s"
  "text_seq (cut_events m s) = text_seq s"
  "think_seq (cut_events m s) = think_seq s"
  "stream_chan (cut_events m s) = stream_chan s"
  "execution_id (cut_events m s) = execution_id s"
  "owner_id (cut_events m s) = owner_id s"
  "conversation_id (cut_events m s) = conversation_id s"
  "active_expires_at (cut_events m s) = active_expires_at s"
  "owner_expires_at (cut_events m s) = owner_expires_at s"
  by (simp_all add: cut_events_eq)

lemma log_ok_push: "log_ok s \<Longrightarrow> log_ok (push_event s input)"
  using push_event_seqs [of s input]
  by (simp add: log_ok_def next_message_def upto_snoc)

lemma log_ok_drop:
  "log_ok s \<Longrightarrow> d \<le> length (stream_events s) \<Longrightarrow> log_ok (s\<lparr>stream_events := drop d (stream_events s)\<rparr>)"
  by (auto simp: log_ok_def drop_map [symmetric] drop_upto of_nat_diff dest: in_set_dropD
      intro!: arg_cong2 [of _ _ _ _ upto])

lemma log_ok_cut: "log_ok s \<Longrightarrow> log_ok (cut_events m s)"
  unfolding cut_events_eq by (rule log_ok_drop) (auto simp: event_cap_def)

lemma log_ok_append:
  "log_ok s \<Longrightarrow> log_ok (fst (snd (append_event s c input m ttl t1)))"
  by (subst log_ok_cong [of _ "cut_events m (push_event s input)"])
    (simp_all add: append_event_def log_ok_cut log_ok_push)

section \<open>The moves of a call\<close>

text \<open>
  Every call is a sequence of these moves; a stream that is changed keeps its channel until it is
  closed for a new one, and keeps its log well formed.
\<close>

inductive stream_move :: "cache \<Rightarrow> cache \<Rightarrow> bool" where
  Create: "streams c rid = None \<Longrightarrow>
     stream_move c (put_stream rid (fresh_stream (next_chan c)) (c\<lparr>next_chan := Suc (next_chan c)\<rparr>))"
| Touch: "streams c rid = Some s \<Longrightarrow> stream_chan s' = stream_chan s \<Longrightarrow> (log_ok s \<Longrightarrow> log_ok s') \<Longrightarrow>
     stream_move c (put_stream rid s' c)"
| Wake: "streams c rid = Some s \<Longrightarrow> stream_chan s' = stream_chan s \<Longrightarrow> (log_ok s \<Longrightarrow> log_ok s') \<Longrightarrow>
     stream_move c (put_stream rid (fst (notify_stream s' c)) (snd (notify_stream s' c)))"
| Remove: "streams c rid = Some s \<Longrightarrow>
     stream_move c ((snd (notify_stream s c))\<lparr>streams := (streams c)(rid := None)\<rparr>)"
| Wake_all: "stream_move c (notify_generation_streams c)"
| Sweep: "stream_move c (maybe_sweep c now)"

definition stream_moves :: "cache \<Rightarrow> cache \<Rightarrow> bool" where
  "stream_moves = stream_move\<^sup>*\<^sup>*"

lemma moves_refl [simp]: "stream_moves c c"
  by (simp add: stream_moves_def)

lemma moves_step: "stream_moves c c' \<Longrightarrow> stream_move c' c'' \<Longrightarrow> stream_moves c c''"
  by (simp add: stream_moves_def)

lemma moves_all: "stream_moves c c' \<Longrightarrow> stream_moves c (notify_generation_streams c')"
  by (rule moves_step [OF _ Wake_all])

lemma moves_sweep: "stream_moves c c' \<Longrightarrow> stream_moves c (maybe_sweep c' now)"
  by (rule moves_step [OF _ Sweep])

lemma streams_put [simp]: "streams (put_stream rid s c) rid = Some s"
  by (simp add: put_stream_def)

text \<open>A wake-up of a stream that may have to be made first.\<close>

lemma moves_ensure_wake:
  assumes "stream_chan s' = stream_chan (fst (ensure_stream c rid))"
    and "log_ok (fst (ensure_stream c rid)) \<Longrightarrow> log_ok s'"
  shows "stream_moves c (put_stream (trim_space rid)
           (fst (notify_stream s' (snd (ensure_stream c rid))))
           (snd (notify_stream s' (snd (ensure_stream c rid)))))"
proof (cases "streams c (trim_space rid)")
  case None
  let ?c = "put_stream (trim_space rid) (fresh_stream (next_chan c)) (c\<lparr>next_chan := Suc (next_chan c)\<rparr>)"
  have "ensure_stream c rid = (fresh_stream (next_chan c), ?c)"
    using None by (simp add: ensure_stream_def Let_def)
  with assms moves_step [OF moves_step [OF moves_refl Create [OF None]] Wake [of ?c "trim_space rid"]]
  show ?thesis by (metis fst_conv snd_conv streams_put)
next
  case (Some s)
  then have "ensure_stream c rid = (s, c)" by (simp add: ensure_stream_def)
  with assms moves_step [OF moves_refl Wake [OF Some, of s']] show ?thesis
    by simp
qed

lemma moves_wake:
  "streams c rid = Some s \<Longrightarrow> stream_chan s' = stream_chan s \<Longrightarrow> (log_ok s \<Longrightarrow> log_ok s') \<Longrightarrow>
   stream_moves c (put_stream rid (fst (notify_stream s' c)) (snd (notify_stream s' c)))"
  by (rule moves_step [OF moves_refl Wake])

lemma moves_touch:
  "streams c rid = Some s \<Longrightarrow> stream_chan s' = stream_chan s \<Longrightarrow> (log_ok s \<Longrightarrow> log_ok s') \<Longrightarrow>
   stream_moves c (put_stream rid s' c)"
  by (rule moves_step [OF moves_refl Touch])

lemma reset_events_frame [simp]:
  "stream_chan (reset_events s) = stream_chan s"
  "stream_seq (reset_events s) = stream_seq s"
  "execution_id (reset_events s) = execution_id s"
  "owner_id (reset_events s) = owner_id s"
  "conversation_id (reset_events s) = conversation_id s"
  "active_expires_at (reset_events s) = active_expires_at s"
  "owner_expires_at (reset_events s) = owner_expires_at s"
  by (simp_all add: reset_events_def)

lemma log_ok_fields [simp]:
  "log_ok (s\<lparr>owner_id := a\<rparr>) = log_ok s"
  "log_ok (s\<lparr>execution_id := b\<rparr>) = log_ok s"
  "log_ok (s\<lparr>conversation_id := d\<rparr>) = log_ok s"
  "log_ok (s\<lparr>owner_expires_at := e\<rparr>) = log_ok s"
  "log_ok (s\<lparr>active_expires_at := e\<rparr>) = log_ok s"
  "log_ok (s\<lparr>cancel_expires_at := e\<rparr>) = log_ok s"
  "log_ok (s\<lparr>events_expires_at := e\<rparr>) = log_ok s"
  "log_ok (s\<lparr>stream_chan := ch\<rparr>) = log_ok s"
  by (simp_all add: log_ok_def)

lemma claim_moves_streams: "stream_moves c (snd (claim_generation_stream c l a b now t1 t2))"
proof -
  let ?rid = "trim_space (run_id l)"
  let ?own = "if b < a then a else b"
  let ?set = "\<lambda>s. s\<lparr>owner_id := lease_user_id l, execution_id := trim_space (lease_execution_id l),
      conversation_id := trim_space (lease_conversation_id l), owner_expires_at := ttl_from t1 ?own,
      active_expires_at := ttl_from t2 a, cancel_expires_at := zero_time\<rparr>"
  show ?thesis
  proof (cases "streams c ?rid")
    case None
    have "stream_moves c (put_stream (trim_space ?rid)
        (fst (notify_stream (?set (fst (ensure_stream c ?rid))) (snd (ensure_stream c ?rid))))
        (snd (notify_stream (?set (fst (ensure_stream c ?rid))) (snd (ensure_stream c ?rid)))))"
      by (rule moves_ensure_wake) simp_all
    with None show ?thesis
      by (auto simp: claim_generation_stream_def Let_def case_prod_beta simp del: notify_stream_simps
          intro!: moves_sweep moves_all)
  next
    case (Some s)
    have "stream_moves c (put_stream ?rid
        (fst (notify_stream (?set (reset_events s)) c)) (snd (notify_stream (?set (reset_events s)) c)))"
      using Some by (rule moves_wake) (simp_all add: log_ok_reset)
    moreover have "stream_moves c (put_stream ?rid
        (s\<lparr>owner_expires_at := ttl_from t1 ?own, active_expires_at := ttl_from t2 a\<rparr>) c)"
      using Some by (rule moves_touch) simp_all
    ultimately show ?thesis
      using Some
      by (auto simp: claim_generation_stream_def Let_def case_prod_beta simp del: notify_stream_simps
          intro!: moves_sweep moves_all)
  qed
qed

lemma append_event_chan:
  "snd (append_event s c i m d t) =
     notify_stream ((cut_events m (push_event s i))\<lparr>events_expires_at := ttl_from t d\<rparr>) c"
  by (simp add: append_event_def)

lemma stream_step_moves: "stream_moves c (snd (stream_step c (t, call)))"
proof (cases call)
  case (S_claim l a b)
  then show ?thesis using claim_moves_streams by simp
next
  case (S_renew l a b)
  then show ?thesis
    by (auto simp: renew_generation_stream_lease_def Let_def split: option.split
        intro!: moves_sweep moves_touch)
next
  case (S_complete l r)
  then show ?thesis
    by (auto simp: complete_generation_stream_def Let_def case_prod_beta simp del: notify_stream_simps
        split: option.split intro!: moves_sweep moves_all moves_wake)
next
  case (S_abandon l)
  then show ?thesis
    using moves_step [OF moves_refl Remove]
    by (auto simp: abandon_generation_stream_def Let_def case_prod_beta simp del: notify_stream_simps
        split: option.split intro!: moves_all) (simp add: notify_stream_def)
next
  case (S_cancel r u d)
  then show ?thesis
    by (auto simp: request_generation_stream_cancel_def Let_def case_prod_beta
        simp del: notify_stream_simps split: option.split intro!: moves_sweep moves_wake)
next
  case (S_append l i m d)
  then show ?thesis
    by (auto simp: append_generation_stream_event_def Let_def case_prod_beta append_event_chan
        log_ok_cut log_ok_push simp del: notify_stream_simps split: option.split
        intro!: moves_sweep moves_all moves_wake)
next
  case (S_feed i m d)
  then show ?thesis
    by (auto simp: append_active_generation_event_def Let_def case_prod_beta append_event_chan
        log_ok_cut log_ok_push simp del: notify_stream_simps
        intro!: moves_sweep moves_all moves_ensure_wake)
next
  case (S_reset l)
  then show ?thesis
    by (auto simp: reset_generation_stream_events_def Let_def case_prod_beta log_ok_reset
        simp del: notify_stream_simps split: option.split intro!: moves_all moves_wake)
next
  case S_upkeep
  then show ?thesis by (simp add: moves_sweep)
qed

lemma moves_log_ok:
  assumes "stream_moves c c'" "all_streams log_ok c"
  shows "all_streams log_ok c'"
  using assms(1) unfolding stream_moves_def
proof (induction rule: rtranclp_induct)
  case base
  show ?case by (rule assms(2))
next
  case (step c1 c2)
  from step(2,3) show ?case
    by (cases rule: stream_move.cases)
      (auto intro!: all_streams_put all_streams_sweep all_streams_delete log_ok_fresh dest: all_streamsD)
qed

lemma stream_run_log_ok: "all_streams log_ok c \<Longrightarrow> all_streams log_ok (snd (stream_run c h))"
proof (induction h arbitrary: c)
  case (Cons e h)
  obtain t call where e: "e = (t, call)" by (cases e)
  from Cons.IH [OF moves_log_ok [OF stream_step_moves Cons.prems, of t call]] show ?case
    by (simp add: e case_prod_beta)
qed simp

lemma new_cache_streams [simp]: "streams new_cache = Map.empty"
  by (simp add: new_cache_def)

lemma all_streams_new [simp]: "all_streams P new_cache"
  by (simp add: all_streams_def)

text \<open>
  At every moment of every history, the events a run retains carry consecutive numbers that end
  at the run's current number, and no snapshot is ahead of it: nothing between the oldest retained
  event and the newest is missing or doubled.
\<close>

theorem event_log_is_gapless:
  assumes "streams (snd (stream_run new_cache h)) rid = Some s"
  shows "map sm_seq (stream_events s) =
           [stream_seq s - int (length (stream_events s)) + 1 .. stream_seq s] \<and>
         text_seq s \<le> stream_seq s \<and> think_seq s \<le> stream_seq s"
  using all_streamsD [OF stream_run_log_ok [OF all_streams_new] assms] by (simp add: log_ok_def)

section \<open>Channels\<close>

text \<open>The places that hold a channel readers can wait on.\<close>

datatype place = At_processing | At_embedding | At_all_streams | At_stream string

definition chan_at :: "cache \<Rightarrow> place \<rightharpoonup> chan" where
  "chan_at c p =
     (case p of
        At_processing \<Rightarrow> Some (fq_notify (file_processing_queue c))
      | At_embedding \<Rightarrow> Some (fq_notify (file_embedding_queue c))
      | At_all_streams \<Rightarrow> Some (stream_notify c)
      | At_stream rid \<Rightarrow> map_option stream_chan (streams c rid))"

text \<open>Every such channel is open, they are all different, and all numbers are below the next.\<close>

definition chans_ok :: "(place \<rightharpoonup> chan) \<Rightarrow> chan list \<Rightarrow> nat \<Rightarrow> bool" where
  "chans_ok pm closed n \<longleftrightarrow>
     distinct closed \<and> (\<forall>ch \<in> set closed. ch < n) \<and>
     (\<forall>p ch. pm p = Some ch \<longrightarrow> ch < n \<and> ch \<notin> set closed) \<and>
     (\<forall>p q ch. pm p = Some ch \<longrightarrow> pm q = Some ch \<longrightarrow> p = q)"

definition chan_inv :: "cache \<Rightarrow> bool" where
  "chan_inv c \<longleftrightarrow> chans_ok (chan_at c) (closed_chans c) (next_chan c)"

lemma chans_ok_renew:
  "chans_ok pm closed n \<Longrightarrow> pm p = Some ch \<Longrightarrow> chans_ok (pm(p \<mapsto> n)) (closed @ [ch]) (Suc n)"
  unfolding chans_ok_def by (auto simp: less_Suc_eq split: if_splits)

lemma chans_ok_create:
  "chans_ok pm closed n \<Longrightarrow> chans_ok (pm(p \<mapsto> n)) closed (Suc n)"
  unfolding chans_ok_def by (auto simp: less_Suc_eq split: if_splits)

lemma chans_ok_remove:
  "chans_ok pm closed n \<Longrightarrow> pm p = Some ch \<Longrightarrow> chans_ok (pm(p := None)) (closed @ [ch]) (Suc n)"
  unfolding chans_ok_def by (auto simp: less_Suc_eq split: if_splits)

lemma chans_ok_fewer:
  "chans_ok pm closed n \<Longrightarrow> (\<And>p ch. pm' p = Some ch \<Longrightarrow> pm p = Some ch) \<Longrightarrow> chans_ok pm' closed n"
  unfolding chans_ok_def by blast

lemma chan_inv_new: "chan_inv new_cache"
  by (auto simp: chan_inv_def chans_ok_def chan_at_def new_cache_def new_file_queue_state_def
      split: place.splits)

lemma chan_at_put:
  "chan_at (put_stream rid s c) = (chan_at c)(At_stream rid \<mapsto> stream_chan s)"
  by (auto simp: chan_at_def put_stream_def fun_eq_iff split: place.splits)

lemma chan_at_frame [simp]:
  "chan_at (c\<lparr>next_chan := n\<rparr>) = chan_at c"
  "chan_at (c\<lparr>closed_chans := cl\<rparr>) = chan_at c"
  "chan_at (c\<lparr>closed_chans := cl, next_chan := n\<rparr>) = chan_at c"
  by (auto simp: chan_at_def fun_eq_iff split: place.splits)

lemma chan_at_sweep: "chan_at (maybe_sweep c now) p = Some ch \<Longrightarrow> chan_at c p = Some ch"
  by (auto simp: chan_at_def dest: streams_sweep split: place.splits)

lemma put_stream_frame [simp]:
  "closed_chans (put_stream rid s c) = closed_chans c"
  "next_chan (put_stream rid s c) = next_chan c"
  by (simp_all add: put_stream_def)

lemma chan_inv_move:
  assumes "stream_move c c'" "chan_inv c"
  shows "chan_inv c'"
  using assms(1)
proof (cases rule: stream_move.cases)
  case (Create rid)
  then show ?thesis
    using chans_ok_create [OF assms(2) [unfolded chan_inv_def], of "At_stream rid"]
    by (simp add: chan_inv_def chan_at_put fresh_stream_def)
next
  case (Touch rid s s')
  then have "chan_at c (At_stream rid) = Some (stream_chan s')" by (simp add: chan_at_def)
  with Touch assms(2) show ?thesis by (simp add: chan_inv_def chan_at_put fun_upd_idem)
next
  case (Wake rid s s')
  then have "chan_at c (At_stream rid) = Some (stream_chan s')" by (simp add: chan_at_def)
  with Wake chans_ok_renew [OF assms(2) [unfolded chan_inv_def] this] show ?thesis
    by (simp add: chan_inv_def chan_at_put)
next
  case (Remove rid s)
  then have "chan_at c (At_stream rid) = Some (stream_chan s)" by (simp add: chan_at_def)
  note ok = chans_ok_remove [OF assms(2) [unfolded chan_inv_def] this]
  have "chan_at c' = (chan_at c)(At_stream rid := None)"
    using Remove by (auto simp: chan_at_def fun_eq_iff split: place.splits)
  with ok Remove show ?thesis by (simp add: chan_inv_def)
next
  case Wake_all
  have "chan_at c At_all_streams = Some (stream_notify c)" by (simp add: chan_at_def)
  note ok = chans_ok_renew [OF assms(2) [unfolded chan_inv_def] this]
  have "chan_at c' = (chan_at c)(At_all_streams \<mapsto> next_chan c)"
    using Wake_all
    by (auto simp: chan_at_def notify_generation_streams_def fun_eq_iff split: place.splits)
  with ok Wake_all show ?thesis by (simp add: chan_inv_def notify_generation_streams_def)
next
  case (Sweep now)
  with assms(2) show ?thesis
    by (auto simp: chan_inv_def intro: chans_ok_fewer chan_at_sweep)
qed

lemma chan_inv_moves: "stream_moves c c' \<Longrightarrow> chan_inv c \<Longrightarrow> chan_inv c'"
  unfolding stream_moves_def by (induction rule: rtranclp_induct) (auto intro: chan_inv_move)

text \<open>The queue calls leave the streams to the maintenance.\<close>

lemma queue_step_streams:
  "stream_notify (snd (queue_step c (x, now, call))) = stream_notify c"
  "streams (snd (queue_step c (x, now, call))) rid = Some s \<Longrightarrow> streams c rid = Some s"
proof -
  have enq: "stream_notify (snd (enqueue_file_message c x m now)) = stream_notify c"
      "streams (snd (enqueue_file_message c x m now)) rid = Some s \<Longrightarrow> streams c rid = Some s" for m
    by (auto simp: enqueue_file_message_def Let_def dest!: streams_sweep split: if_splits)
  have unit: "snd (unit_result p) = snd p" for p
    by (cases p rule: unit_result.cases) simp_all
  have flag: "snd (flag_result p) = snd p" for p
    by (cases p rule: flag_result.cases) simp_all
  show "stream_notify (snd (queue_step c (x, now, call))) = stream_notify c"
    by (cases call) (auto simp: unit flag enq enqueue_file_processing_def enqueue_file_embedding_def
        claim_timed_out_def read_attempt_def renew_lease_def settle_message_def requeue_message_def
        dead_letter_message_def Let_def split: option.splits prod.splits list.splits sum.splits if_splits)
  show "streams c rid = Some s" if "streams (snd (queue_step c (x, now, call))) rid = Some s"
    using that
    by (cases call) (auto simp: unit flag enqueue_file_processing_def enqueue_file_embedding_def
        claim_timed_out_def read_attempt_def renew_lease_def settle_message_def requeue_message_def
        dead_letter_message_def Let_def dest!: streams_sweep enq(2)
        split: option.splits prod.splits list.splits sum.splits if_splits)
qed

definition queue_place :: "queue_name \<Rightarrow> place" where
  "queue_place q = (if q = queue_embedding then At_embedding else At_processing)"

lemma chan_at_queue: "chan_at c (queue_place q) = Some (fq_notify (file_queue c q))"
  by (simp add: chan_at_def queue_place_def file_queue_def)

lemma chan_at_after_queue:
  assumes "queue_step c (x, now, call) = (r, c')" "other_queue c q c'" "chan_at c' p = Some ch"
  shows "p = queue_place q \<and> ch = fq_notify (file_queue c' q) \<or> p \<noteq> queue_place q \<and> chan_at c p = Some ch"
proof (cases "p = queue_place q")
  case True
  with assms(3) chan_at_queue show ?thesis by simp
next
  case False
  have "file_queue c' (other_name q) = file_queue c (other_name q)"
    by (rule other_queueD [OF assms(2)])
  with False assms(3) queue_step_streams [of c x now call] assms(1) show ?thesis
    by (auto simp: chan_at_def queue_place_def other_name_def file_queue_def
        split: place.splits if_splits)
qed

lemma chan_inv_queue_step:
  assumes "queue_inv c" "queue_step c (x, now, call) = (r, c')" "chan_inv c"
  shows "chan_inv c'"
proof -
  note after = chan_at_after_queue [OF assms(2)]
  have keep: "chan_inv c'"
    if "other_queue c q c'" "fq_notify (file_queue c' q) = fq_notify (file_queue c q)"
      "closed_chans c' = closed_chans c" "next_chan c' = next_chan c" for q
  proof -
    have "chan_at c p = Some ch" if "chan_at c' p = Some ch" for p ch
      using after [OF \<open>other_queue c q c'\<close> that] chan_at_queue [of c q]
        \<open>fq_notify (file_queue c' q) = fq_notify (file_queue c q)\<close> by auto
    with assms(3) that(3,4) show ?thesis
      unfolding chan_inv_def by (auto intro: chans_ok_fewer)
  qed
  have new: "chan_inv c'" if a: "appends c q m rel c'" "other_queue c q c'" for q m rel
  proof -
    have "chans_ok ((chan_at c)(queue_place q \<mapsto> next_chan c)) (closed_chans c') (next_chan c')"
      using chans_ok_renew [OF assms(3) [unfolded chan_inv_def] chan_at_queue] a(1)
      by (simp add: appends_def)
    then show ?thesis
      unfolding chan_inv_def
      by (rule chans_ok_fewer) (use after [OF a(2)] a(1) in \<open>auto simp: appends_def\<close>)
  qed
  from step_moves [OF assms(2) queue_inv_keys [OF assms(1)]] show ?thesis
  proof (elim disjE)
    assume "unmoved c call r c'"
    then show ?thesis
      by (intro keep [of queue_default]) (auto simp: unmoved_def same_queues_def other_queue_def)
  qed (auto simp: appended_def moved_back_def handed_out_def rewritten_def dropped_def hands_out_def
      releases_def intro: keep new)
qed

text \<open>Histories of calls on the queues and on the streams of one backend.\<close>

datatype backend_call = On_queue bool time queue_call | On_stream readings stream_call

fun backend_step :: "cache \<Rightarrow> backend_call \<Rightarrow> cache" where
  "backend_step c (On_queue x now call) = snd (queue_step c (x, now, call))"
| "backend_step c (On_stream t call) = snd (stream_step c (t, call))"

definition backend_run :: "cache \<Rightarrow> backend_call list \<Rightarrow> cache" where
  "backend_run c h = foldl backend_step c h"

lemma file_queue_moves: "stream_moves c c' \<Longrightarrow> file_queue c' q = file_queue c q \<and> file_seq c' = file_seq c"
  unfolding stream_moves_def
proof (induction rule: rtranclp_induct)
  case (step c1 c2)
  from step(2,3) show ?case
    by (cases rule: stream_move.cases)
      (auto simp: file_queue_def put_stream_def notify_generation_streams_def)
qed simp

lemma queue_inv_moves:
  assumes "stream_moves c c'" "queue_inv c"
  shows "queue_inv c'"
proof -
  note f = file_queue_moves [OF assms(1)]
  have "copies c' x = copies c x" for x
    using f by (simp add: copies_split [of _ _ queue_default])
  with f assms(2) show ?thesis by (simp add: queue_inv_def issued_def)
qed

text \<open>
  C36. No channel is closed twice, which would panic: over any history of calls on the queues and
  the streams, every close in the log is of a different channel, and every channel that a reader
  can pick up to wait on is still open.
\<close>

theorem no_double_close:
  "distinct (closed_chans (backend_run new_cache h)) \<and>
   (\<forall>p ch. chan_at (backend_run new_cache h) p = Some ch \<longrightarrow>
      ch \<notin> set (closed_chans (backend_run new_cache h)))"
proof -
  have "queue_inv (backend_run c h) \<and> chan_inv (backend_run c h)" if "queue_inv c" "chan_inv c" for c
    using that
  proof (induction h arbitrary: c)
    case (Cons e h)
    have "queue_inv (backend_step c e) \<and> chan_inv (backend_step c e)"
    proof (cases e)
      case (On_queue x now call)
      then show ?thesis
        using queue_inv_step [of c x now call] chan_inv_queue_step [of c x now call] Cons.prems
        by (metis backend_step.simps(1) prod.collapse)
    next
      case (On_stream t call)
      then show ?thesis
        using queue_inv_moves chan_inv_moves stream_step_moves [of c t call] Cons.prems by auto
    qed
    with Cons.IH show ?case by (simp add: backend_run_def)
  qed (simp add: backend_run_def)
  then have "chan_inv (backend_run new_cache h)"
    using chan_inv_new by simp
  then show ?thesis by (auto simp: chan_inv_def chans_ok_def)
qed

theorem no_double_close_witness:
  "0 \<notin> set (closed_chans (backend_run new_cache []))"
  using no_double_close [of "[]"]
  by (auto simp: backend_run_def new_cache_def)

section \<open>One executor\<close>

text \<open>
  The log of a stream: its events and both snapshots, and the time until which they can be read. The execution
  \<open>eid\<close> holds the run \<open>rid\<close> at least until \<open>d\<close>, with its log as in \<open>s0\<close>.
\<close>

definition same_content :: "generation_stream \<Rightarrow> generation_stream \<Rightarrow> bool" where
  "same_content s s0 \<longleftrightarrow>
     stream_seq s = stream_seq s0 \<and> stream_events s = stream_events s0 \<and>
     text_content s = text_content s0 \<and> text_seq s = text_seq s0 \<and>
     think_content s = think_content s0 \<and> think_seq s = think_seq s0 \<and>
     think_round_id s = think_round_id s0 \<and> think_metadata s = think_metadata s0"

definition same_log :: "generation_stream \<Rightarrow> generation_stream \<Rightarrow> bool" where
  "same_log s s0 \<longleftrightarrow> same_content s s0 \<and> events_expires_at s = events_expires_at s0"

definition held_by :: "string \<Rightarrow> string \<Rightarrow> time \<Rightarrow> generation_stream \<Rightarrow> cache \<Rightarrow> bool" where
  "held_by rid eid d s0 c \<longleftrightarrow>
     (\<exists>s. streams c rid = Some s \<and> execution_id s = eid \<and> d \<le> active_expires_at s \<and> same_log s s0)"

fun lease_of :: "stream_call \<Rightarrow> stream_lease option" where
  "lease_of (S_claim l a b) = Some l"
| "lease_of (S_renew l a b) = Some l"
| "lease_of (S_complete l r) = Some l"
| "lease_of (S_abandon l) = Some l"
| "lease_of (S_append l i m d) = Some l"
| "lease_of (S_reset l) = Some l"
| "lease_of call = None"

text \<open>A call on the run \<open>rid\<close> under a lease, and the leases of other executions.\<close>

definition on_run :: "string \<Rightarrow> stream_call \<Rightarrow> bool" where
  "on_run rid call \<longleftrightarrow> (case lease_of call of None \<Rightarrow> False | Some l \<Rightarrow> trim_space (run_id l) = rid)"

definition of_execution :: "string \<Rightarrow> stream_call \<Rightarrow> bool" where
  "of_execution eid call \<longleftrightarrow>
     (case lease_of call of None \<Rightarrow> False | Some l \<Rightarrow> trim_space (lease_execution_id l) = eid)"

definition refused :: "stream_result \<Rightarrow> bool" where
  "refused r \<longleftrightarrow> r = S_flag False \<or> r = S_event None"

definition read_by :: "time \<Rightarrow> readings \<Rightarrow> bool" where
  "read_by d t \<longleftrightarrow> 0 < at_now t \<and> at_now t \<le> d \<and> 0 < at_2 t \<and> at_2 t \<le> d"

lemma alive_survives_sweep:
  assumes "streams c rid = Some s" "now \<le> d" "0 < now" "d \<le> active_expires_at s \<or> d \<le> owner_expires_at s"
  shows "streams (maybe_sweep c now) rid = Some s"
  using assms maybe_sweep_cases [of c now]
  by (auto simp: sweep_maps stream_dead_def owner_expired_def active_expired_def is_zero_def zero_time_def)

text \<open>Calls that do not name the run leave it alone.\<close>

lemma ensure_stream_other:
  "trim_space rid' \<noteq> rid \<Longrightarrow> streams (snd (ensure_stream c rid')) rid = streams c rid"
  by (simp add: ensure_stream_def Let_def put_stream_def split: option.split)

lemma streams_put_other [simp]:
  "rid \<noteq> rid' \<Longrightarrow> streams (put_stream rid' s c) rid = streams c rid"
  by (simp add: put_stream_def)

lemma notify_all_streams [simp]: "streams (notify_generation_streams c) = streams c"
  by (simp add: notify_generation_streams_def)

lemma notify_stream_streams [simp]: "streams (snd (notify_stream s c)) = streams c"
  by simp

text \<open>Calls on other runs, the feed and the maintenance do not touch a run that is alive.\<close>

lemma other_run_step:
  assumes "streams c rid = Some s" "d \<le> active_expires_at s \<or> d \<le> owner_expires_at s" "read_by d t"
    and "\<not> on_run rid call" "\<And>r u ttl. call = S_cancel r u ttl \<Longrightarrow> trim_space r \<noteq> rid"
    and "rid \<noteq> trim_space active_feed"
  shows "streams (snd (stream_step c (t, call))) rid = Some s"
proof -
  note alive = alive_survives_sweep [where s = s and d = d, OF _ _ _ assms(2)]
  have t: "0 < at_now t" "at_now t \<le> d" "0 < at_2 t" "at_2 t \<le> d"
    using assms(3) by (simp_all add: read_by_def)
  show ?thesis
  proof (cases call)
    case (S_claim l a b)
    then have o: "trim_space (run_id l) \<noteq> rid" using assms(4) by (simp add: on_run_def)
    with ensure_stream_other [of "trim_space (run_id l)" rid c] assms(1) t show ?thesis
      unfolding S_claim
      by (auto simp: claim_generation_stream_def Let_def case_prod_beta simp del: notify_stream_simps
          split: option.split intro!: alive)
  next
    case (S_feed i m ttl)
    with ensure_stream_other [of active_feed rid c] assms(1,6) t show ?thesis
      by (auto simp: append_active_generation_event_def case_prod_beta append_event_chan
          simp del: notify_stream_simps intro!: alive)
  next
    case (S_renew l a b)
    with assms(1,4) t show ?thesis
      by (auto simp: on_run_def renew_generation_stream_lease_def Let_def split: option.split
          intro!: alive)
  next
    case (S_complete l r)
    with assms(1,4) t show ?thesis
      by (auto simp: on_run_def complete_generation_stream_def Let_def case_prod_beta
          simp del: notify_stream_simps split: option.split intro!: alive)
  next
    case (S_abandon l)
    with assms(1,4) t show ?thesis
      by (auto simp: on_run_def abandon_generation_stream_def Let_def case_prod_beta split: option.split)
  next
    case (S_cancel r u ttl)
    with assms(1) assms(5) [OF S_cancel] t show ?thesis
      by (auto simp: request_generation_stream_cancel_def Let_def case_prod_beta
          simp del: notify_stream_simps split: option.split intro!: alive)
  next
    case (S_append l i m ttl)
    with assms(1,4) t show ?thesis
      by (auto simp: on_run_def append_generation_stream_event_def Let_def case_prod_beta
          append_event_chan simp del: notify_stream_simps split: option.split intro!: alive)
  next
    case (S_reset l)
    with assms(1,4) t show ?thesis
      by (auto simp: on_run_def reset_generation_stream_events_def Let_def case_prod_beta
          simp del: notify_stream_simps split: option.split)
  next
    case S_upkeep
    with assms(1) t show ?thesis by (auto intro!: alive)
  qed
qed

lemma active_until: "0 < now \<Longrightarrow> now \<le> d \<Longrightarrow> d \<le> active_expires_at s \<Longrightarrow> \<not> active_expired s now"
  by (simp add: active_expired_def is_zero_def zero_time_def)

text \<open>A cancellation changes neither the lease nor the log.\<close>

lemma cancel_step:
  assumes "streams c rid = Some s" "d \<le> active_expires_at s \<or> d \<le> owner_expires_at s" "read_by d t"
  shows "\<exists>s'. streams (snd (stream_step c (t, S_cancel r u ttl))) rid = Some s' \<and> same_log s' s \<and>
     execution_id s' = execution_id s \<and> active_expires_at s' = active_expires_at s \<and>
     owner_expires_at s' = owner_expires_at s"
proof (cases "trim_space r = rid")
  case True
  let ?s = "s\<lparr>cancel_expires_at := ttl_from (at_1 t) ttl, stream_chan := next_chan c\<rparr>"
  have "streams (maybe_sweep (put_stream rid ?s c') (at_2 t)) rid = Some ?s" for c'
    using assms by (intro alive_survives_sweep [where d = d]) (auto simp: read_by_def)
  with True assms(1) show ?thesis
    by (auto simp: request_generation_stream_cancel_def Let_def notify_stream_def same_log_def same_content_def)
next
  case False
  have "streams (snd (stream_step c (t, S_cancel r u ttl))) rid = Some s"
    using assms False alive_survives_sweep [where s = s and d = d, OF _ _ _ assms(2)]
    by (auto simp: request_generation_stream_cancel_def Let_def case_prod_beta read_by_def
        simp del: notify_stream_simps split: option.split)
  then show ?thesis by (simp add: same_log_def same_content_def)
qed

lemma foreign_refused:
  assumes "streams c rid = Some s" "execution_id s = eid" "d \<le> active_expires_at s" "read_by d t"
    and "on_run rid call" "\<not> of_execution eid call"
  shows "refused (fst (stream_step c (t, call))) \<and> snd (stream_step c (t, call)) = c"
proof -
  have "\<not> active_expired s (at_now t)"
    using assms(3,4) by (intro active_until [where d = d]) (auto simp: read_by_def)
  then show ?thesis
    using assms(1,2,5,6)
    by (cases call) (auto simp: on_run_def of_execution_def refused_def claim_generation_stream_def
        renew_generation_stream_lease_def complete_generation_stream_def abandon_generation_stream_def
        append_generation_stream_event_def reset_generation_stream_events_def lease_matches_def Let_def)
qed

lemma held_step:
  assumes "held_by rid eid d s0 c" "read_by d t" "rid \<noteq> trim_space active_feed"
    and "on_run rid call \<Longrightarrow> \<not> of_execution eid call"
  shows "held_by rid eid d s0 (snd (stream_step c (t, call))) \<and>
         (on_run rid call \<longrightarrow> refused (fst (stream_step c (t, call))))"
proof -
  obtain s where s: "streams c rid = Some s" "execution_id s = eid" "d \<le> active_expires_at s"
      "same_log s s0"
    using assms(1) by (auto simp: held_by_def)
  show ?thesis
  proof (cases "on_run rid call")
    case True
    with foreign_refused [OF s(1-3) assms(2)] assms(1,4) show ?thesis by simp
  next
    case False
    show ?thesis
    proof (cases "\<exists>r u ttl. call = S_cancel r u ttl")
      case True
      then obtain r u ttl where "call = S_cancel r u ttl" by blast
      with cancel_step [OF s(1) disjI1 [OF s(3)] assms(2)] s False show ?thesis
        by (fastforce simp: held_by_def same_log_def same_content_def)
    next
      case no: False
      with other_run_step [OF s(1) disjI1 [OF s(3)] assms(2) False _ assms(3)] s False show ?thesis
        by (auto simp: held_by_def)
    qed
  qed
qed

lemma claim_holds:
  assumes "claim_generation_stream c l ttl own now t1 t2 = (True, c1)" "0 < ttl" "0 < now" "now \<le> t2"
  shows "\<exists>s. streams c1 (trim_space (run_id l)) = Some s \<and>
     execution_id s = trim_space (lease_execution_id l) \<and> active_expires_at s = t2 + ttl"
proof -
  let ?rid = "trim_space (run_id l)"
  let ?set = "\<lambda>s. s\<lparr>owner_id := lease_user_id l, execution_id := trim_space (lease_execution_id l),
      conversation_id := trim_space (lease_conversation_id l),
      owner_expires_at := ttl_from t1 (if own < ttl then ttl else own),
      active_expires_at := ttl_from t2 ttl, cancel_expires_at := zero_time\<rparr>"
  have ttl: "ttl_from t2 ttl = t2 + ttl" using assms(2) by (simp add: ttl_from_def)
  have keep: "streams (maybe_sweep (notify_generation_streams (put_stream ?rid
        (fst (notify_stream (?set s) c')) (snd (notify_stream (?set s) c')))) now) ?rid =
      Some (fst (notify_stream (?set s) c'))" for s c'
    using assms(2-4) by (intro alive_survives_sweep [where d = now]) (simp_all add: ttl)
  show ?thesis
  proof (cases "streams c ?rid")
    case None
    with assms(1) keep [of "fst (ensure_stream c ?rid)" "snd (ensure_stream c ?rid)"] show ?thesis
      by (auto simp: claim_generation_stream_def Let_def case_prod_beta ttl simp del: notify_stream_simps
          split: if_splits) (auto simp: ttl notify_stream_def)
  next
    case (Some s)
    with assms(1) keep [of "reset_events s" c] show ?thesis
      by (auto simp: claim_generation_stream_def Let_def case_prod_beta ttl simp del: notify_stream_simps
          split: if_splits) (auto simp: ttl notify_stream_def)
  qed
qed

lemma held_run:
  assumes "held_by rid eid d s0 c" "rid \<noteq> trim_space active_feed"
    and "\<forall>(t, call) \<in> set h. read_by d t \<and> (on_run rid call \<longrightarrow> \<not> of_execution eid call)"
  shows "held_by rid eid d s0 (snd (stream_run c h)) \<and>
         (\<forall>((t, call), r) \<in> set (zip h (fst (stream_run c h))). on_run rid call \<longrightarrow> refused r)"
  using assms(1,3)
proof (induction h arbitrary: c)
  case (Cons e h)
  obtain t call where e: "e = (t, call)" by (cases e)
  have "read_by d t" "on_run rid call \<Longrightarrow> \<not> of_execution eid call"
    using Cons.prems(2) e by auto
  note step = held_step [OF Cons.prems(1) this(1) assms(2) this(2)]
  from Cons.IH [OF conjunct1 [OF step]] step Cons.prems(2)
  show ?case by (simp add: e case_prod_beta)
qed simp

text \<open>
  C13. A run has one executor: after an execution has claimed it, and until its lease runs out
  unrenewed, every claim, renewal, completion, abandonment, append or reset on the run under another
  execution is refused, and the run's lease and log are untouched by whatever other calls are made.
\<close>

theorem run_has_one_executor:
  assumes "claim_generation_stream c l ttl own now t1 t2 = (True, c1)" "0 < ttl" "0 < now" "now \<le> t2"
    and "streams c1 rid = Some s0" "rid = trim_space (run_id l)" "rid \<noteq> trim_space active_feed"
    and "eid = trim_space (lease_execution_id l)"
    and "\<forall>(t, call) \<in> set h. read_by (t2 + ttl) t \<and> (on_run rid call \<longrightarrow> \<not> of_execution eid call)"
  shows "(\<exists>s. streams (snd (stream_run c1 h)) rid = Some s \<and> execution_id s = eid \<and> same_log s s0) \<and>
         (\<forall>((t, call), r) \<in> set (zip h (fst (stream_run c1 h))). on_run rid call \<longrightarrow> refused r)"
proof -
  have "held_by rid eid (t2 + ttl) s0 c1"
    using claim_holds [OF assms(1-4)] assms(5,6,8) by (auto simp: held_by_def same_log_def same_content_def)
  from held_run [OF this assms(7,9)] show ?thesis by (auto simp: held_by_def)
qed

section \<open>Completed runs\<close>

text \<open>
  The run is completed, its ownership and its events last at least until \<open>d\<close>, and its log has the content of \<open>s0\<close>. A
  completion under a lease without an execution id passes the check of a completed run, whose
  execution id is blank, and sets a new retention; the executor never makes one.
\<close>

definition sealed_until :: "string \<Rightarrow> time \<Rightarrow> generation_stream \<Rightarrow> cache \<Rightarrow> bool" where
  "sealed_until rid d s0 c \<longleftrightarrow>
     (\<exists>s. streams c rid = Some s \<and> execution_id s = [] \<and> is_zero (active_expires_at s) \<and>
          d \<le> owner_expires_at s \<and> d \<le> events_expires_at s \<and> same_content s s0)"

fun names_execution :: "stream_call \<Rightarrow> bool" where
  "names_execution (S_complete l ttl) \<longleftrightarrow> trim_space (lease_execution_id l) \<noteq> []"
| "names_execution call \<longleftrightarrow> True"

lemma sealed_refuses:
  assumes "streams c rid = Some s" "execution_id s = []" "is_zero (active_expires_at s)"
    and "d \<le> owner_expires_at s" "read_by d t" "on_run rid call" "names_execution call"
  shows "refused (fst (stream_step c (t, call))) \<and> snd (stream_step c (t, call)) = c"
proof -
  have "active_expired s u" for u using assms(3) by (simp add: active_expired_def)
  moreover have "\<not> owner_expired s (at_now t)"
    using assms(4,5) by (auto simp: owner_expired_def read_by_def is_zero_def zero_time_def)
  ultimately show ?thesis
    using assms(1,2,6,7)
    by (cases call) (auto simp: on_run_def refused_def claim_generation_stream_def
        renew_generation_stream_lease_def complete_generation_stream_def abandon_generation_stream_def
        append_generation_stream_event_def reset_generation_stream_events_def lease_matches_def Let_def)
qed

lemma sealed_step:
  assumes "sealed_until rid d s0 c" "read_by d t" "rid \<noteq> trim_space active_feed" "names_execution call"
  shows "sealed_until rid d s0 (snd (stream_step c (t, call))) \<and>
         (on_run rid call \<longrightarrow> refused (fst (stream_step c (t, call))))"
proof -
  obtain s where s: "streams c rid = Some s" "execution_id s = []" "is_zero (active_expires_at s)"
      "d \<le> owner_expires_at s" "d \<le> events_expires_at s" "same_content s s0"
    using assms(1) by (auto simp: sealed_until_def)
  show ?thesis
  proof (cases "on_run rid call")
    case True
    with sealed_refuses [OF s(1-4) assms(2)] assms(1,4) show ?thesis by simp
  next
    case False
    show ?thesis
    proof (cases "\<exists>r u ttl. call = S_cancel r u ttl")
      case True
      then obtain r u ttl where "call = S_cancel r u ttl" by blast
      with cancel_step [OF s(1) disjI2 [OF s(4)] assms(2)] s False show ?thesis
        by (fastforce simp: sealed_until_def same_log_def same_content_def)
    next
      case no: False
      with other_run_step [OF s(1) disjI2 [OF s(4)] assms(2) False _ assms(3)] s False show ?thesis
        by (auto simp: sealed_until_def)
    qed
  qed
qed

lemma complete_seals:
  assumes "complete_generation_stream c l ttl now t1 t2 t3 = (True, c1)" "0 < ttl" "0 < now" "now \<le> t1"
    and "streams c (trim_space (run_id l)) = Some s" "d \<le> t1 + ttl" "d \<le> t2 + ttl"
  shows "sealed_until (trim_space (run_id l)) d s c1"
proof -
  let ?rid = "trim_space (run_id l)"
  obtain s' where c1: "c1 = maybe_sweep (notify_generation_streams (put_stream ?rid
      (fst (notify_stream s' c)) (snd (notify_stream s' c)))) now"
    and s': "execution_id s' = []" "is_zero (active_expires_at s')" "owner_expires_at s' = t1 + ttl"
      "events_expires_at s' = t2 + ttl" "same_content s' s"
    using assms(1,2,5)
    by (auto simp: complete_generation_stream_def Let_def case_prod_beta ttl_from_def is_zero_def same_content_def
        simp del: notify_stream_simps split: option.splits if_splits)
  have "streams c1 ?rid = Some (fst (notify_stream s' c))"
    unfolding c1 using assms(2-4) s'(3) by (intro alive_survives_sweep [where d = now]) simp_all
  with s' assms(6,7) show ?thesis by (simp add: sealed_until_def same_content_def)
qed

lemma sealed_run:
  assumes "sealed_until rid d s0 c" "rid \<noteq> trim_space active_feed"
    and "\<forall>(t, call) \<in> set h. read_by d t \<and> names_execution call"
  shows "sealed_until rid d s0 (snd (stream_run c h)) \<and>
         (\<forall>((t, call), r) \<in> set (zip h (fst (stream_run c h))). on_run rid call \<longrightarrow> refused r)"
  using assms(1,3)
proof (induction h arbitrary: c)
  case (Cons e h)
  obtain t call where e: "e = (t, call)" by (cases e)
  have "read_by d t" "names_execution call" using Cons.prems(2) e by auto
  note step = sealed_step [OF Cons.prems(1) this(1) assms(2) this(2)]
  from Cons.IH [OF conjunct1 [OF step]] step Cons.prems(2)
  show ?case by (simp add: e case_prod_beta)
qed simp

text \<open>
  C24. A completed run is sealed for its retention. Whatever calls are made in that time (a completion that names no
  execution excepted), every claim, renewal, completion, abandonment, append or reset on the run is refused, also
  those of the execution that completed it; and a client that comes back at any time before the retention ends
  finds the log as it was when the run completed: all its events, by a listing or by a read after any cursor, and
  both snapshots.
\<close>

theorem completed_run_is_sealed:
  assumes "complete_generation_stream c l ttl now t1 t2 t3 = (True, c1)" "0 < ttl" "0 < now" "now \<le> t1"
    and "streams c rid = Some s" "rid = trim_space (run_id l)" "rid \<noteq> trim_space active_feed"
    and "d \<le> t1 + ttl" "d \<le> t2 + ttl" "\<forall>(t, call) \<in> set h. read_by d t \<and> names_execution call"
    and "c' = snd (stream_run c1 h)" "0 < u" "u \<le> d"
  shows "(\<forall>((t, call), r) \<in> set (zip h (fst (stream_run c1 h))). on_run rid call \<longrightarrow> refused r) \<and>
    list_generation_stream_events c' (run_id l) 0 u = stream_events s \<and>
    get_text_snapshot c' (run_id l) u =
      (if text_seq s \<le> 0 then None else Some \<lparr>ts_seq = text_seq s, ts_content = text_content s\<rparr>) \<and>
    get_think_snapshot c' (run_id l) u =
      (if think_seq s \<le> 0 then None
       else Some \<lparr>ks_seq = think_seq s, ks_round_id = think_round_id s, ks_content = think_content s,
                  ks_metadata = think_metadata s\<rparr>) \<and>
    (let found = generation_events_after (stream_events s) after limit
     in if found = [] then \<exists>ch. stream_read_attempt c' (run_id l) after limit u = Inr ch
        else stream_read_attempt c' (run_id l) after limit u = Inl found)"
proof -
  have "sealed_until rid d s c1"
    using complete_seals [OF assms(1-4) _ assms(8,9)] assms(5,6) by simp
  note run = sealed_run [OF this assms(7,10)]
  then obtain s' where s': "streams c' (trim_space (run_id l)) = Some s'" "d \<le> events_expires_at s'" "same_content s' s"
    using assms(6,11) by (auto simp: sealed_until_def)
  have "\<not> events_expired s' u"
    using s'(2) assms(12,13) by (auto simp: events_expired_def is_zero_def zero_time_def)
  then show ?thesis
    using run s'(1,3)
    by (auto simp: list_generation_stream_events_def get_text_snapshot_def get_think_snapshot_def
        stream_read_attempt_def same_content_def Let_def)
qed

section \<open>Resuming\<close>

lemma events_after_loop_eq:
  "events_after_loop evs a limit res =
     (let new = filter (\<lambda>m. a < sm_seq m) evs
      in if limit \<le> 0 then res @ new
         else if int (length res) < limit then res @ take (nat limit - length res) new
         else if new = [] then res else res @ [hd new])"
proof (induction evs arbitrary: res)
  case (Cons m evs)
  have "nat limit - length res = Suc (nat limit - Suc (length res))" if "int (length res) < limit"
    using that by (simp add: Suc_diff_Suc zless_nat_eq_int_zless)
  with Cons show ?case by (auto simp: Let_def not_less)
qed (simp add: Let_def)

lemma generation_events_after_eq:
  "generation_events_after evs a limit =
     (let new = filter (\<lambda>m. a < sm_seq m) evs in if limit \<le> 0 then new else take (nat limit) new)"
  by (simp add: generation_events_after_def events_after_loop_eq Let_def)

lemma filter_upto: "filter (\<lambda>n. a < n) [i..j] = [max i (a + 1)..j]"
proof (induction i j rule: upto.induct)
  case (1 i j)
  show ?case
  proof (cases "i \<le> j")
    case True
    have "a < i \<Longrightarrow> max i (a + 1) = i" "\<not> a < i \<Longrightarrow> max i (a + 1) = max (i + 1) (a + 1)"
      by (simp_all add: max_def)
    moreover have "a < i \<Longrightarrow> max (i + 1) (a + 1) = i + 1" by (simp add: max_def)
    ultimately show ?thesis using 1 True by (cases "a < i") (simp_all add: upto_rec1 [of i j])
  qed simp
qed

lemma take_upto: "take n [i..j] = [i..min j (i + int n - 1)]"
proof (induction n arbitrary: i)
  case (Suc n)
  show ?case
  proof (cases "i \<le> j")
    case True
    then have "take (Suc n) [i..j] = i # [i + 1..min j (i + 1 + int n - 1)]"
      by (simp add: upto_rec1 Suc)
    also have "\<dots> = [i..min j (i + int (Suc n) - 1)]"
      using True by (subst (2) upto_rec1) simp_all
    finally show ?thesis .
  qed simp
qed simp

text \<open>
  The events of one read after a cursor carry consecutive numbers that start right after the cursor, or at the
  oldest event still retained when the cursor is older.
\<close>

lemma cursor_resumes_without_gap:
  assumes "c = snd (stream_run new_cache h)" "stream_read_attempt c rid after limit now = Inl records"
    and "streams c (trim_space rid) = Some s"
  shows "map sm_seq records =
           [max (stream_seq s - int (length (stream_events s)) + 1) (after + 1) ..
            hd (map sm_seq records) + int (length records) - 1] \<and> records \<noteq> [] \<and>
         hd (map sm_seq records) =
           max (stream_seq s - int (length (stream_events s)) + 1) (after + 1)"
proof -
  let ?i = "max (stream_seq s - int (length (stream_events s)) + 1) (after + 1)"
  have "all_streams log_ok c" using assms(1) stream_run_log_ok by simp
  from all_streamsD [OF this assms(3)]
  have seqs: "map sm_seq (stream_events s) =
      [stream_seq s - int (length (stream_events s)) + 1 .. stream_seq s]"
    by (simp add: log_ok_def)
  have rec: "records = generation_events_after (stream_events s) after limit" "records \<noteq> []"
    using assms(2,3) by (auto simp: stream_read_attempt_def Let_def split: if_splits)
  have new: "map sm_seq (filter (\<lambda>m. after < sm_seq m) (stream_events s)) = [?i..stream_seq s]"
    using arg_cong [OF seqs, of "filter (\<lambda>n. after < n)"]
    by (simp add: filter_map comp_def filter_upto)
  obtain j where j: "map sm_seq records = [?i..j]"
    using rec(1) new
    by (cases "limit \<le> 0") (auto simp: generation_events_after_eq Let_def take_map [symmetric] take_upto)
  with rec(2) have "?i \<le> j" by (cases "?i \<le> j") auto
  then have "hd (map sm_seq records) = ?i"
    using j by (simp add: upto_rec1)
  moreover have "int (length records) = j - ?i + 1"
    using \<open>?i \<le> j\<close> arg_cong [OF j, of length] by simp
  ultimately show ?thesis using j rec(2) by simp
qed

section \<open>A concrete run\<close>

definition sample_lease :: "string \<Rightarrow> stream_lease" where
  "sample_lease eid =
     \<lparr>run_id = ''r'', lease_execution_id = eid, lease_user_id = 7, lease_conversation_id = ''c''\<rparr>"

definition sample_at :: "int \<Rightarrow> readings" where
  "sample_at n = \<lparr>at_now = n * second, at_1 = n * second, at_2 = n * second, at_3 = n * second\<rparr>"

definition sample_calls :: "(readings \<times> stream_call) list" where
  "sample_calls =
     [(sample_at 1, S_claim (sample_lease ''e1'') minute minute),
      (sample_at 2, S_append (sample_lease ''e1'')
         \<lparr>sa_payload = ''p'', sa_text_delta = ''hi'', sa_think = None\<rparr> 10 minute)]"

definition sample_stream :: generation_stream where
  "sample_stream =
     \<lparr>owner_id = 7, execution_id = ''e1'', conversation_id = ''c'',
      owner_expires_at = second + minute, active_expires_at = second + minute,
      cancel_expires_at = zero_time, events_expires_at = 2 * second + minute, stream_seq = 1,
      stream_events = [\<lparr>sm_id = ''1'', sm_seq = 1, sm_payload = ''p''\<rparr>],
      text_content = ''hi'', text_seq = 1, think_content = [], think_seq = 0, think_round_id = [],
      think_metadata = [], stream_chan = 6\<rparr>"

lemma sample_trims:
  "trim_space ''r'' = ''r''" "trim_space ''c'' = ''c''" "trim_space ''e1'' = ''e1''"
  "trim_space ''e2'' = ''e2''" "format_int 1 = ''1''" "trim_space active_feed = active_feed"
  by code_simp+

lemma sample_not_feed: "''r'' \<noteq> trim_space active_feed"
  unfolding sample_trims(6) by (simp add: active_feed_def)

lemma sample_claimed:
  "claim_generation_stream new_cache (sample_lease ''e1'') minute minute second second second =
     (True, snd (stream_step new_cache (sample_at 1, S_claim (sample_lease ''e1'') minute minute)))"
  by (simp add: sample_lease_def sample_trims sample_at_def claim_generation_stream_def Let_def
      case_prod_beta)

lemma sample_state:
  "streams (snd (stream_run new_cache sample_calls)) ''r'' = Some sample_stream"
  by (simp add: sample_calls_def sample_lease_def sample_at_def sample_stream_def sample_trims
      claim_generation_stream_def append_generation_stream_event_def append_event_def ensure_stream_def
      notify_stream_def notify_generation_streams_def put_stream_def fresh_stream_def Let_def
      case_prod_beta new_cache_def maybe_sweep_def maintenance_interval_def active_expired_def
      is_zero_def zero_time_def ttl_from_def push_event_def append_think_def next_message_def
      cut_events_def second_def minute_def)

theorem event_log_is_gapless_witness:
  "map sm_seq (stream_events sample_stream) = [1 .. 1]"
  using event_log_is_gapless [OF sample_state] by (simp add: sample_stream_def)

theorem run_has_one_executor_witness:
  "\<exists>s. streams (snd (stream_run
      (snd (stream_step new_cache (sample_at 1, S_claim (sample_lease ''e1'') minute minute)))
      [(sample_at 2, S_claim (sample_lease ''e2'') minute minute)])) ''r'' = Some s \<and>
     execution_id s = ''e1''"
proof -
  let ?c1 = "snd (stream_step new_cache (sample_at 1, S_claim (sample_lease ''e1'') minute minute))"
  have pos: "0 < minute" "0 < second" "second \<le> second" by simp_all
  obtain s0 where s0: "streams ?c1 ''r'' = Some s0"
    using claim_holds [OF sample_claimed pos] by (auto simp: sample_lease_def sample_trims)
  have h: "\<forall>(t, call) \<in> set [(sample_at 2, S_claim (sample_lease ''e2'') minute minute)].
      read_by (second + minute) t \<and> (on_run ''r'' call \<longrightarrow> \<not> of_execution ''e1'' call)"
    by (simp add: read_by_def sample_at_def second_def minute_def of_execution_def sample_lease_def
        sample_trims)
  have "''r'' = trim_space (run_id (sample_lease ''e1''))" "''r'' \<noteq> trim_space active_feed"
      "''e1'' = trim_space (lease_execution_id (sample_lease ''e1''))"
    by (simp_all add: sample_lease_def sample_trims(1-5) sample_not_feed)
  from run_has_one_executor [OF sample_claimed pos s0 this h] show ?thesis by blast
qed

lemma sample_completed:
  "complete_generation_stream (snd (stream_run new_cache sample_calls)) (sample_lease ''e1'')
     minute (3 * second) (3 * second) (3 * second) (3 * second) =
   (True, snd (complete_generation_stream (snd (stream_run new_cache sample_calls)) (sample_lease ''e1'')
     minute (3 * second) (3 * second) (3 * second) (3 * second)))"
  by (simp add: complete_generation_stream_def sample_state Let_def case_prod_beta sample_lease_def
      sample_trims lease_matches_def sample_stream_def owner_expired_def is_zero_def zero_time_def
      second_def minute_def)

theorem completed_run_is_sealed_witness:
  "let c' = snd (stream_run
      (snd (complete_generation_stream (snd (stream_run new_cache sample_calls)) (sample_lease ''e1'')
         minute (3 * second) (3 * second) (3 * second) (3 * second)))
      [(sample_at 4, S_claim (sample_lease ''e2'') minute minute)])
   in list_generation_stream_events c' ''r'' 0 (50 * second) = [\<lparr>sm_id = ''1'', sm_seq = 1, sm_payload = ''p''\<rparr>] \<and>
      get_text_snapshot c' ''r'' (50 * second) = Some \<lparr>ts_seq = 1, ts_content = ''hi''\<rparr> \<and>
      stream_read_attempt c' ''r'' 0 5 (50 * second) = Inl [\<lparr>sm_id = ''1'', sm_seq = 1, sm_payload = ''p''\<rparr>]"
proof -
  have pos: "0 < minute" "0 < 3 * second" "3 * second \<le> 3 * second"
      "3 * second + minute \<le> 3 * second + minute" "0 < 50 * second" "50 * second \<le> 3 * second + minute"
    by (simp_all add: second_def minute_def)
  have h: "\<forall>(t, call) \<in> set [(sample_at 4, S_claim (sample_lease ''e2'') minute minute)].
      read_by (3 * second + minute) t \<and> names_execution call"
    by (simp add: read_by_def sample_at_def second_def minute_def)
  have run: "''r'' = trim_space (run_id (sample_lease ''e1''))" "''r'' \<noteq> trim_space active_feed"
      "run_id (sample_lease ''e1'') = ''r''"
    by (simp_all add: sample_lease_def sample_trims(1-5) sample_not_feed)
  from completed_run_is_sealed [OF sample_completed pos(1-3) sample_state run(1,2) pos(4,4) h refl pos(5,6), of 0 5]
  show ?thesis
    by (simp add: run(3) sample_stream_def generation_events_after_def Let_def)
qed

end
