(* ===== verification/Stream_Reader.thy ===== *)
theory Stream_Reader
  imports Stream_Props
begin

text \<open>
  A client that watches a run (application/conversation/generation_stream.go): it subscribes, gets the retained events
  after the number it names, and then what the reader of the store finds, which keeps the id of the last record as its
  cursor. What encoding/json makes of a payload is a parameter; the fields of it that the code looks at are a record.
  Every look at the store has its own state and clock, as other requests run in between. The cancellation of the client's
  request, which ends the reader between two steps, and a stored payload null, at which the decoder would panic, are left out.
\<close>

section \<open>Events\<close>

record json_payload =
  jp_type :: string
  jp_seq :: int
  jp_has_content :: bool

text \<open>An event has the payload of its record, or it is made from a checkpoint.\<close>

datatype event_body =
    Stored_payload string
  | Text_checkpoint text_snapshot
  | Think_checkpoint think_snapshot

record stream_event =
  ev_id :: string
  ev_seq :: int
  ev_type :: string
  ev_body :: event_body

definition delta_type :: string where
  "delta_type = ''delta''"

definition think_delta_type :: string where
  "think_delta_type = ''upstream_think_delta''"

definition is_terminal_type :: "string \<Rightarrow> bool" where
  "is_terminal_type t \<longleftrightarrow> t = ''completed'' \<or> t = ''error'' \<or> t = ''moderation_blocked''"

definition decode_stream_record :: "(string \<Rightarrow> json_payload option) \<Rightarrow> stream_message \<Rightarrow> stream_event option" where
  "decode_stream_record json m =
     (case json (sm_payload m) of
        None \<Rightarrow> None
      | Some p \<Rightarrow>
          let seq = (if sm_seq m \<le> 0 then jp_seq p else sm_seq m)
          in if seq \<le> 0 then None
             else Some \<lparr>ev_id = sm_id m, ev_seq = seq, ev_type = jp_type p, ev_body = Stored_payload (sm_payload m)\<rparr>)"

definition payload_has_content :: "(string \<Rightarrow> json_payload option) \<Rightarrow> stream_message \<Rightarrow> bool" where
  "payload_has_content json m = (case json (sm_payload m) of None \<Rightarrow> False | Some p \<Rightarrow> jp_has_content p)"

definition text_event :: "text_snapshot \<Rightarrow> stream_event" where
  "text_event t = \<lparr>ev_id = [], ev_seq = ts_seq t, ev_type = delta_type, ev_body = Text_checkpoint t\<rparr>"

definition think_event :: "think_snapshot \<Rightarrow> stream_event" where
  "think_event k = \<lparr>ev_id = [], ev_seq = ks_seq k, ev_type = think_delta_type, ev_body = Think_checkpoint k\<rparr>"

section \<open>The replay\<close>

record retained_input =
  ri_after :: int
  ri_text :: "text_snapshot option"
  ri_think :: "think_snapshot option"
  ri_include :: bool

text \<open>The number of a checkpoint, 0 without one.\<close>

definition text_seq_of :: "text_snapshot option \<Rightarrow> int" where
  "text_seq_of t = (case t of None \<Rightarrow> 0 | Some t \<Rightarrow> ts_seq t)"

definition think_seq_of :: "think_snapshot option \<Rightarrow> int" where
  "think_seq_of k = (case k of None \<Rightarrow> 0 | Some k \<Rightarrow> ks_seq k)"

text \<open>The pending checkpoints whose number is below that of the event, in the order of their numbers.\<close>

function snapshots_before ::
  "int \<Rightarrow> text_snapshot option \<Rightarrow> think_snapshot option \<Rightarrow>
     stream_event list \<times> text_snapshot option \<times> think_snapshot option" where
  "snapshots_before seq text think =
     (if text \<noteq> None \<and> text_seq_of text < seq \<or> think \<noteq> None \<and> think_seq_of think < seq
      then if text \<noteq> None \<and> (think = None \<or> text_seq_of text \<le> think_seq_of think)
           then map_prod ((#) (text_event (the text))) (\<lambda>rest. rest) (snapshots_before seq None think)
           else map_prod ((#) (think_event (the think))) (\<lambda>rest. rest) (snapshots_before seq text None)
      else ([], text, think))"
  by pat_completeness auto

termination
  by (relation "measure (\<lambda>(seq, text, think). (if text = None then 0 else 1) + (if think = None then 0 else 1))") auto

declare snapshots_before.simps [simp del]

text \<open>The pending ones after the last record: both by their numbers, or the one that is left.\<close>

definition snapshots_left :: "text_snapshot option \<Rightarrow> think_snapshot option \<Rightarrow> stream_event list" where
  "snapshots_left text think =
     (case (text, think) of
        (Some t, Some k) \<Rightarrow>
          if ts_seq t \<le> ks_seq k then [text_event t, think_event k] else [think_event k, text_event t]
      | _ \<Rightarrow> map text_event (List.map_filter (\<lambda>t. t) [text]) @ map think_event (List.map_filter (\<lambda>k. k) [think]))"

text \<open>
  The loop over the records, with the replay, the cursor, whether a final event was seen, and the checkpoints that
  are pending; \<open>None\<close> is a replay that is not safe.
\<close>

record replay_state =
  rs_replay :: "stream_event list"
  rs_cursor :: string
  rs_terminal :: bool
  rs_text :: "text_snapshot option"
  rs_think :: "think_snapshot option"

definition covered_by_checkpoint :: "int \<Rightarrow> int \<Rightarrow> stream_event \<Rightarrow> bool" where
  "covered_by_checkpoint text think e \<longleftrightarrow>
     ev_type e = delta_type \<and> ev_seq e \<le> text \<or> ev_type e = think_delta_type \<and> ev_seq e \<le> think"

definition unsafe_without_checkpoint ::
  "(string \<Rightarrow> json_payload option) \<Rightarrow> retained_input \<Rightarrow> stream_message \<Rightarrow> stream_event \<Rightarrow> bool" where
  "unsafe_without_checkpoint json inp m e \<longleftrightarrow> ri_include inp \<and>
     (ev_type e = delta_type \<and> ri_text inp = None \<or>
      ev_type e = think_delta_type \<and> ri_think inp = None \<and> payload_has_content json m)"

definition move_cursor :: "stream_message \<Rightarrow> string \<Rightarrow> string" where
  "move_cursor m cursor = (if trim_space (sm_id m) \<noteq> [] then sm_id m else cursor)"

definition replay_record ::
  "(string \<Rightarrow> json_payload option) \<Rightarrow> retained_input \<Rightarrow> stream_message \<Rightarrow> replay_state \<Rightarrow> replay_state option" where
  "replay_record json inp m st =
     (let st = st\<lparr>rs_cursor := move_cursor m (rs_cursor st)\<rparr>
      in case decode_stream_record json m of
           None \<Rightarrow> Some st
         | Some e \<Rightarrow>
             let (before, text, think) = snapshots_before (ev_seq e) (rs_text st) (rs_think st);
                 st = st\<lparr>rs_replay := rs_replay st @ before, rs_text := text, rs_think := think,
                   rs_terminal := rs_terminal st \<or> is_terminal_type (ev_type e)\<rparr>
             in if unsafe_without_checkpoint json inp m e then None
                else if ri_include inp \<and>
                  covered_by_checkpoint (text_seq_of (ri_text inp)) (think_seq_of (ri_think inp)) e then Some st
                else if ri_after inp < ev_seq e then Some (st\<lparr>rs_replay := rs_replay st @ [e]\<rparr>)
                else Some st)"

fun replay_records ::
  "(string \<Rightarrow> json_payload option) \<Rightarrow> retained_input \<Rightarrow> stream_message list \<Rightarrow> replay_state \<Rightarrow> replay_state option" where
  "replay_records json inp [] st = Some st"
| "replay_records json inp (m # ms) st =
     (case replay_record json inp m st of None \<Rightarrow> None | Some st \<Rightarrow> replay_records json inp ms st)"

text \<open>The replay, the cursor and whether the run is over.\<close>

definition retained_stream_events ::
  "(string \<Rightarrow> json_payload option) \<Rightarrow> retained_input \<Rightarrow> stream_message list \<Rightarrow>
     (stream_event list \<times> string \<times> bool) option" where
  "retained_stream_events json inp records =
     (case replay_records json inp records
        \<lparr>rs_replay = [], rs_cursor = ''0-0'', rs_terminal = False,
         rs_text = (if ri_include inp then ri_text inp else None),
         rs_think = (if ri_include inp then ri_think inp else None)\<rparr> of
        None \<Rightarrow> None
      | Some st \<Rightarrow> Some (rs_replay st @ snapshots_left (rs_text st) (rs_think st), rs_cursor st, rs_terminal st))"

section \<open>The reader of the store\<close>

record subscription =
  sub_cursor :: string
  sub_after :: int
  sub_text :: int
  sub_think :: int

fun deliver_records ::
  "(string \<Rightarrow> json_payload option) \<Rightarrow> subscription \<Rightarrow> stream_message list \<Rightarrow> stream_event list \<times> subscription \<times> bool" where
  "deliver_records json sub [] = ([], sub, False)"
| "deliver_records json sub (m # ms) =
     (let sub = sub\<lparr>sub_cursor := move_cursor m (sub_cursor sub)\<rparr>
      in if sm_seq m \<le> sub_after sub then deliver_records json sub ms
         else case decode_stream_record json m of
           None \<Rightarrow> deliver_records json sub ms
         | Some e \<Rightarrow>
             if covered_by_checkpoint (sub_text sub) (sub_think sub) e then deliver_records json sub ms
             else let sub = sub\<lparr>sub_after := ev_seq e\<rparr>
                  in if is_terminal_type (ev_type e) then ([e], sub, True)
                     else map_prod ((#) e) (\<lambda>rest. rest) (deliver_records json sub ms))"

definition authorized :: "nat \<Rightarrow> string \<Rightarrow> cache \<times> time \<Rightarrow> bool" where
  "authorized uid rid look \<longleftrightarrow>
     uid \<noteq> 0 \<and> get_generation_stream_owner (fst look) rid (snd look) = (uid, True)"

text \<open>
  Each round of the loop has the looks of one read of the store, and the look of the check of the owner. The result is
  what the channel gets and where the reader stands, \<open>None\<close> once it has closed the channel.
\<close>

type_synonym read_round = "(cache \<times> time \<times> bool) list \<times> cache \<times> time"

fun read_store_events ::
  "(string \<Rightarrow> json_payload option) \<Rightarrow> nat \<Rightarrow> string \<Rightarrow> int \<Rightarrow> subscription \<Rightarrow> read_round list \<Rightarrow>
     stream_event list \<times> subscription option" where
  "read_store_events json uid rid limit sub [] = ([], Some sub)"
| "read_store_events json uid rid limit sub ((looks, owner) # rounds) =
     (case read_generation_stream_events rid (sub_cursor sub) limit looks of
        None \<Rightarrow> ([], Some sub)
      | Some records \<Rightarrow>
          if \<not> authorized uid rid owner then ([], None)
          else let (events, sub, ended) = deliver_records json sub records
               in if ended then (events, None)
                  else map_prod ((@) events) (\<lambda>rest. rest) (read_store_events json uid rid limit sub rounds))"

text \<open>The looks of a subscription at the store, in their order.\<close>

record subscribe_looks =
  lk_owner :: "cache \<times> time"
  lk_events :: "cache \<times> time"
  lk_text :: "cache \<times> time"
  lk_think :: "cache \<times> time"
  lk_again :: "cache \<times> time"

definition start_cursor :: "string \<Rightarrow> string" where
  "start_cursor cursor = (if trim_space cursor = [] then ''0-0'' else cursor)"

definition subscribe_store ::
  "(string \<Rightarrow> json_payload option) \<Rightarrow> nat \<Rightarrow> string \<Rightarrow> int \<Rightarrow> bool \<Rightarrow> int \<Rightarrow> subscribe_looks \<Rightarrow>
     (stream_event list \<times> subscription option) option" where
  "subscribe_store json uid rid after include max_events looks =
     (if \<not> authorized uid rid (lk_owner looks) then None
      else
        let retained = list_generation_stream_events (fst (lk_events looks)) rid max_events (snd (lk_events looks));
            text = (if include then get_text_snapshot (fst (lk_text looks)) rid (snd (lk_text looks)) else None);
            think = (if include then get_think_snapshot (fst (lk_think looks)) rid (snd (lk_think looks)) else None)
        in if \<not> authorized uid rid (lk_again looks) then None
           else case retained_stream_events json
               \<lparr>ri_after = after, ri_text = text, ri_think = think, ri_include = include\<rparr> retained of
             None \<Rightarrow> None
           | Some (replay, cursor, terminal) \<Rightarrow>
               Some (replay, if terminal then None
                 else Some \<lparr>sub_cursor = start_cursor cursor, sub_after = after, sub_text = text_seq_of text,
                       sub_think = think_seq_of think\<rparr>))"

section \<open>Stream ids\<close>

lemma undec_grows: "n \<le> foldl (\<lambda>a c. 10 * a + digit_value c) n s"
proof (induction s arbitrary: n)
  case (Cons d s)
  have "n \<le> 10 * n + digit_value d" by simp
  also have "\<dots> \<le> foldl (\<lambda>a c. 10 * a + digit_value c) (10 * n + digit_value d) s" by (rule Cons)
  finally show ?case by simp
qed simp

lemma parse_uint_digits:
  assumes "list_all is_digit s" "foldl (\<lambda>a c. 10 * a + digit_value c) n s < 2 ^ 63"
  shows "parse_uint n s = Some (foldl (\<lambda>a c. 10 * a + digit_value c) n s)"
  using assms
proof (induction s arbitrary: n)
  case (Cons d s)
  have "n * 10 + digit_value d < 2 ^ 63"
    using undec_grows [of "10 * n + digit_value d" s] Cons.prems(2) by (simp add: mult.commute)
  then show ?case using Cons by (simp add: mult.commute)
qed simp

lemma digit_plain: "is_digit c \<Longrightarrow> plain_char c"
  by (auto simp: is_digit_def plain_char_def byte_in_def)

text \<open>The id of an event, read back, is its number.\<close>

lemma parse_format_id:
  assumes "0 \<le> n" "n \<le> max_int64"
  shows "parse_stream_id (format_int n) = n"
proof -
  let ?s = "dec (nat n)"
  have digits: "list_all is_digit ?s" by (rule dec_digits)
  then have no: "CHR ''-'' \<notin> set ?s" "CHR ''+'' \<notin> set ?s"
    by (auto simp: list_all_iff is_digit_def)
  have "list_all plain_char ?s" using digits digit_plain by (simp add: list_all_iff)
  then have trim: "trim_space ?s = ?s" by (rule trim_space_plain)
  have stop: "takeWhile (\<lambda>ch. ch \<noteq> CHR ''-'') ?s = ?s" using no by (auto simp: takeWhile_eq_all_conv)
  have "take 1 ?s \<noteq> ''+''" using no by (cases ?s) auto
  moreover have "?s \<noteq> ''0-0''" using no by auto
  moreover have "parse_uint 0 ?s = Some (nat n)"
    using parse_uint_digits [OF digits, of 0] undec_dec [of "nat n"] assms
    by (simp add: undec_def max_int64_def)
  moreover have "nat n < 2 ^ 63" using assms by (simp add: max_int64_def)
  ultimately show ?thesis
    using assms by (simp add: parse_stream_id_def parse_int_or_max_def format_int_def trim stop Let_def
        del: takeWhile_eq_all_conv)
qed

section \<open>A run goes on\<close>

text \<open>The number of a stream does not fall, and an event it retains was there when its number was reached.\<close>

definition log_grows :: "generation_stream \<Rightarrow> generation_stream \<Rightarrow> bool" where
  "log_grows s s' \<longleftrightarrow> stream_seq s \<le> stream_seq s' \<and>
     (\<forall>m \<in> set (stream_events s'). sm_seq m \<le> stream_seq s \<longrightarrow> m \<in> set (stream_events s))"

lemma log_grows_refl [simp]: "log_grows s s"
  by (simp add: log_grows_def)

lemma log_grows_trans: "log_grows s s' \<Longrightarrow> log_grows s' s'' \<Longrightarrow> log_grows s s''"
  by (fastforce simp: log_grows_def)

lemma log_grows_reset [simp]: "stream_seq s' = stream_seq s \<Longrightarrow> stream_events s' = [] \<Longrightarrow> log_grows s s'"
  by (simp add: log_grows_def)

lemma log_grows_same: "stream_seq s' = stream_seq s \<Longrightarrow> stream_events s' = stream_events s \<Longrightarrow> log_grows s s'"
  by (simp add: log_grows_def)

lemma log_grows_fields [simp]:
  "log_grows s (s\<lparr>execution_id := x, active_expires_at := a, owner_expires_at := o', events_expires_at := e,
     cancel_expires_at := k, stream_chan := ch\<rparr>)"
  "log_grows s (s\<lparr>execution_id := x, active_expires_at := a, owner_expires_at := o', events_expires_at := e,
     stream_chan := ch\<rparr>)"
  "log_grows s (s\<lparr>active_expires_at := a, owner_expires_at := o'\<rparr>)"
  "log_grows s (s\<lparr>cancel_expires_at := k, stream_chan := ch\<rparr>)"
  by (simp_all add: log_grows_same)

lemma log_grows_append: "log_grows s ((cut_events m (push_event s i))\<lparr>events_expires_at := t, stream_chan := ch\<rparr>)"
  by (auto simp: log_grows_def cut_events_eq next_message_def dest: in_set_dropD)

lemma ensure_present: "streams c (trim_space rid) = Some s \<Longrightarrow> ensure_stream c rid = (s, c)"
  by (simp add: ensure_stream_def)

lemma stream_step_grows:
  assumes "streams c rid = Some s" "streams (snd (stream_step c (t, call))) rid = Some s'"
  shows "log_grows s s'"
proof (cases call)
  case (S_claim l a b)
  show ?thesis
    using assms ensure_stream_other [of "trim_space (run_id l)" rid c] unfolding S_claim
    by (cases "trim_space (run_id l) = rid")
      (auto simp: claim_generation_stream_def Let_def case_prod_beta put_stream_def reset_events_def
        dest!: streams_sweep split: option.splits if_splits intro: log_grows_same)
next
  case (S_feed i m ttl)
  show ?thesis
  proof (cases "trim_space active_feed = rid")
    case True
    then show ?thesis
      using assms ensure_present [of c active_feed s] unfolding S_feed
      by (auto simp: append_active_generation_event_def case_prod_beta append_event_chan put_stream_def
          dest!: streams_sweep intro: log_grows_append)
  next
    case False
    then show ?thesis
      using assms ensure_stream_other [of active_feed rid c] unfolding S_feed
      by (auto simp: append_active_generation_event_def case_prod_beta append_event_chan put_stream_def
          dest!: streams_sweep)
  qed
qed (use assms in \<open>auto simp: renew_generation_stream_lease_def complete_generation_stream_def
    abandon_generation_stream_def request_generation_stream_cancel_def append_generation_stream_event_def
    append_event_chan reset_generation_stream_events_def Let_def case_prod_beta put_stream_def reset_events_def
    dest!: streams_sweep split: option.splits if_splits intro: log_grows_append\<close>)

text \<open>A later state of the store in whose history the run was there all the time.\<close>

fun stays :: "string \<Rightarrow> cache \<Rightarrow> (readings \<times> stream_call) list \<Rightarrow> bool" where
  "stays rid c [] \<longleftrightarrow> streams c rid \<noteq> None"
| "stays rid c (e # h) \<longleftrightarrow> streams c rid \<noteq> None \<and> stays rid (snd (stream_step c e)) h"

definition goes_on :: "string \<Rightarrow> cache \<Rightarrow> cache \<Rightarrow> bool" where
  "goes_on rid c c' \<longleftrightarrow> (\<exists>h. c' = snd (stream_run c h) \<and> stays rid c h)"

lemma stream_run_grows:
  assumes "stays rid c h" "streams c rid = Some s"
  shows "\<exists>s'. streams (snd (stream_run c h)) rid = Some s' \<and> log_grows s s'"
  using assms
proof (induction h arbitrary: c s)
  case (Cons e h)
  obtain t call where e: "e = (t, call)" by (cases e)
  have "stays rid (snd (stream_step c e)) h" using Cons.prems(1) by simp
  moreover have "streams (snd (stream_step c e)) rid \<noteq> None" using calculation by (cases h) auto
  then obtain s1 where s1: "streams (snd (stream_step c e)) rid = Some s1" by blast
  moreover have "log_grows s s1" using stream_step_grows [OF Cons.prems(2)] s1 unfolding e by blast
  ultimately show ?case using Cons.IH [of "snd (stream_step c e)" s1] by (auto simp: case_prod_beta intro: log_grows_trans)
qed simp

lemma goes_on_log_grows:
  "goes_on rid c c' \<Longrightarrow> streams c rid = Some s \<Longrightarrow> \<exists>s'. streams c' rid = Some s' \<and> log_grows s s'"
  using stream_run_grows by (auto simp: goes_on_def)

lemma goes_on_log: "goes_on rid c c' \<Longrightarrow> all_streams log_ok c \<Longrightarrow> all_streams log_ok c'"
  by (auto simp: goes_on_def stream_run_log_ok)

section \<open>What a watcher gets\<close>

text \<open>
  Events with an id come from records; those made from a checkpoint have none. A record is due when it can be
  decoded, is newer than the number the client named and is not part of a checkpoint it gets.
\<close>

definition from_records :: "stream_event list \<Rightarrow> stream_event list" where
  "from_records events = filter (\<lambda>e. ev_id e \<noteq> []) events"

definition due_event ::
  "(string \<Rightarrow> json_payload option) \<Rightarrow> int \<Rightarrow> int \<Rightarrow> int \<Rightarrow> stream_message \<Rightarrow> stream_event option" where
  "due_event json after text think m =
     (case decode_stream_record json m of
        None \<Rightarrow> None
      | Some e \<Rightarrow> if after < ev_seq e \<and> \<not> covered_by_checkpoint text think e then Some e else None)"

definition due_events ::
  "(string \<Rightarrow> json_payload option) \<Rightarrow> int \<Rightarrow> int \<Rightarrow> int \<Rightarrow> stream_message list \<Rightarrow> stream_event list" where
  "due_events json after text think ms = List.map_filter (due_event json after text think) ms"

lemma from_records_append [simp]: "from_records (xs @ ys) = from_records xs @ from_records ys"
  by (simp add: from_records_def)

lemma due_events_append [simp]:
  "due_events json after text think (xs @ ys) = due_events json after text think xs @ due_events json after text think ys"
  by (simp add: due_events_def List.map_filter_def)

lemma due_events_Nil [simp]: "due_events json after text think [] = []"
  by (simp add: due_events_def List.map_filter_def)

lemma due_events_Cons: "due_events json after text think (m # ms) =
    (case due_event json after text think m of None \<Rightarrow> [] | Some e \<Rightarrow> [e]) @ due_events json after text think ms"
  by (simp add: due_events_def List.map_filter_def split: option.split)

text \<open>The records of a log: their numbers rise, and each has its number as id.\<close>

definition records_ok :: "stream_message list \<Rightarrow> bool" where
  "records_ok ms \<longleftrightarrow> sorted_wrt (<) (map sm_seq ms) \<and> (\<forall>m \<in> set ms. sm_id m = format_int (sm_seq m) \<and> 0 < sm_seq m)"

lemma records_ok_Cons: "records_ok (m # ms) \<longleftrightarrow>
    sm_id m = format_int (sm_seq m) \<and> 0 < sm_seq m \<and> (\<forall>x \<in> set ms. sm_seq m < sm_seq x) \<and> records_ok ms"
  by (auto simp: records_ok_def)

lemma records_ok_filter: "records_ok ms \<Longrightarrow> records_ok (filter P ms)"
  by (auto simp: records_ok_def sorted_wrt_map intro: sorted_wrt_filter)

lemma records_ok_take: "records_ok ms \<Longrightarrow> records_ok (take n ms)"
  by (auto simp: records_ok_def take_map [symmetric] intro: sorted_wrt_take dest: in_set_takeD)

lemma log_range:
  assumes "log_ok s" "m \<in> set (stream_events s)"
  shows "0 < sm_seq m" "sm_seq m \<le> stream_seq s"
proof -
  have "sm_seq m \<in> set (map sm_seq (stream_events s))" using assms(2) by simp
  also have "\<dots> = {stream_seq s - int (length (stream_events s)) + 1 .. stream_seq s}"
    using assms(1) by (simp only: log_ok_def set_upto)
  finally show "0 < sm_seq m" "sm_seq m \<le> stream_seq s" using assms(1) by (auto simp: log_ok_def)
qed

lemma log_records:
  assumes "log_ok s"
  shows "records_ok (stream_events s)"
proof -
  have "sorted_wrt (<) (map sm_seq (stream_events s))" using assms by (simp only: log_ok_def sorted_wrt_upto)
  then show ?thesis using assms log_range(1) [OF assms] by (simp only: records_ok_def log_ok_def) blast
qed

lemma format_id: "trim_space (format_int n) \<noteq> []" if "0 \<le> n"
proof -
  have "list_all plain_char (dec (nat n))" using dec_digits digit_plain by (simp add: list_all_iff)
  then show ?thesis using that trim_space_plain by (simp add: format_int_def)
qed

lemma decode_seq:
  assumes "decode_stream_record json m = Some e" "sm_id m = format_int (sm_seq m)" "0 < sm_seq m"
  shows "ev_seq e = sm_seq m" "ev_id e \<noteq> []"
  using assms by (auto simp: decode_stream_record_def Let_def split: option.splits if_splits)

lemma due_seq:
  assumes "due_event json after text think m = Some e" "sm_id m = format_int (sm_seq m)" "0 < sm_seq m"
  shows "ev_seq e = sm_seq m" "after < ev_seq e" "ev_id e \<noteq> []"
  using assms decode_seq [of json m] by (auto simp: due_event_def split: option.splits if_splits)

lemma due_set: "e \<in> set (due_events json after text think ms) \<longleftrightarrow>
    (\<exists>m \<in> set ms. due_event json after text think m = Some e)"
  by (induction ms) (auto simp: due_events_Cons split: option.splits)

lemma due_sorted:
  assumes "records_ok ms"
  shows "sorted_wrt (<) (map ev_seq (due_events json after text think ms))"
  using assms
proof (induction ms)
  case (Cons m ms)
  have "ev_seq e < ev_seq x" if e: "due_event json after text think m = Some e"
    and x: "x \<in> set (due_events json after text think ms)" for e x
  proof -
    obtain y where y: "y \<in> set ms" "due_event json after text think y = Some x" using x by (auto simp: due_set)
    then have "sm_seq m < sm_seq y" "ev_seq x = sm_seq y" "ev_seq e = sm_seq m"
      using Cons.prems due_seq(1) [OF y(2)] due_seq(1) [OF e] by (auto simp: records_ok_Cons records_ok_def)
    then show ?thesis by simp
  qed
  then show ?case
    using Cons by (auto simp: due_events_Cons records_ok_Cons split: option.split)
qed simp

lemma due_from_records: "records_ok ms \<Longrightarrow> from_records (due_events json after text think ms) = due_events json after text think ms"
  using due_seq(3) by (fastforce simp: from_records_def filter_id_conv due_set records_ok_def)

text \<open>The records after a cursor, up to the number of the last one read.\<close>

definition last_seq :: "int \<Rightarrow> stream_message list \<Rightarrow> int" where
  "last_seq n ms = (if ms = [] then n else sm_seq (last ms))"

lemma last_seq_Cons: "last_seq n (m # ms) = last_seq (sm_seq m) ms"
  by (simp add: last_seq_def)

lemma last_seq_ge: "records_ok ms \<Longrightarrow> m \<in> set ms \<Longrightarrow> sm_seq m \<le> last_seq n ms"
  by (induction ms rule: rev_induct) (auto simp: last_seq_def records_ok_def sorted_wrt_append)

lemma read_prefix:
  assumes "records_ok evs" "records = generation_events_after evs n limit" "m \<in> set evs" "n < sm_seq m"
    "sm_seq m \<le> last_seq n records"
  shows "m \<in> set records"
proof -
  let ?new = "filter (\<lambda>m. n < sm_seq m) evs"
  have new: "records_ok ?new" "m \<in> set ?new" using assms(1,3,4) by (auto intro: records_ok_filter)
  show ?thesis
  proof (cases "limit \<le> 0")
    case True
    then show ?thesis using new(2) assms(2) by (simp add: generation_events_after_eq)
  next
    case False
    then have records: "records = take (nat limit) ?new" using assms(2) by (simp add: generation_events_after_eq)
    show ?thesis
    proof (rule ccontr)
      assume "m \<notin> set records"
      moreover have parts: "?new = records @ drop (nat limit) ?new" using records by simp
      ultimately have "m \<in> set (drop (nat limit) ?new)"
        using new(2) by (metis Un_iff set_append)
      moreover have "sm_seq x < sm_seq y" if "x \<in> set records" "y \<in> set (drop (nat limit) ?new)" for x y
        using new(1) that by (subst (asm) parts) (auto simp: records_ok_def sorted_wrt_append)
      ultimately have "\<forall>x \<in> set records. sm_seq x < sm_seq m" by blast
      then have "sm_seq (last records) < sm_seq m" if "records \<noteq> []" using that by simp
      then show False using assms(4,5) by (auto simp: last_seq_def split: if_splits)
    qed
  qed
qed

text \<open>The replay: the due events of the records, and the checkpoints among them.\<close>

lemma snapshots_before_ids: "from_records (fst (snapshots_before seq text think)) = []"
  by (induction seq "text" think rule: snapshots_before.induct)
    (subst snapshots_before.simps, auto simp: from_records_def text_event_def think_event_def)

lemma snapshots_left_ids: "from_records (snapshots_left text think) = []"
  by (auto simp: snapshots_left_def from_records_def text_event_def think_event_def List.map_filter_def
      split: option.splits)

lemma replay_records_due:
  assumes "replay_records json inp ms st = Some st'" "records_ok ms"
    and "ri_include inp \<or> ri_text inp = None \<and> ri_think inp = None"
  shows "from_records (rs_replay st') = from_records (rs_replay st) @
      due_events json (ri_after inp) (text_seq_of (ri_text inp)) (think_seq_of (ri_think inp)) ms \<and>
    rs_cursor st' = (if ms = [] then rs_cursor st else sm_id (last ms))"
  using assms(1,2)
proof (induction ms arbitrary: st)
  case (Cons m ms)
  obtain st1 where st1: "replay_record json inp m st = Some st1" "replay_records json inp ms st1 = Some st'"
    using Cons.prems(1) by (auto split: option.splits)
  have m: "sm_id m = format_int (sm_seq m)" "0 < sm_seq m" "records_ok ms"
    using Cons.prems(2) by (auto simp: records_ok_Cons)
  have cursor: "rs_cursor st1 = sm_id m"
    using st1(1) m format_id [of "sm_seq m"]
    by (auto simp: replay_record_def move_cursor_def Let_def split: option.splits prod.splits if_splits)
  have covered: "\<not> covered_by_checkpoint (text_seq_of (ri_text inp)) (think_seq_of (ri_think inp)) e"
    if "\<not> ri_include inp" "decode_stream_record json m = Some e" for e
    using that assms(3) decode_seq(1) [OF that(2) m(1,2)] m(2)
    by (auto simp: covered_by_checkpoint_def text_seq_of_def think_seq_of_def)
  have "from_records (rs_replay st1) = from_records (rs_replay st) @
      due_events json (ri_after inp) (text_seq_of (ri_text inp)) (think_seq_of (ri_think inp)) [m]"
  proof (cases "decode_stream_record json m")
    case None
    then show ?thesis
      using st1(1) by (auto simp: replay_record_def Let_def due_events_Cons due_event_def)
  next
    case (Some e)
    obtain before tx th where before: "snapshots_before (ev_seq e) (rs_text st) (rs_think st) = (before, tx, th)"
      by (cases "snapshots_before (ev_seq e) (rs_text st) (rs_think st)") auto
    have "from_records before = []" using snapshots_before_ids [of "ev_seq e" "rs_text st" "rs_think st"] before by simp
    moreover have "from_records [e] = [e]" using decode_seq(2) [OF Some m(1,2)] by (simp add: from_records_def)
    ultimately show ?thesis
      using st1(1) Some before covered [OF _ Some]
      by (auto simp: replay_record_def Let_def due_events_Cons due_event_def split: if_splits)
  qed
  then show ?case
    using Cons.IH [OF st1(2) m(3)] cursor by (simp add: due_events_Cons)
qed simp

text \<open>The reader after the records it got.\<close>

definition stands_at :: "int \<Rightarrow> int \<Rightarrow> subscription \<Rightarrow> bool" where
  "stands_at after n sub \<longleftrightarrow>
     0 \<le> n \<and> after \<le> sub_after sub \<and> (sub_after sub = after \<or> sub_after sub \<le> n) \<and>
     (sub_cursor sub = format_int n \<or> sub_cursor sub = ''0-0'' \<and> n = 0)"

lemma deliver_due:
  assumes "deliver_records json sub ms = (events, sub', ended)" "records_ok ms" "\<forall>m \<in> set ms. n < sm_seq m"
    and "stands_at after n sub"
  shows "\<exists>rest. due_events json after (sub_text sub) (sub_think sub) ms = events @ rest \<and>
    (\<not> ended \<longrightarrow> rest = [] \<and> stands_at after (last_seq n ms) sub' \<and>
       sub_text sub' = sub_text sub \<and> sub_think sub' = sub_think sub)"
  using assms
proof (induction ms arbitrary: sub n events)
  case Nil
  then show ?case by (simp add: last_seq_def)
next
  case (Cons m ms)
  let ?sub = "sub\<lparr>sub_cursor := move_cursor m (sub_cursor sub)\<rparr>"
  have m: "sm_id m = format_int (sm_seq m)" "0 < sm_seq m" "records_ok ms" "\<forall>x \<in> set ms. sm_seq m < sm_seq x"
      "n < sm_seq m"
    using Cons.prems(2,3) by (auto simp: records_ok_Cons)
  have at: "stands_at after (sm_seq m) ?sub"
    using Cons.prems(4) m format_id [of "sm_seq m"] by (auto simp: stands_at_def move_cursor_def)
  have skip: "sm_seq m \<le> sub_after sub \<longleftrightarrow> sm_seq m \<le> after"
    using Cons.prems(4) m(5) by (auto simp: stands_at_def)
  show ?case
  proof (cases "due_event json after (sub_text sub) (sub_think sub) m")
    case None
    then have "deliver_records json ?sub ms = (events, sub', ended)"
      using Cons.prems(1) skip m(2) decode_seq(1) [OF _ m(1,2)]
      by (auto simp: due_event_def Let_def split: option.splits if_splits)
    then show ?thesis
      using Cons.IH [OF _ m(3,4) at] None by (simp add: due_events_Cons last_seq_Cons)
  next
    case (Some e)
    then have e: "decode_stream_record json m = Some e" "after < ev_seq e" "ev_seq e = sm_seq m"
        "\<not> covered_by_checkpoint (sub_text sub) (sub_think sub) e"
      using due_seq [OF Some m(1,2)] by (auto simp: due_event_def split: option.splits if_splits)
    let ?next = "?sub\<lparr>sub_after := ev_seq e\<rparr>"
    have at': "stands_at after (sm_seq m) ?next"
      using at e(2,3) by (auto simp: stands_at_def)
    show ?thesis
    proof (cases "is_terminal_type (ev_type e)")
      case True
      then show ?thesis using Cons.prems(1) e skip Some by (simp add: due_events_Cons)
    next
      case False
      obtain more where more: "deliver_records json ?next ms = (more, sub', ended)" "events = e # more"
        using Cons.prems(1) e skip False by (cases "deliver_records json ?next ms") auto
      from Cons.IH [OF more(1) m(3,4) at'] show ?thesis
        using Some more(2) by (simp add: due_events_Cons last_seq_Cons)
    qed
  qed
qed

section \<open>Reading on\<close>

definition later :: "string \<Rightarrow> cache \<Rightarrow> cache \<Rightarrow> bool" where
  "later rid c c' \<longleftrightarrow> (\<exists>s s'. streams c rid = Some s \<and> streams c' rid = Some s' \<and> log_grows s s')"

lemma later_trans: "later rid c c' \<Longrightarrow> later rid c' c'' \<Longrightarrow> later rid c c''"
  by (auto simp: later_def intro: log_grows_trans)

lemma goes_on_later: "goes_on rid c c' \<Longrightarrow> later rid c c'"
proof -
  assume on: "goes_on rid c c'"
  then have "streams c rid \<noteq> None" by (auto simp: goes_on_def elim: stays.elims)
  then show ?thesis using goes_on_log_grows [OF on] by (auto simp: later_def)
qed

text \<open>
  What a client that stands at the number \<open>n\<close> has: events of records once, in order, and all those due that the
  run still retains up to there.
\<close>

definition has_events ::
  "(string \<Rightarrow> json_payload option) \<Rightarrow> int \<Rightarrow> int \<Rightarrow> int \<Rightarrow> generation_stream \<Rightarrow> int \<Rightarrow> stream_event list \<Rightarrow> bool" where
  "has_events json after tx th s n out \<longleftrightarrow> n \<le> stream_seq s \<and>
     sorted_wrt (<) (map ev_seq (from_records out)) \<and>
     (\<forall>e \<in> set (from_records out). after < ev_seq e \<and> ev_seq e \<le> n) \<and>
     (\<forall>m \<in> set (stream_events s). sm_seq m \<le> n \<longrightarrow> (\<forall>e. due_event json after tx th m = Some e \<longrightarrow> e \<in> set out))"

lemma has_events_grows:
  "has_events json after tx th s n out \<Longrightarrow> log_grows s s' \<Longrightarrow> has_events json after tx th s' n out"
  by (force simp: has_events_def log_grows_def)

lemma has_events_stay:
  assumes "has_events json after tx th s n out" "log_grows s s'" "stands_at after n sub"
  shows "sorted_wrt (<) (map ev_seq (from_records out)) \<and> (\<forall>e \<in> set (from_records out). after < ev_seq e) \<and>
    (\<exists>n'. has_events json after tx th s' n' out \<and> stands_at after n' sub)"
  using assms(1,3) has_events_grows [OF assms(1,2)] by (simp add: has_events_def) blast

lemma read_some:
  "read_generation_stream_events rid cursor limit looks = Some records \<Longrightarrow> records \<noteq> [] \<Longrightarrow>
   \<exists>(c, now, b) \<in> set looks. stream_read_attempt c rid (parse_stream_id cursor) limit now = Inl records"
  by (induction looks) (auto split: sum.splits if_splits)

lemma attempt_records:
  assumes "stream_read_attempt c rid n limit now = Inl records" "streams c (trim_space rid) = Some s"
  shows "records = generation_events_after (stream_events s) n limit"
  using assms by (auto simp: stream_read_attempt_def Let_def split: if_splits)

lemma after_subset: "set (generation_events_after evs n limit) \<subseteq> {m \<in> set evs. n < sm_seq m}"
  by (auto simp: generation_events_after_eq Let_def dest: in_set_takeD)

lemma records_ok_after: "records_ok evs \<Longrightarrow> records_ok (generation_events_after evs n limit)"
  by (auto simp: generation_events_after_eq Let_def intro: records_ok_take records_ok_filter)

text \<open>One read: the records after the cursor, and what is delivered of them.\<close>

lemma has_events_read:
  assumes has: "has_events json after (sub_text sub) (sub_think sub) s n out" and log: "log_ok s"
    and records: "records = generation_events_after (stream_events s) n limit"
    and deliver: "deliver_records json sub records = (events, sub', ended)" and at: "stands_at after n sub"
  shows "sorted_wrt (<) (map ev_seq (from_records (out @ events))) \<and>
    (\<forall>e \<in> set (from_records (out @ events)). after < ev_seq e) \<and>
    (\<not> ended \<longrightarrow> has_events json after (sub_text sub) (sub_think sub) s (last_seq n records) (out @ events) \<and>
       stands_at after (last_seq n records) sub' \<and> sub_text sub' = sub_text sub \<and> sub_think sub' = sub_think sub)"
proof -
  let ?due = "due_events json after (sub_text sub) (sub_think sub)"
  have ok: "records_ok records" using records_ok_after [OF log_records [OF log]] records by simp
  have new: "m \<in> set (stream_events s)" "n < sm_seq m" if "m \<in> set records" for m
    using that after_subset [of "stream_events s" n limit] records by auto
  obtain rest where rest: "?due records = events @ rest" "\<not> ended \<longrightarrow> rest = []"
      "\<not> ended \<longrightarrow> stands_at after (last_seq n records) sub' \<and> sub_text sub' = sub_text sub \<and> sub_think sub' = sub_think sub"
    using deliver_due [OF deliver ok _ at] new(2) by blast
  have due: "\<exists>m \<in> set records. ev_seq e = sm_seq m \<and> after < ev_seq e \<and> ev_id e \<noteq> []" if "e \<in> set events" for e
  proof -
    have "e \<in> set (?due records)" using that rest(1) by simp
    then obtain m where "m \<in> set records" "due_event json after (sub_text sub) (sub_think sub) m = Some e"
      by (auto simp: due_set)
    then show ?thesis using due_seq ok by (fastforce simp: records_ok_def)
  qed
  then have ids: "from_records events = events" by (auto simp: from_records_def filter_id_conv)
  have sorted: "sorted_wrt (<) (map ev_seq events)"
    using due_sorted [OF ok, of json after "sub_text sub" "sub_think sub"] rest(1) by (simp add: sorted_wrt_append)
  have above: "n < ev_seq e" if "e \<in> set events" for e using due [OF that] new(2) by auto
  have "sorted_wrt (<) (map ev_seq (from_records (out @ events)))"
    using has sorted above by (fastforce simp: has_events_def ids sorted_wrt_append)
  moreover have "\<forall>e \<in> set (from_records (out @ events)). after < ev_seq e"
    using has due by (auto simp: has_events_def ids)
  moreover have "has_events json after (sub_text sub) (sub_think sub) s (last_seq n records) (out @ events)" if "\<not> ended"
  proof -
    have "n \<le> last_seq n records" "last_seq n records \<le> stream_seq s"
      using new log_range(2) [OF log] has by (auto simp: last_seq_def has_events_def intro: less_imp_le)
    moreover have "ev_seq e \<le> last_seq n records" if "e \<in> set events" for e
      using due [OF that] last_seq_ge [OF ok] by auto
    moreover have "e \<in> set (out @ events)"
      if m: "m \<in> set (stream_events s)" "sm_seq m \<le> last_seq n records"
        "due_event json after (sub_text sub) (sub_think sub) m = Some e" for m e
    proof (cases "sm_seq m \<le> n")
      case True
      then show ?thesis using has m by (auto simp: has_events_def)
    next
      case False
      then have "m \<in> set records" using read_prefix [OF log_records [OF log] records m(1) _ m(2)] by simp
      then have "e \<in> set (?due records)" using m(3) by (auto simp: due_set)
      then show ?thesis using rest \<open>\<not> ended\<close> by simp
    qed
    ultimately show ?thesis
      using has \<open>sorted_wrt (<) (map ev_seq (from_records (out @ events)))\<close> due
      by (fastforce simp: has_events_def ids)
  qed
  ultimately show ?thesis using rest(3) by blast
qed

text \<open>The states of the store that the rounds look at, in their order.\<close>

definition round_caches :: "read_round list \<Rightarrow> cache list" where
  "round_caches rounds = concat (map (\<lambda>(looks, owner). map fst looks @ [fst owner]) rounds)"

lemma round_caches_simps [simp]:
  "round_caches [] = []"
  "round_caches ((looks, owner) # rounds) = map fst looks @ fst owner # round_caches rounds"
  by (simp_all add: round_caches_def)

lemma parse_zero: "parse_stream_id ''0-0'' = 0"
  by code_simp

lemma trim_zero: "trim_space ''0-0'' = ''0-0''"
  by code_simp

lemma parse_cursor: "stands_at after n sub \<Longrightarrow> n \<le> max_int64 \<Longrightarrow> parse_stream_id (sub_cursor sub) = n"
  using parse_zero by (auto simp: stands_at_def parse_format_id)

lemma has_events_rounds:
  assumes "read_store_events json uid rid limit sub rounds = (events, sub')"
    and "sorted_wrt (later (trim_space rid)) (c # round_caches rounds @ [c'])"
    and "\<forall>c \<in> set (c # round_caches rounds). all_streams log_ok c"
    and "streams c (trim_space rid) = Some s" "streams c' (trim_space rid) = Some s'" "stream_seq s' \<le> max_int64"
    and "has_events json after (sub_text sub) (sub_think sub) s n out" "stands_at after n sub"
  shows "sorted_wrt (<) (map ev_seq (from_records (out @ events))) \<and>
    (\<forall>e \<in> set (from_records (out @ events)). after < ev_seq e) \<and>
    (case sub' of None \<Rightarrow> True
     | Some sub' \<Rightarrow> \<exists>n'. has_events json after (sub_text sub) (sub_think sub) s' n' (out @ events) \<and> stands_at after n' sub')"
  using assms
proof (induction rounds arbitrary: sub c s n out events)
  case Nil
  then have "log_grows s s'" by (auto simp: later_def)
  then show ?case using has_events_stay [OF Nil.prems(7) _ Nil.prems(8), of s'] Nil.prems(1) by auto
next
  case (Cons r rounds)
  obtain looks owner where r: "r = (looks, owner)" by (cases r)
  have later: "later (trim_space rid) c x" if "x \<in> set (map fst looks @ fst owner # round_caches rounds @ [c'])" for x
    using Cons.prems(2) that by (auto simp: r)
  then have to_end: "later (trim_space rid) c c'" "later (trim_space rid) c (fst owner)" by auto
  have small: "n \<le> max_int64"
    using Cons.prems(4-7) to_end(1) by (auto simp: later_def log_grows_def has_events_def)
  note cursor = parse_cursor [OF Cons.prems(8) small]
  show ?case
  proof (cases "read_generation_stream_events rid (sub_cursor sub) limit looks")
    case None
    have "log_grows s s'" using to_end(1) Cons.prems(4,5) by (auto simp: later_def)
    then show ?thesis
      using Cons.prems(1) None has_events_stay [OF Cons.prems(7) _ Cons.prems(8), of s'] by (auto simp: r)
  next
    case (Some records)
    show ?thesis
    proof (cases "authorized uid rid owner")
      case False
      then show ?thesis using Cons.prems(1,7) Some by (auto simp: r has_events_def)
    next
      case True
      obtain evs sub1 ended where deliver: "deliver_records json sub records = (evs, sub1, ended)"
        by (cases "deliver_records json sub records") auto
      obtain more where more: "events = evs @ more" "ended \<longrightarrow> more = [] \<and> sub' = None"
          "\<not> ended \<longrightarrow> read_store_events json uid rid limit sub1 rounds = (more, sub')"
        using Cons.prems(1) Some True deliver
        by (cases "read_store_events json uid rid limit sub1 rounds") (auto simp: r split: if_splits)
      obtain x sx where x: "x \<in> set (c # map fst looks)" "streams x (trim_space rid) = Some sx" "log_grows s sx"
          "records = [] \<or> records = generation_events_after (stream_events sx) n limit"
      proof (cases "records = []")
        case True
        then show thesis using that [of c s] Cons.prems(4) by simp
      next
        case False
        then obtain x now b where look: "(x, now, b) \<in> set looks"
            "stream_read_attempt x rid n limit now = Inl records"
          using read_some [OF Some False] unfolding cursor by auto
        then have "x \<in> set (map fst looks)" by force
        moreover obtain sx where "streams x (trim_space rid) = Some sx" "log_grows s sx"
          using later [of x] calculation Cons.prems(4) by (auto simp: later_def)
        ultimately show thesis using that [of x sx] attempt_records [OF look(2)] by simp
      qed
      have log: "log_ok sx"
      proof (rule all_streamsD [OF _ x(2)])
        show "all_streams log_ok x" using Cons.prems(3) x(1) by (auto simp: r)
      qed
      note has = has_events_grows [OF Cons.prems(7) x(3)]
      obtain so where so: "streams (fst owner) (trim_space rid) = Some so" "log_grows sx so"
        using Cons.prems(2) x(1,2) by (fastforce simp: r later_def sorted_wrt_append)
      have step: "sorted_wrt (<) (map ev_seq (from_records (out @ evs))) \<and>
          (\<forall>e \<in> set (from_records (out @ evs)). after < ev_seq e) \<and>
          (\<not> ended \<longrightarrow> (\<exists>n'. has_events json after (sub_text sub) (sub_think sub) sx n' (out @ evs) \<and>
             stands_at after n' sub1) \<and> sub_text sub1 = sub_text sub \<and> sub_think sub1 = sub_think sub)"
      proof (cases "records = []")
        case True
        then have "evs = []" "sub1 = sub" using deliver by auto
        then show ?thesis using has Cons.prems(8) by (auto simp: has_events_def)
      next
        case False
        then show ?thesis using has_events_read [OF has log _ deliver Cons.prems(8)] x(4) by blast
      qed
      show ?thesis
      proof (cases ended)
        case True
        then show ?thesis using step more by simp
      next
        case False
        then obtain n' where at: "has_events json after (sub_text sub) (sub_think sub) sx n' (out @ evs)"
            "stands_at after n' sub1" "sub_text sub1 = sub_text sub" "sub_think sub1 = sub_think sub"
          using step by blast
        have n': "has_events json after (sub_text sub1) (sub_think sub1) so n' (out @ evs)" "stands_at after n' sub1"
          using has_events_grows [OF at(1) so(2)] at(2-4) by simp_all
        have "sorted_wrt (later (trim_space rid)) (fst owner # round_caches rounds @ [c'])"
          using Cons.prems(2) by (simp add: r sorted_wrt_append)
        moreover have "\<forall>c \<in> set (fst owner # round_caches rounds). all_streams log_ok c"
          using Cons.prems(3) by (simp add: r)
        ultimately show ?thesis
          using Cons.IH [of sub1 more "fst owner" so n' "out @ evs"] more(3) False so(1) Cons.prems(5,6) n'
          by (simp add: more(1) at(3,4) split: option.splits)
      qed
    qed
  qed
qed

text \<open>The states that are looked at.\<close>

lemma chain_logs:
  "successively (goes_on rid) (c # cs) \<Longrightarrow> all_streams log_ok c \<Longrightarrow> \<forall>x \<in> set (c # cs). all_streams log_ok x"
  by (induction cs arbitrary: c) (auto dest: goes_on_log)

lemma chain_later: "successively (goes_on rid) cs \<Longrightarrow> sorted_wrt (later rid) cs"
proof -
  assume "successively (goes_on rid) cs"
  then have "successively (later rid) cs" by (rule successively_mono) (rule goes_on_later)
  moreover have "transp (later rid)" using later_trans by (auto simp: transp_def)
  ultimately show ?thesis by (simp add: successively_conv_sorted_wrt)
qed

text \<open>What a subscription hands over to the reader.\<close>

lemma subscribe_has_events:
  assumes sub: "subscribe_store json uid rid after include max_events looks = Some (replay, Some sub)"
    and s: "streams (fst (lk_events looks)) (trim_space rid) = Some s" and log: "log_ok s"
    and window: "max_events \<le> 0 \<or> int (length (stream_events s)) \<le> max_events"
  shows "\<exists>n. has_events json after (sub_text sub) (sub_think sub) s n replay \<and> stands_at after n sub"
proof -
  define records where "records = list_generation_stream_events (fst (lk_events looks)) rid max_events (snd (lk_events looks))"
  define tx where "tx = (if include then get_text_snapshot (fst (lk_text looks)) rid (snd (lk_text looks)) else None)"
  define th where "th = (if include then get_think_snapshot (fst (lk_think looks)) rid (snd (lk_think looks)) else None)"
  let ?inp = "\<lparr>ri_after = after, ri_text = tx, ri_think = th, ri_include = include\<rparr>"
  obtain cursor where replay: "retained_stream_events json ?inp records = Some (replay, cursor, False)"
    and sub_is: "sub = \<lparr>sub_cursor = start_cursor cursor, sub_after = after, sub_text = text_seq_of tx, sub_think = think_seq_of th\<rparr>"
    using sub unfolding subscribe_store_def tx_def [symmetric] th_def [symmetric] records_def [symmetric]
    by (auto simp: Let_def split: if_splits option.splits)
  obtain st where st: "replay_records json ?inp records
        \<lparr>rs_replay = [], rs_cursor = ''0-0'', rs_terminal = False, rs_text = (if include then tx else None),
         rs_think = (if include then th else None)\<rparr> = Some st"
      "replay = rs_replay st @ snapshots_left (rs_text st) (rs_think st)" "cursor = rs_cursor st"
    using replay by (auto simp: retained_stream_events_def simp del: replay_records.simps split: option.splits if_splits)
  have cases: "records = [] \<or> records = stream_events s"
    using s window by (auto simp: records_def list_generation_stream_events_def)
  then have ok: "records_ok records" using log_records [OF log] by (auto simp: records_ok_def)
  have got: "from_records replay = due_events json after (text_seq_of tx) (think_seq_of th) records"
      "cursor = (if records = [] then ''0-0'' else sm_id (last records))"
    using replay_records_due [OF st(1) ok] st(2,3) snapshots_left_ids tx_def th_def
    by (auto simp: from_records_def)
  let ?n = "last_seq 0 records"
  have n: "0 \<le> ?n" "?n \<le> stream_seq s"
    using ok cases log_range [OF log] log by (auto simp: last_seq_def log_ok_def less_imp_le)
  have "start_cursor cursor = (if records = [] then ''0-0'' else format_int ?n)"
    using got(2) ok format_id [OF n(1)] trim_zero by (auto simp: start_cursor_def last_seq_def records_ok_def)
  then have at: "stands_at after ?n sub"
    using n(1) by (auto simp: sub_is stands_at_def last_seq_def)
  have set: "set (from_records replay) \<subseteq> set replay" by (auto simp: from_records_def)
  have "has_events json after (text_seq_of tx) (think_seq_of th) s ?n replay"
    unfolding has_events_def got(1)
  proof (intro conjI ballI impI allI)
    fix e assume "e \<in> set (due_events json after (text_seq_of tx) (think_seq_of th) records)"
    then obtain m where m: "m \<in> set records" "due_event json after (text_seq_of tx) (think_seq_of th) m = Some e"
      by (auto simp: due_set)
    then have "sm_id m = format_int (sm_seq m)" "0 < sm_seq m" using ok by (auto simp: records_ok_def)
    then show "after < ev_seq e" "ev_seq e \<le> ?n"
      using due_seq [OF m(2)] last_seq_ge [OF ok m(1)] by auto
  next
    fix m e assume m: "m \<in> set (stream_events s)" "sm_seq m \<le> ?n"
      "due_event json after (text_seq_of tx) (think_seq_of th) m = Some e"
    then have "records \<noteq> []" using log_range(1) [OF log m(1)] by (auto simp: last_seq_def)
    then have "m \<in> set records" using cases m(1) by auto
    then have "e \<in> set (from_records replay)" using m(3) unfolding got(1) by (auto simp: due_set)
    then show "e \<in> set replay" using set by blast
  qed (use n due_sorted [OF ok] in auto)
  then show ?thesis using at by (auto simp: sub_is)
qed

text \<open>
  C35. A client that watches a run misses nothing and gets nothing twice. It subscribes with the number of the last event it has;
  other requests run between all looks at the store, with the run there all the time, and the limit of the first list is not
  below the length of the log. The events of records that the client
  gets, from the replay and then from any number of reads, have rising numbers above its own. As long as the reader goes on, whenever a
  further read would find nothing after its cursor, the client has every event the run retains with a higher number than
  its own, but those that cannot be decoded and the deltas that are part of a checkpoint it was given.
\<close>

theorem watcher_misses_nothing:
  assumes "fst (lk_owner looks) = snd (stream_run new_cache h)"
    and "successively (goes_on (trim_space rid)) (map fst [lk_owner looks, lk_events looks, lk_text looks, lk_think looks,
      lk_again looks] @ round_caches rounds @ [c])"
    and "subscribe_store json uid rid after include max_events looks = Some (replay, Some sub)"
    and "max_events \<le> 0 \<or> (\<forall>s. streams (fst (lk_events looks)) (trim_space rid) = Some s \<longrightarrow>
      int (length (stream_events s)) \<le> max_events)"
    and "read_store_events json uid rid limit sub rounds = (events, sub')"
    and "streams c (trim_space rid) = Some s" "stream_seq s \<le> max_int64"
  shows "sorted_wrt (<) (map ev_seq (from_records (replay @ events))) \<and>
    (\<forall>e \<in> set (from_records (replay @ events)). after < ev_seq e) \<and>
    (case sub' of None \<Rightarrow> True
     | Some sub' \<Rightarrow>
         (\<exists>ch. stream_read_attempt c rid (parse_stream_id (sub_cursor sub')) limit now = Inr ch) \<longrightarrow>
         \<not> events_expired s now \<longrightarrow>
         set (due_events json after (sub_text sub) (sub_think sub) (stream_events s)) \<subseteq> set (replay @ events))"
proof -
  let ?rid = "trim_space rid"
  let ?rest = "map fst [lk_events looks, lk_text looks, lk_think looks, lk_again looks] @ round_caches rounds @ [c]"
  have chain: "successively (goes_on ?rid) (fst (lk_owner looks) # ?rest)" using assms(2) by simp
  note logs = chain_logs [OF chain, unfolded assms(1), OF stream_run_log_ok [OF all_streams_new]]
  note order = chain_later [OF chain]
  let ?a = "fst (lk_events looks)" and ?b = "fst (lk_again looks)"
  have "later ?rid ?a ?b" "later ?rid ?a c" using order by auto
  then obtain sa sb where sa: "streams ?a ?rid = Some sa" "streams ?b ?rid = Some sb" "log_grows sa sb"
    by (auto simp: later_def)
  have log: "log_ok sa" by (rule all_streamsD [OF _ sa(1)]) (use logs in simp)
  obtain n where n: "has_events json after (sub_text sub) (sub_think sub) sa n replay" "stands_at after n sub"
    using subscribe_has_events [OF assms(3) sa(1) log] assms(4) sa(1) by blast
  have "sorted_wrt (later ?rid) (?b # round_caches rounds @ [c])" using order by (simp add: sorted_wrt_append)
  moreover have "\<forall>c \<in> set (?b # round_caches rounds). all_streams log_ok c" using logs by simp
  ultimately have read: "sorted_wrt (<) (map ev_seq (from_records (replay @ events))) \<and>
      (\<forall>e \<in> set (from_records (replay @ events)). after < ev_seq e) \<and>
      (case sub' of None \<Rightarrow> True
       | Some sub' \<Rightarrow> \<exists>n'. has_events json after (sub_text sub) (sub_think sub) s n' (replay @ events) \<and> stands_at after n' sub')"
    using has_events_rounds [OF assms(5) _ _ sa(2) assms(6,7) has_events_grows [OF n(1) sa(3)] n(2)] by blast
  have complete: "set (due_events json after (sub_text sub) (sub_think sub) (stream_events s)) \<subseteq> set (replay @ events)"
    if has: "has_events json after (sub_text sub) (sub_think sub) s n' (replay @ events)" "stands_at after n' sub1"
      and stop: "stream_read_attempt c rid (parse_stream_id (sub_cursor sub1)) limit now = Inr ch" "\<not> events_expired s now"
    for n' sub1 ch
  proof -
    have "n' \<le> max_int64" using has(1) assms(7) by (simp add: has_events_def)
    then have "generation_events_after (stream_events s) n' limit = []"
      using stop assms(6) parse_cursor [OF has(2)]
      by (auto simp: stream_read_attempt_def Let_def split: if_splits)
    then have "\<forall>m \<in> set (stream_events s). sm_seq m \<le> n'"
      by (auto simp: generation_events_after_eq Let_def filter_empty_conv not_less split: if_splits)
    then have "e \<in> set (replay @ events)"
      if "m \<in> set (stream_events s)" "due_event json after (sub_text sub) (sub_think sub) m = Some e" for m e
      using has(1) that unfolding has_events_def by blast
    then show ?thesis by (auto simp: due_set simp del: set_append)
  qed
  show ?thesis
  proof (cases sub')
    case None
    then show ?thesis using read by simp
  next
    case (Some sub1)
    then obtain n' where n': "has_events json after (sub_text sub) (sub_think sub) s n' (replay @ events)" "stands_at after n' sub1"
      using read by auto
    show ?thesis using read complete [OF n'] unfolding Some option.case by blast
  qed
qed

section \<open>A client of the concrete run\<close>

definition sample_json :: "string \<Rightarrow> json_payload option" where
  "sample_json p = Some \<lparr>jp_type = p, jp_seq = 0, jp_has_content = False\<rparr>"

definition first_cache :: cache where
  "first_cache = snd (stream_run new_cache sample_calls)"

definition second_call :: "readings \<times> stream_call" where
  "second_call = (sample_at 3, S_append (sample_lease ''e1'')
     \<lparr>sa_payload = ''q'', sa_text_delta = [], sa_think = None\<rparr> 10 minute)"

definition second_cache :: cache where
  "second_cache = snd (stream_run first_cache [second_call])"

definition second_stream :: generation_stream where
  "second_stream = sample_stream\<lparr>events_expires_at := 3 * second + minute, stream_seq := 2,
     stream_events := [\<lparr>sm_id = ''1'', sm_seq = 1, sm_payload = ''p''\<rparr>, \<lparr>sm_id = ''2'', sm_seq = 2, sm_payload = ''q''\<rparr>],
     stream_chan := next_chan first_cache\<rparr>"

lemma first_state: "streams first_cache ''r'' = Some sample_stream"
  by (simp add: first_cache_def sample_state)

lemma format_two: "format_int 2 = ''2''"
  by code_simp

lemma second_state: "streams second_cache ''r'' = Some second_stream"
proof -
  have alive: "streams (maybe_sweep c' (3 * second)) ''r'' = Some s"
    if "streams c' ''r'' = Some s" "owner_expires_at s = second + minute" for c' s
    using that by (intro alive_survives_sweep [where d = "second + minute"]) (simp_all add: second_def minute_def)
  have pushed: "cut_events 10 (push_event sample_stream \<lparr>sa_payload = ''q'', sa_text_delta = [], sa_think = None\<rparr>)
      \<lparr>events_expires_at := ttl_from (3 * second) minute, stream_chan := next_chan first_cache\<rparr> = second_stream"
    by (simp add: cut_events_def push_event_def append_think_def next_message_def sample_stream_def second_stream_def
        Let_def ttl_from_def format_two minute_def second_def)
  have "execution_id sample_stream = ''e1'' \<and> active_expires_at sample_stream \<noteq> 0 \<and>
      \<not> active_expires_at sample_stream < 3 * second"
    by (simp add: sample_stream_def second_def minute_def)
  then show ?thesis
    by (simp add: second_cache_def second_call_def sample_lease_def sample_trims append_generation_stream_event_def
        first_state case_prod_beta append_event_def active_expired_def is_zero_def zero_time_def sample_at_def Let_def
        pushed alive) (intro alive, simp_all add: second_stream_def sample_stream_def)
qed

definition sample_looks :: subscribe_looks where
  "sample_looks = \<lparr>lk_owner = (first_cache, 3 * second), lk_events = (first_cache, 3 * second),
     lk_text = (first_cache, 3 * second), lk_think = (first_cache, 3 * second), lk_again = (first_cache, 3 * second)\<rparr>"

definition sample_rounds :: "read_round list" where
  "sample_rounds = [([(second_cache, 4 * second, False)], second_cache, 4 * second)]"

definition sample_event :: "int \<Rightarrow> string \<Rightarrow> stream_event" where
  "sample_event n p = \<lparr>ev_id = format_int n, ev_seq = n, ev_type = p, ev_body = Stored_payload p\<rparr>"

definition sample_subscription :: "int \<Rightarrow> int \<Rightarrow> subscription" where
  "sample_subscription n after = \<lparr>sub_cursor = format_int n, sub_after = after, sub_text = 0, sub_think = 0\<rparr>"

lemma sample_trim_ids: "trim_space ''1'' = ''1''" "trim_space ''2'' = ''2''"
  by code_simp+

lemma sample_subscribed:
  "subscribe_store sample_json 7 ''r'' 0 False 10 sample_looks =
     Some ([sample_event 1 ''p''], Some (sample_subscription 1 0))"
proof -
  have "authorized 7 ''r'' (first_cache, 3 * second)"
    by (simp add: authorized_def get_generation_stream_owner_def sample_trims first_state)
      (simp add: sample_stream_def owner_expired_def is_zero_def zero_time_def second_def minute_def)
  moreover have "list_generation_stream_events first_cache ''r'' 10 (3 * second) = stream_events sample_stream"
    by (simp add: list_generation_stream_events_def sample_trims first_state)
      (simp add: sample_stream_def events_expired_def is_zero_def zero_time_def second_def minute_def)
  moreover have "retained_stream_events sample_json
      \<lparr>ri_after = 0, ri_text = None, ri_think = None, ri_include = False\<rparr> (stream_events sample_stream) =
      Some ([sample_event 1 ''p''], ''1'', False)"
    by (subst sample_stream_def) code_simp
  ultimately show ?thesis
    by (simp add: subscribe_store_def sample_looks_def start_cursor_def sample_trim_ids sample_subscription_def
        sample_trims text_seq_of_def think_seq_of_def)
qed

lemma sample_read:
  "read_store_events sample_json 7 ''r'' 5 (sample_subscription 1 0) sample_rounds =
     ([sample_event 2 ''q''], Some (sample_subscription 2 2))"
proof -
  have "stream_read_attempt second_cache ''r'' 1 5 (4 * second) = Inl [\<lparr>sm_id = ''2'', sm_seq = 2, sm_payload = ''q''\<rparr>]"
    by (simp add: stream_read_attempt_def sample_trims second_state)
      (simp add: second_stream_def events_expired_def is_zero_def zero_time_def second_def minute_def
        generation_events_after_def)
  moreover have "authorized 7 ''r'' (second_cache, 4 * second)"
    by (simp add: authorized_def get_generation_stream_owner_def sample_trims second_state)
      (simp add: second_stream_def sample_stream_def owner_expired_def is_zero_def zero_time_def second_def minute_def)
  moreover have "deliver_records sample_json (sample_subscription 1 0) [\<lparr>sm_id = ''2'', sm_seq = 2, sm_payload = ''q''\<rparr>] =
      ([sample_event 2 ''q''], sample_subscription 2 2, False)"
    by code_simp
  moreover have "parse_stream_id (sub_cursor (sample_subscription 1 0)) = 1"
    by (simp add: sample_subscription_def parse_format_id max_int64_def)
  ultimately show ?thesis by (simp add: sample_rounds_def)
qed

theorem watcher_misses_nothing_witness:
  "set (due_events sample_json 0 0 0 (stream_events second_stream)) \<subseteq> {sample_event 1 ''p'', sample_event 2 ''q''} \<and>
   map sm_seq (stream_events second_stream) = [1, 2]"
proof -
  have start: "fst (lk_owner sample_looks) = snd (stream_run new_cache sample_calls)"
    by (simp add: sample_looks_def first_cache_def)
  have same: "goes_on ''r'' first_cache first_cache" "goes_on ''r'' second_cache second_cache"
    unfolding goes_on_def by (rule exI [of _ "[]"], simp add: first_state second_state)+
  have next': "goes_on ''r'' first_cache second_cache"
    unfolding goes_on_def
    by (rule exI [of _ "[second_call]"]) (use second_state in \<open>simp add: first_state second_cache_def case_prod_beta\<close>)
  have chain: "successively (goes_on (trim_space ''r'')) (map fst [lk_owner sample_looks, lk_events sample_looks,
      lk_text sample_looks, lk_think sample_looks, lk_again sample_looks] @ round_caches sample_rounds @ [second_cache])"
    by (simp add: sample_looks_def sample_rounds_def sample_trims same next')
  have window: "10 \<le> (0 :: int) \<or> (\<forall>s. streams (fst (lk_events sample_looks)) (trim_space ''r'') = Some s \<longrightarrow>
      int (length (stream_events s)) \<le> 10)"
    by (simp add: sample_looks_def sample_trims first_state sample_stream_def)
  have small: "stream_seq second_stream \<le> max_int64" by (simp add: second_stream_def max_int64_def)
  have caught_up: "stream_read_attempt second_cache ''r'' (parse_stream_id (sub_cursor (sample_subscription 2 2))) 5 (4 * second) =
      Inr (stream_chan second_stream)" "\<not> events_expired second_stream (4 * second)"
  proof -
    have "parse_stream_id (sub_cursor (sample_subscription 2 2)) = 2"
      by (simp add: sample_subscription_def parse_format_id max_int64_def)
    then show "stream_read_attempt second_cache ''r'' (parse_stream_id (sub_cursor (sample_subscription 2 2))) 5 (4 * second) =
        Inr (stream_chan second_stream)" "\<not> events_expired second_stream (4 * second)"
      by (simp_all add: stream_read_attempt_def sample_trims second_state)
        (simp_all add: second_stream_def events_expired_def is_zero_def zero_time_def second_def minute_def
          generation_events_after_def)
  qed
  have "streams second_cache (trim_space ''r'') = Some second_stream" by (simp add: sample_trims second_state)
  from watcher_misses_nothing [OF start chain sample_subscribed window sample_read this small, of "4 * second"] caught_up
  show ?thesis
    by (simp add: sample_subscription_def) (simp add: second_stream_def)
qed

end
