(* ===== verification/Route_Protocol.thy ===== *)
theory Route_Protocol
  imports Prelude
begin

text \<open>
  The tables that tie model kinds, upstream compatibility and wire protocols together
  (application/channel/model_catalog.go, and the adapter list of ports/llm/adapter.go). The JSON
  decoder and encoder of the standard library are the arguments \<open>json_codec\<close>; a decoder answers
  None for an error.
\<close>

section \<open>Vocabulary\<close>

abbreviation "adapter_openai_responses \<equiv> ''openai_responses''"
abbreviation "adapter_openrouter_chat \<equiv> ''openrouter_chat_completions''"
abbreviation "adapter_openrouter_responses \<equiv> ''openrouter_responses''"
abbreviation "adapter_openrouter_images \<equiv> ''openrouter_images''"
abbreviation "adapter_openai_chat_completions \<equiv> ''openai_chat_completions''"
abbreviation "adapter_openai_image_generations \<equiv> ''openai_image_generations''"
abbreviation "adapter_openai_image_edits \<equiv> ''openai_image_edits''"
abbreviation "adapter_anthropic_messages \<equiv> ''anthropic_messages''"
abbreviation "adapter_google_generate_content \<equiv> ''google_generate_content''"
abbreviation "adapter_google_image_generation \<equiv> ''google_image_generation''"
abbreviation "adapter_gemini_interactions \<equiv> ''gemini_interactions''"
abbreviation "adapter_xai_responses \<equiv> ''xai_responses''"
abbreviation "adapter_xai_image \<equiv> ''xai_image''"
abbreviation "adapter_xai_image_edits \<equiv> ''xai_image_edits''"
abbreviation "adapter_xai_video \<equiv> ''xai_video''"
abbreviation "adapter_xai_video_extensions \<equiv> ''xai_video_extensions''"
abbreviation "protocol_openai_video_generations \<equiv> ''openai_video_generations''"

abbreviation "kind_chat \<equiv> ''chat''"
abbreviation "kind_audio \<equiv> ''audio''"
abbreviation "kind_image_gen \<equiv> ''image_gen''"
abbreviation "kind_image_edit \<equiv> ''image_edit''"
abbreviation "kind_video_gen \<equiv> ''video_gen''"
abbreviation "kind_video_extension \<equiv> ''video_extension''"

datatype protocol_error = ErrInvalidJSONConfig | ErrInvalidAdapter | ErrProtocolRequired
  | ErrInvalidRouteProtocolCombination

record json_codec =
  string_list_of_json :: "string \<Rightarrow> string list option"
  string_map_of_json :: "string \<Rightarrow> (string \<rightharpoonup> string option) option"
  json_of_string_map :: "(string \<rightharpoonup> string) \<Rightarrow> string"

text \<open>Reading a Go map of strings: a missing key gives the empty string.\<close>

definition map_get :: "(string \<rightharpoonup> string) \<Rightarrow> string \<Rightarrow> string" where
  "map_get m k = (case m k of None \<Rightarrow> [] | Some v \<Rightarrow> v)"

text \<open>Trimming and lower-casing in the order of the sources.\<close>

definition fold_text :: "string \<Rightarrow> string" where
  "fold_text raw = trim_space (to_lower raw)"

section \<open>Adapters and protocols\<close>

definition normalize_adapter :: "string \<Rightarrow> string" where
  "normalize_adapter raw =
     (let value = fold_text raw in if value = [] then adapter_openai_responses else value)"

definition is_implemented_adapter :: "string \<Rightarrow> bool" where
  "is_implemented_adapter raw \<longleftrightarrow>
     List.member
       [adapter_openai_responses, adapter_openrouter_chat, adapter_openrouter_responses,
        adapter_openrouter_images, adapter_openai_chat_completions,
        adapter_openai_image_generations, adapter_openai_image_edits, adapter_xai_responses,
        adapter_anthropic_messages, adapter_google_generate_content,
        adapter_google_image_generation, adapter_gemini_interactions, adapter_xai_image,
        adapter_xai_image_edits, adapter_xai_video, adapter_xai_video_extensions]
       (normalize_adapter raw)"

definition is_known_protocol :: "string \<Rightarrow> bool" where
  "is_known_protocol raw \<longleftrightarrow>
     List.member
       [adapter_openai_responses, adapter_openrouter_chat, adapter_openrouter_responses,
        adapter_openai_chat_completions, adapter_anthropic_messages,
        adapter_google_generate_content, adapter_xai_responses,
        adapter_openai_image_generations, adapter_openai_image_edits, adapter_openrouter_images,
        protocol_openai_video_generations, adapter_google_image_generation,
        adapter_gemini_interactions, adapter_xai_image, adapter_xai_image_edits,
        adapter_xai_video, adapter_xai_video_extensions]
       (fold_text raw)"

definition is_protocol_allowed_for_kind :: "string \<Rightarrow> string \<Rightarrow> bool" where
  "is_protocol_allowed_for_kind kind protocol =
     (if kind = kind_chat then
        List.member
          [adapter_openai_responses, adapter_openrouter_chat, adapter_openrouter_responses,
           adapter_openai_chat_completions, adapter_anthropic_messages,
           adapter_google_generate_content, adapter_gemini_interactions, adapter_xai_responses]
          protocol
      else if kind = kind_audio then
        List.member
          [adapter_openai_responses, adapter_openrouter_chat, adapter_openrouter_responses,
           adapter_openai_chat_completions, adapter_anthropic_messages,
           adapter_google_generate_content, adapter_xai_responses]
          protocol
      else if kind = kind_image_gen then
        List.member
          [adapter_openai_image_generations, adapter_openrouter_images,
           adapter_google_image_generation, adapter_gemini_interactions, adapter_xai_image]
          protocol
      else if kind = kind_image_edit then
        List.member
          [adapter_openai_image_edits, adapter_openrouter_images,
           adapter_google_image_generation, adapter_gemini_interactions, adapter_xai_image_edits]
          protocol
      else if kind = kind_video_gen then
        List.member
          [protocol_openai_video_generations, adapter_gemini_interactions, adapter_xai_video]
          protocol
      else kind = kind_video_extension \<and> protocol = adapter_xai_video_extensions)"

section \<open>Upstream compatibility\<close>

definition normalize_compatible :: "string \<Rightarrow> string" where
  "normalize_compatible raw =
     (let v = fold_text raw
      in if List.member [''anthropic'', ''google'', ''xai'', ''openrouter'', ''custom''] v then v
         else if v = [] \<or> v = ''openai'' then ''openai''
         else [])"

definition fallback_table :: "string \<Rightarrow> (string \<times> string) list" where
  "fallback_table c =
     (if c = ''openai'' then
        [(kind_chat, adapter_openai_chat_completions),
               (kind_audio, adapter_openai_chat_completions),
               (kind_image_gen, adapter_openai_image_generations),
               (kind_image_edit, adapter_openai_image_edits),
               (kind_video_gen, protocol_openai_video_generations)]
      else if c = ''anthropic'' then
        [(kind_chat, adapter_anthropic_messages),
               (kind_audio, adapter_anthropic_messages)]
      else if c = ''google'' then
        [(kind_chat, adapter_google_generate_content),
               (kind_audio, adapter_google_generate_content),
               (kind_image_gen, adapter_google_image_generation),
               (kind_image_edit, adapter_google_image_generation),
               (kind_video_gen, adapter_gemini_interactions)]
      else if c = ''xai'' then
        [(kind_chat, adapter_xai_responses),
               (kind_audio, adapter_xai_responses),
               (kind_image_gen, adapter_xai_image),
               (kind_image_edit, adapter_xai_image_edits),
               (kind_video_gen, adapter_xai_video),
               (kind_video_extension, adapter_xai_video_extensions)]
      else if c = ''openrouter'' then
        [(kind_chat, adapter_openrouter_responses),
               (kind_audio, adapter_openrouter_responses),
               (kind_image_gen, adapter_openrouter_images),
               (kind_image_edit, adapter_openrouter_images),
               (kind_video_gen, protocol_openai_video_generations)]
      else if c = ''custom'' then
        [(kind_chat, adapter_openai_chat_completions),
               (kind_audio, adapter_openai_chat_completions),
               (kind_image_gen, adapter_openai_image_generations),
               (kind_image_edit, adapter_openai_image_edits)]
      else [])"

definition system_fallback_protocols :: "string \<Rightarrow> string \<rightharpoonup> string" where
  "system_fallback_protocols compatible = map_of (fallback_table (normalize_compatible compatible))"

definition protocol_defaults_for_compatible :: "json_codec \<Rightarrow> string \<Rightarrow> string" where
  "protocol_defaults_for_compatible js compatible =
     json_of_string_map js (system_fallback_protocols (normalize_compatible compatible))"

definition protocol_default_kind_order :: "string list" where
  "protocol_default_kind_order =
     [kind_chat, kind_audio, kind_image_gen, kind_image_edit, kind_video_gen, kind_video_extension]"

fun normalize_defaults_loop ::
  "(string \<rightharpoonup> string option) \<Rightarrow> string list \<Rightarrow> (string \<rightharpoonup> string) \<Rightarrow>
     protocol_error + (string \<rightharpoonup> string)" where
  "normalize_defaults_loop payload [] defaults = Inr defaults"
| "normalize_defaults_loop payload (kind # kinds) defaults =
     (case payload kind of
        Some (Some value) \<Rightarrow>
          let protocol = fold_text value
          in if protocol = [] then normalize_defaults_loop payload kinds defaults
             else if \<not> is_known_protocol protocol then Inl ErrInvalidAdapter
             else if \<not> is_protocol_allowed_for_kind kind protocol then Inl ErrInvalidAdapter
             else normalize_defaults_loop payload kinds (defaults(kind \<mapsto> protocol))
      | _ \<Rightarrow> normalize_defaults_loop payload kinds defaults)"

text \<open>
  Decoding the text \<open>null\<close> succeeds and leaves the Go map nil, which the source refuses; in
  \<open>string_map_of_json\<close> that is the answer None as well, since every other reader of the model
  takes a nil map for an empty one and answers the same on an error.
\<close>

definition normalize_protocol_defaults_json ::
  "json_codec \<Rightarrow> string \<Rightarrow> protocol_error + string" where
  "normalize_protocol_defaults_json js raw =
     (let raw = trim_space raw
      in if raw = [] then Inr ''{}''
         else case string_map_of_json js raw of
           None \<Rightarrow> Inl ErrInvalidJSONConfig
         | Some payload \<Rightarrow>
             (case normalize_defaults_loop payload protocol_default_kind_order Map.empty of
                Inl e \<Rightarrow> Inl e
              | Inr defaults \<Rightarrow> Inr (json_of_string_map js defaults)))"

section \<open>Kinds\<close>

fun normalize_kind_loop :: "string list \<Rightarrow> string list \<Rightarrow> string list" where
  "normalize_kind_loop [] results = results"
| "normalize_kind_loop (kind # kinds) results =
     (let value = fold_text kind
      in if value = [] \<or> List.member results value then normalize_kind_loop kinds results
         else normalize_kind_loop kinds (results @ [value]))"

definition normalize_kind_list :: "string list \<Rightarrow> string list" where
  "normalize_kind_list kinds = normalize_kind_loop kinds []"

definition parse_kinds :: "json_codec \<Rightarrow> string \<Rightarrow> string list" where
  "parse_kinds js raw =
     (let value = trim_space raw
      in if value = [] then []
         else case (if take 1 value = ''['' then string_list_of_json js value else None) of
                Some parsed \<Rightarrow> normalize_kind_list parsed
              | None \<Rightarrow> normalize_kind_list [value])"

definition has_model_kind :: "string list \<Rightarrow> string \<Rightarrow> bool" where
  "has_model_kind kinds target = List.member kinds target"

definition primary_kind_from_kinds :: "json_codec \<Rightarrow> string \<Rightarrow> string" where
  "primary_kind_from_kinds js kinds_json =
     (let kinds = parse_kinds js kinds_json
      in case List.find (has_model_kind kinds) protocol_default_kind_order of
           None \<Rightarrow> [] | Some kind \<Rightarrow> kind)"

definition validate_kinds :: "string list \<Rightarrow> bool" where
  "validate_kinds kinds \<longleftrightarrow>
     kinds \<noteq> [] \<and> list_all (List.member protocol_default_kind_order) kinds"

section \<open>The protocols of a route binding\<close>

definition protocol_default_for_kind :: "json_codec \<Rightarrow> string \<Rightarrow> string \<Rightarrow> string" where
  "protocol_default_for_kind js defaults_json kind =
     (case string_map_of_json js (trim_space defaults_json) of
        None \<Rightarrow> []
      | Some defaults \<Rightarrow>
          (case defaults kind of
             Some (Some value) \<Rightarrow>
               let protocol = fold_text value
               in if \<not> is_known_protocol protocol then []
                  else if \<not> is_protocol_allowed_for_kind kind protocol then []
                  else protocol
           | _ \<Rightarrow> []))"

definition default_route_protocol_for_kind ::
  "json_codec \<Rightarrow> string \<Rightarrow> string \<Rightarrow> string \<Rightarrow> string" where
  "default_route_protocol_for_kind js up_compatible defaults_json kind =
     (let protocol = protocol_default_for_kind js defaults_json kind
      in if protocol \<noteq> [] then protocol
         else map_get (system_fallback_protocols up_compatible) kind)"

definition is_protocol_allowed_for_kinds :: "json_codec \<Rightarrow> string \<Rightarrow> string \<Rightarrow> bool" where
  "is_protocol_allowed_for_kinds js kinds_json protocol =
     (let kinds = parse_kinds js kinds_json
      in kinds = [] \<or> list_ex (\<lambda>kind. is_protocol_allowed_for_kind kind protocol) kinds)"

definition route_protocol_supports_all_kinds :: "string \<Rightarrow> string list \<Rightarrow> bool" where
  "route_protocol_supports_all_kinds protocol kinds \<longleftrightarrow>
     list_all (\<lambda>kind. is_protocol_allowed_for_kind kind protocol) kinds \<and> 0 < length kinds"

definition unified_protocol_for_multi_kind_route ::
  "json_codec \<Rightarrow> string \<Rightarrow> string \<Rightarrow> string \<Rightarrow> string" where
  "unified_protocol_for_multi_kind_route js up_compatible defaults_json kinds_json =
     (let kinds = parse_kinds js kinds_json
      in if length kinds \<le> 1 \<or> \<not> has_model_kind kinds kind_video_gen then []
         else
           let protocol = default_route_protocol_for_kind js up_compatible defaults_json kind_video_gen
           in if protocol = [] \<or> \<not> route_protocol_supports_all_kinds protocol kinds then []
              else protocol)"

fun unique_protocol_loop :: "string list \<Rightarrow> string list \<Rightarrow> string list" where
  "unique_protocol_loop [] protocols = protocols"
| "unique_protocol_loop (raw # values) protocols =
     (let protocol = fold_text raw
      in if protocol = [] \<or> List.member protocols protocol
         then unique_protocol_loop values protocols
         else unique_protocol_loop values (protocols @ [protocol]))"

definition unique_route_protocols :: "string list \<Rightarrow> string list" where
  "unique_route_protocols values = unique_protocol_loop values []"

definition is_supported_route_protocol_combination :: "string list \<Rightarrow> bool" where
  "is_supported_route_protocol_combination protocols =
     (let seen = unique_route_protocols protocols
      in if length seen \<le> 1 then True
         else if length seen \<noteq> 2 then False
         else if List.member seen adapter_openai_image_generations \<and>
                 List.member seen adapter_openai_image_edits then True
         else if List.member seen adapter_xai_image \<and> List.member seen adapter_xai_image_edits
              then True
         else List.member seen adapter_xai_video \<and> List.member seen adapter_xai_video_extensions)"

definition resolve_route_protocol ::
  "json_codec \<Rightarrow> string \<Rightarrow> string \<Rightarrow> string \<Rightarrow> string \<Rightarrow> protocol_error + string" where
  "resolve_route_protocol js explicit up_compatible defaults_json kinds_json =
     (let kind = primary_kind_from_kinds js kinds_json; protocol = fold_text explicit
      in if protocol \<noteq> [] then
           (if \<not> is_known_protocol protocol then Inl ErrInvalidAdapter
            else if \<not> is_protocol_allowed_for_kinds js kinds_json protocol then Inl ErrInvalidAdapter
            else Inr protocol)
         else if kind = [] then Inl ErrProtocolRequired
         else
           let unified = unified_protocol_for_multi_kind_route js up_compatible defaults_json kinds_json;
               default = protocol_default_for_kind js defaults_json kind;
               fallback = map_get (system_fallback_protocols up_compatible) kind
           in if unified \<noteq> [] then Inr unified
              else if default \<noteq> [] then Inr default
              else if fallback \<noteq> [] then Inr fallback
              else Inl ErrProtocolRequired)"

fun explicit_protocols ::
  "json_codec \<Rightarrow> string list \<Rightarrow> string \<Rightarrow> string \<Rightarrow> string \<Rightarrow> string list \<Rightarrow>
     protocol_error + string list" where
  "explicit_protocols js [] up_compatible defaults_json kinds_json protocols = Inr protocols"
| "explicit_protocols js (raw # rest) up_compatible defaults_json kinds_json protocols =
     (let value = fold_text raw
      in if value = [] then explicit_protocols js rest up_compatible defaults_json kinds_json protocols
         else case resolve_route_protocol js value up_compatible defaults_json kinds_json of
           Inl e \<Rightarrow> Inl e
         | Inr protocol \<Rightarrow>
             explicit_protocols js rest up_compatible defaults_json kinds_json
               (if List.member protocols protocol then protocols else protocols @ [protocol]))"

definition resolve_route_protocols ::
  "json_codec \<Rightarrow> string list \<Rightarrow> string \<Rightarrow> string \<Rightarrow> string \<Rightarrow> protocol_error + string list" where
  "resolve_route_protocols js explicit up_compatible defaults_json kinds_json =
     (case explicit_protocols js explicit up_compatible defaults_json kinds_json [] of
        Inl e \<Rightarrow> Inl e
      | Inr protocols \<Rightarrow>
          if 0 < length protocols then
            (if \<not> is_supported_route_protocol_combination protocols
             then Inl ErrInvalidRouteProtocolCombination else Inr protocols)
          else
            let kinds = parse_kinds js kinds_json;
                unified = unified_protocol_for_multi_kind_route js up_compatible defaults_json kinds_json;
                generation = default_route_protocol_for_kind js up_compatible defaults_json kind_image_gen;
                edit = default_route_protocol_for_kind js up_compatible defaults_json kind_image_edit;
                pair = unique_route_protocols [generation, edit];
                video = default_route_protocol_for_kind js up_compatible defaults_json kind_video_gen
            in if unified \<noteq> [] then Inr [unified]
               else if has_model_kind kinds kind_image_gen \<and> has_model_kind kinds kind_image_edit \<and>
                       generation \<noteq> [] \<and> edit \<noteq> [] \<and> is_supported_route_protocol_combination pair
                    then Inr pair
               else if has_model_kind kinds kind_video_gen \<and> has_model_kind kinds kind_video_extension \<and>
                       normalize_compatible up_compatible = ''xai'' \<and> video = adapter_xai_video
                    then Inr [adapter_xai_video, adapter_xai_video_extensions]
               else (case resolve_route_protocol js [] up_compatible defaults_json kinds_json of
                       Inl e \<Rightarrow> Inl e
                     | Inr protocol \<Rightarrow> Inr [protocol]))"

definition suggest_sync_protocol ::
  "json_codec \<Rightarrow> string \<Rightarrow> string \<Rightarrow> string \<Rightarrow> protocol_error + string" where
  "suggest_sync_protocol js up_compatible defaults_json kinds_json =
     (case resolve_route_protocol js [] up_compatible defaults_json kinds_json of
        Inl ErrProtocolRequired \<Rightarrow> Inr []
      | r \<Rightarrow> r)"

definition suggest_sync_protocols ::
  "json_codec \<Rightarrow> string \<Rightarrow> string \<Rightarrow> string \<Rightarrow> protocol_error + string list" where
  "suggest_sync_protocols js up_compatible defaults_json kinds_json =
     (case resolve_route_protocols js [] up_compatible defaults_json kinds_json of
        Inl ErrProtocolRequired \<Rightarrow> Inr []
      | r \<Rightarrow> r)"

section \<open>Tasks\<close>

definition normalize_task_type :: "string \<Rightarrow> string" where
  "normalize_task_type raw =
     (let v = fold_text raw
      in if List.member [''image_generation'', ''image_edit'', ''video_generation'', ''video_extension''] v
         then v else ''chat'')"

definition is_route_allowed_for_task :: "json_codec \<Rightarrow> string \<Rightarrow> string \<Rightarrow> string \<Rightarrow> bool" where
  "is_route_allowed_for_task js task_type kinds_json protocol =
     (let kinds = parse_kinds js kinds_json; protocol = fold_text protocol;
          task = normalize_task_type task_type
      in if length kinds = 0 then
           (if task = ''image_generation'' then is_protocol_allowed_for_kind kind_image_gen protocol
            else if task = ''image_edit'' then is_protocol_allowed_for_kind kind_image_edit protocol
            else if task = ''video_generation''
              then is_protocol_allowed_for_kind kind_video_gen protocol \<and>
                   protocol \<noteq> adapter_xai_video_extensions
            else if task = ''video_extension''
              then is_protocol_allowed_for_kind kind_video_extension protocol
            else is_protocol_allowed_for_kind kind_chat protocol \<or>
                 is_protocol_allowed_for_kind kind_audio protocol)
         else if task = ''image_generation''
           then has_model_kind kinds kind_image_gen \<and> is_protocol_allowed_for_kind kind_image_gen protocol
         else if task = ''image_edit''
           then has_model_kind kinds kind_image_edit \<and> is_protocol_allowed_for_kind kind_image_edit protocol
         else if task = ''video_generation''
           then has_model_kind kinds kind_video_gen \<and>
                is_protocol_allowed_for_kind kind_video_gen protocol \<and>
                protocol \<noteq> adapter_xai_video_extensions
         else if task = ''video_extension''
           then has_model_kind kinds kind_video_extension \<and>
                is_protocol_allowed_for_kind kind_video_extension protocol
         else list_ex (\<lambda>kind. (kind = kind_chat \<or> kind = kind_audio) \<and>
                              is_protocol_allowed_for_kind kind protocol) kinds)"

section \<open>Facts about the tables\<close>

definition known_protocols :: "string list" where
  "known_protocols =
     [adapter_openai_responses, adapter_openrouter_chat, adapter_openrouter_responses,
      adapter_openai_chat_completions, adapter_anthropic_messages,
      adapter_google_generate_content, adapter_xai_responses,
      adapter_openai_image_generations, adapter_openai_image_edits, adapter_openrouter_images,
      protocol_openai_video_generations, adapter_google_image_generation,
      adapter_gemini_interactions, adapter_xai_image, adapter_xai_image_edits,
      adapter_xai_video, adapter_xai_video_extensions]"

lemma known_iff: "is_known_protocol p \<longleftrightarrow> fold_text p \<in> set known_protocols"
  by (simp add: is_known_protocol_def known_protocols_def List.member_iff)

lemma fold_text_plain: "list_all plain_char s \<Longrightarrow> fold_text s = s"
  by (simp add: fold_text_def to_lower_plain trim_space_plain)

lemma fold_text_known: "list_all (\<lambda>p. fold_text p = p) known_protocols"
proof -
  have "list_all (list_all plain_char) known_protocols" by code_simp
  then show ?thesis by (simp add: list_all_iff fold_text_plain)
qed

lemma allowed_known: "is_protocol_allowed_for_kind kind p \<Longrightarrow> p \<in> set known_protocols"
  by (auto simp: is_protocol_allowed_for_kind_def known_protocols_def List.member_iff split: if_splits)

lemma allowed_fold: "is_protocol_allowed_for_kind kind p \<Longrightarrow> fold_text p = p"
  using allowed_known fold_text_known by (fastforce simp: list_all_iff)

lemma allowed_is_known: "is_protocol_allowed_for_kind kind p \<Longrightarrow> is_known_protocol p"
  using allowed_known allowed_fold by (simp add: known_iff)

lemma allowed_not_Nil: "is_protocol_allowed_for_kind kind p \<Longrightarrow> p \<noteq> []"
  by (auto dest!: allowed_known simp: known_protocols_def)

text \<open>The task that a kind serves.\<close>

definition task_of_kind :: "string \<Rightarrow> string" where
  "task_of_kind kind =
     (if kind = kind_image_gen then ''image_generation''
      else if kind = kind_image_edit then ''image_edit''
      else if kind = kind_video_gen then ''video_generation''
      else if kind = kind_video_extension then ''video_extension'' else ''chat'')"

lemma allowed_kind: "is_protocol_allowed_for_kind kind p \<Longrightarrow> kind \<in> set protocol_default_kind_order"
  by (auto simp: is_protocol_allowed_for_kind_def protocol_default_kind_order_def split: if_splits)

lemma normalize_task_of_kind:
  "kind \<in> set protocol_default_kind_order \<Longrightarrow> normalize_task_type (task_of_kind kind) = task_of_kind kind"
proof -
  have "list_all (\<lambda>kind. list_all plain_char (task_of_kind kind) \<and>
      (let v = task_of_kind kind
       in if List.member [''image_generation'', ''image_edit'', ''video_generation'', ''video_extension''] v
          then v else ''chat'') = task_of_kind kind) protocol_default_kind_order"
    by code_simp
  then show "kind \<in> set protocol_default_kind_order \<Longrightarrow> ?thesis"
    by (simp add: list_all_iff normalize_task_type_def fold_text_plain)
qed

lemma video_gen_not_extension: "\<not> is_protocol_allowed_for_kind kind_video_gen adapter_xai_video_extensions"
  by code_simp

lemma six_cases:
  assumes "x \<in> set [a, b, c, d, e, f]"
  obtains "x = a" | "x = b" | "x = c" | "x = d" | "x = e" | "x = f"
  using assms by auto

lemma allowed_serves_task:
  assumes "is_protocol_allowed_for_kind kind p"
    and "parse_kinds js kinds_json = [] \<or> List.member (parse_kinds js kinds_json) kind"
  shows "is_route_allowed_for_task js (task_of_kind kind) kinds_json p"
proof -
  have k: "kind \<in> set protocol_default_kind_order" using allowed_kind assms(1) .
  note facts = normalize_task_of_kind [OF k] allowed_fold [OF assms(1)]
  consider "kind = kind_chat" | "kind = kind_audio" | "kind = kind_image_gen" | "kind = kind_image_edit"
    | "kind = kind_video_gen" | "kind = kind_video_extension"
    using k unfolding protocol_default_kind_order_def by (rule six_cases)
  then show ?thesis
  proof cases
    case 5
    then have "p \<noteq> adapter_xai_video_extensions" using assms(1) video_gen_not_extension by metis
    with 5 show ?thesis using assms facts
      by (auto simp add: is_route_allowed_for_task_def Let_def has_model_kind_def task_of_kind_def)
  qed (use assms facts in \<open>auto simp add: is_route_allowed_for_task_def Let_def has_model_kind_def
      task_of_kind_def list_ex_iff List.member_iff\<close>)
qed

lemma known_allowed_somewhere: "list_all (\<lambda>p. list_ex (\<lambda>kind. is_protocol_allowed_for_kind kind p) protocol_default_kind_order) known_protocols"
  by code_simp

definition compatibles :: "string list" where
  "compatibles = [''openai'', ''anthropic'', ''google'', ''xai'', ''openrouter'', ''custom'']"

lemma fallback_table_Nil: "c \<notin> set compatibles \<Longrightarrow> fallback_table c = []"
  by (simp add: compatibles_def fallback_table_def)

lemma fallback_table_allowed:
  "list_all (\<lambda>c. list_all (\<lambda>(kind, p). is_protocol_allowed_for_kind kind p) (fallback_table c)) compatibles"
  by code_simp

lemma fallback_allowed:
  assumes "map_get (system_fallback_protocols c) kind \<noteq> []"
  shows "is_protocol_allowed_for_kind kind (map_get (system_fallback_protocols c) kind)"
proof -
  let ?c = "normalize_compatible c"
  obtain p where p: "map_of (fallback_table ?c) kind = Some p" "map_get (system_fallback_protocols c) kind = p"
    using assms by (auto simp: map_get_def system_fallback_protocols_def split: option.splits)
  then have "(kind, p) \<in> set (fallback_table ?c)" by (simp add: map_of_SomeD)
  moreover from this have "?c \<in> set compatibles" using fallback_table_Nil by force
  ultimately show ?thesis using fallback_table_allowed p(2) by (fastforce simp: list_all_iff)
qed

lemma default_allowed:
  assumes "protocol_default_for_kind js d kind \<noteq> []"
  shows "is_protocol_allowed_for_kind kind (protocol_default_for_kind js d kind)"
  using assms by (auto simp: protocol_default_for_kind_def Let_def split: option.splits if_splits)

lemma default_route_allowed:
  assumes "default_route_protocol_for_kind js c d kind \<noteq> []"
  shows "is_protocol_allowed_for_kind kind (default_route_protocol_for_kind js c d kind)"
  using assms default_allowed fallback_allowed
  by (auto simp: default_route_protocol_for_kind_def Let_def split: if_splits)

section \<open>The protocols of a binding serve its model\<close>

definition serves_model :: "json_codec \<Rightarrow> string \<Rightarrow> string \<Rightarrow> bool" where
  "serves_model js kinds_json p \<longleftrightarrow>
     is_known_protocol p \<and> (\<exists>task. is_route_allowed_for_task js task kinds_json p)"

lemma allowed_serves_model:
  assumes "is_protocol_allowed_for_kind kind p"
    and "parse_kinds js kinds_json = [] \<or> List.member (parse_kinds js kinds_json) kind"
  shows "serves_model js kinds_json p"
  unfolding serves_model_def using allowed_is_known [OF assms(1)] allowed_serves_task [OF assms] by blast

lemma known_serves_kindless:
  assumes "is_known_protocol p" "parse_kinds js kinds_json = []"
  shows "serves_model js kinds_json p"
proof -
  have k: "fold_text p \<in> set known_protocols" using assms(1) known_iff by blast
  then obtain kind where "is_protocol_allowed_for_kind kind (fold_text p)"
    using known_allowed_somewhere by (fastforce simp: list_all_iff list_ex_iff)
  then have "is_route_allowed_for_task js (task_of_kind kind) kinds_json (fold_text p)"
    using allowed_serves_task assms(2) by blast
  moreover have "fold_text (fold_text p) = fold_text p"
    using k fold_text_known by (simp add: list_all_iff)
  ultimately have "is_route_allowed_for_task js (task_of_kind kind) kinds_json p"
    unfolding is_route_allowed_for_task_def by (simp only:)
  then show ?thesis using assms(1) unfolding serves_model_def by blast
qed

lemma primary_kind_member:
  assumes "primary_kind_from_kinds js kinds_json \<noteq> []"
  shows "List.member (parse_kinds js kinds_json) (primary_kind_from_kinds js kinds_json)"
proof -
  have found: "has_model_kind kinds kind" if "List.find (has_model_kind kinds) ks = Some kind" for kinds kind ks
    using that by (induction ks) (auto split: if_splits)
  show ?thesis
    using assms found [of "parse_kinds js kinds_json" protocol_default_kind_order]
    by (auto simp: primary_kind_from_kinds_def Let_def has_model_kind_def split: option.splits)
qed

lemma unified_serves_model:
  assumes "unified_protocol_for_multi_kind_route js c d kinds_json = p" "p \<noteq> []"
  shows "serves_model js kinds_json p"
proof -
  have "\<forall>kind \<in> set (parse_kinds js kinds_json). is_protocol_allowed_for_kind kind p"
    and "parse_kinds js kinds_json \<noteq> []"
    using assms
    by (auto simp: unified_protocol_for_multi_kind_route_def Let_def route_protocol_supports_all_kinds_def
        list_all_iff split: if_splits)
  then show ?thesis
    by (intro allowed_serves_model [of "hd (parse_kinds js kinds_json)"]) (simp_all add: List.member_iff)
qed

lemma resolve_route_protocol_serves:
  assumes "resolve_route_protocol js explicit c d kinds_json = Inr p"
  shows "serves_model js kinds_json p"
proof (cases "fold_text explicit = []")
  case False
  then have p: "is_known_protocol p" "is_protocol_allowed_for_kinds js kinds_json p"
    using assms by (auto simp: resolve_route_protocol_def Let_def split: if_splits)
  show ?thesis
  proof (cases "parse_kinds js kinds_json = []")
    case True
    then show ?thesis using p(1) known_serves_kindless by blast
  next
    case False
    then obtain kind where "List.member (parse_kinds js kinds_json) kind" "is_protocol_allowed_for_kind kind p"
      using p(2) by (auto simp: is_protocol_allowed_for_kinds_def Let_def list_ex_iff List.member_iff)
    then show ?thesis using allowed_serves_model by blast
  qed
next
  case True
  let ?kind = "primary_kind_from_kinds js kinds_json"
  let ?u = "unified_protocol_for_multi_kind_route js c d kinds_json"
  have kind: "?kind \<noteq> []" using assms True by (auto simp: resolve_route_protocol_def Let_def split: if_splits)
  show ?thesis
  proof (cases "?u = []")
    case False
    then have "p = ?u" using assms True kind by (simp add: resolve_route_protocol_def Let_def)
    then show ?thesis using False unified_serves_model by blast
  next
    case u: True
    then have "p \<noteq> []" "p = protocol_default_for_kind js d ?kind \<or> p = map_get (system_fallback_protocols c) ?kind"
      using assms True kind by (auto simp: resolve_route_protocol_def Let_def split: if_splits)
    then have "is_protocol_allowed_for_kind ?kind p" using default_allowed fallback_allowed by metis
    then show ?thesis using primary_kind_member [OF kind] allowed_serves_model by blast
  qed
qed

lemma explicit_protocols_serve:
  assumes "explicit_protocols js explicit c d kinds_json ps = Inr qs"
    and "distinct ps" "\<forall>p \<in> set ps. serves_model js kinds_json p"
  shows "distinct qs \<and> (\<forall>p \<in> set qs. serves_model js kinds_json p)"
  using assms
proof (induction explicit arbitrary: ps)
  case Nil
  then show ?case by simp
next
  case (Cons raw rest)
  show ?case
  proof (cases "fold_text raw = []")
    case True
    then show ?thesis using Cons by simp
  next
    case False
    then obtain p where p: "resolve_route_protocol js (fold_text raw) c d kinds_json = Inr p"
      using Cons.prems(1) by (auto simp: Let_def split: sum.splits)
    show ?thesis
      by (rule Cons.IH [of "if List.member ps p then ps else ps @ [p]"])
        (use Cons.prems p False resolve_route_protocol_serves [OF p] in \<open>auto simp: Let_def List.member_iff\<close>)
  qed
qed

lemma unique_loop_distinct: "distinct ps \<Longrightarrow> distinct (unique_protocol_loop vs ps)"
  by (induction vs arbitrary: ps) (auto simp: Let_def List.member_iff)

lemma unique_loop_set: "set (unique_protocol_loop vs ps) = set ps \<union> (fold_text ` set vs - {[]})"
  by (induction vs arbitrary: ps) (auto simp: Let_def List.member_iff)

text \<open>
  The protocols chosen for a binding fit the model. Whenever the import of a route binding
  resolves protocols, explicit or defaulted, for whatever kinds, upstream compatibility and stored
  defaults, it gives at least one and no duplicates, they form a supported combination, and each is
  known and allowed by the router for some task of the model.
\<close>

theorem resolved_protocols_fit_model:
  assumes "resolve_route_protocols js explicit up_compatible defaults_json kinds_json = Inr ps"
  shows "ps \<noteq> [] \<and> distinct ps \<and> is_supported_route_protocol_combination ps \<and>
         (\<forall>p \<in> set ps. is_known_protocol p \<and> (\<exists>task. is_route_allowed_for_task js task kinds_json p))"
proof -
  let ?P = "\<lambda>p. serves_model js kinds_json p"
  let ?g = "default_route_protocol_for_kind js up_compatible defaults_json kind_image_gen"
  let ?e = "default_route_protocol_for_kind js up_compatible defaults_json kind_image_edit"
  let ?kinds = "parse_kinds js kinds_json"
  have single: "is_supported_route_protocol_combination [p]" for p
    by (simp add: is_supported_route_protocol_combination_def unique_route_protocols_def Let_def)
  obtain es where es: "explicit_protocols js explicit up_compatible defaults_json kinds_json [] = Inr es"
    using assms by (auto simp: resolve_route_protocols_def split: sum.splits)
  from explicit_protocols_serve [OF es] have es_ok: "distinct es" "\<forall>p \<in> set es. ?P p" by auto
  have "ps \<noteq> [] \<and> distinct ps \<and> is_supported_route_protocol_combination ps \<and> (\<forall>p \<in> set ps. ?P p)"
  proof (cases "es = []")
    case False
    then show ?thesis using assms es es_ok by (auto simp: resolve_route_protocols_def split: if_splits)
  next
    case True
    then consider
        (unified) u where "ps = [u]" "u = unified_protocol_for_multi_kind_route js up_compatible defaults_json kinds_json" "u \<noteq> []"
      | (pair) "ps = unique_route_protocols [?g, ?e]" "has_model_kind ?kinds kind_image_gen"
          "has_model_kind ?kinds kind_image_edit" "?g \<noteq> []" "?e \<noteq> []" "is_supported_route_protocol_combination ps"
      | (video) "ps = [adapter_xai_video, adapter_xai_video_extensions]" "has_model_kind ?kinds kind_video_gen"
          "has_model_kind ?kinds kind_video_extension"
      | (one) p where "ps = [p]" "resolve_route_protocol js [] up_compatible defaults_json kinds_json = Inr p"
      using assms es by (auto simp: resolve_route_protocols_def Let_def split: if_splits sum.splits)
    then show ?thesis
    proof cases
      case unified
      then show ?thesis using unified_serves_model single by auto
    next
      case pair
      have ge: "is_protocol_allowed_for_kind kind_image_gen ?g" "is_protocol_allowed_for_kind kind_image_edit ?e"
        using pair(4,5) default_route_allowed by blast+
      then have "?P ?g" "?P ?e"
        using pair(2,3) allowed_serves_model unfolding has_model_kind_def by blast+
      moreover have "set ps = {?g, ?e}"
        using ge [THEN allowed_fold] pair(4,5)
        unfolding pair(1) unique_route_protocols_def unique_loop_set by auto
      moreover have "distinct ps"
        unfolding pair(1) unique_route_protocols_def by (rule unique_loop_distinct) simp
      ultimately show ?thesis using pair(6) by auto
    next
      case video
      have "is_protocol_allowed_for_kind kind_video_gen adapter_xai_video"
        "is_protocol_allowed_for_kind kind_video_extension adapter_xai_video_extensions"
        "is_supported_route_protocol_combination [adapter_xai_video, adapter_xai_video_extensions]"
        by code_simp+
      then show ?thesis
        using video allowed_serves_model unfolding has_model_kind_def by auto
    next
      case one
      then show ?thesis using resolve_route_protocol_serves single by auto
    qed
  qed
  then show ?thesis unfolding serves_model_def by blast
qed

theorem resolved_protocols_fit_model_witness:
  "let js = \<lparr>string_list_of_json = (\<lambda>s. Some [''image_gen'', ''Image_Edit '']),
             string_map_of_json = (\<lambda>s. None), json_of_string_map = (\<lambda>m. [])\<rparr>;
       ps = [adapter_openai_image_generations, adapter_openai_image_edits];
       kinds = ''[image_gen]''
   in resolve_route_protocols js [] ''OpenAI'' [] kinds = Inr ps \<and>
      distinct ps \<and> (\<exists>task. is_route_allowed_for_task js task kinds adapter_openai_image_edits)"
proof -
  let ?js = "\<lparr>string_list_of_json = (\<lambda>s. Some [''image_gen'', ''Image_Edit '']),
             string_map_of_json = (\<lambda>s. None), json_of_string_map = (\<lambda>m. [])\<rparr>"
  let ?ps = "[adapter_openai_image_generations, adapter_openai_image_edits]"
  have r: "resolve_route_protocols ?js [] ''OpenAI'' [] ''[image_gen]'' = Inr ?ps" by code_simp
  from resolved_protocols_fit_model [OF r] show ?thesis unfolding Let_def using r by auto
qed

section \<open>Stored defaults\<close>

text \<open>What a defaults entry says of its kind: nothing, a refusal, or a protocol.\<close>

definition default_entry :: "(string \<rightharpoonup> string option) \<Rightarrow> string \<Rightarrow> string option" where
  "default_entry payload kind =
     (case payload kind of
        Some (Some value) \<Rightarrow> if fold_text value = [] then None else Some (fold_text value)
      | _ \<Rightarrow> None)"

definition entry_refused :: "(string \<rightharpoonup> string option) \<Rightarrow> string \<Rightarrow> bool" where
  "entry_refused payload kind \<longleftrightarrow>
     (case default_entry payload kind of
        None \<Rightarrow> False | Some p \<Rightarrow> \<not> is_protocol_allowed_for_kind kind p)"

lemma normalize_defaults_loop_eq:
  assumes "distinct kinds"
  shows "normalize_defaults_loop payload kinds defaults =
    (if list_ex (entry_refused payload) kinds then Inl ErrInvalidAdapter
     else Inr (\<lambda>k. if k \<in> set kinds \<and> default_entry payload k \<noteq> None then default_entry payload k
                    else defaults k))"
  using assms
proof (induction kinds arbitrary: defaults)
  case Nil
  then show ?case by simp
next
  case (Cons kind kinds)
  show ?case
  proof (cases "default_entry payload kind")
    case None
    then have "normalize_defaults_loop payload (kind # kinds) defaults = normalize_defaults_loop payload kinds defaults"
      by (auto simp: default_entry_def Let_def split: option.splits if_splits)
    with Cons None show ?thesis by (auto simp: entry_refused_def fun_eq_iff)
  next
    case (Some p)
    then have step: "normalize_defaults_loop payload (kind # kinds) defaults =
        (if \<not> is_protocol_allowed_for_kind kind p then Inl ErrInvalidAdapter
         else normalize_defaults_loop payload kinds (defaults(kind \<mapsto> p)))"
      using allowed_is_known by (auto simp: default_entry_def Let_def split: option.splits if_splits)
    show ?thesis
      unfolding step using Cons Some
      by (cases "is_protocol_allowed_for_kind kind p") (auto simp: entry_refused_def fun_eq_iff)
  qed
qed

lemma protocol_default_entry:
  assumes "string_map_of_json js (trim_space d) = Some payload"
  shows "protocol_default_for_kind js d kind =
    (case default_entry payload kind of
       None \<Rightarrow> [] | Some p \<Rightarrow> if is_protocol_allowed_for_kind kind p then p else [])"
proof -
  have "\<not> is_protocol_allowed_for_kind kind []" using allowed_not_Nil by blast
  then show ?thesis
    using assms allowed_is_known
    by (auto simp: protocol_default_for_kind_def default_entry_def Let_def split: option.splits)
qed

definition stored_entries :: "(string \<rightharpoonup> string option) \<Rightarrow> string \<rightharpoonup> string" where
  "stored_entries payload k =
     (if k \<in> set protocol_default_kind_order then default_entry payload k else None)"

lemma normalize_defaults_all:
  "normalize_defaults_loop payload protocol_default_kind_order Map.empty =
     (if list_ex (entry_refused payload) protocol_default_kind_order then Inl ErrInvalidAdapter
      else Inr (stored_entries payload))"
proof -
  have "distinct protocol_default_kind_order" by code_simp
  moreover have "(\<lambda>k. if k \<in> set protocol_default_kind_order \<and> default_entry payload k \<noteq> None
      then default_entry payload k else None) = stored_entries payload"
    by (auto simp: stored_entries_def fun_eq_iff)
  ultimately show ?thesis by (simp add: normalize_defaults_loop_eq)
qed

lemma stored_entries_empty: "stored_entries Map.empty = Map.empty"
  by (simp add: stored_entries_def default_entry_def fun_eq_iff)

lemma not_refused_empty: "\<not> list_ex (entry_refused Map.empty) kinds"
  by (simp add: list_ex_iff entry_refused_def default_entry_def)

text \<open>Entries that were accepted once are read back as they are.\<close>

lemma stored_entry_again:
  assumes "\<not> list_ex (entry_refused payload) protocol_default_kind_order"
  shows "default_entry (\<lambda>k. map_option Some (stored_entries payload k)) = stored_entries payload"
proof
  fix k
  show "default_entry (\<lambda>k. map_option Some (stored_entries payload k)) k = stored_entries payload k"
  proof (cases "stored_entries payload k")
    case None
    then show ?thesis by (simp add: default_entry_def)
  next
    case (Some p)
    then have "is_protocol_allowed_for_kind k p"
      using assms by (auto simp: stored_entries_def list_ex_iff entry_refused_def split: if_splits option.splits)
    then show ?thesis using Some allowed_fold allowed_not_Nil by (simp add: default_entry_def)
  qed
qed

text \<open>
  Saving the defaults of an upstream loses nothing. Whenever the administrator's JSON is
  accepted, each kind reads the same default protocol from the stored text as from the original
  text, and saving the stored text again changes nothing. The hypotheses are what encoding/json
  documents: the encoder's output decodes to what was encoded, has no outer blanks, an empty map is
  \<open>{}\<close>, and the empty text is no JSON.
\<close>

theorem stored_defaults_roundtrip:
  assumes saved: "normalize_protocol_defaults_json js raw = Inr s"
    and json: "\<forall>m. json_of_string_map js m = s \<longrightarrow> string_map_of_json js s = Some (\<lambda>k. map_option Some (m k))"
      "trim_space s = s" "json_of_string_map js Map.empty = ''{}''" "string_map_of_json js [] = None"
    and kind: "kind \<in> set protocol_default_kind_order"
  shows "protocol_default_for_kind js s kind = protocol_default_for_kind js raw kind \<and>
         normalize_protocol_defaults_json js s = Inr s"
proof -
  obtain payload where payload: "s = json_of_string_map js (stored_entries payload)"
      "\<not> list_ex (entry_refused payload) protocol_default_kind_order"
      "string_map_of_json js (trim_space raw) = Some payload \<or>
       trim_space raw = [] \<and> payload = Map.empty"
    using saved json(3) stored_entries_empty not_refused_empty
    by (force simp: normalize_protocol_defaults_json_def Let_def normalize_defaults_all
        split: if_splits option.splits)
  let ?again = "\<lambda>k. map_option Some (stored_entries payload k)"
  have dec: "string_map_of_json js s = Some ?again" using json(1) payload(1) by blast
  then have s: "s \<noteq> []" using json(4) by auto
  note again = stored_entry_again [OF payload(2)]
  have fresh: "stored_entries ?again = stored_entries payload"
    by (simp add: fun_eq_iff stored_entries_def [of ?again] again) (simp add: stored_entries_def)
  have "\<not> list_ex (entry_refused ?again) protocol_default_kind_order"
    using payload(2) unfolding list_ex_iff entry_refused_def again
    by (simp add: stored_entries_def)
  then have "normalize_protocol_defaults_json js s = Inr s"
    using s dec json(2) payload(1) fresh
    by (simp add: normalize_protocol_defaults_json_def normalize_defaults_all)
  moreover have "protocol_default_for_kind js raw kind =
      (case stored_entries payload kind of None \<Rightarrow> []
       | Some p \<Rightarrow> if is_protocol_allowed_for_kind kind p then p else [])"
    using payload(3) json(4) kind protocol_default_entry [of js raw payload kind]
    by (auto simp: stored_entries_def protocol_default_for_kind_def default_entry_def)
  moreover have "protocol_default_for_kind js s kind =
      (case stored_entries payload kind of None \<Rightarrow> []
       | Some p \<Rightarrow> if is_protocol_allowed_for_kind kind p then p else [])"
    using protocol_default_entry [of js s ?again kind] dec json(2) again by simp
  ultimately show ?thesis by simp
qed

theorem stored_defaults_roundtrip_witness:
  "let stored = [kind_chat \<mapsto> adapter_anthropic_messages];
       js = \<lparr>string_list_of_json = (\<lambda>s. None),
             string_map_of_json = (\<lambda>s. if s = ''raw'' then Some [kind_chat \<mapsto> Some '' Anthropic_messages'', ''other'' \<mapsto> None]
               else if s = ''{chat}'' then Some (\<lambda>k. map_option Some (stored k)) else None),
             json_of_string_map = (\<lambda>m. if m = Map.empty then ''{}'' else if m = stored then ''{chat}'' else ''{?}'')\<rparr>
   in normalize_protocol_defaults_json js ''raw'' = Inr ''{chat}'' \<and>
      protocol_default_for_kind js ''{chat}'' kind_chat = protocol_default_for_kind js ''raw'' kind_chat \<and>
      normalize_protocol_defaults_json js ''{chat}'' = Inr ''{chat}''"
proof -
  let ?stored = "[kind_chat \<mapsto> adapter_anthropic_messages]"
  let ?raw = "[kind_chat \<mapsto> Some '' Anthropic_messages'', ''other'' \<mapsto> None]"
  let ?js = "\<lparr>string_list_of_json = (\<lambda>s. None),
             string_map_of_json = (\<lambda>s. if s = ''raw'' then Some ?raw
               else if s = ''{chat}'' then Some (\<lambda>k. map_option Some (?stored k)) else None),
             json_of_string_map = (\<lambda>m. if m = Map.empty then ''{}'' else if m = ?stored then ''{chat}'' else ''{?}'')\<rparr>"
  have f: "fold_text '' Anthropic_messages'' = adapter_anthropic_messages"
    "trim_space ''raw'' = ''raw''" "trim_space ''{chat}'' = ''{chat}''" by code_simp+
  have e: "stored_entries ?raw = ?stored"
    using f(1) by (auto simp: stored_entries_def default_entry_def fun_eq_iff protocol_default_kind_order_def)
  have "is_protocol_allowed_for_kind kind_chat adapter_anthropic_messages" by code_simp
  then have "\<not> list_ex (entry_refused ?raw) protocol_default_kind_order"
    using f(1) by (auto simp: list_ex_iff entry_refused_def default_entry_def split: if_splits)
  then have n: "normalize_protocol_defaults_json ?js ''raw'' = Inr ''{chat}''"
    using f(2) by (simp add: normalize_protocol_defaults_json_def normalize_defaults_all e)
  have "kind_chat \<in> set protocol_default_kind_order" by (simp add: protocol_default_kind_order_def)
  then have "protocol_default_for_kind ?js ''{chat}'' kind_chat = protocol_default_for_kind ?js ''raw'' kind_chat \<and>
         normalize_protocol_defaults_json ?js ''{chat}'' = Inr ''{chat}''"
    using stored_defaults_roundtrip [OF n] f(3) by (simp split: if_splits)
  with n show ?thesis unfolding Let_def by blast
qed

end
