(* ===== verification/Model_Vendor.thy ===== *)
theory Model_Vendor
  imports Route_Protocol
begin

text \<open>
  The vendor of a model, guessed from its names, and the vendors whose reasoning text is passed back
  to them (application/channel/service_view_normalization.go). Each row of the table is one case of
  the source's switch: the prefixes, the infixes and the vendor; the first row that matches wins.
\<close>

definition contains :: "string \<Rightarrow> string \<Rightarrow> bool" where
  "contains value sub \<longleftrightarrow> list_ex (\<lambda>n. prefix sub (drop n value)) [0..<Suc (length value)]"

definition index_byte :: "string \<Rightarrow> char \<Rightarrow> int" where
  "index_byte value b = (if b \<in> set value then int (length (takeWhile (\<lambda>c. c \<noteq> b) value)) else -1)"

definition last_index_byte :: "string \<Rightarrow> char \<Rightarrow> int" where
  "last_index_byte value b =
     (if b \<in> set value then int (length value) - 1 - int (length (takeWhile (\<lambda>c. c \<noteq> b) (rev value)))
      else -1)"

definition model_identity_candidate_values :: "string \<Rightarrow> string list" where
  "model_identity_candidate_values raw =
     (let value = fold_text raw;
          after = (\<lambda>idx. if 0 \<le> idx \<and> idx + 1 < int (length value) then [drop (nat idx + 1) value] else [])
      in if value = [] then []
         else if CHR ''/'' \<in> set value then
           [value] @ after (index_byte value (CHR ''/'')) @ after (last_index_byte value (CHR ''/''))
         else [value])"

definition vendor_table :: "(string list \<times> string list \<times> string) list" where
  "vendor_table =
     [([''claude''], [''anthropic/''], ''anthropic''),
      ([''nano-banana'', ''gemini'', ''gemma'', ''imagen'', ''veo''], [''google/''], ''google''),
      ([''llama''], [''meta/''], ''meta''),
      ([''phi''], [''microsoft/''], ''microsoft''),
      ([''nova'', ''titan''], [''bedrock'', ''amazon/'', ''amazon.'', ''aws/'', ''aws.''], ''amazon''),
      ([''nemotron''], [''nvidia/''], ''nvidia''),
      ([''grok''], [''xai/''], ''xai''),
      ([''deepseek''], [], ''deepseek''),
      ([''kimi'', ''moonshot''], [''moonshot''], ''moonshot''),
      ([''qwen'', ''qwq'', ''qvq'', ''wanx''], [''tongyi'', ''alibaba/''], ''alibaba''),
      ([''mistral'', ''mixtral'', ''ministral'', ''codestral'', ''pixtral'', ''devstral''], [''mistral''], ''mistral''),
      ([''glm'', ''chatglm'', ''cogview'', ''cogvideo''], [''bigmodel'', ''zhipu''], ''zhipu''),
      ([''minimax'', ''abab'', ''hailuo''], [], ''minimax''),
      ([''doubao'', ''seed''], [''bytedance/'', ''volcengine/''], ''bytedance''),
      ([''hunyuan''], [''tencent/''], ''tencent''),
      ([''longcat''], [], ''longcat''),
      ([''mimo''], [''xiaomi/''], ''xiaomi''),
      ([''spark''], [''iflytek''], ''iflytek''),
      ([''step''], [''stepfun''], ''stepfun''),
      ([''baichuan''], [], ''baichuan''),
      ([''ernie'', ''wenxin''], [''baidu/''], ''baidu''),
      ([], [''copilot'', ''github/''], ''copilot''),
      ([''gpt-'', ''chatgpt'', ''gpt-image'', ''o1'', ''o3'', ''o4'', ''codex'', ''dall-e'', ''sora''], [''openai/''], ''openai'')]"

definition vendor_of_value :: "string \<Rightarrow> string option" where
  "vendor_of_value value =
     map_option (\<lambda>(prefixes, infixes, vendor). vendor)
       (List.find (\<lambda>(prefixes, infixes, vendor).
          list_ex (\<lambda>p. prefix p value) prefixes \<or> list_ex (contains value) infixes) vendor_table)"

fun detect_vendor_values :: "string list \<Rightarrow> string \<Rightarrow> string option \<times> string" where
  "detect_vendor_values [] fallback = (None, fallback)"
| "detect_vendor_values (value # values) fallback =
     (case vendor_of_value value of
        Some vendor \<Rightarrow> (Some vendor, fallback)
      | None \<Rightarrow>
          if prefix ''openrouter/'' value \<or> prefix ''openrouter-'' value
          then detect_vendor_values values ''openrouter''
          else detect_vendor_values values fallback)"

fun detect_vendor_loop :: "string list \<Rightarrow> string \<Rightarrow> string" where
  "detect_vendor_loop [] fallback = fallback"
| "detect_vendor_loop (candidate # candidates) fallback =
     (case detect_vendor_values (model_identity_candidate_values candidate) fallback of
        (Some vendor, _) \<Rightarrow> vendor
      | (None, fallback) \<Rightarrow> detect_vendor_loop candidates fallback)"

definition detect_model_vendor :: "string list \<Rightarrow> string" where
  "detect_model_vendor candidates = detect_vendor_loop candidates []"

definition reasoning_content_passback_vendors :: "string list" where
  "reasoning_content_passback_vendors =
     [''deepseek'', ''moonshot'', ''zhipu'', ''xiaomi'', ''alibaba'', ''minimax'']"

definition reasoning_passback_vendor_request_options :: "string \<rightharpoonup> (string \<times> bool) list" where
  "reasoning_passback_vendor_request_options =
     [''alibaba'' \<mapsto> [(''preserve_thinking'', True)]]"

definition reasoning_content_passback_required :: "string \<Rightarrow> string list \<Rightarrow> bool" where
  "reasoning_content_passback_required protocol candidates =
     (let a = normalize_adapter protocol
      in if a = adapter_openrouter_chat then True
         else if a = adapter_openai_chat_completions
           then List.member reasoning_content_passback_vendors (detect_model_vendor candidates)
         else False)"

text \<open>The options are a map in the source, nil when there are none.\<close>

definition reasoning_passback_request_options :: "string \<Rightarrow> string list \<Rightarrow> (string \<times> bool) list" where
  "reasoning_passback_request_options protocol candidates =
     (if normalize_adapter protocol \<noteq> adapter_openai_chat_completions then []
      else
        let vendor = detect_model_vendor candidates
        in if \<not> List.member reasoning_content_passback_vendors vendor then []
           else case reasoning_passback_vendor_request_options vendor of
                  None \<Rightarrow> [] | Some required \<Rightarrow> required)"

text \<open>The two tables agree: private request options are only sent where the passback is on.\<close>

lemma options_need_passback:
  "reasoning_passback_request_options protocol candidates \<noteq> [] \<Longrightarrow>
   reasoning_content_passback_required protocol candidates"
  by (auto simp: reasoning_passback_request_options_def reasoning_content_passback_required_def Let_def
      split: if_splits)

end
