(* ===== verification/Route_Data.thy ===== *)
theory Route_Data
  imports Model_Vendor Backoff Circuit
begin

text \<open>
  The data of the router (repository/channel.go, application/channel/service.go): the rows the
  database gives for a model, the resolved route, the breaker defaults with their short cache, the
  access checks, and the interface of the cache backend the router calls. What the database, JSON,
  the key encryption and URL validation answer are fields of \<open>route_source\<close>. The two catalogue
  annotations of a resolved route (CatalogReasoning, CatalogInputModalities) are not modelled: they
  are filled in after the choice and nothing here reads them.
\<close>

section \<open>Rows and routes\<close>

record route_row =
  row_route_id :: nat
  row_upstream_model_id :: nat
  row_upstream_id :: nat
  row_upstream_name :: string
  row_platform_model_id :: nat
  row_platform_model_name :: string
  row_model_vendor :: string
  row_model_icon :: string
  row_model_kinds_json :: string
  row_model_capabilities_json :: string
  row_model_system_prompt :: string
  row_protocol :: string
  row_base_url :: string
  row_api_keys_enc :: string
  row_connect_timeout_ms :: int
  row_read_timeout_ms :: int
  row_stream_idle_timeout_ms :: int
  row_headers_json :: string
  row_route_headers_json :: string
  row_binding_code :: string
  row_upstream_model_name :: string
  row_weight :: int
  row_route_priority :: int
  row_upstream_cb_failure_threshold :: int
  row_upstream_cb_model_threshold :: int
  row_upstream_cb_threshold_logic :: string
  row_upstream_cb_duration_min :: int
  row_upstream_cb_window_min :: int
  row_platform_model_cb_policy_mode :: string
  row_platform_model_cb_failure_threshold :: int
  row_platform_model_cb_duration_min :: int
  row_platform_model_cb_window_min :: int
  row_model_cb_failure_threshold :: int
  row_model_cb_duration_min :: int
  row_model_cb_window_min :: int

record resolved_route =
  rt_route_id :: nat
  rt_platform_model_id :: nat
  rt_platform_model_name :: string
  rt_upstream_model_id :: nat
  rt_upstream_id :: nat
  rt_upstream_name :: string
  rt_binding_code :: string
  rt_protocol :: string
  rt_base_url :: string
  rt_api_key :: string
  rt_connect_timeout_ms :: int
  rt_read_timeout_ms :: int
  rt_stream_idle_timeout_ms :: int
  rt_headers_json :: string
  rt_model_vendor :: string
  rt_model_icon :: string
  rt_model_capabilities_json :: string
  rt_model_system_prompt :: string
  rt_upstream_model :: string
  rt_reasoning_content_passback :: bool
  rt_reasoning_passback_request_options :: "(string \<times> bool) list"
  rt_upstream_cb_failure_threshold :: int
  rt_upstream_cb_model_threshold :: int
  rt_upstream_cb_threshold_logic :: string
  rt_upstream_cb_duration_min :: int
  rt_upstream_cb_window_min :: int
  rt_platform_model_cb_policy_mode :: string
  rt_platform_model_cb_failure_threshold :: int
  rt_platform_model_cb_duration_min :: int
  rt_platform_model_cb_window_min :: int
  rt_model_cb_failure_threshold :: int
  rt_model_cb_duration_min :: int
  rt_model_cb_window_min :: int
  rt_upstream_probe_granted :: bool
  rt_model_probe_granted :: bool
  rt_untrusted_endpoint :: bool

record api_key =
  key_secret :: string
  key_status :: string
  key_note :: string

record api_keys_config =
  keys_strategy :: string
  keys_entries :: "api_key list"

record route_candidate =
  cand_row :: route_row
  cand_api_key :: string

record resolve_route_input =
  in_platform_model_name :: string
  in_task_type :: string
  in_scope :: string
  in_user_id :: nat
  in_excluded_route_ids :: "nat list"

datatype route_error =
    ErrModelNotFound | ErrModelAccessDenied | ErrRouteNotFound | ErrAllRoutesUnavailable
  | RoutesRateLimited duration | RepositoryError string | CacheError string | IndexPanic

section \<open>Model names and access\<close>

definition is_model_ref :: "string \<Rightarrow> bool" where
  "is_model_ref name \<longleftrightarrow> prefix ''personal:'' (trim_space name)"

text \<open>Runes are given by their UTF-8 bytes; the control characters are U+0000..1F and U+007F..9F.\<close>

definition has_unsafe_model_name_rune :: "string \<Rightarrow> bool" where
  "has_unsafe_model_name_rune r \<longleftrightarrow>
     (case r of
        [b] \<Rightarrow> byte_in 0 31 b \<or> byte_in 127 127 b
      | [a, b] \<Rightarrow> a = CHR 0xC2 \<and> byte_in 128 159 b
      | _ \<Rightarrow> False) \<or>
     (List.member space_encodings r \<and> r \<noteq> [CHR 0x20])"

definition normalize_platform_model_name :: "string \<Rightarrow> string option" where
  "normalize_platform_model_name raw =
     (let value = trim_space raw
      in if value = [] then None
         else if list_ex has_unsafe_model_name_rune (runes value) then None
         else if is_model_ref value then None
         else Some value)"

definition normalize_model_access_scope_value :: "string \<Rightarrow> string" where
  "normalize_model_access_scope_value raw =
     (let value = fold_text raw in if value = [] then ''public'' else value)"

definition normalize_route_scope :: "string \<Rightarrow> string" where
  "normalize_route_scope raw = (if fold_text raw = ''internal'' then ''internal'' else ''user'')"

definition route_scope_allows_model_access :: "string \<Rightarrow> string \<Rightarrow> bool" where
  "route_scope_allows_model_access route_scope model_access_scope =
     (if normalize_route_scope route_scope = ''internal'' then True
      else normalize_model_access_scope_value model_access_scope = ''public'')"

text \<open>The two repositories of permission groups; the resolver of subscription groups may be nil.\<close>

record permission_groups =
  list_model_group_ids :: "nat \<Rightarrow> string + nat list"
  list_user_group_ids :: "nat \<Rightarrow> string + nat list"
  list_default_group_ids :: "string + nat list"
  user_subscription_group_id :: "(nat \<Rightarrow> string + nat option) option"

definition resolve_user_group_ids :: "permission_groups option \<Rightarrow> nat \<Rightarrow> string + nat list" where
  "resolve_user_group_ids perm user_id =
     (case perm of
        None \<Rightarrow> Inr []
      | Some p \<Rightarrow>
          if user_id = 0 then Inr []
          else case list_user_group_ids p user_id of
            Inl e \<Rightarrow> Inl e
          | Inr ids \<Rightarrow>
              (case list_default_group_ids p of
                 Inl e \<Rightarrow> Inl e
               | Inr default_ids \<Rightarrow>
                   (case user_subscription_group_id p of
                      None \<Rightarrow> Inr (ids @ default_ids)
                    | Some resolver \<Rightarrow>
                        (case resolver user_id of
                           Inl e \<Rightarrow> Inl e
                         | Inr None \<Rightarrow> Inr (ids @ default_ids)
                         | Inr (Some g) \<Rightarrow> Inr (ids @ default_ids @ [g])))))"

definition is_model_accessible :: "permission_groups option \<Rightarrow> nat \<Rightarrow> nat \<Rightarrow> string + bool" where
  "is_model_accessible perm platform_model_id user_id =
     (case perm of
        None \<Rightarrow> Inr True
      | Some p \<Rightarrow>
          if user_id = 0 then Inr True
          else case list_model_group_ids p platform_model_id of
            Inl e \<Rightarrow> Inl e
          | Inr model_groups \<Rightarrow>
              if length model_groups = 0 then Inr False
              else case resolve_user_group_ids perm user_id of
                Inl e \<Rightarrow> Inl e
              | Inr user_groups \<Rightarrow> Inr (list_ex (List.member user_groups) model_groups))"

section \<open>Breaker defaults\<close>

record breaker_defaults =
  bd_enabled :: bool
  bd_model_failure_threshold :: int
  bd_model_duration_min :: int
  bd_model_window_min :: int
  bd_upstream_failure_threshold :: int
  bd_upstream_model_threshold :: int
  bd_upstream_threshold_logic :: string
  bd_upstream_duration_min :: int
  bd_upstream_window_min :: int

definition zero_breaker_defaults :: breaker_defaults where
  "zero_breaker_defaults =
     \<lparr>bd_enabled = False, bd_model_failure_threshold = 0, bd_model_duration_min = 0,
      bd_model_window_min = 0, bd_upstream_failure_threshold = 0, bd_upstream_model_threshold = 0,
      bd_upstream_threshold_logic = [], bd_upstream_duration_min = 0, bd_upstream_window_min = 0\<rparr>"

definition default_breaker_defaults :: breaker_defaults where
  "default_breaker_defaults =
     \<lparr>bd_enabled = False, bd_model_failure_threshold = 5, bd_model_duration_min = 15,
      bd_model_window_min = 3, bd_upstream_failure_threshold = 20, bd_upstream_model_threshold = 3,
      bd_upstream_threshold_logic = ''or'', bd_upstream_duration_min = 30,
      bd_upstream_window_min = 5\<rparr>"

definition valid_breaker_defaults :: "breaker_defaults \<Rightarrow> bool" where
  "valid_breaker_defaults d \<longleftrightarrow>
     list_all (\<lambda>v. 0 \<le> v)
       [bd_model_failure_threshold d, bd_model_duration_min d, bd_model_window_min d,
        bd_upstream_failure_threshold d, bd_upstream_model_threshold d,
        bd_upstream_duration_min d, bd_upstream_window_min d] \<and>
     (let max_minutes = max_int64 div 60
      in list_all (\<lambda>v. v \<le> max_minutes)
           [bd_model_duration_min d, bd_model_window_min d, bd_upstream_duration_min d,
            bd_upstream_window_min d]) \<and>
     (let logic = trim_space (bd_upstream_threshold_logic d)
      in logic = [] \<or> logic = ''and'' \<or> logic = ''or'')"

definition breaker_defaults_cache_ttl :: duration where
  "breaker_defaults_cache_ttl = 5 * second"

definition breaker_defaults_error_retry_ttl :: duration where
  "breaker_defaults_error_retry_ttl = second"

text \<open>The mutable fields of the channel service that the router reads.\<close>

record channel_service =
  svc_breaker_defaults :: breaker_defaults
  svc_defaults_loaded :: bool
  svc_defaults_valid_until :: time
  svc_local_key_counters :: "nat \<rightharpoonup> nat"

definition new_channel_service :: channel_service where
  "new_channel_service =
     \<lparr>svc_breaker_defaults = zero_breaker_defaults, svc_defaults_loaded = False,
      svc_defaults_valid_until = zero_time, svc_local_key_counters = Map.empty\<rparr>"

text \<open>
  \<open>loadBreakerDefaults\<close>: a look under the read lock at the first clock reading, and, when that
  finds the entry expired, another look and the database's answer under the write lock. The service
  without a repository has no answer.
\<close>

definition reload_breaker_defaults ::
  "(string + breaker_defaults) \<Rightarrow> time \<Rightarrow> channel_service \<Rightarrow> breaker_defaults \<times> channel_service"
  where
  "reload_breaker_defaults answer now s =
     (if now < svc_defaults_valid_until s then (svc_breaker_defaults s, s)
      else case answer of
        Inl e \<Rightarrow>
          (if svc_defaults_loaded s then svc_breaker_defaults s else zero_breaker_defaults,
           s\<lparr>svc_defaults_valid_until := now + breaker_defaults_error_retry_ttl\<rparr>)
      | Inr cfg \<Rightarrow>
          (cfg, s\<lparr>svc_breaker_defaults := cfg, svc_defaults_loaded := True,
                  svc_defaults_valid_until := now + breaker_defaults_cache_ttl\<rparr>))"

definition load_breaker_defaults ::
  "(string + breaker_defaults) option \<Rightarrow> time \<Rightarrow> time \<Rightarrow> channel_service \<Rightarrow>
     breaker_defaults \<times> channel_service" where
  "load_breaker_defaults answer t1 t2 s =
     (case answer of
        None \<Rightarrow> (zero_breaker_defaults, s)
      | Some answer \<Rightarrow>
          if t1 < svc_defaults_valid_until s then (svc_breaker_defaults s, s)
          else reload_breaker_defaults answer t2 s)"

definition store_breaker_defaults :: "breaker_defaults \<Rightarrow> time \<Rightarrow> channel_service \<Rightarrow> channel_service" where
  "store_breaker_defaults cfg now s =
     s\<lparr>svc_breaker_defaults := cfg, svc_defaults_loaded := True,
       svc_defaults_valid_until := now + breaker_defaults_cache_ttl\<rparr>"

section \<open>The interfaces of the router\<close>

record platform_model =
  pm_id :: nat
  pm_access_scope :: string

record route_source =
  get_active_model_by_name :: "string \<Rightarrow> string + platform_model"
  list_active_routes_by_model :: "string \<Rightarrow> string + route_row list"
  perm_groups :: "permission_groups option"
  json :: json_codec
  valid_base_url :: "string \<Rightarrow> bool"
  parse_api_keys_config :: "string \<Rightarrow> api_keys_config option"
  merge_headers :: "string \<Rightarrow> string \<Rightarrow> string"
  has_cache :: bool

text \<open>
  The channel cache as the router calls it, on a backend state of any type; the random numbers of
  \<open>math/rand\<close> are drawn from the same state. Calls whose error is only logged return no error.
\<close>

record 'c route_backend =
  rb_check_upstream :: "nat \<Rightarrow> 'c \<Rightarrow> (string + circuit_status) \<times> 'c"
  rb_check_model :: "nat \<Rightarrow> string \<Rightarrow> 'c \<Rightarrow> (string + circuit_status) \<times> 'c"
  rb_record_circuit_failure :: "circuit_failure_input \<Rightarrow> 'c \<Rightarrow> 'c"
  rb_record_failure_metadata :: "nat \<Rightarrow> string \<Rightarrow> 'c \<Rightarrow> 'c"
  rb_record_success_metadata :: "nat \<Rightarrow> 'c \<Rightarrow> 'c"
  rb_clear_upstream :: "nat \<Rightarrow> 'c \<Rightarrow> 'c"
  rb_clear_model :: "nat \<Rightarrow> string \<Rightarrow> 'c \<Rightarrow> 'c"
  rb_release_probes :: "nat \<Rightarrow> string \<Rightarrow> 'c \<Rightarrow> 'c"
  rb_get_backoff :: "nat \<Rightarrow> nat \<Rightarrow> 'c \<Rightarrow> (string + duration) \<times> 'c"
  rb_record_backoff :: "backoff_params \<Rightarrow> 'c \<Rightarrow> 'c"
  rb_clear_backoff :: "nat \<Rightarrow> nat \<Rightarrow> 'c \<Rightarrow> 'c"
  rb_incr_key :: "nat \<Rightarrow> 'c \<Rightarrow> (int \<times> bool) \<times> 'c"
  rb_intn :: "nat \<Rightarrow> 'c \<Rightarrow> nat \<times> 'c"

definition build_resolved_route :: "route_source \<Rightarrow> route_row \<Rightarrow> string \<Rightarrow> resolved_route" where
  "build_resolved_route src row api_key =
    \<lparr>rt_route_id = row_route_id row,
      rt_platform_model_id = row_platform_model_id row,
      rt_platform_model_name = trim_space (row_platform_model_name row),
      rt_upstream_model_id = row_upstream_model_id row,
      rt_upstream_id = row_upstream_id row,
      rt_upstream_name = trim_space (row_upstream_name row),
      rt_binding_code = trim_space (row_binding_code row),
      rt_protocol = row_protocol row,
      rt_base_url = trim_space (row_base_url row),
      rt_api_key = api_key,
      rt_connect_timeout_ms = row_connect_timeout_ms row,
      rt_read_timeout_ms = row_read_timeout_ms row,
      rt_stream_idle_timeout_ms = row_stream_idle_timeout_ms row,
      rt_headers_json = merge_headers src (row_headers_json row) (row_route_headers_json row),
      rt_model_vendor = trim_space (row_model_vendor row),
      rt_model_icon = trim_space (row_model_icon row),
      rt_model_capabilities_json = trim_space (row_model_capabilities_json row),
      rt_model_system_prompt = trim_space (row_model_system_prompt row),
      rt_upstream_model = trim_space (row_upstream_model_name row),
      rt_reasoning_content_passback = reasoning_content_passback_required (row_protocol row)
         [row_model_vendor row, row_platform_model_name row, row_upstream_model_name row, row_upstream_name row],
      rt_reasoning_passback_request_options = reasoning_passback_request_options (row_protocol row)
         [row_model_vendor row, row_platform_model_name row, row_upstream_model_name row, row_upstream_name row],
      rt_upstream_cb_failure_threshold = row_upstream_cb_failure_threshold row,
      rt_upstream_cb_model_threshold = row_upstream_cb_model_threshold row,
      rt_upstream_cb_threshold_logic = row_upstream_cb_threshold_logic row,
      rt_upstream_cb_duration_min = row_upstream_cb_duration_min row,
      rt_upstream_cb_window_min = row_upstream_cb_window_min row,
      rt_platform_model_cb_policy_mode = row_platform_model_cb_policy_mode row,
      rt_platform_model_cb_failure_threshold = row_platform_model_cb_failure_threshold row,
      rt_platform_model_cb_duration_min = row_platform_model_cb_duration_min row,
      rt_platform_model_cb_window_min = row_platform_model_cb_window_min row,
      rt_model_cb_failure_threshold = row_model_cb_failure_threshold row,
      rt_model_cb_duration_min = row_model_cb_duration_min row,
      rt_model_cb_window_min = row_model_cb_window_min row,
      rt_upstream_probe_granted = False,
      rt_model_probe_granted = False,
      rt_untrusted_endpoint = False\<rparr>"

end
