(* ===== verification/Routing.thy ===== *)
theory Routing
  imports Route_Data
begin

text \<open>
  The router (application/channel/service_routing.go): the choice of a route for a request, by
  priority group, weighted at random inside a group, past the rate-limit backoff, the upstream
  breaker and the model breaker. The state threaded through is the channel service and the state of
  the cache backend.
\<close>

section \<open>Keys of breakers\<close>

definition binding_circuit_key :: "string \<Rightarrow> string" where
  "binding_circuit_key binding_code =
     (let code = trim_space binding_code
      in if code = [] then [] else ''upstream-model-'' @ replace_colons code)"

definition binding_circuit_keys :: "string list \<Rightarrow> string list" where
  "binding_circuit_keys codes = filter (\<lambda>key. key \<noteq> []) (map binding_circuit_key codes)"

definition route_model_circuit_key :: "resolved_route \<Rightarrow> string" where
  "route_model_circuit_key route = binding_circuit_key (rt_binding_code route)"

section \<open>Choosing an API key\<close>

datatype key_error = ErrNoActiveKey | KeyIndexPanic

definition element_at :: "'a list \<Rightarrow> nat \<Rightarrow> 'a option" where
  "element_at xs i = (if i < length xs then Some (xs ! i) else None)"

definition active_keys :: "api_key list \<Rightarrow> api_key list" where
  "active_keys entries =
     filter (\<lambda>e. (key_status e = [] \<or> key_status e = ''active'') \<and> trim_space (key_secret e) \<noteq> []) entries"

definition next_local_api_key_index :: "nat \<Rightarrow> channel_service \<Rightarrow> nat \<times> channel_service" where
  "next_local_api_key_index uid s =
     (let n = (case svc_local_key_counters s uid of None \<Rightarrow> 0 | Some n \<Rightarrow> n)
      in (n, s\<lparr>svc_local_key_counters := (svc_local_key_counters s)(uid \<mapsto> (n + 1) mod 2 ^ 64)\<rparr>))"

definition next_api_key_index ::
  "bool \<Rightarrow> 'c route_backend \<Rightarrow> nat \<Rightarrow> channel_service \<times> 'c \<Rightarrow> nat \<times> channel_service \<times> 'c" where
  "next_api_key_index cached rb uid st =
     (case st of (s, c) \<Rightarrow>
        if uid = 0 then (let (n, c) = rb_intn rb 1024 c in (n, s, c))
        else
          let (answer, c) = (if cached then rb_incr_key rb uid c else ((0, False), c))
          in if snd answer then (nat (fst answer mod 2 ^ 64), s, c)
             else (let (n, s) = next_local_api_key_index uid s in (n, s, c)))"

definition pick_active_key ::
  "bool \<Rightarrow> 'c route_backend \<Rightarrow> nat \<Rightarrow> api_key list \<Rightarrow> string \<Rightarrow> channel_service \<times> 'c \<Rightarrow>
     (key_error + string) \<times> channel_service \<times> 'c" where
  "pick_active_key cached rb uid entries strategy st =
     (let active = active_keys entries;
          at = (\<lambda>i. case element_at active i of
                  None \<Rightarrow> Inl KeyIndexPanic | Some e \<Rightarrow> Inr (key_secret e))
      in if length active = 0 then (Inl ErrNoActiveKey, st)
         else if trim_space strategy = ''failover'' then (at 0, st)
         else if trim_space strategy = ''round_robin''
           then (let (idx, st) = next_api_key_index cached rb uid st in (at (idx mod length active), st))
         else (case st of (s, c) \<Rightarrow> let (i, c) = rb_intn rb (length active) c in (at i, s, c)))"

definition select_api_key ::
  "bool \<Rightarrow> 'c route_backend \<Rightarrow> nat \<Rightarrow> api_keys_config \<Rightarrow> channel_service \<times> 'c \<Rightarrow>
     (key_error + string) \<times> channel_service \<times> 'c" where
  "select_api_key cached rb uid cfg st =
     (if length (keys_entries cfg) = 0 then (Inl ErrNoActiveKey, st)
      else pick_active_key cached rb uid (keys_entries cfg) (keys_strategy cfg) st)"

section \<open>Choosing a candidate\<close>

definition candidate_weight :: "route_candidate \<Rightarrow> int" where
  "candidate_weight cand = (let w = row_weight (cand_row cand) in if w \<le> 0 then 100 else w)"

fun total_weight_loop :: "route_candidate list \<Rightarrow> int \<Rightarrow> int" where
  "total_weight_loop [] total_weight = total_weight"
| "total_weight_loop (cand # cands) total_weight =
     total_weight_loop cands (wrap64 (total_weight + candidate_weight cand))"

text \<open>The position at which the running sum first exceeds the draw, past the end when it never does.\<close>

fun weighted_position :: "int \<Rightarrow> int \<Rightarrow> route_candidate list \<Rightarrow> nat" where
  "weighted_position r cumulative [] = 0"
| "weighted_position r cumulative (cand # cands) =
     (let cumulative = wrap64 (cumulative + candidate_weight cand)
      in if r < cumulative then 0 else Suc (weighted_position r cumulative cands))"

definition weighted_random_candidate ::
  "'c route_backend \<Rightarrow> route_candidate list \<Rightarrow> 'c \<Rightarrow> nat \<times> 'c" where
  "weighted_random_candidate rb cands c =
     (let total_weight = total_weight_loop cands 0
      in if total_weight \<le> 0 then rb_intn rb (length cands) c
         else
           let (r, c) = rb_intn rb (nat total_weight) c;
               i = weighted_position (int r) 0 cands
           in (if i < length cands then i else length cands - 1, c))"

definition remove_candidate :: "route_candidate list \<Rightarrow> nat \<Rightarrow> nat \<Rightarrow> route_candidate list" where
  "remove_candidate items uid umid =
     filter (\<lambda>item. \<not> (row_upstream_id (cand_row item) = uid \<and>
                       row_upstream_model_id (cand_row item) = umid)) items"

lemma remove_candidate_shorter:
  assumes "sel \<in> set cands"
  shows "length (remove_candidate cands (row_upstream_id (cand_row sel))
    (row_upstream_model_id (cand_row sel))) < length cands"
  unfolding remove_candidate_def using assms by (intro length_filter_less [of sel]) auto

definition release_upstream_probe :: "'c route_backend \<Rightarrow> nat \<Rightarrow> 'c \<Rightarrow> 'c" where
  "release_upstream_probe rb uid c = rb_release_probes rb uid [] c"

text \<open>The two breaker checks of one candidate, and what they decide.\<close>

datatype verdict = Refused | Broken route_error | Ready circuit_status circuit_status

definition blocks :: "circuit_status \<Rightarrow> bool" where
  "blocks st \<longleftrightarrow> st = Open \<or> st = HalfOpenDenied"

definition check_candidate :: "'c route_backend \<Rightarrow> route_row \<Rightarrow> 'c \<Rightarrow> verdict \<times> 'c" where
  "check_candidate rb row c =
     (case rb_check_upstream rb (row_upstream_id row) c of
        (Inl e, c) \<Rightarrow> (Broken (CacheError e), c)
      | (Inr upstream_state, c) \<Rightarrow>
          if blocks upstream_state then (Refused, c)
          else
            let release = (\<lambda>c. if upstream_state = HalfOpenGranted
                               then release_upstream_probe rb (row_upstream_id row) c else c)
            in case rb_check_model rb (row_upstream_id row) (binding_circuit_key (row_binding_code row)) c of
                 (Inl e, c) \<Rightarrow> (Broken (CacheError e), release c)
               | (Inr model_state, c) \<Rightarrow>
                   if blocks model_state then (Refused, release c)
                   else (Ready upstream_state model_state, c))"

datatype attempt =
    Exhausted | Failed route_error | Chosen route_candidate circuit_status circuit_status

function try_candidates :: "bool \<Rightarrow> 'c route_backend \<Rightarrow> route_candidate list \<Rightarrow> 'c \<Rightarrow> attempt \<times> 'c" where
  "try_candidates enabled rb cands c =
     (if cands = [] then (Exhausted, c)
      else
        case weighted_random_candidate rb cands c of (i, c) \<Rightarrow>
          (case element_at cands i of
             None \<Rightarrow> (Failed IndexPanic, c)
           | Some sel \<Rightarrow>
               if \<not> enabled then (Chosen sel Closed Closed, c)
               else
                 case check_candidate rb (cand_row sel) c of
                   (Refused, c) \<Rightarrow>
                     try_candidates enabled rb
                       (remove_candidate cands (row_upstream_id (cand_row sel))
                          (row_upstream_model_id (cand_row sel))) c
                 | (Broken e, c) \<Rightarrow> (Failed e, c)
                 | (Ready us ms, c) \<Rightarrow> (Chosen sel us ms, c)))"
  by pat_completeness auto

termination
  by (relation "measure (\<lambda>(enabled, rb, cands, c). length cands)")
    (auto simp: element_at_def split: if_splits intro!: remove_candidate_shorter)

declare try_candidates.simps [simp del]

section \<open>The candidates of a priority group\<close>

definition route_rate_limit_backoff ::
  "bool \<Rightarrow> 'c route_backend \<Rightarrow> nat \<Rightarrow> nat \<Rightarrow> 'c \<Rightarrow> duration \<times> 'c" where
  "route_rate_limit_backoff cached rb uid rid c =
     (if \<not> cached \<or> uid = 0 \<or> rid = 0 then (0, c)
      else case rb_get_backoff rb uid rid c of
        (Inl e, c) \<Rightarrow> (0, c)
      | (Inr remaining, c) \<Rightarrow> (remaining, c))"

datatype admission = Skip | Wait duration | Admit string | AdmitPanic

definition well_formed_row :: "route_source \<Rightarrow> route_row \<Rightarrow> bool" where
  "well_formed_row src row \<longleftrightarrow>
     row_upstream_model_id row \<noteq> 0 \<and> trim_space (row_binding_code row) \<noteq> [] \<and>
     trim_space (row_upstream_model_name row) \<noteq> [] \<and> is_implemented_adapter (row_protocol row) \<and>
     valid_base_url src (row_base_url row)"

definition admit_row ::
  "route_source \<Rightarrow> 'c route_backend \<Rightarrow> route_row \<Rightarrow> channel_service \<times> 'c \<Rightarrow>
     admission \<times> channel_service \<times> 'c" where
  "admit_row src rb row st =
     (if \<not> well_formed_row src row then (Skip, st)
      else case st of (s, c) \<Rightarrow>
        (case route_rate_limit_backoff (has_cache src) rb (row_upstream_id row) (row_route_id row) c of
           (remaining, c) \<Rightarrow>
             if 0 < remaining then (Wait remaining, s, c)
             else case parse_api_keys_config src (row_api_keys_enc row) of
               None \<Rightarrow> (Skip, s, c)
             | Some cfg \<Rightarrow>
                 (case select_api_key (has_cache src) rb (row_upstream_id row) cfg (s, c) of
                    (Inl ErrNoActiveKey, st) \<Rightarrow> (Skip, st)
                  | (Inl KeyIndexPanic, st) \<Rightarrow> (AdmitPanic, st)
                  | (Inr key, st) \<Rightarrow> (Admit key, st))))"

definition shorter_backoff :: "duration \<Rightarrow> duration \<Rightarrow> duration" where
  "shorter_backoff shortest remaining =
     (if shortest = 0 \<or> remaining < shortest then remaining else shortest)"

fun gather_group ::
  "route_source \<Rightarrow> 'c route_backend \<Rightarrow> route_row list \<Rightarrow> route_candidate list \<Rightarrow> duration \<Rightarrow>
     channel_service \<times> 'c \<Rightarrow> (route_error + route_candidate list \<times> duration) \<times> channel_service \<times> 'c"
  where
  "gather_group src rb [] cands shortest st = (Inr (cands, shortest), st)"
| "gather_group src rb (row # rows) cands shortest st =
     (case admit_row src rb row st of
        (Skip, st) \<Rightarrow> gather_group src rb rows cands shortest st
      | (Wait remaining, st) \<Rightarrow>
          gather_group src rb rows cands (shorter_backoff shortest remaining) st
      | (Admit key, st) \<Rightarrow>
          gather_group src rb rows (cands @ [\<lparr>cand_row = row, cand_api_key = key\<rparr>]) shortest st
      | (AdmitPanic, st) \<Rightarrow> (Inl IndexPanic, st))"

section \<open>Resolving a route\<close>

text \<open>One turn of the outer loop takes the leading rows of equal priority.\<close>

function resolve_groups ::
  "route_source \<Rightarrow> 'c route_backend \<Rightarrow> bool \<Rightarrow> route_row list \<Rightarrow> duration \<Rightarrow> channel_service \<times> 'c \<Rightarrow>
     (route_error + resolved_route) \<times> channel_service \<times> 'c" where
  "resolve_groups src rb enabled [] shortest st =
     (if 0 < shortest then Inl (RoutesRateLimited shortest) else Inl ErrAllRoutesUnavailable, st)"
| "resolve_groups src rb enabled (row # rows) shortest st =
     (let same = (\<lambda>r. row_route_priority r = row_route_priority row);
          rest = dropWhile same rows
      in case gather_group src rb (row # takeWhile same rows) [] shortest st of
           (Inl e, st) \<Rightarrow> (Inl e, st)
         | (Inr (cands, shortest), st) \<Rightarrow>
             if length cands = 0 then resolve_groups src rb enabled rest shortest st
             else case st of (s, c) \<Rightarrow>
               (case try_candidates enabled rb cands c of
                  (Exhausted, c) \<Rightarrow> resolve_groups src rb enabled rest shortest (s, c)
                | (Failed e, c) \<Rightarrow> (Inl e, s, c)
                | (Chosen sel us ms, c) \<Rightarrow>
                    (Inr ((build_resolved_route src (cand_row sel) (cand_api_key sel))
                        \<lparr>rt_upstream_probe_granted := (us = HalfOpenGranted),
                         rt_model_probe_granted := (ms = HalfOpenGranted)\<rparr>), s, c)))"
  by pat_completeness auto

termination
  by (relation "measure (\<lambda>(src, rb, enabled, rows, shortest, st). length rows)")
    (auto intro: le_imp_less_Suc length_dropWhile_le)

declare resolve_groups.simps [simp del]

definition make_route_id_set :: "nat list \<Rightarrow> nat set" where
  "make_route_id_set ids = set (filter (\<lambda>i. i \<noteq> 0) ids)"

definition available_rows :: "route_source \<Rightarrow> resolve_route_input \<Rightarrow> route_row list \<Rightarrow> route_row list" where
  "available_rows src inp rows =
     filter (\<lambda>row. row_route_id row \<notin> make_route_id_set (in_excluded_route_ids inp) \<and>
       is_route_allowed_for_task (json src) (in_task_type inp) (row_model_kinds_json row) (row_protocol row))
       rows"

text \<open>The access checks that come before any route is looked at.\<close>

definition authorize_model :: "route_source \<Rightarrow> resolve_route_input \<Rightarrow> route_error + string" where
  "authorize_model src inp =
     (case normalize_platform_model_name (in_platform_model_name inp) of
        None \<Rightarrow> Inl ErrModelNotFound
      | Some name \<Rightarrow>
          (case get_active_model_by_name src name of
             Inl e \<Rightarrow> Inl (RepositoryError e)
           | Inr model \<Rightarrow>
               if \<not> route_scope_allows_model_access (in_scope inp) (pm_access_scope model)
               then Inl ErrModelAccessDenied
               else if normalize_route_scope (in_scope inp) = ''user'' \<and> 0 < in_user_id inp then
                 (case is_model_accessible (perm_groups src) (pm_id model) (in_user_id inp) of
                    Inl e \<Rightarrow> Inl (RepositoryError e)
                  | Inr accessible \<Rightarrow> if accessible then Inr name else Inl ErrModelAccessDenied)
               else Inr name))"

definition resolve_route ::
  "route_source \<Rightarrow> 'c route_backend \<Rightarrow> (string + breaker_defaults) option \<Rightarrow> time \<Rightarrow> time \<Rightarrow>
     resolve_route_input \<Rightarrow> channel_service \<times> 'c \<Rightarrow>
     (route_error + resolved_route) \<times> channel_service \<times> 'c" where
  "resolve_route src rb answer t1 t2 inp st =
     (case st of (s, c) \<Rightarrow>
       (let (enabled, s) =
              (if has_cache src
               then (let (d, s) = load_breaker_defaults answer t1 t2 s in (bd_enabled d, s))
               else (False, s))
        in case authorize_model src inp of
             Inl e \<Rightarrow> (Inl e, s, c)
           | Inr name \<Rightarrow>
               (case list_active_routes_by_model src name of
                  Inl e \<Rightarrow> (Inl (RepositoryError e), s, c)
                | Inr rows \<Rightarrow>
                    if length rows = 0 then (Inl ErrRouteNotFound, s, c)
                    else
                      let available = available_rows src inp rows
                      in if length available = 0 then (Inl ErrAllRoutesUnavailable, s, c)
                         else resolve_groups src rb enabled available 0 (s, c))))"

end
