(* ===== verification/Route_Choice.thy ===== *)
theory Route_Choice
  imports Routing
begin

text \<open>
  The contract the router relies on, as a locale over the cache backend, with the behaviour of the
  router proved inside it; the in-memory cache at one instant is its interpretation.
\<close>

section \<open>The contract of the cache backend\<close>

text \<open>
  An observer says of each breaker whether it is open, whether a probe of it is out, or neither.
  A check answers accordingly and takes the probe when it grants one; a release gives it back; the
  other calls of a resolution leave the breakers and the backoffs as they are.
\<close>

definition block_of :: "circuit_status \<Rightarrow> circuit_status" where
  "block_of st = (if blocks st then st else Closed)"

definition taken :: "circuit_status \<Rightarrow> circuit_status \<Rightarrow> circuit_status" where
  "taken st old = (if st = HalfOpenGranted then HalfOpenDenied else old)"

definition given_back :: "circuit_status \<Rightarrow> circuit_status" where
  "given_back st = (if st = HalfOpenDenied then Closed else st)"

lemma block_of_blocks [simp]: "blocks (block_of st) = blocks st"
  by (simp add: block_of_def blocks_def)

lemma given_back_taken: "block_of st = old \<Longrightarrow> \<not> blocks st \<Longrightarrow> given_back (taken st old) = old"
  by (auto simp: given_back_def taken_def block_of_def blocks_def)

text \<open>The binding code of a row is a column of its upstream model.\<close>

definition one_binding :: "route_row list \<Rightarrow> bool" where
  "one_binding rows \<longleftrightarrow>
     (\<forall>r \<in> set rows. \<forall>r' \<in> set rows.
        row_upstream_id r = row_upstream_id r' \<and> row_upstream_model_id r = row_upstream_model_id r' \<longrightarrow>
        row_binding_code r = row_binding_code r')"

lemma one_binding_mono: "one_binding rows \<Longrightarrow> set rows' \<subseteq> set rows \<Longrightarrow> one_binding rows'"
  unfolding one_binding_def by blast

text \<open>The secrets a row may be called with.\<close>

definition row_keys :: "route_source \<Rightarrow> route_row \<Rightarrow> string list" where
  "row_keys src row =
     (case parse_api_keys_config src (row_api_keys_enc row) of
        None \<Rightarrow> [] | Some cfg \<Rightarrow> map key_secret (active_keys (keys_entries cfg)))"

locale route_cache =
  fixes rb :: "'c route_backend"
    and up :: "'c \<Rightarrow> nat \<Rightarrow> circuit_status"
    and md :: "'c \<Rightarrow> nat \<Rightarrow> string \<Rightarrow> circuit_status"
    and wait :: "'c \<Rightarrow> nat \<Rightarrow> nat \<Rightarrow> duration"
  assumes check_upstream: "rb_check_upstream rb u c = (r, c') \<Longrightarrow>
      \<exists>st. r = Inr st \<and> block_of st = up c u \<and> up c' = (up c)(u := taken st (up c u)) \<and>
           md c' = md c \<and> wait c' = wait c"
    and check_model: "rb_check_model rb u k c = (r, c') \<Longrightarrow>
      \<exists>st. r = Inr st \<and> block_of st = md c u k \<and> up c' = up c \<and> wait c' = wait c \<and>
           (\<not> blocks st \<or> md c' = md c)"
    and release_upstream: "up (rb_release_probes rb u [] c) = (up c)(u := given_back (up c u))"
      "md (rb_release_probes rb u [] c) = md c" "wait (rb_release_probes rb u [] c) = wait c"
    and get_backoff: "rb_get_backoff rb u i c = (x, c') \<Longrightarrow>
      x = Inr (wait c u i) \<and> up c' = up c \<and> md c' = md c \<and> wait c' = wait c"
    and incr_key: "rb_incr_key rb u c = (x2, c') \<Longrightarrow> up c' = up c \<and> md c' = md c \<and> wait c' = wait c"
    and intn: "rb_intn rb n c = (i, c') \<Longrightarrow>
      (0 < n \<longrightarrow> i < n) \<and> up c' = up c \<and> md c' = md c \<and> wait c' = wait c"
begin

definition same :: "'c \<Rightarrow> 'c \<Rightarrow> bool" where
  "same c c' \<longleftrightarrow> up c' = up c \<and> md c' = md c \<and> wait c' = wait c"

lemma same_refl [simp]: "same c c"
  by (simp add: same_def)

lemma same_trans: "same c c' \<Longrightarrow> same c' c'' \<Longrightarrow> same c c''"
  by (simp add: same_def)

text \<open>A row is ready when neither of its breakers blocks it.\<close>

definition row_ready :: "'c \<Rightarrow> route_row \<Rightarrow> bool" where
  "row_ready c row \<longleftrightarrow> \<not> blocks (up c (row_upstream_id row)) \<and>
     \<not> blocks (md c (row_upstream_id row) (binding_circuit_key (row_binding_code row)))"

lemma row_ready_same: "same c c' \<Longrightarrow> row_ready c' row = row_ready c row"
  by (simp add: same_def row_ready_def)

lemma check_candidate_spec:
  assumes "check_candidate rb row c = (v, c')"
  shows "(v = Refused \<and> \<not> row_ready c row \<and> same c c') \<or>
         (\<exists>us ms. v = Ready us ms \<and> row_ready c row)"
proof -
  let ?u = "row_upstream_id row" and ?k = "binding_circuit_key (row_binding_code row)"
  obtain r c1 where cu: "rb_check_upstream rb ?u c = (r, c1)" by fastforce
  from check_upstream [OF cu] obtain us where us: "r = Inr us" "block_of us = up c ?u"
    "up c1 = (up c)(?u := taken us (up c ?u))" "md c1 = md c" "wait c1 = wait c" by blast
  show ?thesis
  proof (cases "blocks us")
    case True
    then have "v = Refused" "c' = c1" "\<not> row_ready c row"
      using assms cu us(1,2) block_of_blocks [of us] by (simp_all add: check_candidate_def row_ready_def)
    moreover have "same c c1" using us(3-5) True by (auto simp: same_def taken_def blocks_def)
    ultimately show ?thesis by blast
  next
    case free: False
    obtain r2 c2 where cm: "rb_check_model rb ?u ?k c1 = (r2, c2)" by fastforce
    from check_model [OF cm] us(4) obtain ms where ms: "r2 = Inr ms" "block_of ms = md c ?u ?k"
      "up c2 = up c1" "wait c2 = wait c1" "\<not> blocks ms \<or> md c2 = md c1" by auto
    show ?thesis
    proof (cases "blocks ms")
      case True
      let ?c = "if us = HalfOpenGranted then release_upstream_probe rb ?u c2 else c2"
      have "v = Refused" "c' = ?c" using assms cu us(1) free cm ms(1) True
        by (simp_all add: check_candidate_def Let_def)
      moreover have "same c ?c"
        using ms True us(3-5) given_back_taken [OF us(2) free]
        by (auto simp: same_def release_upstream_probe_def release_upstream taken_def fun_eq_iff)
      moreover have "\<not> row_ready c row" using ms(2) True block_of_blocks [of ms] by (simp add: row_ready_def)
      ultimately show ?thesis by blast
    next
      case False
      then have "v = Ready us ms" using assms cu us(1) free cm ms(1) by (simp add: check_candidate_def Let_def)
      moreover have "row_ready c row"
        using us(2) ms(2) free False block_of_blocks [of us] block_of_blocks [of ms] by (simp add: row_ready_def)
      ultimately show ?thesis by blast
    qed
  qed
qed

lemma weighted_candidate_spec:
  assumes "weighted_random_candidate rb cands c = (i, c')" "cands \<noteq> []"
  shows "i < length cands \<and> same c c'"
proof (cases "total_weight_loop cands 0 \<le> 0")
  case True
  then have "rb_intn rb (length cands) c = (i, c')"
    using assms(1) by (simp add: weighted_random_candidate_def)
  from intn [OF this] assms(2) show ?thesis by (simp add: same_def)
next
  case False
  then obtain r where r: "rb_intn rb (nat (total_weight_loop cands 0)) c = (r, c')"
    and i: "i = (if weighted_position (int r) 0 cands < length cands
                 then weighted_position (int r) 0 cands else length cands - 1)"
    using assms(1) by (auto simp: weighted_random_candidate_def Let_def split: prod.splits)
  show ?thesis using intn [OF r] i assms(2) by (simp add: same_def)
qed

text \<open>The loop over the candidates of a group.\<close>

lemma try_candidates_spec:
  assumes "try_candidates enabled rb cands c = (att, c')" "one_binding (map cand_row cands)"
  shows "(att = Exhausted \<and> same c c' \<and> (cands = [] \<or> enabled \<and> (\<forall>x \<in> set cands. \<not> row_ready c (cand_row x)))) \<or>
         (\<exists>sel us ms. att = Chosen sel us ms \<and> sel \<in> set cands \<and> (enabled \<longrightarrow> row_ready c (cand_row sel)))"
  using assms
proof (induction cands arbitrary: c rule: length_induct)
  case (1 cands)
  show ?case
  proof (cases "cands = []")
    case True
    with 1(2) show ?thesis by (simp add: try_candidates.simps)
  next
    case False
    obtain i c1 where w: "weighted_random_candidate rb cands c = (i, c1)" by fastforce
    from weighted_candidate_spec [OF w False] have i: "i < length cands" "same c c1" by auto
    let ?sel = "cands ! i"
    have sel: "?sel \<in> set cands" using i by simp
    let ?rest = "remove_candidate cands (row_upstream_id (cand_row ?sel)) (row_upstream_model_id (cand_row ?sel))"
    show ?thesis
    proof (cases enabled)
      case off: False
      then have "att = Chosen ?sel Closed Closed"
        using 1(2) [unfolded try_candidates.simps [of enabled rb cands]] False w i(1)
        by (simp add: element_at_def)
      then show ?thesis using sel off by blast
    next
      case on: True
      obtain v c2 where v: "check_candidate rb (cand_row ?sel) c1 = (v, c2)" by fastforce
      note step = 1(2) [unfolded try_candidates.simps [of enabled rb cands]]
      from check_candidate_spec [OF v] show ?thesis
      proof (elim disjE)
        assume r: "v = Refused \<and> \<not> row_ready c1 (cand_row ?sel) \<and> same c1 c2"
        then have rec: "try_candidates enabled rb ?rest c2 = (att, c')"
          using step False w i(1) on v by (simp add: element_at_def)
        have c2: "same c c2" using r i(2) same_trans by blast
        have "one_binding (map cand_row ?rest)"
          using 1(3) by (rule one_binding_mono) (auto simp: remove_candidate_def)
        from 1(1) [rule_format, OF remove_candidate_shorter [OF sel] rec this] show ?thesis
        proof (elim disjE)
          assume e: "att = Exhausted \<and> same c2 c' \<and>
            (?rest = [] \<or> enabled \<and> (\<forall>x \<in> set ?rest. \<not> row_ready c2 (cand_row x)))"
          have "\<not> row_ready c (cand_row x)" if x: "x \<in> set cands" for x
          proof (cases "x \<in> set ?rest")
            case True
            then have "\<not> row_ready c2 (cand_row x)" using e by auto
            then show ?thesis using row_ready_same [OF c2] by simp
          next
            case False
            then have u: "row_upstream_id (cand_row x) = row_upstream_id (cand_row ?sel)"
              "row_upstream_model_id (cand_row x) = row_upstream_model_id (cand_row ?sel)"
              using x by (auto simp: remove_candidate_def)
            moreover have "cand_row x \<in> set (map cand_row cands)" "cand_row ?sel \<in> set (map cand_row cands)"
              using x sel by simp_all
            ultimately have "row_binding_code (cand_row x) = row_binding_code (cand_row ?sel)"
              using 1(3) unfolding one_binding_def by blast
            then have "row_ready c1 (cand_row x) = row_ready c1 (cand_row ?sel)"
              using u by (simp add: row_ready_def)
            then show ?thesis using r row_ready_same [OF i(2)] by simp
          qed
          then show ?thesis using e c2 on same_trans by blast
        next
          assume "\<exists>sel us ms. att = Chosen sel us ms \<and> sel \<in> set ?rest \<and>
            (enabled \<longrightarrow> row_ready c2 (cand_row sel))"
          then show ?thesis using row_ready_same [OF c2] by (auto simp: remove_candidate_def)
        qed
      next
        assume "\<exists>us ms. v = Ready us ms \<and> row_ready c1 (cand_row ?sel)"
        then obtain us ms where ready: "v = Ready us ms" "row_ready c1 (cand_row ?sel)" by blast
        have "att = Chosen ?sel us ms"
          using step False w i(1) on v ready(1) by (simp add: element_at_def)
        moreover have "row_ready c (cand_row ?sel)" using ready(2) row_ready_same [OF i(2)] by simp
        ultimately show ?thesis using sel by blast
      qed
    qed
  qed
qed

text \<open>Keys and admission of a row.\<close>

lemma next_key_same:
  assumes "next_api_key_index cached rb uid (s, c) = (n, s', c')"
  shows "same c c'"
  using assms
  by (auto simp: next_api_key_index_def Let_def same_def split: prod.splits if_splits dest: intn incr_key)

lemma pick_active_key_spec:
  assumes "pick_active_key cached rb uid entries strategy (s, c) = (r, s', c')"
  shows "same c c' \<and>
    (if active_keys entries = [] then r = Inl ErrNoActiveKey
     else \<exists>e \<in> set (active_keys entries). r = Inr (key_secret e))"
proof (cases "active_keys entries = []")
  case True
  then show ?thesis using assms by (simp add: pick_active_key_def)
next
  case False
  let ?ks = "active_keys entries"
  have at: "\<exists>e \<in> set ?ks. (case element_at ?ks i of None \<Rightarrow> Inl KeyIndexPanic | Some e \<Rightarrow> Inr (key_secret e)) = Inr (key_secret e)"
    if "i < length ?ks" for i using that by (auto simp: element_at_def)
  consider (failover) "trim_space strategy = ''failover''"
    | (robin) "trim_space strategy \<noteq> ''failover''" "trim_space strategy = ''round_robin''"
    | (random) "trim_space strategy \<noteq> ''failover''" "trim_space strategy \<noteq> ''round_robin''" by blast
  then show ?thesis
  proof cases
    case failover
    then show ?thesis using assms False at [of 0] by (auto simp: pick_active_key_def Let_def)
  next
    case robin
    obtain n s1 c1 where n: "next_api_key_index cached rb uid (s, c) = (n, s1, c1)" by (metis prod_cases3)
    have "n mod length ?ks < length ?ks" using False by simp
    from at [OF this] show ?thesis
      using assms False robin n next_key_same [OF n] by (auto simp: pick_active_key_def Let_def)
  next
    case random
    obtain i c1 where i: "rb_intn rb (length ?ks) c = (i, c1)" by fastforce
    have "i < length ?ks" using intn [OF i] False by simp
    from at [OF this] show ?thesis
      using assms False random i intn [OF i] by (auto simp: pick_active_key_def Let_def same_def)
  qed
qed

definition waiting :: "route_source \<Rightarrow> 'c \<Rightarrow> route_row \<Rightarrow> bool" where
  "waiting src c row \<longleftrightarrow>
     has_cache src \<and> row_upstream_id row \<noteq> 0 \<and> row_route_id row \<noteq> 0 \<and>
     0 < wait c (row_upstream_id row) (row_route_id row)"

definition admissible :: "route_source \<Rightarrow> 'c \<Rightarrow> route_row \<Rightarrow> bool" where
  "admissible src c row \<longleftrightarrow>
     well_formed_row src row \<and> \<not> waiting src c row \<and> row_keys src row \<noteq> []"

definition waits :: "route_source \<Rightarrow> 'c \<Rightarrow> route_row list \<Rightarrow> duration list" where
  "waits src c rows =
     map (\<lambda>row. wait c (row_upstream_id row) (row_route_id row))
       (filter (\<lambda>row. well_formed_row src row \<and> waiting src c row) rows)"

lemma admissible_same: "same c c' \<Longrightarrow> admissible src c' = admissible src c"
  by (simp add: fun_eq_iff same_def admissible_def waiting_def)

lemma waits_same: "same c c' \<Longrightarrow> waits src c' rows = waits src c rows"
  by (simp add: same_def waits_def waiting_def)

lemma admit_row_spec:
  assumes "admit_row src rb row (s, c) = (a, s', c')"
  shows "same c c' \<and>
    (if well_formed_row src row \<and> waiting src c row then a = Wait (wait c (row_upstream_id row) (row_route_id row))
     else if admissible src c row then \<exists>key \<in> set (row_keys src row). a = Admit key
     else a = Skip)"
proof (cases "well_formed_row src row")
  case False
  then show ?thesis using assms by (simp add: admit_row_def admissible_def)
next
  case wf: True
  let ?u = "row_upstream_id row" and ?i = "row_route_id row"
  obtain d c1 where b: "route_rate_limit_backoff (has_cache src) rb ?u ?i c = (d, c1)" by fastforce
  have d: "same c c1" "0 < d \<longleftrightarrow> waiting src c row" "0 < d \<longrightarrow> d = wait c ?u ?i"
    using b by (auto simp: route_rate_limit_backoff_def same_def waiting_def split: if_splits prod.splits sum.splits
        dest!: get_backoff)
  show ?thesis
  proof (cases "0 < d")
    case True
    then show ?thesis using assms wf b d by (simp add: admit_row_def)
  next
    case free: False
    show ?thesis
    proof (cases "parse_api_keys_config src (row_api_keys_enc row)")
      case None
      then show ?thesis using assms wf b d free by (simp add: admit_row_def admissible_def row_keys_def)
    next
      case (Some cfg)
      obtain r s2 c2 where r: "select_api_key (has_cache src) rb ?u cfg (s, c1) = (r, s2, c2)"
        by (metis prod_cases3)
      have keys: "row_keys src row = map key_secret (active_keys (keys_entries cfg))"
        using Some by (simp add: row_keys_def)
      have picked: "same c1 c2" "if row_keys src row = [] then r = Inl ErrNoActiveKey
          else \<exists>key \<in> set (row_keys src row). r = Inr key"
        using r pick_active_key_spec [of "has_cache src" ?u "keys_entries cfg" "keys_strategy cfg" s c1 r s2 c2]
        by (auto simp: select_api_key_def keys active_keys_def split: if_splits)
      have "admit_row src rb row (s, c) = (case (r, s2, c2) of (Inl ErrNoActiveKey, st) \<Rightarrow> (Skip, st)
          | (Inl KeyIndexPanic, st) \<Rightarrow> (AdmitPanic, st) | (Inr key, st) \<Rightarrow> (Admit key, st))"
        using wf b free Some r by (simp add: admit_row_def)
      then have result: "c' = c2" "r = Inl ErrNoActiveKey \<Longrightarrow> a = Skip" "r = Inr key \<Longrightarrow> a = Admit key" for key
        using assms by (auto split: sum.splits key_error.splits)
      have "same c c'" using same_trans [OF d(1) picked(1)] by (simp add: result(1))
      moreover have "\<not> waiting src c row" using d(2) free by simp
      ultimately show ?thesis using picked(2) result(2,3) wf by (cases "row_keys src row = []") (auto simp: admissible_def)
    qed
  qed
qed

lemma gather_group_spec:
  assumes "gather_group src rb rows cands shortest (s, c) = (r, s', c')"
  shows "same c c' \<and> (\<exists>cands'. r = Inr (cands @ cands', foldl shorter_backoff shortest (waits src c rows)) \<and>
    map cand_row cands' = filter (admissible src c) rows \<and>
    (\<forall>x \<in> set cands'. cand_api_key x \<in> set (row_keys src (cand_row x))))"
  using assms
proof (induction rows arbitrary: cands shortest s c)
  case Nil
  then show ?case by (simp add: waits_def)
next
  case (Cons row rows)
  obtain a s1 c1 where a: "admit_row src rb row (s, c) = (a, s1, c1)" by (metis prod_cases3)
  from admit_row_spec [OF a] have c1: "same c c1" by blast
  note here = admissible_same [OF c1] waits_same [OF c1]
  have adm: "\<not> (waiting src c row \<and> admissible src c row)" by (simp add: admissible_def)
  consider (wait) "well_formed_row src row" "waiting src c row" "a = Wait (wait c (row_upstream_id row) (row_route_id row))"
    | (admit) key where "admissible src c row" "\<not> waiting src c row" "key \<in> set (row_keys src row)" "a = Admit key"
    | (skip) "\<not> admissible src c row" "\<not> (well_formed_row src row \<and> waiting src c row)" "a = Skip"
    using admit_row_spec [OF a] adm by (cases "admissible src c row") (auto split: if_splits)
  then show ?case
  proof cases
    case wait
    then have "gather_group src rb rows cands (shorter_backoff shortest (wait c (row_upstream_id row) (row_route_id row))) (s1, c1) = (r, s', c')"
      using Cons.prems a by simp
    from Cons.IH [OF this] show ?thesis
      using wait adm c1 here same_trans by (auto simp: waits_def)
  next
    case admit
    let ?x = "\<lparr>cand_row = row, cand_api_key = key\<rparr>"
    have "gather_group src rb rows (cands @ [?x]) shortest (s1, c1) = (r, s', c')"
      using Cons.prems a admit by simp
    from Cons.IH [OF this] obtain cands' where "same c1 c'"
      "r = Inr ((cands @ [?x]) @ cands', foldl shorter_backoff shortest (waits src c1 rows))"
      "map cand_row cands' = filter (admissible src c1) rows"
      "\<forall>x \<in> set cands'. cand_api_key x \<in> set (row_keys src (cand_row x))" by blast
    then show ?thesis
      using admit c1 here same_trans by (intro conjI exI [of _ "?x # cands'"]) (auto simp: waits_def)
  next
    case skip
    then have "gather_group src rb rows cands shortest (s1, c1) = (r, s', c')"
      using Cons.prems a by simp
    from Cons.IH [OF this] show ?thesis
      using skip c1 here same_trans by (auto simp: waits_def)
  qed
qed

end

text \<open>A route built from a row: one of its keys, and the two probe marks.\<close>

definition built_from :: "route_source \<Rightarrow> route_row \<Rightarrow> resolved_route \<Rightarrow> bool" where
  "built_from src row rt \<longleftrightarrow>
     (\<exists>key us ms. key \<in> set (row_keys src row) \<and>
        rt = (build_resolved_route src row key)
               \<lparr>rt_upstream_probe_granted := us, rt_model_probe_granted := ms\<rparr>)"

context route_cache
begin

definition usable :: "route_source \<Rightarrow> bool \<Rightarrow> 'c \<Rightarrow> route_row \<Rightarrow> bool" where
  "usable src enabled c row \<longleftrightarrow> admissible src c row \<and> (enabled \<longrightarrow> row_ready c row)"

lemma usable_same: "same c c' \<Longrightarrow> usable src enabled c' = usable src enabled c"
  by (simp add: fun_eq_iff usable_def admissible_same row_ready_same)

text \<open>A route built from a usable row of the first group of equal priority that has one.\<close>

definition first_usable :: "route_source \<Rightarrow> bool \<Rightarrow> 'c \<Rightarrow> route_row list \<Rightarrow> route_row \<Rightarrow> bool" where
  "first_usable src enabled c rows row \<longleftrightarrow>
     (\<exists>before grp after. rows = before @ grp @ after \<and> row \<in> set grp \<and>
        (\<forall>r \<in> set grp. row_route_priority r = row_route_priority row) \<and>
        (\<forall>r \<in> set before. \<not> usable src enabled c r) \<and> usable src enabled c row)"

definition chosen_from :: "route_source \<Rightarrow> bool \<Rightarrow> 'c \<Rightarrow> route_row list \<Rightarrow> resolved_route \<Rightarrow> bool" where
  "chosen_from src enabled c rows rt \<longleftrightarrow>
     (\<exists>row. first_usable src enabled c rows row \<and> built_from src row rt)"

lemma first_usable_later:
  assumes "first_usable src enabled c rest row" "\<forall>r \<in> set front. \<not> usable src enabled c r"
  shows "first_usable src enabled c (front @ rest) row"
proof -
  obtain before grp after where b: "rest = before @ grp @ after" "row \<in> set grp"
    "\<forall>r \<in> set grp. row_route_priority r = row_route_priority row"
    "\<forall>r \<in> set before. \<not> usable src enabled c r" "usable src enabled c row"
    using assms(1) unfolding first_usable_def by blast
  have "front @ rest = (front @ before) @ grp @ after" using b(1) by simp
  moreover have "\<forall>r \<in> set (front @ before). \<not> usable src enabled c r" using b(4) assms(2) by auto
  ultimately show ?thesis unfolding first_usable_def using b(2,3,5) by blast
qed

lemma chosen_from_later:
  assumes "chosen_from src enabled c rest rt" "\<forall>r \<in> set front. \<not> usable src enabled c r"
  shows "chosen_from src enabled c (front @ rest) rt"
  using assms first_usable_later unfolding chosen_from_def by blast

lemma chosen_from_same: "same c c' \<Longrightarrow> chosen_from src enabled c' = chosen_from src enabled c"
  by (simp add: fun_eq_iff chosen_from_def first_usable_def usable_same)

definition none_left :: "duration \<Rightarrow> route_error" where
  "none_left shortest = (if 0 < shortest then RoutesRateLimited shortest else ErrAllRoutesUnavailable)"

lemma waits_append: "waits src c (xs @ ys) = waits src c xs @ waits src c ys"
  by (simp add: waits_def)

lemma resolve_groups_spec:
  assumes "resolve_groups src rb enabled rows shortest (s, c) = (r, s', c')" "one_binding rows"
  shows "(\<exists>rt. r = Inr rt \<and> chosen_from src enabled c rows rt) \<or>
         ((\<forall>row \<in> set rows. \<not> usable src enabled c row) \<and>
          r = Inl (none_left (foldl shorter_backoff shortest (waits src c rows))))"
  using assms
proof (induction rows arbitrary: shortest s c rule: length_induct)
  case (1 rows)
  show ?case
  proof (cases rows)
    case Nil
    with 1(2) show ?thesis by (auto simp: resolve_groups.simps waits_def none_left_def split: if_splits)
  next
    case (Cons row rows')
    let ?same = "\<lambda>r. row_route_priority r = row_route_priority row"
    let ?grp = "row # takeWhile ?same rows'" and ?rest = "dropWhile ?same rows'"
    have split: "rows = ?grp @ ?rest" using Cons by simp
    have prio: "\<forall>r \<in> set ?grp. ?same r" by (auto dest: set_takeWhileD)
    have shorter: "length ?rest < length rows" using Cons by (simp add: length_dropWhile_le less_Suc_eq_le)
    have ob: "one_binding ?rest" "one_binding ?grp"
      using 1(3) by (rule one_binding_mono; use split in \<open>metis Un_upper1 Un_upper2 set_append\<close>)+
    obtain g s1 c1 where g: "gather_group src rb ?grp [] shortest (s, c) = (g, s1, c1)" by (metis prod_cases3)
    let ?short = "foldl shorter_backoff shortest (waits src c ?grp)"
    from gather_group_spec [OF g] obtain cands where c1: "same c c1" and g1: "g = Inr (cands, ?short)"
      and adm: "map cand_row cands = filter (admissible src c) ?grp"
      and keys: "\<forall>x \<in> set cands. cand_api_key x \<in> set (row_keys src (cand_row x))" by auto
    note step = 1(2) [unfolded Cons resolve_groups.simps Let_def g g1]
    have later: "(\<exists>rt. r = Inr rt \<and> chosen_from src enabled c rows rt) \<or>
         ((\<forall>row \<in> set rows. \<not> usable src enabled c row) \<and>
          r = Inl (none_left (foldl shorter_backoff shortest (waits src c rows))))"
      if none: "\<forall>r \<in> set ?grp. \<not> usable src enabled c r" and c2: "same c c2"
        and rec: "resolve_groups src rb enabled ?rest ?short (s1, c2) = (r, s', c')" for c2
    proof -
      from 1(1) [rule_format, OF shorter rec ob(1)]
      consider rt where "r = Inr rt" "chosen_from src enabled c ?rest rt"
        | "\<forall>row \<in> set ?rest. \<not> usable src enabled c row" "r = Inl (none_left (foldl shorter_backoff ?short (waits src c ?rest)))"
        unfolding chosen_from_same [OF c2] usable_same [OF c2] waits_same [OF c2] by blast
      then show ?thesis
      proof cases
        case 1
        then show ?thesis using chosen_from_later [OF 1(2) none] split by metis
      next
        case 2
        have "waits src c rows = waits src c ?grp @ waits src c ?rest"
          using split waits_append by metis
        moreover have "\<forall>row \<in> set rows. \<not> usable src enabled c row"
          using none 2(1) split by (metis Un_iff set_append)
        ultimately show ?thesis using 2(2) by simp
      qed
    qed
    show ?thesis
    proof (cases "cands = []")
      case True
      then have "\<forall>r \<in> set ?grp. \<not> usable src enabled c r"
        using adm by (metis filter_empty_conv list.map_disc_iff usable_def)
      then show ?thesis using later [OF _ c1] step True by simp
    next
      case False
      obtain att c2 where att: "try_candidates enabled rb cands c1 = (att, c2)" by fastforce
      have "one_binding (map cand_row cands)"
        unfolding adm using ob(2) by (rule one_binding_mono) auto
      from try_candidates_spec [OF att this] False
      consider "att = Exhausted" "same c1 c2" "enabled" "\<forall>x \<in> set cands. \<not> row_ready c1 (cand_row x)"
        | sel us ms where "att = Chosen sel us ms" "sel \<in> set cands" "enabled \<longrightarrow> row_ready c1 (cand_row sel)"
        by blast
      then show ?thesis
      proof cases
        case 1
        have "\<not> usable src enabled c r" if r: "r \<in> set ?grp" for r
        proof
          assume u: "usable src enabled c r"
          then have "r \<in> set (map cand_row cands)"
            unfolding adm usable_def using r by (simp only: set_filter mem_Collect_eq)
          then show False using 1(3,4) u row_ready_same [OF c1] unfolding usable_def by auto
        qed
        moreover have "resolve_groups src rb enabled ?rest ?short (s1, c2) = (r, s', c')"
          using step att 1(1) False by simp
        ultimately show ?thesis using later same_trans [OF c1 1(2)] by blast
      next
        case 2
        have "cand_row sel \<in> set (filter (admissible src c) ?grp)"
          unfolding adm [symmetric] using 2(2) by simp
        then have row: "cand_row sel \<in> set ?grp" "admissible src c (cand_row sel)"
          by (simp_all only: set_filter mem_Collect_eq)
        then have u: "usable src enabled c (cand_row sel)"
          using 2(3) row_ready_same [OF c1] by (simp add: usable_def)
        let ?rt = "(build_resolved_route src (cand_row sel) (cand_api_key sel))
          \<lparr>rt_upstream_probe_granted := (us = HalfOpenGranted), rt_model_probe_granted := (ms = HalfOpenGranted)\<rparr>"
        have "r = Inr ?rt" using step att 2(1) False by simp
        moreover have "chosen_from src enabled c rows ?rt"
          unfolding chosen_from_def
        proof (intro exI conjI)
          show "first_usable src enabled c rows (cand_row sel)"
            unfolding first_usable_def
          proof (intro exI conjI)
            show "rows = [] @ ?grp @ ?rest" using split by simp
            show "\<forall>r \<in> set ?grp. row_route_priority r = row_route_priority (cand_row sel)"
              using prio row(1) by (metis (mono_tags, lifting))
          qed (use row(1) u in simp_all)
          show "built_from src (cand_row sel) ?rt"
            unfolding built_from_def using keys 2(2) by blast
        qed
        ultimately show ?thesis by blast
      qed
    qed
  qed
qed

end

section \<open>The in-memory cache behind the router\<close>

text \<open>
  The channel cache of the process at one instant, together with the draws of \<open>math/rand\<close> to come;
  a draw is reduced to the range that is asked for. The in-memory calls never fail.
\<close>

definition memory_backend :: "time \<Rightarrow> (cache \<times> nat list) route_backend" where
  "memory_backend now =
    \<lparr>rb_check_upstream = (\<lambda>uid (c, ds). let (st, c) = check_upstream_circuit_state c uid now in (Inr st, c, ds)),
     rb_check_model = (\<lambda>uid key (c, ds). let (st, c) = check_model_circuit_state c uid key now in (Inr st, c, ds)),
     rb_record_circuit_failure = (\<lambda>i (c, ds). (record_circuit_failure c i now, ds)),
     rb_record_failure_metadata = (\<lambda>uid e (c, ds). (record_failure_metadata c uid e now, ds)),
     rb_record_success_metadata = (\<lambda>uid (c, ds). (record_success_metadata c uid now, ds)),
     rb_clear_upstream = (\<lambda>uid (c, ds). (clear_upstream_circuit_keys c uid, ds)),
     rb_clear_model = (\<lambda>uid key (c, ds). (clear_model_circuit_keys c uid key, ds)),
     rb_release_probes = (\<lambda>uid key (c, ds). (release_route_probes c uid key, ds)),
     rb_get_backoff = (\<lambda>uid rid (c, ds). (Inr (get_rate_limit_backoff c uid rid now), c, ds)),
     rb_record_backoff = (\<lambda>p (c, ds). (record_rate_limit_backoff c p now, ds)),
     rb_clear_backoff = (\<lambda>uid rid (c, ds). (clear_rate_limit_backoff c uid rid, ds)),
     rb_incr_key = (\<lambda>uid (c, ds). let (n, ok, c) = incr_api_key_counter c uid now in ((n, ok), c, ds)),
     rb_intn = (\<lambda>n (c, ds). case ds of [] \<Rightarrow> (0, c, []) | d # ds \<Rightarrow> (d mod n, c, ds))\<rparr>"

definition slot_block :: "time \<Rightarrow> cache \<Rightarrow> slot \<Rightarrow> circuit_status" where
  "slot_block now c sl = block_of (fst (check_circuit_state (slot_state c sl) now))"

definition memory_up :: "time \<Rightarrow> cache \<times> nat list \<Rightarrow> nat \<Rightarrow> circuit_status" where
  "memory_up now st uid = slot_block now (fst st) (UpstreamSlot uid)"

definition memory_md :: "time \<Rightarrow> cache \<times> nat list \<Rightarrow> nat \<Rightarrow> string \<Rightarrow> circuit_status" where
  "memory_md now st uid key = slot_block now (fst st) (ModelSlot (model_circuit_key uid key))"

definition memory_wait :: "time \<Rightarrow> cache \<times> nat list \<Rightarrow> nat \<Rightarrow> nat \<Rightarrow> duration" where
  "memory_wait now st uid rid = get_rate_limit_backoff (fst st) uid rid now"

lemma check_again:
  assumes "0 \<le> now"
  shows "block_of (fst (check_circuit_state (snd (check_circuit_state x now)) now)) =
    taken (fst (check_circuit_state x now)) (block_of (fst (check_circuit_state x now)))"
  using assms circuit_probe_ttl_pos
  by (auto simp: check_defs block_of_def blocks_def taken_def split: option.splits)

lemma check_released:
  assumes "0 \<le> now"
  shows "block_of (fst (check_circuit_state (release_probe x) now)) =
    given_back (block_of (fst (check_circuit_state x now)))"
  using assms
  by (auto simp: check_defs release_probe_def block_of_def blocks_def given_back_def split: option.splits)

lemma check_dead:
  assumes "circuit_dead s now" "0 \<le> now"
  shows "block_of (fst (check_circuit_state (Some s) now)) = Closed"
proof -
  have "open_until s = 0 \<or> \<not> now < open_until s" "\<not> now < probe_until s"
    using assms circuit_probe_ttl_pos
    by (fastforce simp: circuit_dead_def circuit_state_expired_def is_zero_def zero_time_def split: if_splits)+
  then show ?thesis using assms(2) by (auto simp: check_phase breaker_phase_def block_of_def blocks_def)
qed

lemma slot_block_sweep: "0 \<le> now \<Longrightarrow> slot_block now (maybe_sweep c now) sl = slot_block now c sl"
  using maybe_sweep_cases [of c now]
  by (cases "slot_state c sl")
    (auto simp: slot_block_def slot_state_sweep slot_state_ops check_dead block_of_def [of Closed])

lemma slot_state_write:
  "slot_state (c\<lparr>upstream_cb := (upstream_cb c)(u := x)\<rparr>) sl = (if sl = UpstreamSlot u then x else slot_state c sl)"
  "slot_state (c\<lparr>model_cb := (model_cb c)(k := x)\<rparr>) sl = (if sl = ModelSlot k then x else slot_state c sl)"
  by (cases sl; simp)+

lemma backoff_write [simp]:
  "get_rate_limit_backoff (c\<lparr>upstream_cb := f\<rparr>) uid rid now = get_rate_limit_backoff c uid rid now"
  "get_rate_limit_backoff (c\<lparr>model_cb := g\<rparr>) uid rid now = get_rate_limit_backoff c uid rid now"
  "get_rate_limit_backoff (c\<lparr>key_counters := h\<rparr>) uid rid now = get_rate_limit_backoff c uid rid now"
  by (simp_all add: get_rate_limit_backoff_def)

lemma slot_state_counters: "slot_state (c\<lparr>key_counters := x\<rparr>) sl = slot_state c sl"
  by (cases sl) simp_all

lemma backoff_sweep:
  assumes "0 \<le> now"
  shows "get_rate_limit_backoff (maybe_sweep c now) uid rid now = get_rate_limit_backoff c uid rid now"
proof -
  have "remaining_backoff (drop_dead rate_limit_dead now x) now = remaining_backoff x now" for x
    using assms by (cases x) (auto simp: drop_dead_def rate_limit_dead_def remaining_backoff_def rate_limit_of_def
      zero_rate_limit_def zero_time_def Let_def time_sub_nonpos)
  then show ?thesis
    using backoffs.get_maybe_sweep [of c now "(uid, rid)"] by (auto simp: get_rate_limit_backoff_def)
qed

lemmas memory_observers = memory_up_def memory_md_def memory_wait_def slot_block_def fun_eq_iff

interpretation memory: route_cache "memory_backend (int n)" "memory_up (int n)" "memory_md (int n)"
  "memory_wait (int n)" for n
proof unfold_locales
  let ?m = "memory_backend (int n)"
  fix c c' :: "cache \<times> nat list" and u i k and r :: "string + circuit_status"
  obtain d ds where c: "c = (d, ds)" by (cases c)
  {
    assume r: "rb_check_upstream ?m u c = (r, c')"
    let ?x = "check_circuit_state (slot_state d (UpstreamSlot u)) (int n)"
    have "r = Inr (fst ?x)" "c' = (d\<lparr>upstream_cb := (upstream_cb d)(u := snd ?x)\<rparr>, ds)"
      using r by (auto simp: memory_backend_def c check_upstream_circuit_state_def Let_def split: prod.splits)
    then show "\<exists>st. r = Inr st \<and> block_of st = memory_up (int n) c u \<and>
        memory_up (int n) c' = (memory_up (int n) c)(u := taken st (memory_up (int n) c u)) \<and>
        memory_md (int n) c' = memory_md (int n) c \<and> memory_wait (int n) c' = memory_wait (int n) c"
      by (intro exI [of _ "fst ?x"]) (simp add: memory_observers c slot_state_write check_again)
  }
  {
    assume r: "rb_check_model ?m u k c = (r, c')"
    let ?x = "check_circuit_state (slot_state d (ModelSlot (model_circuit_key u k))) (int n)"
    have "r = Inr (fst ?x)" "c' = (d\<lparr>model_cb := (model_cb d)(model_circuit_key u k := snd ?x)\<rparr>, ds)"
      using r by (auto simp: memory_backend_def c check_model_circuit_state_def Let_def split: prod.splits)
    then show "\<exists>st. r = Inr st \<and> block_of st = memory_md (int n) c u k \<and>
        memory_up (int n) c' = memory_up (int n) c \<and> memory_wait (int n) c' = memory_wait (int n) c \<and>
        (\<not> blocks st \<or> memory_md (int n) c' = memory_md (int n) c)"
      by (intro exI [of _ "fst ?x"]) (auto simp: memory_observers c slot_state_write check_again taken_def blocks_def)
  }
  have rel: "rb_release_probes ?m u [] c = (d\<lparr>upstream_cb := (upstream_cb d)(u := release_probe (upstream_cb d u))\<rparr>, ds)"
    by (simp add: memory_backend_def c release_route_probes_def)
  show "memory_up (int n) (rb_release_probes ?m u [] c) = (memory_up (int n) c)(u := given_back (memory_up (int n) c u))"
    "memory_md (int n) (rb_release_probes ?m u [] c) = memory_md (int n) c"
    "memory_wait (int n) (rb_release_probes ?m u [] c) = memory_wait (int n) c"
    unfolding rel by (auto simp: memory_observers c slot_state_write check_released)
  {
    fix x :: "string + duration"
    assume "rb_get_backoff ?m u i c = (x, c')"
    then show "x = Inr (memory_wait (int n) c u i) \<and> memory_up (int n) c' = memory_up (int n) c \<and>
        memory_md (int n) c' = memory_md (int n) c \<and> memory_wait (int n) c' = memory_wait (int n) c"
      by (auto simp: memory_backend_def c memory_wait_def)
  }
  {
    fix x2
    assume "rb_incr_key ?m u c = (x2, c')"
    then have "\<exists>h. c' = (maybe_sweep (d\<lparr>key_counters := h\<rparr>) (int n), ds)"
      by (auto simp: memory_backend_def c incr_api_key_counter_def Let_def)
    then show "memory_up (int n) c' = memory_up (int n) c \<and> memory_md (int n) c' = memory_md (int n) c \<and>
        memory_wait (int n) c' = memory_wait (int n) c"
      using slot_block_sweep by (auto simp: memory_up_def memory_md_def memory_wait_def fun_eq_iff c backoff_sweep)
        (simp_all add: slot_block_def slot_state_counters)
  }
  {
    fix m j
    assume "rb_intn ?m m c = (j, c')"
    then show "(0 < m \<longrightarrow> j < m) \<and> memory_up (int n) c' = memory_up (int n) c \<and>
        memory_md (int n) c' = memory_md (int n) c \<and> memory_wait (int n) c' = memory_wait (int n) c"
      by (auto simp: memory_backend_def c memory_up_def memory_md_def memory_wait_def fun_eq_iff split: list.splits)
  }
qed

end
