(* ===== verification/Route_Outcome.thy ===== *)
theory Route_Outcome
  imports Routing
begin

text \<open>
  What the router does with the outcome of a request (the second half of service_routing.go): the
  classification of a failure, the failover decision, and the bookkeeping on the cache backend. A
  Go error is a value with the errors it wraps.
\<close>

section \<open>Errors\<close>

text \<open>
  The errors the classification tells apart. A network error says itself whether it counts as a
  cancellation or as a deadline (the \<open>Is\<close> methods of package net); \<open>UpstreamError\<close> carries the
  status and, when there is a debug snapshot, the response headers in the order the map is ranged
  over; \<open>WrappedError\<close> is any other error with its causes.
\<close>

datatype go_error =
    ContextCanceled
  | ContextDeadlineExceeded
  | IoEOF
  | IoUnexpectedEOF
  | NetError bool bool "go_error list"
  | UpstreamError int "(string \<times> string) list option" "go_error list"
  | AcceptedRequestError "go_error list"
  | WrappedError string "go_error list"

text \<open>The error and everything it wraps, in the order \<open>errors.Is\<close> and \<open>errors.As\<close> visit them.\<close>

fun error_tree :: "go_error \<Rightarrow> go_error list" where
  "error_tree (NetError c d es) = NetError c d es # concat (map error_tree es)"
| "error_tree (UpstreamError s h es) = UpstreamError s h es # concat (map error_tree es)"
| "error_tree (AcceptedRequestError es) = AcceptedRequestError es # concat (map error_tree es)"
| "error_tree (WrappedError m es) = WrappedError m es # concat (map error_tree es)"
| "error_tree e = [e]"

fun is_canceled_node :: "go_error \<Rightarrow> bool" where
  "is_canceled_node ContextCanceled \<longleftrightarrow> True"
| "is_canceled_node (NetError c d es) \<longleftrightarrow> c"
| "is_canceled_node e \<longleftrightarrow> False"

fun is_deadline_node :: "go_error \<Rightarrow> bool" where
  "is_deadline_node ContextDeadlineExceeded \<longleftrightarrow> True"
| "is_deadline_node (NetError c d es) \<longleftrightarrow> d"
| "is_deadline_node e \<longleftrightarrow> False"

fun is_net_node :: "go_error \<Rightarrow> bool" where
  "is_net_node (NetError c d es) \<longleftrightarrow> True"
| "is_net_node ContextDeadlineExceeded \<longleftrightarrow> True"
| "is_net_node e \<longleftrightarrow> False"

fun is_accepted_node :: "go_error \<Rightarrow> bool" where
  "is_accepted_node (AcceptedRequestError es) \<longleftrightarrow> True"
| "is_accepted_node e \<longleftrightarrow> False"

fun upstream_node :: "go_error \<Rightarrow> (int \<times> (string \<times> string) list option) option" where
  "upstream_node (UpstreamError s h es) = Some (s, h)"
| "upstream_node e = None"

definition as_upstream :: "go_error \<Rightarrow> (int \<times> (string \<times> string) list option) option" where
  "as_upstream e =
     (case List.find (\<lambda>x. upstream_node x \<noteq> None) (error_tree e) of
        None \<Rightarrow> None | Some x \<Rightarrow> upstream_node x)"

definition is_canceled :: "go_error \<Rightarrow> bool" where
  "is_canceled e \<longleftrightarrow> list_ex is_canceled_node (error_tree e)"

definition is_deadline_exceeded :: "go_error \<Rightarrow> bool" where
  "is_deadline_exceeded e \<longleftrightarrow> list_ex is_deadline_node (error_tree e)"

definition is_network_error :: "go_error \<Rightarrow> bool" where
  "is_network_error e \<longleftrightarrow> list_ex is_net_node (error_tree e)"

definition request_was_accepted :: "go_error \<Rightarrow> bool" where
  "request_was_accepted e \<longleftrightarrow> list_ex is_accepted_node (error_tree e)"

definition mark_request_accepted :: "go_error option \<Rightarrow> go_error option" where
  "mark_request_accepted err =
     (case err of
        None \<Rightarrow> None
      | Some e \<Rightarrow> if request_was_accepted e then Some e else Some (AcceptedRequestError [e]))"

section \<open>Classification\<close>

datatype route_failure_class = FailureCircuit | FailureRateLimit | FailureIgnore

record breaker_error_classification =
  circuit_errors :: "string list"
  rate_limit_errors :: "string list"
  ignore_errors :: "string list"

definition matches_failure_rule :: "string list \<Rightarrow> string \<Rightarrow> bool" where
  "matches_failure_rule rules target \<longleftrightarrow> list_ex (\<lambda>rule. fold_text rule = fold_text target) rules"

definition is_rate_limit_failure :: "go_error \<Rightarrow> bool" where
  "is_rate_limit_failure e \<longleftrightarrow> (case as_upstream e of None \<Rightarrow> False | Some (s, h) \<Rightarrow> s = 429)"

definition is_ignorable_failure :: "go_error \<Rightarrow> bool" where
  "is_ignorable_failure e \<longleftrightarrow>
     (case as_upstream e of None \<Rightarrow> False | Some (s, h) \<Rightarrow> 400 \<le> s \<and> s < 500 \<and> s \<noteq> 429)"

definition is_circuit_failure :: "go_error \<Rightarrow> bool" where
  "is_circuit_failure e \<longleftrightarrow>
     (case as_upstream e of
        Some (s, h) \<Rightarrow> 500 \<le> s
      | None \<Rightarrow> if is_deadline_exceeded e then True else is_network_error e)"

definition classify_route_failure ::
  "breaker_error_classification \<Rightarrow> go_error option \<Rightarrow> route_failure_class" where
  "classify_route_failure rules cause =
     (case cause of
        None \<Rightarrow> FailureIgnore
      | Some e \<Rightarrow>
          if is_canceled e then FailureIgnore
          else if is_rate_limit_failure e \<and> matches_failure_rule (rate_limit_errors rules) ''429''
            then FailureRateLimit
          else if is_ignorable_failure e \<and> matches_failure_rule (ignore_errors rules) ''4xx''
            then FailureIgnore
          else if is_circuit_failure e \<and>
              (matches_failure_rule (circuit_errors rules) ''5xx'' \<or>
               matches_failure_rule (circuit_errors rules) ''timeout'' \<or>
               matches_failure_rule (circuit_errors rules) ''connection_error'')
            then FailureCircuit
          else FailureCircuit)"

definition should_failover_route :: "go_error option \<Rightarrow> bool" where
  "should_failover_route cause =
     (case cause of
        None \<Rightarrow> False
      | Some e \<Rightarrow>
          if is_canceled e \<or> request_was_accepted e then False
          else case as_upstream e of
            Some (s, h) \<Rightarrow> s = 408 \<or> s = 429 \<or> 500 \<le> s
          | None \<Rightarrow>
              if is_deadline_exceeded e \<or> List.member (error_tree e) IoEOF \<or>
                 List.member (error_tree e) IoUnexpectedEOF
              then True else is_network_error e)"

definition route_failure_summary :: "go_error option \<Rightarrow> string" where
  "route_failure_summary cause =
     (case cause of
        None \<Rightarrow> []
      | Some e \<Rightarrow>
          if is_deadline_exceeded e then ''upstream request timed out''
          else case as_upstream e of
            Some (s, h) \<Rightarrow>
              if 0 < s then ''upstream request failed with status '' @ format_int s
              else ''upstream request failed''
          | None \<Rightarrow> ''upstream request failed'')"

section \<open>Retry-After\<close>

text \<open>The names of headers, compared by \<open>strings.EqualFold\<close>.\<close>

definition equal_fold :: "string \<Rightarrow> string \<Rightarrow> bool" where
  "equal_fold s t \<longleftrightarrow> map lower_byte s = map lower_byte t"

definition upstream_retry_after_seconds ::
  "(string \<Rightarrow> time option) \<Rightarrow> go_error option \<Rightarrow> time \<Rightarrow> int" where
  "upstream_retry_after_seconds parse_http_time cause now =
     (case (case cause of None \<Rightarrow> None | Some e \<Rightarrow> as_upstream e) of
        Some (s, Some headers) \<Rightarrow>
          let raw = (case List.find (\<lambda>(key, value). equal_fold (trim_space key) ''Retry-After'') headers of
                       None \<Rightarrow> [] | Some (key, value) \<Rightarrow> trim_space value)
          in if raw = [] then 0
             else (case atoi raw of
               Some n \<Rightarrow> max n 0
             | None \<Rightarrow>
                 (case parse_http_time raw of
                    None \<Rightarrow> 0
                  | Some retry_at \<Rightarrow>
                      if \<not> now < retry_at then 0
                      else go_div (wrap64 (wrap64 (time_sub retry_at now + second) - 1)) second))
      | _ \<Rightarrow> 0)"

section \<open>Bookkeeping\<close>

record rate_limit_defaults =
  rl_backoff_base_sec :: int
  rl_backoff_max_sec :: int
  rl_backoff_multiplier :: int

text \<open>What the settings and the database answer while an outcome is booked.\<close>

record outcome_source =
  os_rules :: breaker_error_classification
  os_rate_limits :: rate_limit_defaults
  os_binding_codes :: "nat \<Rightarrow> string + string list"
  os_parse_http_time :: "string \<Rightarrow> time option"

definition normalize_cb_logic :: "string \<Rightarrow> string" where
  "normalize_cb_logic raw = (if trim_space raw = ''and'' then ''and'' else ''or'')"

definition normalize_model_circuit_policy_mode :: "string \<Rightarrow> string" where
  "normalize_model_circuit_policy_mode raw =
     (if fold_text raw = ''enforced'' then ''enforced'' else ''default'')"

definition release_granted_route_probes :: "'c route_backend \<Rightarrow> resolved_route option \<Rightarrow> 'c \<Rightarrow> 'c" where
  "release_granted_route_probes rb route c =
     (case route of
        None \<Rightarrow> c
      | Some rt \<Rightarrow>
          if rt_upstream_id rt = 0 then c
          else
            let c = (if rt_upstream_probe_granted rt then rb_release_probes rb (rt_upstream_id rt) [] c else c);
                model_key = route_model_circuit_key rt
            in if rt_model_probe_granted rt \<and> model_key \<noteq> []
               then rb_release_probes rb (rt_upstream_id rt) model_key c else c)"

definition resolve_model_circuit_value :: "bool \<Rightarrow> int \<Rightarrow> int \<Rightarrow> int \<Rightarrow> int" where
  "resolve_model_circuit_value enforced route_value platform_value default_value =
     (let v = (if enforced \<or> route_value \<le> 0 then platform_value else route_value)
      in if v \<le> 0 then default_value else v)"

definition or_default :: "int \<Rightarrow> int \<Rightarrow> int" where
  "or_default v d = (if v \<le> 0 then d else v)"

text \<open>The parameters of one breaker failure, from the route, the model and the defaults.\<close>

definition circuit_failure_of ::
  "outcome_source \<Rightarrow> resolved_route \<Rightarrow> breaker_defaults \<Rightarrow> circuit_failure_input" where
  "circuit_failure_of os rt d =
     (let model_key = route_model_circuit_key rt;
          enforced = (normalize_model_circuit_policy_mode (rt_platform_model_cb_policy_mode rt) = ''enforced'');
          model_threshold = resolve_model_circuit_value enforced (rt_model_cb_failure_threshold rt)
            (rt_platform_model_cb_failure_threshold rt) (bd_model_failure_threshold d);
          model_window_min = resolve_model_circuit_value enforced (rt_model_cb_window_min rt)
            (rt_platform_model_cb_window_min rt) (bd_model_window_min d);
          model_duration_min = resolve_model_circuit_value enforced (rt_model_cb_duration_min rt)
            (rt_platform_model_cb_duration_min rt) (bd_model_duration_min d);
          upstream_logic =
            (if trim_space (rt_upstream_cb_threshold_logic rt) = []
             then normalize_cb_logic (bd_upstream_threshold_logic d)
             else normalize_cb_logic (rt_upstream_cb_threshold_logic rt));
          active_model_keys =
            (case os_binding_codes os (rt_upstream_id rt) of
               Inl e \<Rightarrow> [model_key]
             | Inr codes \<Rightarrow>
                 let keys = binding_circuit_keys codes
                 in if length keys = 0 then [model_key] else keys)
      in \<lparr>cf_upstream_id = rt_upstream_id rt, cf_model_key = model_key,
          cf_model_window_sec = wrap64 (model_window_min * 60),
          cf_model_failure_threshold = model_threshold,
          cf_model_duration_sec = wrap64 (model_duration_min * 60),
          cf_upstream_window_sec =
            wrap64 (or_default (rt_upstream_cb_window_min rt) (bd_upstream_window_min d) * 60),
          cf_upstream_failure_threshold =
            or_default (rt_upstream_cb_failure_threshold rt) (bd_upstream_failure_threshold d),
          cf_upstream_model_threshold =
            or_default (rt_upstream_cb_model_threshold rt) (bd_upstream_model_threshold d),
          cf_upstream_threshold_logic = upstream_logic,
          cf_upstream_duration_sec =
            wrap64 (or_default (rt_upstream_cb_duration_min rt) (bd_upstream_duration_min d) * 60),
          cf_active_model_keys = active_model_keys\<rparr>)"

definition record_route_circuit_failure ::
  "'c route_backend \<Rightarrow> outcome_source \<Rightarrow> resolved_route \<Rightarrow> breaker_defaults \<Rightarrow> 'c \<Rightarrow> 'c" where
  "record_route_circuit_failure rb os rt d c =
     (if rt_upstream_id rt = 0 \<or> route_model_circuit_key rt = [] then c
      else rb_record_circuit_failure rb (circuit_failure_of os rt d) c)"

definition record_route_rate_limit_backoff ::
  "bool \<Rightarrow> 'c route_backend \<Rightarrow> outcome_source \<Rightarrow> resolved_route option \<Rightarrow> go_error option \<Rightarrow> time \<Rightarrow> 'c \<Rightarrow> 'c"
  where
  "record_route_rate_limit_backoff cached rb os route cause now c =
     (case route of
        None \<Rightarrow> c
      | Some rt \<Rightarrow>
          if \<not> cached \<or> rt_upstream_id rt = 0 \<or> rt_route_id rt = 0 then c
          else rb_record_backoff rb
            \<lparr>bp_upstream_id = rt_upstream_id rt, bp_route_id = rt_route_id rt,
             bp_base_sec = rl_backoff_base_sec (os_rate_limits os),
             bp_max_sec = rl_backoff_max_sec (os_rate_limits os),
             bp_multiplier = rl_backoff_multiplier (os_rate_limits os),
             bp_retry_after_sec = upstream_retry_after_seconds (os_parse_http_time os) cause now\<rparr> c)"

definition mark_route_success :: "bool \<Rightarrow> 'c route_backend \<Rightarrow> resolved_route option \<Rightarrow> 'c \<Rightarrow> 'c" where
  "mark_route_success cached rb route c =
     (case route of
        None \<Rightarrow> c
      | Some rt \<Rightarrow>
          if rt_upstream_id rt = 0 \<or> \<not> cached then c
          else
            let c = rb_clear_backoff rb (rt_upstream_id rt) (rt_route_id rt) c;
                c = (if rt_upstream_probe_granted rt then rb_clear_upstream rb (rt_upstream_id rt) c else c);
                model_key = route_model_circuit_key rt;
                c = (if rt_model_probe_granted rt \<and> model_key \<noteq> []
                     then rb_clear_model rb (rt_upstream_id rt) model_key c else c)
            in rb_record_success_metadata rb (rt_upstream_id rt) c)"

definition mark_route_failure ::
  "bool \<Rightarrow> 'c route_backend \<Rightarrow> outcome_source \<Rightarrow> (string + breaker_defaults) option \<Rightarrow> time \<Rightarrow> time \<Rightarrow> time \<Rightarrow>
     resolved_route option \<Rightarrow> go_error option \<Rightarrow> channel_service \<times> 'c \<Rightarrow> channel_service \<times> 'c" where
  "mark_route_failure cached rb os answer t1 t2 now route cause st =
     (case route of
        None \<Rightarrow> st
      | Some rt \<Rightarrow>
          if rt_upstream_id rt = 0 \<or> \<not> cached then st
          else case st of (s, c) \<Rightarrow>
            let c = rb_record_failure_metadata rb (rt_upstream_id rt) (route_failure_summary cause) c
            in (case classify_route_failure (os_rules os) cause of
                  FailureIgnore \<Rightarrow> (s, release_granted_route_probes rb route c)
                | FailureRateLimit \<Rightarrow>
                    (s, record_route_rate_limit_backoff cached rb os route cause now
                          (release_granted_route_probes rb route c))
                | FailureCircuit \<Rightarrow>
                    (case load_breaker_defaults answer t1 t2 s of (d, s) \<Rightarrow>
                       if \<not> bd_enabled d then (s, release_granted_route_probes rb route c)
                       else (s, record_route_circuit_failure rb os rt d c))))"

end
