(* ===== verification/Route_Props.thy ===== *)
theory Route_Props
  imports Route_Choice Route_Outcome
begin

text \<open>
  The properties of the router: the route it chooses, who may be given one, how often each candidate
  is drawn, what becomes of the half-open probes it takes, and what its failures count for.
\<close>

section \<open>The choice of a route\<close>

definition route_wait :: "time \<Rightarrow> cache \<Rightarrow> route_row \<Rightarrow> duration" where
  "route_wait now c row = get_rate_limit_backoff c (row_upstream_id row) (row_route_id row) now"

definition route_usable :: "route_source \<Rightarrow> bool \<Rightarrow> time \<Rightarrow> cache \<Rightarrow> route_row \<Rightarrow> bool" where
  "route_usable src enabled now c row \<longleftrightarrow>
     well_formed_row src row \<and> row_keys src row \<noteq> [] \<and>
     \<not> (has_cache src \<and> 0 < route_wait now c row) \<and>
     (enabled \<longrightarrow>
        \<not> blocks (fst (check_upstream_circuit_state c (row_upstream_id row) now)) \<and>
        \<not> blocks (fst (check_model_circuit_state c (row_upstream_id row)
             (binding_circuit_key (row_binding_code row)) now)))"

definition delayed_waits :: "route_source \<Rightarrow> time \<Rightarrow> cache \<Rightarrow> route_row list \<Rightarrow> duration list" where
  "delayed_waits src now c rows =
     map (route_wait now c)
       (filter (\<lambda>row. well_formed_row src row \<and> has_cache src \<and> 0 < route_wait now c row) rows)"

lemma route_usable_memory: "memory.usable n src enabled (c, ds) = route_usable src enabled (int n) c"
  by (auto simp: fun_eq_iff memory.usable_def memory.admissible_def memory.waiting_def memory.row_ready_def
      route_usable_def route_wait_def memory_up_def memory_md_def memory_wait_def slot_block_def
      check_upstream_circuit_state_def check_model_circuit_state_def get_rate_limit_backoff_def Let_def
      split: prod.splits)

lemma delayed_waits_memory: "memory.waits n src (c, ds) rows = delayed_waits src (int n) c rows"
proof -
  have "memory.waiting n src (c, ds) row \<longleftrightarrow> has_cache src \<and> 0 < route_wait (int n) c row" for row
    by (auto simp: memory.waiting_def memory_wait_def route_wait_def get_rate_limit_backoff_def)
  then show ?thesis
    by (simp add: memory.waits_def delayed_waits_def memory_wait_def route_wait_def comp_def)
qed

lemma shorter_backoff_Min:
  assumes "\<forall>w \<in> set ws. 0 < w" "0 < a"
  shows "foldl shorter_backoff a ws = Min (insert a (set ws))"
  using assms
proof (induction ws arbitrary: a)
  case Nil
  then show ?case by simp
next
  case (Cons w ws)
  have "shorter_backoff a w = min a w" using Cons.prems by (simp add: shorter_backoff_def min_def)
  then have "foldl shorter_backoff a (w # ws) = Min (insert (min a w) (set ws))"
    using Cons by (simp add: min_def)
  also have "\<dots> = Min (insert a (set (w # ws)))"
  proof (cases "ws = []")
    case False
    then show ?thesis by (simp add: min.assoc)
  qed simp
  finally show ?case .
qed

lemma shortest_backoff:
  assumes "\<forall>w \<in> set ws. 0 < w"
  shows "foldl shorter_backoff 0 ws = (if ws = [] then 0 else Min (set ws))"
  using assms shorter_backoff_Min [of "tl ws" "hd ws"]
  by (cases ws) (auto simp: shorter_backoff_def)

lemma resolve_route_cases:
  assumes "resolve_route src rb answer t1 t2 inp (s, c) = (r, s', c')"
  shows "(\<exists>e. r = Inl e \<and> c' = c) \<or>
    (\<exists>name rows s1. authorize_model src inp = Inr name \<and> list_active_routes_by_model src name = Inr rows \<and>
       available_rows src inp rows \<noteq> [] \<and>
       resolve_groups src rb (has_cache src \<and> bd_enabled (fst (load_breaker_defaults answer t1 t2 s)))
         (available_rows src inp rows) 0 (s1, c) = (r, s', c'))"
  using assms by (auto simp: resolve_route_def Let_def split: prod.splits sum.splits if_splits)

lemma resolve_route_empty:
  assumes "resolve_route src rb answer t1 t2 inp (s, c) = (r, s', c')"
    and "authorize_model src inp = Inr name" "list_active_routes_by_model src name = Inr rows" "rows \<noteq> []"
    and "available_rows src inp rows = []"
  shows "r = Inl ErrAllRoutesUnavailable"
  using assms by (auto simp: resolve_route_def Let_def split: prod.splits if_splits)

lemma resolve_route_groups:
  assumes "resolve_route src rb answer t1 t2 inp (s, c) = (r, s', c')"
    and "authorize_model src inp = Inr name" "list_active_routes_by_model src name = Inr rows" "rows \<noteq> []"
    and "available_rows src inp rows \<noteq> []"
    and "enabled = (has_cache src \<and> bd_enabled (fst (load_breaker_defaults answer t1 t2 s)))"
  shows "\<exists>s1. resolve_groups src rb enabled (available_rows src inp rows) 0 (s1, c) = (r, s', c')"
  using assms by (auto simp: resolve_route_def Let_def split: prod.splits if_splits)

lemma sorted_after:
  "sorted (map f (xs @ ys @ zs)) \<Longrightarrow> y \<in> set ys \<Longrightarrow> z \<in> set zs \<Longrightarrow> f y \<le> f z"
  by (auto simp: sorted_append)

lemma built_from_row: "built_from src row rt \<Longrightarrow> rt_route_id rt = row_route_id row"
  by (auto simp: built_from_def build_resolved_route_def)

text \<open>
  C4. The best usable route is chosen. With the in-memory cache, a resolution whose model is
  authorized gives a route built, with one of its own active keys, from an available row that is well
  formed, not waiting and not blocked by a breaker, and no usable row has a smaller priority; it
  fails only when no available row is usable, and then it names the shortest wait of the rows that
  are waiting, if there are any. The rows come in the order of the query, by priority, and rows of
  the same upstream model have its binding code.
\<close>

theorem best_route_chosen:
  assumes "resolve_route src (memory_backend (int now)) answer t1 t2 inp (s, c, ds) = (r, st')"
    and "authorize_model src inp = Inr name" "list_active_routes_by_model src name = Inr rows" "rows \<noteq> []"
    and rows: "sorted (map row_route_priority rows)" "one_binding rows"
    and enabled: "enabled = (has_cache src \<and> bd_enabled (fst (load_breaker_defaults answer t1 t2 s)))"
  shows "case r of
      Inr rt \<Rightarrow> \<exists>row \<in> set (available_rows src inp rows).
        route_usable src enabled (int now) c row \<and> built_from src row rt \<and>
        (\<forall>row' \<in> set (available_rows src inp rows).
           route_usable src enabled (int now) c row' \<longrightarrow> row_route_priority row \<le> row_route_priority row')
    | Inl e \<Rightarrow>
        (\<forall>row \<in> set (available_rows src inp rows). \<not> route_usable src enabled (int now) c row) \<and>
        (let ws = delayed_waits src (int now) c (available_rows src inp rows)
         in e = (if ws = [] then ErrAllRoutesUnavailable else RoutesRateLimited (Min (set ws))))"
proof -
  let ?av = "available_rows src inp rows"
  let ?ws = "delayed_waits src (int now) c ?av"
  obtain s' c' where st': "st' = (s', c')" by (cases st')
  note resolved = assms(1) [unfolded st'] assms(2-4)
  have sorted_av: "sorted (map row_route_priority ?av)"
    unfolding available_rows_def by (rule sorted_filter [OF rows(1)])
  have ob: "one_binding ?av" using rows(2) by (rule one_binding_mono) (auto simp: available_rows_def)
  show ?thesis
  proof (cases "?av = []")
    case True
    then show ?thesis using resolve_route_empty [OF resolved] by (simp add: delayed_waits_def)
  next
    case False
    then obtain s1 where "resolve_groups src (memory_backend (int now)) enabled ?av 0 (s1, c, ds) = (r, s', c')"
      using resolve_route_groups [OF resolved _ enabled] by blast
    from memory.resolve_groups_spec [OF this ob] show ?thesis
    proof (elim disjE exE conjE)
      fix rt assume r: "r = Inr rt" and "memory.chosen_from now src enabled (c, ds) ?av rt"
      then obtain before grp after row where split: "?av = before @ grp @ after" "row \<in> set grp"
        "\<forall>r \<in> set grp. row_route_priority r = row_route_priority row"
        "\<forall>r \<in> set before. \<not> route_usable src enabled (int now) c r"
        "route_usable src enabled (int now) c row" "built_from src row rt"
        unfolding memory.chosen_from_def memory.first_usable_def route_usable_memory by blast
      have "row_route_priority row \<le> row_route_priority row'"
        if "row' \<in> set ?av" "route_usable src enabled (int now) c row'" for row'
      proof -
        have "row' \<in> set grp \<or> row' \<in> set after" using that split(1,4) by auto
        then show ?thesis
          using split(3) sorted_after [OF sorted_av [unfolded split(1)] split(2)] by fastforce
      qed
      moreover have "row \<in> set ?av" using split(1,2) by simp
      ultimately show ?thesis using split(5,6) unfolding r sum.case by blast
    next
      assume none: "\<forall>row \<in> set ?av. \<not> memory.usable now src enabled (c, ds) row"
        and r: "r = Inl (memory.none_left (foldl shorter_backoff 0 (memory.waits now src (c, ds) ?av)))"
      have pos: "\<forall>w \<in> set ?ws. 0 < w" by (auto simp: delayed_waits_def)
      have "memory.none_left (foldl shorter_backoff 0 ?ws) =
          (if ?ws = [] then ErrAllRoutesUnavailable else RoutesRateLimited (Min (set ?ws)))"
      proof (cases "?ws = []")
        case False
        then have "0 < Min (set ?ws)" using pos by simp
        then show ?thesis using False shortest_backoff [OF pos] by (simp add: memory.none_left_def)
      qed (simp add: memory.none_left_def)
      then show ?thesis
        using none unfolding r delayed_waits_memory route_usable_memory sum.case Let_def by blast
    qed
  qed
qed

section \<open>Who may be given a route\<close>

text \<open>
  C22. No route without access. Whatever the cache backend answers, a request that is not internal
  gets a route only for an active model whose access scope is public; and when it names a user and
  permission groups are configured, only when the user and the model have a permission group in
  common. A model in no group is given to nobody.
\<close>

theorem no_route_without_access:
  assumes "resolve_route src rb answer t1 t2 inp st = (Inr rt, st')"
    and "fold_text (in_scope inp) \<noteq> ''internal''"
  shows "\<exists>name model. normalize_platform_model_name (in_platform_model_name inp) = Some name \<and>
    get_active_model_by_name src name = Inr model \<and>
    normalize_model_access_scope_value (pm_access_scope model) = ''public'' \<and>
    (case perm_groups src of
       None \<Rightarrow> True
     | Some p \<Rightarrow> in_user_id inp = 0 \<or>
         (\<exists>mgs ugs g. list_model_group_ids p (pm_id model) = Inr mgs \<and>
            resolve_user_group_ids (Some p) (in_user_id inp) = Inr ugs \<and> g \<in> set mgs \<and> g \<in> set ugs))"
proof -
  obtain s c s' c' where st: "st = (s, c)" "st' = (s', c')" by (cases st; cases st')
  obtain name where a: "authorize_model src inp = Inr name"
    using resolve_route_cases [OF assms(1) [unfolded st]] by blast
  then obtain model where m: "normalize_platform_model_name (in_platform_model_name inp) = Some name"
    "get_active_model_by_name src name = Inr model"
    "route_scope_allows_model_access (in_scope inp) (pm_access_scope model)"
    "0 < in_user_id inp \<longrightarrow> is_model_accessible (perm_groups src) (pm_id model) (in_user_id inp) = Inr True"
    using assms(2)
    by (auto simp: authorize_model_def normalize_route_scope_def split: option.splits sum.splits if_splits)
  have "case perm_groups src of
       None \<Rightarrow> True
     | Some p \<Rightarrow> in_user_id inp = 0 \<or>
         (\<exists>mgs ugs g. list_model_group_ids p (pm_id model) = Inr mgs \<and>
            resolve_user_group_ids (Some p) (in_user_id inp) = Inr ugs \<and> g \<in> set mgs \<and> g \<in> set ugs)"
    using m(4)
    by (auto simp: is_model_accessible_def list_ex_iff List.member_iff split: option.splits sum.splits if_splits)
  then show ?thesis
    using m(1-3) assms(2) unfolding route_scope_allows_model_access_def normalize_route_scope_def by auto
qed

section \<open>The weighted draw\<close>

definition weight_sum :: "route_candidate list \<Rightarrow> int" where
  "weight_sum cands = sum_list (map candidate_weight cands)"

lemma candidate_weight_pos [simp]: "0 < candidate_weight cand"
  by (simp add: candidate_weight_def Let_def)

lemma weight_sum_nonneg [simp]: "0 \<le> weight_sum cands"
  by (induction cands) (simp_all add: weight_sum_def add_nonneg_nonneg less_imp_le)

lemma weight_sum_Cons [simp]: "weight_sum (cand # cands) = candidate_weight cand + weight_sum cands"
  by (simp add: weight_sum_def)

lemma add_weight:
  assumes "0 \<le> a" "a + (candidate_weight cand + weight_sum cands) \<le> max_int64"
  shows "wrap64 (a + candidate_weight cand) = a + candidate_weight cand"
proof (rule wrap64_id)
  have "0 < candidate_weight cand" "0 \<le> weight_sum cands" by simp_all
  then have "0 \<le> a + candidate_weight cand" "a + candidate_weight cand \<le> max_int64"
    using assms by linarith+
  then show "in_int64 (a + candidate_weight cand)" by (simp add: in_int64_def min_int64_def)
qed

lemma total_weight_exact:
  "0 \<le> a \<Longrightarrow> a + weight_sum cands \<le> max_int64 \<Longrightarrow> total_weight_loop cands a = a + weight_sum cands"
proof (induction cands arbitrary: a)
  case (Cons cand cands)
  have pos: "0 < candidate_weight cand" by simp
  have "wrap64 (a + candidate_weight cand) = a + candidate_weight cand"
    using Cons.prems by (intro add_weight) simp_all
  moreover have "0 \<le> a + candidate_weight cand" using pos Cons.prems(1) by linarith
  ultimately show ?case using Cons by (simp add: add.assoc)
qed (simp add: weight_sum_def)

lemma weighted_position_iff:
  assumes "0 \<le> a" "a \<le> r" "a + weight_sum cands \<le> max_int64" "i < length cands"
  shows "weighted_position r a cands = i \<longleftrightarrow>
    a + weight_sum (take i cands) \<le> r \<and> r < a + weight_sum (take (Suc i) cands)"
  using assms
proof (induction cands arbitrary: a i)
  case (Cons cand cands)
  let ?w = "candidate_weight cand"
  have w: "0 < ?w" "0 \<le> weight_sum cands" by simp_all
  have wrap: "wrap64 (a + ?w) = a + ?w" using Cons.prems by (intro add_weight) simp_all
  show ?case
  proof (cases "r < a + ?w")
    case True
    have "0 \<le> weight_sum (take k cands)" for k by simp
    then show ?thesis
      using True Cons.prems(2) by (cases i) (auto simp: wrap Let_def weight_sum_def [of "[]"] not_le intro: less_le_trans)
  next
    case False
    show ?thesis
    proof (cases i)
      case 0
      then show ?thesis using False by (simp add: wrap Let_def weight_sum_def [of "[]"])
    next
      case (Suc j)
      have "0 \<le> a + ?w" "a + ?w \<le> r" "a + ?w + weight_sum cands \<le> max_int64" "j < length cands"
        using Cons.prems Suc False w by (simp_all add: add.assoc add_nonneg_nonneg less_imp_le)
      from Cons.IH [OF this] show ?thesis using False Suc by (simp add: wrap Let_def add.assoc)
    qed
  qed
qed simp

lemma weighted_position_range:
  assumes "0 \<le> a" "r < a + weight_sum cands" "a + weight_sum cands \<le> max_int64" "cands \<noteq> []"
  shows "weighted_position r a cands < length cands"
  using assms
proof (induction cands arbitrary: a)
  case (Cons cand cands)
  let ?w = "candidate_weight cand"
  have w: "0 < ?w" "0 \<le> weight_sum cands" by simp_all
  have wrap: "wrap64 (a + ?w) = a + ?w" using Cons.prems by (intro add_weight) simp_all
  show ?case
  proof (cases "r < a + ?w")
    case False
    then have "cands \<noteq> []" using Cons.prems(2) by (auto simp: weight_sum_def)
    then have "weighted_position r (a + ?w) cands < length cands"
      using Cons.prems w by (intro Cons.IH) (simp_all add: add.assoc add_nonneg_nonneg less_imp_le)
    then show ?thesis using False by (simp add: wrap Let_def)
  qed (simp add: wrap Let_def)
qed simp

lemma weight_sum_take_le: "weight_sum (take i cands) \<le> weight_sum cands"
proof -
  have "weight_sum cands = weight_sum (take i cands) + weight_sum (drop i cands)"
    by (simp add: weight_sum_def flip: sum_list_append map_append)
  then show ?thesis using weight_sum_nonneg [of "drop i cands"] by linarith
qed

lemma weight_sum_take_Suc:
  "i < length cands \<Longrightarrow> weight_sum (take (Suc i) cands) = weight_sum (take i cands) + candidate_weight (cands ! i)"
  by (simp add: weight_sum_def take_Suc_conv_app_nth)

text \<open>
  C23. The draw is fair. When the weights of a group add up without overflow, then of the equally
  likely draws of \<open>rand.Intn(totalWeight)\<close> exactly as many choose a candidate as its weight says, 100
  for a weight that is not positive.
\<close>

theorem weighted_draw_exact:
  assumes "weight_sum cands \<le> max_int64" "i < length cands"
  shows "card {d. d < nat (weight_sum cands) \<and>
      fst (weighted_random_candidate (rb\<lparr>rb_intn := (\<lambda>n c. (d, c))\<rparr>) cands c) = i} =
    nat (candidate_weight (cands ! i))"
proof -
  let ?lo = "weight_sum (take i cands)" and ?w = "candidate_weight (cands ! i)"
  have tot: "total_weight_loop cands 0 = weight_sum cands" using total_weight_exact [of 0] assms(1) by simp
  have pos: "0 < weight_sum cands"
    using assms(2) by (cases cands) (auto intro: add_pos_nonneg)
  have ws: "?lo + ?w \<le> weight_sum cands"
    using weight_sum_take_Suc [OF assms(2)] weight_sum_take_le [of "Suc i" cands] by simp
  have "fst (weighted_random_candidate (rb\<lparr>rb_intn := (\<lambda>n c. (d, c))\<rparr>) cands c) = i \<longleftrightarrow>
      ?lo \<le> int d \<and> int d < ?lo + ?w" if d: "d < nat (weight_sum cands)" for d
  proof -
    let ?p = "weighted_position (int d) 0 cands"
    have iff: "\<And>j. j < length cands \<Longrightarrow> ?p = j \<longleftrightarrow>
        weight_sum (take j cands) \<le> int d \<and> int d < weight_sum (take (Suc j) cands)"
      using weighted_position_iff [of 0 "int d" cands] assms(1) by simp
    have in_range: "?p < length cands"
    proof (rule weighted_position_range)
      show "cands \<noteq> []" using assms(2) by auto
    qed (use assms(1) d in simp_all)
    then show ?thesis
      using tot pos iff [OF assms(2)] weight_sum_take_Suc [OF assms(2)]
      by (simp add: weighted_random_candidate_def)
  qed
  moreover have "d < nat (weight_sum cands) \<and> ?lo \<le> int d \<and> int d < ?lo + ?w \<longleftrightarrow>
      nat ?lo \<le> d \<and> d < nat (?lo + ?w)" for d
    using ws weight_sum_nonneg [of "take i cands"] by auto
  ultimately have "{d. d < nat (weight_sum cands) \<and>
      fst (weighted_random_candidate (rb\<lparr>rb_intn := (\<lambda>n c. (d, c))\<rparr>) cands c) = i} =
      {nat ?lo ..< nat (?lo + ?w)}"
    unfolding atLeastLessThan_def by blast
  then show ?thesis by (simp add: nat_add_distrib less_imp_le)
qed

section \<open>Half-open probes\<close>

text \<open>
  A backend that also keeps the list of the probes this request holds: a granted check takes one, a
  release, a clearing or a recorded failure of the breaker settles it. The backend under it may
  answer anything, so whatever other requests do in between is covered.
\<close>

type_synonym probe = "nat \<times> string option"

definition settle :: "probe list \<Rightarrow> probe list \<Rightarrow> probe list" where
  "settle ps held = filter (\<lambda>p. p \<notin> set ps) held"

definition logged :: "'c route_backend \<Rightarrow> ('c \<times> probe list) route_backend" where
  "logged rb =
    \<lparr>rb_check_upstream = (\<lambda>uid (c, held). let (r, c) = rb_check_upstream rb uid c
       in (r, c, if r = Inr HalfOpenGranted then (uid, None) # held else held)),
     rb_check_model = (\<lambda>uid key (c, held). let (r, c) = rb_check_model rb uid key c
       in (r, c, if r = Inr HalfOpenGranted then (uid, Some key) # held else held)),
     rb_record_circuit_failure = (\<lambda>i (c, held). (rb_record_circuit_failure rb i c,
       if cf_upstream_id i = 0 \<or> trim_space (cf_model_key i) = [] then held
       else settle [(cf_upstream_id i, None), (cf_upstream_id i, Some (cf_model_key i))] held)),
     rb_record_failure_metadata = (\<lambda>uid e (c, held). (rb_record_failure_metadata rb uid e c, held)),
     rb_record_success_metadata = (\<lambda>uid (c, held). (rb_record_success_metadata rb uid c, held)),
     rb_clear_upstream = (\<lambda>uid (c, held). (rb_clear_upstream rb uid c, settle [(uid, None)] held)),
     rb_clear_model = (\<lambda>uid key (c, held). (rb_clear_model rb uid key c, settle [(uid, Some key)] held)),
     rb_release_probes = (\<lambda>uid key (c, held). (rb_release_probes rb uid key c,
       settle [(uid, if trim_space key = [] then None else Some key)] held)),
     rb_get_backoff = (\<lambda>uid rid (c, held). let (r, c) = rb_get_backoff rb uid rid c in (r, c, held)),
     rb_record_backoff = (\<lambda>p (c, held). (rb_record_backoff rb p c, held)),
     rb_clear_backoff = (\<lambda>uid rid (c, held). (rb_clear_backoff rb uid rid c, held)),
     rb_incr_key = (\<lambda>uid (c, held). let (r, c) = rb_incr_key rb uid c in (r, c, held)),
     rb_intn = (\<lambda>n (c, held). let (i, c) = rb_intn rb n c in (i, c, held))\<rparr>"

text \<open>The probes a resolved route says it holds.\<close>

definition marked_probes :: "nat \<Rightarrow> string \<Rightarrow> bool \<Rightarrow> bool \<Rightarrow> probe list" where
  "marked_probes uid key us ms = (if ms then [(uid, Some key)] else []) @ (if us then [(uid, None)] else [])"

definition route_probes :: "resolved_route \<Rightarrow> probe list" where
  "route_probes rt =
     marked_probes (rt_upstream_id rt) (route_model_circuit_key rt)
       (rt_upstream_probe_granted rt) (rt_model_probe_granted rt)"

lemma binding_key_not_blank:
  assumes "trim_space code \<noteq> []"
  shows "trim_space (binding_circuit_key code) \<noteq> []" "binding_circuit_key code \<noteq> []"
proof -
  have "\<forall>e \<in> set space_encodings. hd e \<noteq> CHR ''u''" by (simp add: space_encodings_def)
  then show "trim_space (binding_circuit_key code) \<noteq> []"
    using assms trim_space_not_blank by (simp add: binding_circuit_key_def Let_def)
  then show "binding_circuit_key code \<noteq> []" by auto
qed

lemma check_candidate_logged:
  assumes "check_candidate (logged rb) row (c, []) = (v, c', held)"
  shows "case v of
      Ready us ms \<Rightarrow> held = marked_probes (row_upstream_id row) (binding_circuit_key (row_binding_code row))
        (us = HalfOpenGranted) (ms = HalfOpenGranted)
    | _ \<Rightarrow> held = []"
  using assms
  by (auto simp: check_candidate_def logged_def release_upstream_probe_def Let_def settle_def blocks_def
      marked_probes_def split: prod.splits sum.splits if_splits)

lemma weighted_logged:
  "weighted_random_candidate (logged rb) cands (c, held) = (i, c', held') \<Longrightarrow> held' = held"
  by (auto simp: weighted_random_candidate_def logged_def Let_def split: prod.splits if_splits)

lemma try_candidates_logged:
  assumes "try_candidates enabled (logged rb) cands (c, []) = (att, c', held)"
  shows "case att of
      Chosen sel us ms \<Rightarrow> sel \<in> set cands \<and>
        held = marked_probes (row_upstream_id (cand_row sel)) (binding_circuit_key (row_binding_code (cand_row sel)))
          (us = HalfOpenGranted) (ms = HalfOpenGranted)
    | _ \<Rightarrow> held = []"
  using assms
proof (induction cands arbitrary: c rule: length_induct)
  case (1 cands)
  note step = 1(2) [unfolded try_candidates.simps [of enabled "logged rb" cands]]
  show ?case
  proof (cases "cands = []")
    case True
    with step show ?thesis by auto
  next
    case False
    obtain i c1 h1 where w: "weighted_random_candidate (logged rb) cands (c, []) = (i, c1, h1)"
      by (metis prod_cases3)
    from weighted_logged [OF w] have h1: "h1 = []" .
    show ?thesis
    proof (cases "i < length cands")
      case out: False
      then show ?thesis using step False w h1 by (auto simp: element_at_def)
    next
      case i: True
      let ?sel = "cands ! i"
      show ?thesis
      proof (cases enabled)
        case off: False
        then show ?thesis using step False w h1 i by (auto simp: element_at_def marked_probes_def)
      next
        case on: True
        obtain v c2 h2 where v: "check_candidate (logged rb) (cand_row ?sel) (c1, []) = (v, c2, h2)"
          by (metis prod_cases3)
        note h2 = check_candidate_logged [OF v]
        show ?thesis
        proof (cases v)
          case Refused
          let ?rest = "remove_candidate cands (row_upstream_id (cand_row ?sel)) (row_upstream_model_id (cand_row ?sel))"
          have "try_candidates enabled (logged rb) ?rest (c2, []) = (att, c', held)"
            using step False w h1 i on v h2 Refused by (simp add: element_at_def)
          from 1(1) [rule_format, OF remove_candidate_shorter this] i
          show ?thesis by (auto simp: remove_candidate_def split: attempt.splits)
        next
          case (Broken e)
          then show ?thesis using step False w h1 i on v h2 by (auto simp: element_at_def)
        next
          case (Ready us ms)
          then show ?thesis using step False w h1 i on v h2 by (auto simp: element_at_def)
        qed
      qed
    qed
  qed
qed

lemma select_key_logged:
  assumes "select_api_key cached (logged rb) uid cfg (s, c, held) = (r, s', c', held')"
  shows "held' = held"
  using assms
  by (auto simp: select_api_key_def pick_active_key_def next_api_key_index_def logged_def Let_def
      split: prod.splits if_splits)

lemma admit_row_logged:
  assumes "admit_row src (logged rb) row (s, c, held) = (a, s', c', held')"
  shows "held' = held \<and> (\<forall>key. a = Admit key \<longrightarrow> well_formed_row src row)"
proof (cases "well_formed_row src row")
  case False
  then show ?thesis using assms by (simp add: admit_row_def)
next
  case True
  obtain d c1 h1 where b: "route_rate_limit_backoff (has_cache src) (logged rb) (row_upstream_id row)
      (row_route_id row) (c, held) = (d, c1, h1)" by (metis prod_cases3)
  then have "h1 = held"
    by (auto simp: route_rate_limit_backoff_def logged_def Let_def split: if_splits prod.splits sum.splits)
  then show ?thesis
    using assms b True
    by (auto simp: admit_row_def split: if_splits option.splits prod.splits sum.splits key_error.splits
        dest: select_key_logged)
qed

lemma gather_group_logged:
  assumes "gather_group src (logged rb) rows cands shortest (s, c, held) = (r, s', c', held')"
  shows "held' = held \<and> (\<forall>cands' short. r = Inr (cands', short) \<longrightarrow>
    (\<forall>x \<in> set cands'. x \<in> set cands \<or> cand_row x \<in> set rows \<and> well_formed_row src (cand_row x)))"
  using assms
proof (induction rows arbitrary: cands shortest s c held)
  case Nil
  then show ?case by auto
next
  case (Cons row rows)
  obtain a s1 c1 h1 where a: "admit_row src (logged rb) row (s, c, held) = (a, s1, c1, h1)"
    by (metis prod_cases4)
  note h1 = admit_row_logged [OF a]
  have new: "x = \<lparr>cand_row = row, cand_api_key = key\<rparr> \<Longrightarrow> cand_row x = row" for x key by simp
  show ?case
  proof (cases a)
    case (Admit key)
    then have "gather_group src (logged rb) rows (cands @ [\<lparr>cand_row = row, cand_api_key = key\<rparr>]) shortest (s1, c1, held) =
        (r, s', c', held')" using Cons.prems a h1 by simp
    from Cons.IH [OF this] show ?thesis using h1 Admit new by fastforce
  qed (use Cons.prems a h1 in \<open>auto dest!: Cons.IH\<close>)
qed

lemma resolve_groups_logged:
  assumes "resolve_groups src (logged rb) enabled rows shortest (s, c, []) = (r, s', c', held)"
  shows "case r of
      Inl e \<Rightarrow> held = []
    | Inr rt \<Rightarrow> held = route_probes rt \<and>
        (\<exists>row \<in> set rows. rt_upstream_id rt = row_upstream_id row \<and> route_model_circuit_key rt \<noteq> [] \<and>
          trim_space (route_model_circuit_key rt) \<noteq> [])"
  using assms
proof (induction rows arbitrary: shortest s c rule: length_induct)
  case (1 rows)
  show ?case
  proof (cases rows)
    case Nil
    with 1(2) show ?thesis by (auto simp: resolve_groups.simps split: if_splits)
  next
    case (Cons row rows')
    let ?same = "\<lambda>r. row_route_priority r = row_route_priority row"
    let ?grp = "row # takeWhile ?same rows'" and ?rest = "dropWhile ?same rows'"
    have sub: "set ?rest \<subseteq> set rows" "set ?grp \<subseteq> set rows"
      using Cons by (auto dest: set_takeWhileD set_dropWhileD)
    have shorter: "length ?rest < length rows" using Cons by (simp add: length_dropWhile_le less_Suc_eq_le)
    obtain g s1 c1 h1 where g: "gather_group src (logged rb) ?grp [] shortest (s, c, []) = (g, s1, c1, h1)"
      by (metis prod_cases4)
    note gl = gather_group_logged [OF g]
    note step = 1(2) [unfolded Cons resolve_groups.simps Let_def g]
    have later: ?thesis if "resolve_groups src (logged rb) enabled ?rest short (s2, c2, []) = (r, s', c', held)"
      for short s2 c2
      using 1(1) [rule_format, OF shorter that] sub(1) by (auto split: sum.splits)
    show ?thesis
    proof (cases g)
      case (Inl e)
      then show ?thesis using step gl by auto
    next
      case (Inr gs)
      then obtain cands short where gs: "g = Inr (cands, short)" by (cases gs) auto
      show ?thesis
      proof (cases "cands = []")
        case True
        then show ?thesis using step gs gl by (intro later) auto
      next
        case False
        obtain att c2 h2 where att: "try_candidates enabled (logged rb) cands (c1, []) = (att, c2, h2)"
          by (metis prod_cases3)
        note al = try_candidates_logged [OF att]
        show ?thesis
        proof (cases att)
          case Exhausted
          then show ?thesis using step gs gl False att al by (intro later) auto
        next
          case (Failed e)
          then show ?thesis using step gs gl False att al by auto
        next
          case (Chosen sel us ms)
          let ?rt = "(build_resolved_route src (cand_row sel) (cand_api_key sel))
            \<lparr>rt_upstream_probe_granted := (us = HalfOpenGranted), rt_model_probe_granted := (ms = HalfOpenGranted)\<rparr>"
          have r: "r = Inr ?rt" "held = h2" using step gs gl False att Chosen by auto
          have sel: "cand_row sel \<in> set ?grp" "well_formed_row src (cand_row sel)"
            using gl gs al Chosen by auto
          have key: "route_model_circuit_key ?rt = binding_circuit_key (row_binding_code (cand_row sel))"
            by (simp add: route_model_circuit_key_def build_resolved_route_def binding_circuit_key_def)
          have "h2 = route_probes ?rt"
            using al Chosen unfolding route_probes_def key by (simp add: build_resolved_route_def)
          moreover have "rt_upstream_id ?rt = row_upstream_id (cand_row sel)"
            by (simp add: build_resolved_route_def)
          moreover note binding_key_not_blank [of "row_binding_code (cand_row sel)"]
          ultimately show ?thesis
            using r sel sub(2) key unfolding well_formed_row_def by auto
        qed
      qed
    qed
  qed
qed

lemma mark_success_settles:
  assumes "held = route_probes rt" "rt_upstream_id rt \<noteq> 0" "route_model_circuit_key rt \<noteq> []"
  shows "snd (mark_route_success True (logged rb) (Some rt) (c, held)) = []"
  using assms
  by (auto simp: mark_route_success_def logged_def Let_def route_probes_def marked_probes_def settle_def)

lemma release_granted_settles:
  assumes "held = route_probes rt" "rt_upstream_id rt \<noteq> 0" "trim_space (route_model_circuit_key rt) \<noteq> []"
    "route_model_circuit_key rt \<noteq> []"
  shows "snd (release_granted_route_probes (logged rb) (Some rt) (c, held)) = []"
  using assms
  by (auto simp: release_granted_route_probes_def logged_def Let_def route_probes_def marked_probes_def settle_def)

lemma mark_failure_settles:
  assumes "held = route_probes rt" "rt_upstream_id rt \<noteq> 0" "trim_space (route_model_circuit_key rt) \<noteq> []"
  shows "snd (snd (mark_route_failure True (logged rb) os answer t1 t2 now (Some rt) cause (s, c, held))) = []"
proof -
  have key: "route_model_circuit_key rt \<noteq> []" using assms(3) by auto
  note rel = release_granted_settles [OF assms key, where rb = rb]
  have meta: "\<exists>c1. rb_record_failure_metadata (logged rb) uid e (c, held) = (c1, held)" for uid e
    by (simp add: logged_def)
  have noted: "snd (record_route_rate_limit_backoff cached (logged rb) os (Some rt) cause now x) = snd x" for x cached
    by (cases x) (simp add: record_route_rate_limit_backoff_def logged_def)
  have circ: "snd (record_route_circuit_failure (logged rb) os rt d (c1, held)) = []" for d c1
    using assms key
    by (auto simp: record_route_circuit_failure_def logged_def circuit_failure_of_def Let_def settle_def
        route_probes_def marked_probes_def)
  obtain c1 where c1: "rb_record_failure_metadata (logged rb) (rt_upstream_id rt) (route_failure_summary cause) (c, held) = (c1, held)"
    using meta by blast
  show ?thesis
    using assms(2)
    by (cases "classify_route_failure (os_rules os) cause")
      (simp_all add: mark_route_failure_def c1 Let_def noted rel circ case_prod_beta)
qed

text \<open>
  C19. No probe leaks. Whatever the backend answers and whatever other requests do in between, a
  resolution that fails holds no half-open probe at its end, one that gives a route holds exactly the
  probes its two marks say, and booking the success or the failure of that route, whatever the cause
  and the configuration by then, settles all of them. Upstream ids are the positive keys of their
  rows.
\<close>

theorem no_probe_leaks:
  assumes "resolve_route src (logged rb) answer t1 t2 inp (s, c, []) = (r, s', c', held)"
    and "has_cache src"
    and "\<forall>rows. list_active_routes_by_model src name = Inr rows \<longrightarrow> (\<forall>row \<in> set rows. row_upstream_id row \<noteq> 0)"
    and "normalize_platform_model_name (in_platform_model_name inp) = Some name"
  shows "case r of
      Inl e \<Rightarrow> held = []
    | Inr rt \<Rightarrow> held = route_probes rt \<and>
        snd (mark_route_success (has_cache src) (logged rb) (Some rt) (c', held)) = [] \<and>
        snd (snd (mark_route_failure (has_cache src) (logged rb) os answer' t3 t4 now (Some rt) cause (s', c', held))) = []"
proof -
  from resolve_route_cases [OF assms(1)] show ?thesis
  proof (elim disjE exE conjE)
    fix e assume "r = Inl e" "(c', held) = (c, [])"
    then show ?thesis by simp
  next
    fix n rows s1
    assume n: "authorize_model src inp = Inr n" "list_active_routes_by_model src n = Inr rows"
      and g: "resolve_groups src (logged rb) (has_cache src \<and> bd_enabled (fst (load_breaker_defaults answer t1 t2 s)))
         (available_rows src inp rows) 0 (s1, c, []) = (r, s', c', held)"
    have "n = name" using n(1) assms(4) by (auto simp: authorize_model_def split: sum.splits if_splits)
    then have ids: "\<forall>row \<in> set (available_rows src inp rows). row_upstream_id row \<noteq> 0"
      using n(2) assms(3) by (auto simp: available_rows_def)
    show ?thesis
    proof (cases r)
      case (Inl e)
      then show ?thesis using resolve_groups_logged [OF g] by simp
    next
      case (Inr rt)
      then have rt: "held = route_probes rt" "rt_upstream_id rt \<noteq> 0" "route_model_circuit_key rt \<noteq> []"
        "trim_space (route_model_circuit_key rt) \<noteq> []"
        using resolve_groups_logged [OF g] ids by auto
      show ?thesis
        unfolding Inr sum.case using rt(1) mark_success_settles [OF rt(1-3), of rb c']
          mark_failure_settles [OF rt(1,2,4), of rb os answer' t3 t4 now cause s' c'] assms(2) by simp
    qed
  qed
qed

section \<open>What a failure counts for\<close>

text \<open>
  The classification of a failure. A failure counts against the breakers unless it is a
  cancellation, a 429 answer under the rate-limit rule, or another 4xx answer under the ignore rule.
  The configured list of circuit errors plays no part: taking "timeout" or "5xx" out of it changes
  nothing.
\<close>

lemma failure_counts_unless_excused:
  "classify_route_failure rules (Some e) = FailureCircuit \<longleftrightarrow>
     \<not> (is_canceled e \<or>
        (case as_upstream e of
           None \<Rightarrow> False
         | Some (status, headers) \<Rightarrow>
             status = 429 \<and> matches_failure_rule (rate_limit_errors rules) ''429'' \<or>
             400 \<le> status \<and> status < 500 \<and> status \<noteq> 429 \<and>
             matches_failure_rule (ignore_errors rules) ''4xx''))"
  by (auto simp: classify_route_failure_def is_rate_limit_failure_def is_ignorable_failure_def
      split: option.splits prod.splits)

text \<open>The error tree is closed under the trees of its nodes.\<close>

lemma error_tree_self: "e \<in> set (error_tree e)"
  by (cases e) auto

lemma error_tree_trans: "x \<in> set (error_tree e) \<Longrightarrow> set (error_tree x) \<subseteq> set (error_tree e)"
  by (induction e rule: error_tree.induct) fastforce+

lemma marked_was_accepted: "mark_request_accepted (Some x) = Some m \<Longrightarrow> request_was_accepted m"
  by (auto simp: mark_request_accepted_def request_was_accepted_def split: if_splits)

text \<open>
  An accepted request is not sent again. Once an error has been marked as raised after the
  upstream may have accepted the request, no error that wraps it, however deep and next to whatever
  other errors, makes the request fail over to another route.
\<close>

theorem accepted_request_stays:
  assumes "mark_request_accepted (Some x) = Some m" "m \<in> set (error_tree e)"
  shows "\<not> should_failover_route (Some e)"
proof -
  have "request_was_accepted e"
    using marked_was_accepted [OF assms(1)] error_tree_trans [OF assms(2)]
    by (auto simp: request_was_accepted_def list_ex_iff)
  then show ?thesis by (simp add: should_failover_route_def)
qed

section \<open>Overflow of the breaker duration\<close>

lemma seconds_overflow:
  assumes "153722868 \<le> m" "m \<le> 307445734"
  shows "seconds (wrap64 (m * 60)) < 0"
proof -
  have w: "wrap64 (m * 60) = m * 60" using assms by (intro wrap64_id) (simp add: in_int64_def min_int64_def max_int64_def)
  let ?x = "m * 60 * 1000000000"
  have x: "9223372036854775808 \<le> ?x" "?x < 18446744073709551616" using assms by simp_all
  have "(?x + 9223372036854775808) mod 18446744073709551616 =
      (?x + 9223372036854775808 - 18446744073709551616) mod 18446744073709551616"
    by (rule minus_mod_self2 [symmetric])
  also have "\<dots> = ?x + 9223372036854775808 - 18446744073709551616"
    using x by (intro mod_pos_pos_trivial) simp_all
  finally show ?thesis
    using x(2) by (simp add: seconds_def w second_def wrap64_def)
qed

lemma model_closed_after_sweep:
  assumes "0 \<le> now"
  shows "fst (check_circuit_state (slot_state (maybe_sweep c now) sl) now) = Open \<longrightarrow>
         fst (check_circuit_state (slot_state c sl) now) = Open"
  using breakers.get_maybe_sweep [of c now sl]
  by (auto simp: drop_dead_def split: option.splits if_splits)

text \<open>
  Accepted durations that disable a breaker. From 153,722,868 minutes on, a duration passes the
  validation of the defaults, which bounds it by the largest int over 60, but its conversion to
  nanoseconds overflows: a failure that trips the model breaker of a route leaves that breaker
  closed, whatever the cache held.
\<close>

theorem accepted_duration_never_opens:
  assumes m: "153722868 \<le> m" "m \<le> 307445734"
    and d: "d = default_breaker_defaults\<lparr>bd_enabled := True, bd_model_duration_min := m\<rparr>"
    and rt: "rt_model_cb_duration_min rt \<le> 0" "rt_platform_model_cb_duration_min rt \<le> 0"
    and now: "0 \<le> now" "rt_upstream_id rt \<noteq> 0" "trim_space (rt_binding_code rt) \<noteq> []"
    and trips: "should_trip (record_failure (ensure_model_circuit c (rt_upstream_id rt) (route_model_circuit_key rt))
        now (seconds (cf_model_window_sec (circuit_failure_of os rt d))))
      (cf_model_failure_threshold (circuit_failure_of os rt d))"
  shows "valid_breaker_defaults d \<and>
    fst (check_model_circuit_state (record_circuit_failure c (circuit_failure_of os rt d) now)
      (rt_upstream_id rt) (route_model_circuit_key rt) now) \<noteq> Open"
proof
  have "m \<le> max_int64 div 60" using m(2) by (simp add: max_int64_def)
  then show "valid_breaker_defaults d"
    using m by (simp add: d valid_breaker_defaults_def default_breaker_defaults_def max_int64_def
        trim_space_plain plain_char_def byte_in_def)
  let ?i = "circuit_failure_of os rt d"
  let ?key = "route_model_circuit_key rt"
  let ?sl = "ModelSlot (model_circuit_key (rt_upstream_id rt) ?key)"
  have i: "cf_upstream_id ?i = rt_upstream_id rt" "cf_model_key ?i = ?key"
    "cf_model_duration_sec ?i = wrap64 (m * 60)"
    using m rt by (simp_all add: circuit_failure_of_def Let_def resolve_model_circuit_value_def d default_breaker_defaults_def)
  have w: "wrap64 (m * 60) = m * 60" using m by (intro wrap64_id) (simp add: in_int64_def min_int64_def max_int64_def)
  let ?s = "model_after_failure c ?i now"
  have "open_until ?s = now + seconds (wrap64 (m * 60))"
    using trips m by (simp add: model_after_failure_def Let_def i w record_failure_def should_trip_def)
  then have closed: "\<not> now < open_until ?s" using seconds_overflow [OF m] by simp
  have "trim_space ?key \<noteq> []"
    using binding_key_not_blank(1) now(3) unfolding route_model_circuit_key_def by blast
  let ?c2 = "put_upstream_circuit (rt_upstream_id rt)
        (upstream_after_failure (put_model_circuit (rt_upstream_id rt) ?key ?s c) ?i now)
        (put_model_circuit (rt_upstream_id rt) ?key ?s c)"
  have rec: "record_circuit_failure c ?i now = maybe_sweep ?c2 now"
    using now(2) \<open>trim_space ?key \<noteq> []\<close> by (simp add: record_circuit_failure_def i Let_def)
  have "fst (check_circuit_state (slot_state ?c2 ?sl) now) \<noteq> Open"
    using closed by (simp add: check_Open_iff del: slot_state.simps)
  then have "fst (check_circuit_state (slot_state (record_circuit_failure c ?i now) ?sl) now) \<noteq> Open"
    unfolding rec using model_closed_after_sweep [OF now(1), of ?c2 ?sl] by blast
  then show "fst (check_model_circuit_state (record_circuit_failure c ?i now) (rt_upstream_id rt) ?key now) \<noteq> Open"
    by (simp add: check_model_circuit_state_def Let_def case_prod_beta)
qed

section \<open>Round-robin keys\<close>

definition key_counter :: "cache \<Rightarrow> nat \<Rightarrow> int" where
  "key_counter c uid = (case key_counters c uid of None \<Rightarrow> 0 | Some k \<Rightarrow> next_key k)"

text \<open>The configuration under which the keys of an upstream are taken in turn.\<close>

definition round_robin :: "api_keys_config \<Rightarrow> bool" where
  "round_robin cfg \<longleftrightarrow> trim_space (keys_strategy cfg) = ''round_robin'' \<and> active_keys (keys_entries cfg) \<noteq> []"

definition key_in_turn :: "api_keys_config \<Rightarrow> nat \<Rightarrow> string" where
  "key_in_turn cfg n = key_secret (active_keys (keys_entries cfg) ! (n mod length (active_keys (keys_entries cfg))))"

lemma select_round_robin:
  assumes "round_robin cfg" "uid \<noteq> 0" "key_counter c uid = int n" "int n < max_int64"
  shows "\<exists>c'. select_api_key True (memory_backend now) uid cfg (s, c, ds) = (Inr (key_in_turn cfg n), s, c', ds) \<and>
    key_counter c' uid = int (Suc n)"
proof -
  let ?active = "active_keys (keys_entries cfg)"
  have k: "?active \<noteq> []" "trim_space (keys_strategy cfg) = ''round_robin''"
    using assms(1) by (simp_all add: round_robin_def)
  then have e: "keys_entries cfg \<noteq> []" by (auto simp: active_keys_def)
  define d where "d = c\<lparr>key_counters := (key_counters c)(uid \<mapsto> \<lparr>next_key = wrap64 (int n + 1), last_used = now\<rparr>)\<rparr>"
  have w: "wrap64 (int n + 1) = int n + 1"
    using assms(4) by (intro wrap64_id) (simp add: in_int64_def min_int64_def max_int64_def)
  have incr: "incr_api_key_counter c uid now = (int n, True, maybe_sweep d now)"
    using assms(3) by (simp add: incr_api_key_counter_def key_counter_def d_def Let_def)
  have idx: "nat (int n mod 18446744073709551616) = n"
    using assms(4) by (simp add: max_int64_def)
  have "key_counters (maybe_sweep d now) uid = key_counters d uid"
    using maybe_sweep_cases [of d now]
    by (auto simp: sweep_maps keep_entries_def d_def key_counter_retention_def)
  then have "key_counter (maybe_sweep d now) uid = int (Suc n)"
    by (simp add: key_counter_def d_def w)
  moreover have "n mod length ?active < length ?active" using k(1) by simp
  then have "select_api_key True (memory_backend now) uid cfg (s, c, ds) =
      (Inr (key_in_turn cfg n), s, maybe_sweep d now, ds)"
    using k e assms(2) idx
    by (simp add: select_api_key_def pick_active_key_def next_api_key_index_def memory_backend_def incr
        key_in_turn_def element_at_def Let_def)
  ultimately show ?thesis by blast
qed

text \<open>Keys taken one after the other, at the given clock readings.\<close>

fun select_run ::
  "time list \<Rightarrow> nat \<Rightarrow> api_keys_config \<Rightarrow> channel_service \<times> cache \<times> nat list \<Rightarrow> (key_error + string) list" where
  "select_run [] uid cfg st = []"
| "select_run (t # ts) uid cfg st =
     (let (r, st') = select_api_key True (memory_backend t) uid cfg st in r # select_run ts uid cfg st')"

text \<open>
  Round robin. From a counter at n, consecutive selections for an upstream take its active keys
  in turn, starting with the key at n modulo their number, whatever the clock readings and the sweeps
  the calls run.
\<close>

theorem keys_taken_in_turn:
  assumes "round_robin cfg" "uid \<noteq> 0" "key_counter c uid = int n" "int (n + length ts) \<le> max_int64"
  shows "select_run ts uid cfg (s, c, ds) =
    map (\<lambda>j. Inr (key_secret (active_keys (keys_entries cfg) ! (j mod length (active_keys (keys_entries cfg))))))
      [n ..< n + length ts]"
  using assms(3,4)
proof (induction ts arbitrary: c n)
  case (Cons t ts)
  obtain c' where c': "select_api_key True (memory_backend t) uid cfg (s, c, ds) = (Inr (key_in_turn cfg n), s, c', ds)"
    "key_counter c' uid = int (Suc n)"
    using select_round_robin [OF assms(1,2) Cons.prems(1)] Cons.prems(2) by fastforce
  have "[n ..< n + length (t # ts)] = n # [Suc n ..< Suc n + length ts]" by (subst upt_conv_Cons) simp_all
  then show ?case
    using c' Cons.IH [OF c'(2)] Cons.prems(2) by (simp add: key_in_turn_def)
qed simp

text \<open>The same turns are consumed by the rows of a priority group that share an upstream.\<close>

definition row_of :: "nat \<Rightarrow> api_keys_config \<Rightarrow> route_source \<Rightarrow> route_row \<Rightarrow> bool" where
  "row_of uid cfg src row \<longleftrightarrow>
     well_formed_row src row \<and> row_upstream_id row = uid \<and>
     parse_api_keys_config src (row_api_keys_enc row) = Some cfg"

lemma admit_round_robin:
  assumes "row_of uid cfg src row" "round_robin cfg" "uid \<noteq> 0" "has_cache src"
    and "\<not> memory.waiting now src (c, ds) row" "key_counter c uid = int n" "int n < max_int64"
  shows "\<exists>c'. admit_row src (memory_backend (int now)) row (s, c, ds) = (Admit (key_in_turn cfg n), s, c', ds) \<and>
    key_counter c' uid = int (Suc n)"
proof -
  have "route_rate_limit_backoff (has_cache src) (memory_backend (int now)) (row_upstream_id row) (row_route_id row) (c, ds)
      = (memory_wait (int now) (c, ds) (row_upstream_id row) (row_route_id row), c, ds)"
    using assms(4)
    by (simp add: route_rate_limit_backoff_def memory_backend_def memory_wait_def get_rate_limit_backoff_def)
  moreover have "\<not> 0 < memory_wait (int now) (c, ds) (row_upstream_id row) (row_route_id row)"
    using assms(4,5) by (auto simp: memory.waiting_def memory_wait_def get_rate_limit_backoff_def)
  ultimately show ?thesis
    using assms(1,4) select_round_robin [OF assms(2,3,6,7), of "int now" s ds]
    by (auto simp: admit_row_def row_of_def)
qed

lemma gather_round_robin:
  assumes "\<forall>row \<in> set rows. row_of uid cfg src row \<and> \<not> memory.waiting now src (c, ds) row"
    and "round_robin cfg" "uid \<noteq> 0" "has_cache src"
    and "key_counter c uid = int n" "int (n + length rows) \<le> max_int64"
  shows "\<exists>c'. gather_group src (memory_backend (int now)) rows cands short (s, c, ds) =
      (Inr (cands @ map (\<lambda>(row, j). \<lparr>cand_row = row, cand_api_key = key_in_turn cfg j\<rparr>) (zip rows [n ..< n + length rows]), short),
       s, c', ds) \<and>
    key_counter c' uid = int (n + length rows)"
  using assms(1,5,6)
proof (induction rows arbitrary: c cands n)
  case (Cons row rows)
  obtain c' where c': "admit_row src (memory_backend (int now)) row (s, c, ds) = (Admit (key_in_turn cfg n), s, c', ds)"
    "key_counter c' uid = int (Suc n)"
    using admit_round_robin [of uid cfg src row now c ds n s] assms(2-4) Cons.prems by fastforce
  have "memory.same now (c, ds) (c', ds)" using memory.admit_row_spec [OF c'(1)] by blast
  then have "\<forall>r \<in> set rows. row_of uid cfg src r \<and> \<not> memory.waiting now src (c', ds) r"
    using Cons.prems(1) by (simp add: memory.waiting_def memory.same_def)
  from Cons.IH [OF this c'(2)] Cons.prems(3)
  obtain c'' where "gather_group src (memory_backend (int now)) rows (cands @ [\<lparr>cand_row = row, cand_api_key = key_in_turn cfg n\<rparr>]) short (s, c', ds) =
      (Inr ((cands @ [\<lparr>cand_row = row, cand_api_key = key_in_turn cfg n\<rparr>]) @
        map (\<lambda>(row, j). \<lparr>cand_row = row, cand_api_key = key_in_turn cfg j\<rparr>) (zip rows [Suc n ..< Suc n + length rows]), short), s, c'', ds)"
    "key_counter c'' uid = int (Suc n + length rows)" by fastforce
  moreover have "[n ..< n + length (row # rows)] = n # [Suc n ..< Suc n + length rows]" by (subst upt_conv_Cons) simp_all
  ultimately show ?case using c'(1) by simp
qed simp

text \<open>
  The turns of a shared upstream. Every row of a priority group takes a key when the group is
  gathered, not only the row that is chosen. When as many rows as active keys share the upstream,
  each row therefore gets the same key in every request, and when one row is always chosen, its key
  is the only one used.
\<close>

theorem shared_upstream_pins_keys:
  assumes "\<forall>row \<in> set rows. row_of uid cfg src row \<and> \<not> memory.waiting now src (c, ds) row"
    and "round_robin cfg" "uid \<noteq> 0" "has_cache src"
    and "key_counter c uid = int n" "int (n + 2 * length rows) \<le> max_int64"
    and "length rows = length (active_keys (keys_entries cfg))"
  shows "\<exists>cands c' c''.
    gather_group src (memory_backend (int now)) rows [] 0 (s, c, ds) = (Inr (cands, 0), s, c', ds) \<and>
    gather_group src (memory_backend (int now)) rows [] 0 (s, c', ds) = (Inr (cands, 0), s, c'', ds) \<and>
    map cand_row cands = rows"
proof -
  let ?cands = "\<lambda>n. map (\<lambda>(row, j). \<lparr>cand_row = row, cand_api_key = key_in_turn cfg j\<rparr>) (zip rows [n ..< n + length rows])"
  obtain c' where c': "gather_group src (memory_backend (int now)) rows [] 0 (s, c, ds) = (Inr ([] @ ?cands n, 0), s, c', ds)"
    "key_counter c' uid = int (n + length rows)"
    using gather_round_robin [OF assms(1-5), of "[]" 0 s] assms(6) by fastforce
  have "memory.same now (c, ds) (c', ds)" using memory.gather_group_spec [OF c'(1)] by blast
  then have "\<forall>r \<in> set rows. row_of uid cfg src r \<and> \<not> memory.waiting now src (c', ds) r"
    using assms(1) by (simp add: memory.waiting_def memory.same_def)
  from gather_round_robin [OF this assms(2-4) c'(2), of "[]" 0 s] assms(6)
  obtain c'' where c'': "gather_group src (memory_backend (int now)) rows [] 0 (s, c', ds) = (Inr ([] @ ?cands (n + length rows), 0), s, c'', ds)"
    by fastforce
  have "(n + length rows + i) mod length rows = (n + i) mod length rows" for i
    by (metis add.assoc add.commute mod_add_self2)
  then have "?cands (n + length rows) = ?cands n"
    by (intro nth_equalityI) (auto simp: key_in_turn_def assms(7) [symmetric])
  moreover have "map cand_row (?cands n) = rows"
    by (rule nth_equalityI) auto
  ultimately show ?thesis using c'(1) c'' by auto
qed

section \<open>The properties at work\<close>

text \<open>Two routes of one model on two upstreams, with two keys taken in turn.\<close>

definition sample_row :: "nat \<Rightarrow> nat \<Rightarrow> int \<Rightarrow> int \<Rightarrow> route_row" where
  "sample_row rid uid prio weight =
    \<lparr>row_route_id = rid, row_upstream_model_id = 3, row_upstream_id = uid,
     row_upstream_name = [], row_platform_model_id = 0, row_platform_model_name = ''gpt'',
     row_model_vendor = [], row_model_icon = [], row_model_kinds_json = [],
     row_model_capabilities_json = [], row_model_system_prompt = [],
     row_protocol = adapter_xai_responses, row_base_url = ''https://api'',
     row_api_keys_enc = [], row_connect_timeout_ms = 0, row_read_timeout_ms = 0,
     row_stream_idle_timeout_ms = 0, row_headers_json = [], row_route_headers_json = [],
     row_binding_code = ''upm_1'', row_upstream_model_name = ''m'', row_weight = weight,
     row_route_priority = prio, row_upstream_cb_failure_threshold = 0,
     row_upstream_cb_model_threshold = 0, row_upstream_cb_threshold_logic = [],
     row_upstream_cb_duration_min = 0, row_upstream_cb_window_min = 0,
     row_platform_model_cb_policy_mode = [], row_platform_model_cb_failure_threshold = 0,
     row_platform_model_cb_duration_min = 0, row_platform_model_cb_window_min = 0,
     row_model_cb_failure_threshold = 0, row_model_cb_duration_min = 0,
     row_model_cb_window_min = 0\<rparr>"

definition sample_keys :: api_keys_config where
  "sample_keys = \<lparr>keys_strategy = ''round_robin'',
     keys_entries = [\<lparr>key_secret = ''k1'', key_status = [], key_note = []\<rparr>,
                     \<lparr>key_secret = ''k2'', key_status = ''active'', key_note = []\<rparr>]\<rparr>"

definition sample_source :: "route_row list \<Rightarrow> route_source" where
  "sample_source rows =
     \<lparr>get_active_model_by_name = (\<lambda>name. Inr \<lparr>pm_id = 1, pm_access_scope = ''public''\<rparr>),
      list_active_routes_by_model = (\<lambda>name. Inr rows),
      perm_groups = Some \<lparr>list_model_group_ids = (\<lambda>m. Inr [5]), list_user_group_ids = (\<lambda>u. Inr [5, 6]),
        list_default_group_ids = Inr [], user_subscription_group_id = None\<rparr>,
      json = \<lparr>string_list_of_json = (\<lambda>s. None), string_map_of_json = (\<lambda>s. None), json_of_string_map = (\<lambda>m. [])\<rparr>,
      valid_base_url = (\<lambda>u. True), parse_api_keys_config = (\<lambda>e. Some sample_keys),
      merge_headers = (\<lambda>a b. []), has_cache = True\<rparr>"

definition sample_input :: resolve_route_input where
  "sample_input = \<lparr>in_platform_model_name = '' gpt'', in_task_type = [], in_scope = ''user'', in_user_id = 9,
     in_excluded_route_ids = []\<rparr>"

definition sample_rows :: "route_row list" where
  "sample_rows = [sample_row 7 2 1 30, sample_row 8 4 2 70]"

definition enabled_defaults :: "(string + breaker_defaults) option" where
  "enabled_defaults = Some (Inr (default_breaker_defaults\<lparr>bd_enabled := True\<rparr>))"

lemma sample_resolves:
  "map_sum (\<lambda>e. e) rt_route_id (fst (resolve_route (sample_source sample_rows) (memory_backend (int 100))
      enabled_defaults 100 100 sample_input (new_channel_service, new_cache, [12]))) = Inr 7"
  by code_simp

abbreviation "sample_resolution \<equiv> resolve_route (sample_source sample_rows) (memory_backend (int 100))
  enabled_defaults 100 100 sample_input (new_channel_service, new_cache, [12])"

lemma sample_authorized: "authorize_model (sample_source rows) sample_input = Inr ''gpt''"
  by code_simp

lemma sample_route: "\<exists>rt st'. sample_resolution = (Inr rt, st') \<and> rt_route_id rt = 7"
  using sample_resolves by (cases "sample_resolution"; cases "fst sample_resolution") auto

theorem best_route_chosen_witness:
  "\<exists>row \<in> set (available_rows (sample_source sample_rows) sample_input sample_rows).
     route_usable (sample_source sample_rows) True 100 new_cache row \<and> row_route_id row = 7 \<and>
     (\<forall>row' \<in> set (available_rows (sample_source sample_rows) sample_input sample_rows).
        route_usable (sample_source sample_rows) True 100 new_cache row' \<longrightarrow>
        row_route_priority row \<le> row_route_priority row')"
proof -
  obtain rt st' where r: "sample_resolution = (Inr rt, st')" "rt_route_id rt = 7" using sample_route by blast
  have en: "True = (has_cache (sample_source sample_rows) \<and>
      bd_enabled (fst (load_breaker_defaults enabled_defaults 100 100 new_channel_service)))" by code_simp
  have "list_active_routes_by_model (sample_source sample_rows) ''gpt'' = Inr sample_rows" "sample_rows \<noteq> []"
    "sorted (map row_route_priority sample_rows)" "one_binding sample_rows"
    by (simp_all add: sample_source_def sample_rows_def sample_row_def one_binding_def)
  from best_route_chosen [OF r(1) sample_authorized this en] r(2) show ?thesis
    using built_from_row by fastforce
qed

theorem no_route_without_access_witness:
  "\<exists>rt st'. sample_resolution = (Inr rt, st') \<and>
     (\<exists>model. get_active_model_by_name (sample_source sample_rows) ''gpt'' = Inr model \<and>
        normalize_model_access_scope_value (pm_access_scope model) = ''public'')"
proof -
  obtain rt st' where r: "sample_resolution = (Inr rt, st')" using sample_route by blast
  have "fold_text (in_scope sample_input) \<noteq> ''internal''"
    "normalize_platform_model_name (in_platform_model_name sample_input) = Some ''gpt''" by code_simp+
  with no_route_without_access [OF r] have "\<exists>model. get_active_model_by_name (sample_source sample_rows) ''gpt'' = Inr model \<and>
      normalize_model_access_scope_value (pm_access_scope model) = ''public''" by auto
  with r show ?thesis by blast
qed

theorem weighted_draw_exact_witness:
  "let cands = [\<lparr>cand_row = sample_row 7 2 1 30, cand_api_key = ''k1''\<rparr>, \<lparr>cand_row = sample_row 8 4 1 0, cand_api_key = ''k1''\<rparr>]
   in card {d. d < 130 \<and> fst (weighted_random_candidate (memory_backend 1 \<lparr>rb_intn := (\<lambda>n c. (d, c))\<rparr>) cands (new_cache, [])) = 1} = 100"
proof -
  let ?cands = "[\<lparr>cand_row = sample_row 7 2 1 30, cand_api_key = ''k1''\<rparr>, \<lparr>cand_row = sample_row 8 4 1 0, cand_api_key = ''k1''\<rparr>]"
  have "weight_sum ?cands = 130" "candidate_weight (?cands ! 1) = 100"
    by (simp_all add: weight_sum_def candidate_weight_def sample_row_def)
  then show ?thesis
    using weighted_draw_exact [of ?cands 1 "memory_backend 1" "(new_cache, [])"]
    by (simp add: max_int64_def del: weight_sum_Cons)
qed

definition probing_cache :: cache where
  "probing_cache = new_cache\<lparr>upstream_cb := [2 \<mapsto> zero_circuit\<lparr>open_until := 90\<rparr>]\<rparr>"

abbreviation "probing_resolution \<equiv> resolve_route (sample_source sample_rows) (logged (memory_backend 100))
  enabled_defaults 100 100 sample_input (new_channel_service, (probing_cache, [12]), [])"

lemma probing_resolves:
  "case probing_resolution of (r, _, _, held) \<Rightarrow>
     (case r of Inl _ \<Rightarrow> False | Inr rt \<Rightarrow> rt_upstream_probe_granted rt \<and> held = [(2, None)])"
  by code_simp

theorem no_probe_leaks_witness:
  "\<exists>rt s' c'. probing_resolution = (Inr rt, s', c', [(2, None)]) \<and>
     snd (mark_route_success True (logged (memory_backend 100)) (Some rt) (c', [(2, None)])) = []"
proof -
  obtain r s' c' held where x: "probing_resolution = (r, s', c', held)" by (metis prod_cases4)
  then have r: "\<exists>rt. r = Inr rt" "held = [(2, None)]"
    using probing_resolves by (simp_all split: sum.splits)
  have name: "normalize_platform_model_name (in_platform_model_name sample_input) = Some ''gpt''" by code_simp
  have "has_cache (sample_source sample_rows)" "\<forall>rows. list_active_routes_by_model (sample_source sample_rows) ''gpt'' = Inr rows \<longrightarrow>
      (\<forall>row \<in> set rows. row_upstream_id row \<noteq> 0)"
    by (simp_all add: sample_source_def sample_rows_def sample_row_def)
  note leak = no_probe_leaks [OF x this name]
  obtain rt where rt: "r = Inr rt" using r(1) by blast
  have cached: "has_cache (sample_source sample_rows) = True" by (simp add: sample_source_def)
  have "snd (mark_route_success True (logged (memory_backend 100)) (Some rt) (c', [(2, None)])) = []"
    using leak [unfolded rt r(2) sum.case cached] by blast
  with x show ?thesis unfolding rt r(2) by blast
qed

theorem accepted_request_stays_witness:
  "\<not> should_failover_route (Some (WrappedError ''stream'' [IoEOF, AcceptedRequestError [UpstreamError 503 None []]]))"
proof (rule accepted_request_stays)
  show "mark_request_accepted (Some (UpstreamError 503 None [])) = Some (AcceptedRequestError [UpstreamError 503 None []])"
    by (simp add: mark_request_accepted_def request_was_accepted_def)
  show "AcceptedRequestError [UpstreamError 503 None []] \<in>
      set (error_tree (WrappedError ''stream'' [IoEOF, AcceptedRequestError [UpstreamError 503 None []]]))"
    by simp
qed

definition sample_outcome :: outcome_source where
  "sample_outcome = \<lparr>os_rules = \<lparr>circuit_errors = [], rate_limit_errors = [], ignore_errors = []\<rparr>,
     os_rate_limits = \<lparr>rl_backoff_base_sec = 0, rl_backoff_max_sec = 0, rl_backoff_multiplier = 0\<rparr>,
     os_binding_codes = (\<lambda>u. Inr []), os_parse_http_time = (\<lambda>s. None)\<rparr>"

theorem accepted_duration_never_opens_witness:
  "let d = default_breaker_defaults\<lparr>bd_enabled := True, bd_model_duration_min := 153722868\<rparr>;
       rt = build_resolved_route (sample_source []) (sample_row 7 2 1 30) ''k1'';
       key = route_model_circuit_key rt;
       c = new_cache\<lparr>model_cb := [model_circuit_key 2 key \<mapsto> zero_circuit\<lparr>failures := [7, 8, 9, 10]\<rparr>]\<rparr>
   in valid_breaker_defaults d \<and>
      fst (check_model_circuit_state (record_circuit_failure c (circuit_failure_of sample_outcome rt d) 20) 2 key 20) \<noteq> Open"
proof -
  let ?d = "default_breaker_defaults\<lparr>bd_enabled := True, bd_model_duration_min := 153722868\<rparr>"
  let ?rt = "build_resolved_route (sample_source []) (sample_row 7 2 1 30) ''k1''"
  let ?key = "route_model_circuit_key ?rt"
  let ?c = "new_cache\<lparr>model_cb := [model_circuit_key 2 ?key \<mapsto> zero_circuit\<lparr>failures := [7, 8, 9, 10]\<rparr>]\<rparr>"
  have rt: "rt_upstream_id ?rt = 2" "rt_model_cb_duration_min ?rt \<le> 0" "rt_platform_model_cb_duration_min ?rt \<le> 0"
    "rt_upstream_id ?rt \<noteq> 0"
    by (simp_all add: build_resolved_route_def sample_row_def)
  have "trim_space (rt_binding_code ?rt) \<noteq> []" by code_simp
  moreover have "should_trip (record_failure (ensure_model_circuit ?c (rt_upstream_id ?rt) ?key) 20
        (seconds (cf_model_window_sec (circuit_failure_of sample_outcome ?rt ?d))))
      (cf_model_failure_threshold (circuit_failure_of sample_outcome ?rt ?d))"
    by code_simp
  ultimately have "valid_breaker_defaults ?d \<and>
      fst (check_model_circuit_state (record_circuit_failure ?c (circuit_failure_of sample_outcome ?rt ?d) 20)
        (rt_upstream_id ?rt) ?key 20) \<noteq> Open"
    by (intro accepted_duration_never_opens [OF _ _ refl rt(2,3) _ rt(4)]) simp_all
  then show ?thesis unfolding Let_def rt(1) .
qed

theorem keys_taken_in_turn_witness:
  "select_run [10, 20, 30] 2 sample_keys (new_channel_service, new_cache, []) = [Inr ''k1'', Inr ''k2'', Inr ''k1'']"
proof -
  have rr: "round_robin sample_keys" by code_simp
  have active: "active_keys (keys_entries sample_keys) = keys_entries sample_keys" by code_simp
  have "[0 ..< (0::nat) + length [10::int, 20, 30]] = [0, 1, 2]" by (simp add: upt_rec)
  then show ?thesis
    using keys_taken_in_turn [OF rr, of 2 new_cache 0 "[10, 20, 30]" new_channel_service "[]"] active
    by (simp add: key_counter_def new_cache_def max_int64_def sample_keys_def)
qed

theorem shared_upstream_pins_keys_witness:
  "let rows = [sample_row 7 2 1 30, sample_row 8 2 1 70]
   in \<exists>cands c' c''.
     gather_group (sample_source rows) (memory_backend (int 100)) rows [] 0 (new_channel_service, new_cache, []) =
       (Inr (cands, 0), new_channel_service, c', []) \<and>
     gather_group (sample_source rows) (memory_backend (int 100)) rows [] 0 (new_channel_service, c', []) =
       (Inr (cands, 0), new_channel_service, c'', []) \<and> map cand_row cands = rows"
proof -
  let ?rows = "[sample_row 7 2 1 30, sample_row 8 2 1 70]"
  have "well_formed_row (sample_source ?rows) (sample_row 7 2 1 30)" "well_formed_row (sample_source ?rows) (sample_row 8 2 1 70)"
    by code_simp+
  moreover have "row_upstream_id (sample_row i u p w) = u" for i u p w by (simp add: sample_row_def)
  ultimately have owned: "\<forall>row \<in> set ?rows. row_of 2 sample_keys (sample_source ?rows) row"
    unfolding row_of_def by (simp add: sample_source_def)
  have waits: "\<not> memory.waiting n src (new_cache, []) row" for n src row
    by (simp add: memory.waiting_def memory_wait_def get_rate_limit_backoff_def remaining_backoff_def rate_limit_of_def
        zero_rate_limit_def zero_time_def time_sub_nonpos new_cache_def Let_def)
  have rows: "\<forall>row \<in> set ?rows. row_of 2 sample_keys (sample_source ?rows) row \<and>
      \<not> memory.waiting 100 (sample_source ?rows) (new_cache, []) row"
    using owned waits by blast
  have rr: "round_robin sample_keys" "active_keys (keys_entries sample_keys) = keys_entries sample_keys" by code_simp+
  have two: "length (keys_entries sample_keys) = 2" by (simp add: sample_keys_def)
  have "has_cache (sample_source ?rows)" "key_counter new_cache 2 = int 0" "int (0 + 2 * length ?rows) \<le> max_int64"
    "length ?rows = length (active_keys (keys_entries sample_keys))"
    unfolding rr(2) two by (simp_all add: sample_source_def key_counter_def new_cache_def max_int64_def)
  from shared_upstream_pins_keys [OF rows rr(1) _ this] show ?thesis unfolding Let_def by simp
qed

end
