(* ===== verification/Tables.thy ===== *)
theory Tables
  imports Prelude
begin

text \<open>
  What the repositories use of GORM: a table is the list of its rows in the order of their ids, with the
  next id; \<open>First\<close> takes the lowest id. Shared by the billing tables and the tables of conversations.
\<close>

section \<open>Tables\<close>

record 'r table =
  table_rows :: "'r list"
  table_next :: nat

definition empty_table :: "'r table" where
  "empty_table = \<lparr>table_rows = [], table_next = 1\<rparr>"

definition create_row :: "(nat \<Rightarrow> 'r) \<Rightarrow> 'r table \<Rightarrow> 'r \<times> 'r table" where
  "create_row mk t =
     (mk (table_next t), t\<lparr>table_rows := table_rows t @ [mk (table_next t)], table_next := table_next t + 1\<rparr>)"

definition first_row :: "('r \<Rightarrow> bool) \<Rightarrow> 'r table \<Rightarrow> 'r option" where
  "first_row P t = List.find P (table_rows t)"

definition update_rows :: "('r \<Rightarrow> bool) \<Rightarrow> ('r \<Rightarrow> 'r) \<Rightarrow> 'r table \<Rightarrow> 'r table" where
  "update_rows P f t = t\<lparr>table_rows := map (\<lambda>r. if P r then f r else r) (table_rows t)\<rparr>"

text \<open>\<open>COALESCE(SUM(column), 0)\<close> over the selected rows.\<close>

definition sum_rows :: "('r \<Rightarrow> bool) \<Rightarrow> ('r \<Rightarrow> int) \<Rightarrow> 'r table \<Rightarrow> int" where
  "sum_rows P column t = sum_list (map column (filter P (table_rows t)))"

definition count_rows :: "('r \<Rightarrow> bool) \<Rightarrow> 'r table \<Rightarrow> int" where
  "count_rows P t = int (length (filter P (table_rows t)))"

section \<open>Tables with ids\<close>

text \<open>Ids are unique and below the next one; the primary key of a table with auto-increment.\<close>

definition keyed :: "('r \<Rightarrow> nat) \<Rightarrow> 'r table \<Rightarrow> bool" where
  "keyed key t \<longleftrightarrow> distinct (map key (table_rows t)) \<and> (\<forall>k \<in> set (map key (table_rows t)). k < table_next t)"

lemma keyed_empty [simp]: "keyed key empty_table"
  by (simp add: keyed_def empty_table_def)

lemma keyed_create: "keyed key t \<Longrightarrow> (\<And>i. key (mk i) = i) \<Longrightarrow> keyed key (snd (create_row mk t))"
  by (auto simp: keyed_def create_row_def)

lemma update_rows_keys:
  assumes "\<And>r. key (f r) = key r"
  shows "map key (table_rows (update_rows P f t)) = map key (table_rows t)"
    "key ` set (table_rows (update_rows P f t)) = key ` set (table_rows t)"
proof -
  show eq: "map key (table_rows (update_rows P f t)) = map key (table_rows t)"
    using assms by (simp add: update_rows_def)
  show "key ` set (table_rows (update_rows P f t)) = key ` set (table_rows t)"
    using arg_cong [OF eq, of set] by simp
qed

lemma keyed_update:
  assumes "keyed key t" "\<And>r. key (f r) = key r"
  shows "keyed key (update_rows P f t)"
  using assms(1) update_rows_keys(1) [of key f, OF assms(2)] by (simp only: keyed_def) (simp add: update_rows_def)

lemma find_in: "List.find P xs = Some x \<Longrightarrow> x \<in> set xs \<and> P x"
  by (auto simp: find_Some_iff)

lemma first_row_in: "first_row P t = Some r \<Longrightarrow> r \<in> set (table_rows t) \<and> P r"
  by (auto simp: first_row_def find_Some_iff)

lemma first_row_distinct:
  assumes "distinct (map key (table_rows t))" "r \<in> set (table_rows t)"
  shows "first_row (\<lambda>x. key x = key r) t = Some r"
proof -
  obtain pre post where rows: "table_rows t = pre @ r # post" using split_list [OF assms(2)] by blast
  then have "key r \<notin> key ` set pre" using assms(1) by auto
  then have "\<forall>x \<in> set pre. key x \<noteq> key r" by (metis imageI)
  then have "List.find (\<lambda>x. key x = key r) (pre @ r # post) = Some r" by (induction pre) auto
  then show ?thesis by (simp add: first_row_def rows)
qed

lemma first_row_key: "keyed key t \<Longrightarrow> r \<in> set (table_rows t) \<Longrightarrow> first_row (\<lambda>x. key x = key r) t = Some r"
  by (rule first_row_distinct) (simp_all add: keyed_def)

lemma first_row_None: "first_row P t = None \<longleftrightarrow> (\<forall>r \<in> set (table_rows t). \<not> P r)"
  by (auto simp: first_row_def find_None_iff)

lemma find_snoc: "List.find P (xs @ [a]) = (case List.find P xs of None \<Rightarrow> if P a then Some a else None | Some x \<Rightarrow> Some x)"
  by (induction xs) auto

lemma sum_rows_simps:
  "sum_rows P f (snd (create_row mk t)) = sum_rows P f t + (if P (mk (table_next t)) then f (mk (table_next t)) else 0)"
  "count_rows P (snd (create_row mk t)) = count_rows P t + (if P (mk (table_next t)) then 1 else 0)"
  by (simp_all add: sum_rows_def count_rows_def create_row_def)

lemma count_rows_nonneg [simp]: "0 \<le> count_rows P t"
  by (simp add: count_rows_def)

end
