(* ===== verification/Billing_Db.thy ===== *)
theory Billing_Db
  imports Tables
begin

text \<open>
  The billing tables (infra/persistence/models/billing.go) and what the repository uses of GORM. A
  transaction that returns an error leaves the database as it was. The statements of one
  transaction run without interference: the repository locks the account, order, code or
  subscription rows it works on, and each method is one step. A statement fails only where the model
  says so (unique index, 64-bit range); lost connections are not modelled. The columns created_at
  and updated_at, the descriptions of transactions and plans, the currency codes of an order and the
  JSON copy of a code in a redemption are left out: nothing here reads them. A row with a
  deleted_at is invisible to every query and is not a row here; no operation modelled deletes one.
\<close>

section \<open>Rows\<close>

record billing_account =
  ba_id :: nat
  ba_user_id :: nat
  ba_currency :: string
  ba_balance_nanousd :: int
  ba_status :: string

record balance_transaction =
  bt_id :: nat
  bt_account_id :: nat
  bt_user_id :: nat
  bt_type :: string
  bt_amount_nanousd :: int
  bt_balance_after_nanousd :: int
  bt_ref_type :: string
  bt_ref_id :: nat
  bt_ref_no :: string

datatype reservation_status = ReservationActive | ReservationSettled | ReservationReleased | ReservationReconciliation

record usage_reservation =
  ur_id :: nat
  ur_user_id :: nat
  ur_ref_no :: string
  ur_mode :: string
  ur_balance_nanousd :: int
  ur_period_credit_nanousd :: int
  ur_period_limit_nanousd :: int
  ur_period_start_at :: "time option"
  ur_period_end_at :: "time option"
  ur_status :: reservation_status
  ur_usage_ledger_id :: nat
  ur_expires_at :: time
  ur_settled_at :: "time option"
  ur_released_at :: "time option"
  ur_reconciliation_at :: "time option"
  ur_failure_code :: string

text \<open>
  A pricing snapshot is a JSON object: an opaque text, and the entries a period settlement sets in it.
\<close>

record pricing_snapshot =
  snapshot_text :: string
  snapshot_settlement :: "(string \<times> int) list"

record usage_ledger =
  ul_id :: nat
  ul_user_id :: nat
  ul_ref_no :: string
  ul_conversation_id :: nat
  ul_provider_protocol :: string
  ul_upstream_name :: string
  ul_platform_model_name :: string
  ul_routed_binding_code :: string
  ul_upstream_model_name :: string
  ul_is_free_model :: bool
  ul_billing_at :: time
  ul_usage_date :: time
  ul_input_tokens :: int
  ul_cache_read_tokens :: int
  ul_cache_write_tokens :: int
  ul_cache_write_5m_tokens :: int
  ul_cache_write_1h_tokens :: int
  ul_output_tokens :: int
  ul_reasoning_tokens :: int
  ul_call_count :: int
  ul_duration_seconds :: int
  ul_latency_ms :: int
  ul_usage_speed :: string
  ul_service_tier :: string
  ul_billed_currency :: string
  ul_billed_nanousd :: int
  ul_balance_after_nanousd :: "int option"
  ul_pricing_snapshot_json :: pricing_snapshot

record subscription_row =
  sub_id :: nat
  sub_user_id :: nat
  sub_plan_id :: nat
  sub_price_id :: nat
  sub_status :: string
  sub_start_at :: time
  sub_period_start_at :: time
  sub_period_end_at :: "time option"
  sub_cancel_at_period_end :: bool
  sub_canceled_at :: "time option"
  sub_auto_renew :: bool

record billing_plan =
  plan_id :: nat
  plan_code :: string
  plan_period_credit_nanousd :: int
  plan_sort_order :: int
  plan_is_active :: bool
  plan_permission_group_id :: "nat option"

record billing_price =
  price_id :: nat
  price_plan_id :: nat
  price_amount_cents :: int
  price_is_active :: bool
  price_is_default :: bool

record payment_order =
  po_id :: nat
  po_order_no :: string
  po_order_type :: string
  po_user_id :: nat
  po_plan_id :: nat
  po_price_id :: nat
  po_provider :: string
  po_status :: string
  po_base_amount_cents :: int
  po_pay_amount_cents :: int
  po_fx_rate :: string
  po_credit_nanousd :: int
  po_billing_interval :: string
  po_cycles :: int
  po_external_payment_id :: string
  po_external_checkout_id :: string
  po_checkout_url :: string
  po_snapshot_json :: string
  po_paid_at :: "time option"
  po_expired_at :: "time option"

record redemption_code =
  rc_id :: nat
  rc_code_hash :: string
  rc_code_encrypted :: string
  rc_code_hint :: string
  rc_mode :: string
  rc_reward_type :: string
  rc_credit_nanousd :: int
  rc_plan_id :: nat
  rc_duration_days :: int
  rc_max_redemptions :: "int option"
  rc_per_user_limit :: int
  rc_redeemed_count :: int
  rc_status :: string
  rc_expires_at :: "time option"
  rc_description :: string
  rc_created_by_user_id :: nat

record redemption =
  rd_id :: nat
  rd_code_id :: nat
  rd_user_id :: nat
  rd_mode :: string
  rd_reward_type :: string
  rd_credit_nanousd :: int
  rd_plan_id :: nat
  rd_subscription_id :: nat
  rd_balance_transaction_id :: nat
  rd_ref_no :: string

record billing_db =
  db_accounts :: "billing_account table"
  db_transactions :: "balance_transaction table"
  db_reservations :: "usage_reservation table"
  db_ledgers :: "usage_ledger table"
  db_subscriptions :: "subscription_row table"
  db_plans :: "billing_plan table"
  db_prices :: "billing_price table"
  db_orders :: "payment_order table"
  db_codes :: "redemption_code table"
  db_redemptions :: "redemption table"

definition empty_db :: billing_db where
  "empty_db =
     \<lparr>db_accounts = empty_table, db_transactions = empty_table, db_reservations = empty_table,
      db_ledgers = empty_table, db_subscriptions = empty_table, db_plans = empty_table,
      db_prices = empty_table, db_orders = empty_table, db_codes = empty_table,
      db_redemptions = empty_table\<rparr>"

section \<open>Errors and transactions\<close>

datatype billing_error =
    ErrInvalidInput | ErrConflict | ErrNotFound | ErrDuplicate | ErrInsufficientBalance
  | ErrUsageReservationLimitExceeded | ErrRedemptionUnavailable | ErrRedemptionExhausted
  | ErrRedemptionUserLimitExceeded | ErrOutOfRange

type_synonym 'a tx_result = "(billing_error + 'a) \<times> billing_db"

definition transaction :: "(billing_db \<Rightarrow> 'a tx_result) \<Rightarrow> billing_db \<Rightarrow> 'a tx_result" where
  "transaction body db = (case body db of (Inl e, _) \<Rightarrow> (Inl e, db) | (Inr a, db') \<Rightarrow> (Inr a, db'))"

text \<open>\<open>getOrCreateBillingAccountForUpdate\<close>: the account row, created empty on first use and locked.\<close>

definition get_or_create_account_for_update :: "nat \<Rightarrow> billing_db \<Rightarrow> billing_account tx_result" where
  "get_or_create_account_for_update user_id db =
     (if user_id = 0 then (Inl ErrInvalidInput, db)
      else case first_row (\<lambda>a. ba_user_id a = user_id) (db_accounts db) of
        Some account \<Rightarrow> (Inr account, db)
      | None \<Rightarrow>
          let (account, t) = create_row (\<lambda>i. \<lparr>ba_id = i, ba_user_id = user_id, ba_currency = ''USD'',
                ba_balance_nanousd = 0, ba_status = ''active''\<rparr>) (db_accounts db)
          in (Inr account, db\<lparr>db_accounts := t\<rparr>))"

text \<open>
  The update of an account's balance by an expression, \<open>balance_nanousd + ?\<close>: the database computes in
  bigint and refuses a result out of range.
\<close>

definition add_to_balance :: "billing_account \<Rightarrow> int \<Rightarrow> billing_db \<Rightarrow> unit tx_result" where
  "add_to_balance account delta db =
     (case first_row (\<lambda>a. ba_id a = ba_id account) (db_accounts db) of
        None \<Rightarrow> (Inr (), db)
      | Some a \<Rightarrow>
          if \<not> in_int64 (ba_balance_nanousd a + delta) then (Inl ErrOutOfRange, db)
          else (Inr (), db\<lparr>db_accounts := update_rows (\<lambda>a. ba_id a = ba_id account)
            (\<lambda>a. a\<lparr>ba_balance_nanousd := ba_balance_nanousd a + delta, ba_currency := ''USD'',
                   ba_status := ''active''\<rparr>) (db_accounts db)\<rparr>))"

definition add_transaction ::
  "nat \<Rightarrow> nat \<Rightarrow> string \<Rightarrow> int \<Rightarrow> int \<Rightarrow> string \<Rightarrow> nat \<Rightarrow> string \<Rightarrow> billing_db \<Rightarrow> nat \<times> billing_db" where
  "add_transaction account_id user_id typ amount balance_after ref_type ref_id ref_no db =
     (let (tx, t) = create_row (\<lambda>i. \<lparr>bt_id = i, bt_account_id = account_id, bt_user_id = user_id, bt_type = typ,
            bt_amount_nanousd = amount, bt_balance_after_nanousd = balance_after, bt_ref_type = ref_type,
            bt_ref_id = ref_id, bt_ref_no = ref_no\<rparr>) (db_transactions db)
      in (bt_id tx, db\<lparr>db_transactions := t\<rparr>))"

lemma transaction_cases:
  assumes "transaction body db = (res, db')"
  obtains (failed) e where "res = Inl e" "db' = db" | (committed) a where "res = Inr a" "body db = (Inr a, db')"
  using assms by (auto simp: transaction_def split: prod.splits sum.splits)

end
