(* ===== verification/Timeline.thy ===== *)
theory Timeline
  imports Prelude "HOL-Library.Product_Lexorder" "HOL-Library.Multiset"
begin

text \<open>
  The timeline of a user's subscriptions (infra/persistence/postgres/billing/repository.go): periods
  of plans of different rank that must not overlap. A grant is laid out from its start around the
  periods of its own or a higher rank; what it takes from a lower rank is granted again behind it.
  Times are nanoseconds without bound; only \<open>Sub\<close> saturates, as in Go. The loops end for every
  input: one grant passes each blocking period at most once, and what it displaces is of lower rank.
\<close>

record subscription_segment =
  seg_subscription_id :: nat
  seg_plan_id :: nat
  seg_price_id :: nat
  seg_rank :: int
  seg_start_at :: time
  seg_end_at :: time
  seg_cancel_at_period_end :: bool
  seg_auto_renew :: bool
  seg_new_grant :: bool

record subscription_grant =
  gr_subscription_id :: nat
  gr_plan_id :: nat
  gr_price_id :: nat
  gr_rank :: int
  gr_start_at :: time
  gr_duration :: duration
  gr_cancel_at_period_end :: bool
  gr_auto_renew :: bool
  gr_new_grant :: bool

datatype timeline_error = TimelineInvalidInput

section \<open>Normalisation\<close>

definition valid_segment :: "subscription_segment \<Rightarrow> bool" where
  "valid_segment item \<longleftrightarrow>
     \<not> (seg_plan_id item = 0 \<or> seg_price_id item = 0 \<or> \<not> seg_start_at item < seg_end_at item)"

text \<open>The comparison given to \<open>sort.SliceStable\<close>, and the key it orders by.\<close>

definition segment_less :: "subscription_segment \<Rightarrow> subscription_segment \<Rightarrow> bool" where
  "segment_less a b \<longleftrightarrow>
     (if seg_start_at a = seg_start_at b then
        if seg_rank a = seg_rank b then
          if seg_end_at a = seg_end_at b then seg_plan_id a < seg_plan_id b
          else seg_end_at a < seg_end_at b
        else seg_rank b < seg_rank a
      else seg_start_at a < seg_start_at b)"

definition segment_key :: "subscription_segment \<Rightarrow> time \<times> int \<times> time \<times> nat" where
  "segment_key s = (seg_start_at s, - seg_rank s, seg_end_at s, seg_plan_id s)"

lemma segment_less_key: "segment_less a b \<longleftrightarrow> segment_key a < segment_key b"
  by (auto simp: segment_less_def segment_key_def less_prod_simp)

definition mergeable :: "subscription_segment \<Rightarrow> subscription_segment \<Rightarrow> bool" where
  "mergeable lst item \<longleftrightarrow>
     seg_plan_id lst = seg_plan_id item \<and>
     seg_price_id lst = seg_price_id item \<and>
     seg_rank lst = seg_rank item \<and>
     seg_subscription_id lst = seg_subscription_id item \<and>
     seg_cancel_at_period_end lst = seg_cancel_at_period_end item \<and>
     seg_auto_renew lst = seg_auto_renew item \<and>
     seg_new_grant lst = seg_new_grant item \<and>
     \<not> seg_end_at lst < seg_start_at item"

fun merge_loop :: "subscription_segment list \<Rightarrow> subscription_segment list \<Rightarrow> subscription_segment list" where
  "merge_loop [] merged = merged"
| "merge_loop (item # items) merged =
     (if merged \<noteq> [] \<and> mergeable (last merged) item
      then merge_loop items
        (if seg_end_at (last merged) < seg_end_at item
         then butlast merged @ [(last merged)\<lparr>seg_end_at := seg_end_at item\<rparr>] else merged)
      else merge_loop items (merged @ [item]))"

definition normalize_timeline :: "subscription_segment list \<Rightarrow> subscription_segment list" where
  "normalize_timeline segments = merge_loop (sort_key segment_key (filter valid_segment segments)) []"

section \<open>Placing a grant\<close>

definition timeline_overlaps :: "subscription_segment \<Rightarrow> subscription_segment \<Rightarrow> bool" where
  "timeline_overlaps a b \<longleftrightarrow> seg_start_at a < seg_end_at b \<and> seg_start_at b < seg_end_at a"

fun next_blocker ::
  "subscription_segment list \<Rightarrow> int \<Rightarrow> time \<Rightarrow> subscription_segment option \<Rightarrow> subscription_segment option"
  where
  "next_blocker [] rnk cursor result = result"
| "next_blocker (item # items) rnk cursor result =
     (if seg_rank item < rnk \<or> \<not> cursor < seg_end_at item then next_blocker items rnk cursor result
      else case result of
        None \<Rightarrow> next_blocker items rnk cursor (Some item)
      | Some r \<Rightarrow>
          if seg_start_at item < seg_start_at r \<or>
             (seg_start_at item = seg_start_at r \<and> seg_end_at item < seg_end_at r)
          then next_blocker items rnk cursor (Some item)
          else next_blocker items rnk cursor result)"

text \<open>What is left of one period, and what is granted again, when \<open>allocated\<close> takes its place.\<close>

definition cut_segment ::
  "subscription_segment \<Rightarrow> subscription_segment \<Rightarrow> subscription_segment list \<times> subscription_grant list"
  where
  "cut_segment allocated item =
     (if \<not> timeline_overlaps item allocated \<or> seg_rank allocated \<le> seg_rank item then ([item], [])
      else
        let overlap_start = max (seg_start_at item) (seg_start_at allocated);
            overlap_end = min (seg_end_at item) (seg_end_at allocated)
        in ((if seg_start_at item < overlap_start then [item\<lparr>seg_end_at := overlap_start\<rparr>] else []) @
            (if overlap_end < seg_end_at item then [item\<lparr>seg_start_at := overlap_end\<rparr>] else []),
            if overlap_start < overlap_end then
              [\<lparr>gr_subscription_id = seg_subscription_id item, gr_plan_id = seg_plan_id item,
                gr_price_id = seg_price_id item, gr_rank = seg_rank item,
                gr_start_at = max (seg_end_at allocated) (seg_end_at item),
                gr_duration = time_sub overlap_end overlap_start,
                gr_cancel_at_period_end = seg_cancel_at_period_end item,
                gr_auto_renew = seg_auto_renew item, gr_new_grant = seg_new_grant item\<rparr>]
            else []))"

fun insert_loop ::
  "subscription_segment \<Rightarrow> subscription_segment list \<Rightarrow> subscription_segment list \<Rightarrow> subscription_grant list \<Rightarrow>
     subscription_segment list \<times> subscription_grant list" where
  "insert_loop allocated [] nxt displaced = (nxt, displaced)"
| "insert_loop allocated (item # items) nxt displaced =
     insert_loop allocated items (nxt @ fst (cut_segment allocated item))
       (displaced @ snd (cut_segment allocated item))"

definition insert_segment ::
  "subscription_segment list \<Rightarrow> subscription_segment \<Rightarrow> subscription_segment list \<times> subscription_grant list"
  where
  "insert_segment segments allocated =
     (let (nxt, displaced) = insert_loop allocated segments [] []
      in (normalize_timeline (nxt @ [allocated]), displaced))"

definition segment_of_grant :: "subscription_grant \<Rightarrow> time \<Rightarrow> time \<Rightarrow> subscription_segment" where
  "segment_of_grant g start_at end_at =
     \<lparr>seg_subscription_id = gr_subscription_id g, seg_plan_id = gr_plan_id g, seg_price_id = gr_price_id g,
      seg_rank = gr_rank g, seg_start_at = start_at, seg_end_at = end_at,
      seg_cancel_at_period_end = gr_cancel_at_period_end g, seg_auto_renew = gr_auto_renew g,
      seg_new_grant = gr_new_grant g\<rparr>"

lemma next_blocker_found:
  assumes "next_blocker segments rnk cursor result = Some b"
  shows "result = Some b \<or> (b \<in> set segments \<and> rnk \<le> seg_rank b \<and> cursor < seg_end_at b)"
  using assms
  by (induction segments rnk cursor result rule: next_blocker.induct) (auto split: if_splits option.splits)

definition blocking :: "subscription_segment list \<Rightarrow> int \<Rightarrow> time \<Rightarrow> subscription_segment list" where
  "blocking segments rnk cursor = filter (\<lambda>s. rnk \<le> seg_rank s \<and> cursor < seg_end_at s) segments"

lemma blocker_passed:
  assumes "next_blocker segments rnk cursor None = Some b"
  shows "length (blocking segments rnk (seg_end_at b)) < length (blocking segments rnk cursor)"
proof -
  from next_blocker_found [OF assms] have b: "b \<in> set (blocking segments rnk cursor)" "cursor < seg_end_at b"
    by (auto simp: blocking_def)
  have "blocking segments rnk (seg_end_at b) =
      filter (\<lambda>s. seg_end_at b < seg_end_at s) (blocking segments rnk cursor)"
    using b(2) unfolding blocking_def filter_filter by (intro filter_cong) auto
  then show ?thesis using b(1) by (simp add: length_filter_less)
qed

lemma time_sub_pos: "u < t \<Longrightarrow> 0 < time_sub t u"
  by (simp add: time_sub_def max_int64_def)

text \<open>
  The loop of \<open>placeSubscriptionTimelineGrant\<close>. The branch for an end that does not lie behind the
  cursor is the source's; without a blocker it cannot be taken, since the remaining duration is positive.
\<close>

function place_loop ::
  "subscription_grant \<Rightarrow> subscription_segment list \<Rightarrow> duration \<Rightarrow> time \<Rightarrow> subscription_grant list \<Rightarrow>
     subscription_segment list \<times> subscription_grant list" where
  "place_loop g segments remaining cursor displaced =
     (if \<not> 0 < remaining then (normalize_timeline segments, displaced)
      else
        case next_blocker segments (gr_rank g) cursor None of
          None \<Rightarrow>
            (let end_at = cursor + remaining;
                 (segments, moved) = insert_segment segments (segment_of_grant g cursor end_at)
             in place_loop g segments (remaining - time_sub end_at cursor) end_at (displaced @ moved))
        | Some blocker \<Rightarrow>
            if \<not> cursor < seg_start_at blocker
            then place_loop g segments remaining (seg_end_at blocker) displaced
            else
              let end_at = (if seg_start_at blocker < cursor + remaining then seg_start_at blocker
                            else cursor + remaining)
              in if \<not> cursor < end_at then place_loop g segments remaining (seg_end_at blocker) displaced
                 else
                   let (segments, moved) = insert_segment segments (segment_of_grant g cursor end_at)
                   in place_loop g segments (remaining - time_sub end_at cursor) end_at (displaced @ moved))"
  by pat_completeness auto

termination
proof (relation "(\<lambda>(g, segments, remaining, cursor, displaced). nat remaining) <*mlex*>
    measure (\<lambda>(g, segments, remaining, cursor, displaced). length (blocking segments (gr_rank g) cursor))", goal_cases)
  case 1
  then show ?case by (simp add: wf_mlex)
next
  case (2 g segments remaining cursor displaced)
  then show ?case using time_sub_pos [of cursor "cursor + remaining"] by (intro mlex_less) auto
next
  case (3 g segments remaining cursor displaced b)
  then show ?case by (intro mlex_leq) (auto intro: blocker_passed)
next
  case (4 g segments remaining cursor displaced b)
  then show ?case by (intro mlex_leq) (auto intro: blocker_passed)
next
  case (5 g segments remaining cursor displaced b e)
  then show ?case using time_sub_pos [of cursor e] by (intro mlex_less) auto
qed

declare place_loop.simps [simp del]

definition place_grant ::
  "subscription_segment list \<Rightarrow> subscription_grant \<Rightarrow>
     timeline_error + subscription_segment list \<times> subscription_grant list" where
  "place_grant existing g =
     (if gr_duration g \<le> 0 then Inl TimelineInvalidInput
      else
        let (segments, displaced) =
              place_loop g (normalize_timeline existing) (gr_duration g) (gr_start_at g) []
        in Inr (segments, displaced))"

section \<open>Rules for the loops\<close>

text \<open>The merge as a structural recursion, with the last merged period in hand.\<close>

fun merge_from :: "subscription_segment \<Rightarrow> subscription_segment list \<Rightarrow> subscription_segment list" where
  "merge_from l [] = [l]"
| "merge_from l (item # items) =
     (if mergeable l item
      then merge_from (l\<lparr>seg_end_at := max (seg_end_at l) (seg_end_at item)\<rparr>) items
      else l # merge_from item items)"

lemma merge_loop_from: "merge_loop items (ms @ [l]) = ms @ merge_from l items"
proof (induction items arbitrary: ms l)
  case (Cons item items)
  have same: "l\<lparr>seg_end_at := max (seg_end_at l) (seg_end_at item)\<rparr> = l"
    if "\<not> seg_end_at l < seg_end_at item" using that by (cases l) (simp add: max_def)
  show ?case
    using Cons [of ms l] Cons [of ms "l\<lparr>seg_end_at := seg_end_at item\<rparr>"] Cons [of "ms @ [l]" item] same
    by (auto simp: max_def)
qed simp

lemma normalize_from:
  "normalize_timeline segments =
   (case sort_key segment_key (filter valid_segment segments) of [] \<Rightarrow> [] | l # items \<Rightarrow> merge_from l items)"
  unfolding normalize_timeline_def using merge_loop_from [of _ "[]"] by (auto split: list.splits)

lemma next_blocker_le:
  assumes "next_blocker segments rnk cursor result = Some b"
  shows "(\<forall>r. result = Some r \<longrightarrow> seg_start_at b \<le> seg_start_at r) \<and>
    (\<forall>s \<in> set segments. rnk \<le> seg_rank s \<longrightarrow> cursor < seg_end_at s \<longrightarrow> seg_start_at b \<le> seg_start_at s)"
  using assms
proof (induction segments arbitrary: result)
  case (Cons item items)
  let ?skip = "seg_rank item < rnk \<or> \<not> cursor < seg_end_at item"
  let ?sooner = "\<lambda>r. seg_start_at item < seg_start_at r \<or>
    (seg_start_at item = seg_start_at r \<and> seg_end_at item < seg_end_at r)"
  obtain result' where rec: "next_blocker items rnk cursor result' = Some b"
    and r': "\<not> ?skip \<Longrightarrow> \<exists>r. result' = Some r \<and> seg_start_at r \<le> seg_start_at item"
      "\<forall>r. result = Some r \<longrightarrow> (\<exists>r'. result' = Some r' \<and> seg_start_at r' \<le> seg_start_at r)"
  proof (cases ?skip)
    case True
    then show ?thesis using Cons.prems by (intro that [of result]) auto
  next
    case skip: False
    show ?thesis
    proof (cases result)
      case None
      then show ?thesis using Cons.prems skip by (intro that [of "Some item"]) auto
    next
      case (Some r)
      then show ?thesis
        using Cons.prems skip by (intro that [of "if ?sooner r then Some item else Some r"]) (auto split: if_splits)
    qed
  qed
  have le: "\<forall>r. result' = Some r \<longrightarrow> seg_start_at b \<le> seg_start_at r"
    and items: "\<forall>s \<in> set items. rnk \<le> seg_rank s \<longrightarrow> cursor < seg_end_at s \<longrightarrow> seg_start_at b \<le> seg_start_at s"
    using Cons.IH [OF rec] by blast+
  show ?case using le items r' by (auto intro: order_trans)
qed auto

lemma next_blocker_none:
  assumes "next_blocker segments rnk cursor result = None"
  shows "result = None \<and> (\<forall>s \<in> set segments. rnk \<le> seg_rank s \<longrightarrow> seg_end_at s \<le> cursor)"
  using assms
  by (induction segments rnk cursor result rule: next_blocker.induct) (auto split: if_splits option.splits)

text \<open>A loop invariant of \<open>place_loop\<close> is checked on the two things it does: pass a period, take a gap.\<close>

definition free_between :: "subscription_segment list \<Rightarrow> int \<Rightarrow> time \<Rightarrow> time \<Rightarrow> bool" where
  "free_between segments rnk a b \<longleftrightarrow>
     (\<forall>s \<in> set segments. rnk \<le> seg_rank s \<longrightarrow> seg_end_at s \<le> a \<or> b \<le> seg_start_at s)"

lemma place_loop_invariant:
  assumes result: "place_loop g segments remaining cursor displaced = (res, moved)"
    and start: "Inv segments remaining cursor displaced"
    and pass: "\<And>segs rm cur disp b. Inv segs rm cur disp \<Longrightarrow> 0 < rm \<Longrightarrow> b \<in> set segs \<Longrightarrow>
      gr_rank g \<le> seg_rank b \<Longrightarrow> cur < seg_end_at b \<Longrightarrow> Inv segs rm (seg_end_at b) disp"
    and take: "\<And>segs rm cur disp e segs' mv. Inv segs rm cur disp \<Longrightarrow> 0 < rm \<Longrightarrow> cur < e \<Longrightarrow> e \<le> cur + rm \<Longrightarrow>
      free_between segs (gr_rank g) cur e \<Longrightarrow>
      insert_segment segs (segment_of_grant g cur e) = (segs', mv) \<Longrightarrow>
      Inv segs' (rm - time_sub e cur) e (disp @ mv)"
  shows "\<exists>segs rm cur. Inv segs rm cur moved \<and> rm \<le> 0 \<and> res = normalize_timeline segs"
  using assms
proof (induction g segments remaining cursor displaced rule: place_loop.induct)
  case (1 g segments remaining cursor displaced)
  note init = "1.prems"(2) and pass = "1.prems"(3) and take = "1.prems"(4)
  have eq: "(if \<not> 0 < remaining then (normalize_timeline segments, displaced)
      else
        case next_blocker segments (gr_rank g) cursor None of
          None \<Rightarrow>
            (let end_at = cursor + remaining;
                 (segments, moved) = insert_segment segments (segment_of_grant g cursor end_at)
             in place_loop g segments (remaining - time_sub end_at cursor) end_at (displaced @ moved))
        | Some blocker \<Rightarrow>
            if \<not> cursor < seg_start_at blocker
            then place_loop g segments remaining (seg_end_at blocker) displaced
            else
              let end_at = (if seg_start_at blocker < cursor + remaining then seg_start_at blocker
                            else cursor + remaining)
              in if \<not> cursor < end_at then place_loop g segments remaining (seg_end_at blocker) displaced
                 else
                   let (segments, moved) = insert_segment segments (segment_of_grant g cursor end_at)
                   in place_loop g segments (remaining - time_sub end_at cursor) end_at (displaced @ moved)) =
    (res, moved)"
    using "1.prems"(1) by (subst (asm) place_loop.simps)
  show ?case
  proof (cases "0 < remaining")
    case False
    then have "res = normalize_timeline segments" "moved = displaced" using eq by auto
    then show ?thesis using False init by (intro exI [of _ segments] exI [of _ remaining] exI [of _ cursor]) auto
  next
    case pos: True
    show ?thesis
    proof (cases "next_blocker segments (gr_rank g) cursor None")
      case None
      let ?e = "cursor + remaining"
      obtain segs' mv where ins: "insert_segment segments (segment_of_grant g cursor ?e) = (segs', mv)" by fastforce
      from next_blocker_none [OF None] have "free_between segments (gr_rank g) cursor ?e"
        by (auto simp: free_between_def)
      from take [OF init pos _ _ this ins] pos have "Inv segs' (remaining - time_sub ?e cursor) ?e (displaced @ mv)" by linarith
      then show ?thesis using "1.IH"(1) [OF _ None refl refl ins [symmetric] _ _ pass take] pos eq ins None by (simp add: Let_def)
    next
      case (Some b)
      from next_blocker_found [OF Some] have b: "b \<in> set segments" "gr_rank g \<le> seg_rank b" "cursor < seg_end_at b"
        by auto
      note passed = pass [OF init pos b]
      show ?thesis
      proof (cases "cursor < seg_start_at b")
        case False
        then show ?thesis using "1.IH"(2) [OF _ Some _ _ passed pass take] pos eq Some by simp
      next
        case gap: True
        define e where "e = (if seg_start_at b < cursor + remaining then seg_start_at b else cursor + remaining)"
        have e: "cursor < e" "e \<le> cursor + remaining" "e \<le> seg_start_at b" using gap pos by (auto simp: e_def)
        obtain segs' mv where ins: "insert_segment segments (segment_of_grant g cursor e) = (segs', mv)" by fastforce
        from next_blocker_le [OF Some] e(3) have "free_between segments (gr_rank g) cursor e"
          by (force simp: free_between_def)
        from take [OF init pos e(1,2) this ins] have "Inv segs' (remaining - time_sub e cursor) e (displaced @ mv)" .
        then show ?thesis
          using "1.IH"(4) [OF _ Some _ e_def _ refl ins [symmetric] _ _ pass take] pos eq ins Some gap e(1)
          by (simp add: Let_def e_def [symmetric])
      qed
    qed
  qed
qed

section \<open>What a timeline says\<close>

text \<open>
  The entitlement of a period is everything but its bounds. \<open>entitled segments t\<close> lists the
  entitlements at an instant; a timeline is \<open>single\<close> when there is never more than one.
  \<open>amount\<close> is the total length of the periods whose entitlement satisfies a predicate.
\<close>

type_synonym entitlement = "nat \<times> nat \<times> nat \<times> int \<times> bool \<times> bool \<times> bool"

definition entitlement :: "subscription_segment \<Rightarrow> entitlement" where
  "entitlement s = (seg_subscription_id s, seg_plan_id s, seg_price_id s, seg_rank s,
     seg_cancel_at_period_end s, seg_auto_renew s, seg_new_grant s)"

definition grant_entitlement :: "subscription_grant \<Rightarrow> entitlement" where
  "grant_entitlement g = (gr_subscription_id g, gr_plan_id g, gr_price_id g, gr_rank g,
     gr_cancel_at_period_end g, gr_auto_renew g, gr_new_grant g)"

definition rank_of :: "entitlement \<Rightarrow> int" where
  "rank_of e = (case e of (sid, pid, price, rnk, rest) \<Rightarrow> rnk)"

definition covers :: "time \<Rightarrow> subscription_segment \<Rightarrow> bool" where
  "covers t s \<longleftrightarrow> seg_start_at s \<le> t \<and> t < seg_end_at s"

definition entitled :: "subscription_segment list \<Rightarrow> time \<Rightarrow> entitlement list" where
  "entitled segments t = map entitlement (filter (covers t) segments)"

definition single :: "subscription_segment list \<Rightarrow> bool" where
  "single segments \<longleftrightarrow> (\<forall>t. length (entitled segments t) \<le> 1)"

definition seg_length :: "subscription_segment \<Rightarrow> int" where
  "seg_length s = seg_end_at s - seg_start_at s"

definition amount :: "(entitlement \<Rightarrow> bool) \<Rightarrow> subscription_segment list \<Rightarrow> int" where
  "amount P segments = (\<Sum>s\<leftarrow>segments. if P (entitlement s) then seg_length s else 0)"

definition granted_amount :: "(entitlement \<Rightarrow> bool) \<Rightarrow> subscription_grant list \<Rightarrow> int" where
  "granted_amount P gs = (\<Sum>g\<leftarrow>gs. if P (grant_entitlement g) then gr_duration g else 0)"

definition all_valid :: "subscription_segment list \<Rightarrow> bool" where
  "all_valid segments \<longleftrightarrow> (\<forall>s \<in> set segments. valid_segment s)"

abbreviation "anything \<equiv> (\<lambda>e::entitlement. True)"

lemma entitled_simps [simp]:
  "entitled [] t = []"
  "entitled (s # segments) t = (if covers t s then [entitlement s] else []) @ entitled segments t"
  "entitled (xs @ ys) t = entitled xs t @ entitled ys t"
  by (simp_all add: entitled_def)

lemma amount_simps [simp]:
  "amount P [] = 0"
  "amount P (s # segments) = (if P (entitlement s) then seg_length s else 0) + amount P segments"
  "amount P (xs @ ys) = amount P xs + amount P ys"
  by (simp_all add: amount_def)

lemma granted_amount_simps [simp]:
  "granted_amount P [] = 0"
  "granted_amount P (g # gs) = (if P (grant_entitlement g) then gr_duration g else 0) + granted_amount P gs"
  "granted_amount P (gs @ hs) = granted_amount P gs + granted_amount P hs"
  by (simp_all add: granted_amount_def)

lemma all_valid_simps [simp]:
  "all_valid []"
  "all_valid (s # segments) \<longleftrightarrow> valid_segment s \<and> all_valid segments"
  "all_valid (xs @ ys) \<longleftrightarrow> all_valid xs \<and> all_valid ys"
  by (auto simp: all_valid_def)

lemma valid_length: "valid_segment s \<Longrightarrow> 0 < seg_length s"
  by (simp add: valid_segment_def seg_length_def)

lemma amount_nonneg: "all_valid segments \<Longrightarrow> 0 \<le> amount P segments"
  by (induction segments) (auto dest: valid_length)

lemma amount_mono: "all_valid segments \<Longrightarrow> amount P segments \<le> amount anything segments"
  by (induction segments) (auto dest: valid_length)

lemma length_le_amount: "all_valid segments \<Longrightarrow> s \<in> set segments \<Longrightarrow> seg_length s \<le> amount anything segments"
  by (induction segments) (auto dest: valid_length amount_nonneg [where P = anything])

text \<open>Sorted and without overlap: each period ends before the next begins.\<close>

definition chain :: "subscription_segment list \<Rightarrow> bool" where
  "chain = sorted_wrt (\<lambda>a b. seg_end_at a \<le> seg_start_at b)"

lemma chain_simps [simp]:
  "chain []"
  "chain (s # segments) \<longleftrightarrow> (\<forall>x \<in> set segments. seg_end_at s \<le> seg_start_at x) \<and> chain segments"
  by (simp_all add: chain_def)

lemma mergeable_eq: "mergeable l i \<longleftrightarrow> entitlement l = entitlement i \<and> seg_start_at i \<le> seg_end_at l"
  by (auto simp: mergeable_def entitlement_def not_less)

lemma merge_from_ok:
  assumes "chain (l # items)" "all_valid (l # items)"
  shows "chain (merge_from l items)" "all_valid (merge_from l items)"
    "entitled (merge_from l items) t = entitled (l # items) t"
    "amount P (merge_from l items) = amount P (l # items)"
proof -
  have "chain (merge_from l items) \<and> all_valid (merge_from l items) \<and>
      entitled (merge_from l items) t = entitled (l # items) t \<and>
      amount P (merge_from l items) = amount P (l # items) \<and>
      (\<forall>s \<in> set (merge_from l items). seg_start_at l \<le> seg_start_at s)"
    using assms
  proof (induction l items rule: merge_from.induct)
    case (2 l item items)
    show ?case
    proof (cases "mergeable l item")
      case False
      then show ?thesis using "2.IH"(2) "2.prems"
        by (auto simp: valid_segment_def entitled_def)
    next
      case True
      let ?l = "l\<lparr>seg_end_at := max (seg_end_at l) (seg_end_at item)\<rparr>"
      from True "2.prems" have touch: "seg_end_at l = seg_start_at item" "entitlement l = entitlement item"
        by (auto simp: mergeable_eq)
      from "2.prems" have lt: "seg_start_at l < seg_end_at l" "seg_start_at item < seg_end_at item"
        by (auto simp: valid_segment_def)
      have m: "?l = l\<lparr>seg_end_at := seg_end_at item\<rparr>" using touch lt by (simp add: max_def)
      have e: "entitlement ?l = entitlement l" by (simp add: entitlement_def)
      have "chain (?l # items)" "all_valid (?l # items)"
        using "2.prems" touch lt by (auto simp: m valid_segment_def)
      moreover have "entitled (?l # items) t = entitled (l # item # items) t"
        using touch lt e unfolding m by (auto simp: covers_def)
      moreover have "amount P (?l # items) = amount P (l # item # items)"
        using touch lt e unfolding m by (auto simp: seg_length_def)
      ultimately show ?thesis using "2.IH"(1) [OF True] True by simp
    qed
  qed simp
  then show "chain (merge_from l items)" "all_valid (merge_from l items)"
    "entitled (merge_from l items) t = entitled (l # items) t"
    "amount P (merge_from l items) = amount P (l # items)" by blast+
qed

lemma single_chain:
  assumes "single segments" "all_valid segments" "sorted (map seg_start_at segments)"
  shows "chain segments"
  using assms
proof (induction segments)
  case (Cons s segments)
  from Cons.prems(1) have once: "length ((if covers t s then [entitlement s] else []) @ entitled segments t) \<le> 1" for t
    by (simp only: single_def entitled_simps)
  have "single segments" unfolding single_def
  proof
    fix t show "length (entitled segments t) \<le> 1" using once [of t] by (simp split: if_splits)
  qed
  moreover have "seg_end_at s \<le> seg_start_at x" if x: "x \<in> set segments" for x
  proof (rule ccontr)
    assume "\<not> ?thesis"
    with x Cons.prems(3) have "covers (seg_start_at x) s" by (auto simp: covers_def)
    moreover have "entitled segments (seg_start_at x) \<noteq> []"
      using x Cons.prems(2) by (auto simp: entitled_def covers_def filter_empty_conv all_valid_def valid_segment_def)
    ultimately show False using once [of "seg_start_at x"] by (cases "entitled segments (seg_start_at x)") auto
  qed
  ultimately show ?case using Cons by auto
qed simp

lemma chain_after: "chain (s # segments) \<Longrightarrow> all_valid (s # segments) \<Longrightarrow> covers t s \<Longrightarrow> entitled segments t = []"
  by (auto simp: entitled_def covers_def filter_empty_conv all_valid_def valid_segment_def not_le)

lemma chain_single: "chain segments \<Longrightarrow> all_valid segments \<Longrightarrow> single segments"
proof (induction segments)
  case (Cons s segments)
  then show ?case using chain_after [of s segments] by (auto simp: single_def)
qed (simp add: single_def)

lemma perm_small: "length xs \<le> 1 \<Longrightarrow> mset xs = mset ys \<Longrightarrow> xs = ys"
  by (cases xs; cases ys) auto

lemma normalize_ok:
  assumes "single segments" "all_valid segments"
  shows "chain (normalize_timeline segments)" "all_valid (normalize_timeline segments)"
    "entitled (normalize_timeline segments) t = entitled segments t"
    "amount P (normalize_timeline segments) = amount P segments"
proof -
  let ?s = "sort_key segment_key segments"
  have valid: "filter valid_segment segments = segments"
    using assms(2) by (auto simp: all_valid_def intro: filter_True)
  have perm: "mset (entitled ?s t) = mset (entitled segments t)" for t
    by (simp add: entitled_def mset_filter)
  have ent: "entitled ?s t = entitled segments t" for t
    using assms(1) perm [of t] by (intro perm_small [symmetric]) (auto simp: single_def)
  have am: "amount P ?s = amount P segments" for P
    unfolding amount_def sum_mset_sum_list [symmetric] by simp
  have val: "all_valid ?s" using assms(2) by (simp add: all_valid_def)
  have "sorted (map seg_start_at ?s)"
    using sorted_sort_key [of segment_key segments] unfolding sorted_map
    by (rule sorted_wrt_mono_rel [rotated]) (auto simp: segment_key_def less_eq_prod_simp)
  then have ch: "chain ?s" using assms(1) ent val by (intro single_chain) (simp_all add: single_def)
  show "chain (normalize_timeline segments)" "all_valid (normalize_timeline segments)"
    "entitled (normalize_timeline segments) t = entitled segments t"
    "amount P (normalize_timeline segments) = amount P segments"
    unfolding normalize_from valid
    using merge_from_ok [of "hd ?s" "tl ?s"] ch val ent [of t] am [of P] by (cases ?s; simp)+
qed

section \<open>Taking a gap\<close>

lemma insert_loop_eq:
  "insert_loop allocated items nxt displaced =
   (nxt @ concat (map (fst \<circ> cut_segment allocated) items),
    displaced @ concat (map (snd \<circ> cut_segment allocated) items))"
  by (induction items arbitrary: nxt displaced) simp_all

lemma time_sub_exact: "0 \<le> t - u \<Longrightarrow> t - u \<le> max_int64 \<Longrightarrow> time_sub t u = t - u"
  by (simp add: time_sub_def min_int64_def max_int64_def)

lemma cut_entitled:
  assumes "valid_segment item" "seg_start_at allocated < seg_end_at allocated"
  shows "entitled (fst (cut_segment allocated item)) t =
    (if covers t item \<and> \<not> (seg_rank item < seg_rank allocated \<and> covers t allocated) then [entitlement item] else [])"
proof -
  have "entitlement (item\<lparr>seg_end_at := x\<rparr>) = entitlement item" "entitlement (item\<lparr>seg_start_at := x\<rparr>) = entitlement item"
    for x by (simp_all add: entitlement_def)
  then show ?thesis
    using assms by (auto simp: cut_segment_def Let_def covers_def timeline_overlaps_def valid_segment_def)
qed

lemma cut_amount:
  assumes "valid_segment item" "seg_start_at allocated < seg_end_at allocated" "seg_length item \<le> max_int64"
  shows "amount P (fst (cut_segment allocated item)) + granted_amount P (snd (cut_segment allocated item)) = amount P [item]"
proof -
  have "entitlement (item\<lparr>seg_end_at := x\<rparr>) = entitlement item" "entitlement (item\<lparr>seg_start_at := x\<rparr>) = entitlement item"
    for x by (simp_all add: entitlement_def)
  moreover have "time_sub (min (seg_end_at item) (seg_end_at allocated)) (max (seg_start_at item) (seg_start_at allocated)) =
      min (seg_end_at item) (seg_end_at allocated) - max (seg_start_at item) (seg_start_at allocated)"
    if "timeline_overlaps item allocated" "max (seg_start_at item) (seg_start_at allocated) < min (seg_end_at item) (seg_end_at allocated)"
    using that assms by (intro time_sub_exact) (auto simp: timeline_overlaps_def seg_length_def)
  ultimately show ?thesis
    using assms by (auto simp: cut_segment_def Let_def timeline_overlaps_def valid_segment_def seg_length_def
      grant_entitlement_def entitlement_def min_def max_def)
qed

text \<open>A displaced grant: behind what displaced it, of lower rank, and itself placeable.\<close>

definition displaced_by :: "int \<Rightarrow> time \<Rightarrow> subscription_grant \<Rightarrow> bool" where
  "displaced_by rnk start d \<longleftrightarrow>
     gr_rank d < rnk \<and> start \<le> gr_start_at d \<and> 0 < gr_duration d \<and> gr_plan_id d \<noteq> 0 \<and> gr_price_id d \<noteq> 0"

lemma cut_parts:
  assumes "valid_segment item"
  shows "all_valid (fst (cut_segment allocated item))"
    "\<forall>d \<in> set (snd (cut_segment allocated item)). displaced_by (seg_rank allocated) (seg_end_at allocated) d"
  using assms
  by (auto simp: cut_segment_def Let_def timeline_overlaps_def valid_segment_def displaced_by_def time_sub_pos)

lemma cuts_ok:
  assumes "all_valid segments" "seg_start_at allocated < seg_end_at allocated" "\<forall>s \<in> set segments. seg_length s \<le> max_int64"
  shows "all_valid (concat (map (fst \<circ> cut_segment allocated) segments))"
    "\<forall>d \<in> set (concat (map (snd \<circ> cut_segment allocated) segments)).
       displaced_by (seg_rank allocated) (seg_end_at allocated) d"
    "amount P (concat (map (fst \<circ> cut_segment allocated) segments)) +
       granted_amount P (concat (map (snd \<circ> cut_segment allocated) segments)) = amount P segments"
    "entitled (concat (map (fst \<circ> cut_segment allocated) segments)) t =
       map entitlement (filter (\<lambda>s. covers t s \<and> \<not> (seg_rank s < seg_rank allocated \<and> covers t allocated)) segments)"
proof -
  have "all_valid (concat (map (fst \<circ> cut_segment allocated) segments)) \<and>
    (\<forall>d \<in> set (concat (map (snd \<circ> cut_segment allocated) segments)).
       displaced_by (seg_rank allocated) (seg_end_at allocated) d) \<and>
    amount P (concat (map (fst \<circ> cut_segment allocated) segments)) +
       granted_amount P (concat (map (snd \<circ> cut_segment allocated) segments)) = amount P segments \<and>
    entitled (concat (map (fst \<circ> cut_segment allocated) segments)) t =
       map entitlement (filter (\<lambda>s. covers t s \<and> \<not> (seg_rank s < seg_rank allocated \<and> covers t allocated)) segments)"
    using assms
  proof (induction segments)
    case (Cons s segments)
    then show ?case
      using cut_parts [of s allocated] cut_amount [of s allocated P] cut_entitled [of s allocated t]
      by (simp add: ball_Un algebra_simps)
  qed simp
  then show "all_valid (concat (map (fst \<circ> cut_segment allocated) segments))"
    "\<forall>d \<in> set (concat (map (snd \<circ> cut_segment allocated) segments)).
       displaced_by (seg_rank allocated) (seg_end_at allocated) d"
    "amount P (concat (map (fst \<circ> cut_segment allocated) segments)) +
       granted_amount P (concat (map (snd \<circ> cut_segment allocated) segments)) = amount P segments"
    "entitled (concat (map (fst \<circ> cut_segment allocated) segments)) t =
       map entitlement (filter (\<lambda>s. covers t s \<and> \<not> (seg_rank s < seg_rank allocated \<and> covers t allocated)) segments)"
    by blast+
qed

lemma insert_ok:
  assumes ins: "insert_segment segments allocated = (segs, moved)"
    and ok: "all_valid segments" "single segments" "valid_segment allocated"
    and free: "free_between segments (seg_rank allocated) (seg_start_at allocated) (seg_end_at allocated)"
    and small: "amount anything segments \<le> max_int64"
  shows "all_valid segs" "single segs"
    "entitled segs t = (if covers t allocated then [entitlement allocated] else entitled segments t)"
    "covers t allocated \<Longrightarrow> e \<in> set (entitled segments t) \<Longrightarrow> rank_of e < seg_rank allocated"
    "amount P segs + granted_amount P moved = amount P segments + (if P (entitlement allocated) then seg_length allocated else 0)"
    "\<forall>d \<in> set moved. displaced_by (seg_rank allocated) (seg_end_at allocated) d"
proof -
  let ?cut = "concat (map (fst \<circ> cut_segment allocated) segments)"
  have short: "\<forall>s \<in> set segments. seg_length s \<le> max_int64"
    using length_le_amount [OF ok(1)] small by force
  have span: "seg_start_at allocated < seg_end_at allocated" using ok(3) by (simp add: valid_segment_def)
  note cuts = cuts_ok [OF ok(1) span short]
  have eqs: "segs = normalize_timeline (?cut @ [allocated])" "moved = concat (map (snd \<circ> cut_segment allocated) segments)"
    using ins by (auto simp: insert_segment_def insert_loop_eq)
  have low: "seg_rank s < seg_rank allocated" if "s \<in> set segments" "covers t s" "covers t allocated" for s t
    using free that by (force simp: free_between_def covers_def not_le)
  show "rank_of e < seg_rank allocated" if "covers t allocated" "e \<in> set (entitled segments t)"
    using that low by (auto simp: entitled_def entitlement_def rank_of_def)
  have ent: "entitled (?cut @ [allocated]) t = (if covers t allocated then [entitlement allocated] else entitled segments t)" for t
    unfolding entitled_simps cuts(4) using low [of _ t] by (auto simp: entitled_def filter_empty_conv)
  have single: "single (?cut @ [allocated])"
    using ok(2) unfolding single_def ent by simp
  have valid: "all_valid (?cut @ [allocated])" using cuts(1) ok(3) by simp
  note norm = normalize_ok [OF single valid]
  show "all_valid segs" "entitled segs t = (if covers t allocated then [entitlement allocated] else entitled segments t)"
    unfolding eqs norm(3) ent using norm(2) by simp_all
  show "single segs" unfolding eqs by (rule chain_single [OF norm(1,2)])
  show "amount P segs + granted_amount P moved = amount P segments + (if P (entitlement allocated) then seg_length allocated else 0)"
    unfolding eqs norm(4) using cuts(3) [of P] by simp
  show "\<forall>d \<in> set moved. displaced_by (seg_rank allocated) (seg_end_at allocated) d"
    unfolding eqs by (rule cuts(2))
qed

section \<open>Placing one grant\<close>

lemma segment_of_grant_simps [simp]:
  "entitlement (segment_of_grant g a b) = grant_entitlement g"
  "seg_rank (segment_of_grant g a b) = gr_rank g"
  "seg_start_at (segment_of_grant g a b) = a" "seg_end_at (segment_of_grant g a b) = b"
  "seg_length (segment_of_grant g a b) = b - a"
  "covers t (segment_of_grant g a b) \<longleftrightarrow> a \<le> t \<and> t < b"
  "valid_segment (segment_of_grant g a b) \<longleftrightarrow> gr_plan_id g \<noteq> 0 \<and> gr_price_id g \<noteq> 0 \<and> a < b"
  by (auto simp: entitlement_def grant_entitlement_def segment_of_grant_def seg_length_def covers_def valid_segment_def)

lemma rank_of_grant [simp]: "rank_of (grant_entitlement g) = gr_rank g"
  by (simp add: rank_of_def grant_entitlement_def)

text \<open>
  How a timeline \<open>segs\<close> comes from \<open>from\<close> by placing grants of ranks below \<open>rnk\<close> from \<open>start\<close> on: at every
  instant it is unchanged, or what was there has given way to an entitlement of a higher rank,
  still below \<open>rnk\<close>.
\<close>

definition upgraded :: "int \<Rightarrow> time \<Rightarrow> subscription_segment list \<Rightarrow> subscription_segment list \<Rightarrow> bool" where
  "upgraded rnk start from segs \<longleftrightarrow>
     (\<forall>t. entitled segs t = entitled from t \<or>
       (start \<le> t \<and> (\<exists>e. entitled segs t = [e] \<and> rank_of e < rnk \<and>
          (\<forall>e' \<in> set (entitled from t). rank_of e' < rank_of e))))"

lemma upgraded_refl: "upgraded rnk start segs segs"
  by (simp add: upgraded_def)

lemma upgraded_trans:
  assumes "upgraded r s a b" "upgraded r' s' b c" "r \<le> q" "r' \<le> q" "p \<le> s" "p \<le> s'"
  shows "upgraded q p a c"
  unfolding upgraded_def
proof
  fix t
  show "entitled c t = entitled a t \<or> (p \<le> t \<and> (\<exists>e. entitled c t = [e] \<and> rank_of e < q \<and>
      (\<forall>e' \<in> set (entitled a t). rank_of e' < rank_of e)))"
    using assms(1) [unfolded upgraded_def, THEN spec, of t] assms(2) [unfolded upgraded_def, THEN spec, of t] assms(3-)
    by (elim disjE conjE exE; simp; (fastforce | meson order_trans less_trans less_le_trans))
qed

lemma place_loop_ok:
  assumes run: "place_loop g from (gr_duration g) (gr_start_at g) [] = (segs, moved)"
    and ok: "all_valid from" "single from"
    and g: "gr_plan_id g \<noteq> 0" "gr_price_id g \<noteq> 0" "0 < gr_duration g"
    and small: "amount anything from + gr_duration g \<le> max_int64"
  shows "all_valid segs \<and> chain segs \<and> upgraded (gr_rank g + 1) (gr_start_at g) from segs \<and>
    (\<forall>d \<in> set moved. displaced_by (gr_rank g) (gr_start_at g) d) \<and>
    (\<forall>P. amount P segs + granted_amount P moved = amount P from + granted_amount P [g])"
proof -
  let ?e = "grant_entitlement g"
  define Inv where "Inv segs rm cur disp \<longleftrightarrow>
      all_valid segs \<and> single segs \<and> gr_start_at g \<le> cur \<and> 0 \<le> rm \<and> rm \<le> gr_duration g \<and>
      upgraded (gr_rank g + 1) (gr_start_at g) from segs \<and>
      (\<forall>d \<in> set disp. displaced_by (gr_rank g) (gr_start_at g) d) \<and>
      (\<forall>P. amount P segs + granted_amount P disp = amount P from + (if P ?e then gr_duration g - rm else 0))"
    for segs rm cur disp
  have pos: "0 \<le> granted_amount P ds" if "\<forall>d \<in> set ds. displaced_by (gr_rank g) (gr_start_at g) d" for P ds
    using that by (induction ds) (auto simp: displaced_by_def)
  from run have "\<exists>segs' rm cur. Inv segs' rm cur moved \<and> rm \<le> 0 \<and> segs = normalize_timeline segs'"
  proof (rule place_loop_invariant)
    show "Inv from (gr_duration g) (gr_start_at g) []"
      using ok g by (simp add: Inv_def upgraded_refl)
    show "Inv segs rm (seg_end_at b) disp" if "Inv segs rm cur disp" "cur < seg_end_at b" for segs rm cur disp b
      using that by (auto simp: Inv_def)
    fix segs rm cur disp e segs' mv
    assume inv: "Inv segs rm cur disp" and rm: "0 < rm" "cur < e" "e \<le> cur + rm"
      and free: "free_between segs (gr_rank g) cur e"
      and ins: "insert_segment segs (segment_of_grant g cur e) = (segs', mv)"
    from inv have segs: "all_valid segs" "single segs" "gr_start_at g \<le> cur" "rm \<le> gr_duration g"
      and up: "upgraded (gr_rank g + 1) (gr_start_at g) from segs"
      and disp: "\<forall>d \<in> set disp. displaced_by (gr_rank g) (gr_start_at g) d"
      and am: "amount P segs + granted_amount P disp = amount P from + (if P ?e then gr_duration g - rm else 0)" for P
      unfolding Inv_def by blast+
    have "amount anything segs \<le> max_int64" using am [of anything] pos [OF disp, of anything] small segs(4) rm by simp
    moreover have "valid_segment (segment_of_grant g cur e)" using g rm by simp
    ultimately have new: "all_valid segs'" "single segs'"
      "entitled segs' t = (if cur \<le> t \<and> t < e then [?e] else entitled segs t)"
      "cur \<le> t \<Longrightarrow> t < e \<Longrightarrow> x \<in> set (entitled segs t) \<Longrightarrow> rank_of x < gr_rank g"
      "amount P segs' + granted_amount P mv = amount P segs + (if P ?e then e - cur else 0)"
      "\<forall>d \<in> set mv. displaced_by (gr_rank g) e d" for t x P
      using insert_ok [OF ins segs(1,2)] free by (simp_all split: if_splits)
    have sub: "time_sub e cur = e - cur"
      using rm segs(4) small amount_nonneg [OF ok(1), of anything] by (intro time_sub_exact) auto
    have step: "upgraded (gr_rank g + 1) cur segs segs'"
      unfolding upgraded_def new(3) using new(4) by (auto simp del: split_paired_Ex intro!: exI [of _ ?e])
    have "upgraded (gr_rank g + 1) (gr_start_at g) from segs'"
      by (rule upgraded_trans [OF up step]) (use segs(3) in simp_all)
    moreover have "\<forall>d \<in> set (disp @ mv). displaced_by (gr_rank g) (gr_start_at g) d"
      using disp new(6) segs(3) rm by (auto simp: displaced_by_def)
    moreover have "amount P segs' + granted_amount P (disp @ mv) = amount P from + (if P ?e then gr_duration g - (rm - (e - cur)) else 0)" for P
      using new(5) [of P] am [of P] by (simp split: if_splits)
    ultimately show "Inv segs' (rm - time_sub e cur) e (disp @ mv)"
      unfolding Inv_def sub using new(1,2) segs rm by auto
  qed
  then obtain segs' rm cur where inv: "Inv segs' rm cur moved" "rm \<le> 0" and segs: "segs = normalize_timeline segs'" by blast
  then have fin: "all_valid segs'" "single segs'" "rm = 0" by (auto simp: Inv_def)
  note norm = normalize_ok [OF fin(2,1)]
  show ?thesis
    using inv fin(3) norm(1,2) unfolding segs Inv_def upgraded_def norm(3,4) by simp
qed

section \<open>Placing what was displaced\<close>

text \<open>
  The work list of \<open>buildSubscriptionTimeline\<close>: what a grant displaces is placed before the rest.
  It is of lower rank, so the loop ends although it may add more entries than it removes.
\<close>

lemma merge_from_parts: "entitlement ` set (merge_from l items) \<subseteq> entitlement ` set (l # items)"
proof (induction l items rule: merge_from.induct)
  case (2 l item items)
  have "entitlement (l\<lparr>seg_end_at := e\<rparr>) = entitlement l" for e by (simp add: entitlement_def)
  with 2 show ?case by auto
qed simp

lemma merge_from_valid: "all_valid (l # items) \<Longrightarrow> all_valid (merge_from l items)"
  by (induction l items rule: merge_from.induct) (auto simp: valid_segment_def max_def)

lemma normalize_parts: "entitlement ` set (normalize_timeline segments) \<subseteq> entitlement ` set segments"
proof (cases "sort_key segment_key (filter valid_segment segments)")
  case (Cons l items)
  then have "set (l # items) \<subseteq> set segments" by (metis filter_is_subset set_sort)
  then show ?thesis using merge_from_parts [of l items] Cons by (force simp: normalize_from)
qed (simp add: normalize_from)

lemma normalize_valid: "all_valid (normalize_timeline segments)"
proof (cases "sort_key segment_key (filter valid_segment segments)")
  case (Cons l items)
  then have "set (l # items) = set (filter valid_segment segments)" by (metis set_sort)
  then show ?thesis using merge_from_valid [of l items] Cons by (auto simp: normalize_from all_valid_def)
qed (simp add: normalize_from)

text \<open>A normalised timeline is sorted and has nothing left to merge, so normalising again changes nothing.\<close>

lemma merged_key:
  assumes "mergeable l item" "segment_key l \<le> segment_key item" "segment_key item \<le> segment_key x"
  shows "segment_key (l\<lparr>seg_end_at := max (seg_end_at l) (seg_end_at item)\<rparr>) \<le> segment_key x"
proof -
  have same: "seg_rank l = seg_rank item" "seg_plan_id l = seg_plan_id item" "seg_start_at l \<le> seg_start_at item"
    using assms(1,2) by (auto simp: mergeable_def segment_key_def less_eq_prod_simp)
  have "segment_key (l\<lparr>seg_end_at := max (seg_end_at l) (seg_end_at item)\<rparr>) \<le> segment_key item"
  proof (cases "seg_end_at item \<le> seg_end_at l")
    case True
    then show ?thesis using assms(2) by (simp add: segment_key_def max_def)
  next
    case False
    then show ?thesis using same by (simp add: segment_key_def less_eq_prod_simp)
  qed
  from this assms(3) show ?thesis by (rule order_trans)
qed

lemma merge_from_settled:
  assumes "sorted (map segment_key (l # items))"
  shows "sorted (map segment_key (merge_from l items)) \<and> (\<forall>s \<in> set (merge_from l items). segment_key l \<le> segment_key s) \<and>
    successively (\<lambda>a b. \<not> mergeable a b) (merge_from l items) \<and>
    (\<exists>e rest. merge_from l items = l\<lparr>seg_end_at := e\<rparr> # rest)"
  using assms
proof (induction l items rule: merge_from.induct)
  case (1 l)
  have "l = l\<lparr>seg_end_at := seg_end_at l\<rparr>" by simp
  then have "\<exists>e. l = l\<lparr>seg_end_at := e\<rparr>" ..
  then show ?case by auto
next
  case (2 l item items)
  let ?l = "l\<lparr>seg_end_at := max (seg_end_at l) (seg_end_at item)\<rparr>"
  show ?case
  proof (cases "mergeable l item")
    case True
    have "sorted (map segment_key (?l # items))" using "2.prems" merged_key [OF True] by auto
    note IH = "2.IH"(1) [OF True this]
    have "segment_key l \<le> segment_key ?l" by (simp add: segment_key_def less_eq_prod_simp)
    with IH True show ?thesis by (auto intro: order_trans)
  next
    case False
    have "sorted (map segment_key (item # items))" using "2.prems" by simp
    note IH = "2.IH"(2) [OF False this]
    then obtain e rest where rest: "merge_from item items = item\<lparr>seg_end_at := e\<rparr> # rest" by blast
    have apart: "\<not> mergeable l (item\<lparr>seg_end_at := e\<rparr>)" using False by (simp add: mergeable_def)
    have "segment_key l \<le> segment_key item" using "2.prems" by simp
    then have low: "\<forall>s \<in> set (merge_from item items). segment_key l \<le> segment_key s"
      using IH by (blast intro: order_trans)
    have eq: "merge_from l (item # items) = l # merge_from item items" using False by simp
    have "l # merge_from item items = l\<lparr>seg_end_at := seg_end_at l\<rparr> # merge_from item items" by simp
    then have "\<exists>e rest. merge_from l (item # items) = l\<lparr>seg_end_at := e\<rparr> # rest" unfolding eq by blast
    moreover have "successively (\<lambda>a b. \<not> mergeable a b) (l # merge_from item items)"
      using IH apart by (simp add: rest)
    ultimately show ?thesis using IH low unfolding eq by simp
  qed
qed

lemma merge_from_id: "successively (\<lambda>a b. \<not> mergeable a b) (l # items) \<Longrightarrow> merge_from l items = l # items"
  by (induction items arbitrary: l) auto

lemma normalize_idem: "normalize_timeline (normalize_timeline segments) = normalize_timeline segments"
proof (cases "sort_key segment_key (filter valid_segment segments)")
  case (Cons l items)
  then have n: "normalize_timeline segments = merge_from l items" by (simp add: normalize_from)
  have "sorted (map segment_key (l # items))" using sorted_sort_key Cons by metis
  note settled = merge_from_settled [OF this]
  have "filter valid_segment (merge_from l items) = merge_from l items"
    using normalize_valid [of segments] unfolding n by (auto simp: all_valid_def intro: filter_True)
  then show ?thesis unfolding n normalize_from [of "merge_from l items"]
    using settled merge_from_id by (auto simp: sort_key_id_if_sorted)
qed (simp add: normalize_from)

lemma cut_segment_parts:
  "s \<in> set (fst (cut_segment allocated item)) \<Longrightarrow> entitlement s = entitlement item"
  "d \<in> set (snd (cut_segment allocated item)) \<Longrightarrow>
     grant_entitlement d = entitlement item \<and> seg_rank item < seg_rank allocated \<and> 0 < gr_duration d"
  by (auto simp: cut_segment_def Let_def time_sub_pos entitlement_def grant_entitlement_def split: if_splits)

text \<open>A grant displaced from some of the periods by one of rank \<open>rnk\<close>.\<close>

definition moved_from :: "subscription_segment list \<Rightarrow> int \<Rightarrow> subscription_grant \<Rightarrow> bool" where
  "moved_from segments rnk d \<longleftrightarrow>
     grant_entitlement d \<in> entitlement ` set segments \<and> gr_rank d < rnk \<and> 0 < gr_duration d"

lemma rank_of_entitlement [simp]: "rank_of (entitlement s) = seg_rank s"
  by (simp add: rank_of_def entitlement_def)

lemma insert_segment_parts:
  assumes "insert_segment segments allocated = (segs, moved)"
  shows "entitlement ` set segs \<subseteq> insert (entitlement allocated) (entitlement ` set segments)"
    and "\<forall>d \<in> set moved. moved_from segments (seg_rank allocated) d"
proof -
  from assms have segs: "segs = normalize_timeline (concat (map (fst \<circ> cut_segment allocated) segments) @ [allocated])"
    and moved: "moved = concat (map (snd \<circ> cut_segment allocated) segments)"
    by (auto simp: insert_segment_def insert_loop_eq)
  show "entitlement ` set segs \<subseteq> insert (entitlement allocated) (entitlement ` set segments)"
    unfolding segs by (rule order_trans [OF normalize_parts]) (auto dest!: cut_segment_parts(1))
  show "\<forall>d \<in> set moved. moved_from segments (seg_rank allocated) d"
  proof
    fix d assume "d \<in> set moved"
    then obtain s where "s \<in> set segments" "d \<in> set (snd (cut_segment allocated s))" by (auto simp: moved)
    with cut_segment_parts(2) [OF this(2)] show "moved_from segments (seg_rank allocated) d"
      using rank_of_grant [of d] by (auto simp: moved_from_def simp del: rank_of_grant)
  qed
qed

lemma place_loop_parts:
  assumes "place_loop g from remaining cursor [] = (segs, moved)"
  shows "entitlement ` set segs \<subseteq> insert (grant_entitlement g) (entitlement ` set from)"
    and "\<forall>d \<in> set moved. moved_from from (gr_rank g) d"
proof -
  define Inv where "Inv segs rm cur disp \<longleftrightarrow>
      entitlement ` set segs \<subseteq> insert (grant_entitlement g) (entitlement ` set from) \<and>
      (\<forall>d \<in> set disp. moved_from from (gr_rank g) d)"
    for segs :: "subscription_segment list" and rm cur :: int and disp :: "subscription_grant list"
  from assms have "\<exists>segs' rm cur. Inv segs' rm cur moved \<and> rm \<le> 0 \<and> segs = normalize_timeline segs'"
  proof (rule place_loop_invariant)
    fix segs rm cur disp e segs' mv
    assume inv: "Inv segs rm cur disp" and ins: "insert_segment segs (segment_of_grant g cur e) = (segs', mv)"
    from inv have segs: "entitlement ` set segs \<subseteq> insert (grant_entitlement g) (entitlement ` set from)"
      and disp: "\<forall>d \<in> set disp. moved_from from (gr_rank g) d" unfolding Inv_def by blast+
    have "\<forall>d \<in> set mv. moved_from from (gr_rank g) d"
    proof
      fix d assume "d \<in> set mv"
      with insert_segment_parts(2) [OF ins] have d: "moved_from segs (gr_rank g) d" by simp
      then have "grant_entitlement d \<noteq> grant_entitlement g"
        unfolding moved_from_def using rank_of_grant by (metis less_irrefl)
      with d segs show "moved_from from (gr_rank g) d" unfolding moved_from_def by blast
    qed
    then show "Inv segs' (rm - time_sub e cur) e (disp @ mv)"
      unfolding Inv_def using insert_segment_parts(1) [OF ins] segs disp by auto
  qed (auto simp: Inv_def)
  then show "entitlement ` set segs \<subseteq> insert (grant_entitlement g) (entitlement ` set from)"
    "\<forall>d \<in> set moved. moved_from from (gr_rank g) d"
    using normalize_parts by (auto simp: Inv_def) blast
qed

lemma place_grant_parts:
  assumes "place_grant from g = Inr (segs, moved)"
  shows "entitlement ` set segs \<subseteq> insert (grant_entitlement g) (entitlement ` set from)"
    and "\<forall>d \<in> set moved. moved_from from (gr_rank g) d"
proof -
  from assms have run: "place_loop g (normalize_timeline from) (gr_duration g) (gr_start_at g) [] = (segs, moved)"
    by (auto simp: place_grant_def split: if_splits prod.splits)
  show "entitlement ` set segs \<subseteq> insert (grant_entitlement g) (entitlement ` set from)"
    using place_loop_parts(1) [OF run] normalize_parts [of "from"] by blast
  show "\<forall>d \<in> set moved. moved_from from (gr_rank g) d"
    using place_loop_parts(2) [OF run] normalize_parts [of "from"] unfolding moved_from_def by blast
qed

lemma place_grant_ranks:
  assumes "place_grant from g = Inr (segs, moved)"
  shows "seg_rank ` set segs \<subseteq> insert (gr_rank g) (seg_rank ` set from)"
    and "\<forall>d \<in> set moved. gr_rank d \<in> seg_rank ` set from \<and> gr_rank d < gr_rank g \<and> 0 < gr_duration d"
proof -
  have rank: "seg_rank ` A = rank_of ` entitlement ` A" for A by (simp add: image_image)
  show "seg_rank ` set segs \<subseteq> insert (gr_rank g) (seg_rank ` set from)"
    unfolding rank using image_mono [OF place_grant_parts(1) [OF assms], of rank_of] by simp
  show "\<forall>d \<in> set moved. gr_rank d \<in> seg_rank ` set from \<and> gr_rank d < gr_rank g \<and> 0 < gr_duration d"
    using place_grant_parts(2) [OF assms] rank_of_grant unfolding rank moved_from_def by (metis imageI)
qed

definition build_steps ::
  "((subscription_segment list \<times> subscription_grant list) \<times> (subscription_segment list \<times> subscription_grant list)) set"
  where
  "build_steps = {((segments', displaced @ queue), (segments, g # queue)) | segments' displaced queue segments g.
     place_grant segments g = Inr (segments', displaced)}"

lemma acc_no_steps: "(segments, []) \<in> Wellfounded.acc build_steps"
  by (rule acc.accI) (simp add: build_steps_def)

lemma build_acc_above:
  assumes "\<forall>s \<in> set segments. low \<le> seg_rank s" "low \<le> gr_rank g"
    and "\<And>segs. \<forall>s \<in> set segs. low \<le> seg_rank s \<Longrightarrow> (segs, queue) \<in> Wellfounded.acc build_steps"
  shows "(segments, g # queue) \<in> Wellfounded.acc build_steps"
  using assms
proof (induction "nat (gr_rank g - low)" arbitrary: segments g queue rule: less_induct)
  case less
  show ?case
  proof (rule acc.accI)
    fix y assume "(y, segments, g # queue) \<in> build_steps"
    then obtain segs displaced where place: "place_grant segments g = Inr (segs, displaced)"
      and y: "y = (segs, displaced @ queue)" by (auto simp: build_steps_def)
    from place_grant_ranks [OF place] less.prems(1,2)
    have segs: "\<forall>s \<in> set segs. low \<le> seg_rank s"
      and lower: "\<forall>d \<in> set displaced. low \<le> gr_rank d \<and> gr_rank d < gr_rank g" by auto
    have "(segs', ds @ queue) \<in> Wellfounded.acc build_steps"
      if "\<forall>d \<in> set ds. low \<le> gr_rank d \<and> gr_rank d < gr_rank g" "\<forall>s \<in> set segs'. low \<le> seg_rank s" for ds segs'
      using that
    proof (induction ds arbitrary: segs')
      case Nil
      then show ?case using less.prems(3) by simp
    next
      case (Cons d ds)
      have "nat (gr_rank d - low) < nat (gr_rank g - low)" using Cons.prems(1) by auto
      from less.hyps [OF this Cons.prems(2)] Cons show ?case by simp
    qed
    from this [OF lower segs] show "y \<in> Wellfounded.acc build_steps" unfolding y .
  qed
qed

lemma build_acc: "(segments, queue) \<in> Wellfounded.acc build_steps"
proof -
  define low where "low = Min (insert 0 (seg_rank ` set segments \<union> gr_rank ` set queue))"
  have "(segs, gs) \<in> Wellfounded.acc build_steps"
    if "\<forall>s \<in> set segs. low \<le> seg_rank s" "\<forall>g \<in> set gs. low \<le> gr_rank g" for segs gs
    using that by (induction gs arbitrary: segs) (auto intro: build_acc_above acc_no_steps)
  then show ?thesis by (simp add: low_def)
qed

lemma build_steps_wf: "wf build_steps"
  by (rule acc_wfI) (auto intro: build_acc)

function build_loop ::
  "subscription_segment list \<Rightarrow> subscription_grant list \<Rightarrow> timeline_error + subscription_segment list" where
  "build_loop segments [] = Inr (normalize_timeline segments)"
| "build_loop segments (current # queue) =
     (case place_grant segments current of
        Inl e \<Rightarrow> Inl e
      | Inr (segments, displaced) \<Rightarrow> build_loop segments (displaced @ queue))"
  by pat_completeness auto

termination
  by (relation build_steps, rule build_steps_wf) (auto simp: build_steps_def)

definition build_subscription_timeline ::
  "subscription_segment list \<Rightarrow> subscription_grant \<Rightarrow> timeline_error + subscription_segment list" where
  "build_subscription_timeline existing g =
     (if gr_duration g \<le> 0 then Inl TimelineInvalidInput
      else build_loop (normalize_timeline existing) [g])"

lemma build_loop_parts:
  "build_loop segments queue = Inr segs \<Longrightarrow>
     entitlement ` set segs \<subseteq> entitlement ` set segments \<union> grant_entitlement ` set queue \<and>
     all_valid segs \<and> normalize_timeline segs = segs"
proof (induction segments queue rule: build_loop.induct)
  case (1 segments)
  then show ?case using normalize_parts normalize_valid normalize_idem by auto
next
  case (2 segments current queue)
  then obtain segs' moved where place: "place_grant segments current = Inr (segs', moved)"
    and rest: "build_loop segs' (moved @ queue) = Inr segs" by (auto split: sum.splits)
  note IH = "2.IH" [OF place refl rest] and one = place_grant_parts [OF place]
  have "grant_entitlement ` set (moved @ queue) \<subseteq> entitlement ` set segments \<union> grant_entitlement ` set queue"
    using one(2) by (auto simp only: moved_from_def set_append image_Un)
  then show ?case using IH one(1) by (simp only: set_simps image_insert) blast
qed

lemma build_timeline_parts:
  assumes "build_subscription_timeline existing g = Inr segs"
  shows "entitlement ` set segs \<subseteq> insert (grant_entitlement g) (entitlement ` set existing)"
    "all_valid segs" "normalize_timeline segs = segs"
proof -
  from assms have "build_loop (normalize_timeline existing) [g] = Inr segs"
    by (simp add: build_subscription_timeline_def split: if_splits)
  note parts = build_loop_parts [OF this]
  show "entitlement ` set segs \<subseteq> insert (grant_entitlement g) (entitlement ` set existing)"
    using parts normalize_parts [of existing] by (simp only: set_simps image_insert image_empty) blast
  show "all_valid segs" "normalize_timeline segs = segs" using parts by blast+
qed

end
