(* ===== verification/Timeline_Props.thy ===== *)
theory Timeline_Props
  imports Timeline
begin

text \<open>
  What the timeline of Timeline promises: every grant of a positive duration is placed, no paid time
  is lost or made up, there is one plan at a time, and no instant falls to a lower plan.
\<close>

lemma build_loop_ok:
  assumes "build_loop segments queue = Inr segs" "all_valid segments" "single segments"
    and "\<forall>g \<in> set queue. displaced_by rnk start g"
    and "amount anything segments + granted_amount anything queue \<le> max_int64"
  shows "all_valid segs \<and> chain segs \<and> upgraded rnk start segments segs \<and>
    (\<forall>P. amount P segs = amount P segments + granted_amount P queue)"
  using assms
proof (induction segments queue rule: build_loop.induct)
  case (1 segments)
  then show ?case using normalize_ok [OF "1.prems"(3,2)] by (auto simp: upgraded_def)
next
  case (2 segments g queue)
  from "2.prems"(1) obtain segs' moved where place: "place_grant segments g = Inr (segs', moved)"
    and rest: "build_loop segs' (moved @ queue) = Inr segs"
    by (auto split: sum.splits)
  from place have run: "place_loop g (normalize_timeline segments) (gr_duration g) (gr_start_at g) [] = (segs', moved)"
    by (auto simp: place_grant_def split: if_splits prod.splits)
  note norm = normalize_ok [OF "2.prems"(3,2)]
  have g: "gr_plan_id g \<noteq> 0" "gr_price_id g \<noteq> 0" "0 < gr_duration g" "gr_rank g < rnk" "start \<le> gr_start_at g"
    using "2.prems"(4) by (auto simp: displaced_by_def)
  have "0 \<le> granted_amount anything queue"
    using "2.prems"(4) by (induction queue) (auto simp: displaced_by_def)
  with "2.prems"(5) have small: "amount anything (normalize_timeline segments) + gr_duration g \<le> max_int64"
    unfolding norm(4) by simp
  from place_loop_ok [OF run norm(2) chain_single [OF norm(1,2)] g(1-3) small]
  have placed: "all_valid segs'" "chain segs'"
      "upgraded (gr_rank g + 1) (gr_start_at g) (normalize_timeline segments) segs'"
      "\<forall>d \<in> set moved. displaced_by (gr_rank g) (gr_start_at g) d"
      "amount P segs' + granted_amount P moved = amount P segments + granted_amount P [g]" for P
    unfolding norm(4) by blast+
  have up: "upgraded (gr_rank g + 1) (gr_start_at g) segments segs'"
    using placed(3) unfolding upgraded_def norm(3) .
  have "\<forall>d \<in> set (moved @ queue). displaced_by rnk start d"
    using placed(4) "2.prems"(4) g(4,5) by (fastforce simp: displaced_by_def)
  moreover have "amount anything segs' + granted_amount anything (moved @ queue) \<le> max_int64"
    using placed(5) [of anything] "2.prems"(5) by simp
  ultimately have final: "all_valid segs \<and> chain segs \<and> upgraded rnk start segs' segs \<and>
      (\<forall>P. amount P segs = amount P segs' + granted_amount P (moved @ queue))"
    using "2.IH" [OF place refl rest placed(1) chain_single [OF placed(2,1)]] by blast
  then have "upgraded rnk start segments segs"
    using up g(4,5) by (intro upgraded_trans [OF up, of rnk start]) auto
  moreover have "amount P segs = amount P segments + granted_amount P (g # queue)" for P
    using final placed(5) [of P] by simp
  ultimately show ?case using final by blast
qed

text \<open>A work list whose head is the grant itself is bounded by the next rank.\<close>

lemma build_timeline_ok:
  assumes "build_subscription_timeline existing g = Inr segs" "all_valid existing" "single existing"
    and "gr_plan_id g \<noteq> 0" "gr_price_id g \<noteq> 0"
    and "amount anything existing + gr_duration g \<le> max_int64"
  shows "all_valid segs \<and> chain segs \<and> upgraded (gr_rank g + 1) (gr_start_at g) existing segs \<and>
    (\<forall>P. amount P segs = amount P existing + granted_amount P [g])"
proof -
  note norm = normalize_ok [OF assms(3,2)]
  from assms(1) have pos: "0 < gr_duration g" and run: "build_loop (normalize_timeline existing) [g] = Inr segs"
    by (auto simp: build_subscription_timeline_def split: if_splits)
  have "all_valid segs \<and> chain segs \<and> upgraded (gr_rank g + 1) (gr_start_at g) (normalize_timeline existing) segs \<and>
      (\<forall>P. amount P segs = amount P (normalize_timeline existing) + granted_amount P [g])"
    using assms(4-6) pos norm(4)
    by (intro build_loop_ok [OF run norm(2) chain_single [OF norm(1,2)]]) (auto simp: displaced_by_def)
  then show ?thesis unfolding upgraded_def norm(3,4) by blast
qed

text \<open>With positive durations the loops have a result.\<close>

lemma build_loop_ends: "\<forall>d \<in> set queue. 0 < gr_duration d \<Longrightarrow> \<exists>segs. build_loop segments queue = Inr segs"
proof (induction segments queue rule: build_loop.induct)
  case (2 segments current queue)
  obtain segs' moved where
    "place_loop current (normalize_timeline segments) (gr_duration current) (gr_start_at current) [] = (segs', moved)"
    by fastforce
  with 2 have place: "place_grant segments current = Inr (segs', moved)" by (simp add: place_grant_def)
  have "\<forall>d \<in> set (moved @ queue). 0 < gr_duration d"
    using 2 place_grant_ranks(2) [OF place] by auto
  from "2.IH" [OF place refl this] place show ?case by simp
qed simp

lemma grant_is_built:
  assumes "0 < gr_duration g"
  obtains segs where "build_subscription_timeline existing g = Inr segs"
  using build_loop_ends [of "[g]" "normalize_timeline existing"] assms that
  by (auto simp: build_subscription_timeline_def simp del: build_loop.simps)

section \<open>Properties\<close>

text \<open>
  C37. Every grant is placed. buildSubscriptionTimeline returns a timeline for every list of existing
  periods, overlapping and ill-formed ones included, exactly when the duration of the grant is
  positive; then and only then its two nested loops end with a result, although placing a period can
  displace several others, each of which is placed again. A duration that is not positive is the
  only error.
\<close>

theorem every_grant_is_placed:
  "(\<exists>segs. build_subscription_timeline existing g = Inr segs) \<longleftrightarrow> 0 < gr_duration g"
  using build_loop_ends [of "[g]"] by (auto simp: build_subscription_timeline_def simp del: build_loop.simps)

text \<open>
  C8. No paid time is lost. When the stored periods of a user are well formed and never two at once, a
  grant yields a timeline that is sorted, has one plan at a time, and in which the total time of every
  entitlement (subscription, plan, price, rank and renewal flags) is what it was, plus the granted
  duration for the granted one: a displaced period is moved, split or merged, never shortened.
  The total must fit a time.Duration, about 292 years.
\<close>

theorem paid_time_is_conserved:
  assumes "build_subscription_timeline existing g = Inr segs"
    and "all_valid existing" "single existing" "gr_plan_id g \<noteq> 0" "gr_price_id g \<noteq> 0"
    and "amount anything existing + gr_duration g \<le> max_int64"
  shows "sorted_wrt (\<lambda>a b. seg_end_at a \<le> seg_start_at b) segs \<and> all_valid segs \<and>
    (\<forall>e. amount (\<lambda>x. x = e) segs =
       amount (\<lambda>x. x = e) existing + (if grant_entitlement g = e then gr_duration g else 0))"
  using build_timeline_ok [OF assms] by (simp add: chain_def)

text \<open>
  A grant never downgrades. Under the same conditions, at every instant a plan that was in force
  either still is, or has given way to exactly one plan of a strictly higher rank, which is at most
  the rank granted; before the start of the grant nothing changes, and no plan of the granted rank
  or above is touched at all.
\<close>

theorem grant_never_downgrades:
  assumes "build_subscription_timeline existing g = Inr segs"
    and "all_valid existing" "single existing" "gr_plan_id g \<noteq> 0" "gr_price_id g \<noteq> 0"
    and "amount anything existing + gr_duration g \<le> max_int64"
  shows "(\<forall>t e. e \<in> set (entitled existing t) \<longrightarrow>
      entitled segs t = [e] \<or> (\<exists>e'. entitled segs t = [e'] \<and> rank_of e < rank_of e' \<and> rank_of e' \<le> gr_rank g)) \<and>
    (\<forall>t < gr_start_at g. entitled segs t = entitled existing t)"
proof -
  have up: "upgraded (gr_rank g + 1) (gr_start_at g) existing segs" using build_timeline_ok [OF assms] by blast
  have one: "entitled existing t = [e]" if "e \<in> set (entitled existing t)" for t e
    using assms(3) that by (cases "entitled existing t") (auto simp: single_def dest: spec [of _ t])
  show ?thesis
    using up one unfolding upgraded_def by (auto 0 3 dest: spec)
qed

section \<open>The properties at work\<close>

text \<open>
  A plan of rank 20 for 90 days and, behind it, one of rank 10 for 20 days; 30 days of a plan of rank 30
  are granted from day 30 on. (Times in days instead of nanoseconds.)
\<close>

definition period :: "nat \<Rightarrow> nat \<Rightarrow> int \<Rightarrow> time \<Rightarrow> time \<Rightarrow> subscription_segment" where
  "period sid plan rnk a b =
     \<lparr>seg_subscription_id = sid, seg_plan_id = plan, seg_price_id = plan, seg_rank = rnk, seg_start_at = a,
      seg_end_at = b, seg_cancel_at_period_end = False, seg_auto_renew = False, seg_new_grant = False\<rparr>"

definition sample_periods :: "subscription_segment list" where
  "sample_periods = [period 101 1 10 90 110, period 100 2 20 0 90]"

definition sample_grant :: subscription_grant where
  "sample_grant = \<lparr>gr_subscription_id = 0, gr_plan_id = 3, gr_price_id = 3, gr_rank = 30, gr_start_at = 30,
     gr_duration = 30, gr_cancel_at_period_end = False, gr_auto_renew = False, gr_new_grant = True\<rparr>"

definition sample_timeline :: "subscription_segment list" where
  "sample_timeline = [period 100 2 20 0 30, (period 0 3 30 30 60)\<lparr>seg_new_grant := True\<rparr>,
     period 100 2 20 60 120, period 101 1 10 120 140]"

lemma sample_built: "build_subscription_timeline sample_periods sample_grant = Inr sample_timeline"
  by code_simp

lemma sample_periods_ok:
  "all_valid sample_periods" "single sample_periods" "gr_plan_id sample_grant \<noteq> 0" "gr_price_id sample_grant \<noteq> 0"
  "amount anything sample_periods + gr_duration sample_grant \<le> max_int64"
  by (auto simp: sample_periods_def period_def sample_grant_def single_def covers_def valid_segment_def
      seg_length_def max_int64_def)

theorem paid_time_is_conserved_witness:
  "amount (\<lambda>x. x = entitlement (period 100 2 20 0 1)) sample_timeline = 90 \<and>
   amount (\<lambda>x. x = entitlement (period 101 1 10 0 1)) sample_timeline = 20"
proof -
  have "entitlement (period 100 2 20 a b) = entitlement (period 100 2 20 0 1)"
    "entitlement (period 101 1 10 a b) = entitlement (period 101 1 10 0 1)" for a b
    by (simp_all add: entitlement_def period_def)
  then have "amount (\<lambda>x. x = entitlement (period 100 2 20 0 1)) sample_periods = 90"
    "amount (\<lambda>x. x = entitlement (period 101 1 10 0 1)) sample_periods = 20"
    by (simp_all add: sample_periods_def period_def seg_length_def entitlement_def)
  then show ?thesis
    using paid_time_is_conserved [OF sample_built sample_periods_ok]
    by (auto simp: grant_entitlement_def sample_grant_def entitlement_def period_def)
qed

theorem grant_never_downgrades_witness:
  "entitled sample_timeline 29 = [entitlement (period 100 2 20 0 1)] \<and>
   (\<exists>e'. entitled sample_timeline 100 = [e'] \<and> rank_of (entitlement (period 101 1 10 0 1)) \<le> rank_of e')"
proof -
  have "entitled sample_periods 29 = [entitlement (period 100 2 20 0 1)]"
    "entitled sample_periods 100 = [entitlement (period 101 1 10 0 1)]"
    by (simp_all add: sample_periods_def period_def covers_def entitlement_def)
  moreover note grant_never_downgrades [OF sample_built sample_periods_ok, THEN conjunct1, rule_format,
      of "entitlement (period 101 1 10 0 1)" 100]
  moreover note grant_never_downgrades [OF sample_built sample_periods_ok, THEN conjunct2, rule_format, of 29]
  ultimately show ?thesis by (auto simp: sample_grant_def simp del: split_paired_Ex intro: less_imp_le)
qed

end
