(* ===== verification/Subscriptions.thy ===== *)
theory Subscriptions
  imports Billing_Db Timeline_Props "HOL-Library.Option_ord"
begin

text \<open>
  Granting a subscription (repository.go, \<open>grantSubscriptionOnTimeline\<close>): the dated active rows of the
  user become a timeline, the grant is laid out on it, and the rows are brought in line with the
  result. A row that keeps a part of its time is reused for it, the other parts become new rows.
\<close>

section \<open>Plans and prices\<close>

definition subscription_plan_rank :: "billing_plan \<Rightarrow> int" where
  "subscription_plan_rank plan =
     (if trim_space (plan_code plan) = ''free'' then 0
      else if 0 < plan_sort_order plan then plan_sort_order plan
      else int (plan_id plan))"

fun append_subscription_plan_id :: "subscription_row list \<Rightarrow> nat list \<Rightarrow> nat list" where
  "append_subscription_plan_id [] ids = ids"
| "append_subscription_plan_id (item # items) ids =
     (if sub_plan_id item = 0 \<or> List.member ids (sub_plan_id item)
      then append_subscription_plan_id items ids
      else append_subscription_plan_id items (ids @ [sub_plan_id item]))"

text \<open>The plans by id, an error when one of the ids has no row.\<close>

definition billing_plans_for_timeline ::
  "billing_db \<Rightarrow> nat list \<Rightarrow> billing_error + (nat \<rightharpoonup> billing_plan)" where
  "billing_plans_for_timeline db ids =
     (let plans = filter (\<lambda>p. List.member ids (plan_id p)) (table_rows (db_plans db));
          results = map_of (map (\<lambda>p. (plan_id p, p)) (rev plans))
      in if card (set (map plan_id plans)) \<noteq> length ids then Inl ErrInvalidInput else Inr results)"

definition active_default_price_for_plan :: "billing_db \<Rightarrow> nat \<Rightarrow> billing_error + billing_price" where
  "active_default_price_for_plan db pid =
     (case first_row (\<lambda>p. price_plan_id p = pid \<and> price_is_active p \<and> price_is_default p) (db_prices db) of
        Some price \<Rightarrow> Inr price
      | None \<Rightarrow>
          (case sort_key (\<lambda>p. (price_amount_cents p, price_id p))
                  (filter (\<lambda>p. price_plan_id p = pid \<and> price_is_active p) (table_rows (db_prices db))) of
             [] \<Rightarrow> Inl ErrNotFound | price # _ \<Rightarrow> Inr price))"

section \<open>Bringing the rows in line\<close>

fun find_index_opt :: "('a \<Rightarrow> bool) \<Rightarrow> 'a list \<Rightarrow> nat option" where
  "find_index_opt P [] = None"
| "find_index_opt P (x # xs) = (if P x then Some 0 else map_option Suc (find_index_opt P xs))"

definition reusable_segment_index ::
  "subscription_row \<Rightarrow> subscription_segment list \<Rightarrow> time \<Rightarrow> nat option" where
  "reusable_segment_index item targets now =
     find_index_opt (\<lambda>target. seg_start_at target < seg_end_at target \<and>
       \<not> (sub_period_start_at item < now \<and> now < seg_start_at target)) targets"

definition expire_subscription :: "subscription_row \<Rightarrow> time \<Rightarrow> billing_db \<Rightarrow> billing_db" where
  "expire_subscription item now db =
     (let end_at = (if now < sub_period_start_at item then sub_period_start_at item else now);
          end_at = (case sub_period_end_at item of
                      Some e \<Rightarrow> if e < end_at then e else end_at | None \<Rightarrow> end_at)
      in db\<lparr>db_subscriptions := update_rows (\<lambda>r. sub_id r = sub_id item)
           (\<lambda>r. r\<lparr>sub_status := ''expired'', sub_auto_renew := False, sub_cancel_at_period_end := False,
                  sub_period_end_at := Some end_at\<rparr>) (db_subscriptions db)\<rparr>)"

text \<open>The columns a reused row gets; a row that has already begun keeps its beginnings.\<close>

definition placed_row :: "subscription_row \<Rightarrow> subscription_segment \<Rightarrow> time \<Rightarrow> subscription_row \<Rightarrow> subscription_row" where
  "placed_row item segment now r =
     (let start_at = (if sub_period_start_at item < now \<and> \<not> now < seg_start_at segment
                      then sub_period_start_at item else seg_start_at segment);
          record_start_at = (if sub_start_at item < start_at \<and> \<not> now < seg_start_at segment
                             then sub_start_at item else start_at)
      in r\<lparr>sub_plan_id := seg_plan_id segment, sub_price_id := seg_price_id segment,
           sub_status := ''active'', sub_start_at := record_start_at,
           sub_period_start_at := start_at, sub_period_end_at := Some (seg_end_at segment),
           sub_cancel_at_period_end := seg_cancel_at_period_end segment, sub_canceled_at := None,
           sub_auto_renew := seg_auto_renew segment\<rparr>)"

definition update_subscription_segment ::
  "subscription_row \<Rightarrow> subscription_segment \<Rightarrow> time \<Rightarrow> billing_db \<Rightarrow> subscription_row tx_result" where
  "update_subscription_segment item segment now db =
     (let db = db\<lparr>db_subscriptions := update_rows (\<lambda>r. sub_id r = sub_id item)
            (placed_row item segment now) (db_subscriptions db)\<rparr>
      in case first_row (\<lambda>r. sub_id r = sub_id item) (db_subscriptions db) of
           None \<Rightarrow> (Inl ErrNotFound, db) | Some updated \<Rightarrow> (Inr updated, db))"

definition create_subscription_segment ::
  "nat \<Rightarrow> subscription_segment \<Rightarrow> billing_db \<Rightarrow> subscription_row tx_result" where
  "create_subscription_segment user_id segment db =
     (if user_id = 0 \<or> seg_plan_id segment = 0 \<or> seg_price_id segment = 0 \<or>
         \<not> seg_start_at segment < seg_end_at segment then (Inl ErrInvalidInput, db)
      else
        let (record, t) = create_row (\<lambda>i. \<lparr>sub_id = i, sub_user_id = user_id, sub_plan_id = seg_plan_id segment,
              sub_price_id = seg_price_id segment, sub_status = ''active'', sub_start_at = seg_start_at segment,
              sub_period_start_at = seg_start_at segment, sub_period_end_at = Some (seg_end_at segment),
              sub_cancel_at_period_end = seg_cancel_at_period_end segment, sub_canceled_at = None,
              sub_auto_renew = seg_auto_renew segment\<rparr>) (db_subscriptions db)
        in (Inr record, db\<lparr>db_subscriptions := t\<rparr>))"

definition remember_granted ::
  "nat \<Rightarrow> subscription_segment \<Rightarrow> subscription_row \<Rightarrow> subscription_row option \<Rightarrow> subscription_row option" where
  "remember_granted grant_plan target record granted =
     (if granted = None \<and> seg_new_grant target \<and> seg_plan_id target = grant_plan then Some record else granted)"

text \<open>
  The parts of one row: the one at \<open>reusable\<close> updates the row, every other one is created. The new
  segments at the end are the case without a row.
\<close>

fun apply_targets ::
  "nat \<Rightarrow> (subscription_row \<times> nat) option \<Rightarrow> time \<Rightarrow> nat \<Rightarrow> nat \<Rightarrow> subscription_segment list \<Rightarrow>
     subscription_row option \<Rightarrow> billing_db \<Rightarrow> subscription_row option tx_result" where
  "apply_targets user_id reuse now grant_plan index [] granted db = (Inr granted, db)"
| "apply_targets user_id reuse now grant_plan index (target # targets) granted db =
     (case (case reuse of
              Some (item, reusable) \<Rightarrow>
                if index = reusable then update_subscription_segment item target now db
                else create_subscription_segment user_id target db
            | None \<Rightarrow> create_subscription_segment user_id target db) of
        (Inl e, db) \<Rightarrow> (Inl e, db)
      | (Inr record, db) \<Rightarrow>
          apply_targets user_id reuse now grant_plan (Suc index) targets
            (remember_granted grant_plan target record granted) db)"

fun apply_existing ::
  "nat \<Rightarrow> subscription_segment list \<Rightarrow> time \<Rightarrow> nat \<Rightarrow> subscription_row list \<Rightarrow> subscription_row option \<Rightarrow>
     billing_db \<Rightarrow> subscription_row option tx_result" where
  "apply_existing user_id segments now grant_plan [] granted db = (Inr granted, db)"
| "apply_existing user_id segments now grant_plan (item # items) granted db =
     (let targets = filter (\<lambda>s. 0 < seg_subscription_id s \<and> seg_subscription_id s = sub_id item) segments
      in if length targets = 0
         then apply_existing user_id segments now grant_plan items granted (expire_subscription item now db)
         else
           let reusable = reusable_segment_index item targets now;
               db = (if reusable = None then expire_subscription item now db else db)
           in case apply_targets user_id (map_option (Pair item) reusable) now grant_plan 0 targets granted db of
                (Inl e, db) \<Rightarrow> (Inl e, db)
              | (Inr granted, db) \<Rightarrow> apply_existing user_id segments now grant_plan items granted db)"

definition apply_subscription_timeline ::
  "nat \<Rightarrow> subscription_row list \<Rightarrow> subscription_segment list \<Rightarrow> time \<Rightarrow> nat \<Rightarrow> billing_db \<Rightarrow>
     subscription_row tx_result" where
  "apply_subscription_timeline user_id existing segments now grant_plan db =
     (let segments = normalize_timeline segments
      in case apply_existing user_id segments now grant_plan existing None db of
           (Inl e, db) \<Rightarrow> (Inl e, db)
         | (Inr granted, db) \<Rightarrow>
             (case apply_targets user_id None now grant_plan 0
                     (filter (\<lambda>s. seg_subscription_id s = 0) segments) granted db of
                (Inl e, db) \<Rightarrow> (Inl e, db)
              | (Inr None, db) \<Rightarrow> (Inl ErrInvalidInput, db)
              | (Inr (Some record), db) \<Rightarrow> (Inr record, db)))"

section \<open>Granting\<close>

record timeline_grant_request =
  tg_user_id :: nat
  tg_plan :: billing_plan
  tg_price :: billing_price
  tg_start_at :: time
  tg_duration :: duration
  tg_cancel_at_period_end :: bool
  tg_auto_renew :: bool
  tg_new_grant :: bool

text \<open>The locked rows: dated, active, not yet ended, in the order of the query.\<close>

definition dated_rows :: "billing_db \<Rightarrow> nat \<Rightarrow> time \<Rightarrow> subscription_row list" where
  "dated_rows db user_id now =
     sort_key (\<lambda>r. (sub_period_start_at r, sub_period_end_at r, sub_id r))
       (filter (\<lambda>r. sub_user_id r = user_id \<and> sub_status r = ''active'' \<and>
          (case sub_period_end_at r of None \<Rightarrow> False | Some e \<Rightarrow> now < e)) (table_rows (db_subscriptions db)))"

fun segments_of_rows ::
  "(nat \<rightharpoonup> billing_plan) \<Rightarrow> time \<Rightarrow> subscription_row list \<Rightarrow> billing_error + subscription_segment list" where
  "segments_of_rows plans now [] = Inr []"
| "segments_of_rows plans now (item # items) =
     (let start_at = (if sub_period_start_at item < now then now else sub_period_start_at item)
      in case sub_period_end_at item of
           None \<Rightarrow> segments_of_rows plans now items
         | Some end_at \<Rightarrow>
             if \<not> now < end_at \<or> \<not> start_at < end_at then segments_of_rows plans now items
             else case plans (sub_plan_id item) of
               None \<Rightarrow> Inl ErrInvalidInput
             | Some plan \<Rightarrow>
                 (case segments_of_rows plans now items of
                    Inl e \<Rightarrow> Inl e
                  | Inr segments \<Rightarrow>
                      Inr (\<lparr>seg_subscription_id = sub_id item, seg_plan_id = sub_plan_id item,
                            seg_price_id = sub_price_id item, seg_rank = subscription_plan_rank plan,
                            seg_start_at = start_at, seg_end_at = end_at,
                            seg_cancel_at_period_end = sub_cancel_at_period_end item,
                            seg_auto_renew = sub_auto_renew item, seg_new_grant = False\<rparr> # segments)))"

definition grant_of_request :: "timeline_grant_request \<Rightarrow> time \<Rightarrow> subscription_grant" where
  "grant_of_request inp now =
     \<lparr>gr_subscription_id = 0, gr_plan_id = plan_id (tg_plan inp), gr_price_id = price_id (tg_price inp),
      gr_rank = subscription_plan_rank (tg_plan inp), gr_start_at = now, gr_duration = tg_duration inp,
      gr_cancel_at_period_end = tg_cancel_at_period_end inp, gr_auto_renew = tg_auto_renew inp,
      gr_new_grant = tg_new_grant inp\<rparr>"

text \<open>The clock is read only for a request without a start.\<close>

definition grant_subscription_on_timeline ::
  "timeline_grant_request \<Rightarrow> time \<Rightarrow> billing_db \<Rightarrow> subscription_row tx_result" where
  "grant_subscription_on_timeline inp clock db =
     (if tg_user_id inp = 0 \<or> plan_id (tg_plan inp) = 0 \<or> price_id (tg_price inp) = 0 \<or> tg_duration inp \<le> 0
      then (Inl ErrInvalidInput, db)
      else
        let now = (if is_zero (tg_start_at inp) then clock else tg_start_at inp);
            existing = dated_rows db (tg_user_id inp) now
        in case billing_plans_for_timeline db
                  (append_subscription_plan_id existing
                    (if 0 < plan_id (tg_plan inp) then [plan_id (tg_plan inp)] else [])) of
             Inl e \<Rightarrow> (Inl e, db)
           | Inr plans \<Rightarrow>
               (case segments_of_rows plans now existing of
                  Inl e \<Rightarrow> (Inl e, db)
                | Inr segments \<Rightarrow>
                    (case build_subscription_timeline segments (grant_of_request inp now) of
                       Inl TimelineInvalidInput \<Rightarrow> (Inl ErrInvalidInput, db)
                     | Inr segments \<Rightarrow>
                         apply_subscription_timeline (tg_user_id inp) existing segments now
                           (plan_id (tg_plan inp)) db)))"

end
