(* ===== verification/Subscription_Props.thy ===== *)
theory Subscription_Props
  imports Subscriptions "HOL-Library.Multiset"
begin

text \<open>
  The rows implement the timeline: after a grant, the plans in force for the user at every later instant
  are those of the timeline built by Timeline, and no other user's rows have changed.
\<close>

section \<open>What is in force\<close>

type_synonym terms = "nat \<times> nat \<times> bool \<times> bool"

definition row_terms :: "subscription_row \<Rightarrow> terms" where
  "row_terms r = (sub_plan_id r, sub_price_id r, sub_cancel_at_period_end r, sub_auto_renew r)"

definition seg_terms :: "subscription_segment \<Rightarrow> terms" where
  "seg_terms s = (seg_plan_id s, seg_price_id s, seg_cancel_at_period_end s, seg_auto_renew s)"

definition row_live :: "nat \<Rightarrow> time \<Rightarrow> subscription_row \<Rightarrow> bool" where
  "row_live uid t r \<longleftrightarrow> sub_user_id r = uid \<and> sub_status r = ''active'' \<and> sub_period_start_at r \<le> t \<and>
     (case sub_period_end_at r of None \<Rightarrow> False | Some e \<Rightarrow> t < e)"

definition live_terms :: "nat \<Rightarrow> time \<Rightarrow> subscription_row list \<Rightarrow> terms multiset" where
  "live_terms uid t rows = mset (map row_terms (filter (row_live uid t) rows))"

definition in_force :: "billing_db \<Rightarrow> nat \<Rightarrow> time \<Rightarrow> terms multiset" where
  "in_force db uid t = live_terms uid t (table_rows (db_subscriptions db))"

definition planned :: "subscription_segment list \<Rightarrow> time \<Rightarrow> terms multiset" where
  "planned segments t = mset (map seg_terms (filter (covers t) segments))"

lemma live_terms_simps [simp]:
  "live_terms uid t [] = {#}"
  "live_terms uid t (r # rows) = (if row_live uid t r then {#row_terms r#} else {#}) + live_terms uid t rows"
  "live_terms uid t (xs @ ys) = live_terms uid t xs + live_terms uid t ys"
  by (simp_all add: live_terms_def)

lemma planned_simps [simp]:
  "planned [] t = {#}"
  "planned (s # segments) t = (if covers t s then {#seg_terms s#} else {#}) + planned segments t"
  "planned (xs @ ys) t = planned xs t + planned ys t"
  by (simp_all add: planned_def)

text \<open>One row changes its terms and its life, no other row does.\<close>

lemma live_terms_update:
  assumes "keyed sub_id tb" "item \<in> set (table_rows tb)"
  shows "live_terms uid t (table_rows (update_rows (\<lambda>r. sub_id r = sub_id item) f tb)) + live_terms uid t [item] =
    live_terms uid t (table_rows tb) + live_terms uid t [f item]"
proof -
  obtain pre post where rows: "table_rows tb = pre @ item # post" using split_list [OF assms(2)] by blast
  then have "sub_id item \<notin> sub_id ` set (pre @ post)" using assms(1) by (auto simp: keyed_def)
  then have "\<forall>x \<in> set (pre @ post). sub_id x \<noteq> sub_id item" by (metis imageI)
  then have "map (\<lambda>r. if sub_id r = sub_id item then f r else r) pre = pre"
    "map (\<lambda>r. if sub_id r = sub_id item then f r else r) post = post"
    by (auto intro!: map_idI)
  then show ?thesis by (simp add: update_rows_def rows)
qed

definition held_rows :: "billing_db \<Rightarrow> subscription_row list \<Rightarrow> bool" where
  "held_rows db items \<longleftrightarrow> keyed sub_id (db_subscriptions db) \<and> set items \<subseteq> set (table_rows (db_subscriptions db))"

lemma held_update:
  assumes "held_rows db items" "sub_id item \<notin> sub_id ` set items" "\<And>r. sub_id (f r) = sub_id r"
  shows "held_rows (db\<lparr>db_subscriptions := update_rows (\<lambda>r. sub_id r = sub_id item) f (db_subscriptions db)\<rparr>) items"
  using assms keyed_update [of sub_id _ f] unfolding held_rows_def
  by (force simp: update_rows_def image_iff)

section \<open>The steps of the update\<close>

lemma expire_step:
  assumes "held_rows db (item # items)" "sub_id item \<notin> sub_id ` set items"
  shows "held_rows (expire_subscription item now db) items"
    "in_force (expire_subscription item now db) uid t + live_terms uid t [item] = in_force db uid t"
proof -
  show "held_rows (expire_subscription item now db) items"
    unfolding expire_subscription_def Let_def
    using assms by (intro held_update) (auto simp: held_rows_def)
  show "in_force (expire_subscription item now db) uid t + live_terms uid t [item] = in_force db uid t"
    using assms live_terms_update [of "db_subscriptions db" item uid t]
    by (simp add: expire_subscription_def Let_def in_force_def held_rows_def row_live_def)
qed

lemma update_step:
  assumes "held_rows db (item # items)" "sub_id item \<notin> sub_id ` set items" "sub_user_id item = uid"
  obtains db' new_row where "update_subscription_segment item segment now db = (Inr new_row, db')"
    "held_rows db' items"
    "\<And>t. now \<le> t \<Longrightarrow> in_force db' uid t + live_terms uid t [item] = in_force db uid t + planned [segment] t"
    "\<And>u t. u \<noteq> uid \<Longrightarrow> in_force db' u t = in_force db u t"
proof -
  let ?f = "placed_row item segment now"
  define db' where "db' = db\<lparr>db_subscriptions := update_rows (\<lambda>r. sub_id r = sub_id item) ?f (db_subscriptions db)\<rparr>"
  from assms(1) have item: "keyed sub_id (db_subscriptions db)" "item \<in> set (table_rows (db_subscriptions db))"
    by (auto simp: held_rows_def)
  have id: "sub_id (?f r) = sub_id r" for r by (simp add: placed_row_def Let_def)
  have "keyed sub_id (db_subscriptions db')" unfolding db'_def using keyed_update [OF item(1) id] by simp
  moreover have "?f item \<in> set (table_rows (db_subscriptions db'))"
    using item(2) by (force simp: db'_def update_rows_def)
  ultimately have "first_row (\<lambda>r. sub_id r = sub_id item) (db_subscriptions db') = Some (?f item)"
    using first_row_key [of sub_id "db_subscriptions db'" "?f item"] id by simp
  then have run: "update_subscription_segment item segment now db = (Inr (?f item), db')"
    unfolding update_subscription_segment_def Let_def by (simp add: db'_def)
  have held: "held_rows db' items"
    unfolding db'_def using assms by (intro held_update) (auto simp: held_rows_def placed_row_def Let_def)
  have step: "in_force db' u t + live_terms u t [item] = in_force db u t + live_terms u t [?f item]" for u t
    using live_terms_update [OF item, of u t ?f] by (simp add: in_force_def db'_def)
  have "live_terms uid t [?f item] = planned [segment] t" if "now \<le> t" for t
    using that assms(3) by (auto simp: row_live_def placed_row_def Let_def covers_def row_terms_def seg_terms_def)
  moreover have "live_terms u t [?f item] = {#}" "live_terms u t [item] = {#}" if "u \<noteq> uid" for u t
    using that assms(3) by (auto simp: row_live_def placed_row_def Let_def)
  ultimately show ?thesis
    using that [OF run held] step by (metis (no_types, lifting) add.right_neutral)
qed

lemma create_step:
  assumes "held_rows db items" "uid \<noteq> 0" "valid_segment segment"
  obtains db' new_row where "create_subscription_segment uid segment db = (Inr new_row, db')" "held_rows db' items"
    "\<And>t. in_force db' uid t = in_force db uid t + planned [segment] t"
    "\<And>u t. u \<noteq> uid \<Longrightarrow> in_force db' u t = in_force db u t"
proof -
  let ?t = "db_subscriptions db"
  define new_row where "new_row = \<lparr>sub_id = table_next ?t, sub_user_id = uid, sub_plan_id = seg_plan_id segment,
      sub_price_id = seg_price_id segment, sub_status = ''active'', sub_start_at = seg_start_at segment,
      sub_period_start_at = seg_start_at segment, sub_period_end_at = Some (seg_end_at segment),
      sub_cancel_at_period_end = seg_cancel_at_period_end segment, sub_canceled_at = None,
      sub_auto_renew = seg_auto_renew segment\<rparr>"
  define tb where "tb = ?t\<lparr>table_rows := table_rows ?t @ [new_row], table_next := table_next ?t + 1\<rparr>"
  have new: "create_subscription_segment uid segment db = (Inr new_row, db\<lparr>db_subscriptions := tb\<rparr>)"
    "sub_id new_row = table_next ?t" "table_rows tb = table_rows ?t @ [new_row]"
    "table_next tb = table_next ?t + 1" "sub_user_id new_row = uid"
    "row_terms new_row = seg_terms segment" "row_live uid t new_row \<longleftrightarrow> covers t segment" for t
    using assms(2,3)
    by (auto simp: create_subscription_segment_def create_row_def valid_segment_def row_terms_def seg_terms_def
        row_live_def covers_def new_row_def tb_def)
  show ?thesis
  proof (rule that [OF new(1)])
    show "held_rows (db\<lparr>db_subscriptions := tb\<rparr>) items"
      using assms(1) new(2-4) by (auto simp: held_rows_def keyed_def)
    show "in_force (db\<lparr>db_subscriptions := tb\<rparr>) uid t = in_force db uid t + planned [segment] t" for t
      using new(6,7) by (simp add: in_force_def new(3))
    show "in_force (db\<lparr>db_subscriptions := tb\<rparr>) u t = in_force db u t" if "u \<noteq> uid" for u t
      using that new(5) by (simp add: in_force_def new(3) row_live_def)
  qed
qed

section \<open>The loops of the update\<close>

abbreviation "wanted grant_plan s \<equiv> seg_new_grant s \<and> seg_plan_id s = grant_plan"

lemma remember_granted_None:
  "remember_granted gp target new_row granted = None \<longleftrightarrow> granted = None \<and> \<not> wanted gp target"
  by (auto simp: remember_granted_def)

lemma apply_created:
  assumes "held_rows db items" "uid \<noteq> 0" "all_valid targets"
    and "\<forall>item k. reuse = Some (item, k) \<longrightarrow> k < index"
  shows "\<exists>db' granted'. apply_targets uid reuse now gp index targets granted db = (Inr granted', db') \<and>
    held_rows db' items \<and> (granted' = None \<longleftrightarrow> granted = None \<and> (\<forall>s \<in> set targets. \<not> wanted gp s)) \<and>
    (\<forall>t. in_force db' uid t = in_force db uid t + planned targets t) \<and>
    (\<forall>u t. u \<noteq> uid \<longrightarrow> in_force db' u t = in_force db u t)"
  using assms
proof (induction targets arbitrary: index granted db)
  case (Cons s targets)
  from Cons.prems(3) have "valid_segment s" by simp
  then obtain db1 new_row where new: "create_subscription_segment uid s db = (Inr new_row, db1)" "held_rows db1 items"
    "\<And>t. in_force db1 uid t = in_force db uid t + planned [s] t"
    "\<And>u t. u \<noteq> uid \<Longrightarrow> in_force db1 u t = in_force db u t"
    by (rule create_step [OF Cons.prems(1,2)]) blast
  have run: "apply_targets uid reuse now gp index (s # targets) granted db =
      apply_targets uid reuse now gp (Suc index) targets (remember_granted gp s new_row granted) db1"
    using new(1) Cons.prems(4) by (auto split: option.splits)
  from Cons.IH [OF new(2) Cons.prems(2), of "Suc index" "remember_granted gp s new_row granted"] Cons.prems(3,4)
  obtain db' granted' where rest:
    "apply_targets uid reuse now gp (Suc index) targets (remember_granted gp s new_row granted) db1 = (Inr granted', db')"
    "held_rows db' items" "granted' = None \<longleftrightarrow> remember_granted gp s new_row granted = None \<and> (\<forall>s \<in> set targets. \<not> wanted gp s)"
    "\<forall>t. in_force db' uid t = in_force db1 uid t + planned targets t"
    "\<forall>u t. u \<noteq> uid \<longrightarrow> in_force db' u t = in_force db1 u t"
    by (auto simp: less_Suc_eq)
  have "in_force db' uid t = in_force db uid t + planned (s # targets) t" for t
    using new(3) [of t] rest(4) by (simp add: ac_simps)
  then show ?case unfolding run using rest new(4) by (auto simp: remember_granted_None simp del: planned_simps)
qed simp

text \<open>The one part that reuses the row; the parts before and after it are created.\<close>

lemma apply_reused:
  assumes "held_rows db (item # items)" "sub_id item \<notin> sub_id ` set items" "sub_user_id item = uid" "uid \<noteq> 0"
    and "all_valid targets" "index \<le> k" "k < index + length targets"
  shows "\<exists>db' granted'. apply_targets uid (Some (item, k)) now gp index targets granted db = (Inr granted', db') \<and>
    held_rows db' items \<and> (granted' = None \<longleftrightarrow> granted = None \<and> (\<forall>s \<in> set targets. \<not> wanted gp s)) \<and>
    (\<forall>t. now \<le> t \<longrightarrow> in_force db' uid t + live_terms uid t [item] = in_force db uid t + planned targets t) \<and>
    (\<forall>u t. u \<noteq> uid \<longrightarrow> in_force db' u t = in_force db u t)"
  using assms
proof (induction targets arbitrary: index granted db)
  case (Cons s targets)
  show ?case
  proof (cases "index = k")
    case True
    obtain db1 new_row where new: "update_subscription_segment item s now db = (Inr new_row, db1)" "held_rows db1 items"
      "\<And>t. now \<le> t \<Longrightarrow> in_force db1 uid t + live_terms uid t [item] = in_force db uid t + planned [s] t"
      "\<And>u t. u \<noteq> uid \<Longrightarrow> in_force db1 u t = in_force db u t"
      by (rule update_step [OF Cons.prems(1-3), of s now]) blast
    have run: "apply_targets uid (Some (item, k)) now gp index (s # targets) granted db =
        apply_targets uid (Some (item, k)) now gp (Suc index) targets (remember_granted gp s new_row granted) db1"
      using new(1) True by simp
    obtain db' granted' where rest:
      "apply_targets uid (Some (item, k)) now gp (Suc index) targets (remember_granted gp s new_row granted) db1 = (Inr granted', db')"
      "held_rows db' items" "granted' = None \<longleftrightarrow> remember_granted gp s new_row granted = None \<and> (\<forall>s \<in> set targets. \<not> wanted gp s)"
      "\<forall>t. in_force db' uid t = in_force db1 uid t + planned targets t"
      "\<forall>u t. u \<noteq> uid \<longrightarrow> in_force db' u t = in_force db1 u t"
      using apply_created [OF new(2) Cons.prems(4), of targets "Some (item, k)" "Suc index" now gp
          "remember_granted gp s new_row granted"] Cons.prems(5) True by auto
    have "in_force db' uid t + live_terms uid t [item] = in_force db uid t + planned (s # targets) t" if "now \<le> t" for t
      using new(3) [OF that] rest(4) by (simp add: ac_simps)
    then show ?thesis unfolding run using rest new(4) by (auto simp: remember_granted_None simp del: planned_simps)
  next
    case False
    from Cons.prems(5) have "valid_segment s" by simp
    then obtain db1 new_row where new: "create_subscription_segment uid s db = (Inr new_row, db1)" "held_rows db1 (item # items)"
      "\<And>t. in_force db1 uid t = in_force db uid t + planned [s] t"
      "\<And>u t. u \<noteq> uid \<Longrightarrow> in_force db1 u t = in_force db u t"
      by (rule create_step [OF Cons.prems(1,4)]) blast
    have run: "apply_targets uid (Some (item, k)) now gp index (s # targets) granted db =
        apply_targets uid (Some (item, k)) now gp (Suc index) targets (remember_granted gp s new_row granted) db1"
      using new(1) False by simp
    obtain db' granted' where rest:
      "apply_targets uid (Some (item, k)) now gp (Suc index) targets (remember_granted gp s new_row granted) db1 = (Inr granted', db')"
      "held_rows db' items" "granted' = None \<longleftrightarrow> remember_granted gp s new_row granted = None \<and> (\<forall>s \<in> set targets. \<not> wanted gp s)"
      "\<forall>t. now \<le> t \<longrightarrow> in_force db' uid t + live_terms uid t [item] = in_force db1 uid t + planned targets t"
      "\<forall>u t. u \<noteq> uid \<longrightarrow> in_force db' u t = in_force db1 u t"
      using Cons.IH [OF new(2) Cons.prems(2-4), of "Suc index" "remember_granted gp s new_row granted"]
        Cons.prems(5-7) False by auto
    have "in_force db' uid t + live_terms uid t [item] = in_force db uid t + planned (s # targets) t" if "now \<le> t" for t
      using new(3) [of t] rest(4) that by (simp add: ac_simps)
    then show ?thesis unfolding run using rest new(4) by (auto simp: remember_granted_None simp del: planned_simps)
  qed
qed simp

abbreviation "parts segments item \<equiv>
  filter (\<lambda>s. 0 < seg_subscription_id s \<and> seg_subscription_id s = sub_id item) segments"

lemma find_index_bound: "find_index_opt P xs = Some i \<Longrightarrow> i < length xs"
  by (induction xs arbitrary: i) (auto split: if_splits)

lemma apply_existing_ok:
  assumes "held_rows db items" "distinct (map sub_id items)" "\<forall>item \<in> set items. sub_user_id item = uid" "uid \<noteq> 0"
    and "all_valid segments"
  shows "\<exists>db' granted'. apply_existing uid segments now gp items granted db = (Inr granted', db') \<and>
    keyed sub_id (db_subscriptions db') \<and>
    (granted' = None \<longleftrightarrow> granted = None \<and> (\<forall>item \<in> set items. \<forall>s \<in> set (parts segments item). \<not> wanted gp s)) \<and>
    (\<forall>t. now \<le> t \<longrightarrow> in_force db' uid t + live_terms uid t items =
       in_force db uid t + (\<Sum>item\<leftarrow>items. planned (parts segments item) t)) \<and>
    (\<forall>u t. u \<noteq> uid \<longrightarrow> in_force db' u t = in_force db u t)"
  using assms
proof (induction items arbitrary: granted db)
  case Nil
  then show ?case by (simp add: held_rows_def)
next
  case (Cons item items)
  have fresh: "sub_id item \<notin> sub_id ` set items" and user: "sub_user_id item = uid" using Cons.prems by auto
  have valid: "all_valid (parts segments item)" using Cons.prems(5) by (auto simp: all_valid_def)
  define expired where "expired = expire_subscription item now db"
  have gone: "held_rows expired items"
    "in_force expired u t + live_terms u t [item] = in_force db u t" for u t
    unfolding expired_def using expire_step [OF Cons.prems(1) fresh] by auto
  have foreign: "live_terms u t [item] = {#}" if "u \<noteq> uid" for u t using that user by (simp add: row_live_def)
  obtain db1 granted1 where one: "apply_existing uid segments now gp (item # items) granted db =
        apply_existing uid segments now gp items granted1 db1"
    "held_rows db1 items" "granted1 = None \<longleftrightarrow> granted = None \<and> (\<forall>s \<in> set (parts segments item). \<not> wanted gp s)"
    "\<And>t. now \<le> t \<Longrightarrow> in_force db1 uid t + live_terms uid t [item] = in_force db uid t + planned (parts segments item) t"
    "\<And>u t. u \<noteq> uid \<Longrightarrow> in_force db1 u t = in_force db u t"
  proof (cases "parts segments item = []")
    case True
    show ?thesis
    proof (rule that [of granted expired])
      show "in_force expired u t = in_force db u t" if "u \<noteq> uid" for u t
        using gone(2) [of u t] foreign [OF that, of t] by simp
      show "in_force expired uid t + live_terms uid t [item] = in_force db uid t + planned (parts segments item) t" for t
        using gone(2) [of uid t] True by simp
    qed (use True gone(1) in \<open>auto simp: expired_def Let_def\<close>)
  next
    case some: False
    show ?thesis
    proof (cases "reusable_segment_index item (parts segments item) now")
      case None
      have "\<forall>(i :: subscription_row) k. None = Some (i, k) \<longrightarrow> k < 0" by simp
      from apply_created [OF gone(1) Cons.prems(4) valid this, of now gp granted]
      obtain db' granted' where rest:
        "apply_targets uid None now gp 0 (parts segments item) granted expired = (Inr granted', db')"
        "held_rows db' items" "granted' = None \<longleftrightarrow> granted = None \<and> (\<forall>s \<in> set (parts segments item). \<not> wanted gp s)"
        "\<forall>t. in_force db' uid t = in_force expired uid t + planned (parts segments item) t"
        "\<forall>u t. u \<noteq> uid \<longrightarrow> in_force db' u t = in_force expired u t" by blast
      show ?thesis
      proof (rule that [of granted' db'])
        show "apply_existing uid segments now gp (item # items) granted db =
            apply_existing uid segments now gp items granted' db'"
          using rest(1) some None by (simp add: Let_def expired_def [symmetric])
        show "in_force db' uid t + live_terms uid t [item] = in_force db uid t + planned (parts segments item) t" for t
          unfolding rest(4) [rule_format] gone(2) [of uid t, symmetric] by (simp only: ac_simps)
        show "in_force db' u t = in_force db u t" if "u \<noteq> uid" for u t
          using rest(5) gone(2) [of u t] foreign [OF that, of t] that by simp
      qed (rule rest)+
    next
      case (Some k)
      then have "k < 0 + length (parts segments item)"
        unfolding reusable_segment_index_def by (auto dest: find_index_bound)
      from apply_reused [OF Cons.prems(1) fresh user Cons.prems(4) valid le0 this, of now gp granted]
      obtain db' granted' where rest:
        "apply_targets uid (Some (item, k)) now gp 0 (parts segments item) granted db = (Inr granted', db')"
        "held_rows db' items" "granted' = None \<longleftrightarrow> granted = None \<and> (\<forall>s \<in> set (parts segments item). \<not> wanted gp s)"
        "\<forall>t. now \<le> t \<longrightarrow> in_force db' uid t + live_terms uid t [item] = in_force db uid t + planned (parts segments item) t"
        "\<forall>u t. u \<noteq> uid \<longrightarrow> in_force db' u t = in_force db u t" by blast
      show ?thesis
      proof (rule that [of granted' db'])
        show "apply_existing uid segments now gp (item # items) granted db =
            apply_existing uid segments now gp items granted' db'"
          using rest(1) some Some by (simp add: Let_def)
      qed (use rest in blast)+
    qed
  qed
  have "distinct (map sub_id items)" "\<forall>item \<in> set items. sub_user_id item = uid" using Cons.prems(2,3) by auto
  from Cons.IH [OF one(2) this Cons.prems(4,5), of granted1]
  obtain db' granted' where rest: "apply_existing uid segments now gp items granted1 db1 = (Inr granted', db')"
    "keyed sub_id (db_subscriptions db')"
    "granted' = None \<longleftrightarrow> granted1 = None \<and> (\<forall>item \<in> set items. \<forall>s \<in> set (parts segments item). \<not> wanted gp s)"
    "\<forall>t. now \<le> t \<longrightarrow> in_force db' uid t + live_terms uid t items =
       in_force db1 uid t + (\<Sum>item\<leftarrow>items. planned (parts segments item) t)"
    "\<forall>u t. u \<noteq> uid \<longrightarrow> in_force db' u t = in_force db1 u t" by blast
  have "in_force db' uid t + live_terms uid t (item # items) =
      in_force db uid t + (\<Sum>item\<leftarrow>item # items. planned (parts segments item) t)" if "now \<le> t" for t
  proof -
    have "in_force db' uid t + live_terms uid t (item # items) =
        (in_force db' uid t + live_terms uid t items) + live_terms uid t [item]" by (simp add: ac_simps)
    also have "\<dots> = (in_force db1 uid t + live_terms uid t [item]) + (\<Sum>item\<leftarrow>items. planned (parts segments item) t)"
      using rest(4) that by (simp only: ac_simps)
    also have "\<dots> = in_force db uid t + (\<Sum>item\<leftarrow>item # items. planned (parts segments item) t)"
      using one(4) [OF that] by (simp add: ac_simps)
    finally show ?thesis .
  qed
  then show ?case unfolding one(1) using rest(1,2,3,5) one(3,5) by (intro exI [of _ db'] exI [of _ granted']) auto
qed

section \<open>From the rows to a timeline and back\<close>

lemma live_terms_mset:
  "live_terms uid t rows = image_mset row_terms (filter_mset (row_live uid t) (mset rows))"
  by (simp add: live_terms_def)

lemma dated_rows_live:
  assumes "now \<le> t"
  shows "live_terms uid t (dated_rows db uid now) = in_force db uid t"
proof -
  have "row_live uid t r \<Longrightarrow> sub_user_id r = uid \<and> sub_status r = ''active'' \<and>
      (case sub_period_end_at r of None \<Rightarrow> False | Some e \<Rightarrow> now < e)" for r
    using assms by (auto simp: row_live_def split: option.splits)
  then show ?thesis
    unfolding in_force_def live_terms_mset dated_rows_def
    by (auto simp: mset_filter filter_filter_mset intro!: arg_cong [of _ _ "image_mset row_terms"] filter_mset_cong)
qed

lemma dated_rows_sound:
  assumes "r \<in> set (dated_rows db uid now)"
  shows "r \<in> set (table_rows (db_subscriptions db))" "sub_user_id r = uid" "sub_status r = ''active''"
    "\<exists>e. sub_period_end_at r = Some e \<and> now < e"
  using assms by (auto simp: dated_rows_def split: option.splits)

lemma dated_rows_users: "\<forall>r \<in> set (dated_rows db uid now). sub_user_id r = uid \<and> sub_status r = ''active''"
  using dated_rows_sound by blast

lemma dated_rows_distinct: "keyed sub_id (db_subscriptions db) \<Longrightarrow> distinct (map sub_id (dated_rows db uid now))"
  by (simp add: dated_rows_def keyed_def distinct_map inj_on_def)

definition time_left :: "time \<Rightarrow> subscription_row \<Rightarrow> int" where
  "time_left now r = (case sub_period_end_at r of None \<Rightarrow> 0 | Some e \<Rightarrow> max 0 (e - max now (sub_period_start_at r)))"

lemma segments_of_rows_ok:
  assumes "segments_of_rows plans now items = Inr segs"
    and "\<forall>r \<in> set items. sub_user_id r = uid \<and> sub_status r = ''active''"
  shows "(\<forall>t \<ge> now. planned segs t = live_terms uid t items) \<and>
    (\<forall>s \<in> set segs. seg_subscription_id s \<in> sub_id ` set items \<and> \<not> seg_new_grant s \<and> now \<le> seg_start_at s) \<and>
    ((\<forall>r \<in> set items. sub_plan_id r \<noteq> 0 \<and> sub_price_id r \<noteq> 0) \<longrightarrow> all_valid segs) \<and>
    amount anything segs = sum_list (map (time_left now) items)"
  using assms
proof (induction items arbitrary: segs)
  case (Cons item items)
  let ?start = "if sub_period_start_at item < now then now else sub_period_start_at item"
  show ?case
  proof (cases "\<exists>e. sub_period_end_at item = Some e \<and> now < e \<and> ?start < e")
    case False
    then have "segments_of_rows plans now items = Inr segs"
      using Cons.prems(1) by (auto simp: Let_def split: option.splits if_splits)
    moreover have "\<not> row_live uid t item" if "now \<le> t" for t
    proof
      assume "row_live uid t item"
      then obtain e where "sub_period_end_at item = Some e" "t < e" "sub_period_start_at item \<le> t"
        by (auto simp: row_live_def split: option.splits)
      then show False using False that by (auto split: if_splits)
    qed
    moreover have "time_left now item = 0"
    proof (cases "sub_period_end_at item")
      case (Some e)
      with False have "\<not> (now < e \<and> ?start < e)" by blast
      then show ?thesis using Some by (auto simp: time_left_def max_def split: if_splits)
    qed (simp add: time_left_def)
    ultimately show ?thesis using Cons by auto
  next
    case True
    then obtain e where e: "sub_period_end_at item = Some e" "now < e" "?start < e" by blast
    from Cons.prems(1) e obtain rest seg where rest: "segments_of_rows plans now items = Inr rest" "segs = seg # rest"
      and seg: "seg_start_at seg = ?start" "seg_end_at seg = e" "seg_terms seg = row_terms item"
        "seg_subscription_id seg = sub_id item" "\<not> seg_new_grant seg"
        "seg_plan_id seg = sub_plan_id item" "seg_price_id seg = sub_price_id item"
      by (auto simp: Let_def seg_terms_def row_terms_def split: option.splits sum.splits)
    have "covers t seg \<longleftrightarrow> row_live uid t item" if "now \<le> t" for t
      using that e Cons.prems(2) by (auto simp: covers_def row_live_def seg)
    moreover have "seg_length seg = time_left now item" using e by (auto simp: seg_length_def time_left_def seg max_def)
    ultimately show ?thesis using Cons.IH [OF rest(1)] Cons.prems(2) seg rest(2) e(3) by (auto simp: valid_segment_def)
  qed
qed simp

text \<open>Every part of a timeline is a part of exactly one row, or new.\<close>

lemma planned_parts:
  assumes "seg_subscription_id ` set segs \<subseteq> insert 0 (sub_id ` set items)" "distinct (map sub_id items)"
  shows "(\<Sum>item\<leftarrow>items. planned (parts segs item) t) + planned (filter (\<lambda>s. seg_subscription_id s = 0) segs) t =
    planned segs t"
  using assms(1)
proof (induction segs)
  case (Cons s segs)
  have once: "(\<Sum>item\<leftarrow>items. if 0 < seg_subscription_id s \<and> seg_subscription_id s = sub_id item then x else {#}) =
      (if 0 < seg_subscription_id s \<and> seg_subscription_id s \<in> sub_id ` set items then x else {#})"
    for x :: "terms multiset"
    using assms(2) by (induction items) auto
  have "(\<Sum>item\<leftarrow>items. planned (parts (s # segs) item) t) =
      (\<Sum>item\<leftarrow>items. (if 0 < seg_subscription_id s \<and> seg_subscription_id s = sub_id item
         then planned [s] t else {#}) + planned (parts segs item) t)"
    by (intro arg_cong [of _ _ sum_list] map_cong) auto
  then show ?case using Cons by (auto simp: sum_list_addf once simp del: planned_simps(2) split: if_splits) (simp_all add: ac_simps)
qed simp

lemma placed_somewhere:
  assumes "seg_subscription_id ` set segs \<subseteq> insert 0 (sub_id ` set items)" "s \<in> set segs"
  shows "s \<in> set (filter (\<lambda>s. seg_subscription_id s = 0) segs) \<or> (\<exists>item \<in> set items. s \<in> set (parts segs item))"
  using assms by (cases "seg_subscription_id s = 0") auto

lemma apply_timeline_ok:
  assumes keyed: "keyed sub_id (db_subscriptions db)" and uid: "uid \<noteq> 0"
    and segs: "all_valid segs" "normalize_timeline segs = segs"
      "seg_subscription_id ` set segs \<subseteq> insert 0 (sub_id ` set (dated_rows db uid now))"
  shows "\<exists>res db'. apply_subscription_timeline uid (dated_rows db uid now) segs now gp db = (res, db') \<and>
    keyed sub_id (db_subscriptions db') \<and> (\<forall>t \<ge> now. in_force db' uid t = planned segs t) \<and>
    (\<forall>u t. u \<noteq> uid \<longrightarrow> in_force db' u t = in_force db u t) \<and>
    (res = Inl ErrInvalidInput \<or> (\<exists>record. res = Inr record)) \<and>
    ((\<exists>record. res = Inr record) \<longleftrightarrow> (\<exists>s \<in> set segs. wanted gp s))"
proof -
  let ?items = "dated_rows db uid now" and ?new = "filter (\<lambda>s. seg_subscription_id s = 0) segs"
  have held: "held_rows db ?items" using keyed dated_rows_sound by (auto simp: held_rows_def)
  have users: "\<forall>item \<in> set ?items. sub_user_id item = uid" using dated_rows_sound by blast
  from apply_existing_ok [OF held dated_rows_distinct [OF keyed] users uid segs(1), of now gp None]
  obtain db1 granted1 where one: "apply_existing uid segs now gp ?items None db = (Inr granted1, db1)"
    "keyed sub_id (db_subscriptions db1)"
    "granted1 = None \<longleftrightarrow> (None :: subscription_row option) = None \<and> (\<forall>item \<in> set ?items. \<forall>s \<in> set (parts segs item). \<not> wanted gp s)"
    "\<forall>t. now \<le> t \<longrightarrow> in_force db1 uid t + live_terms uid t ?items =
       in_force db uid t + (\<Sum>item\<leftarrow>?items. planned (parts segs item) t)"
    "\<forall>u t. u \<noteq> uid \<longrightarrow> in_force db1 u t = in_force db u t"
    by blast
  have before: "in_force db1 uid t = (\<Sum>item\<leftarrow>?items. planned (parts segs item) t)" if "now \<le> t" for t
    using one(4) [rule_format, OF that] unfolding dated_rows_live [OF that]
    by (simp only: add.commute [of _ "in_force db uid t"] add_left_cancel)
  have held1: "held_rows db1 []" using one(2) by (simp add: held_rows_def)
  have valid: "all_valid ?new" using segs(1) by (auto simp: all_valid_def)
  have none: "\<forall>(item :: subscription_row) k. None = Some (item, k) \<longrightarrow> k < 0" by simp
  from apply_created [OF held1 uid valid none, of now gp granted1] obtain db2 granted2 where two: "apply_targets uid None now gp 0 ?new granted1 db1 = (Inr granted2, db2)"
    "held_rows db2 []"
    "granted2 = None \<longleftrightarrow> granted1 = None \<and> (\<forall>s \<in> set ?new. \<not> wanted gp s)"
    "\<forall>t. in_force db2 uid t = in_force db1 uid t + planned ?new t"
    "\<forall>u t. u \<noteq> uid \<longrightarrow> in_force db2 u t = in_force db1 u t"
    by blast
  have "in_force db2 uid t = planned segs t" if "now \<le> t" for t
    using two(4) before [OF that] planned_parts [OF segs(3) dated_rows_distinct [OF keyed]] by simp
  moreover have "granted2 = None \<longleftrightarrow> (\<forall>s \<in> set segs. \<not> wanted gp s)"
    unfolding two(3) one(3) using placed_somewhere [OF segs(3)] by auto
  moreover have "apply_subscription_timeline uid ?items segs now gp db =
      (case granted2 of None \<Rightarrow> Inl ErrInvalidInput | Some record \<Rightarrow> Inr record, db2)"
    using one(1) two(1) by (simp add: apply_subscription_timeline_def segs(2) split: option.split)
  ultimately show ?thesis using one(5) two(2,5) by (auto simp: held_rows_def split: option.splits)
qed

text \<open>The case analysis of a request that gets as far as a timeline.\<close>

lemma grant_cases:
  assumes "grant_subscription_on_timeline inp clock db = (res, db')"
    and "keyed sub_id (db_subscriptions db)"
    and now: "now = (if is_zero (tg_start_at inp) then clock else tg_start_at inp)"
  obtains (refused) e where "res = Inl e" "db' = db"
  | (timeline) plans before after
    where "segments_of_rows plans now (dated_rows db (tg_user_id inp) now) = Inr before"
      "build_subscription_timeline before (grant_of_request inp now) = Inr after"
      "plan_id (tg_plan inp) \<noteq> 0" "price_id (tg_price inp) \<noteq> 0"
      "keyed sub_id (db_subscriptions db')" "\<forall>t \<ge> now. in_force db' (tg_user_id inp) t = planned after t"
      "\<forall>u t. u \<noteq> tg_user_id inp \<longrightarrow> in_force db' u t = in_force db u t"
proof -
  let ?u = "tg_user_id inp" and ?rows = "dated_rows db (tg_user_id inp) now"
  show ?thesis
  proof (cases "\<exists>plans before. billing_plans_for_timeline db (append_subscription_plan_id ?rows
        (if 0 < plan_id (tg_plan inp) then [plan_id (tg_plan inp)] else [])) = Inr plans \<and>
      segments_of_rows plans now ?rows = Inr before \<and>
      \<not> (?u = 0 \<or> plan_id (tg_plan inp) = 0 \<or> price_id (tg_price inp) = 0 \<or> tg_duration inp \<le> 0)")
    case False
    then show ?thesis using assms(1) refused
      by (auto simp: grant_subscription_on_timeline_def Let_def now split: if_splits sum.splits)
  next
    case True
    then obtain plans before where ok: "billing_plans_for_timeline db (append_subscription_plan_id ?rows
        (if 0 < plan_id (tg_plan inp) then [plan_id (tg_plan inp)] else [])) = Inr plans"
      "segments_of_rows plans now ?rows = Inr before"
      "?u \<noteq> 0" "plan_id (tg_plan inp) \<noteq> 0" "price_id (tg_price inp) \<noteq> 0" "0 < tg_duration inp" by auto
    have "0 < gr_duration (grant_of_request inp now)" using ok(6) by (simp add: grant_of_request_def)
    then obtain after where built: "build_subscription_timeline before (grant_of_request inp now) = Inr after"
      by (rule grant_is_built)
    have run: "apply_subscription_timeline ?u ?rows after now (plan_id (tg_plan inp)) db = (res, db')"
      using assms(1) ok built by (simp add: grant_subscription_on_timeline_def Let_def now [symmetric])
    have sids: "seg_subscription_id ` set segs = fst ` entitlement ` set segs" for segs
      by (simp add: image_image entitlement_def)
    have "seg_subscription_id ` set before \<subseteq> sub_id ` set ?rows"
      using segments_of_rows_ok [OF ok(2) dated_rows_users, THEN conjunct2, THEN conjunct1]
      by (simp add: image_subset_iff)
    note existing = insert_mono [OF this]
    have "fst (grant_entitlement (grant_of_request inp now)) = 0"
      by (simp add: grant_entitlement_def grant_of_request_def)
    then have "seg_subscription_id ` set after \<subseteq> insert 0 (seg_subscription_id ` set before)"
      using image_mono [OF build_timeline_parts(1) [OF built], of fst] unfolding sids by (simp only: image_insert)
    note ids = order_trans [OF this existing]
    from apply_timeline_ok [OF assms(2) ok(3) build_timeline_parts(2,3) [OF built] ids, of "plan_id (tg_plan inp)"]
    have "keyed sub_id (db_subscriptions db') \<and> (\<forall>t \<ge> now. in_force db' ?u t = planned after t) \<and>
        (\<forall>u t. u \<noteq> ?u \<longrightarrow> in_force db' u t = in_force db u t)"
      unfolding run by (elim exE conjE) simp
    then show ?thesis by (elim conjE) (rule timeline [OF ok(2) built ok(4,5)])
  qed
qed

section \<open>Properties\<close>

text \<open>
  C7. The rows implement the timeline. Whenever granting a subscription succeeds, there is a timeline
  (the dated active rows of the user) that says exactly what is in force at every instant from the
  grant on, the grant extends it as buildSubscriptionTimeline does, and afterwards the rows say
  exactly what the extended timeline says: plan, price, renewal and cancellation flags, with their
  multiplicity. Rows are reused, split, created and expired, and none of it shows. No other user's
  subscriptions change.
\<close>

theorem grant_refines_timeline:
  assumes "grant_subscription_on_timeline inp clock db = (Inr granted, db')"
    and "keyed sub_id (db_subscriptions db)"
    and "now = (if is_zero (tg_start_at inp) then clock else tg_start_at inp)"
  shows "(\<exists>before after. build_subscription_timeline before (grant_of_request inp now) = Inr after \<and>
      (\<forall>t \<ge> now. in_force db (tg_user_id inp) t = planned before t \<and>
         in_force db' (tg_user_id inp) t = planned after t)) \<and>
    (\<forall>u t. u \<noteq> tg_user_id inp \<longrightarrow> in_force db' u t = in_force db u t)"
proof (cases rule: grant_cases [OF assms, case_names refused timeline])
  case (timeline plans before after)
  from segments_of_rows_ok [OF timeline(1) dated_rows_users, THEN conjunct1]
  have "\<forall>t \<ge> now. in_force db (tg_user_id inp) t = planned before t" by (simp add: dated_rows_live)
  with timeline(2,6,7) show ?thesis by blast
qed simp

text \<open>
  C38. One plan at a time. If no user has two dated subscriptions in force at one instant from the grant
  on, then after the transaction that grants a subscription, whether it succeeds or is rolled back, the
  same holds for every user, and the ids of the rows are still unique. The rows of the user name a
  plan and a price, and what is left of them with the grant must fit a time.Duration.
\<close>

theorem grant_keeps_one_plan:
  assumes "transaction (grant_subscription_on_timeline inp clock) db = (res, db')"
    and keyed: "keyed sub_id (db_subscriptions db)"
    and now: "now = (if is_zero (tg_start_at inp) then clock else tg_start_at inp)"
    and one: "\<forall>u. \<forall>t \<ge> now. size (in_force db u t) \<le> 1"
    and rows: "\<forall>r \<in> set (dated_rows db (tg_user_id inp) now). sub_plan_id r \<noteq> 0 \<and> sub_price_id r \<noteq> 0"
    and small: "sum_list (map (time_left now) (dated_rows db (tg_user_id inp) now)) + tg_duration inp \<le> max_int64"
  shows "keyed sub_id (db_subscriptions db') \<and> (\<forall>u. \<forall>t \<ge> now. size (in_force db' u t) \<le> 1)"
proof -
  obtain res1 db1 where grant: "grant_subscription_on_timeline inp clock db = (res1, db1)" by fastforce
  have db': "db' = db \<or> db' = db1" using assms(1) grant by (auto simp: transaction_def split: sum.splits)
  have "keyed sub_id (db_subscriptions db1) \<and> (\<forall>u. \<forall>t \<ge> now. size (in_force db1 u t) \<le> 1)"
  proof (cases rule: grant_cases [OF grant keyed now, case_names refused timeline])
    case (timeline plans before after)
    note seg = segments_of_rows_ok [OF timeline(1) dated_rows_users]
    have size: "size (planned segs t) = length (entitled segs t)" for segs t
      by (simp add: planned_def entitled_def flip: mset_filter)
    have "length (entitled before t) \<le> 1" for t
    proof (cases "now \<le> t")
      case True
      then have "planned before t = in_force db (tg_user_id inp) t" using seg by (simp add: dated_rows_live)
      then show ?thesis using one True size [of before t] by metis
    next
      case False
      then have "entitled before t = []" using seg by (auto simp: entitled_def covers_def filter_empty_conv)
      then show ?thesis by simp
    qed
    then have "single before" by (simp add: single_def)
    moreover have "all_valid before" using seg rows by blast
    ultimately have "all_valid after \<and> chain after"
      using build_timeline_ok [OF timeline(2)] timeline(3,4) seg small by (simp add: grant_of_request_def)
    then have "length (entitled after t) \<le> 1" for t using chain_single by (auto simp: single_def)
    then show ?thesis using timeline(5-7) one size by metis
  qed (use keyed one in simp)
  then show ?thesis using db' keyed one by blast
qed

section \<open>The properties at work\<close>

definition sample_row :: "nat \<Rightarrow> nat \<Rightarrow> nat \<Rightarrow> time \<Rightarrow> time \<Rightarrow> subscription_row" where
  "sample_row i uid plan a b =
     \<lparr>sub_id = i, sub_user_id = uid, sub_plan_id = plan, sub_price_id = plan, sub_status = ''active'', sub_start_at = a,
      sub_period_start_at = a, sub_period_end_at = Some b, sub_cancel_at_period_end = False, sub_canceled_at = None,
      sub_auto_renew = False\<rparr>"

definition sample_plan :: "nat \<Rightarrow> billing_plan" where
  "sample_plan i = \<lparr>plan_id = i, plan_code = ''plan'', plan_period_credit_nanousd = 0, plan_sort_order = 10 * int i,
     plan_is_active = True, plan_permission_group_id = None\<rparr>"

text \<open>User 7 has plan 2 for 90 days and then plan 1 for 20; user 8 has plan 2. User 7 buys 30 days of plan 3.\<close>

definition subscribed_db :: billing_db where
  "subscribed_db = empty_db\<lparr>
     db_subscriptions := \<lparr>table_rows = [sample_row 1 7 2 0 90, sample_row 2 7 1 90 110, sample_row 3 8 2 0 90], table_next = 4\<rparr>,
     db_plans := \<lparr>table_rows = map sample_plan [1, 2, 3], table_next = 4\<rparr>\<rparr>"

definition purchase :: timeline_grant_request where
  "purchase = \<lparr>tg_user_id = 7, tg_plan = sample_plan 3, tg_price = \<lparr>price_id = 3, price_plan_id = 3, price_amount_cents = 900,
     price_is_active = True, price_is_default = True\<rparr>, tg_start_at = 30, tg_duration = 30,
     tg_cancel_at_period_end = False, tg_auto_renew = False, tg_new_grant = True\<rparr>"

definition purchased :: "subscription_row tx_result" where
  "purchased = grant_subscription_on_timeline purchase 0 subscribed_db"

lemma purchase_granted: "grant_subscription_on_timeline purchase 0 subscribed_db = (Inr (sample_row 5 7 3 30 60), snd purchased)"
  by code_simp

lemma subscribed_keyed: "keyed sub_id (db_subscriptions subscribed_db)"
  by code_simp

lemma subscribed_rows: "dated_rows subscribed_db 7 30 = [sample_row 1 7 2 0 90, sample_row 2 7 1 90 110]"
  by code_simp

lemma subscribed_one: "size (in_force subscribed_db u t) \<le> 1"
  by (auto simp: in_force_def live_terms_def subscribed_db_def row_live_def sample_row_def)

theorem grant_refines_timeline_witness:
  "(\<exists>before after. build_subscription_timeline before (grant_of_request purchase 30) = Inr after \<and>
      (\<forall>t \<ge> 30. in_force subscribed_db 7 t = planned before t \<and> in_force (snd purchased) 7 t = planned after t)) \<and>
    in_force (snd purchased) 8 40 = {#(2, 2, False, False)#}"
proof -
  have "tg_user_id purchase = 7" "(30 :: int) = (if is_zero (tg_start_at purchase) then 0 else tg_start_at purchase)"
    by (simp_all add: purchase_def is_zero_def zero_time_def)
  note applied = grant_refines_timeline [OF purchase_granted subscribed_keyed this(2), unfolded this(1)]
  have "in_force (snd purchased) 8 40 = in_force subscribed_db 8 40"
    by (rule applied [THEN conjunct2, rule_format]) simp
  also have "\<dots> = {#(2, 2, False, False)#}"
    by (simp add: in_force_def live_terms_def subscribed_db_def row_live_def row_terms_def sample_row_def)
  finally show ?thesis using applied [THEN conjunct1] by simp
qed

theorem grant_keeps_one_plan_witness:
  "size (in_force (snd (transaction (grant_subscription_on_timeline purchase 0) subscribed_db)) 7 100) \<le> 1"
proof -
  have now: "(30 :: int) = (if is_zero (tg_start_at purchase) then 0 else tg_start_at purchase)"
    and user: "tg_user_id purchase = 7" "tg_duration purchase = 30"
    by (simp_all add: purchase_def is_zero_def zero_time_def)
  have left: "time_left 30 (sample_row 1 7 2 0 90) = 60" "time_left 30 (sample_row 2 7 1 90 110) = 20"
    by (simp_all add: time_left_def sample_row_def)
  have one: "\<forall>u. \<forall>t \<ge> 30. size (in_force subscribed_db u t) \<le> 1" using subscribed_one by blast
  have rows: "\<forall>r \<in> set (dated_rows subscribed_db (tg_user_id purchase) 30). sub_plan_id r \<noteq> 0 \<and> sub_price_id r \<noteq> 0"
    by (simp add: user subscribed_rows) (simp add: sample_row_def)
  have "sum_list (map (time_left 30) (dated_rows subscribed_db (tg_user_id purchase) 30)) + tg_duration purchase \<le> max_int64"
    by (simp add: user subscribed_rows left [simplified] max_int64_def)
  from grant_keeps_one_plan [OF prod.collapse [symmetric] subscribed_keyed now one rows this] show ?thesis by simp
qed

end
