(* ===== verification/Ledger.thy ===== *)
theory Ledger
  imports Billing_Db "HOL-Library.AList"
begin

text \<open>
  Reservation and settlement of usage (repository_reservation.go and repository.go of
  infra/persistence/postgres/billing). Before a call to a model its budget is reserved from the balance
  and the credit of the period; afterwards the real usage is written to the ledger, charged, and the
  reservation settled. Amounts are nano dollars. A settlement returns what the pointer to the usage
  holds afterwards. Sums over rows are computed by the database and refused when they do not fit the
  int64 they are scanned into.
\<close>

section \<open>Budgets\<close>

definition usage_reservation_ttl :: duration where
  "usage_reservation_ttl = 3 * hour"

definition usage_reservation_max_active_per_user :: int where
  "usage_reservation_max_active_per_user = 5"

definition clamp_non_negative :: "int \<Rightarrow> int" where
  "clamp_non_negative v = (if v < 0 then 0 else v)"

definition lower_int64 :: "int \<Rightarrow> int \<Rightarrow> int" where
  "lower_int64 a b = (if a < b then a else b)"

definition add_non_negative_int64 :: "int \<Rightarrow> int \<Rightarrow> int" where
  "add_non_negative_int64 a b =
     (let a = (if a < 0 then 0 else a); b = (if b < 0 then 0 else b)
      in if max_int64 - b < a then max_int64 else a + b)"

definition divide_budget_across_slots :: "int \<Rightarrow> int \<Rightarrow> int" where
  "divide_budget_across_slots available slots =
     (if available \<le> 0 \<or> slots \<le> 0 then 0
      else available div slots + (if available mod slots \<noteq> 0 then 1 else 0))"

definition remaining_non_negative_budget :: "int \<Rightarrow> int \<Rightarrow> int \<Rightarrow> int" where
  "remaining_non_negative_budget limit consumed reserved =
     (if limit \<le> 0 then 0
      else
        let consumed = clamp_non_negative consumed
        in if limit \<le> consumed then 0
           else
             let remaining = limit - consumed; reserved = clamp_non_negative reserved
             in if remaining \<le> reserved then 0 else remaining - reserved)"

definition scan_int64 :: "int \<Rightarrow> billing_error + int" where
  "scan_int64 v = (if in_int64 v then Inr v else Inl ErrOutOfRange)"

text \<open>The rows whose budget still counts: active and not expired, or waiting for reconciliation.\<close>

definition holds_budget :: "nat \<Rightarrow> time \<Rightarrow> usage_reservation \<Rightarrow> bool" where
  "holds_budget user_id now r \<longleftrightarrow> ur_user_id r = user_id \<and>
     ((ur_status r = ReservationActive \<and> now < ur_expires_at r) \<or> ur_status r = ReservationReconciliation)"

definition sum_active_balance_reservations :: "billing_db \<Rightarrow> nat \<Rightarrow> nat \<Rightarrow> time \<Rightarrow> billing_error + int" where
  "sum_active_balance_reservations db user_id exclude_id now =
     scan_int64 (sum_rows (\<lambda>r. holds_budget user_id now r \<and> \<not> (0 < exclude_id \<and> ur_id r = exclude_id))
       ur_balance_nanousd (db_reservations db))"

definition count_active_usage_reservations :: "billing_db \<Rightarrow> nat \<Rightarrow> time \<Rightarrow> int" where
  "count_active_usage_reservations db user_id now = count_rows (holds_budget user_id now) (db_reservations db)"

definition counts_in_period :: "nat \<Rightarrow> time \<Rightarrow> time \<Rightarrow> usage_ledger \<Rightarrow> bool" where
  "counts_in_period user_id period_start period_end l \<longleftrightarrow>
     ul_user_id l = user_id \<and> \<not> ul_is_free_model l \<and> period_start \<le> ul_billing_at l \<and> ul_billing_at l < period_end"

definition sum_period_billed_nanousd :: "billing_db \<Rightarrow> nat \<Rightarrow> time \<Rightarrow> time \<Rightarrow> billing_error + int" where
  "sum_period_billed_nanousd db user_id period_start period_end =
     scan_int64 (sum_rows (counts_in_period user_id period_start period_end) ul_billed_nanousd (db_ledgers db))"

definition sum_active_period_credit_reservations ::
  "billing_db \<Rightarrow> nat \<Rightarrow> time \<Rightarrow> time \<Rightarrow> nat \<Rightarrow> time \<Rightarrow> billing_error + int" where
  "sum_active_period_credit_reservations db user_id period_start period_end exclude_id now =
     scan_int64 (sum_rows
       (\<lambda>r. holds_budget user_id now r \<and> ur_period_start_at r = Some period_start \<and>
          ur_period_end_at r = Some period_end \<and> \<not> (0 < exclude_id \<and> ur_id r = exclude_id))
       ur_period_credit_nanousd (db_reservations db))"

text \<open>The credit of a period that is neither used nor reserved.\<close>

definition available_period_credit ::
  "billing_db \<Rightarrow> nat \<Rightarrow> int \<Rightarrow> time \<Rightarrow> time \<Rightarrow> nat \<Rightarrow> time \<Rightarrow> billing_error + int" where
  "available_period_credit db user_id limit period_start period_end exclude_id now =
     (case sum_period_billed_nanousd db user_id period_start period_end of
        Inl e \<Rightarrow> Inl e
      | Inr used \<Rightarrow>
          (case sum_active_period_credit_reservations db user_id period_start period_end exclude_id now of
             Inl e \<Rightarrow> Inl e
           | Inr reserved \<Rightarrow> Inr (remaining_non_negative_budget limit used reserved)))"

section \<open>Reserving\<close>

record reservation_request =
  rr_user_id :: nat
  rr_ref_no :: string
  rr_mode :: string
  rr_requested_nanousd :: int
  rr_period_credit_nanousd :: int
  rr_period_start_at :: "time option"
  rr_period_end_at :: "time option"

definition invalid_reservation_request :: "reservation_request \<Rightarrow> bool" where
  "invalid_reservation_request inp \<longleftrightarrow>
     rr_user_id inp = 0 \<or> rr_ref_no inp = [] \<or> rr_requested_nanousd inp < 0 \<or>
     (rr_mode inp \<noteq> ''usage'' \<and> rr_mode inp \<noteq> ''period'') \<or>
     (rr_mode inp = ''period'' \<and>
        (case (rr_period_start_at inp, rr_period_end_at inp) of
           (Some s, Some e) \<Rightarrow> \<not> s < e \<or> rr_period_credit_nanousd inp < 0
         | _ \<Rightarrow> True))"

definition legacy_reservation :: "nat \<Rightarrow> string \<Rightarrow> balance_transaction \<Rightarrow> bool" where
  "legacy_reservation user_id ref_no tx \<longleftrightarrow>
     bt_user_id tx = user_id \<and> bt_ref_no tx = ref_no \<and> (bt_type tx = ''usage_reserve'' \<or> bt_type tx = ''usage_refund'')"

definition find_reservation :: "billing_db \<Rightarrow> nat \<Rightarrow> string \<Rightarrow> usage_reservation option" where
  "find_reservation db user_id ref_no =
     first_row (\<lambda>r. ur_user_id r = user_id \<and> ur_ref_no r = ref_no) (db_reservations db)"

text \<open>The budgets of a request: what the balance and what the credit of the period still allow.\<close>

definition reservation_budgets ::
  "reservation_request \<Rightarrow> billing_account \<Rightarrow> time \<Rightarrow> billing_db \<Rightarrow> billing_error + int \<times> int" where
  "reservation_budgets inp account now db =
     (if ba_balance_nanousd account < 0 then Inl ErrInsufficientBalance
      else case sum_active_balance_reservations db (rr_user_id inp) 0 now of
        Inl e \<Rightarrow> Inl e
      | Inr active_balance \<Rightarrow>
          let available_balance = remaining_non_negative_budget (ba_balance_nanousd account) active_balance 0
          in if rr_mode inp = ''period'' then
               (case (rr_period_start_at inp, rr_period_end_at inp) of
                  (Some s, Some e) \<Rightarrow>
                    (case available_period_credit db (rr_user_id inp) (rr_period_credit_nanousd inp) s e 0 now of
                       Inl e \<Rightarrow> Inl e | Inr available_credit \<Rightarrow> Inr (available_balance, available_credit))
                | _ \<Rightarrow> Inl ErrInvalidInput)
             else Inr (available_balance, 0))"

definition create_reservation ::
  "reservation_request \<Rightarrow> int \<Rightarrow> int \<Rightarrow> time \<Rightarrow> billing_db \<Rightarrow> usage_reservation \<times> billing_db" where
  "create_reservation inp requested period_credit now db =
     (let (r, t) = create_row (\<lambda>i. \<lparr>ur_id = i, ur_user_id = rr_user_id inp, ur_ref_no = rr_ref_no inp,
            ur_mode = rr_mode inp, ur_balance_nanousd = requested - period_credit,
            ur_period_credit_nanousd = period_credit, ur_period_limit_nanousd = rr_period_credit_nanousd inp,
            ur_period_start_at = rr_period_start_at inp, ur_period_end_at = rr_period_end_at inp,
            ur_status = ReservationActive, ur_usage_ledger_id = 0, ur_expires_at = now + usage_reservation_ttl,
            ur_settled_at = None, ur_released_at = None, ur_reconciliation_at = None, ur_failure_code = []\<rparr>)
          (db_reservations db)
      in (r, db\<lparr>db_reservations := t\<rparr>))"

definition reserve_body :: "reservation_request \<Rightarrow> time \<Rightarrow> billing_db \<Rightarrow> usage_reservation tx_result" where
  "reserve_body inp now db =
     (case get_or_create_account_for_update (rr_user_id inp) db of
        (Inl e, db) \<Rightarrow> (Inl e, db)
      | (Inr account, db) \<Rightarrow>
          if find_reservation db (rr_user_id inp) (rr_ref_no inp) \<noteq> None then (Inl ErrConflict, db)
          else if 0 < count_rows (legacy_reservation (rr_user_id inp) (rr_ref_no inp)) (db_transactions db)
          then (Inl ErrConflict, db)
          else
            let active = count_active_usage_reservations db (rr_user_id inp) now
            in if usage_reservation_max_active_per_user \<le> active then (Inl ErrUsageReservationLimitExceeded, db)
               else case reservation_budgets inp account now db of
                 Inl e \<Rightarrow> (Inl e, db)
               | Inr (available_balance, available_credit) \<Rightarrow>
                   let available = add_non_negative_int64 available_credit available_balance;
                       requested = (if rr_requested_nanousd inp \<le> 0
                         then divide_budget_across_slots available (usage_reservation_max_active_per_user - active)
                         else rr_requested_nanousd inp)
                   in if requested \<le> 0 \<or> available < requested then (Inl ErrInsufficientBalance, db)
                      else
                        let (r, db) = create_reservation inp requested (lower_int64 requested available_credit) now db
                        in (Inr r, db))"

definition reserve_usage_balance :: "reservation_request \<Rightarrow> time \<Rightarrow> billing_db \<Rightarrow> usage_reservation tx_result" where
  "reserve_usage_balance inp now db =
     (let inp = inp\<lparr>rr_ref_no := trim_space (rr_ref_no inp), rr_mode := trim_space (rr_mode inp)\<rparr>
      in if invalid_reservation_request inp then (Inl ErrInvalidInput, db)
         else transaction (reserve_body inp now) db)"

section \<open>Changing a reservation\<close>

definition update_reservation :: "nat \<Rightarrow> (usage_reservation \<Rightarrow> usage_reservation) \<Rightarrow> billing_db \<Rightarrow> billing_db" where
  "update_reservation i f db = db\<lparr>db_reservations := update_rows (\<lambda>r. ur_id r = i) f (db_reservations db)\<rparr>"

text \<open>What the balance and the period allow a reservation, its own budget not counted.\<close>

definition raise_budgets ::
  "usage_reservation \<Rightarrow> billing_account \<Rightarrow> time \<Rightarrow> billing_db \<Rightarrow> billing_error + int \<times> int" where
  "raise_budgets r account now db =
     (case sum_active_balance_reservations db (ur_user_id r) (ur_id r) now of
        Inl e \<Rightarrow> Inl e
      | Inr other_balance \<Rightarrow>
          let available_balance = remaining_non_negative_budget (ba_balance_nanousd account) other_balance 0
          in case (ur_mode r = ''period'', ur_period_start_at r, ur_period_end_at r) of
               (True, Some s, Some e) \<Rightarrow>
                 (case available_period_credit db (ur_user_id r) (ur_period_limit_nanousd r) s e (ur_id r) now of
                    Inl e \<Rightarrow> Inl e | Inr available_credit \<Rightarrow> Inr (available_balance, available_credit))
             | _ \<Rightarrow> Inr (available_balance, 0))"

definition raise_body :: "nat \<Rightarrow> string \<Rightarrow> int \<Rightarrow> time \<Rightarrow> billing_db \<Rightarrow> unit tx_result" where
  "raise_body user_id ref_no required now db =
     (case get_or_create_account_for_update user_id db of
        (Inl e, db) \<Rightarrow> (Inl e, db)
      | (Inr account, db) \<Rightarrow>
          case find_reservation db user_id ref_no of
            None \<Rightarrow> (Inl ErrConflict, db)
          | Some r \<Rightarrow>
              if ur_status r \<noteq> ReservationActive \<or> \<not> now < ur_expires_at r then (Inl ErrConflict, db)
              else if required \<le> add_non_negative_int64 (ur_balance_nanousd r) (ur_period_credit_nanousd r)
              then (Inr (), db)
              else case raise_budgets r account now db of
                Inl e \<Rightarrow> (Inl e, db)
              | Inr (available_balance, available_credit) \<Rightarrow>
                  if add_non_negative_int64 available_credit available_balance < required
                  then (Inl ErrInsufficientBalance, db)
                  else
                    let period_credit = lower_int64 required available_credit
                    in (Inr (), update_reservation (ur_id r) (\<lambda>r. r\<lparr>ur_balance_nanousd := required - period_credit,
                          ur_period_credit_nanousd := period_credit\<rparr>) db))"

definition raise_usage_balance_reservation ::
  "nat \<Rightarrow> string \<Rightarrow> int \<Rightarrow> time \<Rightarrow> billing_db \<Rightarrow> unit tx_result" where
  "raise_usage_balance_reservation user_id ref_no required now db =
     (let ref_no = trim_space ref_no
      in if user_id = 0 \<or> ref_no = [] \<or> required < 0 then (Inl ErrInvalidInput, db)
         else transaction (raise_body user_id ref_no required now) db)"

definition release_body :: "nat \<Rightarrow> string \<Rightarrow> time \<Rightarrow> billing_db \<Rightarrow> unit tx_result" where
  "release_body user_id ref_no now db =
     (case find_reservation db user_id ref_no of
        None \<Rightarrow> (Inr (), db)
      | Some r \<Rightarrow>
          if ur_status r \<noteq> ReservationActive then (Inr (), db)
          else (Inr (), update_reservation (ur_id r)
                  (\<lambda>r. r\<lparr>ur_status := ReservationReleased, ur_released_at := Some now\<rparr>) db))"

definition release_usage_balance_reservation :: "nat \<Rightarrow> string \<Rightarrow> time \<Rightarrow> billing_db \<Rightarrow> unit tx_result" where
  "release_usage_balance_reservation user_id ref_no now db =
     (let ref_no = trim_space ref_no
      in if user_id = 0 \<or> ref_no = [] then (Inl ErrInvalidInput, db)
         else transaction (release_body user_id ref_no now) db)"

text \<open>One statement; a conflict when it affects no row.\<close>

definition update_where ::
  "(usage_reservation \<Rightarrow> bool) \<Rightarrow> (usage_reservation \<Rightarrow> usage_reservation) \<Rightarrow> billing_db \<Rightarrow> unit tx_result" where
  "update_where P f db =
     (if count_rows P (db_reservations db) = 0 then (Inl ErrConflict, db)
      else (Inr (), db\<lparr>db_reservations := update_rows P f (db_reservations db)\<rparr>))"

definition renew_usage_balance_reservation :: "nat \<Rightarrow> string \<Rightarrow> time \<Rightarrow> billing_db \<Rightarrow> unit tx_result" where
  "renew_usage_balance_reservation user_id ref_no now db =
     (let ref_no = trim_space ref_no
      in if user_id = 0 \<or> ref_no = [] then (Inl ErrInvalidInput, db)
         else update_where
           (\<lambda>r. ur_user_id r = user_id \<and> ur_ref_no r = ref_no \<and> ur_status r = ReservationActive \<and> now < ur_expires_at r)
           (\<lambda>r. r\<lparr>ur_expires_at := now + usage_reservation_ttl\<rparr>) db)"

definition mark_usage_reservation_reconciliation_required ::
  "nat \<Rightarrow> string \<Rightarrow> string \<Rightarrow> time \<Rightarrow> billing_db \<Rightarrow> unit tx_result" where
  "mark_usage_reservation_reconciliation_required user_id ref_no failure_code now db =
     (let ref_no = trim_space ref_no; failure_code = trim_space failure_code
      in if user_id = 0 \<or> ref_no = [] \<or> failure_code = [] then (Inl ErrInvalidInput, db)
         else
           let failure_code = (if 64 < length failure_code then take 64 failure_code else failure_code)
           in update_where
             (\<lambda>r. ur_user_id r = user_id \<and> ur_ref_no r = ref_no \<and>
                (ur_status r = ReservationActive \<or> ur_status r = ReservationReconciliation))
             (\<lambda>r. r\<lparr>ur_status := ReservationReconciliation, ur_failure_code := failure_code,
                    ur_reconciliation_at := Some now\<rparr>) db)"

end
