(* ===== verification/Settlement.thy ===== *)
theory Settlement
  imports Ledger
begin

text \<open>
  Writing usage to the ledger and charging it (repository.go of infra/persistence/postgres/billing):
  without a charge, against the balance, and against the credit of a period with the overage against
  the balance; and the balance set by an administrator. A retry of a settlement finds its reservation
  settled, or its ledger by the reference number, and gives back the first ledger.
\<close>

section \<open>The ledger\<close>

definition to_model_usage_ledger :: "usage_ledger \<Rightarrow> nat \<Rightarrow> usage_ledger" where
  "to_model_usage_ledger usage i = usage\<lparr>ul_id := i, ul_ref_no := trim_space (ul_ref_no usage)\<rparr>"

text \<open>The unique index over user and reference number leaves out the empty number.\<close>

definition create_usage_ledger :: "usage_ledger \<Rightarrow> billing_db \<Rightarrow> usage_ledger tx_result" where
  "create_usage_ledger usage db =
     (let ref_no = trim_space (ul_ref_no usage)
      in if ref_no \<noteq> [] \<and> first_row (\<lambda>l. ul_user_id l = ul_user_id usage \<and> ul_ref_no l = ref_no) (db_ledgers db) \<noteq> None
         then (Inl ErrDuplicate, db)
         else let (l, t) = create_row (to_model_usage_ledger usage) (db_ledgers db)
              in (Inr l, db\<lparr>db_ledgers := t\<rparr>))"

definition restore_usage_ledger_by_ref_no :: "usage_ledger \<Rightarrow> billing_db \<Rightarrow> usage_ledger option" where
  "restore_usage_ledger_by_ref_no usage db =
     (let ref_no = trim_space (ul_ref_no usage)
      in if ul_user_id usage = 0 \<or> ref_no = [] then None
         else first_row (\<lambda>l. ul_user_id l = ul_user_id usage \<and> ul_ref_no l = ref_no) (db_ledgers db))"

definition restore_settled_usage_ledger :: "nat \<Rightarrow> billing_db \<Rightarrow> usage_ledger tx_result" where
  "restore_settled_usage_ledger ledger_id db =
     (if ledger_id = 0 then (Inl ErrConflict, db)
      else case first_row (\<lambda>l. ul_id l = ledger_id) (db_ledgers db) of
        None \<Rightarrow> (Inl ErrNotFound, db) | Some l \<Rightarrow> (Inr l, db))"

definition add_usage_body :: "usage_ledger \<Rightarrow> billing_db \<Rightarrow> usage_ledger tx_result" where
  "add_usage_body usage db =
     (case restore_usage_ledger_by_ref_no usage db of
        Some l \<Rightarrow> (Inr l, db)
      | None \<Rightarrow>
          (case create_usage_ledger usage db of
             (Inl e, db) \<Rightarrow> (Inl e, db) | (Inr _, db) \<Rightarrow> (Inr usage, db)))"

definition add_usage :: "usage_ledger \<Rightarrow> billing_db \<Rightarrow> usage_ledger tx_result" where
  "add_usage usage db = transaction (add_usage_body usage) db"

section \<open>The reservation of a settlement\<close>

definition reservation_ref_no :: "usage_reservation option \<Rightarrow> string" where
  "reservation_ref_no reservation =
     (case reservation of None \<Rightarrow> [] | Some r \<Rightarrow> trim_space (ur_ref_no r))"

text \<open>The row to settle, if there is one, and whether it is settled already.\<close>

definition get_usage_reservation_for_settlement ::
  "billing_db \<Rightarrow> nat \<Rightarrow> usage_reservation option \<Rightarrow> billing_error + (usage_reservation option \<times> bool)" where
  "get_usage_reservation_for_settlement db user_id reservation =
     (case reservation of
        None \<Rightarrow> Inr (None, False)
      | Some r \<Rightarrow>
          if user_id = 0 \<or> (ur_user_id r \<noteq> 0 \<and> ur_user_id r \<noteq> user_id) \<or> trim_space (ur_ref_no r) = []
          then Inl ErrConflict
          else case first_row (\<lambda>x. ur_user_id x = user_id \<and> ur_ref_no x = trim_space (ur_ref_no r) \<and>
                 (0 < ur_id r \<longrightarrow> ur_id x = ur_id r)) (db_reservations db) of
            None \<Rightarrow> Inl ErrConflict
          | Some item \<Rightarrow>
              (case ur_status item of
                 ReservationActive \<Rightarrow> Inr (Some item, False)
               | ReservationReconciliation \<Rightarrow> Inr (Some item, False)
               | ReservationSettled \<Rightarrow> if ur_usage_ledger_id item = 0 then Inl ErrConflict else Inr (Some item, True)
               | ReservationReleased \<Rightarrow> Inl ErrConflict))"

definition settle_usage_reservation :: "usage_reservation option \<Rightarrow> nat \<Rightarrow> time \<Rightarrow> billing_db \<Rightarrow> billing_db" where
  "settle_usage_reservation reservation ledger_id settled_at db =
     (case reservation of
        None \<Rightarrow> db
      | Some r \<Rightarrow> update_reservation (ur_id r) (\<lambda>r. r\<lparr>ur_status := ReservationSettled,
          ur_usage_ledger_id := ledger_id, ur_settled_at := Some settled_at\<rparr>) db)"

definition matches_period_reservation :: "usage_reservation \<Rightarrow> time \<Rightarrow> time \<Rightarrow> int \<Rightarrow> bool" where
  "matches_period_reservation r period_start period_end credit \<longleftrightarrow>
     ur_mode r = ''period'' \<and> ur_period_start_at r = Some period_start \<and> ur_period_end_at r = Some period_end \<and>
     ur_period_limit_nanousd r = credit"

section \<open>Charging\<close>

definition charge_of :: "usage_ledger \<Rightarrow> int" where
  "charge_of usage = (if ul_is_free_model usage \<or> ul_billed_nanousd usage \<le> 0 then 0 else ul_billed_nanousd usage)"

text \<open>
  The common end of both settlements: the ledger row, the debit with its transaction when there is
  something to charge, the reservation.
\<close>

definition charge_usage ::
  "usage_ledger \<Rightarrow> int \<Rightarrow> billing_account \<Rightarrow> usage_reservation option \<Rightarrow> string \<Rightarrow> time \<Rightarrow> billing_db \<Rightarrow> unit tx_result" where
  "charge_usage usage amount account reservation_row ref_no settled_at db =
     (let next_balance = wrap64 (ba_balance_nanousd account - amount)
      in case create_usage_ledger (usage\<lparr>ul_balance_after_nanousd := Some next_balance\<rparr>) db of
           (Inl e, db) \<Rightarrow> (Inl e, db)
         | (Inr l, db) \<Rightarrow>
             if 0 < amount then
               (case add_to_balance account (- amount) db of
                  (Inl e, db) \<Rightarrow> (Inl e, db)
                | (Inr _, db) \<Rightarrow>
                    let (_, db) = add_transaction (ba_id account) (ul_user_id usage) ''usage_debit'' (- amount) next_balance
                          ''usage_ledger'' (ul_id l) ref_no db
                    in (Inr (), settle_usage_reservation reservation_row (ul_id l) settled_at db))
             else (Inr (), settle_usage_reservation reservation_row (ul_id l) settled_at db))"

text \<open>
  What both settlements do first: the account, the reservation and its check, and the answer to a retry
  (\<open>Inr (Inl first_ledger)\<close>); otherwise what is to be settled.
\<close>

definition begin_settlement ::
  "(usage_reservation \<Rightarrow> bool) \<Rightarrow> usage_ledger \<Rightarrow> usage_reservation option \<Rightarrow> billing_db \<Rightarrow>
     (usage_ledger + billing_account \<times> usage_reservation option) tx_result" where
  "begin_settlement accepts usage reservation db =
     (case get_or_create_account_for_update (ul_user_id usage) db of
        (Inl e, db) \<Rightarrow> (Inl e, db)
      | (Inr account, db) \<Rightarrow>
          (case get_usage_reservation_for_settlement db (ul_user_id usage) reservation of
             Inl e \<Rightarrow> (Inl e, db)
           | Inr (Some row, already_settled) \<Rightarrow>
               if \<not> accepts row then (Inl ErrConflict, db)
               else if already_settled then
                 (case restore_settled_usage_ledger (ur_usage_ledger_id row) db of
                    (Inl e, db) \<Rightarrow> (Inl e, db) | (Inr l, db) \<Rightarrow> (Inr (Inl l), db))
               else (Inr (Inr (account, Some row)), db)
           | Inr (None, _) \<Rightarrow>
               (case restore_usage_ledger_by_ref_no usage db of
                  Some l \<Rightarrow> (Inr (Inl l), db) | None \<Rightarrow> (Inr (Inr (account, None)), db))))"

definition settle_balance_body ::
  "usage_ledger \<Rightarrow> usage_reservation option \<Rightarrow> time \<Rightarrow> billing_db \<Rightarrow> usage_ledger tx_result" where
  "settle_balance_body usage reservation settled_at db =
     (case begin_settlement (\<lambda>row. ur_mode row = ''usage'') usage reservation db of
        (Inl e, db) \<Rightarrow> (Inl e, db)
      | (Inr (Inl l), db) \<Rightarrow> (Inr l, db)
      | (Inr (Inr (account, row)), db) \<Rightarrow>
          (case charge_usage usage (charge_of usage) account row (reservation_ref_no reservation) settled_at db of
             (Inl e, db) \<Rightarrow> (Inl e, db) | (Inr _, db) \<Rightarrow> (Inr usage, db)))"

definition add_usage_and_settle_balance ::
  "usage_ledger \<Rightarrow> usage_reservation option \<Rightarrow> time \<Rightarrow> billing_db \<Rightarrow> usage_ledger tx_result" where
  "add_usage_and_settle_balance usage reservation settled_at db =
     transaction (settle_balance_body usage reservation settled_at) db"

section \<open>Charging against a period\<close>

definition with_period_settlement_snapshot :: "pricing_snapshot \<Rightarrow> (string \<times> int) list \<Rightarrow> pricing_snapshot" where
  "with_period_settlement_snapshot snapshot values =
     snapshot\<lparr>snapshot_settlement := fold (\<lambda>(k, v). AList.update k v) values (snapshot_settlement snapshot)\<rparr>"

text \<open>The usage with its balance and snapshot, and the overage that is charged.\<close>

definition period_settlement ::
  "usage_ledger \<Rightarrow> int \<Rightarrow> int \<Rightarrow> int \<Rightarrow> usage_reservation option \<Rightarrow> usage_ledger \<times> int" where
  "period_settlement usage credit used_before other_reserved reservation_row =
     (let charge = charge_of usage;
          remaining = remaining_non_negative_budget credit used_before other_reserved;
          covered = lower_int64 charge remaining;
          overage = charge - covered;
          reserved_balance = (case reservation_row of None \<Rightarrow> 0 | Some r \<Rightarrow> ur_balance_nanousd r);
          reserved_credit = (case reservation_row of None \<Rightarrow> 0 | Some r \<Rightarrow> ur_period_credit_nanousd r)
      in (usage\<lparr>ul_pricing_snapshot_json := with_period_settlement_snapshot (ul_pricing_snapshot_json usage)
            [(''period_credit_nanousd'', credit),
             (''period_used_before_nanousd'', used_before),
             (''period_used_after_nanousd'', add_non_negative_int64 used_before charge),
             (''period_credit_covered_nanousd'', covered),
             (''period_credit_reserved_nanousd'', reserved_credit),
             (''period_overage_billed_nanousd'', overage),
             (''period_balance_charged_nanousd'', overage),
             (''period_balance_reserved_nanousd'', reserved_balance),
             (''period_balance_settlement_delta_nanousd'', wrap64 (overage - reserved_balance))]\<rparr>,
          overage))"

definition settle_period_body ::
  "usage_ledger \<Rightarrow> time \<Rightarrow> time \<Rightarrow> int \<Rightarrow> usage_reservation option \<Rightarrow> time \<Rightarrow> time \<Rightarrow> billing_db \<Rightarrow> usage_ledger tx_result" where
  "settle_period_body usage period_start period_end credit reservation now settled_at db =
     (case begin_settlement (\<lambda>row. matches_period_reservation row period_start period_end credit) usage reservation db of
        (Inl e, db) \<Rightarrow> (Inl e, db)
      | (Inr (Inl l), db) \<Rightarrow> (Inr l, db)
      | (Inr (Inr (account, row)), db) \<Rightarrow>
          (case sum_period_billed_nanousd db (ul_user_id usage) period_start period_end of
             Inl e \<Rightarrow> (Inl e, db)
           | Inr used_before \<Rightarrow>
               (case sum_active_period_credit_reservations db (ul_user_id usage) period_start period_end
                       (case row of None \<Rightarrow> 0 | Some r \<Rightarrow> ur_id r) now of
                  Inl e \<Rightarrow> (Inl e, db)
                | Inr other_reserved \<Rightarrow>
                    let (ledger, overage) = period_settlement usage credit used_before other_reserved row
                    in case charge_usage ledger overage account row (reservation_ref_no reservation) settled_at db of
                         (Inl e, db) \<Rightarrow> (Inl e, db)
                       | (Inr _, db) \<Rightarrow> (Inr (usage\<lparr>ul_pricing_snapshot_json := ul_pricing_snapshot_json ledger\<rparr>), db))))"

definition add_period_usage_and_settle_overage ::
  "usage_ledger \<Rightarrow> time \<Rightarrow> time \<Rightarrow> int \<Rightarrow> usage_reservation option \<Rightarrow> time \<Rightarrow> time \<Rightarrow> billing_db \<Rightarrow> usage_ledger tx_result" where
  "add_period_usage_and_settle_overage usage period_start period_end credit reservation now settled_at db =
     (if ul_user_id usage = 0 \<or> is_zero period_start \<or> \<not> period_start < period_end \<or> credit < 0
      then (Inl ErrInvalidInput, db)
      else transaction (settle_period_body usage period_start period_end credit reservation now settled_at) db)"

section \<open>The account\<close>

definition get_or_create_billing_account :: "nat \<Rightarrow> billing_db \<Rightarrow> billing_account tx_result" where
  "get_or_create_billing_account user_id db =
     (if user_id = 0 then (Inl ErrInvalidInput, db)
      else transaction (get_or_create_account_for_update user_id) db)"

definition write_balance :: "billing_account \<Rightarrow> int \<Rightarrow> billing_db \<Rightarrow> billing_db" where
  "write_balance account balance db =
     db\<lparr>db_accounts := update_rows (\<lambda>a. ba_id a = ba_id account)
       (\<lambda>a. a\<lparr>ba_balance_nanousd := balance, ba_currency := ''USD'', ba_status := ''active''\<rparr>) (db_accounts db)\<rparr>"

definition set_balance_body :: "nat \<Rightarrow> int \<Rightarrow> string \<Rightarrow> billing_db \<Rightarrow> billing_account tx_result" where
  "set_balance_body user_id balance ref_no db =
     (case get_or_create_account_for_update user_id db of
        (Inl e, db) \<Rightarrow> (Inl e, db)
      | (Inr account, db) \<Rightarrow>
          let amount = wrap64 (balance - ba_balance_nanousd account);
              db = write_balance account balance db;
              db = (if amount \<noteq> 0
                    then snd (add_transaction (ba_id account) user_id ''admin_set'' amount balance ''admin'' 0
                                (trim_space ref_no) db)
                    else db)
          in case first_row (\<lambda>a. ba_id a = ba_id account) (db_accounts db) of
               None \<Rightarrow> (Inl ErrNotFound, db) | Some account \<Rightarrow> (Inr account, db))"

definition set_billing_account_balance :: "nat \<Rightarrow> int \<Rightarrow> string \<Rightarrow> billing_db \<Rightarrow> billing_account tx_result" where
  "set_billing_account_balance user_id balance ref_no db =
     (if user_id = 0 \<or> balance < 0 then (Inl ErrInvalidInput, db)
      else transaction (set_balance_body user_id balance ref_no) db)"

end
