(* ===== verification/Payments.thy ===== *)
theory Payments
  imports Settlement Subscriptions
begin

text \<open>
  Payment orders and redemption codes (repository.go of infra/persistence/postgres/billing, redemption.go
  of domain/billing): a paid order is credited or turned into a subscription, a code is redeemed for a
  balance or a subscription. Callbacks of the payment provider can come more than once, and several
  users can redeem one code.
\<close>

section \<open>Orders\<close>

definition normalize_order_type :: "string \<Rightarrow> string" where
  "normalize_order_type value = (if trim_space value = ''topup'' then ''topup'' else ''subscription'')"

definition normalize_interval :: "string \<Rightarrow> string" where
  "normalize_interval value =
     (if trim_space value = ''year'' then ''year''
      else if trim_space value = ''lifetime'' then ''lifetime'' else ''month'')"

definition payment_order_record :: "payment_order \<Rightarrow> nat \<Rightarrow> payment_order" where
  "payment_order_record item i =
     \<lparr>po_id = i, po_order_no = trim_space (po_order_no item),
      po_order_type = normalize_order_type (po_order_type item), po_user_id = po_user_id item,
      po_plan_id = po_plan_id item, po_price_id = po_price_id item, po_provider = trim_space (po_provider item),
      po_status = (if trim_space (po_status item) \<noteq> [] then trim_space (po_status item) else ''pending''),
      po_base_amount_cents = clamp_non_negative (po_base_amount_cents item),
      po_pay_amount_cents = clamp_non_negative (po_pay_amount_cents item),
      po_fx_rate = trim_space (po_fx_rate item),
      po_credit_nanousd = clamp_non_negative (po_credit_nanousd item),
      po_billing_interval = normalize_interval (po_billing_interval item),
      po_cycles = (if po_cycles item \<le> 0 then 1 else po_cycles item), po_external_payment_id = [],
      po_external_checkout_id = [], po_checkout_url = [], po_snapshot_json = trim_space (po_snapshot_json item),
      po_paid_at = None, po_expired_at = po_expired_at item\<rparr>"

definition create_payment_order :: "payment_order \<Rightarrow> billing_db \<Rightarrow> payment_order tx_result" where
  "create_payment_order item db =
     (let order_no = trim_space (po_order_no item)
      in if order_no = [] then (Inl ErrInvalidInput, db)
         else if first_row (\<lambda>x. po_order_no x = order_no) (db_orders db) \<noteq> None then (Inl ErrDuplicate, db)
         else
           let (order, t) = create_row (payment_order_record item) (db_orders db)
           in (Inr order, db\<lparr>db_orders := t\<rparr>))"

definition update_orders :: "(payment_order \<Rightarrow> bool) \<Rightarrow> (payment_order \<Rightarrow> payment_order) \<Rightarrow> billing_db \<Rightarrow> billing_db" where
  "update_orders P f db = db\<lparr>db_orders := update_rows P f (db_orders db)\<rparr>"

definition update_payment_order_checkout :: "string \<Rightarrow> string \<Rightarrow> string \<Rightarrow> billing_db \<Rightarrow> unit tx_result" where
  "update_payment_order_checkout order_no external_checkout_id checkout_url db =
     (let order_no = trim_space order_no
      in if order_no = [] then (Inl ErrInvalidInput, db)
         else (Inr (), update_orders (\<lambda>x. po_order_no x = order_no)
           (\<lambda>x. x\<lparr>po_external_checkout_id := trim_space external_checkout_id,
                  po_checkout_url := trim_space checkout_url\<rparr>) db))"

section \<open>A paid order\<close>

definition order_expired :: "payment_order \<Rightarrow> time \<Rightarrow> bool" where
  "order_expired order paid_at \<longleftrightarrow> (case po_expired_at order of None \<Rightarrow> False | Some e \<Rightarrow> e < paid_at)"

text \<open>The order is marked expired and the transaction refused.\<close>

definition refuse_expired_order :: "payment_order \<Rightarrow> billing_db \<Rightarrow> 'a tx_result" where
  "refuse_expired_order order db =
     (Inl ErrInvalidInput, update_orders (\<lambda>x. po_id x = po_id order) (\<lambda>x. x\<lparr>po_status := ''expired''\<rparr>) db)"

definition finish_order :: "payment_order \<Rightarrow> string \<Rightarrow> time \<Rightarrow> billing_db \<Rightarrow> (payment_order \<times> bool) tx_result" where
  "finish_order order external_payment_id paid_at db =
     (let db = update_orders (\<lambda>x. po_id x = po_id order)
           (\<lambda>x. x\<lparr>po_status := ''paid'', po_external_payment_id := trim_space external_payment_id,
                  po_paid_at := Some paid_at\<rparr>) db
      in case first_row (\<lambda>x. po_order_no x = po_order_no order) (db_orders db) of
           None \<Rightarrow> (Inl ErrNotFound, db) | Some order \<Rightarrow> (Inr (order, True), db))"

definition grant_order_body ::
  "string \<Rightarrow> string \<Rightarrow> time \<Rightarrow> subscription_row \<Rightarrow> time \<Rightarrow> billing_db \<Rightarrow> (payment_order \<times> bool) tx_result" where
  "grant_order_body order_no external_payment_id paid_at subscription clock db =
     (case first_row (\<lambda>x. po_order_no x = order_no) (db_orders db) of
        None \<Rightarrow> (Inl ErrNotFound, db)
      | Some order \<Rightarrow>
          if po_status order = ''paid'' then (Inr (order, False), db)
          else if po_status order \<noteq> ''pending'' then (Inl ErrInvalidInput, db)
          else if po_order_type order \<noteq> [] \<and> po_order_type order \<noteq> ''subscription'' then (Inl ErrInvalidInput, db)
          else if order_expired order paid_at then refuse_expired_order order db
          else case first_row (\<lambda>p. plan_id p = sub_plan_id subscription \<and> plan_is_active p) (db_plans db) of
            None \<Rightarrow> (Inl ErrNotFound, db)
          | Some plan \<Rightarrow>
              (case first_row (\<lambda>p. price_id p = sub_price_id subscription \<and>
                      price_plan_id p = sub_plan_id subscription \<and> price_is_active p) (db_prices db) of
                 None \<Rightarrow> (Inl ErrNotFound, db)
               | Some price \<Rightarrow>
                   (case sub_period_end_at subscription of
                      None \<Rightarrow> (Inl ErrInvalidInput, db)
                    | Some e \<Rightarrow>
                        let span = time_sub e paid_at
                        in if span \<le> 0 then (Inl ErrInvalidInput, db)
                           else case grant_subscription_on_timeline
                                  \<lparr>tg_user_id = sub_user_id subscription, tg_plan = plan, tg_price = price,
                                   tg_start_at = paid_at, tg_duration = span,
                                   tg_cancel_at_period_end = sub_cancel_at_period_end subscription,
                                   tg_auto_renew = sub_auto_renew subscription, tg_new_grant = True\<rparr> clock db of
                                (Inl e, db) \<Rightarrow> (Inl e, db)
                              | (Inr _, db) \<Rightarrow> finish_order order external_payment_id paid_at db)))"

definition mark_payment_order_paid_and_grant_subscription ::
  "string \<Rightarrow> string \<Rightarrow> time \<Rightarrow> subscription_row \<Rightarrow> time \<Rightarrow> billing_db \<Rightarrow> (payment_order \<times> bool) tx_result" where
  "mark_payment_order_paid_and_grant_subscription order_no external_payment_id paid_at subscription clock db =
     (let order_no = trim_space order_no
      in if order_no = [] then (Inl ErrInvalidInput, db)
         else transaction (grant_order_body order_no external_payment_id
           (if is_zero paid_at then clock else paid_at) subscription clock) db)"

definition credit_order_body ::
  "string \<Rightarrow> string \<Rightarrow> time \<Rightarrow> billing_db \<Rightarrow> (payment_order \<times> bool) tx_result" where
  "credit_order_body order_no external_payment_id paid_at db =
     (case first_row (\<lambda>x. po_order_no x = order_no) (db_orders db) of
        None \<Rightarrow> (Inl ErrNotFound, db)
      | Some order \<Rightarrow>
          if po_status order = ''paid'' then (Inr (order, False), db)
          else if po_status order \<noteq> ''pending'' \<or> po_order_type order \<noteq> ''topup'' \<or> po_credit_nanousd order \<le> 0
          then (Inl ErrInvalidInput, db)
          else if order_expired order paid_at then refuse_expired_order order db
          else case get_or_create_account_for_update (po_user_id order) db of
            (Inl e, db) \<Rightarrow> (Inl e, db)
          | (Inr account, db) \<Rightarrow>
              let next_balance = wrap64 (ba_balance_nanousd account + po_credit_nanousd order);
                  db = write_balance account next_balance db;
                  db = snd (add_transaction (ba_id account) (po_user_id order) ''topup'' (po_credit_nanousd order)
                              next_balance ''payment_order'' (po_id order) (po_order_no order) db)
              in finish_order order external_payment_id paid_at db)"

definition mark_payment_order_paid_and_credit_balance ::
  "string \<Rightarrow> string \<Rightarrow> time \<Rightarrow> time \<Rightarrow> billing_db \<Rightarrow> (payment_order \<times> bool) tx_result" where
  "mark_payment_order_paid_and_credit_balance order_no external_payment_id paid_at clock db =
     (let order_no = trim_space order_no
      in if order_no = [] then (Inl ErrInvalidInput, db)
         else transaction (credit_order_body order_no external_payment_id (if is_zero paid_at then clock else paid_at)) db)"

section \<open>Redemption codes\<close>

definition normalize_redemption_mode :: "string \<Rightarrow> string" where
  "normalize_redemption_mode value = (if trim_space value = ''period'' then ''period'' else ''usage'')"

definition normalize_redemption_reward_type :: "string \<Rightarrow> string" where
  "normalize_redemption_reward_type value = (if trim_space value = ''subscription'' then ''subscription'' else ''balance'')"

definition normalize_redemption_status :: "string \<Rightarrow> string" where
  "normalize_redemption_status value =
     (if trim_space value = ''inactive'' then ''inactive''
      else if trim_space value = ''deleted'' then ''deleted'' else ''active'')"

definition redemption_code_record :: "redemption_code \<Rightarrow> nat \<Rightarrow> redemption_code" where
  "redemption_code_record item i =
     \<lparr>rc_id = i, rc_code_hash = trim_space (rc_code_hash item),
      rc_code_encrypted = trim_space (rc_code_encrypted item), rc_code_hint = trim_space (rc_code_hint item),
      rc_mode = normalize_redemption_mode (rc_mode item),
      rc_reward_type = normalize_redemption_reward_type (rc_reward_type item),
      rc_credit_nanousd = clamp_non_negative (rc_credit_nanousd item), rc_plan_id = rc_plan_id item,
      rc_duration_days = rc_duration_days item, rc_max_redemptions = rc_max_redemptions item,
      rc_per_user_limit = (if rc_per_user_limit item \<le> 0 then 1 else rc_per_user_limit item),
      rc_redeemed_count = 0, rc_status = normalize_redemption_status (rc_status item),
      rc_expires_at = rc_expires_at item, rc_description = trim_space (rc_description item),
      rc_created_by_user_id = rc_created_by_user_id item\<rparr>"

definition create_redemption_code :: "redemption_code \<Rightarrow> billing_db \<Rightarrow> redemption_code tx_result" where
  "create_redemption_code item db =
     (let code_hash = trim_space (rc_code_hash item)
      in if code_hash = [] then (Inl ErrInvalidInput, db)
         else if first_row (\<lambda>c. rc_code_hash c = code_hash) (db_codes db) \<noteq> None then (Inl ErrDuplicate, db)
         else
           let (code, t) = create_row (redemption_code_record item) (db_codes db)
           in (Inr code, db\<lparr>db_codes := t\<rparr>))"

text \<open>A patch; \<open>None\<close> leaves a column alone, the two options that can be cleared are options of options.\<close>

record redemption_code_patch =
  rp_status :: "string option"
  rp_max_redemptions :: "int option option"
  rp_per_user_limit :: "int option"
  rp_expires_at :: "time option option"
  rp_description :: "string option"

definition given :: "'a option \<Rightarrow> 'a \<Rightarrow> 'a" where
  "given patch old = (case patch of None \<Rightarrow> old | Some v \<Rightarrow> v)"

definition patched_code :: "redemption_code_patch \<Rightarrow> redemption_code \<Rightarrow> redemption_code" where
  "patched_code p c = c\<lparr>
     rc_status := given (map_option normalize_redemption_status (rp_status p)) (rc_status c),
     rc_max_redemptions := given (rp_max_redemptions p) (rc_max_redemptions c),
     rc_per_user_limit := given (rp_per_user_limit p) (rc_per_user_limit c),
     rc_expires_at := given (rp_expires_at p) (rc_expires_at c),
     rc_description := given (map_option trim_space (rp_description p)) (rc_description c)\<rparr>"

definition patch_refused :: "redemption_code_patch \<Rightarrow> redemption_code \<Rightarrow> bool" where
  "patch_refused p c \<longleftrightarrow>
     (case rp_max_redemptions p of Some (Some m) \<Rightarrow> m \<le> 0 \<or> m < rc_redeemed_count c | _ \<Rightarrow> False) \<or>
     (case rp_per_user_limit p of Some l \<Rightarrow> l \<le> 0 | None \<Rightarrow> False) \<or>
     (case given (rp_max_redemptions p) (rc_max_redemptions c) of
        None \<Rightarrow> False | Some m \<Rightarrow> m < given (rp_per_user_limit p) (rc_per_user_limit c))"

definition patch_code_body :: "nat \<Rightarrow> redemption_code_patch \<Rightarrow> billing_db \<Rightarrow> redemption_code tx_result" where
  "patch_code_body code_id p db =
     (case first_row (\<lambda>c. rc_id c = code_id \<and> rc_status c \<noteq> ''deleted'') (db_codes db) of
        None \<Rightarrow> (Inl ErrNotFound, db)
      | Some code \<Rightarrow>
          if patch_refused p code then (Inl ErrInvalidInput, db)
          else
            let db = db\<lparr>db_codes := update_rows (\<lambda>c. rc_id c = rc_id code) (patched_code p) (db_codes db)\<rparr>
            in case first_row (\<lambda>c. rc_id c = code_id) (db_codes db) of
                 None \<Rightarrow> (Inl ErrNotFound, db) | Some code \<Rightarrow> (Inr code, db))"

definition patch_redemption_code :: "nat \<Rightarrow> redemption_code_patch \<Rightarrow> billing_db \<Rightarrow> redemption_code tx_result" where
  "patch_redemption_code code_id p db =
     (if code_id = 0 then (Inl ErrInvalidInput, db) else transaction (patch_code_body code_id p) db)"

definition delete_redemption_code :: "nat \<Rightarrow> billing_db \<Rightarrow> unit tx_result" where
  "delete_redemption_code code_id db =
     (if code_id = 0 then (Inl ErrInvalidInput, db)
      else if count_rows (\<lambda>c. rc_id c = code_id \<and> rc_status c \<noteq> ''deleted'') (db_codes db) = 0 then (Inl ErrNotFound, db)
      else (Inr (), db\<lparr>db_codes := update_rows (\<lambda>c. rc_id c = code_id \<and> rc_status c \<noteq> ''deleted'')
             (\<lambda>c. c\<lparr>rc_status := ''deleted''\<rparr>) (db_codes db)\<rparr>))"

section \<open>Redeeming\<close>

definition redemption_code_mode_available_in_billing_mode :: "string \<Rightarrow> string \<Rightarrow> bool" where
  "redemption_code_mode_available_in_billing_mode code_mode billing_mode =
     (if trim_space billing_mode = ''usage'' then trim_space code_mode = ''usage''
      else if trim_space billing_mode = ''period''
      then trim_space code_mode = ''usage'' \<or> trim_space code_mode = ''period''
      else False)"

definition redemption_code_modes_available_in_billing_mode :: "string \<Rightarrow> string list" where
  "redemption_code_modes_available_in_billing_mode billing_mode =
     (if trim_space billing_mode = ''usage'' then [''usage'']
      else if trim_space billing_mode = ''period'' then [''usage'', ''period''] else [])"

definition validate_redeemable_code ::
  "billing_db \<Rightarrow> redemption_code \<Rightarrow> nat \<Rightarrow> string \<Rightarrow> time \<Rightarrow> billing_error option" where
  "validate_redeemable_code db code user_id current_mode now =
     (if rc_status code \<noteq> ''active'' \<or>
         \<not> redemption_code_mode_available_in_billing_mode (rc_mode code) current_mode \<or>
         (case rc_expires_at code of None \<Rightarrow> False | Some e \<Rightarrow> \<not> now < e)
      then Some ErrRedemptionUnavailable
      else if (case rc_max_redemptions code of None \<Rightarrow> False | Some m \<Rightarrow> m \<le> rc_redeemed_count code)
      then Some ErrRedemptionExhausted
      else if (if rc_per_user_limit code \<le> 0 then 1 else rc_per_user_limit code)
                \<le> count_rows (\<lambda>r. rd_code_id r = rc_id code \<and> rd_user_id r = user_id) (db_redemptions db)
      then Some ErrRedemptionUserLimitExceeded
      else if rc_mode code = ''usage'' then
        if rc_reward_type code \<noteq> ''balance'' \<or> rc_credit_nanousd code \<le> 0 then Some ErrInvalidInput else None
      else if rc_mode code = ''period'' then
        if rc_reward_type code \<noteq> ''subscription'' \<or> rc_plan_id code = 0 then Some ErrInvalidInput else None
      else Some ErrRedemptionUnavailable)"

definition apply_redemption_balance ::
  "nat \<Rightarrow> redemption_code \<Rightarrow> string \<Rightarrow> billing_db \<Rightarrow> (billing_account \<times> nat) tx_result" where
  "apply_redemption_balance user_id code ref_no db =
     (case get_or_create_account_for_update user_id db of
        (Inl e, db) \<Rightarrow> (Inl e, db)
      | (Inr account, db) \<Rightarrow>
          (case add_to_balance account (rc_credit_nanousd code) db of
             (Inl e, db) \<Rightarrow> (Inl e, db)
           | (Inr _, db) \<Rightarrow>
               (case first_row (\<lambda>a. ba_id a = ba_id account) (db_accounts db) of
                  None \<Rightarrow> (Inl ErrNotFound, db)
                | Some account \<Rightarrow>
                    let (tx_id, db) = add_transaction (ba_id account) user_id ''redemption'' (rc_credit_nanousd code)
                          (ba_balance_nanousd account) ''redemption_code'' (rc_id code) (trim_space ref_no) db
                    in (Inr (account, tx_id), db))))"

definition apply_redemption_subscription ::
  "nat \<Rightarrow> redemption_code \<Rightarrow> time \<Rightarrow> time \<Rightarrow> billing_db \<Rightarrow> subscription_row tx_result" where
  "apply_redemption_subscription user_id code now clock db =
     (case first_row (\<lambda>p. plan_id p = rc_plan_id code \<and> plan_is_active p) (db_plans db) of
        None \<Rightarrow> (Inl ErrNotFound, db)
      | Some plan \<Rightarrow>
          (case active_default_price_for_plan db (plan_id plan) of
             Inl e \<Rightarrow> (Inl e, db)
           | Inr price \<Rightarrow>
               if rc_duration_days code \<le> 0 then (Inl ErrInvalidInput, db)
               else grant_subscription_on_timeline
                 \<lparr>tg_user_id = user_id, tg_plan = plan, tg_price = price, tg_start_at = now,
                  tg_duration = wrap64 (wrap64 (rc_duration_days code * 24) * hour),
                  tg_cancel_at_period_end = False, tg_auto_renew = False, tg_new_grant = True\<rparr> clock db))"

record redemption_input =
  ri_code_hash :: string
  ri_user_id :: nat
  ri_current_mode :: string
  ri_ref_no :: string
  ri_subscription_at :: time

record redemption_result =
  rr_code :: redemption_code
  rr_redemption :: redemption
  rr_account :: "billing_account option"
  rr_subscription :: "subscription_row option"

text \<open>The reward: the account with the id of its transaction, or the subscription.\<close>

definition apply_reward ::
  "redemption_input \<Rightarrow> redemption_code \<Rightarrow> time \<Rightarrow> time \<Rightarrow> billing_db \<Rightarrow>
     (billing_account option \<times> nat \<times> subscription_row option) tx_result" where
  "apply_reward inp code now clock db =
     (if rc_reward_type code = ''balance'' then
        (case apply_redemption_balance (ri_user_id inp) code (trim_space (ri_ref_no inp)) db of
           (Inl e, db) \<Rightarrow> (Inl e, db)
         | (Inr (account, tx_id), db) \<Rightarrow> (Inr (Some account, tx_id, None), db))
      else if rc_reward_type code = ''subscription'' then
        (case apply_redemption_subscription (ri_user_id inp) code now clock db of
           (Inl e, db) \<Rightarrow> (Inl e, db)
         | (Inr subscription, db) \<Rightarrow> (Inr (None, 0, Some subscription), db))
      else (Inl ErrInvalidInput, db))"

definition redemption_record ::
  "redemption_input \<Rightarrow> redemption_code \<Rightarrow> nat \<Rightarrow> subscription_row option \<Rightarrow> nat \<Rightarrow> redemption" where
  "redemption_record inp code tx_id subscription i =
     \<lparr>rd_id = i, rd_code_id = rc_id code, rd_user_id = ri_user_id inp, rd_mode = rc_mode code,
      rd_reward_type = rc_reward_type code, rd_credit_nanousd = rc_credit_nanousd code, rd_plan_id = rc_plan_id code,
      rd_subscription_id = (case subscription of None \<Rightarrow> 0 | Some s \<Rightarrow> sub_id s),
      rd_balance_transaction_id = tx_id, rd_ref_no = trim_space (ri_ref_no inp)\<rparr>"

definition redeem_body :: "redemption_input \<Rightarrow> time \<Rightarrow> time \<Rightarrow> billing_db \<Rightarrow> redemption_result tx_result" where
  "redeem_body inp now clock db =
     (case first_row (\<lambda>c. rc_code_hash c = trim_space (ri_code_hash inp)) (db_codes db) of
        None \<Rightarrow> (Inl ErrRedemptionUnavailable, db)
      | Some code \<Rightarrow>
          (case validate_redeemable_code db code (ri_user_id inp) (trim_space (ri_current_mode inp)) now of
             Some e \<Rightarrow> (Inl e, db)
           | None \<Rightarrow>
               (case apply_reward inp code now clock db of
                  (Inl e, db) \<Rightarrow> (Inl e, db)
                | (Inr (account, tx_id, subscription), db) \<Rightarrow>
                    let (red, t) = create_row (redemption_record inp code tx_id subscription) (db_redemptions db);
                        db = db\<lparr>db_redemptions := t\<rparr>;
                        db = db\<lparr>db_codes := update_rows (\<lambda>c. rc_id c = rc_id code)
                               (\<lambda>c. c\<lparr>rc_redeemed_count := rc_redeemed_count c + 1\<rparr>) (db_codes db)\<rparr>
                    in (Inr \<lparr>rr_code = code\<lparr>rc_redeemed_count := rc_redeemed_count code + 1\<rparr>, rr_redemption = red,
                             rr_account = account, rr_subscription = subscription\<rparr>, db))))"

definition redeem_code :: "redemption_input \<Rightarrow> time \<Rightarrow> billing_db \<Rightarrow> redemption_result tx_result" where
  "redeem_code inp clock db =
     (if trim_space (ri_code_hash inp) = [] \<or> ri_user_id inp = 0 then (Inl ErrInvalidInput, db)
      else transaction
        (redeem_body inp (if is_zero (ri_subscription_at inp) then clock else ri_subscription_at inp) clock) db)"

end
