(* ===== verification/Balance_Props.thy ===== *)
theory Balance_Props
  imports Payments
begin

text \<open>
  The books of the accounts: every change of a balance is posted as a transaction. \<open>moves\<close> says what a
  step does to the balances and to the posted amounts; the steps of the operations compose.
\<close>

section \<open>Balances and posted amounts\<close>

definition balance :: "billing_db \<Rightarrow> nat \<Rightarrow> int" where
  "balance db u =
     (case first_row (\<lambda>a. ba_user_id a = u) (db_accounts db) of None \<Rightarrow> 0 | Some a \<Rightarrow> ba_balance_nanousd a)"

definition posted :: "billing_db \<Rightarrow> nat \<Rightarrow> int" where
  "posted db u = sum_rows (\<lambda>t. bt_user_id t = u) bt_amount_nanousd (db_transactions db)"

definition accounts_ok :: "billing_db \<Rightarrow> bool" where
  "accounts_ok db \<longleftrightarrow> keyed ba_id (db_accounts db) \<and> distinct (map ba_user_id (table_rows (db_accounts db))) \<and>
     (\<forall>a \<in> set (table_rows (db_accounts db)). in_int64 (ba_balance_nanousd a))"

definition moves :: "nat \<Rightarrow> int \<Rightarrow> int \<Rightarrow> billing_db \<Rightarrow> billing_db \<Rightarrow> bool" where
  "moves u paid booked db db' \<longleftrightarrow> accounts_ok db' \<and>
     (\<forall>v. balance db' v = (if v = u then wrap64 (balance db v + paid) else balance db v)) \<and>
     (\<forall>v. posted db' v = posted db v + (if v = u then booked else 0)) \<and>
     ba_user_id ` set (table_rows (db_accounts db)) \<subseteq> ba_user_id ` set (table_rows (db_accounts db'))"

lemma balance_of: "accounts_ok db \<Longrightarrow> a \<in> set (table_rows (db_accounts db)) \<Longrightarrow> balance db (ba_user_id a) = ba_balance_nanousd a"
  unfolding balance_def using first_row_distinct [of ba_user_id "db_accounts db" a] by (simp add: accounts_ok_def)

lemma in_int64_balance: "accounts_ok db \<Longrightarrow> in_int64 (balance db u)"
  by (auto simp: balance_def accounts_ok_def in_int64_def min_int64_def max_int64_def
      dest!: first_row_in split: option.splits)

lemma wrap64_wrap64: "wrap64 (wrap64 x + y) = wrap64 (x + y)"
  by (simp add: wrap64_def mod_simps ac_simps)

lemma moves_trans:
  assumes "moves u a b db db1" "moves u a' b' db1 db2"
  shows "moves u (a + a') (b + b') db db2"
proof -
  have "ba_user_id ` set (table_rows (db_accounts db)) \<subseteq> ba_user_id ` set (table_rows (db_accounts db2))"
    using assms unfolding moves_def by (elim conjE) (rule order_trans)
  then show ?thesis using assms unfolding moves_def by (simp add: wrap64_wrap64 add.assoc)
qed

lemma moves_frame:
  assumes "accounts_ok db" "db_accounts db' = db_accounts db" "db_transactions db' = db_transactions db"
  shows "moves u 0 0 db db'"
  using assms in_int64_balance [OF assms(1), of u]
  by (simp add: moves_def accounts_ok_def balance_def posted_def)

lemma moves_ok: "moves u a b db db' \<Longrightarrow> accounts_ok db'"
  by (simp add: moves_def)

section \<open>The steps\<close>

text \<open>The account of a user is in the table, with the balance of the user; only the accounts may change.\<close>

lemma account_step:
  assumes "get_or_create_account_for_update u db = (Inr a, db')" "accounts_ok db"
  shows "moves v 0 0 db db'" "a \<in> set (table_rows (db_accounts db'))" "ba_user_id a = u"
    "ba_balance_nanousd a = balance db u" "\<exists>t. db' = db\<lparr>db_accounts := t\<rparr>"
proof -
  have "moves v 0 0 db db' \<and> a \<in> set (table_rows (db_accounts db')) \<and> ba_user_id a = u \<and>
      ba_balance_nanousd a = balance db u \<and> (\<exists>t. db' = db\<lparr>db_accounts := t\<rparr>)"
  proof (cases "first_row (\<lambda>a. ba_user_id a = u) (db_accounts db)")
    case (Some x)
    with assms(1) have "db' = db" "a = x"
      by (auto simp: get_or_create_account_for_update_def split: if_splits)
    moreover have "\<exists>t. db = db\<lparr>db_accounts := t\<rparr>" by (rule exI [of _ "db_accounts db"]) simp
    ultimately show ?thesis
      using first_row_in [OF Some] Some moves_frame [OF assms(2)] by (auto simp: balance_def)
  next
    case None
    with assms(1) obtain t where new: "create_row (\<lambda>i. \<lparr>ba_id = i, ba_user_id = u, ba_currency = ''USD'',
          ba_balance_nanousd = 0, ba_status = ''active''\<rparr>) (db_accounts db) = (a, t)" "db' = db\<lparr>db_accounts := t\<rparr>"
      by (auto simp: get_or_create_account_for_update_def split: if_splits prod.splits)
    have a: "ba_user_id a = u" "ba_balance_nanousd a = 0" "ba_id a = table_next (db_accounts db)"
      and t: "table_rows t = table_rows (db_accounts db) @ [a]" "table_next t = table_next (db_accounts db) + 1"
      using new(1) by (auto simp: create_row_def)
    have "ba_user_id a \<notin> ba_user_id ` set (table_rows (db_accounts db))"
      using None a(1) by (auto simp: first_row_None)
    then have ok: "accounts_ok db'"
      using assms(2) a t new(2) by (auto simp: accounts_ok_def keyed_def in_int64_def min_int64_def max_int64_def)
    have "balance db' w = balance db w" for w
      using a t(1) None new(2) by (auto simp: balance_def first_row_def find_snoc split: option.splits)
    then have "moves v 0 0 db db'"
      using ok in_int64_balance [OF assms(2)] new(2) t(1) by (auto simp: moves_def posted_def)
    then show ?thesis using a t new(2) None by (auto simp: balance_def)
  qed
  then show "moves v 0 0 db db'" "a \<in> set (table_rows (db_accounts db'))" "ba_user_id a = u"
    "ba_balance_nanousd a = balance db u" "\<exists>t. db' = db\<lparr>db_accounts := t\<rparr>" by blast+
qed

lemma update_account_step:
  assumes "accounts_ok db" "a \<in> set (table_rows (db_accounts db))" "in_int64 b"
    and f: "\<And>x. ba_id (f x) = ba_id x" "\<And>x. ba_user_id (f x) = ba_user_id x" "ba_balance_nanousd (f a) = b"
    and db': "db' = db\<lparr>db_accounts := update_rows (\<lambda>x. ba_id x = ba_id a) f (db_accounts db)\<rparr>"
  shows "moves (ba_user_id a) (b - ba_balance_nanousd a) 0 db db'" "f a \<in> set (table_rows (db_accounts db'))"
proof -
  let ?g = "\<lambda>x. if ba_id x = ba_id a then f x else x"
  have only: "x = a" if "x \<in> set (table_rows (db_accounts db))" "ba_id x = ba_id a" for x
    using that assms(1,2) by (auto simp: accounts_ok_def keyed_def distinct_map inj_on_def)
  have rows: "table_rows (db_accounts db') = map ?g (table_rows (db_accounts db))" by (simp add: db' update_rows_def)
  have users: "map ba_user_id (table_rows (db_accounts db')) = map ba_user_id (table_rows (db_accounts db))"
    using f(2) by (simp add: rows)
  have small: "\<forall>x \<in> set (table_rows (db_accounts db')). in_int64 (ba_balance_nanousd x)"
    using assms(1,3) only f(3) by (auto simp: rows accounts_ok_def)
  have ok: "accounts_ok db'"
    using assms(1) keyed_update [of ba_id "db_accounts db" f] f(1) users small by (simp add: accounts_ok_def db')
  show mem: "f a \<in> set (table_rows (db_accounts db'))" using assms(2) by (force simp: rows)
  have "balance db' v = (if v = ba_user_id a then b else balance db v)" for v
  proof (cases "v = ba_user_id a")
    case True
    then show ?thesis using balance_of [OF ok mem] f(2,3) by simp
  next
    case False
    have "List.find (\<lambda>x. ba_user_id x = v) (map ?g xs) = List.find (\<lambda>x. ba_user_id x = v) xs"
      if "set xs \<subseteq> set (table_rows (db_accounts db))" for xs
      using that False f(2) only by (induction xs) auto
    then show ?thesis using False by (simp add: balance_def first_row_def rows)
  qed
  then show "moves (ba_user_id a) (b - ba_balance_nanousd a) 0 db db'"
    using ok assms(1,3) balance_of [OF assms(1,2)] arg_cong [OF users, of set]
    by (simp add: moves_def posted_def db' del: list.map_comp)
qed

lemma add_to_balance_step:
  assumes "add_to_balance a delta db = (Inr r, db')" "accounts_ok db" "a \<in> set (table_rows (db_accounts db))"
  shows "moves (ba_user_id a) delta 0 db db'" "in_int64 (ba_balance_nanousd a + delta)"
    "\<exists>x. first_row (\<lambda>x. ba_id x = ba_id a) (db_accounts db') = Some x \<and> ba_id x = ba_id a \<and>
       ba_user_id x = ba_user_id a \<and> x \<in> set (table_rows (db_accounts db'))"
    "\<exists>t. db' = db\<lparr>db_accounts := t\<rparr>"
proof -
  have a: "first_row (\<lambda>x. ba_id x = ba_id a) (db_accounts db) = Some a"
    using first_row_key [of ba_id "db_accounts db" a] assms(2,3) by (simp add: accounts_ok_def)
  let ?f = "\<lambda>a. a\<lparr>ba_balance_nanousd := ba_balance_nanousd a + delta, ba_currency := ''USD'', ba_status := ''active''\<rparr>"
  from assms(1) a have small: "in_int64 (ba_balance_nanousd a + delta)"
    and db': "db' = db\<lparr>db_accounts := update_rows (\<lambda>x. ba_id x = ba_id a) ?f (db_accounts db)\<rparr>"
    by (auto simp: add_to_balance_def split: if_splits)
  note upd = update_account_step [OF assms(2,3) small, of ?f, OF _ _ _ db', simplified]
  show "moves (ba_user_id a) delta 0 db db'" using upd(1) by simp
  show "in_int64 (ba_balance_nanousd a + delta)" by (rule small)
  have "accounts_ok db'" using upd(1) by (rule moves_ok)
  then have "first_row (\<lambda>x. ba_id x = ba_id a) (db_accounts db') = Some (?f a)"
    using first_row_key [of ba_id "db_accounts db'" "?f a"] upd(2) by (simp add: accounts_ok_def)
  then show "\<exists>x. first_row (\<lambda>x. ba_id x = ba_id a) (db_accounts db') = Some x \<and> ba_id x = ba_id a \<and>
       ba_user_id x = ba_user_id a \<and> x \<in> set (table_rows (db_accounts db'))" using upd(2) by simp
  show "\<exists>t. db' = db\<lparr>db_accounts := t\<rparr>" using db' by blast
qed

lemma add_transaction_step:
  assumes "add_transaction i u typ amt b rt ri rn db = (k, db')" "accounts_ok db"
  shows "moves u 0 amt db db'" "\<exists>t. db' = db\<lparr>db_transactions := t\<rparr>"
proof -
  let ?mk = "\<lambda>k. \<lparr>bt_id = k, bt_account_id = i, bt_user_id = u, bt_type = typ,
            bt_amount_nanousd = amt, bt_balance_after_nanousd = b, bt_ref_type = rt, bt_ref_id = ri, bt_ref_no = rn\<rparr>"
  have db': "db' = db\<lparr>db_transactions := snd (create_row ?mk (db_transactions db))\<rparr>"
    using assms(1) by (auto simp: add_transaction_def split: prod.splits)
  have "posted db' v = posted db v + (if v = u then amt else 0)" for v
    by (simp add: posted_def db' sum_rows_simps)
  moreover have "accounts_ok db'" "balance db' v = balance db v" for v
    using assms(2) by (simp_all add: db' accounts_ok_def balance_def)
  ultimately show "moves u 0 amt db db'"
    using in_int64_balance [OF assms(2)] by (simp add: moves_def) (simp add: db')
  show "\<exists>t. db' = db\<lparr>db_transactions := t\<rparr>" using db' by blast
qed

section \<open>The operations\<close>

text \<open>An operation books its movements: at most one user's balance moves, by an amount that is posted.\<close>

definition booked_step :: "billing_db \<Rightarrow> billing_db \<Rightarrow> bool" where
  "booked_step db db' \<longleftrightarrow> (\<exists>u x. moves u x x db db')"

lemma booked_refl: "accounts_ok db \<Longrightarrow> booked_step db db"
  unfolding booked_step_def by (blast intro: moves_frame)

lemma booked_frame:
  "accounts_ok db \<Longrightarrow> db_accounts db' = db_accounts db \<Longrightarrow> db_transactions db' = db_transactions db \<Longrightarrow> booked_step db db'"
  unfolding booked_step_def by (blast intro: moves_frame)

lemma booked_moves: "moves u x x db db' \<Longrightarrow> booked_step db db'"
  unfolding booked_step_def by blast

lemma booked_transaction:
  assumes "transaction body db = (res, db')" "accounts_ok db"
    and "\<And>a db1. body db = (Inr a, db1) \<Longrightarrow> booked_step db db1"
  shows "booked_step db db'"
  using assms(1) by (cases rule: transaction_cases) (auto intro: booked_refl assms)

lemma moves_then:
  assumes "moves u a b db db1" "db_accounts db' = db_accounts db1" "db_transactions db' = db_transactions db1"
  shows "moves u a b db db'"
  using moves_trans [OF assms(1) moves_frame [OF moves_ok [OF assms(1)] assms(2,3)]] by simp

lemma create_ledger_frame:
  "create_usage_ledger usage db = (res, db') \<Longrightarrow> \<exists>t. db' = db\<lparr>db_ledgers := t\<rparr>"
  by (auto simp: create_usage_ledger_def Let_def split: if_splits prod.splits intro: exI [of _ "db_ledgers db"])

lemma charge_usage_step:
  assumes "charge_usage usage amt account row ref_no settled_at db = (Inr r, db')" "accounts_ok db"
    and "account \<in> set (table_rows (db_accounts db))" "ul_user_id usage = ba_user_id account" "0 \<le> amt"
  shows "moves (ba_user_id account) (- amt) (- amt) db db'"
proof -
  let ?next = "wrap64 (ba_balance_nanousd account - amt)"
  obtain l db1 where ledger: "create_usage_ledger (usage\<lparr>ul_balance_after_nanousd := Some ?next\<rparr>) db = (Inr l, db1)"
    using assms(1) by (auto simp: charge_usage_def Let_def split: prod.splits sum.splits)
  then obtain t where db1: "db1 = db\<lparr>db_ledgers := t\<rparr>" using create_ledger_frame by blast
  have ok: "accounts_ok db1" using assms(2) by (simp add: db1 accounts_ok_def)
  have one: "moves v 0 0 db db1" for v using moves_frame [OF assms(2)] by (simp add: db1)
  show ?thesis
  proof (cases "0 < amt")
    case False
    then have "db' = settle_usage_reservation row (ul_id l) settled_at db1"
      using assms(1) ledger by (simp add: charge_usage_def Let_def)
    then show ?thesis using False assms(5) moves_then [OF one]
      by (auto simp: settle_usage_reservation_def update_reservation_def split: option.splits)
  next
    case True
    then obtain db2 where debit: "add_to_balance account (- amt) db1 = (Inr (), db2)"
      using assms(1) ledger by (auto simp: charge_usage_def Let_def split: prod.splits sum.splits)
    obtain k db3 where tx: "add_transaction (ba_id account) (ul_user_id usage) ''usage_debit'' (- amt) ?next
        ''usage_ledger'' (ul_id l) ref_no db2 = (k, db3)" by fastforce
    have db': "db' = settle_usage_reservation row (ul_id l) settled_at db3"
      using assms(1) ledger debit tx True by (simp add: charge_usage_def Let_def)
    have mem: "account \<in> set (table_rows (db_accounts db1))" using assms(3) by (simp add: db1)
    note m2 = add_to_balance_step(1) [OF debit ok mem]
    note m3 = add_transaction_step(1) [OF tx moves_ok [OF m2], unfolded assms(4)]
    from moves_trans [OF moves_trans [OF one m2] m3] have "moves (ba_user_id account) (- amt) (- amt) db db3" by simp
    then show ?thesis
      by (rule moves_then) (auto simp: db' settle_usage_reservation_def update_reservation_def split: option.splits)
  qed
qed

text \<open>What both settlements have established before they charge.\<close>

lemma begin_settlement_step:
  assumes "begin_settlement accepts usage reservation db = (Inr r, db')" "accounts_ok db"
  shows "moves v 0 0 db db'" "\<exists>t. db' = db\<lparr>db_accounts := t\<rparr>"
    and "r = Inr (account, row) \<Longrightarrow> account \<in> set (table_rows (db_accounts db')) \<and> ba_user_id account = ul_user_id usage \<and>
      ba_balance_nanousd account = balance db (ul_user_id usage)"
proof -
  obtain a db1 where acc: "get_or_create_account_for_update (ul_user_id usage) db = (Inr a, db1)"
    using assms(1) by (auto simp: begin_settlement_def split: prod.splits sum.splits)
  have "db' = db1" "r = Inr (account, row) \<Longrightarrow> account = a"
    using assms(1) acc by (auto simp: begin_settlement_def restore_settled_usage_ledger_def
        split: sum.splits option.splits prod.splits if_splits)
  then show "moves v 0 0 db db'" "\<exists>t. db' = db\<lparr>db_accounts := t\<rparr>"
    "r = Inr (account, row) \<Longrightarrow> account \<in> set (table_rows (db_accounts db')) \<and> ba_user_id account = ul_user_id usage \<and>
      ba_balance_nanousd account = balance db (ul_user_id usage)"
    using account_step [OF acc assms(2)] by auto
qed

lemma charge_of_nonneg [simp]: "0 \<le> charge_of usage"
  by (simp add: charge_of_def)

lemma settle_balance_step:
  assumes "settle_balance_body usage reservation settled_at db = (Inr r, db')" "accounts_ok db"
  shows "moves (ul_user_id usage) 0 0 db db' \<or> moves (ul_user_id usage) (- charge_of usage) (- charge_of usage) db db'"
proof -
  from assms(1) obtain x db1 where pre: "begin_settlement (\<lambda>row. ur_mode row = ''usage'') usage reservation db = (Inr x, db1)"
    by (auto simp: settle_balance_body_def split: prod.splits sum.splits)
  note start = begin_settlement_step [OF pre assms(2)]
  show ?thesis
  proof (cases x)
    case (Inl l)
    then show ?thesis using assms(1) pre start(1) by (simp add: settle_balance_body_def)
  next
    case (Inr ar)
    then obtain account row where x: "x = Inr (account, row)" by (cases ar) auto
    from start(3) [OF x] have acc: "account \<in> set (table_rows (db_accounts db1))" "ul_user_id usage = ba_user_id account" by simp_all
    have "charge_usage usage (charge_of usage) account row (reservation_ref_no reservation) settled_at db1 = (Inr (), db')"
      using assms(1) pre x by (auto simp: settle_balance_body_def split: prod.splits sum.splits)
    from charge_usage_step [OF this moves_ok [OF start(1)] acc]
    have "moves (ul_user_id usage) (- charge_of usage) (- charge_of usage) db1 db'" by (simp add: acc(2))
    from moves_trans [OF start(1) this] show ?thesis by simp
  qed
qed

lemma period_settlement_overage:
  "period_settlement usage credit used reserved row = (ledger, overage) \<Longrightarrow>
     overage = charge_of usage - lower_int64 (charge_of usage) (remaining_non_negative_budget credit used reserved)"
  "period_settlement usage credit used reserved row = (ledger, overage) \<Longrightarrow> 0 \<le> overage \<and> ul_user_id ledger = ul_user_id usage"
  by (auto simp: period_settlement_def Let_def lower_int64_def)

lemma settle_period_step:
  assumes "settle_period_body usage ps pe credit reservation now settled_at db = (Inr r, db')" "accounts_ok db"
  shows "\<exists>x. moves (ul_user_id usage) x x db db'"
proof -
  from assms(1) obtain x db1 where pre:
    "begin_settlement (\<lambda>row. matches_period_reservation row ps pe credit) usage reservation db = (Inr x, db1)"
    by (auto simp: settle_period_body_def split: prod.splits sum.splits)
  note start = begin_settlement_step [OF pre assms(2)]
  show ?thesis
  proof (cases x)
    case (Inl l)
    then show ?thesis using assms(1) pre start(1) by (auto simp: settle_period_body_def)
  next
    case (Inr ar)
    then obtain account row where x: "x = Inr (account, row)" by (cases ar) auto
    from start(3) [OF x] have acc: "account \<in> set (table_rows (db_accounts db1))" "ul_user_id usage = ba_user_id account" by simp_all
    obtain used reserved ledger overage where parts:
      "period_settlement usage credit used reserved row = (ledger, overage)"
      "charge_usage ledger overage account row (reservation_ref_no reservation) settled_at db1 = (Inr (), db')"
      using assms(1) pre x by (auto simp: settle_period_body_def split: prod.splits sum.splits)
    have "moves (ba_user_id account) (- overage) (- overage) db1 db'"
      using charge_usage_step [OF parts(2) moves_ok [OF start(1)] acc(1)] period_settlement_overage(2) [OF parts(1)] acc(2)
      by simp
    from moves_trans [OF start(1) this] show ?thesis unfolding acc(2) [symmetric] by auto
  qed
qed

end
