(* ===== verification/Billing_History.thy ===== *)
theory Billing_History
  imports Balance_Props
begin

text \<open>
  Histories of the billing operations, in any order and by any users, and what no history can break:
  the balance of a user is the sum of the transactions of the user.
\<close>

section \<open>Histories\<close>

text \<open>An int64 parameter that is written to a column as it is takes any int, wrapped.\<close>

datatype billing_op =
    ReserveUsage reservation_request time
  | RaiseReservation nat string int time
  | ReleaseReservation nat string time
  | RenewReservation nat string time
  | MarkReconciliation nat string string time
  | WriteUsage usage_ledger
  | SettleBalance usage_ledger "usage_reservation option" time
  | SettlePeriod usage_ledger time time int "usage_reservation option" time time
  | OpenAccount nat
  | SetBalance nat int string
  | CreateOrder payment_order
  | UpdateCheckout string string string
  | OrderPaidGrant string string time subscription_row time
  | OrderPaidCredit string string time time
  | CreateCode redemption_code
  | PatchCode nat redemption_code_patch
  | DeleteCode nat
  | RedeemCode redemption_input time

fun billing_step :: "billing_op \<Rightarrow> billing_db \<Rightarrow> billing_db" where
  "billing_step (ReserveUsage inp now) db = snd (reserve_usage_balance inp now db)"
| "billing_step (RaiseReservation u ref required now) db = snd (raise_usage_balance_reservation u ref required now db)"
| "billing_step (ReleaseReservation u ref now) db = snd (release_usage_balance_reservation u ref now db)"
| "billing_step (RenewReservation u ref now) db = snd (renew_usage_balance_reservation u ref now db)"
| "billing_step (MarkReconciliation u ref failure now) db =
     snd (mark_usage_reservation_reconciliation_required u ref failure now db)"
| "billing_step (WriteUsage usage) db = snd (add_usage usage db)"
| "billing_step (SettleBalance usage res at) db = snd (add_usage_and_settle_balance usage res at db)"
| "billing_step (SettlePeriod usage ps pe credit res now at) db =
     snd (add_period_usage_and_settle_overage usage ps pe credit res now at db)"
| "billing_step (OpenAccount u) db = snd (get_or_create_billing_account u db)"
| "billing_step (SetBalance u b ref) db = snd (set_billing_account_balance u (wrap64 b) ref db)"
| "billing_step (CreateOrder item) db = snd (create_payment_order item db)"
| "billing_step (UpdateCheckout n i url) db = snd (update_payment_order_checkout n i url db)"
| "billing_step (OrderPaidGrant n ext paid sub clock) db =
     snd (mark_payment_order_paid_and_grant_subscription n ext paid sub clock db)"
| "billing_step (OrderPaidCredit n ext paid clock) db =
     snd (mark_payment_order_paid_and_credit_balance n ext paid clock db)"
| "billing_step (CreateCode item) db = snd (create_redemption_code item db)"
| "billing_step (PatchCode i p) db = snd (patch_redemption_code i p db)"
| "billing_step (DeleteCode i) db = snd (delete_redemption_code i db)"
| "billing_step (RedeemCode inp clock) db = snd (redeem_code inp clock db)"

definition billing_run :: "billing_op list \<Rightarrow> billing_db \<Rightarrow> billing_db" where
  "billing_run ops db = fold billing_step ops db"

lemma billing_run_invariant:
  assumes "P db" "\<And>op db. P db \<Longrightarrow> P (billing_step op db)"
  shows "P (billing_run ops db)"
  using assms(1) unfolding billing_run_def by (induction ops arbitrary: db) (auto intro: assms(2))

section \<open>Granting touches the subscriptions only\<close>

definition only_subscriptions :: "billing_db \<Rightarrow> billing_db \<Rightarrow> bool" where
  "only_subscriptions db db' \<longleftrightarrow> (\<exists>t. db' = db\<lparr>db_subscriptions := t\<rparr>)"

lemma only_subscriptions_refl [simp]: "only_subscriptions db db"
  unfolding only_subscriptions_def by (rule exI [of _ "db_subscriptions db"]) simp

lemma only_subscriptions_trans [trans]:
  "only_subscriptions db db1 \<Longrightarrow> only_subscriptions db1 db2 \<Longrightarrow> only_subscriptions db db2"
  by (auto simp: only_subscriptions_def)

lemma only_subscriptions_steps:
  "only_subscriptions db (expire_subscription item now db)"
  "update_subscription_segment item segment now db = (res, db') \<Longrightarrow> only_subscriptions db db'"
  "create_subscription_segment u segment db = (res2, db') \<Longrightarrow> only_subscriptions db db'"
proof -
  show "only_subscriptions db (expire_subscription item now db)"
    unfolding only_subscriptions_def expire_subscription_def Let_def by blast
  show "update_subscription_segment item segment now db = (res, db') \<Longrightarrow> only_subscriptions db db'"
    by (auto simp: only_subscriptions_def update_subscription_segment_def Let_def split: option.splits)
  show "create_subscription_segment u segment db = (res2, db') \<Longrightarrow> only_subscriptions db db'"
    unfolding create_subscription_segment_def Let_def
    by (auto split: if_splits prod.splits) (auto simp: only_subscriptions_def)
qed

lemma apply_targets_only:
  "apply_targets u reuse now gp index targets granted db = (res, db') \<Longrightarrow> only_subscriptions db db'"
proof (induction targets arbitrary: index granted db)
  case (Cons target targets)
  let ?one = "case reuse of
      Some (item, reusable) \<Rightarrow>
        if index = reusable then update_subscription_segment item target now db
        else create_subscription_segment u target db
    | None \<Rightarrow> create_subscription_segment u target db"
  obtain r db1 where one: "?one = (r, db1)" by fastforce
  have step: "only_subscriptions db db1"
    using one by (auto dest: only_subscriptions_steps(2,3) split: option.splits if_splits)
  show ?case
  proof (cases r)
    case (Inl e)
    then show ?thesis using Cons.prems one step by simp
  next
    case (Inr new_row)
    then have "apply_targets u reuse now gp (Suc index) targets (remember_granted gp target new_row granted) db1 = (res, db')"
      using Cons.prems one by simp
    from only_subscriptions_trans [OF step Cons.IH [OF this]] show ?thesis .
  qed
qed simp

lemma apply_existing_only:
  "apply_existing u segments now gp items granted db = (res, db') \<Longrightarrow> only_subscriptions db db'"
proof (induction items arbitrary: granted db)
  case (Cons item items)
  let ?targets = "filter (\<lambda>s. 0 < seg_subscription_id s \<and> seg_subscription_id s = sub_id item) segments"
  let ?reusable = "reusable_segment_index item ?targets now"
  let ?db = "if ?reusable = None then expire_subscription item now db else db"
  have expired: "only_subscriptions db ?db" by (simp add: only_subscriptions_steps(1))
  show ?case
  proof (cases "?targets = []")
    case True
    then have "apply_existing u segments now gp items granted (expire_subscription item now db) = (res, db')"
      using Cons.prems by (simp add: Let_def)
    from only_subscriptions_trans [OF only_subscriptions_steps(1) Cons.IH [OF this]] show ?thesis .
  next
    case False
    obtain r db1 where one: "apply_targets u (map_option (Pair item) ?reusable) now gp 0 ?targets granted ?db = (r, db1)"
      by fastforce
    note step = only_subscriptions_trans [OF expired apply_targets_only [OF one]]
    show ?thesis
    proof (cases r)
      case (Inl e)
      then show ?thesis using Cons.prems False one step by (simp add: Let_def split: if_splits)
    next
      case (Inr g)
      then have "apply_existing u segments now gp items g db1 = (res, db')"
        using Cons.prems False one by (simp add: Let_def split: if_splits)
      from only_subscriptions_trans [OF step Cons.IH [OF this]] show ?thesis .
    qed
  qed
qed simp

lemma apply_timeline_only:
  assumes "apply_subscription_timeline u existing segments now gp db = (res, db')"
  shows "only_subscriptions db db'"
proof -
  let ?n = "normalize_timeline segments"
  obtain r db1 where one: "apply_existing u ?n now gp existing None db = (r, db1)" by fastforce
  note step = apply_existing_only [OF one]
  show ?thesis
  proof (cases r)
    case (Inl e)
    then show ?thesis using assms one step by (simp add: apply_subscription_timeline_def)
  next
    case (Inr g)
    obtain r2 db2 where two: "apply_targets u None now gp 0 (filter (\<lambda>s. seg_subscription_id s = 0) ?n) g db1 = (r2, db2)"
      by fastforce
    then have "db' = db2" using assms one Inr
      by (auto simp: apply_subscription_timeline_def split: sum.splits option.splits)
    with only_subscriptions_trans [OF step apply_targets_only [OF two]] show ?thesis by simp
  qed
qed

lemma grant_only: "grant_subscription_on_timeline inp clock db = (res, db') \<Longrightarrow> only_subscriptions db db'"
  by (auto simp: grant_subscription_on_timeline_def Let_def dest: apply_timeline_only
      split: if_splits sum.splits timeline_error.splits)

section \<open>Every operation books what it moves\<close>

lemma booked_account:
  "get_or_create_account_for_update u db = (Inr a, db') \<Longrightarrow> accounts_ok db \<Longrightarrow> booked_step db db'"
  by (rule booked_moves [OF account_step(1)])

lemma booked_same:
  assumes "booked_step db db1" "db_accounts db' = db_accounts db1" "db_transactions db' = db_transactions db1"
  shows "booked_step db db'"
  using assms unfolding booked_step_def by (blast intro: moves_then)

lemma reserve_booked:
  assumes "reserve_usage_balance inp now db = (res, db')" "accounts_ok db"
  shows "booked_step db db'"
proof -
  define i where "i = inp\<lparr>rr_ref_no := trim_space (rr_ref_no inp), rr_mode := trim_space (rr_mode inp)\<rparr>"
  have "booked_step db db1" if body: "reserve_body i now db = (Inr a, db1)" for a db1
  proof -
    from body obtain acc db0 where acc: "get_or_create_account_for_update (rr_user_id i) db = (Inr acc, db0)"
      by (auto simp: reserve_body_def split: prod.splits sum.splits)
    with body have "db_accounts db1 = db_accounts db0" "db_transactions db1 = db_transactions db0"
      by (auto simp: reserve_body_def create_reservation_def Let_def split: if_splits sum.splits prod.splits)
    then show ?thesis by (rule booked_same [OF booked_account [OF acc assms(2)]])
  qed
  with assms show ?thesis
    unfolding reserve_usage_balance_def Let_def i_def [symmetric]
    by (auto split: if_splits intro: booked_refl booked_transaction)
qed

lemma raise_booked:
  assumes "raise_usage_balance_reservation u ref required now db = (res, db')" "accounts_ok db"
  shows "booked_step db db'"
proof -
  have "booked_step db db1" if body: "raise_body u r required now db = (Inr a, db1)" for a db1 r
  proof -
    from body obtain acc db0 where acc: "get_or_create_account_for_update u db = (Inr acc, db0)"
      by (auto simp: raise_body_def split: prod.splits sum.splits)
    with body have "db_accounts db1 = db_accounts db0" "db_transactions db1 = db_transactions db0"
      by (auto simp: raise_body_def update_reservation_def Let_def split: if_splits sum.splits prod.splits option.splits)
    then show ?thesis by (rule booked_same [OF booked_account [OF acc assms(2)]])
  qed
  with assms show ?thesis
    unfolding raise_usage_balance_reservation_def Let_def
    by (auto split: if_splits intro: booked_refl booked_transaction)
qed

lemma reservation_steps_booked:
  assumes "accounts_ok db"
  shows "release_usage_balance_reservation u ref now db = (res, db') \<Longrightarrow> booked_step db db'"
    "renew_usage_balance_reservation u ref now db = (res, db') \<Longrightarrow> booked_step db db'"
    "mark_usage_reservation_reconciliation_required u ref failure now db = (res, db') \<Longrightarrow> booked_step db db'"
proof -
  have release: "db_accounts db1 = db_accounts db \<and> db_transactions db1 = db_transactions db"
    if "release_body u r now db = (x, db1)" for x db1 r
    using that by (auto simp: release_body_def update_reservation_def split: option.splits if_splits)
  show "release_usage_balance_reservation u ref now db = (res, db') \<Longrightarrow> booked_step db db'"
    using assms unfolding release_usage_balance_reservation_def Let_def
    by (auto split: if_splits intro!: booked_refl elim!: booked_transaction intro: booked_frame dest!: release)
  show "renew_usage_balance_reservation u ref now db = (res, db') \<Longrightarrow> booked_step db db'"
    "mark_usage_reservation_reconciliation_required u ref failure now db = (res, db') \<Longrightarrow> booked_step db db'"
    using assms unfolding renew_usage_balance_reservation_def mark_usage_reservation_reconciliation_required_def Let_def
      update_where_def
    by (auto split: if_splits intro!: booked_frame)
qed

lemma add_usage_booked:
  assumes "add_usage usage db = (res, db')" "accounts_ok db"
  shows "booked_step db db'"
  using assms(1) unfolding add_usage_def
proof (rule booked_transaction [OF _ assms(2)])
  fix a db1 assume "add_usage_body usage db = (Inr a, db1)"
  then have "db1 = db \<or> (\<exists>r. create_usage_ledger usage db = (Inr r, db1))"
    by (auto simp: add_usage_body_def split: option.splits prod.splits sum.splits)
  then show "booked_step db db1"
    using assms(2) create_ledger_frame by (fastforce intro: booked_frame booked_refl)
qed

lemma settle_balance_booked:
  assumes "add_usage_and_settle_balance usage reservation at db = (res, db')" "accounts_ok db"
  shows "booked_step db db'"
  using assms(1) unfolding add_usage_and_settle_balance_def
  by (rule booked_transaction [OF _ assms(2)]) (blast dest: settle_balance_step [OF _ assms(2)] intro: booked_moves)

lemma settle_period_booked:
  assumes "add_period_usage_and_settle_overage usage ps pe credit reservation now at db = (res, db')" "accounts_ok db"
  shows "booked_step db db'"
proof (cases "ul_user_id usage = 0 \<or> is_zero ps \<or> \<not> ps < pe \<or> credit < 0")
  case True
  then show ?thesis using assms by (simp add: add_period_usage_and_settle_overage_def booked_refl)
next
  case False
  then have "transaction (settle_period_body usage ps pe credit reservation now at) db = (res, db')"
    using assms(1) by (simp add: add_period_usage_and_settle_overage_def)
  then show ?thesis
    by (rule booked_transaction [OF _ assms(2)]) (blast dest: settle_period_step [OF _ assms(2)] intro: booked_moves)
qed

lemma write_balance_step:
  assumes "accounts_ok db" "a \<in> set (table_rows (db_accounts db))" "in_int64 b"
  shows "moves (ba_user_id a) (b - ba_balance_nanousd a) 0 db (write_balance a b db)"
  unfolding write_balance_def
  by (rule update_account_step(1) [OF assms, OF _ _ _ refl]) simp_all

text \<open>Writing a balance and posting the difference; the posted amount may wrap as the balance does.\<close>

lemma moves_wrapped:
  assumes "moves u paid booked db db'" "wrap64 paid = wrap64 booked" "accounts_ok db"
  shows "moves u booked booked db db'"
proof -
  have "wrap64 (x + paid) = wrap64 (x + booked)" for x
    using assms(2) wrap64_wrap64 by (metis add.commute)
  then show ?thesis using assms(1) by (simp add: moves_def)
qed

lemma set_balance_booked:
  assumes "set_billing_account_balance u b ref db = (res, db')" "accounts_ok db" "in_int64 b"
  shows "booked_step db db'"
proof -
  have "booked_step db db2" if body: "set_balance_body u b ref db = (Inr a, db2)" for a db2
  proof -
    from body obtain acc db0 where acc: "get_or_create_account_for_update u db = (Inr acc, db0)"
      by (auto simp: set_balance_body_def split: prod.splits sum.splits)
    note start = account_step [OF acc assms(2)]
    let ?amt = "wrap64 (b - ba_balance_nanousd acc)"
    have m1: "moves u (b - ba_balance_nanousd acc) 0 db0 (write_balance acc b db0)"
      using write_balance_step [OF moves_ok [OF start(1)] start(2) assms(3)] start(3) by simp
    have "moves u (b - ba_balance_nanousd acc) ?amt db0 db2"
    proof (cases "?amt = 0")
      case True
      then have "db2 = write_balance acc b db0"
        using body acc by (auto simp: set_balance_body_def Let_def split: option.splits)
      then show ?thesis using m1 True by simp
    next
      case False
      then have "db2 = snd (add_transaction (ba_id acc) u ''admin_set'' ?amt b ''admin'' 0 (trim_space ref) (write_balance acc b db0))"
        using body acc by (auto simp: set_balance_body_def Let_def split: option.splits)
      then show ?thesis
        using moves_trans [OF m1 add_transaction_step(1) [OF prod.collapse [symmetric] moves_ok [OF m1]]] by simp
    qed
    then have "moves u ?amt ?amt db0 db2"
      using moves_wrapped [OF _ _ moves_ok [OF start(1)]] by simp
    from moves_trans [OF start(1) this] show ?thesis by (auto intro: booked_moves)
  qed
  with assms(1,2) show ?thesis
    unfolding set_billing_account_balance_def by (auto split: if_splits intro: booked_refl booked_transaction)
qed

lemma finish_order_frame:
  "finish_order ord ext paid db = (res, db') \<Longrightarrow> db_accounts db' = db_accounts db \<and> db_transactions db' = db_transactions db"
  by (auto simp: finish_order_def update_orders_def Let_def split: option.splits)

lemma credit_order_booked:
  assumes "credit_order_body n ext paid db = (Inr a, db')" "accounts_ok db"
  shows "booked_step db db'"
proof -
  from assms(1) obtain ord where ord: "first_row (\<lambda>x. po_order_no x = n) (db_orders db) = Some ord"
    by (auto simp: credit_order_body_def split: option.splits)
  show ?thesis
  proof (cases "po_status ord = ''paid''")
    case True
    then show ?thesis using assms ord by (simp add: credit_order_body_def booked_refl)
  next
    case False
    with assms(1) ord have live: "\<not> (po_status ord \<noteq> ''pending'' \<or> po_order_type ord \<noteq> ''topup'' \<or> po_credit_nanousd ord \<le> 0)"
      "\<not> order_expired ord paid"
      by (auto simp: credit_order_body_def refuse_expired_order_def split: if_splits)
    then obtain acc db0 where acc: "get_or_create_account_for_update (po_user_id ord) db = (Inr acc, db0)"
      using assms(1) ord False by (auto simp: credit_order_body_def split: prod.splits sum.splits)
    note start = account_step [OF acc assms(2)]
    let ?next = "wrap64 (ba_balance_nanousd acc + po_credit_nanousd ord)"
    define db1 where "db1 = write_balance acc ?next db0"
    define db2 where "db2 = snd (add_transaction (ba_id acc) (po_user_id ord) ''topup'' (po_credit_nanousd ord)
        ?next ''payment_order'' (po_id ord) (po_order_no ord) db1)"
    have fin: "finish_order ord ext paid db2 = (Inr a, db')"
      using assms(1) ord False live acc by (simp add: credit_order_body_def Let_def db1_def db2_def)
    have m1: "moves (po_user_id ord) (?next - ba_balance_nanousd acc) 0 db0 db1"
      using write_balance_step [OF moves_ok [OF start(1)] start(2), of ?next] start(3) by (simp add: db1_def)
    from moves_trans [OF m1 add_transaction_step(1) [OF prod.collapse [symmetric] moves_ok [OF m1]]]
    have "moves (po_user_id ord) (?next - ba_balance_nanousd acc) (po_credit_nanousd ord) db0 db2"
      by (simp add: db2_def)
    then have "moves (po_user_id ord) (po_credit_nanousd ord) (po_credit_nanousd ord) db0 db2"
      by (rule moves_wrapped [OF _ _ moves_ok [OF start(1)]]) (simp add: wrap64_wrap64 diff_conv_add_uminus del: add_uminus_conv_diff)
    from moves_trans [OF start(1) this] have "booked_step db db2" by (auto intro: booked_moves)
    then show ?thesis using finish_order_frame [OF fin] by (blast intro: booked_same)
  qed
qed

lemma only_subscriptions_frame:
  assumes "only_subscriptions db db'"
  shows "db_accounts db' = db_accounts db" "db_transactions db' = db_transactions db" "db_orders db' = db_orders db"
    "db_codes db' = db_codes db" "db_redemptions db' = db_redemptions db"
    "db_reservations db' = db_reservations db" "db_ledgers db' = db_ledgers db"
  using assms by (auto simp: only_subscriptions_def)

lemma grant_order_booked:
  assumes "grant_order_body n ext paid sub clock db = (Inr a, db')" "accounts_ok db"
  shows "booked_step db db'"
proof -
  from assms(1) have "db' = db \<or> (\<exists>inp r db1 ord. grant_subscription_on_timeline inp clock db = (Inr r, db1) \<and>
      finish_order ord ext paid db1 = (Inr a, db'))"
    by (auto simp: grant_order_body_def refuse_expired_order_def Let_def split: option.splits if_splits prod.splits sum.splits)
  then show ?thesis
  proof (elim disjE exE conjE)
    fix inp r db1 ord
    assume "grant_subscription_on_timeline inp clock db = (Inr r, db1)" "finish_order ord ext paid db1 = (Inr a, db')"
    from only_subscriptions_frame [OF grant_only [OF this(1)]] finish_order_frame [OF this(2)]
    show ?thesis by (intro booked_frame [OF assms(2)]) simp_all
  qed (simp add: assms(2) booked_refl)
qed

lemma redemption_balance_step:
  assumes "apply_redemption_balance u code ref db = (Inr (a, k), db')" "accounts_ok db"
  shows "moves u (rc_credit_nanousd code) (rc_credit_nanousd code) db db'"
    "db_codes db' = db_codes db" "db_redemptions db' = db_redemptions db"
proof -
  from assms(1) obtain acc db0 where acc: "get_or_create_account_for_update u db = (Inr acc, db0)"
    by (auto simp: apply_redemption_balance_def split: prod.splits sum.splits)
  note start = account_step [OF acc assms(2)]
  from assms(1) acc obtain db1 where add: "add_to_balance acc (rc_credit_nanousd code) db0 = (Inr (), db1)"
    by (auto simp: apply_redemption_balance_def split: prod.splits sum.splits)
  note m1 = add_to_balance_step [OF add moves_ok [OF start(1)] start(2), unfolded start(3)]
  from m1(3) obtain x where x: "first_row (\<lambda>x. ba_id x = ba_id acc) (db_accounts db1) = Some x" by blast
  have tx: "add_transaction (ba_id x) u ''redemption'' (rc_credit_nanousd code) (ba_balance_nanousd x)
      ''redemption_code'' (rc_id code) (trim_space ref) db1 = (k, db')"
    using assms(1) acc add x by (auto simp: apply_redemption_balance_def Let_def split: prod.splits)
  note m2 = add_transaction_step [OF tx moves_ok [OF m1(1)]]
  from moves_trans [OF start(1) moves_trans [OF m1(1) m2(1)]]
  show "moves u (rc_credit_nanousd code) (rc_credit_nanousd code) db db'" by simp
  show "db_codes db' = db_codes db" "db_redemptions db' = db_redemptions db"
    using start(5) m1(4) m2(2) by auto
qed

text \<open>The reward of a code: a balance that is booked, or a subscription; neither touches codes or redemptions.\<close>

lemma reward_step:
  assumes "apply_reward inp code now clock db = (Inr r, db')" "accounts_ok db"
  shows "booked_step db db'" "db_codes db' = db_codes db" "db_redemptions db' = db_redemptions db"
proof -
  from assms(1) consider
    (balance) a k where "apply_redemption_balance (ri_user_id inp) code (trim_space (ri_ref_no inp)) db = (Inr (a, k), db')"
  | (subscription) s where "apply_redemption_subscription (ri_user_id inp) code now clock db = (Inr s, db')"
    by (auto simp: apply_reward_def split: if_splits prod.splits sum.splits)
  then have "booked_step db db' \<and> db_codes db' = db_codes db \<and> db_redemptions db' = db_redemptions db"
  proof cases
    case balance
    note step = redemption_balance_step [OF balance assms(2)]
    from booked_moves [OF step(1)] step(2,3) show ?thesis by simp
  next
    case subscription
    then have "only_subscriptions db db'"
      by (auto simp: apply_redemption_subscription_def dest: grant_only split: option.splits sum.splits if_splits)
    then show ?thesis using assms(2) by (auto dest: only_subscriptions_frame intro: booked_frame)
  qed
  then show "booked_step db db'" "db_codes db' = db_codes db" "db_redemptions db' = db_redemptions db" by blast+
qed

lemma redeem_booked:
  assumes "redeem_body inp now clock db = (Inr r, db')" "accounts_ok db"
  shows "booked_step db db'"
proof -
  from assms(1) obtain code x db1 where "apply_reward inp code now clock db = (Inr x, db1)"
    "db_accounts db' = db_accounts db1" "db_transactions db' = db_transactions db1"
    by (auto simp: redeem_body_def create_row_def Let_def split: option.splits prod.splits sum.splits)
  then show ?thesis using reward_step(1) [OF _ assms(2)] by (blast intro: booked_same)
qed

section \<open>The books\<close>

lemma order_steps_frame:
  "create_payment_order item db = (res, db') \<Longrightarrow> db_accounts db' = db_accounts db \<and> db_transactions db' = db_transactions db"
  "update_payment_order_checkout n i url db = (res2, db') \<Longrightarrow> db_accounts db' = db_accounts db \<and> db_transactions db' = db_transactions db"
  by (auto simp: create_payment_order_def update_payment_order_checkout_def update_orders_def Let_def
      split: if_splits prod.splits)

lemma code_steps_frame:
  "create_redemption_code item db = (res, db') \<Longrightarrow> db_accounts db' = db_accounts db \<and> db_transactions db' = db_transactions db"
  "patch_code_body i p db = (res, db') \<Longrightarrow> db_accounts db' = db_accounts db \<and> db_transactions db' = db_transactions db"
  "delete_redemption_code i db = (res2, db') \<Longrightarrow> db_accounts db' = db_accounts db \<and> db_transactions db' = db_transactions db"
  by (auto simp: create_redemption_code_def patch_code_body_def delete_redemption_code_def Let_def
      split: if_splits prod.splits option.splits)

lemma step_booked: "accounts_ok db \<Longrightarrow> booked_step db (billing_step op db)"
proof (induction op)
  case (RedeemCode inp clock)
  then show ?case
    unfolding billing_step.simps redeem_code_def
    by (auto intro: booked_refl booked_transaction [OF prod.collapse [symmetric]] redeem_booked)
next
  case (OrderPaidCredit n ext paid clock)
  then show ?case
    unfolding billing_step.simps mark_payment_order_paid_and_credit_balance_def Let_def
    by (auto intro: booked_refl booked_transaction [OF prod.collapse [symmetric]] credit_order_booked)
next
  case (OrderPaidGrant n ext paid sub clock)
  then show ?case
    unfolding billing_step.simps mark_payment_order_paid_and_grant_subscription_def Let_def
    by (auto intro: booked_refl booked_transaction [OF prod.collapse [symmetric]] grant_order_booked)
next
  case (OpenAccount u)
  then show ?case
    unfolding billing_step.simps get_or_create_billing_account_def
    by (auto intro: booked_refl booked_transaction [OF prod.collapse [symmetric]] booked_account)
next
  case (PatchCode i p)
  then show ?case
    unfolding billing_step.simps patch_redemption_code_def
    by (auto intro: booked_refl booked_transaction [OF prod.collapse [symmetric]] booked_frame dest: code_steps_frame(2))
next
  case (CreateCode item)
  then show ?case using code_steps_frame(1) [OF prod.collapse [symmetric]] by (auto intro: booked_frame)
next
  case (DeleteCode i)
  then show ?case using code_steps_frame(3) [OF prod.collapse [symmetric]] by (auto intro: booked_frame)
next
  case (CreateOrder item)
  then show ?case using order_steps_frame(1) [OF prod.collapse [symmetric]] by (auto intro: booked_frame)
next
  case (UpdateCheckout n i url)
  then show ?case using order_steps_frame(2) [OF prod.collapse [symmetric]] by (auto intro: booked_frame)
next
  case (SetBalance u b ref)
  then show ?case using set_balance_booked [OF prod.collapse [symmetric]] by simp
qed (simp_all add: reserve_booked [OF prod.collapse [symmetric]] raise_booked [OF prod.collapse [symmetric]]
    reservation_steps_booked(1) [OF _ prod.collapse [symmetric]] reservation_steps_booked(2) [OF _ prod.collapse [symmetric]]
    reservation_steps_booked(3) [OF _ prod.collapse [symmetric]] add_usage_booked [OF prod.collapse [symmetric]]
    settle_balance_booked [OF prod.collapse [symmetric]] settle_period_booked [OF prod.collapse [symmetric]])

definition books_ok :: "billing_db \<Rightarrow> bool" where
  "books_ok db \<longleftrightarrow> accounts_ok db \<and> (\<forall>u. balance db u = wrap64 (posted db u))"

lemma books_step: "books_ok db \<Longrightarrow> books_ok (billing_step op db)"
  using step_booked [of db op] unfolding books_ok_def booked_step_def moves_def
  by (auto simp: wrap64_wrap64)

lemma books_empty: "books_ok empty_db"
  by (simp add: books_ok_def accounts_ok_def keyed_def empty_db_def balance_def posted_def empty_table_def first_row_def
      sum_rows_def wrap64_def)

text \<open>
  C2. The books balance. After every history of reservations, settlements, payments, redemptions, grants
  and administrative changes, by any users in any order, successful or refused, the balance of every
  user is the sum of the transactions posted for the user, in the arithmetic of int64; no operation
  changes a balance without posting the change, none posts without changing, and no user has two
  accounts.
\<close>

theorem books_balance:
  "distinct (map ba_user_id (table_rows (db_accounts (billing_run ops empty_db)))) \<and>
   balance (billing_run ops empty_db) u = wrap64 (posted (billing_run ops empty_db) u)"
  using billing_run_invariant [of books_ok, OF books_empty books_step]
  by (simp add: books_ok_def accounts_ok_def)

end
