(* ===== verification/Billing_Safety.thy ===== *)
theory Billing_Safety
  imports Billing_History
begin

text \<open>
  What the histories of the billing operations keep: an order is credited at most once, a code is not
  redeemed more often than it allows, a settlement is charged once.
\<close>

section \<open>What an operation leaves alone\<close>

definition topups :: "billing_db \<Rightarrow> balance_transaction list" where
  "topups db = filter (\<lambda>t. bt_type t = ''topup'') (table_rows (db_transactions db))"

text \<open>Neither orders nor codes, redemptions or credited orders: reservations, settlements, accounts.\<close>

definition usage_only :: "billing_db \<Rightarrow> billing_db \<Rightarrow> bool" where
  "usage_only db db' \<longleftrightarrow> db_orders db' = db_orders db \<and> db_codes db' = db_codes db \<and>
     db_redemptions db' = db_redemptions db \<and> topups db' = topups db"

lemma usage_only_refl [simp]: "usage_only db db"
  by (simp add: usage_only_def)

lemma usage_only_trans: "usage_only db db1 \<Longrightarrow> usage_only db1 db2 \<Longrightarrow> usage_only db db2"
  by (simp add: usage_only_def)

lemma usage_only_updates [simp]:
  "usage_only db (db\<lparr>db_accounts := a\<rparr>)" "usage_only db (db\<lparr>db_reservations := r\<rparr>)"
  "usage_only db (db\<lparr>db_ledgers := l\<rparr>)" "usage_only db (db\<lparr>db_subscriptions := s\<rparr>)"
  by (simp_all add: usage_only_def topups_def)

lemma usage_only_account: "get_or_create_account_for_update u db = (res, db') \<Longrightarrow> usage_only db db'"
  by (auto simp: get_or_create_account_for_update_def split: if_splits option.splits prod.splits)

lemma usage_only_add: "add_to_balance a delta db = (res, db') \<Longrightarrow> usage_only db db'"
  by (auto simp: add_to_balance_def split: if_splits option.splits)

lemma usage_only_tx:
  "add_transaction i u typ amt b rt ri rn db = (k, db') \<Longrightarrow> typ \<noteq> ''topup'' \<Longrightarrow> usage_only db db'"
  by (auto simp: add_transaction_def usage_only_def topups_def create_row_def)

lemma usage_only_ledger: "create_usage_ledger usage db = (res, db') \<Longrightarrow> usage_only db db'"
  by (auto dest!: create_ledger_frame)

lemma usage_only_settle [simp]: "usage_only db (settle_usage_reservation row l at db)"
  by (auto simp: settle_usage_reservation_def update_reservation_def split: option.splits)

lemma usage_only_settled: "usage_only db db' \<Longrightarrow> usage_only db (settle_usage_reservation row l at db')"
  by (rule usage_only_trans [OF _ usage_only_settle])

lemma usage_only_charge:
  assumes "charge_usage usage amt account row ref at db = (res, db')"
  shows "usage_only db db'"
proof -
  let ?next = "wrap64 (ba_balance_nanousd account - amt)"
  obtain r1 db1 where one: "create_usage_ledger (usage\<lparr>ul_balance_after_nanousd := Some ?next\<rparr>) db = (r1, db1)" by fastforce
  obtain r2 db2 where two: "add_to_balance account (- amt) db1 = (r2, db2)" by fastforce
  have "add_transaction (ba_id account) (ul_user_id usage) ''usage_debit'' (- amt) ?next ''usage_ledger'' l ref db2 = (k, db3)
      \<Longrightarrow> usage_only db db3" for l k db3
    using usage_only_ledger [OF one] usage_only_add [OF two] usage_only_tx by (blast intro: usage_only_trans)
  then show ?thesis
    using assms one two usage_only_ledger [OF one] usage_only_add [OF two]
    by (auto simp: charge_usage_def Let_def intro: usage_only_settled usage_only_trans split: sum.splits if_splits prod.splits)
qed

lemma usage_only_begin:
  assumes "begin_settlement accepts usage reservation db = (res, db')"
  shows "usage_only db db'"
proof -
  obtain r db1 where acc: "get_or_create_account_for_update (ul_user_id usage) db = (r, db1)" by fastforce
  have "db' = db1" using assms acc
    by (auto simp: begin_settlement_def restore_settled_usage_ledger_def
        split: sum.splits option.splits prod.splits if_splits)
  then show ?thesis using usage_only_account [OF acc] by simp
qed

lemma usage_only_transaction:
  assumes "transaction body db = (res, db')" "\<And>r db1. body db = (r, db1) \<Longrightarrow> usage_only db db1"
  shows "usage_only db db'"
  using assms(1) by (cases rule: transaction_cases) (auto intro: assms(2))

lemma usage_only_settlements:
  "settle_balance_body usage reservation at db = (res, db') \<Longrightarrow> usage_only db db'"
  "settle_period_body usage ps pe credit reservation now at db = (res2, db') \<Longrightarrow> usage_only db db'"
proof -
  show "usage_only db db'" if "settle_balance_body usage reservation at db = (res, db')"
  proof -
    obtain r db1 where pre: "begin_settlement (\<lambda>row. ur_mode row = ''usage'') usage reservation db = (r, db1)" by fastforce
    show ?thesis using that pre usage_only_begin [OF pre]
      by (auto simp: settle_balance_body_def intro: usage_only_trans dest: usage_only_charge split: sum.splits prod.splits)
  qed
  show "usage_only db db'" if "settle_period_body usage ps pe credit reservation now at db = (res2, db')"
  proof -
    obtain r db1 where pre:
      "begin_settlement (\<lambda>row. matches_period_reservation row ps pe credit) usage reservation db = (r, db1)" by fastforce
    show ?thesis using that pre usage_only_begin [OF pre]
      by (auto simp: settle_period_body_def intro: usage_only_trans dest: usage_only_charge split: sum.splits prod.splits)
  qed
qed

lemma usage_only_bodies:
  "reserve_body inp now db = (res1, db') \<Longrightarrow> usage_only db db'"
  "raise_body u r required now db = (res2, db') \<Longrightarrow> usage_only db db'"
  "release_body u r now db = (res3, db') \<Longrightarrow> usage_only db db'"
  "add_usage_body usage db = (res4, db') \<Longrightarrow> usage_only db db'"
  "set_balance_body u b r db = (res5, db') \<Longrightarrow> usage_only db db'"
proof -
  show "usage_only db db'" if "reserve_body inp now db = (res1, db')"
  proof -
    obtain r db1 where acc: "get_or_create_account_for_update (rr_user_id inp) db = (r, db1)" by fastforce
    show ?thesis using that acc usage_only_account [OF acc]
      by (auto simp: reserve_body_def create_reservation_def Let_def intro: usage_only_trans
          split: sum.splits prod.splits if_splits)
  qed
  show "usage_only db db'" if "raise_body u r required now db = (res2, db')"
  proof -
    obtain x db1 where acc: "get_or_create_account_for_update u db = (x, db1)" by fastforce
    show ?thesis using that acc usage_only_account [OF acc]
      by (auto simp: raise_body_def update_reservation_def Let_def intro: usage_only_trans
          split: sum.splits prod.splits if_splits option.splits)
  qed
  show "release_body u r now db = (res3, db') \<Longrightarrow> usage_only db db'"
    by (auto simp: release_body_def update_reservation_def split: option.splits if_splits)
  show "add_usage_body usage db = (res4, db') \<Longrightarrow> usage_only db db'"
    by (auto simp: add_usage_body_def dest: usage_only_ledger split: option.splits prod.splits sum.splits)
  show "usage_only db db'" if "set_balance_body u b r db = (res5, db')"
  proof -
    obtain x db1 where acc: "get_or_create_account_for_update u db = (x, db1)" by fastforce
    have written: "usage_only db (write_balance a b db1)" for a
      by (rule usage_only_trans [OF usage_only_account [OF acc]]) (simp add: write_balance_def)
    have "usage_only db (snd (add_transaction (ba_id a) u ''admin_set'' amt b ''admin'' 0 rn (write_balance a b db1)))" for a amt rn
      by (rule usage_only_trans [OF written usage_only_tx [OF prod.collapse [symmetric]]]) simp
    then show ?thesis using that acc usage_only_account [OF acc] written
      by (auto simp: set_balance_body_def Let_def intro: usage_only_trans split: sum.splits prod.splits if_splits option.splits)
  qed
qed

fun usage_op :: "billing_op \<Rightarrow> bool" where
  "usage_op (CreateOrder _) = False"
| "usage_op (UpdateCheckout _ _ _) = False"
| "usage_op (OrderPaidGrant _ _ _ _ _) = False"
| "usage_op (OrderPaidCredit _ _ _ _) = False"
| "usage_op (CreateCode _) = False"
| "usage_op (PatchCode _ _) = False"
| "usage_op (DeleteCode _) = False"
| "usage_op (RedeemCode _ _) = False"
| "usage_op _ = True"

lemma usage_op_only: "usage_op op \<Longrightarrow> usage_only db (billing_step op db)"
  by (cases op)
    (auto simp: reserve_usage_balance_def raise_usage_balance_reservation_def release_usage_balance_reservation_def
      renew_usage_balance_reservation_def mark_usage_reservation_reconciliation_required_def update_where_def
      add_usage_def add_usage_and_settle_balance_def add_period_usage_and_settle_overage_def
      get_or_create_billing_account_def set_billing_account_balance_def Let_def
      intro!: usage_only_transaction [OF prod.collapse [symmetric]]
      intro: usage_only_bodies usage_only_settlements usage_only_account)

text \<open>Code operations leave the orders and their credits alone, order operations the codes.\<close>

definition codes_only :: "billing_db \<Rightarrow> billing_db \<Rightarrow> bool" where
  "codes_only db db' \<longleftrightarrow> db_orders db' = db_orders db \<and> topups db' = topups db"

lemma codes_onlyI: "usage_only db db' \<Longrightarrow> codes_only db db'"
  by (simp add: codes_only_def usage_only_def)

lemma usage_only_subscriptions: "only_subscriptions db db' \<Longrightarrow> usage_only db db'"
  by (auto simp: only_subscriptions_def)

lemma reward_usage_only:
  assumes "apply_reward inp code now clock db = (res, db')"
  shows "usage_only db db'"
proof -
  have balance: "usage_only db db1" if bal: "apply_redemption_balance u code ref db = (x, db1)" for u ref x db1
  proof -
    obtain r db0 where acc: "get_or_create_account_for_update u db = (r, db0)" by fastforce
    have add: "usage_only db db2" if "add_to_balance a delta db0 = (y, db2)" for a delta y db2
      using usage_only_trans [OF usage_only_account [OF acc] usage_only_add [OF that]] .
    have tx: "usage_only db db3"
      if "add_to_balance a delta db0 = (y, db2)" "add_transaction i u ''redemption'' amt b rt ri rn db2 = (k, db3)"
      for a delta y db2 i amt b rt ri rn k db3
      by (rule usage_only_trans [OF add [OF that(1)] usage_only_tx [OF that(2)]]) simp
    show ?thesis using bal acc usage_only_account [OF acc] add tx
      by (auto simp: apply_redemption_balance_def Let_def split: sum.splits prod.splits option.splits)
  qed
  have "usage_only db db1" if "apply_redemption_subscription u code now clock db = (x, db1)" for u x db1
    using that by (auto simp: apply_redemption_subscription_def dest: grant_only usage_only_subscriptions
        split: option.splits sum.splits if_splits)
  then show ?thesis using assms balance by (auto simp: apply_reward_def split: if_splits prod.splits sum.splits)
qed

lemma redeem_codes_only:
  assumes "redeem_body inp now clock db = (res, db')"
  shows "codes_only db db'"
proof -
  have "codes_only db db1" if "apply_reward inp code now clock db = (r, db1)" for code r db1
    using reward_usage_only [OF that] by (rule codes_onlyI)
  then show ?thesis using assms
    by (fastforce simp: redeem_body_def codes_only_def topups_def create_row_def Let_def
        split: option.splits prod.splits sum.splits)
qed

fun code_op :: "billing_op \<Rightarrow> bool" where
  "code_op (CreateCode _) = True"
| "code_op (PatchCode _ _) = True"
| "code_op (DeleteCode _) = True"
| "code_op (RedeemCode _ _) = True"
| "code_op _ = False"

lemma code_op_only: "code_op op \<Longrightarrow> codes_only db (billing_step op db)"
proof (cases op)
  case (RedeemCode inp clock)
  have "codes_only db (snd (transaction (redeem_body inp now clock) db))" for now
    by (auto simp: transaction_def codes_only_def dest!: redeem_codes_only split: prod.splits sum.splits)
  then show ?thesis by (simp add: RedeemCode redeem_code_def codes_only_def)
qed (auto simp: create_redemption_code_def patch_redemption_code_def patch_code_body_def delete_redemption_code_def
    transaction_def codes_only_def topups_def Let_def split: prod.splits sum.splits option.splits)

definition orders_only :: "billing_db \<Rightarrow> billing_db \<Rightarrow> bool" where
  "orders_only db db' \<longleftrightarrow> db_codes db' = db_codes db \<and> db_redemptions db' = db_redemptions db"

section \<open>Orders\<close>

definition credited :: "billing_db \<Rightarrow> nat \<Rightarrow> balance_transaction list" where
  "credited db i = filter (\<lambda>t. bt_ref_id t = i) (topups db)"

definition credit_of :: "billing_db \<Rightarrow> nat \<Rightarrow> balance_transaction \<Rightarrow> bool" where
  "credit_of db i t \<longleftrightarrow> (\<exists>x \<in> set (table_rows (db_orders db)). po_id x = i \<and> po_status x = ''paid'' \<and>
     bt_amount_nanousd t = po_credit_nanousd x \<and> bt_user_id t = po_user_id x)"

definition orders_ok :: "billing_db \<Rightarrow> bool" where
  "orders_ok db \<longleftrightarrow> keyed po_id (db_orders db) \<and>
     (\<forall>i. credited db i = [] \<or> (\<exists>t. credited db i = [t] \<and> credit_of db i t))"

lemma orders_ok_frame:
  assumes "orders_ok db" "db_orders db' = db_orders db" "topups db' = topups db"
  shows "orders_ok db'"
  using assms by (simp add: orders_ok_def credited_def credit_of_def)

lemma unpaid_uncredited:
  assumes "orders_ok db" "x \<in> set (table_rows (db_orders db))" "po_status x \<noteq> ''paid''"
  shows "credited db (po_id x) = []"
proof -
  have "y = x" if "y \<in> set (table_rows (db_orders db))" "po_id y = po_id x" for y
    using that assms(1,2) by (auto simp: orders_ok_def keyed_def distinct_map inj_on_def)
  then show ?thesis using assms(1,3) by (auto simp: orders_ok_def credit_of_def)
qed

text \<open>A change of orders that keeps what a credit refers to.\<close>

lemma orders_ok_update:
  assumes "orders_ok db" "\<And>x. po_id (f x) = po_id x" "\<And>x. po_credit_nanousd (f x) = po_credit_nanousd x"
    and "\<And>x. po_user_id (f x) = po_user_id x" "\<And>x. po_status x = ''paid'' \<Longrightarrow> po_status (f x) = ''paid''"
  shows "orders_ok (update_orders P f db)"
proof -
  have "credit_of (update_orders P f db) i t" if c: "credit_of db i t" for i t
  proof -
    from c obtain x where x: "x \<in> set (table_rows (db_orders db))" "po_id x = i" "po_status x = ''paid''"
      "bt_amount_nanousd t = po_credit_nanousd x" "bt_user_id t = po_user_id x" by (auto simp: credit_of_def)
    have "(if P x then f x else x) \<in> set (table_rows (db_orders (update_orders P f db)))"
      using x(1) by (auto simp: update_orders_def update_rows_def)
    then show ?thesis using x assms(2-5) unfolding credit_of_def by (intro bexI) auto
  qed
  moreover have "credited (update_orders P f db) i = credited db i" for i
    by (simp add: credited_def topups_def update_orders_def)
  ultimately show ?thesis
    using assms(1) keyed_update [of po_id "db_orders db" f P] assms(2)
    by (auto simp: orders_ok_def update_orders_def)
qed

lemma finish_order_ok:
  assumes "finish_order x ext paid db = (res, db')" "orders_ok db"
  shows "orders_ok db'"
proof -
  have "db' = update_orders (\<lambda>y. po_id y = po_id x) (\<lambda>y. y\<lparr>po_status := ''paid'',
      po_external_payment_id := trim_space ext, po_paid_at := Some paid\<rparr>) db"
    using assms(1) by (auto simp: finish_order_def Let_def split: option.splits)
  then show ?thesis using orders_ok_update [OF assms(2)] by simp
qed

lemma grant_order_ok:
  assumes "grant_order_body n ext paid sub clock db = (Inr a, db')" "orders_ok db"
  shows "orders_ok db'"
proof -
  from assms(1) have "db' = db \<or> (\<exists>inp r db1 x. grant_subscription_on_timeline inp clock db = (Inr r, db1) \<and>
      finish_order x ext paid db1 = (Inr a, db'))"
    by (auto simp: grant_order_body_def refuse_expired_order_def Let_def split: option.splits if_splits prod.splits sum.splits)
  then show ?thesis
  proof (elim disjE exE conjE)
    fix inp r db1 x
    assume "grant_subscription_on_timeline inp clock db = (Inr r, db1)" and fin: "finish_order x ext paid db1 = (Inr a, db')"
    from usage_only_subscriptions [OF grant_only [OF this(1)]] have "orders_ok db1"
      using orders_ok_frame [OF assms(2)] by (simp add: usage_only_def)
    then show ?thesis by (rule finish_order_ok [OF fin])
  qed (simp add: assms(2))
qed

text \<open>The pending order that is paid gets its one credit.\<close>

lemma credit_order_ok:
  assumes "credit_order_body n ext paid db = (Inr a, db')" "orders_ok db"
  shows "orders_ok db'"
proof -
  from assms(1) obtain x where x: "first_row (\<lambda>x. po_order_no x = n) (db_orders db) = Some x"
    by (auto simp: credit_order_body_def split: option.splits)
  then have mem: "x \<in> set (table_rows (db_orders db))" using first_row_in by fast
  show ?thesis
  proof (cases "po_status x = ''paid''")
    case True
    then show ?thesis using assms x by (simp add: credit_order_body_def)
  next
    case False
    note fresh = unpaid_uncredited [OF assms(2) mem False]
    from assms(1) x False have live: "\<not> (po_status x \<noteq> ''pending'' \<or> po_order_type x \<noteq> ''topup'' \<or> po_credit_nanousd x \<le> 0)"
      "\<not> order_expired x paid"
      by (auto simp: credit_order_body_def refuse_expired_order_def split: if_splits)
    then obtain acc db0 where acc: "get_or_create_account_for_update (po_user_id x) db = (Inr acc, db0)"
      using assms(1) x False by (auto simp: credit_order_body_def split: prod.splits sum.splits)
    let ?next = "wrap64 (ba_balance_nanousd acc + po_credit_nanousd x)"
    let ?f = "\<lambda>y. y\<lparr>po_status := ''paid'', po_external_payment_id := trim_space ext, po_paid_at := Some paid\<rparr>"
    define db2 where "db2 = snd (add_transaction (ba_id acc) (po_user_id x) ''topup'' (po_credit_nanousd x)
        ?next ''payment_order'' (po_id x) (po_order_no x) (write_balance acc ?next db0))"
    have "finish_order x ext paid db2 = (Inr a, db')"
      using assms(1) x False live acc by (simp add: credit_order_body_def Let_def db2_def)
    then have db': "db' = update_orders (\<lambda>y. po_id y = po_id x) ?f db2"
      by (auto simp: finish_order_def Let_def split: option.splits)
    from usage_only_account [OF acc] have same: "db_orders db2 = db_orders db"
      and top: "\<exists>t. topups db2 = topups db @ [t] \<and> bt_ref_id t = po_id x \<and> bt_amount_nanousd t = po_credit_nanousd x \<and>
        bt_user_id t = po_user_id x"
      by (auto simp: db2_def add_transaction_def create_row_def topups_def usage_only_def write_balance_def)
    then obtain t where t: "topups db2 = topups db @ [t]" "bt_ref_id t = po_id x"
      "bt_amount_nanousd t = po_credit_nanousd x" "bt_user_id t = po_user_id x" by blast
    have old: "orders_ok (update_orders (\<lambda>y. po_id y = po_id x) ?f db)" using orders_ok_update [OF assms(2)] by simp
    have cr: "credited db' i = (if i = po_id x then [t] else credited db i)" for i
      using t(1,2) fresh by (simp add: db' credited_def topups_def update_orders_def)
    have rows: "db_orders db' = db_orders (update_orders (\<lambda>y. po_id y = po_id x) ?f db)"
      by (simp add: db' update_orders_def same)
    have "?f x \<in> set (table_rows (db_orders db'))" using mem by (force simp: rows update_orders_def update_rows_def)
    then have "credit_of db' (po_id x) t" using t(3,4) unfolding credit_of_def by (intro bexI [of _ "?f x"]) simp_all
    moreover have "credited (update_orders (\<lambda>y. po_id y = po_id x) ?f db) i = credited db i" for i
      by (simp add: credited_def topups_def update_orders_def)
    ultimately show ?thesis using old cr rows by (auto simp: orders_ok_def credit_of_def)
  qed
qed

lemma orders_ok_transaction:
  assumes "orders_ok db" "\<And>a db1. body db = (Inr a, db1) \<Longrightarrow> orders_ok db1"
  shows "orders_ok (snd (transaction body db))"
  using assms by (auto simp: transaction_def split: prod.splits sum.splits)

lemma create_order_ok:
  assumes "create_payment_order item db = (res, db')" "orders_ok db"
  shows "orders_ok db'"
proof (cases "db' = db")
  case False
  with assms(1) have db': "db' = db\<lparr>db_orders := snd (create_row (payment_order_record item) (db_orders db))\<rparr>"
    by (auto simp: create_payment_order_def Let_def split: if_splits prod.splits)
  have "credited db' i = credited db i" for i by (simp add: credited_def topups_def db')
  moreover have "credit_of db i t \<Longrightarrow> credit_of db' i t" for i t by (auto simp: credit_of_def db' create_row_def)
  moreover have "keyed po_id (db_orders db')"
    using assms(2) keyed_create [of po_id "db_orders db" "payment_order_record item"]
    by (simp add: orders_ok_def db' payment_order_record_def)
  ultimately show ?thesis using assms(2) unfolding orders_ok_def by metis
qed (simp add: assms(2))

lemma step_orders_ok: "orders_ok db \<Longrightarrow> orders_ok (billing_step op db)"
proof -
  assume ok: "orders_ok db"
  consider "usage_op op" | "code_op op" | "\<not> usage_op op \<and> \<not> code_op op" by blast
  then show ?thesis
  proof cases
    case 1
    from usage_op_only [OF 1] show ?thesis using orders_ok_frame [OF ok] by (simp add: usage_only_def)
  next
    case 2
    from code_op_only [OF 2] show ?thesis using orders_ok_frame [OF ok] by (simp add: codes_only_def)
  next
    case 3
    then show ?thesis
    proof (cases op)
      case (CreateOrder item)
      then show ?thesis using create_order_ok [OF prod.collapse [symmetric] ok] by simp
    next
      case (UpdateCheckout n i url)
      then show ?thesis using orders_ok_update [OF ok] ok by (simp add: update_payment_order_checkout_def Let_def)
    next
      case (OrderPaidGrant n ext paid sub clock)
      then show ?thesis using ok grant_order_ok [OF _ ok]
        by (simp add: mark_payment_order_paid_and_grant_subscription_def Let_def orders_ok_transaction)
    next
      case (OrderPaidCredit n ext paid clock)
      then show ?thesis using ok credit_order_ok [OF _ ok]
        by (simp add: mark_payment_order_paid_and_credit_balance_def Let_def orders_ok_transaction)
    qed auto
  qed
qed

text \<open>
  C5. A paid order is credited once. In every history of the billing operations, with callbacks of the
  payment provider repeated, delayed or crossed with anything else, at most one credit is ever posted
  for an order, and when there is one the order is paid, the amount is the credit of the order and
  the account is the one of the user who placed it.
\<close>

theorem order_credited_once:
  "credited (billing_run ops empty_db) i = [] \<or>
   (\<exists>t. credited (billing_run ops empty_db) i = [t] \<and> credit_of (billing_run ops empty_db) i t)"
proof -
  have "orders_ok empty_db"
    by (simp add: orders_ok_def keyed_def empty_db_def empty_table_def credited_def topups_def)
  from billing_run_invariant [of orders_ok, OF this step_orders_ok] show ?thesis by (simp add: orders_ok_def)
qed

text \<open>
  A payment that arrives after its order has expired is refused, and the order stays as it was: the
  status the code sets to expired is written in the transaction that is then rolled back, so the order
  is still pending afterwards.
\<close>
theorem expired_order_stays_pending:
  assumes "first_row (\<lambda>x. po_order_no x = trim_space order_no) (db_orders db) = Some order" "trim_space order_no \<noteq> []"
    and "po_status order = ''pending''" "order_expired order (if is_zero paid_at then clock else paid_at)"
  shows "mark_payment_order_paid_and_credit_balance order_no external paid_at clock db = (Inl ErrInvalidInput, db) \<and>
    mark_payment_order_paid_and_grant_subscription order_no external paid_at subscription clock db = (Inl ErrInvalidInput, db)"
  using assms
  by (simp add: mark_payment_order_paid_and_credit_balance_def mark_payment_order_paid_and_grant_subscription_def
      credit_order_body_def grant_order_body_def refuse_expired_order_def transaction_def Let_def)

definition sample_order :: "string \<Rightarrow> int \<Rightarrow> time \<Rightarrow> payment_order" where
  "sample_order order_no credit expires =
     \<lparr>po_id = 0, po_order_no = order_no, po_order_type = ''topup'', po_user_id = 7, po_plan_id = 0, po_price_id = 0,
      po_provider = ''epay'', po_status = ''pending'', po_base_amount_cents = 100, po_pay_amount_cents = 100,
      po_fx_rate = [], po_credit_nanousd = credit, po_billing_interval = ''month'', po_cycles = 1,
      po_external_payment_id = [], po_external_checkout_id = [], po_checkout_url = [], po_snapshot_json = [],
      po_paid_at = None, po_expired_at = Some expires\<rparr>"

theorem expired_order_stays_pending_witness:
  "let db = billing_run [CreateOrder (sample_order ''n1'' 500 100)] empty_db
   in mark_payment_order_paid_and_credit_balance ''n1'' ''tx'' 101 200 db = (Inl ErrInvalidInput, db) \<and>
      map po_status (table_rows (db_orders db)) = [''pending'']"
proof -
  let ?db = "billing_run [CreateOrder (sample_order ''n1'' 500 100)] empty_db"
  have "map po_status (table_rows (db_orders ?db)) = [''pending'']" by code_simp
  moreover have "first_row (\<lambda>x. po_order_no x = trim_space ''n1'') (db_orders ?db) =
      Some ((sample_order ''n1'' 500 100)\<lparr>po_id := 1\<rparr>)" by code_simp
  moreover have "trim_space ''n1'' \<noteq> []" "po_status ((sample_order ''n1'' 500 100)\<lparr>po_id := 1\<rparr>) = ''pending''"
    "order_expired ((sample_order ''n1'' 500 100)\<lparr>po_id := 1\<rparr>) (if is_zero 101 then 200 else 101)" by code_simp+
  ultimately show ?thesis
    using expired_order_stays_pending [of "''n1''" ?db _ 101 200 "''tx''"] by (simp add: Let_def)
qed

section \<open>Codes\<close>

definition redemptions_of :: "billing_db \<Rightarrow> nat \<Rightarrow> int" where
  "redemptions_of db i = count_rows (\<lambda>r. rd_code_id r = i) (db_redemptions db)"

definition code_ok :: "billing_db \<Rightarrow> redemption_code \<Rightarrow> bool" where
  "code_ok db c \<longleftrightarrow> rc_redeemed_count c = redemptions_of db (rc_id c) \<and>
     (case rc_max_redemptions c of None \<Rightarrow> True | Some m \<Rightarrow> rc_redeemed_count c \<le> max 0 m)"

definition codes_ok :: "billing_db \<Rightarrow> bool" where
  "codes_ok db \<longleftrightarrow> keyed rc_id (db_codes db) \<and> (\<forall>c \<in> set (table_rows (db_codes db)). code_ok db c) \<and>
     (\<forall>r \<in> set (table_rows (db_redemptions db)). rd_code_id r \<in> rc_id ` set (table_rows (db_codes db)))"

lemma codes_ok_frame:
  "codes_ok db \<Longrightarrow> db_codes db' = db_codes db \<Longrightarrow> db_redemptions db' = db_redemptions db \<Longrightarrow> codes_ok db'"
  by (simp add: codes_ok_def code_ok_def redemptions_of_def)

lemma codes_ok_update:
  assumes "codes_ok db" "\<And>c. rc_id (f c) = rc_id c"
    and "\<And>c. c \<in> set (table_rows (db_codes db)) \<Longrightarrow> P c \<Longrightarrow> code_ok db c \<Longrightarrow> code_ok db (f c)"
  shows "codes_ok (db\<lparr>db_codes := update_rows P f (db_codes db)\<rparr>)"
proof -
  note ids = update_rows_keys(2) [of rc_id f P "db_codes db", OF assms(2)]
  have "keyed rc_id (update_rows P f (db_codes db))"
    using assms(1) keyed_update [of rc_id "db_codes db" f P, OF _ assms(2)] by (simp add: codes_ok_def)
  then show ?thesis
    using assms(1,3) ids by (auto simp: codes_ok_def update_rows_def code_ok_def redemptions_of_def)
qed

lemma create_code_ok:
  assumes "create_redemption_code item db = (res, db')" "codes_ok db"
  shows "codes_ok db'"
proof (cases "db' = db")
  case False
  let ?i = "table_next (db_codes db)"
  from False assms(1) have db': "db' = db\<lparr>db_codes := snd (create_row (redemption_code_record item) (db_codes db))\<rparr>"
    by (auto simp: create_redemption_code_def Let_def split: if_splits prod.splits)
  have "?i \<notin> rc_id ` set (table_rows (db_codes db))" using assms(2) by (auto simp: codes_ok_def keyed_def)
  then have "redemptions_of db ?i = 0"
    using assms(2) by (auto simp: codes_ok_def redemptions_of_def count_rows_def filter_empty_conv) metis
  then have "code_ok db' (redemption_code_record item ?i)"
    by (auto simp: code_ok_def redemptions_of_def redemption_code_record_def db' split: option.split)
  moreover have "keyed rc_id (db_codes db')"
    using assms(2) keyed_create [of rc_id "db_codes db" "redemption_code_record item"]
    by (simp add: codes_ok_def db' redemption_code_record_def)
  ultimately show ?thesis
    using assms(2) by (auto simp: codes_ok_def db' create_row_def code_ok_def redemptions_of_def)
qed (simp add: assms(2))

lemma patch_code_ok:
  assumes "patch_code_body i p db = (Inr a, db')" "codes_ok db"
  shows "codes_ok db'"
proof -
  from assms(1) obtain c where c: "first_row (\<lambda>c. rc_id c = i \<and> rc_status c \<noteq> ''deleted'') (db_codes db) = Some c"
    "\<not> patch_refused p c" "db' = db\<lparr>db_codes := update_rows (\<lambda>x. rc_id x = rc_id c) (patched_code p) (db_codes db)\<rparr>"
    by (auto simp: patch_code_body_def Let_def split: option.splits if_splits)
  have "c \<in> set (table_rows (db_codes db))" using first_row_in [OF c(1)] by simp
  then have only: "x = c" if "x \<in> set (table_rows (db_codes db))" "rc_id x = rc_id c" for x
    using that assms(2) by (auto simp: codes_ok_def keyed_def distinct_map inj_on_def)
  have "code_ok db (patched_code p c)" if "code_ok db c"
    using that c(2) by (auto simp: code_ok_def patched_code_def patch_refused_def given_def max_def split: option.splits)
  then show ?thesis unfolding c(3) using only by (intro codes_ok_update [OF assms(2)]) (auto simp: patched_code_def)
qed

lemma redeem_code_ok:
  assumes "redeem_body inp now clock db = (Inr r, db')" "codes_ok db"
  shows "codes_ok db'"
proof -
  from assms(1) obtain c where c: "first_row (\<lambda>c. rc_code_hash c = trim_space (ri_code_hash inp)) (db_codes db) = Some c"
    "validate_redeemable_code db c (ri_user_id inp) (trim_space (ri_current_mode inp)) now = None"
    by (auto simp: redeem_body_def split: option.splits)
  obtain x db1 where reward: "apply_reward inp c now clock db = (Inr x, db1)"
    using assms(1) c by (auto simp: redeem_body_def split: prod.splits sum.splits)
  let ?f = "\<lambda>c. c\<lparr>rc_redeemed_count := rc_redeemed_count c + 1\<rparr>"
  obtain acc tx sub where x: "x = (acc, tx, sub)" by (cases x) auto
  then have db': "db' = db1\<lparr>db_redemptions := snd (create_row (redemption_record inp c tx sub) (db_redemptions db1)),
        db_codes := update_rows (\<lambda>x. rc_id x = rc_id c) ?f (db_codes db1)\<rparr>"
    using assms(1) c reward by (auto simp: redeem_body_def Let_def case_prod_unfold)
  have mk: "rd_code_id (redemption_record inp c tx sub i) = rc_id c" for i by (simp add: redemption_record_def)
  have same: "db_codes db1 = db_codes db" "db_redemptions db1 = db_redemptions db"
    using reward_usage_only [OF reward] by (simp_all add: usage_only_def)
  have mem: "c \<in> set (table_rows (db_codes db))" using first_row_in [OF c(1)] by simp
  then have only: "y = c" if "y \<in> set (table_rows (db_codes db))" "rc_id y = rc_id c" for y
    using that assms(2) by (auto simp: codes_ok_def keyed_def distinct_map inj_on_def)
  have room: "case rc_max_redemptions c of None \<Rightarrow> True | Some m \<Rightarrow> rc_redeemed_count c < m"
    using c(2) by (auto simp: validate_redeemable_code_def split: if_splits option.splits)
  have count: "redemptions_of db' i = redemptions_of db i + (if i = rc_id c then 1 else 0)" for i
    using mk by (auto simp: redemptions_of_def db' sum_rows_simps same)
  have "code_ok db' (if rc_id y = rc_id c then ?f y else y)" if "y \<in> set (table_rows (db_codes db))" for y
    using that only [of y] assms(2) room count [of "rc_id y"]
    by (auto simp: codes_ok_def code_ok_def split: option.splits)
  moreover have "table_rows (db_codes db') = map (\<lambda>y. if rc_id y = rc_id c then ?f y else y) (table_rows (db_codes db))"
    by (simp add: db' same update_rows_def)
  ultimately have codes: "\<forall>y \<in> set (table_rows (db_codes db')). code_ok db' y"
    by (simp only: list.set_map ball_simps) blast
  have keys: "keyed rc_id (db_codes db')"
    using assms(2) keyed_update [of rc_id "db_codes db" ?f] by (simp add: codes_ok_def db' same)
  have ids: "rc_id ` set (table_rows (db_codes db')) = rc_id ` set (table_rows (db_codes db))"
    using update_rows_keys(2) [of rc_id ?f] by (simp add: db' same)
  have "table_rows (db_redemptions db') = table_rows (db_redemptions db) @
      [redemption_record inp c tx sub (table_next (db_redemptions db))]"
    by (simp add: db' same create_row_def)
  moreover have "rc_id c \<in> rc_id ` set (table_rows (db_codes db))" using mem by (rule imageI)
  ultimately have "\<forall>r \<in> set (table_rows (db_redemptions db')). rd_code_id r \<in> rc_id ` set (table_rows (db_codes db'))"
    using assms(2) unfolding ids by (simp add: codes_ok_def mk)
  then show ?thesis using keys codes by (simp add: codes_ok_def)
qed

lemma codes_ok_transaction:
  assumes "codes_ok db" "\<And>a db1. body db = (Inr a, db1) \<Longrightarrow> codes_ok db1"
  shows "codes_ok (snd (transaction body db))"
  using assms by (auto simp: transaction_def split: prod.splits sum.splits)

lemma only_subscriptions_codes:
  "only_subscriptions db db' \<Longrightarrow> db_codes db' = db_codes db \<and> db_redemptions db' = db_redemptions db"
  by (auto simp: only_subscriptions_def)

text \<open>The operations on orders touch neither codes nor redemptions.\<close>

lemma order_op_frame:
  assumes "\<not> usage_op op" "\<not> code_op op"
  shows "db_codes (billing_step op db) = db_codes db \<and> db_redemptions (billing_step op db) = db_redemptions db"
  using assms
proof (cases op)
  case (OrderPaidGrant n ext paid sub clock)
  have "db_codes db' = db_codes db \<and> db_redemptions db' = db_redemptions db"
    if "grant_order_body m ext pd sub clock db = (res, db')" for m pd res db'
    using that by (auto simp: grant_order_body_def refuse_expired_order_def finish_order_def update_orders_def Let_def
        dest!: grant_only only_subscriptions_codes split: option.splits if_splits prod.splits sum.splits)
  then show ?thesis
    by (auto simp: OrderPaidGrant mark_payment_order_paid_and_grant_subscription_def transaction_def Let_def
        split: prod.splits sum.splits)
next
  case (OrderPaidCredit n ext paid clock)
  have "db_codes db' = db_codes db \<and> db_redemptions db' = db_redemptions db"
    if "credit_order_body m ext pd db = (res, db')" for m pd res db'
    using that by (auto simp: credit_order_body_def refuse_expired_order_def finish_order_def update_orders_def Let_def
        write_balance_def add_transaction_def create_row_def usage_only_def dest!: usage_only_account
        split: option.splits if_splits prod.splits sum.splits)
  then show ?thesis
    by (auto simp: OrderPaidCredit mark_payment_order_paid_and_credit_balance_def transaction_def Let_def
        split: prod.splits sum.splits)
qed (auto simp: create_payment_order_def update_payment_order_checkout_def update_orders_def Let_def split: prod.splits)

lemma step_codes_ok: "codes_ok db \<Longrightarrow> codes_ok (billing_step op db)"
proof -
  assume ok: "codes_ok db"
  consider "usage_op op" | "\<not> usage_op op \<and> \<not> code_op op" | "code_op op" by blast
  then show ?thesis
  proof cases
    case 1
    from usage_op_only [OF 1] show ?thesis using codes_ok_frame [OF ok] by (simp add: usage_only_def)
  next
    case 2
    then show ?thesis using order_op_frame codes_ok_frame [OF ok] by blast
  next
    case 3
    then show ?thesis
    proof (cases op)
      case (CreateCode item)
      then show ?thesis using create_code_ok [OF prod.collapse [symmetric] ok] by simp
    next
      case (PatchCode i p)
      then show ?thesis using ok patch_code_ok [OF _ ok] by (simp add: patch_redemption_code_def codes_ok_transaction)
    next
      case (DeleteCode i)
      have "codes_ok (db\<lparr>db_codes := update_rows P (\<lambda>c. c\<lparr>rc_status := ''deleted''\<rparr>) (db_codes db)\<rparr>)" for P
        by (rule codes_ok_update [OF ok]) (auto simp: code_ok_def split: option.splits)
      then show ?thesis using ok DeleteCode by (simp add: delete_redemption_code_def)
    next
      case (RedeemCode inp clock)
      then show ?thesis using ok redeem_code_ok [OF _ ok] by (simp add: redeem_code_def codes_ok_transaction)
    qed auto
  qed
qed

text \<open>
  C6. No code is redeemed too often. In every history, with any number of users redeeming a code at the
  same time and its limits patched in between, the redemptions on record for a code are exactly the
  count it keeps, and they never exceed the maximum in force.
\<close>

theorem code_never_over_redeemed:
  "list_all (code_ok (billing_run ops empty_db)) (table_rows (db_codes (billing_run ops empty_db)))"
proof -
  have "codes_ok empty_db" by (simp add: codes_ok_def keyed_def empty_db_def empty_table_def)
  from billing_run_invariant [of codes_ok, OF this step_codes_ok] show ?thesis by (simp add: codes_ok_def list_all_iff)
qed

end
