(* ===== verification/Settlement_Props.thy ===== *)
theory Settlement_Props
  imports Billing_Safety
begin

text \<open>
  A settlement is charged once, whatever happens before its retry: settled reservations never change and
  ledgers are only added.
\<close>

section \<open>Settled reservations stay\<close>

definition usage_ok :: "billing_db \<Rightarrow> bool" where
  "usage_ok db \<longleftrightarrow> keyed ur_id (db_reservations db) \<and>
     distinct (map (\<lambda>r. (ur_user_id r, ur_ref_no r)) (table_rows (db_reservations db))) \<and>
     keyed ul_id (db_ledgers db) \<and> 0 < table_next (db_reservations db) \<and> 0 < table_next (db_ledgers db)"

definition settled_rows :: "billing_db \<Rightarrow> usage_reservation set" where
  "settled_rows db = {r \<in> set (table_rows (db_reservations db)). ur_status r = ReservationSettled}"

definition grows :: "billing_db \<Rightarrow> billing_db \<Rightarrow> bool" where
  "grows db db' \<longleftrightarrow> usage_ok db' \<and> settled_rows db \<subseteq> settled_rows db' \<and>
     set (table_rows (db_ledgers db)) \<subseteq> set (table_rows (db_ledgers db'))"

lemma grows_refl: "usage_ok db \<Longrightarrow> grows db db"
  by (simp add: grows_def)

lemma grows_trans: "grows db db1 \<Longrightarrow> grows db1 db2 \<Longrightarrow> grows db db2"
  unfolding grows_def by blast

lemma grows_ok: "grows db db' \<Longrightarrow> usage_ok db'"
  by (simp add: grows_def)

lemma grows_frame:
  "usage_ok db \<Longrightarrow> db_reservations db' = db_reservations db \<Longrightarrow> db_ledgers db' = db_ledgers db \<Longrightarrow> grows db db'"
  by (simp add: grows_def usage_ok_def settled_rows_def)

lemma grows_update:
  assumes "usage_ok db" "\<And>r. ur_id (f r) = ur_id r" "\<And>r. ur_user_id (f r) = ur_user_id r"
    "\<And>r. ur_ref_no (f r) = ur_ref_no r"
    and "\<And>r. r \<in> set (table_rows (db_reservations db)) \<Longrightarrow> P r \<Longrightarrow> ur_status r \<noteq> ReservationSettled"
  shows "grows db (db\<lparr>db_reservations := update_rows P f (db_reservations db)\<rparr>)"
proof -
  have "map (\<lambda>r. (ur_user_id r, ur_ref_no r)) (table_rows (update_rows P f (db_reservations db))) =
      map (\<lambda>r. (ur_user_id r, ur_ref_no r)) (table_rows (db_reservations db))"
    by (rule update_rows_keys(1)) (simp add: assms(3,4))
  moreover have "keyed ur_id (update_rows P f (db_reservations db))"
    using assms(1) by (intro keyed_update) (simp_all add: usage_ok_def assms(2))
  moreover have "table_next (update_rows P f (db_reservations db)) = table_next (db_reservations db)"
    by (simp add: update_rows_def)
  ultimately have "usage_ok (db\<lparr>db_reservations := update_rows P f (db_reservations db)\<rparr>)"
    using assms(1) by (simp add: usage_ok_def)
  moreover have "settled_rows db \<subseteq> settled_rows (db\<lparr>db_reservations := update_rows P f (db_reservations db)\<rparr>)"
    using assms(5) by (force simp: settled_rows_def update_rows_def image_iff)
  ultimately show ?thesis by (simp add: grows_def)
qed

lemma grows_update_row:
  assumes "usage_ok db" "r \<in> set (table_rows (db_reservations db))" "ur_status r \<noteq> ReservationSettled"
    and "\<And>r. ur_id (f r) = ur_id r" "\<And>r. ur_user_id (f r) = ur_user_id r" "\<And>r. ur_ref_no (f r) = ur_ref_no r"
  shows "grows db (update_reservation (ur_id r) f db)"
proof -
  have "x = r" if "x \<in> set (table_rows (db_reservations db))" "ur_id x = ur_id r" for x
    using that assms(1,2) by (auto simp: usage_ok_def keyed_def distinct_map inj_on_def)
  then show ?thesis unfolding update_reservation_def using assms by (intro grows_update) auto
qed

lemma find_reservation_in:
  "find_reservation db u ref = Some r \<Longrightarrow> r \<in> set (table_rows (db_reservations db)) \<and> ur_user_id r = u \<and> ur_ref_no r = ref"
  unfolding find_reservation_def by (drule first_row_in) simp

lemma grows_create_reservation:
  assumes "create_reservation inp requested credit now db = (r, db')" "usage_ok db"
    and "find_reservation db (rr_user_id inp) (rr_ref_no inp) = None"
  shows "grows db db'"
proof -
  have rows: "table_rows (db_reservations db') = table_rows (db_reservations db) @ [r]"
    "table_next (db_reservations db') = table_next (db_reservations db) + 1" "ur_id r = table_next (db_reservations db)"
    "ur_user_id r = rr_user_id inp" "ur_ref_no r = rr_ref_no inp" "db_ledgers db' = db_ledgers db"
    using assms(1) by (auto simp: create_reservation_def create_row_def)
  have "(ur_user_id r, ur_ref_no r) \<notin> (\<lambda>r. (ur_user_id r, ur_ref_no r)) ` set (table_rows (db_reservations db))"
    using assms(3) rows(4,5) by (auto simp: find_reservation_def first_row_None)
  then show ?thesis
    using assms(2) rows by (auto simp: grows_def usage_ok_def keyed_def settled_rows_def)
qed

lemma grows_ledger:
  assumes "create_usage_ledger usage db = (Inr l, db')" "usage_ok db"
  shows "grows db db'" "l \<in> set (table_rows (db_ledgers db'))" "0 < ul_id l" "db_reservations db' = db_reservations db"
proof -
  have rows: "table_rows (db_ledgers db') = table_rows (db_ledgers db) @ [l]"
    "table_next (db_ledgers db') = table_next (db_ledgers db) + 1" "ul_id l = table_next (db_ledgers db)"
    and res: "db_reservations db' = db_reservations db"
    using assms(1) by (auto simp: create_usage_ledger_def create_row_def to_model_usage_ledger_def Let_def split: if_splits)
  show "grows db db'" using assms(2) rows res by (auto simp: grows_def usage_ok_def keyed_def settled_rows_def)
  show "l \<in> set (table_rows (db_ledgers db'))" "0 < ul_id l" "db_reservations db' = db_reservations db"
    using rows res assms(2) by (auto simp: usage_ok_def)
qed

lemma account_frame: "get_or_create_account_for_update u db = (res, db') \<Longrightarrow>
    db_reservations db' = db_reservations db \<and> db_ledgers db' = db_ledgers db"
  by (auto simp: get_or_create_account_for_update_def split: if_splits option.splits prod.splits)

lemma add_frame: "add_to_balance a delta db = (res, db') \<Longrightarrow>
    db_reservations db' = db_reservations db \<and> db_ledgers db' = db_ledgers db"
  by (auto simp: add_to_balance_def split: if_splits option.splits)

lemma tx_frame: "add_transaction i u typ amt b rt ri rn db = (k, db') \<Longrightarrow>
    db_reservations db' = db_reservations db \<and> db_ledgers db' = db_ledgers db"
  by (auto simp: add_transaction_def split: prod.splits)

text \<open>Charging writes one ledger and then settles the row it was given.\<close>

lemma charge_grows:
  assumes "charge_usage usage amt account row ref settled_at db = (Inr u, db')" "usage_ok db"
    and "\<forall>r. row = Some r \<longrightarrow> r \<in> set (table_rows (db_reservations db)) \<and> ur_status r \<noteq> ReservationSettled"
  shows "grows db db'"
    and "row = Some r \<Longrightarrow> \<exists>l. l \<in> set (table_rows (db_ledgers db')) \<and> 0 < ul_id l \<and>
      r\<lparr>ur_status := ReservationSettled, ur_usage_ledger_id := ul_id l, ur_settled_at := Some settled_at\<rparr> \<in> settled_rows db'"
proof -
  let ?next = "wrap64 (ba_balance_nanousd account - amt)"
  obtain l db1 where ledger: "create_usage_ledger (usage\<lparr>ul_balance_after_nanousd := Some ?next\<rparr>) db = (Inr l, db1)"
    using assms(1) by (auto simp: charge_usage_def Let_def split: prod.splits sum.splits)
  note one = grows_ledger [OF ledger assms(2)]
  obtain db2 where db2: "db' = settle_usage_reservation row (ul_id l) settled_at db2"
    "db_reservations db2 = db_reservations db1" "db_ledgers db2 = db_ledgers db1"
    using assms(1) ledger
    by (auto simp: charge_usage_def Let_def dest!: add_frame tx_frame split: if_splits prod.splits sum.splits)
  have two: "grows db db2" using grows_trans [OF one(1) grows_frame [OF grows_ok [OF one(1)] db2(2,3)]] .
  have "grows db db' \<and> (\<forall>r. row = Some r \<longrightarrow> l \<in> set (table_rows (db_ledgers db')) \<and>
      r\<lparr>ur_status := ReservationSettled, ur_usage_ledger_id := ul_id l, ur_settled_at := Some settled_at\<rparr> \<in> settled_rows db')"
  proof (cases row)
    case None
    then show ?thesis using two by (simp add: db2(1) settle_usage_reservation_def)
  next
    case (Some r)
    let ?f = "\<lambda>r. r\<lparr>ur_status := ReservationSettled, ur_usage_ledger_id := ul_id l, ur_settled_at := Some settled_at\<rparr>"
    have r: "r \<in> set (table_rows (db_reservations db2))" "ur_status r \<noteq> ReservationSettled"
      using assms(3) Some db2(2) one(4) by auto
    have db': "db' = update_reservation (ur_id r) ?f db2" by (simp add: db2(1) Some settle_usage_reservation_def)
    have "grows db2 db'" unfolding db' by (rule grows_update_row [OF grows_ok [OF two] r]) simp_all
    moreover have "?f r \<in> settled_rows db'"
      using r(1) by (force simp: db' update_reservation_def update_rows_def settled_rows_def)
    moreover have "l \<in> set (table_rows (db_ledgers db'))" using one(2) db2(3) by (simp add: db' update_reservation_def)
    ultimately show ?thesis using grows_trans [OF two] Some by auto
  qed
  then show "grows db db'"
    "row = Some r \<Longrightarrow> \<exists>l. l \<in> set (table_rows (db_ledgers db')) \<and> 0 < ul_id l \<and>
      r\<lparr>ur_status := ReservationSettled, ur_usage_ledger_id := ul_id l, ur_settled_at := Some settled_at\<rparr> \<in> settled_rows db'"
    using one(3) by blast+
qed

section \<open>The operations\<close>

lemma for_settlement_row:
  assumes "get_usage_reservation_for_settlement db u reservation = Inr (row, settled)"
  shows "row = Some r \<Longrightarrow> r \<in> set (table_rows (db_reservations db)) \<and> ur_user_id r = u \<and>
      ur_ref_no r = reservation_ref_no reservation \<and> (settled \<longleftrightarrow> ur_status r = ReservationSettled) \<and> reservation \<noteq> None"
    "row = None \<Longrightarrow> reservation = None"
  using assms by (auto simp: get_usage_reservation_for_settlement_def reservation_ref_no_def dest!: first_row_in
      split: option.splits if_splits reservation_status.splits)

lemma begin_settlement_row:
  assumes "begin_settlement accepts usage reservation db = (Inr (Inr (account, row)), db')"
  shows "db_reservations db' = db_reservations db" "db_ledgers db' = db_ledgers db"
    "row = Some r \<Longrightarrow> r \<in> set (table_rows (db_reservations db')) \<and> ur_status r \<noteq> ReservationSettled \<and>
      ur_user_id r = ul_user_id usage \<and> ur_ref_no r = reservation_ref_no reservation \<and> accepts r"
    "row = None \<Longrightarrow> reservation = None"
proof -
  obtain a db1 where acc: "get_or_create_account_for_update (ul_user_id usage) db = (Inr a, db1)"
    using assms by (auto simp: begin_settlement_def split: prod.splits sum.splits)
  note same = account_frame [OF acc]
  obtain row' settled where get: "get_usage_reservation_for_settlement db1 (ul_user_id usage) reservation = Inr (row', settled)"
    using assms acc by (auto simp: begin_settlement_def split: sum.splits)
  have db': "db' = db1" and row: "row' = row" "row = Some r \<Longrightarrow> accepts r \<and> \<not> settled" for r
    using assms acc get by (auto simp: begin_settlement_def split: option.splits if_splits prod.splits sum.splits)
  show "db_reservations db' = db_reservations db" "db_ledgers db' = db_ledgers db" using same by (simp_all add: db')
  show "row = Some r \<Longrightarrow> r \<in> set (table_rows (db_reservations db')) \<and> ur_status r \<noteq> ReservationSettled \<and>
      ur_user_id r = ul_user_id usage \<and> ur_ref_no r = reservation_ref_no reservation \<and> accepts r"
    using for_settlement_row(1) [OF get] row by (auto simp: db')
  show "row = None \<Longrightarrow> reservation = None" using for_settlement_row(2) [OF get] row(1) by simp
qed

lemma begin_settlement_frame:
  assumes "begin_settlement accepts usage reservation db = (res, db')"
  shows "db_reservations db' = db_reservations db \<and> db_ledgers db' = db_ledgers db"
proof -
  obtain r db1 where acc: "get_or_create_account_for_update (ul_user_id usage) db = (r, db1)" by fastforce
  have "db' = db1" using assms acc
    by (auto simp: begin_settlement_def restore_settled_usage_ledger_def
        split: sum.splits option.splits prod.splits if_splits)
  then show ?thesis using account_frame [OF acc] by simp
qed

text \<open>The two settlements are one scheme: begin, then charge some ledger and amount, or answer a retry.\<close>

lemma settle_balance_cases:
  assumes "settle_balance_body usage reservation at db = (Inr r, db')"
  obtains (retry) l where "begin_settlement (\<lambda>row. ur_mode row = ''usage'') usage reservation db = (Inr (Inl l), db')" "r = l"
  | (charge) account row db1 where
      "begin_settlement (\<lambda>row. ur_mode row = ''usage'') usage reservation db = (Inr (Inr (account, row)), db1)"
      "charge_usage usage (charge_of usage) account row (reservation_ref_no reservation) at db1 = (Inr (), db')" "r = usage"
  using assms by (auto simp: settle_balance_body_def split: prod.splits sum.splits)

lemma settle_period_cases:
  assumes "settle_period_body usage ps pe credit reservation now at db = (Inr r, db')"
  obtains (retry) l where
      "begin_settlement (\<lambda>row. matches_period_reservation row ps pe credit) usage reservation db = (Inr (Inl l), db')" "r = l"
  | (charge) account row db1 used reserved ledger overage where
      "begin_settlement (\<lambda>row. matches_period_reservation row ps pe credit) usage reservation db = (Inr (Inr (account, row)), db1)"
      "sum_period_billed_nanousd db1 (ul_user_id usage) ps pe = Inr used"
      "sum_active_period_credit_reservations db1 (ul_user_id usage) ps pe (case row of None \<Rightarrow> 0 | Some r \<Rightarrow> ur_id r) now = Inr reserved"
      "period_settlement usage credit used reserved row = (ledger, overage)"
      "charge_usage ledger overage account row (reservation_ref_no reservation) at db1 = (Inr (), db')"
  using assms by (auto simp: settle_period_body_def split: prod.splits sum.splits)

lemma charge_after_begin:
  assumes "begin_settlement accepts usage reservation db = (Inr (Inr (account, row)), db1)" "usage_ok db"
    and "charge_usage ledger amt account row ref at db1 = (Inr (), db')"
  shows "grows db db'"
    "reservation \<noteq> None \<Longrightarrow> \<exists>r l. r \<in> settled_rows db' \<and> l \<in> set (table_rows (db_ledgers db')) \<and>
       ur_user_id r = ul_user_id usage \<and> ur_ref_no r = reservation_ref_no reservation \<and>
       ur_usage_ledger_id r = ul_id l \<and> 0 < ul_id l"
proof -
  note pre = begin_settlement_row [OF assms(1)]
  have start: "grows db db1" using grows_frame [OF assms(2) pre(1,2)] .
  have row: "\<forall>r. row = Some r \<longrightarrow> r \<in> set (table_rows (db_reservations db1)) \<and> ur_status r \<noteq> ReservationSettled"
    using pre(3) by blast
  note paid = charge_grows [OF assms(3) grows_ok [OF start] row]
  show "grows db db'" using grows_trans [OF start paid(1)] .
  assume "reservation \<noteq> None"
  then obtain r where r: "row = Some r" using pre(4) by (cases row) auto
  from paid(2) [OF r] pre(3) [OF r] show "\<exists>r l. r \<in> settled_rows db' \<and> l \<in> set (table_rows (db_ledgers db')) \<and>
       ur_user_id r = ul_user_id usage \<and> ur_ref_no r = reservation_ref_no reservation \<and>
       ur_usage_ledger_id r = ul_id l \<and> 0 < ul_id l" by fastforce
qed

lemma grows_transaction:
  assumes "usage_ok db" "\<And>a db1. body db = (Inr a, db1) \<Longrightarrow> grows db db1"
  shows "grows db (snd (transaction body db))"
  using assms by (auto simp: transaction_def intro: grows_refl split: prod.splits sum.splits)

lemma settlements_grow:
  assumes "usage_ok db"
  shows "settle_balance_body usage reservation at db = (Inr r, db') \<Longrightarrow> grows db db'"
    "settle_period_body usage ps pe credit reservation now at db = (Inr r, db') \<Longrightarrow> grows db db'"
proof -
  have retry: "grows db db'" if "begin_settlement accepts usage reservation db = (Inr (Inl l), db')" for accepts l
    using begin_settlement_frame [OF that] by (intro grows_frame [OF assms]) simp_all
  show "settle_balance_body usage reservation at db = (Inr r, db') \<Longrightarrow> grows db db'"
    by (erule settle_balance_cases) (blast intro: retry charge_after_begin(1) assms)+
  show "settle_period_body usage ps pe credit reservation now at db = (Inr r, db') \<Longrightarrow> grows db db'"
    by (erule settle_period_cases) (blast intro: retry charge_after_begin(1) assms)+
qed

lemma reserve_grows:
  assumes "reserve_body inp now db = (Inr r, db')" "usage_ok db"
  shows "grows db db'"
proof -
  obtain a db1 where acc: "get_or_create_account_for_update (rr_user_id inp) db = (Inr a, db1)"
    using assms(1) by (auto simp: reserve_body_def split: prod.splits sum.splits)
  have one: "grows db db1" using account_frame [OF acc] by (intro grows_frame [OF assms(2)]) simp_all
  have "find_reservation db1 (rr_user_id inp) (rr_ref_no inp) = None"
    using assms(1) acc by (auto simp: reserve_body_def split: if_splits)
  moreover have "\<exists>requested credit. create_reservation inp requested credit now db1 = (r, db')"
    using assms(1) acc by (auto simp: reserve_body_def Let_def split: if_splits sum.splits prod.splits)
  ultimately show ?thesis using grows_create_reservation [OF _ grows_ok [OF one]] grows_trans [OF one] by blast
qed

lemma raise_grows:
  assumes "raise_body u ref required now db = (Inr r, db')" "usage_ok db"
  shows "grows db db'"
proof -
  obtain a db1 where acc: "get_or_create_account_for_update u db = (Inr a, db1)"
    using assms(1) by (auto simp: raise_body_def split: prod.splits sum.splits)
  have one: "grows db db1" using account_frame [OF acc] by (intro grows_frame [OF assms(2)]) simp_all
  obtain x where x: "find_reservation db1 u ref = Some x" "ur_status x = ReservationActive"
    using assms(1) acc by (auto simp: raise_body_def split: option.splits if_splits)
  have "db' = db1 \<or> (\<exists>b c. db' = update_reservation (ur_id x) (\<lambda>r. r\<lparr>ur_balance_nanousd := b, ur_period_credit_nanousd := c\<rparr>) db1)"
    using assms(1) acc x by (auto simp: raise_body_def Let_def split: if_splits sum.splits prod.splits)
  moreover have "grows db1 (update_reservation (ur_id x) (\<lambda>r. r\<lparr>ur_balance_nanousd := b, ur_period_credit_nanousd := c\<rparr>) db1)" for b c
    using find_reservation_in [OF x(1)] x(2) by (intro grows_update_row [OF grows_ok [OF one]]) simp_all
  ultimately show ?thesis using one grows_trans [OF one] by metis
qed

lemma release_grows:
  assumes "release_body u ref now db = (Inr r, db')" "usage_ok db"
  shows "grows db db'"
proof (cases "db' = db")
  case False
  with assms(1) obtain x where x: "find_reservation db u ref = Some x" "ur_status x = ReservationActive"
    "db' = update_reservation (ur_id x) (\<lambda>r. r\<lparr>ur_status := ReservationReleased, ur_released_at := Some now\<rparr>) db"
    by (auto simp: release_body_def split: option.splits if_splits)
  show ?thesis unfolding x(3)
    using find_reservation_in [OF x(1)] x(2) by (intro grows_update_row [OF assms(2)]) simp_all
qed (simp add: assms(2) grows_refl)

lemma add_usage_grows:
  assumes "add_usage_body usage db = (Inr r, db')" "usage_ok db"
  shows "grows db db'"
proof -
  from assms(1) have "db' = db \<or> (\<exists>l. create_usage_ledger usage db = (Inr l, db'))"
    by (auto simp: add_usage_body_def split: option.splits prod.splits sum.splits)
  then show ?thesis using assms(2) grows_refl grows_ledger(1) by blast
qed

lemma other_ops_frame:
  assumes "\<not> usage_op op"
  shows "db_reservations (billing_step op db) = db_reservations db \<and> db_ledgers (billing_step op db) = db_ledgers db"
  using assms
proof (cases op)
  case (OrderPaidGrant n ext paid sub clock)
  have "db_reservations db' = db_reservations db \<and> db_ledgers db' = db_ledgers db"
    if "grant_order_body m ext pd sub clock db = (res, db')" for m pd res db'
    using that by (auto simp: grant_order_body_def refuse_expired_order_def finish_order_def update_orders_def Let_def
        only_subscriptions_def dest!: grant_only split: option.splits if_splits prod.splits sum.splits)
  then show ?thesis
    by (auto simp: OrderPaidGrant mark_payment_order_paid_and_grant_subscription_def transaction_def Let_def
        split: prod.splits sum.splits)
next
  case (OrderPaidCredit n ext paid clock)
  have "db_reservations db' = db_reservations db \<and> db_ledgers db' = db_ledgers db"
    if "credit_order_body m ext pd db = (res, db')" for m pd res db'
    using that by (auto simp: credit_order_body_def refuse_expired_order_def finish_order_def update_orders_def Let_def
        write_balance_def add_transaction_def create_row_def dest!: account_frame
        split: option.splits if_splits prod.splits sum.splits)
  then show ?thesis
    by (auto simp: OrderPaidCredit mark_payment_order_paid_and_credit_balance_def transaction_def Let_def
        split: prod.splits sum.splits)
next
  case (RedeemCode inp clock)
  have balance: "db_reservations db' = db_reservations db \<and> db_ledgers db' = db_ledgers db"
    if "apply_redemption_balance u code ref db = (res, db')" for u code ref res db'
    using that by (auto simp: apply_redemption_balance_def Let_def dest!: account_frame add_frame tx_frame
        split: sum.splits prod.splits option.splits)
  have sub: "db_reservations db' = db_reservations db \<and> db_ledgers db' = db_ledgers db"
    if "apply_redemption_subscription u code now clock db = (res, db')" for u code now res db'
    using that by (auto simp: apply_redemption_subscription_def only_subscriptions_def dest!: grant_only
        split: option.splits sum.splits if_splits)
  have "db_reservations db' = db_reservations db \<and> db_ledgers db' = db_ledgers db"
    if "redeem_body inp now clock db = (res, db')" for now res db'
    using that by (auto simp: redeem_body_def apply_reward_def create_row_def Let_def dest!: balance sub
        split: option.splits prod.splits sum.splits if_splits)
  then show ?thesis
    by (auto simp: RedeemCode redeem_code_def transaction_def split: prod.splits sum.splits)
qed (auto simp: create_payment_order_def update_payment_order_checkout_def update_orders_def create_redemption_code_def
    patch_redemption_code_def patch_code_body_def delete_redemption_code_def transaction_def Let_def
    split: prod.splits sum.splits option.splits)

lemma set_balance_frame:
  assumes "set_balance_body u c ref db = (Inr a, db')"
  shows "db_reservations db' = db_reservations db \<and> db_ledgers db' = db_ledgers db"
proof -
  obtain a0 db1 where acc: "get_or_create_account_for_update u db = (Inr a0, db1)"
    using assms by (auto simp: set_balance_body_def split: prod.splits sum.splits)
  have "db_reservations db' = db_reservations db1 \<and> db_ledgers db' = db_ledgers db1"
    using assms acc by (auto simp: set_balance_body_def write_balance_def add_transaction_def create_row_def Let_def
        split: option.splits if_splits prod.splits)
  then show ?thesis using account_frame [OF acc] by simp
qed

lemma step_grows: "usage_ok db \<Longrightarrow> grows db (billing_step op db)"
proof (cases "usage_op op")
  case False
  assume "usage_ok db"
  then show ?thesis using other_ops_frame [OF False] by (blast intro: grows_frame)
next
  case True
  assume ok: "usage_ok db"
  have "grows db db'" if "update_where P f db = (res, db')" "\<And>r. P r \<Longrightarrow> ur_status r \<noteq> ReservationSettled"
    "\<And>r. ur_id (f r) = ur_id r" "\<And>r. ur_user_id (f r) = ur_user_id r" "\<And>r. ur_ref_no (f r) = ur_ref_no r"
    for P f res db'
    using that grows_update [OF ok that(3-5), of P] ok by (auto simp: update_where_def grows_refl split: if_splits)
  note filtered = this [OF prod.collapse [symmetric]]
  show ?thesis using True
  proof (cases op)
    case (MarkReconciliation u ref failure now)
    then show ?thesis
      by (simp add: mark_usage_reservation_reconciliation_required_def Let_def grows_refl ok) (auto intro!: filtered)
  next
    case (RenewReservation u ref now)
    then show ?thesis by (simp add: renew_usage_balance_reservation_def Let_def grows_refl ok) (auto intro!: filtered)
  next
    case (OpenAccount u)
    have "grows db db'" if "get_or_create_account_for_update u db = (Inr a, db')" for a db'
      using account_frame [OF that] by (intro grows_frame [OF ok]) simp_all
    then show ?thesis using OpenAccount by (simp add: get_or_create_billing_account_def grows_refl ok grows_transaction)
  next
    case (SetBalance u b ref)
    have "grows db db'" if "set_balance_body u c ref db = (Inr a, db')" for c a db'
      using set_balance_frame [OF that] by (intro grows_frame [OF ok]) simp_all
    then show ?thesis using SetBalance by (simp add: set_billing_account_balance_def grows_refl ok grows_transaction)
  qed (auto simp: reserve_usage_balance_def raise_usage_balance_reservation_def release_usage_balance_reservation_def
      add_usage_def add_usage_and_settle_balance_def add_period_usage_and_settle_overage_def Let_def grows_refl ok
      intro!: grows_transaction intro: reserve_grows raise_grows release_grows add_usage_grows settlements_grow)
qed

lemma run_grows:
  assumes "usage_ok db" "accounts_ok db"
  shows "grows db (billing_run ops db) \<and> accounts_ok (billing_run ops db) \<and>
    ba_user_id ` set (table_rows (db_accounts db)) \<subseteq> ba_user_id ` set (table_rows (db_accounts (billing_run ops db)))"
  using assms
proof (induction ops arbitrary: db)
  case (Cons op ops)
  note step = step_grows [OF Cons.prems(1), of op]
  obtain u x where move: "moves u x x db (billing_step op db)"
    using step_booked [OF Cons.prems(2)] unfolding booked_step_def by blast
  then have users: "ba_user_id ` set (table_rows (db_accounts db)) \<subseteq>
      ba_user_id ` set (table_rows (db_accounts (billing_step op db)))" by (simp add: moves_def)
  have run: "billing_run (op # ops) db = billing_run ops (billing_step op db)" by (simp add: billing_run_def)
  from Cons.IH [OF grows_ok [OF step] moves_ok [OF move]] show ?case
    unfolding run using grows_trans [OF step] order_trans [OF users] by blast
qed (simp add: billing_run_def grows_refl)

lemma usage_ok_empty: "usage_ok empty_db" "accounts_ok empty_db"
  using books_empty by (simp_all add: usage_ok_def keyed_def empty_db_def empty_table_def books_ok_def)

section \<open>A retry\<close>

text \<open>What the request must satisfy for its row to be found; it does not depend on the database.\<close>

definition refers_to :: "usage_reservation \<Rightarrow> nat \<Rightarrow> usage_reservation \<Rightarrow> bool" where
  "refers_to res u r \<longleftrightarrow> u \<noteq> 0 \<and> (ur_user_id res = 0 \<or> ur_user_id res = u) \<and> trim_space (ur_ref_no res) \<noteq> [] \<and>
     ur_user_id r = u \<and> ur_ref_no r = trim_space (ur_ref_no res) \<and> (0 < ur_id res \<longrightarrow> ur_id r = ur_id res)"

lemma for_settlement_refers:
  "get_usage_reservation_for_settlement db u (Some res) = Inr (Some r, settled) \<Longrightarrow> refers_to res u r"
  by (auto simp: get_usage_reservation_for_settlement_def refers_to_def dest!: first_row_in
      split: option.splits if_splits reservation_status.splits)

lemma retry_found:
  assumes "usage_ok db" "r \<in> settled_rows db" "refers_to res u r" "ur_usage_ledger_id r \<noteq> 0"
  shows "get_usage_reservation_for_settlement db u (Some res) = Inr (Some r, True)"
proof -
  let ?P = "\<lambda>x. ur_user_id x = u \<and> ur_ref_no x = trim_space (ur_ref_no res) \<and> (0 < ur_id res \<longrightarrow> ur_id x = ur_id res)"
  have r: "r \<in> set (table_rows (db_reservations db))" "ur_status r = ReservationSettled" "?P r"
    using assms(2,3) by (auto simp: settled_rows_def refers_to_def)
  obtain x where x: "first_row ?P (db_reservations db) = Some x"
    using r by (cases "first_row ?P (db_reservations db)") (auto simp: first_row_None)
  from first_row_in [OF x] r have "x = r"
    using assms(1) by (auto simp: usage_ok_def distinct_map inj_on_def)
  then show ?thesis using x r(2) assms(3,4) by (simp add: get_usage_reservation_for_settlement_def refers_to_def)
qed

lemma account_exists:
  assumes "u \<in> ba_user_id ` set (table_rows (db_accounts db))" "u \<noteq> 0"
  obtains a where "get_or_create_account_for_update u db = (Inr a, db)"
proof -
  obtain a where "first_row (\<lambda>a. ba_user_id a = u) (db_accounts db) = Some a"
    using assms(1) by (cases "first_row (\<lambda>a. ba_user_id a = u) (db_accounts db)") (auto simp: first_row_None)
  then show ?thesis using that assms(2) by (simp add: get_or_create_account_for_update_def)
qed

text \<open>The reservation is settled, its ledger and the account of the user are there.\<close>

definition answered :: "(usage_reservation \<Rightarrow> bool) \<Rightarrow> usage_reservation \<Rightarrow> nat \<Rightarrow> usage_ledger \<Rightarrow> billing_db \<Rightarrow> bool" where
  "answered accepts res u l db \<longleftrightarrow> usage_ok db \<and> accounts_ok db \<and> l \<in> set (table_rows (db_ledgers db)) \<and> 0 < ul_id l \<and>
     u \<in> ba_user_id ` set (table_rows (db_accounts db)) \<and>
     (\<exists>r \<in> settled_rows db. refers_to res u r \<and> accepts r \<and> ur_usage_ledger_id r = ul_id l)"

lemma answered_run: "answered accepts res u l db \<Longrightarrow> answered accepts res u l (billing_run ops db)"
  using run_grows [of db ops] unfolding answered_def grows_def by blast

lemma answered_retry:
  assumes "answered accepts res u l db" "ul_user_id usage = u"
  shows "begin_settlement accepts usage (Some res) db = (Inr (Inl l), db)"
proof -
  obtain r where r: "r \<in> settled_rows db" "refers_to res u r" "accepts r" "ur_usage_ledger_id r = ul_id l"
    using assms(1) by (auto simp: answered_def)
  obtain a where acc: "get_or_create_account_for_update u db = (Inr a, db)"
    using account_exists [of u db] assms(1) r(2) by (auto simp: refers_to_def answered_def)
  have l: "first_row (\<lambda>x. ul_id x = ul_id l) (db_ledgers db) = Some l" "0 < ul_id l"
    using first_row_key [of ul_id "db_ledgers db" l] assms(1) by (simp_all add: usage_ok_def answered_def)
  have "get_usage_reservation_for_settlement db u (Some res) = Inr (Some r, True)"
    using retry_found [OF _ r(1,2)] assms(1) r(4) by (simp add: answered_def)
  then show ?thesis using acc r(3,4) l assms(2) by (simp add: begin_settlement_def restore_settled_usage_ledger_def)
qed

lemma begun_reservation:
  assumes "begin_settlement accepts usage (Some res) db = (Inr x, db1)"
  obtains a r settled where "get_or_create_account_for_update (ul_user_id usage) db = (Inr a, db1)"
    "get_usage_reservation_for_settlement db1 (ul_user_id usage) (Some res) = Inr (Some r, settled)"
    "accepts r" "refers_to res (ul_user_id usage) r" "\<And>row acc. x = Inr (acc, row) \<Longrightarrow> row = Some r"
    "\<And>l. x = Inl l \<Longrightarrow> settled \<and> first_row (\<lambda>l. ul_id l = ur_usage_ledger_id r) (db_ledgers db1) = Some l"
proof -
  obtain a db2 where acc: "get_or_create_account_for_update (ul_user_id usage) db = (Inr a, db2)"
    using assms by (auto simp: begin_settlement_def split: prod.splits sum.splits)
  obtain row settled where get: "get_usage_reservation_for_settlement db2 (ul_user_id usage) (Some res) = Inr (row, settled)"
    using assms acc by (auto simp: begin_settlement_def split: prod.splits sum.splits)
  have "row \<noteq> None"
  proof
    assume "row = None"
    with get show False
      by (simp add: get_usage_reservation_for_settlement_def split: if_splits option.splits reservation_status.splits)
  qed
  then obtain r where r: "row = Some r" by blast
  have "db2 = db1 \<and> accepts r \<and> (\<forall>row acc. x = Inr (acc, row) \<longrightarrow> row = Some r) \<and>
      (\<forall>l. x = Inl l \<longrightarrow> settled \<and> first_row (\<lambda>l. ul_id l = ur_usage_ledger_id r) (db_ledgers db1) = Some l)"
    using assms acc get r
    by (auto simp: begin_settlement_def restore_settled_usage_ledger_def split: if_splits option.splits prod.splits sum.splits)
  then show ?thesis using that acc get r for_settlement_refers by blast
qed

text \<open>A settlement that succeeds leaves its reservation answered, charged now or before.\<close>

lemma answered_again:
  assumes begun: "begin_settlement accepts usage (Some res) db = (Inr (Inl l), db1)" and ok: "usage_ok db" "accounts_ok db"
  shows "answered accepts res (ul_user_id usage) l db1"
  using begun
proof (rule begun_reservation)
  fix a r settled
  assume acc: "get_or_create_account_for_update (ul_user_id usage) db = (Inr a, db1)"
    and get: "get_usage_reservation_for_settlement db1 (ul_user_id usage) (Some res) = Inr (Some r, settled)"
    and r: "accepts r" "refers_to res (ul_user_id usage) r"
    and found: "\<And>l'. Inl l = Inl l' \<Longrightarrow> settled \<and> first_row (\<lambda>l. ul_id l = ur_usage_ledger_id r) (db_ledgers db1) = Some l'"
  have settled: "settled" "first_row (\<lambda>l. ul_id l = ur_usage_ledger_id r) (db_ledgers db1) = Some l"
    using found [of l] by simp_all
  have row: "r \<in> settled_rows db1" "ur_usage_ledger_id r \<noteq> 0" using get settled(1)
    by (auto simp: get_usage_reservation_for_settlement_def settled_rows_def dest!: first_row_in
        split: if_splits option.splits reservation_status.splits)
  have "grows db db1" using account_frame [OF acc] by (intro grows_frame [OF ok(1)]) simp_all
  then have fine: "usage_ok db1" "accounts_ok db1"
    using grows_ok moves_ok [OF begin_settlement_step(1) [OF begun ok(2)]] by blast+
  have "ul_user_id usage \<in> ba_user_id ` set (table_rows (db_accounts db1))"
    using account_step [OF acc ok(2)] by (metis image_eqI)
  then show ?thesis using first_row_in [OF settled(2)] row r fine by (auto simp: answered_def)
qed

lemma answered_charge:
  assumes begun: "begin_settlement accepts usage (Some res) db = (Inr (Inr (account, row)), db1)"
    and charged: "charge_usage ledger amt account row ref settled_at db1 = (Inr (), db2)"
    and ok: "usage_ok db" "accounts_ok db" "ul_user_id ledger = ul_user_id usage" "0 \<le> amt"
    and accepts: "\<And>r s l t. accepts (r\<lparr>ur_status := s, ur_usage_ledger_id := l, ur_settled_at := t\<rparr>) = accepts r"
  shows "\<exists>l. answered accepts res (ul_user_id usage) l db2"
  using begun
proof (rule begun_reservation)
  fix a r settled
  assume r: "accepts r" "refers_to res (ul_user_id usage) r"
    and row': "\<And>row' acc. (Inr (account, row) :: usage_ledger + billing_account \<times> usage_reservation option) = Inr (acc, row') \<Longrightarrow> row' = Some r"
  have row: "row = Some r" using row' [of account row] by simp
  note start = begin_settlement_step [OF begun ok(2)]
  from start(3) [OF refl] have account: "account \<in> set (table_rows (db_accounts db1))" "ba_user_id account = ul_user_id usage" by blast+
  have move: "moves (ba_user_id account) (- amt) (- amt) db1 db2"
    using charge_usage_step [OF charged moves_ok [OF start(1)] account(1)] account(2) ok(3,4) by simp
  note pre = begin_settlement_row(1-3) [OF begun]
  have "\<forall>r. row = Some r \<longrightarrow> r \<in> set (table_rows (db_reservations db1)) \<and> ur_status r \<noteq> ReservationSettled"
    using pre(3) by blast
  note charge = charge_grows [OF charged grows_ok [OF grows_frame [OF ok(1) pre(1,2)]] this]
  from charge(2) [OF row] obtain l where l: "l \<in> set (table_rows (db_ledgers db2))" "0 < ul_id l"
    and settled: "r\<lparr>ur_status := ReservationSettled, ur_usage_ledger_id := ul_id l, ur_settled_at := Some settled_at\<rparr> \<in> settled_rows db2"
    by blast
  have here: "ul_user_id usage \<in> ba_user_id ` set (table_rows (db_accounts db2))"
    using move account by (force simp: moves_def)
  have "\<exists>r \<in> settled_rows db2. refers_to res (ul_user_id usage) r \<and> accepts r \<and> ur_usage_ledger_id r = ul_id l"
    by (rule bexI [OF _ settled]) (use r accepts in \<open>simp add: refers_to_def\<close>)
  then show ?thesis
    using here l grows_ok [OF charge(1)] moves_ok [OF move] unfolding answered_def by blast
qed

lemma settle_balance_answered:
  assumes "add_usage_and_settle_balance usage (Some res) settled_at db = (Inr r, db')" "usage_ok db" "accounts_ok db"
  shows "\<exists>l. answered (\<lambda>row. ur_mode row = ''usage'') res (ul_user_id usage) l db'"
proof -
  have "settle_balance_body usage (Some res) settled_at db = (Inr r, db')"
    using assms(1) by (auto simp: add_usage_and_settle_balance_def transaction_def split: prod.splits sum.splits)
  then show ?thesis
  proof (cases rule: settle_balance_cases)
    case retry
    then show ?thesis using answered_again assms(2,3) by blast
  next
    case charge
    show ?thesis by (rule answered_charge [OF charge(1,2) assms(2,3)]) simp_all
  qed
qed

lemma settle_period_answered:
  assumes "add_period_usage_and_settle_overage usage ps pe credit (Some res) now settled_at db = (Inr r, db')"
    and "usage_ok db" "accounts_ok db"
  shows "\<exists>l. answered (\<lambda>row. matches_period_reservation row ps pe credit) res (ul_user_id usage) l db'"
proof -
  have "settle_period_body usage ps pe credit (Some res) now settled_at db = (Inr r, db')" using assms(1)
    by (auto simp: add_period_usage_and_settle_overage_def transaction_def split: prod.splits sum.splits if_splits)
  then show ?thesis
  proof (cases rule: settle_period_cases)
    case retry
    then show ?thesis using answered_again assms(2,3) by blast
  next
    case charge
    show ?thesis
      by (rule answered_charge [OF charge(1,5) assms(2,3)])
        (use period_settlement_overage(2) [OF charge(4)] in \<open>simp_all add: matches_period_reservation_def\<close>)
  qed
qed

lemma run_from_empty: "usage_ok (billing_run ops empty_db)" "accounts_ok (billing_run ops empty_db)"
  using run_grows [OF usage_ok_empty, of ops] by (simp_all add: grows_def)

section \<open>A request is charged once\<close>

text \<open>Requests and histories for the examples: user 7 with a balance of 1000, the period 10 to 1000.\<close>

definition sample_usage :: "nat \<Rightarrow> string \<Rightarrow> int \<Rightarrow> time \<Rightarrow> usage_ledger" where
  "sample_usage user ref_no billed billed_at =
     \<lparr>ul_id = 0, ul_user_id = user, ul_ref_no = ref_no, ul_conversation_id = 1, ul_provider_protocol = [],
      ul_upstream_name = [], ul_platform_model_name = [], ul_routed_binding_code = [], ul_upstream_model_name = [],
      ul_is_free_model = False, ul_billing_at = billed_at, ul_usage_date = 0, ul_input_tokens = 0,
      ul_cache_read_tokens = 0, ul_cache_write_tokens = 0, ul_cache_write_5m_tokens = 0, ul_cache_write_1h_tokens = 0,
      ul_output_tokens = 0, ul_reasoning_tokens = 0,
      ul_call_count = 1, ul_duration_seconds = 0, ul_latency_ms = 0, ul_usage_speed = [], ul_service_tier = [],
      ul_billed_currency = ''USD'', ul_billed_nanousd = billed, ul_balance_after_nanousd = None,
      ul_pricing_snapshot_json = \<lparr>snapshot_text = [], snapshot_settlement = []\<rparr>\<rparr>"

definition sample_reservation :: "nat \<Rightarrow> string \<Rightarrow> usage_reservation" where
  "sample_reservation user ref_no =
     \<lparr>ur_id = 0, ur_user_id = user, ur_ref_no = ref_no, ur_mode = [], ur_balance_nanousd = 0,
      ur_period_credit_nanousd = 0, ur_period_limit_nanousd = 0, ur_period_start_at = None, ur_period_end_at = None,
      ur_status = ReservationActive, ur_usage_ledger_id = 0, ur_expires_at = 0, ur_settled_at = None,
      ur_released_at = None, ur_reconciliation_at = None, ur_failure_code = []\<rparr>"

definition usage_request :: "nat \<Rightarrow> string \<Rightarrow> int \<Rightarrow> reservation_request" where
  "usage_request user ref_no requested =
     \<lparr>rr_user_id = user, rr_ref_no = ref_no, rr_mode = ''usage'', rr_requested_nanousd = requested,
      rr_period_credit_nanousd = 0, rr_period_start_at = None, rr_period_end_at = None\<rparr>"

definition period_request :: "nat \<Rightarrow> string \<Rightarrow> int \<Rightarrow> int \<Rightarrow> reservation_request" where
  "period_request user ref_no requested credit =
     \<lparr>rr_user_id = user, rr_ref_no = ref_no, rr_mode = ''period'', rr_requested_nanousd = requested,
      rr_period_credit_nanousd = credit, rr_period_start_at = Some 10, rr_period_end_at = Some 1000\<rparr>"

definition usage_history :: "billing_op list" where
  "usage_history = [SetBalance 7 1000 ''top'', ReserveUsage (usage_request 7 ''r1'' 300) 20]"

definition period_history :: "billing_op list" where
  "period_history = [SetBalance 7 1000 ''top'', ReserveUsage (period_request 7 ''a'' 60 100) 20,
     ReserveUsage (period_request 7 ''b'' 140 100) 21]"

text \<open>
  A request is charged once. When a settlement with a reservation has succeeded, then whatever billing
  operations follow, each further settlement of the same user with the same reservation gives back one and
  the same ledger and leaves the database as it is: no second ledger, no second debit.
\<close>
theorem settlement_charged_once:
  assumes "add_usage_and_settle_balance usage (Some res) settled_at (billing_run ops empty_db) = (Inr answer, db)"
  shows "\<exists>l \<in> set (table_rows (db_ledgers db)). \<forall>usage' again later. ul_user_id usage' = ul_user_id usage \<longrightarrow>
    add_usage_and_settle_balance usage' (Some res) again (billing_run later db) = (Inr l, billing_run later db)"
proof -
  obtain l where l: "answered (\<lambda>row. ur_mode row = ''usage'') res (ul_user_id usage) l db"
    using settle_balance_answered [OF assms run_from_empty] by blast
  have "add_usage_and_settle_balance usage' (Some res) again (billing_run later db) = (Inr l, billing_run later db)"
    if "ul_user_id usage' = ul_user_id usage" for usage' again later
    using answered_retry [OF answered_run [OF l] that, of later]
    by (simp add: add_usage_and_settle_balance_def transaction_def settle_balance_body_def)
  then show ?thesis using l by (auto simp: answered_def)
qed

theorem settlement_charged_once_witness:
  "let first = add_usage_and_settle_balance (sample_usage 7 ''u1'' 250 30) (Some (sample_reservation 7 ''r1'')) 40
         (billing_run usage_history empty_db);
       db = billing_run [SetBalance 7 5000 ''again''] (snd first)
   in \<exists>l \<in> set (table_rows (db_ledgers (snd first))).
        add_usage_and_settle_balance (sample_usage 7 ''u1'' 300 30) (Some (sample_reservation 7 ''r1'')) 60 db = (Inr l, db)"
proof -
  let ?first = "add_usage_and_settle_balance (sample_usage 7 ''u1'' 250 30) (Some (sample_reservation 7 ''r1'')) 40
    (billing_run usage_history empty_db)"
  have "fst ?first = Inr (sample_usage 7 ''u1'' 250 30)" by code_simp
  then have "?first = (Inr (sample_usage 7 ''u1'' 250 30), snd ?first)" by (metis prod.collapse)
  from settlement_charged_once [OF this] show ?thesis unfolding Let_def by (auto simp: sample_usage_def)
qed

text \<open>
  The same for a settlement against a period: with the same period and credit, a retry gives back the
  first ledger and changes nothing, whatever happened in between.
\<close>
theorem period_settlement_charged_once:
  assumes "add_period_usage_and_settle_overage usage ps pe credit (Some res) now settled_at (billing_run ops empty_db) =
    (Inr answer, db)"
  shows "\<exists>l \<in> set (table_rows (db_ledgers db)). \<forall>usage' now' again later. ul_user_id usage' = ul_user_id usage \<longrightarrow>
    add_period_usage_and_settle_overage usage' ps pe credit (Some res) now' again (billing_run later db) =
      (Inr l, billing_run later db)"
proof -
  obtain l where l: "answered (\<lambda>row. matches_period_reservation row ps pe credit) res (ul_user_id usage) l db"
    using settle_period_answered [OF assms run_from_empty] by blast
  have valid: "\<not> (ul_user_id usage = 0 \<or> is_zero ps \<or> \<not> ps < pe \<or> credit < 0)"
    using assms by (auto simp: add_period_usage_and_settle_overage_def split: if_splits)
  have "add_period_usage_and_settle_overage usage' ps pe credit (Some res) now' again (billing_run later db) =
      (Inr l, billing_run later db)" if "ul_user_id usage' = ul_user_id usage" for usage' now' again later
    using answered_retry [OF answered_run [OF l] that, of later] valid that
    by (simp add: add_period_usage_and_settle_overage_def transaction_def settle_period_body_def)
  then show ?thesis using l by (auto simp: answered_def)
qed

theorem period_settlement_charged_once_witness:
  "let first = add_period_usage_and_settle_overage (sample_usage 7 ''ua'' 60 30) 10 1000 100
         (Some (sample_reservation 7 ''a'')) 40 40 (billing_run period_history empty_db);
       db = billing_run [ReleaseReservation 7 ''a'' 50, SetBalance 7 5000 ''again''] (snd first)
   in \<exists>l \<in> set (table_rows (db_ledgers (snd first))).
        add_period_usage_and_settle_overage (sample_usage 7 ''ua'' 90 30) 10 1000 100
          (Some (sample_reservation 7 ''a'')) 60 60 db = (Inr l, db)"
proof -
  let ?first = "add_period_usage_and_settle_overage (sample_usage 7 ''ua'' 60 30) 10 1000 100
    (Some (sample_reservation 7 ''a'')) 40 40 (billing_run period_history empty_db)"
  have "\<not> isl (fst ?first)" by code_simp
  then obtain u where "?first = (Inr u, snd ?first)" by (metis isl_def prod.collapse sumE)
  from period_settlement_charged_once [OF this] show ?thesis unfolding Let_def by (auto simp: sample_usage_def)
qed

end
