(* ===== verification/Reservation_Props.thy ===== *)
theory Reservation_Props
  imports Settlement_Props
begin

text \<open>
  What the reservations promise: a reservation that is granted is covered by the balance and the credit
  of the period, and the overage of a period is exact when its requests are served one after the other. The last
  section shows that it is not exact when two reservations hold the credit at once.
\<close>

section \<open>A reservation is covered\<close>

lemma remaining_positive:
  "0 < remaining_non_negative_budget limit consumed reserved \<Longrightarrow>
     remaining_non_negative_budget limit consumed reserved = limit - clamp_non_negative consumed - clamp_non_negative reserved"
  by (auto simp: remaining_non_negative_budget_def Let_def split: if_splits)

lemma remaining_nonneg: "0 \<le> remaining_non_negative_budget limit consumed reserved"
  by (auto simp: remaining_non_negative_budget_def Let_def)

lemma add_non_negative_le: "0 \<le> a \<Longrightarrow> 0 \<le> b \<Longrightarrow> add_non_negative_int64 a b \<le> a + b"
  by (auto simp: add_non_negative_int64_def Let_def max_int64_def)

lemma scan_Inr: "scan_int64 v = Inr w \<longleftrightarrow> w = v \<and> in_int64 v"
  by (auto simp: scan_int64_def)

lemma reserve_parts:
  assumes "reserve_body inp now db = (Inr r, db')"
  obtains account db1 available_balance available_credit requested where
    "get_or_create_account_for_update (rr_user_id inp) db = (Inr account, db1)"
    "count_active_usage_reservations db1 (rr_user_id inp) now < usage_reservation_max_active_per_user"
    "reservation_budgets inp account now db1 = Inr (available_balance, available_credit)"
    "0 < requested" "requested \<le> add_non_negative_int64 available_credit available_balance"
    "create_reservation inp requested (lower_int64 requested available_credit) now db1 = (r, db')"
proof -
  obtain account db1 where acc: "get_or_create_account_for_update (rr_user_id inp) db = (Inr account, db1)"
    using assms by (auto simp: reserve_body_def split: prod.splits sum.splits)
  then obtain bal credit where "reservation_budgets inp account now db1 = Inr (bal, credit)"
    using assms by (auto simp: reserve_body_def Let_def split: if_splits sum.splits)
  with assms acc that show thesis by (auto simp: reserve_body_def Let_def not_le split: if_splits prod.splits)
qed

lemma budgets_nonneg:
  "reservation_budgets inp account now db = Inr (b, c) \<Longrightarrow> 0 \<le> b \<and> 0 \<le> c"
  by (auto simp: reservation_budgets_def available_period_credit_def Let_def remaining_nonneg
      split: if_splits sum.splits option.splits)

lemma budget_balance:
  assumes "reservation_budgets inp account now db = Inr (b, c)" "0 < b"
  obtains held where "sum_active_balance_reservations db (rr_user_id inp) 0 now = Inr held"
    "b + held \<le> ba_balance_nanousd account"
proof -
  obtain held where held: "sum_active_balance_reservations db (rr_user_id inp) 0 now = Inr held"
    "b = remaining_non_negative_budget (ba_balance_nanousd account) held 0"
    using assms(1) by (auto simp: reservation_budgets_def Let_def split: if_splits sum.splits option.splits)
  with remaining_positive [of "ba_balance_nanousd account" held 0] assms(2) have "b + held \<le> ba_balance_nanousd account"
    by (auto simp: clamp_non_negative_def split: if_splits)
  with held that show thesis by blast
qed

lemma budget_credit:
  assumes "reservation_budgets inp account now db = Inr (b, c)" "0 < c"
  obtains s e used reserved where "rr_period_start_at inp = Some s" "rr_period_end_at inp = Some e"
    "sum_period_billed_nanousd db (rr_user_id inp) s e = Inr used"
    "sum_active_period_credit_reservations db (rr_user_id inp) s e 0 now = Inr reserved"
    "c + max 0 used + reserved \<le> rr_period_credit_nanousd inp"
proof -
  obtain s e used reserved where parts: "rr_period_start_at inp = Some s" "rr_period_end_at inp = Some e"
    "sum_period_billed_nanousd db (rr_user_id inp) s e = Inr used"
    "sum_active_period_credit_reservations db (rr_user_id inp) s e 0 now = Inr reserved"
    "c = remaining_non_negative_budget (rr_period_credit_nanousd inp) used reserved"
    using assms by (auto simp: reservation_budgets_def available_period_credit_def Let_def
        split: if_splits sum.splits option.splits)
  with remaining_positive [of "rr_period_credit_nanousd inp" used reserved] assms(2) have "c + max 0 used + reserved \<le> rr_period_credit_nanousd inp"
    by (auto simp: clamp_non_negative_def split: if_splits)
  with parts that show thesis by blast
qed

text \<open>The new row adds what it holds to each of the sums.\<close>

lemma created_row:
  assumes "create_reservation inp requested credit now db = (r, db')"
  shows "ur_balance_nanousd r = requested - credit" "ur_period_credit_nanousd r = credit"
    "db_accounts db' = db_accounts db"
    "count_active_usage_reservations db' (rr_user_id inp) now = count_active_usage_reservations db (rr_user_id inp) now + 1"
    "sum_active_balance_reservations db (rr_user_id inp) 0 now = Inr held \<Longrightarrow>
       sum_active_balance_reservations db' (rr_user_id inp) 0 now = scan_int64 (held + (requested - credit))"
    "rr_period_start_at inp = Some s \<Longrightarrow> rr_period_end_at inp = Some e \<Longrightarrow>
       sum_active_period_credit_reservations db (rr_user_id inp) s e 0 now = Inr reserved \<Longrightarrow>
       sum_active_period_credit_reservations db' (rr_user_id inp) s e 0 now = scan_int64 (reserved + credit)"
    "sum_period_billed_nanousd db' u s e = sum_period_billed_nanousd db u s e"
proof -
  have r: "ur_user_id r = rr_user_id inp" "ur_status r = ReservationActive" "ur_expires_at r = now + usage_reservation_ttl"
    "ur_balance_nanousd r = requested - credit" "ur_period_credit_nanousd r = credit"
    "ur_period_start_at r = rr_period_start_at inp" "ur_period_end_at r = rr_period_end_at inp"
    and db': "table_rows (db_reservations db') = table_rows (db_reservations db) @ [r]"
      "db_accounts db' = db_accounts db" "db_ledgers db' = db_ledgers db"
    using assms by (auto simp: create_reservation_def create_row_def)
  have holds: "holds_budget (rr_user_id inp) now r"
    by (simp add: holds_budget_def r usage_reservation_ttl_def)
  show "ur_balance_nanousd r = requested - credit" "ur_period_credit_nanousd r = credit"
    "db_accounts db' = db_accounts db" by (rule r db')+
  show "count_active_usage_reservations db' (rr_user_id inp) now = count_active_usage_reservations db (rr_user_id inp) now + 1"
    using holds by (simp add: count_active_usage_reservations_def count_rows_def db')
  show "sum_active_balance_reservations db (rr_user_id inp) 0 now = Inr held \<Longrightarrow>
      sum_active_balance_reservations db' (rr_user_id inp) 0 now = scan_int64 (held + (requested - credit))"
    using holds by (simp add: sum_active_balance_reservations_def sum_rows_def db' scan_Inr r)
  show "rr_period_start_at inp = Some s \<Longrightarrow> rr_period_end_at inp = Some e \<Longrightarrow>
      sum_active_period_credit_reservations db (rr_user_id inp) s e 0 now = Inr reserved \<Longrightarrow>
      sum_active_period_credit_reservations db' (rr_user_id inp) s e 0 now = scan_int64 (reserved + credit)"
    using holds by (simp add: sum_active_period_credit_reservations_def sum_rows_def db' scan_Inr r)
  show "sum_period_billed_nanousd db' u s e = sum_period_billed_nanousd db u s e"
    by (simp add: sum_period_billed_nanousd_def sum_rows_def db')
qed

text \<open>
  C15. A reservation is covered at the moment it is granted. It holds no negative amount; when it holds a part of the
  balance, all the reservations of the user that count at that time hold together at most the balance; when it
  holds credit, the usage of the period and all the credit reserved in it stay within the limit of the period; and
  at most five reservations of the user count then, this one included. It is a statement about that moment: marking
  an expired reservation for reconciliation makes it count again without any of these checks.
\<close>
theorem reservation_covered:
  assumes granted: "reserve_usage_balance inp now db = (Inr r, db')"
    and ok: "accounts_ok db" "in_int64 (rr_period_credit_nanousd inp)"
  shows "0 \<le> ur_balance_nanousd r \<and> 0 \<le> ur_period_credit_nanousd r \<and>
    count_active_usage_reservations db' (rr_user_id inp) now \<le> 5 \<and>
    (ur_balance_nanousd r = 0 \<or> (\<exists>held. sum_active_balance_reservations db' (rr_user_id inp) 0 now = Inr held \<and>
       held \<le> balance db' (rr_user_id inp))) \<and>
    (ur_period_credit_nanousd r = 0 \<or> (\<exists>s e used reserved.
       rr_period_start_at inp = Some s \<and> rr_period_end_at inp = Some e \<and>
       sum_period_billed_nanousd db' (rr_user_id inp) s e = Inr used \<and>
       sum_active_period_credit_reservations db' (rr_user_id inp) s e 0 now = Inr reserved \<and>
       max 0 used + reserved \<le> rr_period_credit_nanousd inp))"
proof -
  let ?inp = "inp\<lparr>rr_ref_no := trim_space (rr_ref_no inp), rr_mode := trim_space (rr_mode inp)\<rparr>"
  let ?u = "rr_user_id inp"
  have "reserve_body ?inp now db = (Inr r, db')" using granted
    by (auto simp: reserve_usage_balance_def Let_def transaction_def split: if_splits prod.splits sum.splits)
  then obtain account db1 b c requested where
    acc: "get_or_create_account_for_update ?u db = (Inr account, db1)"
    and count: "count_active_usage_reservations db1 ?u now < usage_reservation_max_active_per_user"
    and budgets: "reservation_budgets ?inp account now db1 = Inr (b, c)"
    and req: "0 < requested" "requested \<le> add_non_negative_int64 c b"
    and row: "create_reservation ?inp requested (lower_int64 requested c) now db1 = (r, db')"
    by (elim reserve_parts) simp
  note new = created_row [OF row, simplified]
  have ok1: "accounts_ok db1" using account_step(1) [OF acc ok(1)] by (rule moves_ok)
  have "balance db' ?u = balance db1 ?u" using new(3) by (simp add: balance_def)
  then have bal: "ba_balance_nanousd account = balance db' ?u" "in_int64 (balance db' ?u)"
    using balance_of [OF ok1 account_step(2) [OF acc ok(1)]] account_step(3) [OF acc ok(1)] in_int64_balance [OF ok1, of ?u]
    by simp_all
  have nonneg: "0 \<le> b" "0 \<le> c" using budgets_nonneg [OF budgets] by simp_all
  have parts: "0 \<le> ur_balance_nanousd r" "0 \<le> ur_period_credit_nanousd r" "ur_balance_nanousd r \<le> b" "ur_period_credit_nanousd r \<le> c"
    using new(1,2) req nonneg add_non_negative_le [of c b] by (auto simp: lower_int64_def)
  have held: "\<exists>held. sum_active_balance_reservations db' ?u 0 now = Inr held \<and> held \<le> balance db' ?u"
    if "ur_balance_nanousd r \<noteq> 0"
  proof -
    have "0 < b" using parts(1,3) that by simp
    from budget_balance [OF budgets this] obtain held where
      h: "sum_active_balance_reservations db1 ?u 0 now = Inr held" "b + held \<le> balance db' ?u"
      unfolding bal(1) by auto
    then have "in_int64 held" by (simp add: sum_active_balance_reservations_def scan_Inr)
    with h(2) parts(1,3) bal(2) have "in_int64 (held + ur_balance_nanousd r)"
      by (auto simp: in_int64_def)
    then show ?thesis using new(5) [OF h(1)] new(1) h(2) parts(3) by (simp add: scan_Inr)
  qed
  have credit: "\<exists>s e used reserved. rr_period_start_at inp = Some s \<and> rr_period_end_at inp = Some e \<and>
       sum_period_billed_nanousd db' ?u s e = Inr used \<and>
       sum_active_period_credit_reservations db' ?u s e 0 now = Inr reserved \<and>
       max 0 used + reserved \<le> rr_period_credit_nanousd inp" if "ur_period_credit_nanousd r \<noteq> 0"
  proof -
    have "0 < c" using parts(2,4) that by simp
    obtain s e used reserved where p: "rr_period_start_at inp = Some s" "rr_period_end_at inp = Some e"
      "sum_period_billed_nanousd db1 ?u s e = Inr used"
      "sum_active_period_credit_reservations db1 ?u s e 0 now = Inr reserved"
      "c + max 0 used + reserved \<le> rr_period_credit_nanousd inp"
      using budget_credit [OF budgets \<open>0 < c\<close>, simplified] by blast
    then have "in_int64 reserved" by (simp add: sum_active_period_credit_reservations_def scan_Inr)
    with p(5) parts(2,4) ok(2) have "in_int64 (reserved + ur_period_credit_nanousd r)"
      by (auto simp: in_int64_def)
    then show ?thesis using new(6) [OF p(1,2,4)] new(2,7) p parts(4) by (simp add: scan_Inr)
  qed
  show ?thesis using parts(1,2) new(4) count held credit by (auto simp: usage_reservation_max_active_per_user_def)
qed

theorem reservation_covered_witness:
  "let res = reserve_usage_balance (period_request 7 ''c'' 30 100) 22 (billing_run [SetBalance 7 1000 ''top''] empty_db)
   in \<not> isl (fst res) \<and> 0 \<le> ur_balance_nanousd (projr (fst res)) \<and> count_active_usage_reservations (snd res) 7 22 \<le> 5"
proof -
  let ?res = "reserve_usage_balance (period_request 7 ''c'' 30 100) 22 (billing_run [SetBalance 7 1000 ''top''] empty_db)"
  have "\<not> isl (fst ?res)" by code_simp
  then obtain r where r: "?res = (Inr r, snd ?res)" by (metis isl_def prod.collapse sumE)
  have small: "in_int64 (rr_period_credit_nanousd (period_request 7 ''c'' 30 100))" by code_simp
  have "projr (fst ?res) = r" "\<not> isl (fst ?res)" by (subst r, simp)+
  then show ?thesis
    using reservation_covered [OF r run_from_empty(2) small] by (simp add: Let_def period_request_def)
qed

section \<open>The overage of a period\<close>

definition billed_in :: "nat \<Rightarrow> time \<Rightarrow> time \<Rightarrow> billing_db \<Rightarrow> int" where
  "billed_in u ps pe db = sum_rows (counts_in_period u ps pe) ul_billed_nanousd (db_ledgers db)"

text \<open>Usage that can be written: of the user, in the period, not free, with a reference number not used yet.\<close>

definition fresh_usage :: "nat \<Rightarrow> time \<Rightarrow> time \<Rightarrow> billing_db \<Rightarrow> usage_ledger \<Rightarrow> bool" where
  "fresh_usage u ps pe db usage \<longleftrightarrow> counts_in_period u ps pe usage \<and> 0 \<le> ul_billed_nanousd usage \<and>
     trim_space (ul_ref_no usage) \<notin> ul_ref_no ` set (table_rows (db_ledgers db))"

text \<open>
  No reservation that counts at \<open>t\<close> or later holds credit of the period; those that are settled, released or expired by
  then, and those of other periods, may hold what they like.
\<close>

definition reserves_period :: "nat \<Rightarrow> time \<Rightarrow> time \<Rightarrow> time \<Rightarrow> usage_reservation \<Rightarrow> bool" where
  "reserves_period u ps pe t r \<longleftrightarrow>
     holds_budget u t r \<and> ur_period_start_at r = Some ps \<and> ur_period_end_at r = Some pe"

definition no_credit_held :: "nat \<Rightarrow> time \<Rightarrow> time \<Rightarrow> time \<Rightarrow> billing_db \<Rightarrow> bool" where
  "no_credit_held u ps pe t db \<longleftrightarrow>
     list_all (\<lambda>r. reserves_period u ps pe t r \<longrightarrow> ur_period_credit_nanousd r = 0) (table_rows (db_reservations db))"

lemma reserves_later: "reserves_period u ps pe t' r \<Longrightarrow> t \<le> t' \<Longrightarrow> reserves_period u ps pe t r"
  by (auto simp: reserves_period_def holds_budget_def)

lemma others_hold_none:
  assumes "\<forall>r \<in> set (table_rows (db_reservations db)). reserves_period u ps pe now r \<longrightarrow>
    ur_period_credit_nanousd r = 0 \<or> 0 < own \<and> ur_id r = own"
  shows "sum_active_period_credit_reservations db u ps pe own now = Inr 0"
proof -
  let ?P = "\<lambda>r. holds_budget u now r \<and> ur_period_start_at r = Some ps \<and> ur_period_end_at r = Some pe \<and>
    \<not> (0 < own \<and> ur_id r = own)"
  have none: "sum_list (map ur_period_credit_nanousd (filter P rows)) = 0"
    if "\<forall>r \<in> set rows. P r \<longrightarrow> ur_period_credit_nanousd r = 0" for P rows
    using that by (induction rows) auto
  have "\<forall>r \<in> set (table_rows (db_reservations db)). ?P r \<longrightarrow> ur_period_credit_nanousd r = 0"
    using assms by (auto simp: reserves_period_def)
  then have zero: "sum_rows ?P ur_period_credit_nanousd (db_reservations db) = 0"
    unfolding sum_rows_def by (rule none)
  show ?thesis
    unfolding sum_active_period_credit_reservations_def zero
    by (simp add: scan_int64_def in_int64_def min_int64_def max_int64_def)
qed

lemma overage_is_excess:
  assumes "0 \<le> charge" "0 \<le> credit" "0 \<le> used"
  shows "charge - lower_int64 charge (remaining_non_negative_budget credit used 0) =
    max 0 (used + charge - credit) - max 0 (used - credit)"
  using assms by (auto simp: lower_int64_def remaining_non_negative_budget_def clamp_non_negative_def Let_def)

lemma add_to_balance_ok:
  assumes "accounts_ok db" "a \<in> set (table_rows (db_accounts db))" "in_int64 (ba_balance_nanousd a + delta)"
  shows "\<exists>db'. add_to_balance a delta db = (Inr (), db')"
  using first_row_key [of ba_id "db_accounts db" a] assms by (simp add: add_to_balance_def accounts_ok_def)

lemma find_append: "List.find P (xs @ ys) = (case List.find P xs of None \<Rightarrow> List.find P ys | Some x \<Rightarrow> Some x)"
  by (induction xs) auto

lemma granted_row:
  assumes "reserve_usage_balance inp now db = (Inr r, db')"
  defines "inp' \<equiv> inp\<lparr>rr_ref_no := trim_space (rr_ref_no inp), rr_mode := trim_space (rr_mode inp)\<rparr>"
  shows "\<not> invalid_reservation_request inp'"
    "ur_user_id r = rr_user_id inp" "ur_ref_no r = trim_space (rr_ref_no inp)" "ur_mode r = trim_space (rr_mode inp)"
    "ur_period_start_at r = rr_period_start_at inp" "ur_period_end_at r = rr_period_end_at inp"
    "ur_period_limit_nanousd r = rr_period_credit_nanousd inp" "ur_status r = ReservationActive"
    "in_int64 (ur_balance_nanousd r + ur_period_credit_nanousd r)"
    "find_reservation db' (ur_user_id r) (ur_ref_no r) = Some r"
    "0 < ur_balance_nanousd r + ur_period_credit_nanousd r"
    "0 \<le> ur_balance_nanousd r" "0 \<le> ur_period_credit_nanousd r"
proof -
  have valid: "\<not> invalid_reservation_request inp'" and body: "reserve_body inp' now db = (Inr r, db')"
    using assms(1) by (auto simp: reserve_usage_balance_def Let_def transaction_def inp'_def
        split: if_splits prod.splits sum.splits)
  show "\<not> invalid_reservation_request inp'" by (rule valid)
  have fresh: "find_reservation db1 (rr_user_id inp') (rr_ref_no inp') = None"
    if "get_or_create_account_for_update (rr_user_id inp') db = (Inr account, db1)" for account db1
    using body that by (auto simp: reserve_body_def split: if_splits)
  from body obtain account db1 b c requested where
    acc: "get_or_create_account_for_update (rr_user_id inp') db = (Inr account, db1)"
    and req: "0 < requested" "requested \<le> add_non_negative_int64 c b"
    and budgets: "reservation_budgets inp' account now db1 = Inr (b, c)"
    and row: "create_reservation inp' requested (lower_int64 requested c) now db1 = (r, db')"
    by (rule reserve_parts)
  then show "ur_user_id r = rr_user_id inp" "ur_ref_no r = trim_space (rr_ref_no inp)" "ur_mode r = trim_space (rr_mode inp)"
    "ur_period_start_at r = rr_period_start_at inp" "ur_period_end_at r = rr_period_end_at inp"
    "ur_period_limit_nanousd r = rr_period_credit_nanousd inp" "ur_status r = ReservationActive"
    by (auto simp: create_reservation_def create_row_def inp'_def)
  have held: "ur_balance_nanousd r + ur_period_credit_nanousd r = requested"
    using row by (auto simp: create_reservation_def create_row_def)
  then show "0 < ur_balance_nanousd r + ur_period_credit_nanousd r" using req(1) by simp
  show "0 \<le> ur_balance_nanousd r" "0 \<le> ur_period_credit_nanousd r"
    using row req(1) budgets_nonneg [OF budgets] by (auto simp: create_reservation_def create_row_def lower_int64_def)
  have "add_non_negative_int64 c b \<le> max_int64"
    by (auto simp: add_non_negative_int64_def Let_def max_int64_def)
  then show "in_int64 (ur_balance_nanousd r + ur_period_credit_nanousd r)"
    using req unfolding held by (simp add: in_int64_def min_int64_def)
  have "table_rows (db_reservations db') = table_rows (db_reservations db1) @ [r]"
    "ur_user_id r = rr_user_id inp'" "ur_ref_no r = rr_ref_no inp'"
    using row by (auto simp: create_reservation_def create_row_def)
  then show "find_reservation db' (ur_user_id r) (ur_ref_no r) = Some r"
    using fresh [OF acc] by (simp add: find_reservation_def first_row_def find_append split: option.splits)
qed

text \<open>One settlement while no other reservation holds credit: it is written and charges what goes over the credit.\<close>

lemma period_step:
  assumes ok: "accounts_ok db" and u: "u \<noteq> 0" "\<not> is_zero ps" "ps < pe" "0 \<le> credit"
    and usage: "fresh_usage u ps pe db usage"
    and row: "get_usage_reservation_for_settlement db u reservation = Inr (row, False)"
      "\<And>r. row = Some r \<Longrightarrow> matches_period_reservation r ps pe credit"
    and others: "\<forall>r \<in> set (table_rows (db_reservations db)). reserves_period u ps pe now r \<longrightarrow> ur_period_credit_nanousd r = 0 \<or>
      0 < (case row of None \<Rightarrow> 0 | Some x \<Rightarrow> ur_id x) \<and> ur_id r = (case row of None \<Rightarrow> 0 | Some x \<Rightarrow> ur_id x)"
    and small: "0 \<le> billed_in u ps pe db" "billed_in u ps pe db \<le> max_int64"
      "min_int64 \<le> balance db u - ul_billed_nanousd usage"
    and db': "db' = billing_step (SettlePeriod usage ps pe credit reservation now settled_at) db"
    and x_def: "x = max 0 (billed_in u ps pe db + ul_billed_nanousd usage - credit) - max 0 (billed_in u ps pe db - credit)"
  shows "accounts_ok db'" "balance db' u = balance db u - x"
    "\<exists>i. db_reservations db' = db_reservations (settle_usage_reservation row i settled_at db)"
    "billed_in u ps pe db' = billed_in u ps pe db + ul_billed_nanousd usage"
    "ul_ref_no ` set (table_rows (db_ledgers db')) = insert (trim_space (ul_ref_no usage)) (ul_ref_no ` set (table_rows (db_ledgers db)))"
proof -
  let ?billed = "ul_billed_nanousd usage" and ?own = "case row of None \<Rightarrow> 0 | Some x \<Rightarrow> ur_id x"
  have us: "ul_user_id usage = u" "\<not> ul_is_free_model usage" "0 \<le> ?billed" "charge_of usage = ?billed"
    using usage by (auto simp: fresh_usage_def counts_in_period_def charge_of_def)
  have fresh: "\<not> (ul_user_id l = u \<and> ul_ref_no l = trim_space (ul_ref_no usage))"
    if "l \<in> set (table_rows (db_ledgers db))" for l using that usage by (force simp: fresh_usage_def)
  obtain account db1 where acc: "get_or_create_account_for_update u db = (Inr account, db1)"
    using u(1) by (cases "first_row (\<lambda>a. ba_user_id a = u) (db_accounts db)")
      (auto simp: get_or_create_account_for_update_def create_row_def)
  note start = account_step [OF acc ok]
  have frame: "db_reservations db1 = db_reservations db" "db_ledgers db1 = db_ledgers db" using account_frame [OF acc] by auto
  have ok1: "accounts_ok db1" using start(1) by (rule moves_ok)
  have row1: "get_usage_reservation_for_settlement db1 u reservation = Inr (row, False)"
    using row(1) unfolding get_usage_reservation_for_settlement_def frame(1) .
  have none: "first_row (\<lambda>l. ul_user_id l = u \<and> ul_ref_no l = trim_space (ul_ref_no usage)) (db_ledgers db) = None"
    using fresh by (auto simp: first_row_None)
  have begun: "begin_settlement (\<lambda>row. matches_period_reservation row ps pe credit) usage reservation db =
      (Inr (Inr (account, row)), db1)"
    using acc us(1) none row1 row(2)
    by (cases row) (auto simp: begin_settlement_def restore_usage_ledger_by_ref_no_def Let_def frame)
  have used: "sum_period_billed_nanousd db1 u ps pe = Inr (billed_in u ps pe db)"
    using small(1,2) by (simp add: sum_period_billed_nanousd_def billed_in_def frame scan_Inr in_int64_def min_int64_def)
  have reserved: "sum_active_period_credit_reservations db1 u ps pe ?own now = Inr 0"
    by (rule others_hold_none) (use others in \<open>simp add: frame\<close>)
  obtain ledger where led: "period_settlement usage credit (billed_in u ps pe db) 0 row = (ledger, x)"
    and same: "counts_in_period u ps pe ledger" "ul_billed_nanousd ledger = ?billed" "ul_ref_no ledger = ul_ref_no usage"
      "ul_user_id ledger = u"
    using overage_is_excess [OF us(3) u(4) small(1)] usage us(1)
    by (auto simp: period_settlement_def Let_def us(4) x_def counts_in_period_def fresh_usage_def)
  have x: "0 \<le> x" "x \<le> ?billed" using us(3) unfolding x_def by auto
  let ?next = "wrap64 (ba_balance_nanousd account - x)"
  have bal: "ba_balance_nanousd account = balance db u" "in_int64 (balance db u - x)"
    using start(4) small(3) x in_int64_balance [OF ok, of u] by (auto simp: in_int64_def)
  let ?new = "ledger\<lparr>ul_balance_after_nanousd := Some ?next\<rparr>"
  define l where "l = to_model_usage_ledger ?new (table_next (db_ledgers db))"
  define t where "t = snd (create_row (to_model_usage_ledger ?new) (db_ledgers db))"
  have new: "create_usage_ledger ?new db1 = (Inr l, db1\<lparr>db_ledgers := t\<rparr>)"
    "table_rows t = table_rows (db_ledgers db) @ [l]" "counts_in_period u ps pe l" "ul_billed_nanousd l = ?billed"
    "ul_ref_no l = trim_space (ul_ref_no usage)"
    using none same frame(2)
    by (simp_all add: create_usage_ledger_def create_row_def l_def t_def Let_def to_model_usage_ledger_def counts_in_period_def)
  let ?db1 = "db1\<lparr>db_ledgers := t\<rparr>"
  have settled: "db_ledgers (settle_usage_reservation row i settled_at d) = db_ledgers d"
    "db_reservations d = db_reservations db \<Longrightarrow>
       db_reservations (settle_usage_reservation row i settled_at d) = db_reservations (settle_usage_reservation row i settled_at db)"
    for i d by (cases row; simp add: settle_usage_reservation_def update_reservation_def)+
  obtain db2 where charged: "charge_usage ledger x account row (reservation_ref_no reservation) settled_at db1 = (Inr (), db2)"
    and same2: "db_ledgers db2 = t" "db_reservations db2 = db_reservations (settle_usage_reservation row (ul_id l) settled_at db)"
  proof (cases "0 < x")
    case True
    obtain db3 where debit: "add_to_balance account (- x) ?db1 = (Inr (), db3)"
      using add_to_balance_ok [of ?db1 account "- x"] ok1 start(2) bal by (auto simp: accounts_ok_def)
    obtain k db4 where tx: "add_transaction (ba_id account) (ul_user_id ledger) ''usage_debit'' (- x) ?next
        ''usage_ledger'' (ul_id l) (reservation_ref_no reservation) db3 = (k, db4)" by fastforce
    have same4: "db_ledgers db4 = t" "db_reservations db4 = db_reservations db"
      using add_frame [OF debit] tx_frame [OF tx] frame by simp_all
    show thesis
    proof (rule that [of "settle_usage_reservation row (ul_id l) settled_at db4"])
      show "charge_usage ledger x account row (reservation_ref_no reservation) settled_at db1 =
          (Inr (), settle_usage_reservation row (ul_id l) settled_at db4)"
        using True new(1) debit tx by (simp add: charge_usage_def Let_def)
    qed (use same4(1) settled(1) settled(2) [OF same4(2)] in simp_all)
  next
    case False
    show thesis
    proof (rule that [of "settle_usage_reservation row (ul_id l) settled_at ?db1"])
      show "charge_usage ledger x account row (reservation_ref_no reservation) settled_at db1 =
          (Inr (), settle_usage_reservation row (ul_id l) settled_at ?db1)"
        using False new(1) by (simp add: charge_usage_def Let_def)
    qed (use settled(1) settled(2) [of ?db1] frame in simp_all)
  qed
  have "settle_period_body usage ps pe credit reservation now settled_at db =
      (Inr (usage\<lparr>ul_pricing_snapshot_json := ul_pricing_snapshot_json ledger\<rparr>), db2)"
    using begun used reserved led charged us(1) by (simp add: settle_period_body_def)
  then have result: "db' = db2"
    using u us(1) by (simp add: db' add_period_usage_and_settle_overage_def transaction_def)
  have move: "moves u (- x) (- x) db1 db2"
    using charge_usage_step [OF charged ok1 start(2)] start(3) same(4) x(1) by simp
  have "balance db2 u = wrap64 (balance db1 u - x)" "balance db1 u = balance db u"
    using move balance_of [OF ok1 start(2)] start(3,4) by (simp_all add: moves_def)
  then show "balance db' u = balance db u - x" using bal(2) by (simp add: result)
  show "accounts_ok db'" using move by (simp add: moves_def result)
  show "\<exists>i. db_reservations db' = db_reservations (settle_usage_reservation row i settled_at db)"
    using same2(2) by (auto simp: result)
  show "billed_in u ps pe db' = billed_in u ps pe db + ?billed"
    using new by (simp add: billed_in_def sum_rows_def result same2)
  show "ul_ref_no ` set (table_rows (db_ledgers db')) = insert (trim_space (ul_ref_no usage)) (ul_ref_no ` set (table_rows (db_ledgers db)))"
    using new by (simp add: result same2)
qed

text \<open>
  Requests of a period that are served one after the other: a budget is reserved or not, and the usage is settled with
  what was reserved; a request whose reservation is refused is not served. The result has the usage served.
\<close>

type_synonym served_request = "(reservation_request \<times> time) option \<times> usage_ledger \<times> time \<times> time"

fun reserve_if :: "(reservation_request \<times> time) option \<Rightarrow> billing_db \<Rightarrow> usage_reservation option tx_result" where
  "reserve_if None db = (Inr None, db)"
| "reserve_if (Some (inp, t)) db =
     (case reserve_usage_balance inp t db of (Inl e, db) \<Rightarrow> (Inl e, db) | (Inr r, db) \<Rightarrow> (Inr (Some r), db))"

fun serve_period :: "time \<Rightarrow> time \<Rightarrow> int \<Rightarrow> served_request list \<Rightarrow> billing_db \<Rightarrow> int \<times> billing_db" where
  "serve_period ps pe credit [] db = (0, db)"
| "serve_period ps pe credit ((reserve, usage, now, settled_at) # rest) db =
     (case reserve_if reserve db of
        (Inl e, db) \<Rightarrow> serve_period ps pe credit rest db
      | (Inr r, db) \<Rightarrow>
          let (served, db) = serve_period ps pe credit rest
                (billing_step (SettlePeriod usage ps pe credit r now settled_at) db)
          in (ul_billed_nanousd usage + served, db))"

definition request_in_period :: "nat \<Rightarrow> time \<Rightarrow> time \<Rightarrow> int \<Rightarrow> time \<Rightarrow> served_request \<Rightarrow> bool" where
  "request_in_period u ps pe credit t0 = (\<lambda>(reserve, usage, now, settled_at).
     t0 \<le> now \<and> (case reserve of None \<Rightarrow> True
       | Some (inp, t) \<Rightarrow> rr_user_id inp = u \<and> trim_space (rr_mode inp) = ''period'' \<and>
           rr_period_start_at inp = Some ps \<and> rr_period_end_at inp = Some pe \<and> rr_period_credit_nanousd inp = credit))"

lemma granted_frame:
  assumes "reserve_usage_balance inp now db = (Inr r, db')" "accounts_ok db"
  shows "table_rows (db_reservations db') = table_rows (db_reservations db) @ [r]" "ur_id r = table_next (db_reservations db)"
    "db_ledgers db' = db_ledgers db" "balance db' u = balance db u"
proof -
  let ?inp = "inp\<lparr>rr_ref_no := trim_space (rr_ref_no inp), rr_mode := trim_space (rr_mode inp)\<rparr>"
  have "reserve_body ?inp now db = (Inr r, db')" using assms(1)
    by (auto simp: reserve_usage_balance_def Let_def transaction_def split: if_splits prod.splits sum.splits)
  then obtain account db1 c requested where
    acc: "get_or_create_account_for_update (rr_user_id ?inp) db = (Inr account, db1)"
    and row: "create_reservation ?inp requested c now db1 = (r, db')" by (rule reserve_parts)
  have "balance db1 u = balance db u"
    using account_step(1) [OF acc assms(2), of u] in_int64_balance [OF assms(2)] by (simp add: moves_def wrap64_id)
  then show "table_rows (db_reservations db') = table_rows (db_reservations db) @ [r]" "ur_id r = table_next (db_reservations db)"
      "db_ledgers db' = db_ledgers db" "balance db' u = balance db u"
    using row account_frame [OF acc] by (auto simp: create_reservation_def create_row_def balance_def)
qed

lemma find_stronger:
  "List.find P xs = Some r \<Longrightarrow> (\<And>x. Q x \<Longrightarrow> P x) \<Longrightarrow> Q r \<Longrightarrow> List.find Q xs = Some r"
  by (induction xs) (auto split: if_splits)

lemma refused_keeps: "reserve_if reserve db = (Inl e, db') \<Longrightarrow> db' = db"
  by (cases reserve) (auto simp: reserve_usage_balance_def Let_def transaction_def split: if_splits prod.splits sum.splits)

text \<open>One request that is served, with its own reservation or without.\<close>

lemma serve_step:
  assumes ok: "usage_ok db" "accounts_ok db" and u: "u \<noteq> 0" "\<not> is_zero ps" "ps < pe" "0 \<le> credit"
    and usage: "fresh_usage u ps pe db usage" and free: "no_credit_held u ps pe t0 db"
    and inp: "request_in_period u ps pe credit t0 (reserve, usage, now, settled_at)"
    and small: "0 \<le> billed_in u ps pe db" "billed_in u ps pe db \<le> max_int64"
      "min_int64 \<le> balance db u - ul_billed_nanousd usage"
    and granted: "reserve_if reserve db = (Inr r, db1)"
    and db': "db' = billing_step (SettlePeriod usage ps pe credit r now settled_at) db1"
    and x_def: "x = max 0 (billed_in u ps pe db + ul_billed_nanousd usage - credit) - max 0 (billed_in u ps pe db - credit)"
  shows "usage_ok db'" "accounts_ok db'" "balance db' u = balance db u - x" "no_credit_held u ps pe t0 db'"
    "billed_in u ps pe db' = billed_in u ps pe db + ul_billed_nanousd usage"
    "ul_ref_no ` set (table_rows (db_ledgers db')) = insert (trim_space (ul_ref_no usage)) (ul_ref_no ` set (table_rows (db_ledgers db)))"
proof -
  have t0: "t0 \<le> now" using inp by (simp add: request_in_period_def)
  have held: "ur_period_credit_nanousd x = 0"
    if "x \<in> set (table_rows (db_reservations db))" "reserves_period u ps pe t x" "t0 \<le> t" for x t
    using free that reserves_later [OF that(2,3)] by (auto simp: no_credit_held_def list_all_iff)
  have "usage_ok db' \<and> accounts_ok db' \<and> balance db' u = balance db u - x \<and> no_credit_held u ps pe t0 db' \<and>
      billed_in u ps pe db' = billed_in u ps pe db + ul_billed_nanousd usage \<and>
      ul_ref_no ` set (table_rows (db_ledgers db')) = insert (trim_space (ul_ref_no usage)) (ul_ref_no ` set (table_rows (db_ledgers db)))"
  proof (cases reserve)
    case None
    then have same: "db1 = db" "r = None" using granted by auto
    have row: "get_usage_reservation_for_settlement db u None = Inr (None, False)"
      by (simp add: get_usage_reservation_for_settlement_def)
    have others: "\<forall>y \<in> set (table_rows (db_reservations db)). reserves_period u ps pe now y \<longrightarrow> ur_period_credit_nanousd y = 0 \<or>
        0 < (case None of None \<Rightarrow> 0 | Some x \<Rightarrow> ur_id x) \<and> ur_id y = (case None of None \<Rightarrow> 0 | Some x \<Rightarrow> ur_id x)"
      using held t0 by auto
    note step = period_step [OF ok(2) u usage row _ others small db' [unfolded same] x_def, simplified]
    have "no_credit_held u ps pe t0 db'"
      using step(3) free by (simp add: no_credit_held_def settle_usage_reservation_def)
    moreover have "usage_ok db'"
      using step_grows [OF ok(1), of "SettlePeriod usage ps pe credit None now settled_at"] by (simp only: db' same grows_ok)
    ultimately show ?thesis using step by blast
  next
    case (Some reservation)
    then obtain inp' t r' where granted': "reserve_usage_balance inp' t db = (Inr r', db1)" "r = Some r'" "reserve = Some (inp', t)"
      using granted by (cases reservation) (auto split: prod.splits sum.splits)
    note frame = granted_frame [OF granted'(1) ok(2)] and fields = granted_row [OF granted'(1)]
    have ok1: "usage_ok db1" "accounts_ok db1"
      using step_grows [OF ok(1), of "ReserveUsage inp' t"] run_grows [OF ok, of "[ReserveUsage inp' t]"] granted'(1)
      by (simp_all add: grows_ok billing_run_def)
    have r': "ur_user_id r' = u" "ur_mode r' = ''period''" "ur_period_start_at r' = Some ps" "ur_period_end_at r' = Some pe"
        "ur_period_limit_nanousd r' = credit" "ur_status r' = ReservationActive" "0 < ur_id r'"
        "ur_ref_no r' \<noteq> []" "trim_space (ur_ref_no r') = ur_ref_no r'"
      using inp fields frame(2) ok(1)
      by (auto simp: request_in_period_def granted'(3) usage_ok_def invalid_reservation_request_def)
    have "first_row (\<lambda>x. ur_user_id x = u \<and> ur_ref_no x = ur_ref_no r' \<and> (0 < ur_id r' \<longrightarrow> ur_id x = ur_id r'))
        (db_reservations db1) = Some r'"
      unfolding first_row_def
      by (rule find_stronger [OF fields(10) [unfolded find_reservation_def first_row_def]]) (simp_all add: r'(1))
    then have row: "get_usage_reservation_for_settlement db1 u r = Inr (Some r', False)"
      using r' u(1) by (simp add: granted'(2) get_usage_reservation_for_settlement_def)
    have fits: "matches_period_reservation r' ps pe credit" using r' by (simp add: matches_period_reservation_def)
    have others: "\<forall>y \<in> set (table_rows (db_reservations db1)). reserves_period u ps pe now y \<longrightarrow> ur_period_credit_nanousd y = 0 \<or>
        0 < (case Some r' of None \<Rightarrow> 0 | Some x \<Rightarrow> ur_id x) \<and> ur_id y = (case Some r' of None \<Rightarrow> 0 | Some x \<Rightarrow> ur_id x)"
      using held t0 r'(7) by (auto simp: frame(1))
    have same: "fresh_usage u ps pe db1 usage" "billed_in u ps pe db1 = billed_in u ps pe db"
      using usage by (simp_all add: fresh_usage_def billed_in_def frame(3))
    note step = period_step [OF ok1(2) u same(1) row _ others _ _ _ db', unfolded same(2) frame(3,4), OF _ small x_def]
    have fits': "\<And>x. Some r' = Some x \<Longrightarrow> matches_period_reservation x ps pe credit" using fits by simp
    note step = step [OF fits']
    obtain i where rows: "db_reservations db' = db_reservations (settle_usage_reservation (Some r') i settled_at db1)"
      using step(3) by blast
    have "\<not> reserves_period u ps pe t0 (if ur_id y = ur_id r' then y\<lparr>ur_status := ReservationSettled, ur_usage_ledger_id := i,
        ur_settled_at := Some settled_at\<rparr> else y) \<or> ur_id y \<noteq> ur_id r'" for y
      by (simp add: reserves_period_def holds_budget_def)
    then have "no_credit_held u ps pe t0 db'"
      using free unfolding no_credit_held_def rows
      by (auto simp: settle_usage_reservation_def update_reservation_def update_rows_def frame(1) list_all_iff
          reserves_period_def holds_budget_def)
    moreover have "usage_ok db'"
      using step_grows [OF ok1(1), of "SettlePeriod usage ps pe credit r now settled_at"] by (simp only: db' grows_ok)
    ultimately show ?thesis using step by blast
  qed
  then show "usage_ok db'" "accounts_ok db'" "balance db' u = balance db u - x" "no_credit_held u ps pe t0 db'"
    "billed_in u ps pe db' = billed_in u ps pe db + ul_billed_nanousd usage"
    "ul_ref_no ` set (table_rows (db_ledgers db')) = insert (trim_space (ul_ref_no usage)) (ul_ref_no ` set (table_rows (db_ledgers db)))"
    by blast+
qed

definition fresh_usages :: "nat \<Rightarrow> time \<Rightarrow> time \<Rightarrow> billing_db \<Rightarrow> served_request list \<Rightarrow> bool" where
  "fresh_usages u ps pe db requests \<longleftrightarrow> list_all (\<lambda>(reserve, usage, now, settled_at). fresh_usage u ps pe db usage) requests \<and>
     distinct (map (\<lambda>(reserve, usage, now, settled_at). trim_space (ul_ref_no usage)) requests)"

definition usage_total :: "served_request list \<Rightarrow> int" where
  "usage_total requests = sum_list (map (\<lambda>(reserve, usage, now, settled_at). ul_billed_nanousd usage) requests)"

lemma fresh_after:
  "fresh_usage u ps pe db usage \<Longrightarrow> trim_space (ul_ref_no usage) \<noteq> ref \<Longrightarrow>
     ul_ref_no ` set (table_rows (db_ledgers db')) = insert ref (ul_ref_no ` set (table_rows (db_ledgers db))) \<Longrightarrow>
     fresh_usage u ps pe db' usage"
  by (simp add: fresh_usage_def)

lemma fresh_Cons:
  assumes "fresh_usages u ps pe db ((reserve, usage, now, settled_at) # rest)"
  shows "fresh_usage u ps pe db usage" "fresh_usages u ps pe db rest"
    "ul_ref_no ` set (table_rows (db_ledgers db')) = insert (trim_space (ul_ref_no usage)) (ul_ref_no ` set (table_rows (db_ledgers db))) \<Longrightarrow>
       fresh_usages u ps pe db' rest"
proof -
  show "fresh_usage u ps pe db usage" and rest: "fresh_usages u ps pe db rest"
    using assms by (simp_all add: fresh_usages_def)
  have "trim_space (ul_ref_no usage') \<noteq> trim_space (ul_ref_no usage)" if "(a, usage', b, c) \<in> set rest" for a usage' b c
    using assms that by (force simp: fresh_usages_def image_iff)
  then show "fresh_usages u ps pe db' rest"
    if refs: "ul_ref_no ` set (table_rows (db_ledgers db')) = insert (trim_space (ul_ref_no usage)) (ul_ref_no ` set (table_rows (db_ledgers db)))"
    using rest fresh_after [OF _ _ refs] unfolding fresh_usages_def list_all_iff by blast
qed

lemma total_Cons:
  assumes "fresh_usages u ps pe db rest"
  shows "usage_total ((reserve, usage, now, settled_at) # rest) = ul_billed_nanousd usage + usage_total rest" "0 \<le> usage_total rest"
  using assms by (auto simp: usage_total_def fresh_usages_def fresh_usage_def list_all_iff intro!: sum_list_nonneg)

lemma serve_period_sum:
  assumes u: "u \<noteq> 0" "\<not> is_zero ps" "ps < pe" "0 \<le> credit"
  shows "usage_ok db \<Longrightarrow> accounts_ok db \<Longrightarrow> no_credit_held u ps pe t0 db \<Longrightarrow>
    list_all (request_in_period u ps pe credit t0) requests \<Longrightarrow> fresh_usages u ps pe db requests \<Longrightarrow>
    0 \<le> billed_in u ps pe db \<Longrightarrow> billed_in u ps pe db + usage_total requests \<le> max_int64 \<Longrightarrow>
    min_int64 \<le> balance db u - usage_total requests \<Longrightarrow>
    serve_period ps pe credit requests db = (served, db') \<Longrightarrow>
    balance db' u = balance db u - (max 0 (billed_in u ps pe db + served - credit) - max 0 (billed_in u ps pe db - credit)) \<and>
      billed_in u ps pe db' = billed_in u ps pe db + served"
proof (induction requests arbitrary: db served)
  case (Cons request rest)
  obtain reserve usage now settled_at where request: "request = (reserve, usage, now, settled_at)" by (cases request)
  note fresh = fresh_Cons [OF Cons.prems(5) [unfolded request]]
  have total: "usage_total (request # rest) = ul_billed_nanousd usage + usage_total rest" "0 \<le> usage_total rest"
    unfolding request using total_Cons [OF fresh(2)] by simp_all
  have billed: "0 \<le> ul_billed_nanousd usage" using fresh(1) by (simp add: fresh_usage_def)
  have inp: "request_in_period u ps pe credit t0 (reserve, usage, now, settled_at)"
    and inps: "list_all (request_in_period u ps pe credit t0) rest" using Cons.prems(4) by (simp_all add: request)
  show ?case
  proof (cases "reserve_if reserve db")
    case (Pair res db1)
    show ?thesis
    proof (cases res)
      case (Inl e)
      then have "db1 = db" "serve_period ps pe credit rest db1 = (served, db')"
        using refused_keeps [of reserve db e db1] Pair Cons.prems(9) by (simp_all add: request)
      then show ?thesis
        using Cons.IH [OF Cons.prems(1-3) inps fresh(2) Cons.prems(6)] Cons.prems(7,8) total billed by simp
    next
      case (Inr r)
      define db2 where "db2 = billing_step (SettlePeriod usage ps pe credit r now settled_at) db1"
      define x where "x = max 0 (billed_in u ps pe db + ul_billed_nanousd usage - credit) - max 0 (billed_in u ps pe db - credit)"
      obtain s where s: "serve_period ps pe credit rest db2 = (s, db')" "served = ul_billed_nanousd usage + s"
        using Cons.prems(9) Pair Inr by (auto simp: request db2_def split: prod.splits)
      have bounds: "billed_in u ps pe db \<le> max_int64" "min_int64 \<le> balance db u - ul_billed_nanousd usage"
        using Cons.prems(7,8) total billed by simp_all
      note step = serve_step [OF Cons.prems(1,2) u fresh(1) Cons.prems(3) inp Cons.prems(6) bounds Pair [unfolded Inr] db2_def x_def]
      have "x \<le> ul_billed_nanousd usage" using billed unfolding x_def by auto
      then have "min_int64 \<le> balance db2 u - usage_total rest" "billed_in u ps pe db2 + usage_total rest \<le> max_int64"
        "0 \<le> billed_in u ps pe db2"
        using Cons.prems(6,7,8) total billed step(3,5) by simp_all
      then have "balance db' u = balance db2 u - (max 0 (billed_in u ps pe db2 + s - credit) - max 0 (billed_in u ps pe db2 - credit)) \<and>
          billed_in u ps pe db' = billed_in u ps pe db2 + s"
        using Cons.IH [OF step(1,2,4) inps fresh(3) [OF step(6)] _ _ _ s(1)] by blast
      then show ?thesis using step(3,5) s(2) by (simp add: x_def algebra_simps)
    qed
  qed
qed simp

text \<open>
  C17. When the requests of a period are served one after the other, each with a reservation of its own for this period or with
  none, and no other reservation of the period that counts from then on holds credit, the user pays exactly what
  the usage of the period goes over its credit: the balance falls by the overage after the last request
  less the overage before the first one, and the usage of the period grows by what was served. A request whose
  reservation is refused is not served and costs nothing. The usages are of the user, in the period, of models that are not free and
  under reference numbers not used yet, and the sums fit an int64. The history before is any; reservations that are settled, released or
  expired, and those of other periods, may hold what they like. When requests overlap, so that several reservations hold
  credit at once, the amount may differ.
\<close>
theorem period_overage_exact:
  assumes "u \<noteq> 0" "\<not> is_zero ps" "ps < pe" "0 \<le> credit" and "db = billing_run history empty_db"
    and "no_credit_held u ps pe t0 db" "list_all (request_in_period u ps pe credit t0) requests"
    and "fresh_usages u ps pe db requests"
    and "0 \<le> billed_in u ps pe db" "billed_in u ps pe db + usage_total requests \<le> max_int64"
      "min_int64 \<le> balance db u - usage_total requests"
    and "serve_period ps pe credit requests db = (served, db')"
  shows "balance db' u = balance db u - (max 0 (billed_in u ps pe db + served - credit) - max 0 (billed_in u ps pe db - credit)) \<and>
    billed_in u ps pe db' = billed_in u ps pe db + served"
  using serve_period_sum [OF assms(1-4)] run_from_empty assms(5-12) by blast

text \<open>
  The history holds a settled and an active reservation of another kind; the first request is reserved, the second is not, the
  third asks for more than is there and is refused.
\<close>

definition sample_requests :: "served_request list" where
  "sample_requests = [(Some (period_request 7 ''d'' 60 100, 45), sample_usage 7 ''ud'' 70 50, 50, 50),
     (None, sample_usage 7 ''ue'' 80 60, 60, 60),
     (Some (period_request 7 ''f'' 5000 100, 65), sample_usage 7 ''uf'' 5 70, 70, 70)]"

definition served_history :: "billing_op list" where
  "served_history = [SetBalance 7 1000 ''top'', ReserveUsage (period_request 7 ''a'' 60 100) 20,
     SettlePeriod (sample_usage 7 ''ua'' 60 30) 10 1000 100 (Some (sample_reservation 7 ''a'')) 41 41,
     ReserveUsage (usage_request 7 ''h'' 300) 42]"

theorem period_overage_exact_witness:
  "let db = billing_run served_history empty_db; res = serve_period 10 1000 100 sample_requests db
   in billed_in 7 10 1000 db = 60 \<and> fst res = 150 \<and> balance (snd res) 7 = balance db 7 - 110"
proof -
  let ?db = "billing_run served_history empty_db" and ?res = "serve_period 10 1000 100 sample_requests (billing_run served_history empty_db)"
  have billed: "billed_in 7 10 1000 ?db = 60" and served: "fst ?res = 150" by code_simp+
  have facts: "no_credit_held 7 10 1000 43 ?db" "list_all (request_in_period 7 10 1000 100 43) sample_requests"
    "fresh_usages 7 10 1000 ?db sample_requests" "usage_total sample_requests = 155" "balance ?db 7 = 1000" by code_simp+
  have ready: "(7::nat) \<noteq> 0" "\<not> is_zero 10" "(10::time) < 1000" "(0::int) \<le> 100" "0 \<le> billed_in 7 10 1000 ?db"
    "billed_in 7 10 1000 ?db + usage_total sample_requests \<le> max_int64" "min_int64 \<le> balance ?db 7 - usage_total sample_requests"
    unfolding billed facts by (simp_all add: min_int64_def max_int64_def is_zero_def zero_time_def)
  have "balance (snd ?res) 7 = balance ?db 7 - (max 0 (60 + 150 - 100) - max 0 (60 - 100))"
    using period_overage_exact [OF ready(1-4) refl facts(1-3) ready(5-7) prod.collapse [symmetric], unfolded billed served] by (rule conjunct1)
  then show ?thesis using billed served by (simp add: Let_def)
qed

section \<open>Reservations that share the credit\<close>

text \<open>
  User 7 has 100 of credit left in the period. The requests a and b, of 60 and 140, are reserved one after
  the other: a holds 60 of the credit, b the other 40 and 100 of the balance. When b is settled first,
  the 60 that a holds are not available to it and it pays an overage of 100. When a is settled then, all
  140 of b count as used, with the 100 that were paid, and a pays its 60 as well: 160 are charged for a
  usage of 200 with a credit of 100. In the other order, or without reservations, 100 are charged.
\<close>

lemma reservations_change_the_charge:
  "let settle_a = SettlePeriod (sample_usage 7 ''ua'' 60 30) 10 1000 100 (Some (sample_reservation 7 ''a'')) 41 41;
       settle_b = SettlePeriod (sample_usage 7 ''ub'' 140 31) 10 1000 100 (Some (sample_reservation 7 ''b'')) 40 40
   in balance (billing_run (period_history @ [settle_b, settle_a]) empty_db) 7 = 1000 - 160 \<and>
      balance (billing_run (period_history @ [settle_a, settle_b]) empty_db) 7 = 1000 - 100"
  by code_simp

end
