(* ===== verification/Schedule.thy ===== *)
theory Schedule
  imports Prelude
begin

text \<open>
  Prices by the time of day (application/billing/schedule_pricing.go). A model can have up to 32 periods of
  the week in which its price is multiplied; a configuration is accepted when no two periods overlap.
  The minute of the week is read off the server's clock, so the weekday, hour and minute of an instant
  are a parameter here. encoding/json is a pair of functions.
\<close>

section \<open>Periods\<close>

definition minutes_per_day :: int where
  "minutes_per_day = 24 * 60"

text \<open>What the JSON holds of a period, and with it the two minutes of the day.\<close>

record period_config =
  pc_name :: string
  pc_weekdays :: "int list"
  pc_start :: string
  pc_end :: string
  pc_rate_percent :: int

record schedule_period = period_config +
  sp_start_minute :: int
  sp_end_minute :: int

record schedule_codec =
  decode_periods :: "string \<Rightarrow> period_config list option"
  encode_periods :: "period_config list \<Rightarrow> string"

text \<open>\<open>time.Parse("15:04", value)\<close>: one or two digits of the hour, a colon, two digits.\<close>

definition parse_clock :: "string \<Rightarrow> (int \<times> int) option" where
  "parse_clock value =
     (let digits = length (takeWhile is_digit (take 2 value));
          rest = drop digits value; minutes = drop 1 rest
      in if digits = 0 \<or> take 1 rest \<noteq> '':'' \<or> length minutes \<noteq> 2 \<or> \<not> list_all is_digit minutes then None
         else
           let h = int (undec (take digits value)); m = int (undec minutes)
           in if 24 \<le> h \<or> 60 \<le> m then None else Some (h, m))"

definition parse_clock_minute :: "string \<Rightarrow> int option" where
  "parse_clock_minute value = map_option (\<lambda>(h, m). h * 60 + m) (parse_clock (trim_space value))"

text \<open>\<open>fmt.Sprintf("%02d:%02d")\<close> of a minute of the day.\<close>

definition two_digits :: "int \<Rightarrow> string" where
  "two_digits n = (if n < 10 then CHR ''0'' # dec (nat n) else dec (nat n))"

definition format_clock :: "int \<Rightarrow> string" where
  "format_clock m = two_digits (m div 60) @ '':'' @ two_digits (m mod 60)"

section \<open>The minutes of the week\<close>

text \<open>The spans of a period in the week; one that passes midnight is cut in two, and Saturday's runs into Sunday.\<close>

definition day_spans :: "schedule_period \<Rightarrow> int \<Rightarrow> (int \<times> int) list" where
  "day_spans p weekday =
     (let base = weekday * minutes_per_day
      in if sp_start_minute p < sp_end_minute p then [(base + sp_start_minute p, base + sp_end_minute p)]
         else let nxt = ((weekday + 1) mod 7) * minutes_per_day
              in [(base + sp_start_minute p, base + minutes_per_day), (nxt, nxt + sp_end_minute p)])"

definition week_minute_spans :: "schedule_period \<Rightarrow> (int \<times> int) list" where
  "week_minute_spans p = concat (map (day_spans p) (pc_weekdays p))"

fun adjacent_overlap :: "(int \<times> int) list \<Rightarrow> bool" where
  "adjacent_overlap (a # b # spans) \<longleftrightarrow> fst b < snd a \<or> adjacent_overlap (b # spans)"
| "adjacent_overlap _ \<longleftrightarrow> False"

definition schedule_periods_overlap :: "schedule_period list \<Rightarrow> bool" where
  "schedule_periods_overlap periods =
     adjacent_overlap (sort_key fst (filter (\<lambda>(a, b). a < b) (concat (map week_minute_spans periods))))"

section \<open>Configurations\<close>

definition max_schedule_periods :: nat where
  "max_schedule_periods = 32"

definition max_schedule_period_name :: nat where
  "max_schedule_period_name = 32"

definition min_schedule_rate_percent :: int where
  "min_schedule_rate_percent = 1"

definition max_schedule_rate_percent :: int where
  "max_schedule_rate_percent = 10000"

definition parse_period :: "period_config \<Rightarrow> schedule_period option" where
  "parse_period c =
     (let name = trim_space (pc_name c)
      in if name = [] \<or> max_schedule_period_name < length (runes name) then None
         else if pc_rate_percent c < min_schedule_rate_percent \<or> max_schedule_rate_percent < pc_rate_percent c then None
         else if pc_weekdays c = [] \<or> \<not> list_all (\<lambda>w. 0 \<le> w \<and> w \<le> 6) (pc_weekdays c) \<or> \<not> distinct (pc_weekdays c)
         then None
         else case (parse_clock_minute (pc_start c), parse_clock_minute (pc_end c)) of
           (Some s, Some e) \<Rightarrow>
             if s = e then None
             else Some \<lparr>pc_name = name, pc_weekdays = sort (pc_weekdays c), pc_start = format_clock s,
                        pc_end = format_clock e, pc_rate_percent = pc_rate_percent c,
                        sp_start_minute = s, sp_end_minute = e\<rparr>
         | _ \<Rightarrow> None)"

text \<open>\<open>None\<close> is an invalid configuration, \<open>Some []\<close> one without periods.\<close>

definition parse_schedule_periods :: "schedule_codec \<Rightarrow> string \<Rightarrow> schedule_period list option" where
  "parse_schedule_periods js raw =
     (let raw = trim_space raw
      in if raw = [] \<or> raw = ''{}'' then Some []
         else case decode_periods js raw of
           None \<Rightarrow> None
         | Some configs \<Rightarrow>
             if configs = [] then Some []
             else if max_schedule_periods < length configs then None
             else case those (map parse_period configs) of
               None \<Rightarrow> None
             | Some periods \<Rightarrow> if schedule_periods_overlap periods then None else Some periods)"

definition normalize_schedule_pricing_json :: "schedule_codec \<Rightarrow> string \<Rightarrow> string option" where
  "normalize_schedule_pricing_json js raw =
     (case parse_schedule_periods js raw of
        None \<Rightarrow> None
      | Some periods \<Rightarrow>
          Some (if periods = [] then ''{}'' else encode_periods js (map period_config.truncate periods)))"

section \<open>The period of an instant\<close>

record local_clock =
  lc_weekday :: int
  lc_hour :: int
  lc_minute :: int

definition week_minute :: "local_clock \<Rightarrow> int" where
  "week_minute c = lc_weekday c * minutes_per_day + lc_hour c * 60 + lc_minute c"

definition in_spans :: "int \<Rightarrow> (int \<times> int) list \<Rightarrow> bool" where
  "in_spans m spans = list_ex (\<lambda>(a, b). a \<le> m \<and> m < b) spans"

definition resolve_schedule_period :: "schedule_period list \<Rightarrow> local_clock \<Rightarrow> (string \<times> int) option" where
  "resolve_schedule_period periods c =
     map_option (\<lambda>p. (pc_name p, pc_rate_percent p))
       (List.find (\<lambda>p. in_spans (week_minute c) (week_minute_spans p)) periods)"

definition resolve_schedule_period_json :: "schedule_codec \<Rightarrow> string \<Rightarrow> local_clock \<Rightarrow> (string \<times> int) option" where
  "resolve_schedule_period_json js raw c =
     (case parse_schedule_periods js raw of None \<Rightarrow> None | Some periods \<Rightarrow> resolve_schedule_period periods c)"

end
