(* ===== verification/Schedule_Props.thy ===== *)
theory Schedule_Props
  imports Schedule "HOL-Library.Multiset"
begin

text \<open>
  A configuration that is accepted has at most one period for each minute of the week, so the order of its
  periods does not matter; and what is stored of it reads back as the same periods.
\<close>

section \<open>Disjoint spans\<close>

definition before :: "int \<times> int \<Rightarrow> int \<times> int \<Rightarrow> bool" where
  "before x y \<longleftrightarrow> fst x < snd x \<and> fst y < snd y \<and> snd x \<le> fst y"

definition covering :: "int \<Rightarrow> (int \<times> int) list \<Rightarrow> nat" where
  "covering m spans = length (filter (\<lambda>(a, b). a \<le> m \<and> m < b) spans)"

lemma not_adjacent_before:
  assumes "\<forall>x \<in> set spans. fst x < snd x" "\<not> adjacent_overlap spans"
  shows "sorted_wrt before spans"
proof -
  have "successively before spans"
    using assms by (induction spans rule: adjacent_overlap.induct) (auto simp: before_def)
  moreover have "transp before" by (auto simp: transp_def before_def)
  ultimately show ?thesis by (simp add: successively_conv_sorted_wrt)
qed

lemma covering_before: "sorted_wrt before spans \<Longrightarrow> covering m spans \<le> 1"
proof (induction spans)
  case (Cons x xs)
  show ?case
  proof (cases "fst x \<le> m \<and> m < snd x")
    case True
    then have "filter (\<lambda>(a, b). a \<le> m \<and> m < b) xs = []"
      using Cons.prems by (fastforce simp: filter_empty_conv before_def)
    then show ?thesis by (simp add: covering_def)
  next
    case False
    then show ?thesis using Cons by (auto simp: covering_def split_beta)
  qed
qed (simp add: covering_def)

text \<open>Conversely, two spans next to each other that overlap share a minute.\<close>

lemma adjacent_covering:
  assumes "adjacent_overlap spans" "sorted (map fst spans)" "\<forall>x \<in> set spans. fst x < snd x"
  shows "\<exists>m. 2 \<le> covering m spans"
  using assms
proof (induction spans rule: adjacent_overlap.induct)
  case (1 a b spans)
  show ?case
  proof (cases "fst b < snd a")
    case True
    then have "2 \<le> covering (fst b) (a # b # spans)" using "1.prems"(2,3) by (auto simp: covering_def split_beta)
    then show ?thesis by blast
  next
    case False
    then obtain m where "2 \<le> covering m (b # spans)" using 1 by auto
    then have "2 \<le> covering m (a # b # spans)" by (auto simp: covering_def split_beta split: if_splits)
    then show ?thesis by blast
  qed
qed simp_all

lemma covering_mset: "mset xs = mset ys \<Longrightarrow> covering m xs = covering m ys"
  unfolding covering_def by (metis mset_filter size_mset)

definition all_spans :: "schedule_period list \<Rightarrow> (int \<times> int) list" where
  "all_spans periods = concat (map week_minute_spans periods)"

lemma covering_nonempty: "covering m (filter (\<lambda>(a, b). a < b) spans) = covering m spans"
  unfolding covering_def filter_filter by (rule arg_cong [of _ _ length], rule filter_cong) auto

text \<open>
  C30. The overlap check is exact. Sorting the spans of a week and comparing neighbours finds an overlap
  if and only if some minute of the week lies in two spans of the configuration.
\<close>
theorem overlap_check_exact:
  "schedule_periods_overlap periods = (\<exists>m. 2 \<le> covering m (all_spans periods))"
proof -
  let ?spans = "filter (\<lambda>(a, b). a < b) (all_spans periods)"
  let ?sorted = "sort_key fst ?spans"
  have proper: "\<forall>x \<in> set ?sorted. fst x < snd x" by auto
  have same: "covering m ?sorted = covering m (all_spans periods)" for m
    using covering_mset [of ?sorted ?spans] covering_nonempty by simp
  have "sorted (map fst ?sorted)" by simp
  then have "adjacent_overlap ?sorted \<longleftrightarrow> (\<exists>m. 2 \<le> covering m ?sorted)"
    using adjacent_covering [OF _ _ proper] covering_before [OF not_adjacent_before [OF proper]]
    by (metis Suc_1 Suc_n_not_le_n le_trans)
  then show ?thesis unfolding same by (simp add: schedule_periods_overlap_def all_spans_def)
qed

section \<open>One period at a time\<close>

lemma parsed_disjoint: "parse_schedule_periods js raw = Some periods \<Longrightarrow> \<not> schedule_periods_overlap periods"
  by (auto simp: parse_schedule_periods_def Let_def schedule_periods_overlap_def split: if_splits option.splits)

lemma in_spans_covering: "in_spans m spans \<longleftrightarrow> 1 \<le> covering m spans"
  by (induction spans) (auto simp: in_spans_def covering_def)

lemma covering_append: "covering m (xs @ ys) = covering m xs + covering m ys"
  by (simp add: covering_def)

lemma matching_periods:
  "length (filter (\<lambda>p. in_spans m (week_minute_spans p)) periods) \<le> covering m (all_spans periods)"
proof (induction periods)
  case (Cons p ps)
  then show ?case
    using in_spans_covering [of m "week_minute_spans p"] by (auto simp: all_spans_def covering_append)
qed (simp add: all_spans_def)

lemma find_filter: "List.find P xs = (case filter P xs of [] \<Rightarrow> None | x # _ \<Rightarrow> Some x)"
  by (induction xs) auto

text \<open>
  At any time at most one period of an accepted configuration applies, and it is found whatever order
  the periods are listed in.
\<close>
theorem one_period_at_a_time:
  assumes "parse_schedule_periods js raw = Some periods" "mset listed = mset periods"
  shows "length (filter (\<lambda>p. in_spans (week_minute c) (week_minute_spans p)) periods) \<le> 1 \<and>
    resolve_schedule_period listed c = resolve_schedule_period_json js raw c"
proof -
  let ?P = "\<lambda>p. in_spans (week_minute c) (week_minute_spans p)"
  have one: "length (filter ?P periods) \<le> 1"
    using matching_periods [of "week_minute c" periods] parsed_disjoint [OF assms(1)] overlap_check_exact [of periods]
    by (metis Suc_1 le_trans not_less_eq_eq)
  have "mset (filter ?P listed) = mset (filter ?P periods)" using assms(2) by (metis mset_filter)
  then have "filter ?P listed = filter ?P periods"
    using one by (cases "filter ?P periods"; cases "tl (filter ?P periods)") (simp_all del: mset_filter)
  then show ?thesis
    using one assms(1) by (simp add: resolve_schedule_period_json_def resolve_schedule_period_def find_filter)
qed

section \<open>What is stored\<close>

lemma two_digits_chars:
  assumes "0 \<le> n" "n < 100"
  shows "two_digits n = [digit (nat n div 10), digit (nat n mod 10)]"
proof (cases "n < 10")
  case True
  then have "nat n div 10 = 0" using assms by (simp add: nat_div_distrib)
  moreover have "CHR ''0'' = digit 0" by code_simp
  ultimately show ?thesis using True assms by (simp add: two_digits_def dec.simps)
next
  case False
  then have "nat n div 10 < 10" "\<not> nat n < 10" using assms by auto
  then show ?thesis using False by (simp add: two_digits_def dec.simps [of "nat n"] dec.simps [of "nat n div 10"])
qed

lemma parse_clock_digits:
  assumes "a < 10" "b < 10" "c < 10" "d < 10" "10 * a + b < 24" "10 * c + d < 60"
  shows "parse_clock [digit a, digit b, CHR '':'', digit c, digit d] = Some (int (10 * a + b), int (10 * c + d))"
proof -
  have "undec [digit a, digit b] = 10 * a + b" "undec [digit c, digit d] = 10 * c + d"
    using assms by (simp_all add: undec_def digit_value_digit)
  then show ?thesis
    using assms by (simp add: parse_clock_def Let_def is_digit_digit not_digit_colon)
qed

lemma parse_format_clock:
  assumes "0 \<le> m" "m < minutes_per_day"
  shows "parse_clock_minute (format_clock m) = Some m"
proof -
  obtain h k where hk: "m div 60 = int h" "m mod 60 = int k" "h < 24" "k < 60"
  proof
    show "m div 60 = int (nat (m div 60))" "m mod 60 = int (nat (m mod 60))" "nat (m div 60) < 24" "nat (m mod 60) < 60"
      using assms by (simp_all add: minutes_per_day_def nat_less_iff)
  qed
  then have m: "m = int h * 60 + int k" by (metis div_mult_mod_eq)
  define a b c d where "a = h div 10" and "b = h mod 10" and "c = k div 10" and "d = k mod 10"
  have digits: "a < 10" "b < 10" "c < 10" "d < 10" "10 * a + b = h" "10 * c + d = k"
    using hk by (simp_all add: a_def b_def c_def d_def less_mult_imp_div_less)
  have shape: "format_clock m = [digit a, digit b, CHR '':'', digit c, digit d]"
    using hk by (simp add: format_clock_def two_digits_chars a_def b_def c_def d_def)
  have "plain_char (digit k)" if "k < 10" for k
    using is_digit_digit [OF that] by (simp add: plain_char_def byte_in_def is_digit_def)
  then have "trim_space (format_clock m) = format_clock m"
    using digits(1-4) by (intro trim_space_ends) (simp_all add: shape)
  moreover have "parse_clock (format_clock m) = Some (int h, int k)"
    unfolding shape using parse_clock_digits [OF digits(1-4)] hk(3,4) by (simp only: digits(5,6))
  ultimately show ?thesis by (simp add: parse_clock_minute_def m)
qed

lemma parse_clock_range: "parse_clock_minute s = Some m \<Longrightarrow> 0 \<le> m \<and> m < minutes_per_day"
  by (auto simp: parse_clock_minute_def parse_clock_def Let_def minutes_per_day_def split: if_splits)

lemma reparse_period:
  assumes "parse_period c = Some p"
  shows "parse_period (period_config.truncate p) = Some p"
proof -
  obtain s e where clock: "parse_clock_minute (pc_start c) = Some s" "parse_clock_minute (pc_end c) = Some e" "s \<noteq> e"
    and p: "p = \<lparr>pc_name = trim_space (pc_name c), pc_weekdays = sort (pc_weekdays c), pc_start = format_clock s,
      pc_end = format_clock e, pc_rate_percent = pc_rate_percent c, sp_start_minute = s, sp_end_minute = e\<rparr>"
    using assms by (auto simp: parse_period_def Let_def split: if_splits option.splits)
  have "parse_clock_minute (format_clock s) = Some s" "parse_clock_minute (format_clock e) = Some e"
    using parse_format_clock parse_clock_range [OF clock(1)] parse_clock_range [OF clock(2)] by simp_all
  moreover have "sort (pc_weekdays c) \<noteq> [] \<longleftrightarrow> pc_weekdays c \<noteq> []" "sort (sort (pc_weekdays c)) = sort (pc_weekdays c)"
    by (metis length_0_conv length_sort, simp add: sorted_sort_id)
  ultimately show ?thesis
    using assms clock by (auto simp: p parse_period_def Let_def period_config.truncate_def list_all_iff split: if_splits)
qed

lemma reparse_periods:
  "those (map parse_period configs) = Some periods \<Longrightarrow>
     those (map parse_period (map period_config.truncate periods)) = Some periods"
proof (induction configs arbitrary: periods)
  case (Cons c cs)
  then obtain p ps where "parse_period c = Some p" "those (map parse_period cs) = Some ps" "periods = p # ps"
    by (auto split: option.splits)
  then show ?case using Cons.IH reparse_period by simp
qed simp

lemma those_length: "those xs = Some ys \<Longrightarrow> length ys = length xs"
  by (induction xs arbitrary: ys) (auto split: option.splits)

text \<open>
  A stored configuration reads back. When encoding/json decodes what it encoded, the normal form of an
  accepted configuration is parsed to the same periods, and normalising it again changes nothing.
\<close>
theorem stored_schedule_roundtrip:
  assumes periods: "parse_schedule_periods js raw = Some periods"
    and out: "normalize_schedule_pricing_json js raw = Some out"
    and codec: "decode_periods js (trim_space (encode_periods js (map period_config.truncate periods))) =
      Some (map period_config.truncate periods)"
    "trim_space (encode_periods js (map period_config.truncate periods)) \<notin> {[], ''{}''}"
  shows "parse_schedule_periods js out = Some periods \<and> normalize_schedule_pricing_json js out = Some out"
proof -
  have out: "out = (if periods = [] then ''{}'' else encode_periods js (map period_config.truncate periods))"
    using out periods by (simp add: normalize_schedule_pricing_json_def)
  have "parse_schedule_periods js out = Some periods"
  proof (cases "periods = []")
    case True
    have "trim_space ''{}'' = ''{}''" by code_simp
    then show ?thesis using True by (simp add: out parse_schedule_periods_def)
  next
    case False
    then obtain configs where "those (map parse_period configs) = Some periods" "length configs \<le> max_schedule_periods"
      using periods by (auto simp: parse_schedule_periods_def Let_def split: if_splits option.splits)
    moreover from this have "length periods \<le> max_schedule_periods" using those_length by fastforce
    ultimately show ?thesis
      using False codec reparse_periods parsed_disjoint [OF periods]
      by (simp add: out parse_schedule_periods_def Let_def)
  qed
  then show ?thesis using out by (simp add: normalize_schedule_pricing_json_def)
qed

section \<open>An example\<close>

text \<open>Two periods, the second past midnight from Saturday into Sunday, as they are typed and as they are stored.\<close>

definition typed_periods :: "period_config list" where
  "typed_periods =
     [\<lparr>pc_name = '' peak '', pc_weekdays = [5, 1], pc_start = ''8:00'', pc_end = ''12:30'', pc_rate_percent = 150\<rparr>,
      \<lparr>pc_name = ''night'', pc_weekdays = [6], pc_start = ''23:00'', pc_end = ''07:00'', pc_rate_percent = 50\<rparr>]"

definition stored_periods :: "period_config list" where
  "stored_periods =
     [\<lparr>pc_name = ''peak'', pc_weekdays = [1, 5], pc_start = ''08:00'', pc_end = ''12:30'', pc_rate_percent = 150\<rparr>,
      \<lparr>pc_name = ''night'', pc_weekdays = [6], pc_start = ''23:00'', pc_end = ''07:00'', pc_rate_percent = 50\<rparr>]"

definition sample_codec :: schedule_codec where
  "sample_codec =
     \<lparr>decode_periods = (\<lambda>s. if s = ''typed'' then Some typed_periods else if s = ''stored'' then Some stored_periods else None),
      encode_periods = (\<lambda>cs. ''stored'')\<rparr>"

lemma sample_parsed:
  "map_option (map period_config.truncate) (parse_schedule_periods sample_codec ''typed'') = Some stored_periods"
  by code_simp

lemma sample_periods:
  obtains periods where "parse_schedule_periods sample_codec ''typed'' = Some periods"
    "map period_config.truncate periods = stored_periods"
  using sample_parsed by auto

theorem one_period_at_a_time_witness:
  "\<exists>periods. parse_schedule_periods sample_codec ''typed'' = Some periods \<and>
     resolve_schedule_period (rev periods) \<lparr>lc_weekday = 0, lc_hour = 6, lc_minute = 59\<rparr> = Some (''night'', 50)"
proof -
  let ?c = "\<lparr>lc_weekday = 0, lc_hour = 6, lc_minute = 59\<rparr>"
  obtain periods where p: "parse_schedule_periods sample_codec ''typed'' = Some periods" by (rule sample_periods)
  have "mset (rev periods) = mset periods" by simp
  note found = one_period_at_a_time [OF p this, of ?c]
  have "resolve_schedule_period_json sample_codec ''typed'' ?c = Some (''night'', 50)" by code_simp
  with found p show ?thesis by simp
qed

theorem stored_schedule_roundtrip_witness:
  "normalize_schedule_pricing_json sample_codec ''typed'' = Some ''stored'' \<and>
   (\<exists>periods. parse_schedule_periods sample_codec ''stored'' = Some periods)"
proof -
  obtain periods where p: "parse_schedule_periods sample_codec ''typed'' = Some periods"
    "map period_config.truncate periods = stored_periods" by (rule sample_periods)
  have "periods \<noteq> []" using p(2) by (auto simp: stored_periods_def)
  then have out: "normalize_schedule_pricing_json sample_codec ''typed'' = Some ''stored''"
    using p(1) by (simp add: normalize_schedule_pricing_json_def) (simp add: sample_codec_def)
  have trim: "trim_space ''stored'' = ''stored''" by code_simp
  have "parse_schedule_periods sample_codec ''stored'' = Some periods"
    using stored_schedule_roundtrip [OF p(1) out] trim unfolding p(2) by (simp add: sample_codec_def)
  with out show ?thesis by blast
qed

end
