(* ===== verification/Entitlement.thy ===== *)
theory Entitlement
  imports Subscriptions
begin

text \<open>
  What a user is entitled to now (application/billing/service.go). The active rows of the user are read
  with their plans, the one of the highest rank is the current subscription, its end is carried on over
  adjoining rows of the same plan, and the rows are shown merged. The name and description of a plan are
  left out, and the bounds of a month come from the calendar of the server, a parameter.
\<close>

section \<open>Reading the rows\<close>

text \<open>The order of the query: NULL ends last.\<close>

definition entitlement_order :: "subscription_row \<Rightarrow> nat \<times> time \<times> (bool \<times> time) \<times> nat" where
  "entitlement_order r =
     (sub_user_id r, sub_period_start_at r,
      (case sub_period_end_at r of None \<Rightarrow> (True, 0) | Some e \<Rightarrow> (False, e)), sub_id r)"

definition list_subscription_entitlements_by_user_ids :: "billing_db \<Rightarrow> nat list \<Rightarrow> time \<Rightarrow> subscription_row list" where
  "list_subscription_entitlements_by_user_ids db user_ids now =
     sort_key entitlement_order
       (filter (\<lambda>r. List.member user_ids (sub_user_id r) \<and> sub_status r = ''active'' \<and>
          (case sub_period_end_at r of None \<Rightarrow> True | Some e \<Rightarrow> now < e)) (table_rows (db_subscriptions db)))"

definition list_plans_by_ids :: "billing_db \<Rightarrow> nat list \<Rightarrow> billing_plan list" where
  "list_plans_by_ids db ids = filter (\<lambda>p. List.member ids (plan_id p)) (table_rows (db_plans db))"

definition get_active_plan_by_code :: "billing_db \<Rightarrow> string \<Rightarrow> billing_error + billing_plan" where
  "get_active_plan_by_code db code =
     (case first_row (\<lambda>p. plan_code p = trim_space code \<and> plan_is_active p) (db_plans db) of
        None \<Rightarrow> Inl ErrNotFound | Some p \<Rightarrow> Inr p)"

definition list_subscription_entitlements ::
  "billing_db \<Rightarrow> nat list \<Rightarrow> time \<Rightarrow> subscription_row list \<times> (nat \<rightharpoonup> billing_plan)" where
  "list_subscription_entitlements db user_ids now =
     (let subscriptions = list_subscription_entitlements_by_user_ids db user_ids now;
          plans = list_plans_by_ids db (append_subscription_plan_id subscriptions [])
      in (subscriptions, map_of (map (\<lambda>p. (plan_id p, p)) (rev plans))))"

section \<open>The current subscription\<close>

text \<open>\<open>time.Date(9999, 12, 31, 23, 59, 59, 0, time.UTC)\<close>: 3652058 days after \<open>zero_time\<close>.\<close>

definition subscription_end_sort_time :: "subscription_row \<Rightarrow> time" where
  "subscription_end_sort_time r =
     (case sub_period_end_at r of None \<Rightarrow> (3652058 * 86400 + 86399) * second | Some e \<Rightarrow> e)"

text \<open>The rank of a plan; an id without a plan has the zero plan, whose rank is 0.\<close>

definition rank_of :: "(nat \<rightharpoonup> billing_plan) \<Rightarrow> subscription_row \<Rightarrow> int" where
  "rank_of plans r = (case plans (sub_plan_id r) of None \<Rightarrow> 0 | Some p \<Rightarrow> subscription_plan_rank p)"

definition is_higher_priority_subscription ::
  "(nat \<rightharpoonup> billing_plan) \<Rightarrow> subscription_row \<Rightarrow> subscription_row \<Rightarrow> bool" where
  "is_higher_priority_subscription plans candidate current =
     (if rank_of plans candidate \<noteq> rank_of plans current
      then rank_of plans current < rank_of plans candidate
      else if subscription_end_sort_time candidate \<noteq> subscription_end_sort_time current
      then subscription_end_sort_time current < subscription_end_sort_time candidate
      else sub_id current < sub_id candidate)"

definition entitles :: "(nat \<rightharpoonup> billing_plan) \<Rightarrow> time \<Rightarrow> subscription_row \<Rightarrow> bool" where
  "entitles plans now r =
     (if sub_status r \<noteq> ''active'' \<or> now < sub_period_start_at r then False
      else if (case sub_period_end_at r of None \<Rightarrow> False | Some e \<Rightarrow> \<not> now < e) then False
      else case plans (sub_plan_id r) of None \<Rightarrow> False | Some p \<Rightarrow> plan_is_active p)"

fun select_from ::
  "(nat \<rightharpoonup> billing_plan) \<Rightarrow> time \<Rightarrow> subscription_row option \<Rightarrow> subscription_row list \<Rightarrow> subscription_row option" where
  "select_from plans now result [] = result"
| "select_from plans now result (item # items) =
     (if \<not> entitles plans now item then select_from plans now result items
      else case result of
        None \<Rightarrow> select_from plans now (Some item) items
      | Some current \<Rightarrow>
          select_from plans now
            (Some (if is_higher_priority_subscription plans item current then item else current)) items)"

definition select_current_subscription ::
  "subscription_row list \<Rightarrow> (nat \<rightharpoonup> billing_plan) \<Rightarrow> time \<Rightarrow> subscription_row option" where
  "select_current_subscription subscriptions plans now = select_from plans now None subscriptions"

section \<open>The end of the entitlement\<close>

definition extends_end :: "subscription_row \<Rightarrow> time \<Rightarrow> subscription_row \<Rightarrow> time option" where
  "extends_end current end_at item =
     (if sub_id item = sub_id current \<or> sub_plan_id item \<noteq> sub_plan_id current then None
      else case sub_period_end_at item of
        None \<Rightarrow> None
      | Some e \<Rightarrow> if end_at < sub_period_start_at item \<or> \<not> end_at < e then None else Some e)"

text \<open>One pass over the rows; it has extended the end when the result is another one.\<close>

fun extend_pass :: "subscription_row \<Rightarrow> subscription_row list \<Rightarrow> time \<Rightarrow> time" where
  "extend_pass current [] end_at = end_at"
| "extend_pass current (item # items) end_at =
     extend_pass current items (case extends_end current end_at item of None \<Rightarrow> end_at | Some e \<Rightarrow> e)"

lemma extends_endD:
  "extends_end current end_at item = Some e \<Longrightarrow>
     sub_period_end_at item = Some e \<and> end_at < e \<and> sub_period_start_at item \<le> end_at \<and>
     sub_plan_id item = sub_plan_id current \<and> sub_id item \<noteq> sub_id current"
  by (auto simp: extends_end_def split: if_splits option.splits)

lemma extend_pass_ge: "end_at \<le> extend_pass current items end_at"
  by (induction items arbitrary: end_at)
    (auto split: option.splits dest!: extends_endD intro: order_trans [OF less_imp_le])

lemma extend_pass_value:
  "extend_pass current items end_at = end_at \<or>
     Some (extend_pass current items end_at) \<in> sub_period_end_at ` set items"
  by (induction items arbitrary: end_at) (force split: option.splits dest!: extends_endD)+

definition ends_after :: "subscription_row list \<Rightarrow> time \<Rightarrow> time set" where
  "ends_after items end_at = {e. Some e \<in> sub_period_end_at ` set items \<and> end_at < e}"

lemma finite_ends_after: "finite (ends_after items end_at)"
proof (rule finite_subset)
  show "ends_after items end_at \<subseteq> the ` sub_period_end_at ` set items" by (auto simp: ends_after_def image_iff) (metis option.sel)
qed simp

lemma ends_after_shrinks:
  assumes "extend_pass current items end_at \<noteq> end_at"
  shows "card (ends_after items (extend_pass current items end_at)) < card (ends_after items end_at)"
proof (rule psubset_card_mono)
  have later: "end_at < extend_pass current items end_at"
    using extend_pass_ge [of end_at current items] assms by simp
  have "extend_pass current items end_at \<in> ends_after items end_at"
    using extend_pass_value [of current items end_at] assms later by (simp add: ends_after_def)
  then show "ends_after items (extend_pass current items end_at) \<subset> ends_after items end_at"
    using later by (auto simp: ends_after_def)
qed (rule finite_ends_after)

function extend_end :: "subscription_row \<Rightarrow> subscription_row list \<Rightarrow> time \<Rightarrow> time" where
  "extend_end current items end_at =
     (let passed = extend_pass current items end_at
      in if passed = end_at then end_at else extend_end current items passed)"
  by auto

termination
  by (relation "measure (\<lambda>(current, items, end_at). card (ends_after items end_at))")
    (auto intro: ends_after_shrinks)

declare extend_end.simps [simp del]

definition contiguous_subscription_end :: "subscription_row \<Rightarrow> subscription_row list \<Rightarrow> time option" where
  "contiguous_subscription_end current items =
     (case sub_period_end_at current of None \<Rightarrow> None | Some e \<Rightarrow> Some (extend_end current items e))"

section \<open>The snapshot of a user\<close>

record user_subscription_snapshot =
  us_user_id :: nat
  us_plan_id :: nat
  us_tier :: string
  us_status :: string
  us_expires_at :: "time option"
  us_permission_group_id :: "nat option"

definition first_non_empty :: "string \<Rightarrow> string \<Rightarrow> string" where
  "first_non_empty a b = (if trim_space a \<noteq> [] then trim_space a else trim_space b)"

definition snapshot_of :: "nat \<Rightarrow> subscription_row list \<Rightarrow> (nat \<rightharpoonup> billing_plan) \<Rightarrow> subscription_row \<Rightarrow> user_subscription_snapshot" where
  "snapshot_of user_id items plans subscription =
     (let plan = plans (sub_plan_id subscription);
          code = (case plan of None \<Rightarrow> [] | Some p \<Rightarrow> trim_space (plan_code p));
          free = (code = ''free'')
      in \<lparr>us_user_id = user_id, us_plan_id = sub_plan_id subscription, us_tier = first_non_empty code ''free'',
          us_status = first_non_empty (if free then ''free'' else trim_space (sub_status subscription)) ''free'',
          us_expires_at = (if free then None else contiguous_subscription_end subscription items),
          us_permission_group_id = (case plan of None \<Rightarrow> None | Some p \<Rightarrow> plan_permission_group_id p)\<rparr>)"

definition list_current_subscription_snapshots ::
  "billing_db \<Rightarrow> nat list \<Rightarrow> time \<Rightarrow> nat \<rightharpoonup> user_subscription_snapshot" where
  "list_current_subscription_snapshots db user_ids now =
     (let (subscriptions, plans) = list_subscription_entitlements db user_ids now
      in (\<lambda>user_id.
           let items = filter (\<lambda>r. sub_user_id r = user_id) subscriptions
           in map_option (snapshot_of user_id items plans) (select_current_subscription items plans now)))"

definition get_current_subscription_snapshot :: "billing_db \<Rightarrow> nat \<Rightarrow> time \<Rightarrow> user_subscription_snapshot option" where
  "get_current_subscription_snapshot db user_id now = list_current_subscription_snapshots db [user_id] now user_id"

section \<open>The plan of the period\<close>

definition month_bounds :: "(time \<Rightarrow> time \<times> time) \<Rightarrow> time \<Rightarrow> time \<Rightarrow> time \<times> time" where
  "month_bounds calendar_month clock now = calendar_month (if is_zero now then clock else now)"

definition current_period_plan ::
  "(time \<Rightarrow> time \<times> time) \<Rightarrow> billing_db \<Rightarrow> nat \<Rightarrow> time \<Rightarrow> time \<Rightarrow> billing_error + billing_plan \<times> time \<times> time" where
  "current_period_plan calendar_month db user_id clock now =
     (let month = month_bounds calendar_month clock now;
          (subscriptions, plans) = list_subscription_entitlements db [user_id] now
      in case select_current_subscription subscriptions plans now of
        None \<Rightarrow> (case get_active_plan_by_code db ''free'' of Inl e \<Rightarrow> Inl e | Inr plan \<Rightarrow> Inr (plan, month))
      | Some subscription \<Rightarrow>
          (case plans (sub_plan_id subscription) of
             None \<Rightarrow> Inl ErrNotFound | Some plan \<Rightarrow> Inr (plan, month)))"

section \<open>The views\<close>

record entitlement_view =
  ev_subscription :: subscription_row
  ev_plan :: billing_plan
  ev_is_current :: bool

definition can_merge_subscription_entitlement :: "subscription_row \<Rightarrow> subscription_row \<Rightarrow> bool" where
  "can_merge_subscription_entitlement left right =
     (if sub_plan_id left \<noteq> sub_plan_id right \<or> sub_price_id left \<noteq> sub_price_id right then False
      else case sub_period_end_at left of None \<Rightarrow> False | Some e \<Rightarrow> \<not> e < sub_period_start_at right)"

definition subscription_ends_after :: "subscription_row \<Rightarrow> subscription_row \<Rightarrow> bool" where
  "subscription_ends_after left right =
     (case sub_period_end_at left of
        None \<Rightarrow> True
      | Some l \<Rightarrow> (case sub_period_end_at right of None \<Rightarrow> False | Some r \<Rightarrow> r < l))"

definition shown :: "(nat \<rightharpoonup> billing_plan) \<Rightarrow> time \<Rightarrow> subscription_row \<Rightarrow> bool" where
  "shown plans now r =
     (case plans (sub_plan_id r) of
        None \<Rightarrow> False
      | Some p \<Rightarrow> trim_space (plan_code p) \<noteq> ''free'' \<and> sub_status r = ''active'' \<and>
          (case sub_period_end_at r of None \<Rightarrow> True | Some e \<Rightarrow> now < e))"

definition view_order :: "(nat \<rightharpoonup> billing_plan) \<Rightarrow> subscription_row \<Rightarrow> time \<times> int \<times> nat" where
  "view_order plans r = (sub_period_start_at r, - rank_of plans r, sub_id r)"

definition entitlement_view_of ::
  "(nat \<rightharpoonup> billing_plan) \<Rightarrow> subscription_row option \<Rightarrow> subscription_row \<Rightarrow> entitlement_view" where
  "entitlement_view_of plans current r =
     \<lparr>ev_subscription = r, ev_plan = the (plans (sub_plan_id r)),
      ev_is_current = (case current of None \<Rightarrow> False | Some c \<Rightarrow> sub_id r = sub_id c)\<rparr>"

text \<open>The last view takes up the next row when the two adjoin.\<close>

definition take_up :: "entitlement_view \<Rightarrow> entitlement_view \<Rightarrow> entitlement_view" where
  "take_up lst view =
     lst\<lparr>ev_subscription :=
           (if subscription_ends_after (ev_subscription view) (ev_subscription lst)
            then ev_subscription lst\<lparr>sub_period_end_at := sub_period_end_at (ev_subscription view)\<rparr>
            else ev_subscription lst),
         ev_is_current := ev_is_current lst \<or> ev_is_current view\<rparr>"

fun merge_views :: "entitlement_view \<Rightarrow> entitlement_view list \<Rightarrow> entitlement_view list" where
  "merge_views lst [] = [lst]"
| "merge_views lst (view # views) =
     (if can_merge_subscription_entitlement (ev_subscription lst) (ev_subscription view)
      then merge_views (take_up lst view) views
      else lst # merge_views view views)"

definition build_subscription_entitlement_views ::
  "subscription_row list \<Rightarrow> (nat \<rightharpoonup> billing_plan) \<Rightarrow> time \<Rightarrow> entitlement_view list" where
  "build_subscription_entitlement_views subscriptions plans now =
     (let current = select_current_subscription subscriptions plans now;
          items = sort_key (view_order plans) (filter (shown plans now) subscriptions)
      in case map (entitlement_view_of plans current) items of
        [] \<Rightarrow> [] | view # views \<Rightarrow> merge_views view views)"

end
