(* ===== verification/Entitlement_Props.thy ===== *)
theory Entitlement_Props
  imports Entitlement Subscription_Props
begin

text \<open>
  The current subscription is the best of the rows that entitle the user now, in whatever order they are
  read; until the end shown, every instant after it is paid by a row of the same plan, and no row carries
  on after it; the merged views cover exactly the instants of the rows.
\<close>

section \<open>The current subscription\<close>

definition priority :: "(nat \<rightharpoonup> billing_plan) \<Rightarrow> subscription_row \<Rightarrow> int \<times> time \<times> nat" where
  "priority plans r = (rank_of plans r, subscription_end_sort_time r, sub_id r)"

lemma higher_priority_iff:
  "is_higher_priority_subscription plans a b \<longleftrightarrow> priority plans b < priority plans a"
  by (auto simp: is_higher_priority_subscription_def priority_def less_prod_def)

lemma select_from_best:
  assumes "select_from plans now result items = best"
    and "\<And>r. result = Some r \<Longrightarrow> entitles plans now r"
  shows "case best of
      None \<Rightarrow> result = None \<and> (\<forall>r \<in> set items. \<not> entitles plans now r)
    | Some b \<Rightarrow> (b \<in> set items \<or> result = Some b) \<and> entitles plans now b \<and>
        (\<forall>r \<in> set items \<union> set_option result. entitles plans now r \<longrightarrow> priority plans r \<le> priority plans b)"
  using assms
proof (induction plans now result items rule: select_from.induct)
  case (1 plans now result)
  then show ?case by (auto split: option.splits)
next
  case (2 plans now result item items)
  show ?case
  proof (cases "entitles plans now item")
    case False
    then show ?thesis using 2 by (auto split: option.splits)
  next
    case True
    show ?thesis
    proof (cases result)
      case None
      then show ?thesis using 2(2) [OF _ None] 2(4) True by (fastforce split: option.splits)
    next
      case (Some current)
      let ?next = "if is_higher_priority_subscription plans item current then item else current"
      have current: "entitles plans now current" using 2(5) Some by simp
      then have "case best of None \<Rightarrow> False | Some b \<Rightarrow> (b \<in> set items \<or> b = ?next) \<and> entitles plans now b \<and>
          (\<forall>r \<in> set items \<union> {?next}. entitles plans now r \<longrightarrow> priority plans r \<le> priority plans b)"
        using 2(3) [OF _ Some] 2(4) True Some by (force split: option.splits if_splits)
      then show ?thesis
        using Some True current by (fastforce simp: higher_priority_iff split: option.splits if_splits)
    qed
  qed
qed

text \<open>
  The current subscription is one of the rows that entitle the user now, and of those the one with
  the highest rank of its plan, then the latest end, then the highest id; there is none exactly when no
  row entitles the user.
\<close>

theorem current_subscription_is_best:
  "case select_current_subscription subscriptions plans now of
     None \<Rightarrow> \<forall>r \<in> set subscriptions. \<not> entitles plans now r
   | Some b \<Rightarrow> b \<in> set subscriptions \<and> entitles plans now b \<and>
       (\<forall>r \<in> set subscriptions. entitles plans now r \<longrightarrow> priority plans r \<le> priority plans b)"
  using select_from_best [OF refl, of None plans now subscriptions]
  by (auto simp: select_current_subscription_def split: option.splits)

lemma current_subscription_unordered:
  assumes "set rows = set rows'" "inj_on sub_id (set rows)"
  shows "select_current_subscription rows plans now = select_current_subscription rows' plans now"
proof -
  have best: "case select_current_subscription subs plans now of
       None \<Rightarrow> \<forall>r \<in> set subs. \<not> entitles plans now r
     | Some b \<Rightarrow> b \<in> set subs \<and> entitles plans now b \<and>
         (\<forall>r \<in> set subs. entitles plans now r \<longrightarrow> priority plans r \<le> priority plans b)" for subs
    using select_from_best [OF refl, of None plans now subs]
    by (auto simp: select_current_subscription_def split: option.splits)
  have "a = b" if "a \<in> set rows" "b \<in> set rows" "priority plans a = priority plans b" for a b
    using that assms(2) by (auto simp: priority_def dest: inj_onD)
  then show ?thesis
    using best [of rows] best [of rows'] assms(1) by (force split: option.splits intro: antisym)
qed

section \<open>The end of the entitlement\<close>

definition row_covers :: "subscription_row \<Rightarrow> time \<Rightarrow> bool" where
  "row_covers r t \<longleftrightarrow> sub_period_start_at r \<le> t \<and> (case sub_period_end_at r of None \<Rightarrow> True | Some e \<Rightarrow> t < e)"

lemma extend_pass_covers:
  "end_at \<le> t \<Longrightarrow> t < extend_pass current items end_at \<Longrightarrow>
     \<exists>r \<in> set items. sub_plan_id r = sub_plan_id current \<and> row_covers r t"
proof (induction items arbitrary: end_at)
  case (Cons item items)
  show ?case
  proof (cases "extends_end current end_at item")
    case None
    then show ?thesis using Cons by auto
  next
    case (Some e)
    then show ?thesis
      using Cons.IH [of e] Cons.prems extends_endD [OF Some] by (cases "t < e") (auto simp: row_covers_def)
  qed
qed simp

lemma extend_pass_fixed:
  "extend_pass current items end_at = end_at \<Longrightarrow> item \<in> set items \<Longrightarrow> extends_end current end_at item = None"
proof (induction items arbitrary: end_at)
  case (Cons x items)
  show ?case
  proof (cases "extends_end current end_at x")
    case None
    then show ?thesis using Cons by auto
  next
    case (Some e)
    then have "end_at < e" by (simp add: extends_endD)
    moreover have "e \<le> end_at" using Cons.prems(1) Some extend_pass_ge [of e current items] by simp
    ultimately show ?thesis by simp
  qed
qed simp

lemma extend_end_exact:
  "end_at \<le> extend_end current items end_at \<and>
   (\<forall>t. end_at \<le> t \<and> t < extend_end current items end_at \<longrightarrow>
      (\<exists>r \<in> set items. sub_plan_id r = sub_plan_id current \<and> row_covers r t)) \<and>
   (\<forall>item \<in> set items. extends_end current (extend_end current items end_at) item = None)"
proof (induction current items end_at rule: extend_end.induct)
  case (1 current items end_at)
  show ?case
  proof (cases "extend_pass current items end_at = end_at")
    case True
    then have "extend_end current items end_at = end_at" by (subst extend_end.simps) simp
    then show ?thesis using extend_pass_fixed [OF True] by auto
  next
    case False
    have step: "extend_end current items end_at = extend_end current items (extend_pass current items end_at)"
      using False by (subst extend_end.simps) (simp add: Let_def)
    have "\<exists>r \<in> set items. sub_plan_id r = sub_plan_id current \<and> row_covers r t"
      if "end_at \<le> t" "t < extend_end current items end_at" for t
      using 1 [OF refl False] extend_pass_covers [of end_at t current items] that step by (metis not_less)
    then show ?thesis
      using 1 [OF refl False] extend_pass_ge [of end_at current items] step by auto
  qed
qed

text \<open>
  C33. The end of the entitlement is not before the end of the current row, every instant between the two
  is paid by a row of the same plan, and no other dated row of that plan begins until then and ends later.
\<close>

theorem entitlement_end_exact:
  assumes "sub_period_end_at current = Some end_at"
    and "contiguous_subscription_end current items = Some until"
  shows "end_at \<le> until \<and>
    (\<forall>t. end_at \<le> t \<and> t < until \<longrightarrow> (\<exists>r \<in> set items. sub_plan_id r = sub_plan_id current \<and> row_covers r t)) \<and>
    (\<forall>r \<in> set items. sub_id r \<noteq> sub_id current \<and> sub_plan_id r = sub_plan_id current \<and> sub_period_start_at r \<le> until \<longrightarrow>
       (case sub_period_end_at r of None \<Rightarrow> True | Some e \<Rightarrow> e \<le> until))"
proof -
  have until: "until = extend_end current items end_at"
    using assms by (simp add: contiguous_subscription_end_def)
  have "case sub_period_end_at r of None \<Rightarrow> True | Some e \<Rightarrow> e \<le> until"
    if "r \<in> set items" "sub_id r \<noteq> sub_id current" "sub_plan_id r = sub_plan_id current" "sub_period_start_at r \<le> until" for r
  proof -
    have "extends_end current until r = None" using extend_end_exact [of end_at current items] that(1) until by auto
    then show ?thesis using that by (auto simp: extends_end_def split: option.splits if_splits)
  qed
  then show ?thesis using extend_end_exact [of end_at current items] until by blast
qed

section \<open>The views\<close>

definition view_covers :: "nat \<Rightarrow> nat \<Rightarrow> time \<Rightarrow> entitlement_view \<Rightarrow> bool" where
  "view_covers plan price t v \<longleftrightarrow>
     sub_plan_id (ev_subscription v) = plan \<and> sub_price_id (ev_subscription v) = price \<and> row_covers (ev_subscription v) t"

lemma take_up_covers:
  assumes "can_merge_subscription_entitlement (ev_subscription v) (ev_subscription w)"
    and "sub_period_start_at (ev_subscription v) \<le> sub_period_start_at (ev_subscription w)"
  shows "view_covers plan price t (take_up v w) \<longleftrightarrow> view_covers plan price t v \<or> view_covers plan price t w"
  using assms
  by (auto simp: view_covers_def row_covers_def take_up_def can_merge_subscription_entitlement_def
      subscription_ends_after_def split: option.splits if_splits)

lemma merge_views_covers:
  assumes "sorted (map (\<lambda>v. sub_period_start_at (ev_subscription v)) (v # views))"
  shows "(\<exists>w \<in> set (merge_views v views). view_covers plan price t w) \<longleftrightarrow>
    (\<exists>w \<in> set (v # views). view_covers plan price t w)"
  using assms
proof (induction v views rule: merge_views.induct)
  case (2 v w views)
  have start: "sub_period_start_at (ev_subscription (take_up v w)) = sub_period_start_at (ev_subscription v)"
    by (simp add: take_up_def)
  show ?case
  proof (cases "can_merge_subscription_entitlement (ev_subscription v) (ev_subscription w)")
    case True
    have "sorted (map (\<lambda>v. sub_period_start_at (ev_subscription v)) (take_up v w # views))"
      using 2(3) start by auto
    then have "(\<exists>x \<in> set (merge_views v (w # views)). view_covers plan price t x) \<longleftrightarrow>
        (\<exists>x \<in> set (take_up v w # views). view_covers plan price t x)"
      using 2(1) [OF True] True by simp
    also have "\<dots> \<longleftrightarrow> (\<exists>x \<in> set (v # w # views). view_covers plan price t x)"
      using take_up_covers [OF True, of plan price t] 2(3) by auto
    finally show ?thesis .
  qed (use 2 in auto)
qed simp

text \<open>
  C34. The merged views show a plan and a price at an instant exactly when one of the rows does, of the
  active rows that have not ended and whose plan is known and not the free one.
\<close>

theorem views_cover_the_rows:
  "(\<exists>v \<in> set (build_subscription_entitlement_views subscriptions plans now). view_covers plan price t v) \<longleftrightarrow>
   (\<exists>r \<in> set subscriptions. shown plans now r \<and> sub_plan_id r = plan \<and> sub_price_id r = price \<and> row_covers r t)"
proof -
  let ?items = "sort_key (view_order plans) (filter (shown plans now) subscriptions)"
  let ?views = "map (entitlement_view_of plans (select_current_subscription subscriptions plans now)) ?items"
  have row: "ev_subscription (entitlement_view_of plans c r) = r" for c r by (simp add: entitlement_view_of_def)
  have "sorted (map (view_order plans) ?items)" by simp
  then have "sorted_wrt (\<lambda>a b. sub_period_start_at a \<le> sub_period_start_at b) ?items"
    unfolding sorted_map by (rule sorted_wrt_mono_rel [rotated]) (auto simp: view_order_def)
  then have sorted: "sorted (map (\<lambda>v. sub_period_start_at (ev_subscription v)) ?views)"
    by (simp add: sorted_map row o_def)
  have "(\<exists>v \<in> set (build_subscription_entitlement_views subscriptions plans now). view_covers plan price t v) \<longleftrightarrow>
      (\<exists>v \<in> set ?views. view_covers plan price t v)"
  proof (cases ?views)
    case (Cons v views)
    then show ?thesis
      using merge_views_covers [of v views plan price t] sorted
      by (simp add: build_subscription_entitlement_views_def Let_def)
  qed (simp add: build_subscription_entitlement_views_def)
  also have "\<dots> \<longleftrightarrow> (\<exists>r \<in> set subscriptions. shown plans now r \<and> sub_plan_id r = plan \<and> sub_price_id r = price \<and> row_covers r t)"
    by (auto simp: view_covers_def row)
  finally show ?thesis .
qed

section \<open>A user with three rows\<close>

text \<open>Plan 2 until 90 and then until 150, and plan 1 from 10 to 110.\<close>

definition sample_rows :: "subscription_row list" where
  "sample_rows = [sample_row 2 7 1 10 110, sample_row 1 7 2 0 90, sample_row 3 7 2 90 150]"

definition sample_plans :: "nat \<rightharpoonup> billing_plan" where
  "sample_plans = map_of (map (\<lambda>i. (i, sample_plan i)) [1, 2])"

lemma sample_selected: "map_option sub_id (select_current_subscription sample_rows sample_plans 50) = Some 1"
  by code_simp

theorem current_subscription_is_best_witness:
  "\<exists>b. select_current_subscription sample_rows sample_plans 50 = Some b \<and> sub_id b = 1 \<and>
     priority sample_plans (sample_row 2 7 1 10 110) \<le> priority sample_plans b"
proof -
  obtain b where b: "select_current_subscription sample_rows sample_plans 50 = Some b" "sub_id b = 1"
    using sample_selected by auto
  have "entitles sample_plans 50 (sample_row 2 7 1 10 110)" by code_simp
  then show ?thesis
    using current_subscription_is_best [of sample_rows sample_plans 50] b by (auto simp: sample_rows_def)
qed

theorem entitlement_end_exact_witness:
  "\<exists>r \<in> set sample_rows. sub_plan_id r = 2 \<and> row_covers r 149"
proof -
  have "contiguous_subscription_end (sample_row 1 7 2 0 90) sample_rows = Some 150" by code_simp
  moreover have "sub_period_end_at (sample_row 1 7 2 0 90) = Some 90" "sub_plan_id (sample_row 1 7 2 0 90) = 2"
    by (simp_all add: sample_row_def)
  ultimately show ?thesis using entitlement_end_exact [of "sample_row 1 7 2 0 90" 90 sample_rows 150] by auto
qed

end
