(* ===== verification/Pricing.thy ===== *)
theory Pricing
  imports Schedule Ledger Route_Data "HOL-Library.Signed_Division"
begin

text \<open>
  What a request costs (application/billing/service.go). Prices are nano dollars per million tokens, per
  call or per second; a multiplier, a fraction, scales them for the speed and service tier of the
  request, the permission group of the user and the time of the day. Products and sums are int64 and
  wrap; the quotient of Go truncates towards zero. The prices of a tier are float64 dollars in the
  stored JSON, so the conversion to nano dollars is a parameter, as are encoding/json, the
  catalogues of native tools and the answers of the database.
\<close>

section \<open>Multipliers\<close>

record rate_multiplier =
  rm_numerator :: int
  rm_denominator :: int

definition ratio :: "int \<Rightarrow> int \<Rightarrow> rate_multiplier" where
  "ratio n d = \<lparr>rm_numerator = n, rm_denominator = d\<rparr>"

definition normalize_billing_rate_multiplier :: "rate_multiplier \<Rightarrow> rate_multiplier" where
  "normalize_billing_rate_multiplier m =
     (if rm_numerator m \<le> 0 \<or> rm_denominator m \<le> 0 then ratio 1 1 else m)"

definition apply_rate_multiplier :: "int \<Rightarrow> rate_multiplier \<Rightarrow> int" where
  "apply_rate_multiplier rate m =
     (if rate \<le> 0 then 0
      else
        let m = normalize_billing_rate_multiplier m
        in if rm_numerator m = rm_denominator m then rate
           else wrap64 (wrap64 (rate * rm_numerator m) + rm_denominator m sdiv 2) sdiv rm_denominator m)"

definition compose_rate_percent :: "rate_multiplier \<Rightarrow> int \<Rightarrow> rate_multiplier" where
  "compose_rate_percent base percent =
     (if percent \<le> 0 \<or> percent = 100 then base
      else
        let base = normalize_billing_rate_multiplier base
        in ratio (wrap64 (rm_numerator base * percent)) (wrap64 (rm_denominator base * 100)))"

section \<open>Speed and service tier\<close>

definition normalize_usage_speed :: "string \<Rightarrow> string" where
  "normalize_usage_speed value = trim_space (to_lower value)"

definition is_anthropic :: "string \<Rightarrow> bool" where
  "is_anthropic protocol \<longleftrightarrow> trim_space protocol = ''anthropic_messages''"

definition resolve_billing_speed :: "string \<Rightarrow> string \<Rightarrow> string \<Rightarrow> string" where
  "resolve_billing_speed protocol usage_speed request_speed =
     (if \<not> is_anthropic protocol then []
      else if usage_speed \<noteq> [] then normalize_usage_speed usage_speed
      else normalize_usage_speed request_speed)"

definition normalize_open_ai_service_tier :: "string \<Rightarrow> string" where
  "normalize_open_ai_service_tier value =
     (let tier = trim_space (to_lower value)
      in if tier = ''default'' \<or> tier = ''flex'' \<or> tier = ''priority'' then tier else [])"

definition is_open_ai_provider_protocol :: "string \<Rightarrow> bool" where
  "is_open_ai_provider_protocol protocol \<longleftrightarrow>
     trim_space protocol = ''openai_chat_completions'' \<or> trim_space protocol = ''openai_responses''"

definition resolve_billing_service_tier :: "string \<Rightarrow> string \<Rightarrow> string" where
  "resolve_billing_service_tier protocol usage_service_tier =
     (if \<not> is_open_ai_provider_protocol protocol then []
      else if usage_service_tier \<noteq> [] then normalize_open_ai_service_tier usage_service_tier
      else ''default'')"

definition is_anthropic_fast_mode :: "string \<Rightarrow> string \<Rightarrow> string \<Rightarrow> bool" where
  "is_anthropic_fast_mode protocol usage_speed request_speed =
     (if \<not> is_anthropic protocol then False
      else if normalize_usage_speed usage_speed \<noteq> [] then normalize_usage_speed usage_speed = ''fast''
      else normalize_usage_speed request_speed = ''fast'')"

definition is_gpt55_series :: "string \<Rightarrow> bool" where
  "is_gpt55_series model \<longleftrightarrow> prefix ''gpt-5.5'' (to_lower (trim_space model))"

definition resolve_usage_rate_multiplier :: "string \<Rightarrow> string \<Rightarrow> string \<Rightarrow> bool \<Rightarrow> string \<Rightarrow> rate_multiplier" where
  "resolve_usage_rate_multiplier protocol platform_model upstream_model fast_mode service_tier =
     (if fast_mode then ratio 6 1
      else if \<not> is_open_ai_provider_protocol protocol then ratio 1 1
      else
        let tier = normalize_open_ai_service_tier service_tier
        in if tier = ''flex'' then ratio 1 2
           else if tier = ''priority'' then
             if is_gpt55_series platform_model \<or> is_gpt55_series upstream_model then ratio 5 2 else ratio 2 1
           else ratio 1 1)"

section \<open>Tokens\<close>

definition calc_nanousd_by_token :: "int \<Rightarrow> int \<Rightarrow> int" where
  "calc_nanousd_by_token tokens rate =
     (if tokens \<le> 0 \<or> rate \<le> 0 then 0 else wrap64 (wrap64 (tokens * rate) + 500000) sdiv 1000000)"

definition calc_cache_write_billed_nanousd :: "int \<Rightarrow> int \<Rightarrow> int \<Rightarrow> int \<Rightarrow> int \<Rightarrow> int \<Rightarrow> int" where
  "calc_cache_write_billed_nanousd all_tokens five_minute one_hour aggregate_rate five_minute_rate one_hour_rate =
     (if all_tokens \<le> 0 then 0
      else if five_minute \<le> 0 \<and> one_hour \<le> 0 then calc_nanousd_by_token all_tokens aggregate_rate
      else wrap64 (calc_nanousd_by_token five_minute five_minute_rate + calc_nanousd_by_token one_hour one_hour_rate))"

definition resolve_snapshot_rate_from_billed :: "int \<Rightarrow> int \<Rightarrow> int \<Rightarrow> int" where
  "resolve_snapshot_rate_from_billed tokens billed fallback =
     (if tokens \<le> 0 \<or> billed \<le> 0 then fallback
      else wrap64 (wrap64 (billed * 1000000) + tokens sdiv 2) sdiv tokens)"

definition normalize_anthropic_cache_timeout :: "string \<Rightarrow> string" where
  "normalize_anthropic_cache_timeout value = (if trim_space (to_lower value) = ''1h'' then ''1h'' else ''5m'')"

definition billing_cache_timeout_snapshot :: "string \<Rightarrow> string \<Rightarrow> string" where
  "billing_cache_timeout_snapshot protocol cache_timeout =
     (if is_anthropic protocol then normalize_anthropic_cache_timeout cache_timeout else [])"

definition resolve_cache_write_nanousd_per_m_tokens :: "int \<Rightarrow> string \<Rightarrow> string \<Rightarrow> string \<Rightarrow> int" where
  "resolve_cache_write_nanousd_per_m_tokens configured basis protocol cache_timeout =
     (if basis = ''direct'' \<or> \<not> is_anthropic protocol then configured
      else if configured \<le> 0 then 0
      else
        let hour_long = (normalize_anthropic_cache_timeout cache_timeout = ''1h'')
        in if basis = ''anthropic_5m'' then if hour_long then wrap64 (configured * 8) sdiv 5 else configured
           else if hour_long then wrap64 (configured * 2) else wrap64 (configured * 5) sdiv 4)"

text \<open>Total, five-minute and one-hour tokens; what the provider leaves open goes to the kind requested.\<close>

definition normalize_cache_write_token_breakdown :: "int \<Rightarrow> int \<Rightarrow> int \<Rightarrow> string \<Rightarrow> string \<Rightarrow> int \<times> int \<times> int" where
  "normalize_cache_write_token_breakdown all_tokens five_minute one_hour protocol cache_timeout =
     (let all_tokens = clamp_non_negative all_tokens; five_minute = clamp_non_negative five_minute;
          one_hour = clamp_non_negative one_hour
      in if \<not> is_anthropic protocol then (all_tokens, 0, 0)
         else
           let parts = wrap64 (five_minute + one_hour);
               all_tokens = (if all_tokens < parts then parts else all_tokens);
               remainder = wrap64 (all_tokens - parts)
           in if remainder \<le> 0 then (all_tokens, five_minute, one_hour)
              else if normalize_anthropic_cache_timeout cache_timeout = ''1h''
              then (all_tokens, five_minute, wrap64 (one_hour + remainder))
              else (all_tokens, wrap64 (five_minute + remainder), one_hour))"

section \<open>Tiers\<close>

text \<open>A tier as the JSON holds it, with prices of type \<open>'f\<close> (float64 dollars), and then in nano dollars.\<close>

record 'f tier_config =
  tc_up_to_tokens :: int
  tc_input_usd :: 'f
  tc_cache_read_usd :: 'f
  tc_cache_write_usd :: 'f
  tc_output_usd :: 'f

record tiered_pricing_tier =
  tier_up_to_tokens :: int
  tier_input_nanousd :: int
  tier_cache_read_nanousd :: int
  tier_cache_write_nanousd :: int
  tier_output_nanousd :: int

record 'f pricing_codec =
  decode_tiers :: "string \<Rightarrow> 'f tier_config list option"
  usd_to_nanousd :: "'f \<Rightarrow> int"
  schedules :: schedule_codec

definition zero_tier :: tiered_pricing_tier where
  "zero_tier = \<lparr>tier_up_to_tokens = 0, tier_input_nanousd = 0, tier_cache_read_nanousd = 0,
     tier_cache_write_nanousd = 0, tier_output_nanousd = 0\<rparr>"

definition tier_of_config :: "('f \<Rightarrow> int) \<Rightarrow> 'f tier_config \<Rightarrow> tiered_pricing_tier" where
  "tier_of_config nanousd c =
     \<lparr>tier_up_to_tokens = tc_up_to_tokens c, tier_input_nanousd = nanousd (tc_input_usd c),
      tier_cache_read_nanousd = nanousd (tc_cache_read_usd c),
      tier_cache_write_nanousd = nanousd (tc_cache_write_usd c), tier_output_nanousd = nanousd (tc_output_usd c)\<rparr>"

text \<open>The limits that are set increase from tier to tier.\<close>

fun limits_increase :: "int \<Rightarrow> 'f tier_config list \<Rightarrow> bool" where
  "limits_increase previous [] = True"
| "limits_increase previous (c # cs) =
     (if 0 < tc_up_to_tokens c then
        if tc_up_to_tokens c \<le> previous then False else limits_increase (tc_up_to_tokens c) cs
      else limits_increase previous cs)"

datatype pricing_error =
    ErrModelPricingRequired | ErrPlatformModelNotFound | ErrUsageBalanceInsufficient
  | ErrUsageReservationConflict | ErrUsageConcurrencyLimitExceeded
  | Repository billing_error | ErrJson | OtherError string

definition parse_tiered_pricing_tiers :: "'f pricing_codec \<Rightarrow> string \<Rightarrow> pricing_error + tiered_pricing_tier list" where
  "parse_tiered_pricing_tiers codec raw =
     (let raw = trim_space raw; raw = (if raw = [] then ''{}'' else raw)
      in case decode_tiers codec raw of
        None \<Rightarrow> Inl ErrJson
      | Some configs \<Rightarrow>
          if configs = [] \<or> 100 < length configs \<or> \<not> limits_increase 0 configs
          then Inl (Repository ErrInvalidInput)
          else Inr (map (tier_of_config (usd_to_nanousd codec)) configs))"

record resolved_tier =
  rt_tier :: tiered_pricing_tier
  rt_from_tokens :: int
  rt_up_to_tokens :: "int option"

definition tier_upper_limit :: "int \<Rightarrow> int option" where
  "tier_upper_limit limit = (if limit \<le> 0 then None else Some limit)"

fun find_tier :: "int \<Rightarrow> int \<Rightarrow> int \<Rightarrow> tiered_pricing_tier \<Rightarrow> tiered_pricing_tier list \<Rightarrow> resolved_tier" where
  "find_tier input previous last_from last_tier [] = \<lparr>rt_tier = last_tier, rt_from_tokens = last_from, rt_up_to_tokens = None\<rparr>"
| "find_tier input previous last_from last_tier (t # ts) =
     (if tier_up_to_tokens t \<le> 0 \<or> input \<le> tier_up_to_tokens t
      then \<lparr>rt_tier = t, rt_from_tokens = previous, rt_up_to_tokens = tier_upper_limit (tier_up_to_tokens t)\<rparr>
      else find_tier input (tier_up_to_tokens t) previous last_tier ts)"

definition resolve_tiered_pricing_tier :: "int \<Rightarrow> tiered_pricing_tier list \<Rightarrow> resolved_tier" where
  "resolve_tiered_pricing_tier input tiers =
     (if tiers = [] then \<lparr>rt_tier = zero_tier, rt_from_tokens = 0, rt_up_to_tokens = None\<rparr>
      else find_tier input 0 0 (last tiers) tiers)"

definition tiered_pricing_input_tokens :: "int \<Rightarrow> int \<Rightarrow> int \<Rightarrow> int" where
  "tiered_pricing_input_tokens input cache_read cache_write =
     wrap64 (wrap64 (clamp_non_negative input + clamp_non_negative cache_read) + clamp_non_negative cache_write)"

section \<open>The price of a model\<close>

record model_pricing =
  mp_id :: nat
  mp_platform_model_name :: string
  mp_currency :: string
  mp_is_free :: bool
  mp_pricing_mode :: string
  mp_input_nanousd :: int
  mp_cache_read_nanousd :: int
  mp_cache_write_nanousd :: int
  mp_cache_write_price_basis :: string
  mp_output_nanousd :: int
  mp_call_nanousd :: int
  mp_duration_nanousd :: int
  mp_tiered_pricing_json :: string
  mp_schedule_pricing_json :: string

definition normalize_pricing_mode :: "string \<Rightarrow> string" where
  "normalize_pricing_mode value =
     (let v = trim_space value in if v \<in> {''call'', ''duration'', ''tiered''} then v else ''token'')"

text \<open>The prices per million tokens of a request, before and after the multiplier.\<close>

record token_rates =
  tr_input :: int
  tr_cache_read :: int
  tr_cache_write :: int
  tr_cache_write_5m :: int
  tr_cache_write_1h :: int
  tr_output :: int

definition no_token_rates :: token_rates where
  "no_token_rates = \<lparr>tr_input = 0, tr_cache_read = 0, tr_cache_write = 0, tr_cache_write_5m = 0,
     tr_cache_write_1h = 0, tr_output = 0\<rparr>"

text \<open>The rates of \<open>(input, cache read, cache write, output)\<close> for a protocol and a cache lifetime.\<close>

definition base_token_rates :: "int \<times> int \<times> int \<times> int \<Rightarrow> string \<Rightarrow> string \<Rightarrow> string \<Rightarrow> token_rates" where
  "base_token_rates prices basis protocol cache_timeout =
     (case prices of (input, cache_read, cache_write, output) \<Rightarrow>
       let write_rate = resolve_cache_write_nanousd_per_m_tokens cache_write basis protocol
       in \<lparr>tr_input = input, tr_cache_read = cache_read, tr_cache_write = write_rate cache_timeout,
           tr_cache_write_5m = write_rate ''5m'', tr_cache_write_1h = write_rate ''1h'', tr_output = output\<rparr>)"

definition flat_prices :: "model_pricing \<Rightarrow> int \<times> int \<times> int \<times> int" where
  "flat_prices p = (mp_input_nanousd p, mp_cache_read_nanousd p, mp_cache_write_nanousd p, mp_output_nanousd p)"

definition tier_prices :: "tiered_pricing_tier \<Rightarrow> int \<times> int \<times> int \<times> int" where
  "tier_prices t = (tier_input_nanousd t, tier_cache_read_nanousd t, tier_cache_write_nanousd t, tier_output_nanousd t)"

definition multiplied_rates :: "rate_multiplier \<Rightarrow> token_rates \<Rightarrow> token_rates" where
  "multiplied_rates m r =
     \<lparr>tr_input = apply_rate_multiplier (tr_input r) m, tr_cache_read = apply_rate_multiplier (tr_cache_read r) m,
      tr_cache_write = apply_rate_multiplier (tr_cache_write r) m,
      tr_cache_write_5m = apply_rate_multiplier (tr_cache_write_5m r) m,
      tr_cache_write_1h = apply_rate_multiplier (tr_cache_write_1h r) m,
      tr_output = apply_rate_multiplier (tr_output r) m\<rparr>"

record token_bill =
  tb_input :: int
  tb_cache_read :: int
  tb_cache_write :: int
  tb_output :: int

definition no_token_bill :: token_bill where
  "no_token_bill = \<lparr>tb_input = 0, tb_cache_read = 0, tb_cache_write = 0, tb_output = 0\<rparr>"

record token_counts =
  tk_input :: int
  tk_cache_read :: int
  tk_cache_write :: int
  tk_cache_write_5m :: int
  tk_cache_write_1h :: int
  tk_output :: int
  tk_reasoning :: int

definition bill_tokens :: "token_counts \<Rightarrow> token_rates \<Rightarrow> token_bill" where
  "bill_tokens k r =
     \<lparr>tb_input = calc_nanousd_by_token (tk_input k) (tr_input r),
      tb_cache_read = calc_nanousd_by_token (tk_cache_read k) (tr_cache_read r),
      tb_cache_write = calc_cache_write_billed_nanousd (tk_cache_write k) (tk_cache_write_5m k)
        (tk_cache_write_1h k) (tr_cache_write r) (tr_cache_write_5m r) (tr_cache_write_1h r),
      tb_output = calc_nanousd_by_token (wrap64 (tk_output k + tk_reasoning k)) (tr_output r)\<rparr>"

end
