(* ===== verification/Price_Source.thy ===== *)
theory Price_Source
  imports Pricing Entitlement
begin

text \<open>
  Where the prices of a request come from (application/billing/service.go and repository.go of
  infra/persistence/postgres/billing). The table of model prices and the settings of the namespace
  billing are lists of rows. The identity of a model, the rate of the permission groups of a user, the
  models that make videos and the catalogue of native tools belong to other components and are
  functions of the service; so are strconv.ParseFloat with the rounding to nano dollars and the calendar
  of the server. A resolver that is not set is \<open>None\<close>, the nil interface of the source.
\<close>

section \<open>Results\<close>

definition attempt :: "'e + 'a \<Rightarrow> ('a \<Rightarrow> 'e + 'b) \<Rightarrow> 'e + 'b" where
  "attempt r f = (case r of Inl e \<Rightarrow> Inl e | Inr a \<Rightarrow> f a)"

lemma attempt_simps [simp]:
  "attempt (Inl e) f = Inl e"
  "attempt (Inr a) f = f a"
  by (simp_all add: attempt_def)

lemma attempt_eq_Inr_iff: "attempt r f = Inr b \<longleftrightarrow> (\<exists>a. r = Inr a \<and> f a = Inr b)"
  by (cases r) simp_all

text \<open>\<open>err != nil && !errors.Is(err, repository.ErrNotFound)\<close>: a row that is missing is the zero value.\<close>

definition unless_missing :: "'a \<Rightarrow> pricing_error + 'a \<Rightarrow> pricing_error + 'a" where
  "unless_missing zero r =
     (case r of Inl (Repository ErrNotFound) \<Rightarrow> Inr zero | Inl e \<Rightarrow> Inl e | Inr a \<Rightarrow> Inr a)"

section \<open>The service\<close>

record platform_model_identity =
  pi_model_id :: nat
  pi_model_name :: string
  pi_vendor :: string
  pi_icon :: string

definition no_identity :: platform_model_identity where
  "no_identity = \<lparr>pi_model_id = 0, pi_model_name = [], pi_vendor = [], pi_icon = []\<rparr>"

record native_price =
  np_provider :: string
  np_service_name :: string
  np_nanousd_per_call :: int

record 'f billing_service =
  bs_identities :: "(string \<Rightarrow> pricing_error + platform_model_identity) option"
  bs_group_rates :: "(nat \<Rightarrow> nat \<Rightarrow> nat list \<Rightarrow> pricing_error + int) option"
  bs_video_models :: "(string \<Rightarrow> pricing_error + bool) option"
  bs_native_tools :: "pricing_error + (string \<Rightarrow> string \<Rightarrow> string \<Rightarrow> native_price option)"
  bs_prices :: "model_pricing list"
  bs_settings :: "(string \<times> string) list"
  bs_parse_amount :: "string \<Rightarrow> int option"
  bs_codec :: "'f pricing_codec"
  bs_local_clock :: "time \<Rightarrow> local_clock"
  bs_day_start :: "time \<Rightarrow> time"
  bs_month :: "time \<Rightarrow> time \<times> time"

section \<open>Settings\<close>

definition setting :: "'f billing_service \<Rightarrow> string \<Rightarrow> string option" where
  "setting s key = map_of (bs_settings s) key"

definition get_billing_mode :: "'f billing_service \<Rightarrow> string" where
  "get_billing_mode s =
     (case setting s ''mode'' of
        None \<Rightarrow> ''self''
      | Some value \<Rightarrow>
          let mode = trim_space value in if mode \<in> {''self'', ''usage'', ''period''} then mode else ''self'')"

definition get_billing_prepaid_amount_nanousd :: "'f billing_service \<Rightarrow> pricing_error + int" where
  "get_billing_prepaid_amount_nanousd s =
     (case setting s ''prepaid_amount_usd'' of
        None \<Rightarrow> Inr 0
      | Some value \<Rightarrow>
          let value = trim_space value
          in if value = [] then Inr 0
             else case bs_parse_amount s value of
               None \<Rightarrow> Inl (Repository ErrInvalidInput) | Some nanousd \<Rightarrow> Inr nanousd)"

text \<open>\<open>strconv.ParseBool\<close>.\<close>

definition parse_bool :: "string \<Rightarrow> bool option" where
  "parse_bool value =
     (if value \<in> {''1'', ''t'', ''T'', ''true'', ''TRUE'', ''True''} then Some True
      else if value \<in> {''0'', ''f'', ''F'', ''false'', ''FALSE'', ''False''} then Some False
      else None)"

definition get_native_tool_billing_enabled :: "'f billing_service \<Rightarrow> pricing_error + bool" where
  "get_native_tool_billing_enabled s =
     (case setting s ''native_tool_billing_enabled'' of
        None \<Rightarrow> Inr True
      | Some value \<Rightarrow>
          (case parse_bool (trim_space value) of
             None \<Rightarrow> Inl (Repository ErrInvalidInput) | Some enabled \<Rightarrow> Inr enabled))"

definition get_native_tool_pricing_json :: "'f billing_service \<Rightarrow> string" where
  "get_native_tool_pricing_json s =
     (case setting s ''native_tool_pricing_json'' of None \<Rightarrow> [] | Some value \<Rightarrow> trim_space value)"

section \<open>Models\<close>

definition get_model_pricing :: "'f billing_service \<Rightarrow> string \<Rightarrow> pricing_error + model_pricing" where
  "get_model_pricing s name =
     (case List.find (\<lambda>p. mp_platform_model_name p = trim_space name) (bs_prices s) of
        None \<Rightarrow> Inl (Repository ErrNotFound) | Some p \<Rightarrow> Inr p)"

text \<open>The price of the model, \<open>None\<close> when it has no row.\<close>

definition model_pricing_or_none :: "'f billing_service \<Rightarrow> string \<Rightarrow> pricing_error + model_pricing option" where
  "model_pricing_or_none s name = unless_missing None (map_sum (\<lambda>e. e) Some (get_model_pricing s name))"

definition resolve_platform_model_identity :: "'f billing_service \<Rightarrow> string \<Rightarrow> pricing_error + platform_model_identity" where
  "resolve_platform_model_identity s platform_model_name =
     (let name = trim_space platform_model_name
      in if name = [] then Inl (Repository ErrNotFound)
         else case bs_identities s of
           None \<Rightarrow> Inr (no_identity\<lparr>pi_model_name := name\<rparr>)
         | Some resolve \<Rightarrow>
             (case resolve name of
                Inl ErrPlatformModelNotFound \<Rightarrow> Inl (Repository ErrNotFound)
              | Inl e \<Rightarrow> Inl e
              | Inr identity \<Rightarrow>
                  let known = trim_space (pi_model_name identity)
                  in Inr (identity\<lparr>pi_model_name := if known = [] then name else known\<rparr>)))"

definition get_resolved_model_pricing :: "'f billing_service \<Rightarrow> string \<Rightarrow> pricing_error + model_pricing" where
  "get_resolved_model_pricing s platform_model_name =
     attempt (resolve_platform_model_identity s platform_model_name) (\<lambda>identity.
       let name = trim_space (pi_model_name identity)
       in if name = [] then Inl (Repository ErrNotFound) else get_model_pricing s name)"

definition resolve_group_rate_percent ::
  "'f billing_service \<Rightarrow> nat \<Rightarrow> nat \<Rightarrow> nat option \<Rightarrow> pricing_error + int" where
  "resolve_group_rate_percent s user_id platform_model_id subscription_group_id =
     (case bs_group_rates s of
        None \<Rightarrow> Inr 100
      | Some rate \<Rightarrow>
          if user_id = 0 then Inr 100
          else rate user_id platform_model_id (case subscription_group_id of None \<Rightarrow> [] | Some g \<Rightarrow> [g]))"

definition subscription_group :: "billing_db \<Rightarrow> nat \<Rightarrow> time \<Rightarrow> nat option" where
  "subscription_group db user_id now =
     (case get_current_subscription_snapshot db user_id now of
        None \<Rightarrow> None | Some snap \<Rightarrow> us_permission_group_id snap)"

definition ensure_model_pricing_authorizable :: "'f billing_service \<Rightarrow> string \<Rightarrow> pricing_error + bool" where
  "ensure_model_pricing_authorizable s platform_model_name =
     attempt (unless_missing None (map_sum (\<lambda>e. e) Some (get_resolved_model_pricing s platform_model_name))) (\<lambda>pricing.
       case pricing of
         None \<Rightarrow> Inl ErrModelPricingRequired
       | Some p \<Rightarrow>
           if mp_is_free p then Inr False
           else if normalize_pricing_mode (mp_pricing_mode p) = ''duration'' then
             (case bs_video_models s of
                None \<Rightarrow> Inl ErrModelPricingRequired
              | Some supports \<Rightarrow>
                  attempt (supports platform_model_name) (\<lambda>supported.
                    if supported then Inr True else Inl ErrModelPricingRequired))
           else Inr True)"

end
