(* ===== verification/Usage_Bill.thy ===== *)
theory Usage_Bill
  imports Price_Source
begin

text \<open>
  From usage to a ledger row (application/billing/service.go): the services of a request, each priced by
  its own model, the calls of native and MCP tools, and \<open>BuildUsageLedger\<close>, which adds them to the price
  of the model; and the estimate of a request before it is sent. Token counts, rates and amounts of the
  long structs are records of their own. The float64 multiplier of a snapshot is kept as a fraction. The
  counts of a Go map are a list of pairs, in the order in which the map is ranged over.
\<close>

section \<open>Services\<close>

record service_usage_input =
  su_service_code :: string
  su_service_name :: string
  su_platform_model_name :: string
  su_upstream_model_name :: string
  su_provider_protocol :: string
  su_cache_timeout :: string
  su_request_speed :: string
  su_usage_speed :: string
  su_request_service_tier :: string
  su_usage_service_tier :: string
  su_tokens :: token_counts
  su_call_count :: int

record usage_service_item =
  si_service_code :: string
  si_service_name :: string
  si_platform_model_name :: string
  si_provider_protocol :: string
  si_cache_timeout :: string
  si_request_speed :: string
  si_usage_speed :: string
  si_billing_speed :: string
  si_request_service_tier :: string
  si_usage_service_tier :: string
  si_billing_service_tier :: string
  si_fast_mode :: bool
  si_rate_multiplier :: rate_multiplier
  si_pricing_mode :: string
  si_tokens :: token_counts
  si_call_count :: int
  si_duration_seconds :: int
  si_rates :: token_rates
  si_call_nanousd_per_call :: int
  si_duration_nanousd_per_second :: int
  si_bill :: token_bill
  si_cache_write_5m_billed :: int
  si_cache_write_1h_billed :: int
  si_call_billed :: int
  si_duration_billed :: int
  si_billed_nanousd :: int
  si_schedule_period_name :: string
  si_schedule_rate_percent :: int
  si_tiered_from_tokens :: int
  si_tiered_up_to_tokens :: "int option"

text \<open>A struct literal with only some fields: the others are zero.\<close>

definition zero_item :: usage_service_item where
  "zero_item =
     \<lparr>si_service_code = [], si_service_name = [], si_platform_model_name = [], si_provider_protocol = [],
      si_cache_timeout = [], si_request_speed = [], si_usage_speed = [], si_billing_speed = [],
      si_request_service_tier = [], si_usage_service_tier = [], si_billing_service_tier = [],
      si_fast_mode = False, si_rate_multiplier = ratio 0 1, si_pricing_mode = [],
      si_tokens = \<lparr>tk_input = 0, tk_cache_read = 0, tk_cache_write = 0, tk_cache_write_5m = 0,
        tk_cache_write_1h = 0, tk_output = 0, tk_reasoning = 0\<rparr>,
      si_call_count = 0, si_duration_seconds = 0, si_rates = no_token_rates, si_call_nanousd_per_call = 0,
      si_duration_nanousd_per_second = 0, si_bill = no_token_bill, si_cache_write_5m_billed = 0,
      si_cache_write_1h_billed = 0, si_call_billed = 0, si_duration_billed = 0, si_billed_nanousd = 0,
      si_schedule_period_name = [], si_schedule_rate_percent = 0, si_tiered_from_tokens = 0,
      si_tiered_up_to_tokens = None\<rparr>"

text \<open>The token counts with the cache writes broken down.\<close>

definition with_cache_writes :: "string \<Rightarrow> string \<Rightarrow> token_counts \<Rightarrow> token_counts" where
  "with_cache_writes protocol cache_timeout k =
     (let (w, w5, w1) = normalize_cache_write_token_breakdown (tk_cache_write k) (tk_cache_write_5m k)
            (tk_cache_write_1h k) protocol cache_timeout
      in k\<lparr>tk_cache_write := w, tk_cache_write_5m := w5, tk_cache_write_1h := w1\<rparr>)"

definition clamped_counts :: "token_counts \<Rightarrow> token_counts" where
  "clamped_counts k =
     k\<lparr>tk_input := clamp_non_negative (tk_input k), tk_cache_read := clamp_non_negative (tk_cache_read k),
       tk_output := clamp_non_negative (tk_output k), tk_reasoning := clamp_non_negative (tk_reasoning k)\<rparr>"

definition call_count_or_one :: "int \<Rightarrow> int" where
  "call_count_or_one n = (if n \<le> 0 then 1 else n)"

definition multiplier_of_service :: "service_usage_input \<Rightarrow> rate_multiplier" where
  "multiplier_of_service inp =
     (let protocol = su_provider_protocol inp;
          usage_speed = normalize_usage_speed (su_usage_speed inp);
          request_speed = normalize_usage_speed (su_request_speed inp);
          tier = resolve_billing_service_tier protocol (normalize_open_ai_service_tier (su_usage_service_tier inp))
      in resolve_usage_rate_multiplier protocol (su_platform_model_name inp) (su_upstream_model_name inp)
           (is_anthropic_fast_mode protocol usage_speed request_speed) tier)"

text \<open>The item before it is priced.\<close>

definition unpriced_item :: "service_usage_input \<Rightarrow> usage_service_item" where
  "unpriced_item inp =
     (let protocol = su_provider_protocol inp;
          usage_speed = normalize_usage_speed (su_usage_speed inp);
          request_speed = normalize_usage_speed (su_request_speed inp);
          usage_tier = normalize_open_ai_service_tier (su_usage_service_tier inp);
          code = trim_space (su_service_code inp); name = trim_space (su_service_name inp)
      in zero_item
         \<lparr>si_service_code := code, si_service_name := (if name = [] then code else name),
          si_platform_model_name := trim_space (su_platform_model_name inp),
          si_provider_protocol := trim_space protocol,
          si_cache_timeout := billing_cache_timeout_snapshot protocol (su_cache_timeout inp),
          si_request_speed := request_speed, si_usage_speed := usage_speed,
          si_billing_speed := resolve_billing_speed protocol usage_speed request_speed,
          si_request_service_tier := normalize_open_ai_service_tier (su_request_service_tier inp),
          si_usage_service_tier := usage_tier,
          si_billing_service_tier := resolve_billing_service_tier protocol usage_tier,
          si_fast_mode := is_anthropic_fast_mode protocol usage_speed request_speed,
          si_rate_multiplier := normalize_billing_rate_multiplier (multiplier_of_service inp),
          si_pricing_mode := ''token'',
          si_tokens := clamped_counts (with_cache_writes protocol (su_cache_timeout inp) (su_tokens inp)),
          si_call_count := call_count_or_one (su_call_count inp)\<rparr>)"

text \<open>The amounts of an item whose tokens are priced at the rates given.\<close>

definition with_token_bill :: "rate_multiplier \<Rightarrow> token_rates \<Rightarrow> usage_service_item \<Rightarrow> usage_service_item" where
  "with_token_bill m base item =
     (let r = multiplied_rates m base; k = si_tokens item; b = bill_tokens k r
      in item\<lparr>si_rates := r\<lparr>tr_cache_write :=
                 resolve_snapshot_rate_from_billed (tk_cache_write k) (tb_cache_write b) (tr_cache_write r)\<rparr>,
              si_bill := b,
              si_cache_write_5m_billed := calc_nanousd_by_token (tk_cache_write_5m k) (tr_cache_write_5m r),
              si_cache_write_1h_billed := calc_nanousd_by_token (tk_cache_write_1h k) (tr_cache_write_1h r)\<rparr>)"

definition sum_token_bill :: "token_bill \<Rightarrow> int" where
  "sum_token_bill b = wrap64 (wrap64 (wrap64 (tb_input b + tb_cache_read b) + tb_cache_write b) + tb_output b)"

definition item_sum :: "usage_service_item \<Rightarrow> int" where
  "item_sum item = wrap64 (wrap64 (sum_token_bill (si_bill item) + si_call_billed item) + si_duration_billed item)"

definition price_item ::
  "'f billing_service \<Rightarrow> service_usage_input \<Rightarrow> model_pricing \<Rightarrow> rate_multiplier \<Rightarrow> usage_service_item \<Rightarrow>
     pricing_error + usage_service_item" where
  "price_item s inp pricing m item =
     (let mode = normalize_pricing_mode (mp_pricing_mode pricing); item = item\<lparr>si_pricing_mode := mode\<rparr>;
          rates = (\<lambda>prices. base_token_rates prices (mp_cache_write_price_basis pricing)
                     (su_provider_protocol inp) (su_cache_timeout inp))
      in attempt
           (if mode = ''call'' then
              let rate = apply_rate_multiplier (mp_call_nanousd pricing) m
              in Inr (item\<lparr>si_call_nanousd_per_call := rate, si_call_billed := wrap64 (si_call_count item * rate)\<rparr>)
            else if mode = ''duration'' then
              let rate = apply_rate_multiplier (mp_duration_nanousd pricing) m
              in Inr (item\<lparr>si_duration_nanousd_per_second := rate,
                           si_duration_billed := wrap64 (si_duration_seconds item * rate)\<rparr>)
            else if mode = ''tiered'' then
              attempt (parse_tiered_pricing_tiers (bs_codec s) (mp_tiered_pricing_json pricing)) (\<lambda>tiers.
                let k = si_tokens item;
                    resolved = resolve_tiered_pricing_tier
                      (tiered_pricing_input_tokens (tk_input k) (tk_cache_read k) (tk_cache_write k)) tiers
                in Inr (with_token_bill m (rates (tier_prices (rt_tier resolved)))
                     (item\<lparr>si_tiered_from_tokens := rt_from_tokens resolved,
                           si_tiered_up_to_tokens := rt_up_to_tokens resolved\<rparr>)))
            else Inr (with_token_bill m (rates (flat_prices pricing)) item))
           (\<lambda>item. Inr (item\<lparr>si_billed_nanousd := item_sum item\<rparr>)))"

text \<open>An item outside self mode, with the row of the prices of its model.\<close>

definition bill_service_item ::
  "'f billing_service \<Rightarrow> service_usage_input \<Rightarrow> model_pricing option \<Rightarrow> rate_multiplier \<Rightarrow> time \<Rightarrow>
     usage_service_item \<Rightarrow> pricing_error + usage_service_item" where
  "bill_service_item s inp pricing m now item =
     (case pricing of
        None \<Rightarrow> Inl ErrModelPricingRequired
      | Some p \<Rightarrow>
          if mp_is_free p then Inr item
          else case resolve_schedule_period_json (schedules (bs_codec s)) (mp_schedule_pricing_json p)
                 (bs_local_clock s now) of
            None \<Rightarrow> price_item s inp p m item
          | Some (period_name, percent) \<Rightarrow>
              let m = compose_rate_percent m percent
              in price_item s inp p m
                   (item\<lparr>si_rate_multiplier := normalize_billing_rate_multiplier m,
                         si_schedule_period_name := period_name, si_schedule_rate_percent := percent\<rparr>))"

definition build_usage_service_item ::
  "'f billing_service \<Rightarrow> service_usage_input \<Rightarrow> string \<Rightarrow> nat \<Rightarrow> nat option \<Rightarrow> time \<Rightarrow>
     pricing_error + usage_service_item" where
  "build_usage_service_item s inp billing_mode user_id subscription_group_id now =
     (let item = unpriced_item inp; m = multiplier_of_service inp
      in if is_model_ref (si_platform_model_name item) then Inr item
         else
           attempt (unless_missing no_identity (resolve_platform_model_identity s (si_platform_model_name item))) (\<lambda>identity.
           attempt (if billing_mode = ''self'' then Inr m
                    else attempt (resolve_group_rate_percent s user_id (pi_model_id identity) subscription_group_id)
                           (\<lambda>percent. Inr (compose_rate_percent m percent))) (\<lambda>m.
             let item = item\<lparr>si_rate_multiplier := normalize_billing_rate_multiplier m\<rparr>;
                 known = trim_space (pi_model_name identity);
                 name = (if known = [] then si_platform_model_name item else known)
             in attempt (if name = [] then Inr None else model_pricing_or_none s name) (\<lambda>pricing.
                  if billing_mode = ''self'' then Inr item
                  else bill_service_item s inp pricing m now item))))"

text \<open>Each service has its own reading of the clock.\<close>

fun build_usage_service_items ::
  "'f billing_service \<Rightarrow> (service_usage_input \<times> time) list \<Rightarrow> string \<Rightarrow> nat \<Rightarrow> nat option \<Rightarrow>
     pricing_error + usage_service_item list \<times> int" where
  "build_usage_service_items s [] billing_mode user_id group_id = Inr ([], 0)"
| "build_usage_service_items s ((inp, now) # rest) billing_mode user_id group_id =
     attempt (build_usage_service_item s inp billing_mode user_id group_id now) (\<lambda>item.
     attempt (build_usage_service_items s rest billing_mode user_id group_id) (\<lambda>(items, billed).
       Inr (item # items, wrap64 (si_billed_nanousd item + billed))))"

section \<open>Tools\<close>

definition count_up :: "string \<Rightarrow> int \<Rightarrow> (string \<times> int) list \<Rightarrow> (string \<times> int) list" where
  "count_up key value counts =
     (case map_of counts key of
        None \<Rightarrow> counts @ [(key, value)] | Some n \<Rightarrow> AList.update key (wrap64 (n + value)) counts)"

definition normalize_usage_count_map :: "(string \<times> int) list \<Rightarrow> (string \<times> int) list" where
  "normalize_usage_count_map items =
     fold (\<lambda>(key, value) counts.
         if trim_space key = [] \<or> value \<le> 0 then counts else count_up (trim_space key) value counts) items []"

definition tool_service_code :: "string \<Rightarrow> string \<Rightarrow> string \<Rightarrow> string" where
  "tool_service_code kind owner tool =
     (let known = (\<lambda>v. if trim_space v = [] then ''unknown'' else trim_space v)
      in kind @ ''.'' @ known owner @ ''.'' @ known tool)"

definition native_tool_service_code :: "string \<Rightarrow> string \<Rightarrow> string" where
  "native_tool_service_code provider tool_name = tool_service_code ''native_tool'' provider tool_name"

definition mcp_tool_service_code :: "string \<Rightarrow> string \<Rightarrow> string" where
  "mcp_tool_service_code server_name tool_name = tool_service_code ''mcp_tool'' server_name tool_name"

definition mcp_tool_service_name :: "string \<Rightarrow> string \<Rightarrow> string" where
  "mcp_tool_service_name server_name tool_name =
     (let server = trim_space server_name; tool = trim_space tool_name
      in if server = [] then tool else if tool = [] then server else server @ '' / '' @ tool)"

record mcp_tool_usage_input =
  mt_server_id :: nat
  mt_server_name :: string
  mt_tool_name :: string
  mt_call_count :: int
  mt_price_nanousd :: int

record usage_authorization =
  ua_mode :: string
  ua_ref_no :: string
  ua_reservation :: "usage_reservation option"

record usage_pricing_input =
  up_authorization :: "usage_authorization option"
  up_user_id :: nat
  up_conversation_id :: nat
  up_platform_model_name :: string
  up_routed_binding_code :: string
  up_provider_protocol :: string
  up_upstream_name :: string
  up_upstream_model_name :: string
  up_cache_timeout :: string
  up_request_speed :: string
  up_usage_speed :: string
  up_request_service_tier :: string
  up_usage_service_tier :: string
  up_usage_source :: string
  up_billed_reason :: string
  up_service_only :: bool
  up_tokens :: token_counts
  up_call_count :: int
  up_duration_billable :: bool
  up_duration_seconds :: int
  up_media_type :: string
  up_input_image_count :: int
  up_latency_ms :: int
  up_server_side_tool_usage :: "(string \<times> int) list"
  up_mcp_tool_usage :: "mcp_tool_usage_input list"
  up_service_items :: "service_usage_input list"
  up_raw_usage_json :: string
  up_billing_at :: time

text \<open>A call of a tool, priced per call.\<close>

definition call_item :: "usage_pricing_input \<Rightarrow> string \<Rightarrow> string \<Rightarrow> int \<Rightarrow> int \<Rightarrow> usage_service_item" where
  "call_item inp code name calls price =
     zero_item
       \<lparr>si_service_code := code, si_service_name := name,
        si_platform_model_name := trim_space (up_platform_model_name inp),
        si_provider_protocol := trim_space (up_provider_protocol inp), si_rate_multiplier := ratio 1 1,
        si_pricing_mode := ''call'', si_call_count := calls, si_call_nanousd_per_call := price,
        si_call_billed := wrap64 (calls * price), si_billed_nanousd := wrap64 (calls * price)\<rparr>"

definition total_billed :: "usage_service_item list \<Rightarrow> int" where
  "total_billed items = fold (\<lambda>item billed. wrap64 (billed + si_billed_nanousd item)) items 0"

definition native_item ::
  "usage_pricing_input \<Rightarrow> (string \<Rightarrow> string \<Rightarrow> native_price option) \<Rightarrow> string \<times> int \<Rightarrow> usage_service_item option" where
  "native_item inp price_of = (\<lambda>(tool_name, calls).
     case price_of (up_provider_protocol inp) tool_name of
       None \<Rightarrow> None
     | Some price \<Rightarrow>
         if np_nanousd_per_call price \<le> 0 \<or> calls \<le> 0 then None
         else Some (call_item inp (native_tool_service_code (np_provider price) tool_name)
                (np_service_name price) calls (np_nanousd_per_call price)))"

definition build_native_tool_service_items ::
  "usage_pricing_input \<Rightarrow> string \<Rightarrow> bool \<Rightarrow> bool \<Rightarrow> (string \<Rightarrow> string \<Rightarrow> native_price option) \<Rightarrow>
     usage_service_item list \<times> int" where
  "build_native_tool_service_items inp billing_mode free_model billing_enabled price_of =
     (if billing_mode = ''self'' \<or> free_model \<or> \<not> billing_enabled then ([], 0)
      else
        let items = List.map_filter (native_item inp price_of) (normalize_usage_count_map (up_server_side_tool_usage inp))
        in (items, total_billed items))"

definition mcp_item :: "usage_pricing_input \<Rightarrow> mcp_tool_usage_input \<Rightarrow> usage_service_item option" where
  "mcp_item inp usage =
     (if mt_call_count usage \<le> 0 \<or> mt_price_nanousd usage \<le> 0 then None
      else Some (call_item inp (mcp_tool_service_code (mt_server_name usage) (mt_tool_name usage))
             (mcp_tool_service_name (mt_server_name usage) (mt_tool_name usage))
             (mt_call_count usage) (mt_price_nanousd usage)))"

definition build_mcp_tool_service_items :: "usage_pricing_input \<Rightarrow> string \<Rightarrow> usage_service_item list \<times> int" where
  "build_mcp_tool_service_items inp billing_mode =
     (if billing_mode = ''self'' then ([], 0)
      else let items = List.map_filter (mcp_item inp) (up_mcp_tool_usage inp) in (items, total_billed items))"

section \<open>The ledger row\<close>

text \<open>The price of the model for this request: what the code keeps in its local variables.\<close>

record model_bill =
  mb_pricing_mode :: string
  mb_base_rates :: token_rates
  mb_rates :: token_rates
  mb_base_call :: int
  mb_call_rate :: int
  mb_base_duration :: int
  mb_duration_rate :: int
  mb_tokens :: token_bill
  mb_call_billed :: int
  mb_duration_billed :: int
  mb_tiered_from_tokens :: int
  mb_tiered_up_to_tokens :: "int option"

definition no_model_bill :: "string \<Rightarrow> model_bill" where
  "no_model_bill mode =
     \<lparr>mb_pricing_mode = mode, mb_base_rates = no_token_rates, mb_rates = no_token_rates, mb_base_call = 0,
      mb_call_rate = 0, mb_base_duration = 0, mb_duration_rate = 0, mb_tokens = no_token_bill, mb_call_billed = 0,
      mb_duration_billed = 0, mb_tiered_from_tokens = 0, mb_tiered_up_to_tokens = None\<rparr>"

definition with_model_tokens :: "rate_multiplier \<Rightarrow> token_rates \<Rightarrow> token_counts \<Rightarrow> model_bill \<Rightarrow> model_bill" where
  "with_model_tokens m base k b =
     (let r = multiplied_rates m base in b\<lparr>mb_base_rates := base, mb_rates := r, mb_tokens := bill_tokens k r\<rparr>)"

definition billable_seconds :: "usage_pricing_input \<Rightarrow> int" where
  "billable_seconds inp =
     (if up_duration_billable inp then if up_duration_seconds inp < 0 then 0 else up_duration_seconds inp else 0)"

text \<open>
  The two switches over the pricing mode. Without a price to apply (self mode, a free model, only
  services) every rate stays zero; a tiered model without tiers resolves to the zero tier.
\<close>

definition bill_model ::
  "'f billing_service \<Rightarrow> usage_pricing_input \<Rightarrow> string \<Rightarrow> model_pricing option \<Rightarrow> rate_multiplier \<Rightarrow> token_counts \<Rightarrow>
     pricing_error + model_bill" where
  "bill_model s inp mode applied m k =
     (case applied of
        None \<Rightarrow> Inr (no_model_bill mode)
      | Some p \<Rightarrow>
          let none = no_model_bill mode;
              rates = (\<lambda>prices. base_token_rates prices (mp_cache_write_price_basis p)
                         (trim_space (up_provider_protocol inp)) (up_cache_timeout inp))
          in if mode = ''call'' then
               let rate = apply_rate_multiplier (mp_call_nanousd p) m
               in Inr (none\<lparr>mb_base_call := mp_call_nanousd p, mb_call_rate := rate,
                    mb_call_billed := wrap64 (call_count_or_one (up_call_count inp) * rate)\<rparr>)
             else if mode = ''duration'' then
               let rate = apply_rate_multiplier (mp_duration_nanousd p) m
               in Inr (none\<lparr>mb_base_duration := mp_duration_nanousd p, mb_duration_rate := rate,
                    mb_duration_billed := wrap64 (billable_seconds inp * rate)\<rparr>)
             else if mode = ''tiered'' then
               attempt (parse_tiered_pricing_tiers (bs_codec s) (trim_space (mp_tiered_pricing_json p))) (\<lambda>tiers.
                 let resolved = resolve_tiered_pricing_tier
                       (tiered_pricing_input_tokens (tk_input k) (tk_cache_read k) (tk_cache_write k)) tiers
                 in Inr (with_model_tokens m (rates (tier_prices (rt_tier resolved))) k
                      (none\<lparr>mb_tiered_from_tokens := rt_from_tokens resolved,
                            mb_tiered_up_to_tokens := rt_up_to_tokens resolved\<rparr>)))
             else Inr (with_model_tokens m (rates (flat_prices p)) k none))"

text \<open>Everything that was determined for a request; the snapshot is written from it.\<close>

record usage_bill =
  ub_mode :: string
  ub_multiplier :: rate_multiplier
  ub_currency :: string
  ub_tokens :: token_counts
  ub_model :: model_bill
  ub_service_items :: "usage_service_item list"
  ub_service_billed :: int
  ub_native_billed :: int
  ub_mcp_billed :: int
  ub_schedule :: "(string \<times> int) option"
  ub_billed_nanousd :: int
  ub_is_free_model :: bool
  ub_identity :: platform_model_identity

text \<open>The readings of the clock: for the subscription, for the ledger, and for each service.\<close>

record clock_readings =
  clock_subscription :: time
  clock_ledger :: time
  clock_services :: "nat \<Rightarrow> time"

definition ledger_at :: "usage_pricing_input \<Rightarrow> clock_readings \<Rightarrow> time" where
  "ledger_at inp clock = (if is_zero (up_billing_at inp) then clock_ledger clock else up_billing_at inp)"

definition is_service_only :: "usage_pricing_input \<Rightarrow> bool" where
  "is_service_only inp \<longleftrightarrow> up_service_only inp \<or> is_model_ref (trim_space (up_platform_model_name inp))"

definition mode_of_usage :: "'f billing_service \<Rightarrow> usage_pricing_input \<Rightarrow> string" where
  "mode_of_usage s inp =
     (case up_authorization inp of
        None \<Rightarrow> get_billing_mode s
      | Some a \<Rightarrow> if trim_space (ua_mode a) = [] then get_billing_mode s else trim_space (ua_mode a))"

definition multiplier_of_usage :: "usage_pricing_input \<Rightarrow> rate_multiplier" where
  "multiplier_of_usage inp =
     (let protocol = trim_space (up_provider_protocol inp);
          usage_speed = normalize_usage_speed (up_usage_speed inp);
          request_speed = normalize_usage_speed (up_request_speed inp);
          tier = resolve_billing_service_tier protocol (normalize_open_ai_service_tier (up_usage_service_tier inp))
      in resolve_usage_rate_multiplier protocol (trim_space (up_platform_model_name inp))
           (up_upstream_model_name inp) (is_anthropic_fast_mode protocol usage_speed request_speed) tier)"

definition price_required :: "usage_pricing_input \<Rightarrow> string \<Rightarrow> model_pricing option \<Rightarrow> bool" where
  "price_required inp mode pricing =
     (if mode = ''self'' \<or> is_service_only inp then False
      else case pricing of
        None \<Rightarrow> True
      | Some p \<Rightarrow> \<not> mp_is_free p \<and> normalize_pricing_mode (mp_pricing_mode p) = ''duration'' \<and>
          (\<not> up_duration_billable inp \<or> up_duration_seconds inp \<le> 0))"

text \<open>The price that applies: not in self mode, not for a free model, not for services alone.\<close>

definition applied_price :: "usage_pricing_input \<Rightarrow> string \<Rightarrow> model_pricing option \<Rightarrow> model_pricing option" where
  "applied_price inp mode pricing =
     (case pricing of
        None \<Rightarrow> None
      | Some p \<Rightarrow> if is_service_only inp \<or> mode = ''self'' \<or> mp_is_free p then None else Some p)"

definition schedule_of ::
  "'f billing_service \<Rightarrow> string \<Rightarrow> model_pricing option \<Rightarrow> time \<Rightarrow> (string \<times> int) option" where
  "schedule_of s mode pricing at =
     (case pricing of
        None \<Rightarrow> None
      | Some p \<Rightarrow>
          if mode = ''self'' \<or> mp_is_free p then None
          else resolve_schedule_period_json (schedules (bs_codec s)) (mp_schedule_pricing_json p) (bs_local_clock s at))"

definition scheduled :: "rate_multiplier \<Rightarrow> (string \<times> int) option \<Rightarrow> rate_multiplier" where
  "scheduled m schedule = (case schedule of None \<Rightarrow> m | Some (_, percent) \<Rightarrow> compose_rate_percent m percent)"

definition model_billed :: "model_bill \<Rightarrow> int" where
  "model_billed b = wrap64 (wrap64 (sum_token_bill (mb_tokens b) + mb_call_billed b) + mb_duration_billed b)"

text \<open>The part of the multiplier that depends on the user, and the group of the subscription.\<close>

definition user_multiplier ::
  "'f billing_service \<Rightarrow> billing_db \<Rightarrow> nat \<Rightarrow> nat \<Rightarrow> rate_multiplier \<Rightarrow> time \<Rightarrow>
     pricing_error + nat option \<times> rate_multiplier" where
  "user_multiplier s db user_id model_id m now =
     (let group = subscription_group db user_id now
      in attempt (resolve_group_rate_percent s user_id model_id group) (\<lambda>percent.
           Inr (group, compose_rate_percent m percent)))"

definition tool_items ::
  "'f billing_service \<Rightarrow> usage_pricing_input \<Rightarrow> string \<Rightarrow> model_pricing option \<Rightarrow>
     pricing_error + (usage_service_item list \<times> int) \<times> (usage_service_item list \<times> int)" where
  "tool_items s inp mode pricing =
     attempt (get_native_tool_billing_enabled s) (\<lambda>enabled.
     attempt (bs_native_tools s) (\<lambda>price_of.
       Inr (build_native_tool_service_items inp mode (case pricing of None \<Rightarrow> False | Some p \<Rightarrow> mp_is_free p) enabled
              (price_of (get_native_tool_pricing_json s)),
            build_mcp_tool_service_items inp mode)))"

definition bill_usage ::
  "'f billing_service \<Rightarrow> billing_db \<Rightarrow> usage_pricing_input \<Rightarrow> clock_readings \<Rightarrow> pricing_error + usage_bill" where
  "bill_usage s db inp clock =
     (let name = trim_space (up_platform_model_name inp); mode = mode_of_usage s inp;
          m = multiplier_of_usage inp;
          k = with_cache_writes (trim_space (up_provider_protocol inp)) (up_cache_timeout inp) (up_tokens inp)
      in
      attempt (unless_missing no_identity (resolve_platform_model_identity s name)) (\<lambda>identity.
      attempt (if mode = ''self'' then Inr (None, m)
               else user_multiplier s db (up_user_id inp) (pi_model_id identity) m (clock_subscription clock))
        (\<lambda>(group, m).
      attempt (model_pricing_or_none s name) (\<lambda>pricing.
        let schedule = schedule_of s mode pricing (ledger_at inp clock); m = scheduled m schedule;
            pricing_mode = (case pricing of None \<Rightarrow> ''token'' | Some p \<Rightarrow> normalize_pricing_mode (mp_pricing_mode p));
            free = (case pricing of None \<Rightarrow> False | Some p \<Rightarrow> mp_is_free p)
        in if price_required inp mode pricing then Inl ErrModelPricingRequired
           else
             attempt (bill_model s inp pricing_mode (applied_price inp mode pricing) m k) (\<lambda>model.
             attempt (build_usage_service_items s
                 (map (\<lambda>(i, x). (x, clock_services clock i)) (enumerate 0 (up_service_items inp)))
                 mode (up_user_id inp) group) (\<lambda>(items, services).
             attempt (tool_items s inp mode pricing) (\<lambda>((native, native_billed), (mcp, mcp_billed)).
               let services = wrap64 (wrap64 (services + native_billed) + mcp_billed);
                   billed = wrap64 (model_billed model + services)
               in Inr \<lparr>ub_mode = mode, ub_multiplier = normalize_billing_rate_multiplier m,
                    ub_currency = (case pricing of None \<Rightarrow> ''USD'' | Some p \<Rightarrow> mp_currency p), ub_tokens = k,
                    ub_model = model, ub_service_items = items @ native @ mcp, ub_service_billed = services,
                    ub_native_billed = native_billed, ub_mcp_billed = mcp_billed, ub_schedule = schedule,
                    ub_billed_nanousd = billed, ub_is_free_model = free \<and> billed \<le> 0,
                    ub_identity = identity\<rparr>)))))))"

definition build_usage_ledger ::
  "'f billing_service \<Rightarrow> (usage_pricing_input \<Rightarrow> usage_bill \<Rightarrow> pricing_snapshot) \<Rightarrow> billing_db \<Rightarrow>
     usage_pricing_input \<Rightarrow> clock_readings \<Rightarrow> pricing_error + usage_ledger" where
  "build_usage_ledger s snapshot db inp clock =
     attempt (bill_usage s db inp clock) (\<lambda>bill.
       let k = ub_tokens bill; protocol = trim_space (up_provider_protocol inp); at = ledger_at inp clock
       in Inr \<lparr>ul_id = 0, ul_user_id = up_user_id inp,
            ul_ref_no = (case up_authorization inp of None \<Rightarrow> [] | Some a \<Rightarrow> trim_space (ua_ref_no a)),
            ul_conversation_id = up_conversation_id inp, ul_provider_protocol = protocol,
            ul_upstream_name = trim_space (up_upstream_name inp),
            ul_platform_model_name = trim_space (up_platform_model_name inp),
            ul_routed_binding_code = trim_space (up_routed_binding_code inp),
            ul_upstream_model_name = trim_space (up_upstream_model_name inp),
            ul_is_free_model = ub_is_free_model bill, ul_billing_at = at, ul_usage_date = bs_day_start s at,
            ul_input_tokens = tk_input k, ul_cache_read_tokens = tk_cache_read k,
            ul_cache_write_tokens = tk_cache_write k, ul_cache_write_5m_tokens = tk_cache_write_5m k,
            ul_cache_write_1h_tokens = tk_cache_write_1h k, ul_output_tokens = tk_output k,
            ul_reasoning_tokens = tk_reasoning k, ul_call_count = call_count_or_one (up_call_count inp),
            ul_duration_seconds = billable_seconds inp, ul_latency_ms = up_latency_ms inp,
            ul_usage_speed = resolve_billing_speed protocol (normalize_usage_speed (up_usage_speed inp))
              (normalize_usage_speed (up_request_speed inp)),
            ul_service_tier = resolve_billing_service_tier protocol
              (normalize_open_ai_service_tier (up_usage_service_tier inp)),
            ul_billed_currency = ub_currency bill, ul_billed_nanousd = ub_billed_nanousd bill,
            ul_balance_after_nanousd = None, ul_pricing_snapshot_json = snapshot inp bill\<rparr>)"

section \<open>Estimates\<close>

record usage_estimate_input =
  ue_platform_model_name :: string
  ue_provider_protocol :: string
  ue_upstream_model_name :: string
  ue_cache_timeout :: string
  ue_request_speed :: string
  ue_request_service_tier :: string
  ue_input_tokens :: int
  ue_cache_read_tokens :: int
  ue_cache_write_tokens :: int
  ue_output_tokens :: int
  ue_call_count :: int
  ue_duration_seconds :: int

text \<open>\<open>rates\<close> are the prices of input, cache read, cache write and output.\<close>

definition calc_estimated_token_nanousd ::
  "usage_estimate_input \<Rightarrow> int \<times> int \<times> int \<times> int \<Rightarrow> rate_multiplier \<Rightarrow> int" where
  "calc_estimated_token_nanousd inp rates m =
     (case rates of (input, cache_read, cache_write, output) \<Rightarrow>
       let part = (\<lambda>tokens rate. calc_nanousd_by_token (clamp_non_negative tokens) (apply_rate_multiplier rate m))
       in wrap64 (wrap64 (wrap64 (part (ue_input_tokens inp) input + part (ue_cache_read_tokens inp) cache_read) +
            part (ue_cache_write_tokens inp) cache_write) + part (ue_output_tokens inp) output))"

definition estimate_at_price ::
  "'f billing_service \<Rightarrow> usage_estimate_input \<Rightarrow> model_pricing \<Rightarrow> rate_multiplier \<Rightarrow> pricing_error + int" where
  "estimate_at_price s inp p m =
     (let mode = normalize_pricing_mode (mp_pricing_mode p);
          estimate = (\<lambda>(input, cache_read, cache_write, output). calc_estimated_token_nanousd inp
            (input, cache_read,
             resolve_cache_write_nanousd_per_m_tokens cache_write (mp_cache_write_price_basis p)
               (trim_space (ue_provider_protocol inp)) (ue_cache_timeout inp), output) m)
      in if mode = ''call'' then
           Inr (wrap64 (call_count_or_one (ue_call_count inp) * apply_rate_multiplier (mp_call_nanousd p) m))
         else if mode = ''duration'' then
           Inr (wrap64 (clamp_non_negative (ue_duration_seconds inp) * apply_rate_multiplier (mp_duration_nanousd p) m))
         else if mode = ''tiered'' then
           attempt (parse_tiered_pricing_tiers (bs_codec s) (mp_tiered_pricing_json p)) (\<lambda>tiers.
             Inr (estimate (tier_prices (rt_tier (resolve_tiered_pricing_tier
               (tiered_pricing_input_tokens (ue_input_tokens inp) (ue_cache_read_tokens inp)
                  (ue_cache_write_tokens inp)) tiers)))))
         else Inr (estimate (flat_prices p)))"

definition estimate_usage_nanousd ::
  "'f billing_service \<Rightarrow> billing_db \<Rightarrow> nat \<Rightarrow> usage_estimate_input \<Rightarrow> time \<Rightarrow> time \<Rightarrow> pricing_error + int" where
  "estimate_usage_nanousd s db user_id inp now_subscription now_schedule =
     (let name = trim_space (ue_platform_model_name inp);
          protocol = trim_space (ue_provider_protocol inp);
          speed = normalize_usage_speed (ue_request_speed inp);
          tier = normalize_open_ai_service_tier (ue_request_service_tier inp);
          m = resolve_usage_rate_multiplier protocol name (ue_upstream_model_name inp)
                (is_anthropic_fast_mode protocol [] speed) (resolve_billing_service_tier protocol tier)
      in
      attempt (unless_missing no_identity (resolve_platform_model_identity s name)) (\<lambda>identity.
      attempt (unless_missing None (map_sum (\<lambda>e. e) Some (get_resolved_model_pricing s name))) (\<lambda>pricing.
        case pricing of
          None \<Rightarrow> Inr 0
        | Some p \<Rightarrow>
            if mp_is_free p then Inr 0
            else
              attempt (user_multiplier s db user_id (pi_model_id identity) m now_subscription) (\<lambda>(_, m).
                estimate_at_price s inp p
                  (scheduled m (resolve_schedule_period_json (schedules (bs_codec s)) (mp_schedule_pricing_json p)
                     (bs_local_clock s now_schedule)))))))"

end
