(* ===== verification/Authorization.thy ===== *)
theory Authorization
  imports Usage_Bill Payments
begin

text \<open>
  A paid request from start to end (application/billing/service.go). \<open>AuthorizeUsage\<close> fixes the billing
  mode and reserves a budget, \<open>EnsureUsageAuthorizationBudget\<close> raises it to the estimate, and
  \<open>RecordUsageWithAuthorization\<close> settles the ledger row against the mode that was fixed; a request that
  costs nothing releases its budget, one whose bill failed keeps it for reconciliation.
\<close>

type_synonym 'a service_result = "(pricing_error + 'a) \<times> billing_db"

definition reservation_error :: "billing_error \<Rightarrow> pricing_error" where
  "reservation_error e =
     (case e of
        ErrUsageReservationLimitExceeded \<Rightarrow> ErrUsageConcurrencyLimitExceeded
      | ErrInsufficientBalance \<Rightarrow> ErrUsageBalanceInsufficient
      | ErrConflict \<Rightarrow> ErrUsageReservationConflict
      | e \<Rightarrow> Repository e)"

text \<open>The settlement and the raising of a budget do not map the limit of active requests.\<close>

definition settlement_error :: "billing_error \<Rightarrow> pricing_error" where
  "settlement_error e =
     (case e of
        ErrInsufficientBalance \<Rightarrow> ErrUsageBalanceInsufficient
      | ErrConflict \<Rightarrow> ErrUsageReservationConflict
      | e \<Rightarrow> Repository e)"

definition mapped :: "(billing_error \<Rightarrow> pricing_error) \<Rightarrow> ('a \<Rightarrow> 'b) \<Rightarrow> 'a tx_result \<Rightarrow> 'b service_result" where
  "mapped err f = (\<lambda>(r, db). (map_sum err f r, db))"

section \<open>Authorizing\<close>

definition period_request_of ::
  "'f billing_service \<Rightarrow> billing_db \<Rightarrow> nat \<Rightarrow> string \<Rightarrow> int \<Rightarrow> time \<Rightarrow> billing_error + reservation_request" where
  "period_request_of s db user_id ref_no requested now =
     (case current_period_plan (bs_month s) db user_id now now of
        Inl e \<Rightarrow> Inl e
      | Inr (plan, start_at, end_at) \<Rightarrow>
          Inr \<lparr>rr_user_id = user_id, rr_ref_no = ref_no, rr_mode = ''period'', rr_requested_nanousd = requested,
               rr_period_credit_nanousd = plan_period_credit_nanousd plan, rr_period_start_at = Some start_at,
               rr_period_end_at = Some end_at\<rparr>)"

definition usage_request_of :: "nat \<Rightarrow> string \<Rightarrow> int \<Rightarrow> reservation_request" where
  "usage_request_of user_id ref_no requested =
     \<lparr>rr_user_id = user_id, rr_ref_no = ref_no, rr_mode = ''usage'', rr_requested_nanousd = requested,
      rr_period_credit_nanousd = 0, rr_period_start_at = None, rr_period_end_at = None\<rparr>"

text \<open>The request for a budget; \<open>None\<close> when the mode or a free model needs none.\<close>

definition budget_request ::
  "'f billing_service \<Rightarrow> billing_db \<Rightarrow> nat \<Rightarrow> string \<Rightarrow> string \<Rightarrow> time \<Rightarrow> pricing_error + reservation_request option" where
  "budget_request s db user_id platform_model_name ref_no now =
     (let mode = trim_space (get_billing_mode s)
      in if mode \<noteq> ''usage'' \<and> mode \<noteq> ''period'' then Inr None
         else
           attempt (if is_model_ref platform_model_name then Inr True
                    else ensure_model_pricing_authorizable s platform_model_name) (\<lambda>paid.
             if \<not> paid then Inr None
             else attempt (get_billing_prepaid_amount_nanousd s) (\<lambda>requested.
               if mode = ''period''
               then map_sum Repository Some (period_request_of s db user_id ref_no requested now)
               else Inr (Some (usage_request_of user_id ref_no requested)))))"

definition authorize_usage ::
  "'f billing_service \<Rightarrow> nat \<Rightarrow> string \<Rightarrow> string \<Rightarrow> time \<Rightarrow> time \<Rightarrow> billing_db \<Rightarrow> usage_authorization service_result" where
  "authorize_usage s user_id platform_model_name ref_no now_plan now_reserve db =
     (let auth = \<lparr>ua_mode = trim_space (get_billing_mode s), ua_ref_no = trim_space ref_no, ua_reservation = None\<rparr>
      in case budget_request s db user_id platform_model_name (ua_ref_no auth) now_plan of
           Inl e \<Rightarrow> (Inl e, db)
         | Inr None \<Rightarrow> (Inr auth, db)
         | Inr (Some request) \<Rightarrow>
             mapped reservation_error (\<lambda>r. auth\<lparr>ua_reservation := Some r\<rparr>)
               (reserve_usage_balance request now_reserve db))"

section \<open>While the request runs\<close>

definition ensure_usage_authorization_budget ::
  "usage_authorization option \<Rightarrow> int \<Rightarrow> time \<Rightarrow> billing_db \<Rightarrow> unit service_result" where
  "ensure_usage_authorization_budget auth required now db =
     (case Option.bind auth ua_reservation of
        None \<Rightarrow> (Inr (), db)
      | Some r \<Rightarrow>
          if required \<le> 0 \<or> required \<le> wrap64 (ur_balance_nanousd r + ur_period_credit_nanousd r) then (Inr (), db)
          else mapped settlement_error (\<lambda>u. u)
                 (raise_usage_balance_reservation (ur_user_id r) (ur_ref_no r) required now db))"

definition on_reservation ::
  "usage_authorization option \<Rightarrow> (nat \<Rightarrow> string \<Rightarrow> billing_db \<Rightarrow> unit tx_result) \<Rightarrow> billing_db \<Rightarrow> unit service_result" where
  "on_reservation auth operation db =
     (case Option.bind auth ua_reservation of
        None \<Rightarrow> (Inr (), db)
      | Some r \<Rightarrow> mapped Repository (\<lambda>u. u) (operation (ur_user_id r) (ur_ref_no r) db))"

definition release_usage_authorization ::
  "usage_authorization option \<Rightarrow> time \<Rightarrow> billing_db \<Rightarrow> unit service_result" where
  "release_usage_authorization auth now db =
     on_reservation auth (\<lambda>u ref_no. release_usage_balance_reservation u ref_no now) db"

definition renew_usage_authorization ::
  "usage_authorization option \<Rightarrow> time \<Rightarrow> billing_db \<Rightarrow> unit service_result" where
  "renew_usage_authorization auth now db =
     on_reservation auth (\<lambda>u ref_no. renew_usage_balance_reservation u ref_no now) db"

definition mark_usage_authorization_for_reconciliation ::
  "usage_authorization option \<Rightarrow> string \<Rightarrow> time \<Rightarrow> billing_db \<Rightarrow> unit service_result" where
  "mark_usage_authorization_for_reconciliation auth failure_code now db =
     on_reservation auth (\<lambda>u ref_no. mark_usage_reservation_reconciliation_required u ref_no failure_code now) db"

section \<open>Recording\<close>

definition authorized_mode :: "'f billing_service \<Rightarrow> usage_authorization option \<Rightarrow> string" where
  "authorized_mode s auth =
     (let mode = (case auth of None \<Rightarrow> [] | Some a \<Rightarrow> trim_space (ua_mode a))
      in if mode = [] then get_billing_mode s else mode)"

text \<open>The period a ledger row is settled in: the one reserved, or the current one of the plan.\<close>

definition settlement_period ::
  "'f billing_service \<Rightarrow> usage_ledger \<Rightarrow> usage_reservation option \<Rightarrow> time \<Rightarrow> billing_db \<Rightarrow>
     billing_error + time \<times> time \<times> int" where
  "settlement_period s usage reservation clock db =
     (let of_plan = (case current_period_plan (bs_month s) db (ul_user_id usage) clock (ul_billing_at usage) of
            Inl e \<Rightarrow> Inl e
          | Inr (plan, start_at, end_at) \<Rightarrow> Inr (start_at, end_at, plan_period_credit_nanousd plan))
      in case reservation of
           None \<Rightarrow> of_plan
         | Some r \<Rightarrow>
             if ur_mode r = ''period'' then
               (case (ur_period_start_at r, ur_period_end_at r) of
                  (Some start_at, Some end_at) \<Rightarrow>
                    if \<not> start_at < end_at \<or> ur_period_limit_nanousd r < 0 then Inl ErrInvalidInput
                    else Inr (start_at, end_at, ur_period_limit_nanousd r)
                | _ \<Rightarrow> Inl ErrInvalidInput)
             else of_plan)"

definition record_usage_with_authorization ::
  "'f billing_service \<Rightarrow> usage_ledger \<Rightarrow> usage_authorization option \<Rightarrow> time \<Rightarrow> time \<Rightarrow> time \<Rightarrow> billing_db \<Rightarrow>
     usage_ledger service_result" where
  "record_usage_with_authorization s usage auth clock now settled_at db =
     (let mode = authorized_mode s auth; reservation = Option.bind auth ua_reservation
      in if mode = ''usage'' \<or> (mode \<noteq> ''period'' \<and> reservation \<noteq> None)
         then mapped settlement_error (\<lambda>l. l) (add_usage_and_settle_balance usage reservation settled_at db)
         else if mode = ''period'' then
           if is_zero (ul_billing_at usage) \<or> is_zero (ul_usage_date usage)
           then (Inl (Repository ErrInvalidInput), db)
           else case settlement_period s usage reservation clock db of
             Inl e \<Rightarrow> (Inl (Repository e), db)
           | Inr (start_at, end_at, credit) \<Rightarrow>
               mapped settlement_error (\<lambda>l. l)
                 (add_period_usage_and_settle_overage usage start_at end_at credit reservation now settled_at db)
         else mapped Repository (\<lambda>l. l) (add_usage usage db))"

end
