(* ===== verification/Usage_Props.thy ===== *)
theory Usage_Props
  imports Usage_Bill Settlement
begin

text \<open>
  What a ledger row holds. Amounts are rounded to the nearest nano dollar; the amount billed is that of
  the model and of the items; self mode bills nothing and a model of the user's own key only services;
  the free mark never hides a charge; and the estimate before the request is what the ledger bills for it.
\<close>

section \<open>The steps of a bill\<close>

lemma guard_eq_Inr_iff: "(if P then Inl e else r) = Inr b \<longleftrightarrow> \<not> P \<and> r = Inr b"
  by simp

text \<open>A bill that was made: its steps all succeeded.\<close>

lemma bill_usageE:
  assumes "bill_usage s db inp clock = Inr b"
  obtains identity group m0 pricing items services native native_billed mcp mcp_billed where
    "unless_missing no_identity (resolve_platform_model_identity s (trim_space (up_platform_model_name inp))) = Inr identity"
    "(if mode_of_usage s inp = ''self'' then Inr (None, multiplier_of_usage inp)
      else user_multiplier s db (up_user_id inp) (pi_model_id identity) (multiplier_of_usage inp)
             (clock_subscription clock)) = Inr (group, m0)"
    "model_pricing_or_none s (trim_space (up_platform_model_name inp)) = Inr pricing"
    "\<not> price_required inp (mode_of_usage s inp) pricing"
    "ub_schedule b = schedule_of s (mode_of_usage s inp) pricing (ledger_at inp clock)"
    "bill_model s inp (case pricing of None \<Rightarrow> ''token'' | Some p \<Rightarrow> normalize_pricing_mode (mp_pricing_mode p))
       (applied_price inp (mode_of_usage s inp) pricing) (scheduled m0 (ub_schedule b)) (ub_tokens b) = Inr (ub_model b)"
    "build_usage_service_items s (map (\<lambda>(i, x). (x, clock_services clock i)) (enumerate 0 (up_service_items inp)))
       (mode_of_usage s inp) (up_user_id inp) group = Inr (items, services)"
    "tool_items s inp (mode_of_usage s inp) pricing = Inr ((native, native_billed), (mcp, mcp_billed))"
    "ub_mode b = mode_of_usage s inp" "ub_service_items b = items @ native @ mcp"
    "ub_service_billed b = wrap64 (wrap64 (services + native_billed) + mcp_billed)"
    "ub_billed_nanousd b = wrap64 (model_billed (ub_model b) + ub_service_billed b)"
    "ub_is_free_model b \<longleftrightarrow> (case pricing of None \<Rightarrow> False | Some p \<Rightarrow> mp_is_free p) \<and> ub_billed_nanousd b \<le> 0"
    "ub_tokens b = with_cache_writes (trim_space (up_provider_protocol inp)) (up_cache_timeout inp) (up_tokens inp)"
  using assms unfolding bill_usage_def Let_def attempt_eq_Inr_iff
  by (elim exE conjE) (auto simp: attempt_eq_Inr_iff guard_eq_Inr_iff split del: if_split if_split_asm)

section \<open>Sums modulo the machine word\<close>

lemma wrap64_add_left [simp]: "wrap64 (wrap64 a + b) = wrap64 (a + b)"
  by (simp add: wrap64_def mod_simps algebra_simps)

lemma wrap64_add_right [simp]: "wrap64 (a + wrap64 b) = wrap64 (a + b)"
  by (simp add: wrap64_def mod_simps algebra_simps)

lemma wrap64_add_inner [simp]: "wrap64 (a + wrap64 b + c) = wrap64 (a + b + c)"
  by (metis wrap64_add_left wrap64_add_right)

lemma in_int64_zero [simp]: "in_int64 0"
  by (simp add: in_int64_def min_int64_def max_int64_def)

lemma wrap64_zero [simp]: "wrap64 0 = 0"
  by simp

lemma total_billed_sum: "total_billed items = wrap64 (sum_list (map si_billed_nanousd items))"
proof -
  have "fold (\<lambda>item billed. wrap64 (billed + si_billed_nanousd item)) items (wrap64 a) =
      wrap64 (a + sum_list (map si_billed_nanousd items))" for a
    by (induction items arbitrary: a) (simp_all add: algebra_simps)
  from this [of 0] show ?thesis by (simp add: total_billed_def)
qed

lemma service_items_sum:
  "build_usage_service_items s inps mode uid g = Inr (items, billed) \<Longrightarrow>
     billed = wrap64 (sum_list (map si_billed_nanousd items))"
  by (induction s inps mode uid g arbitrary: items billed rule: build_usage_service_items.induct)
    (auto simp: attempt_eq_Inr_iff)

lemma native_items_sum:
  "build_native_tool_service_items inp mode free enabled price_of = (items, billed) \<Longrightarrow>
     billed = wrap64 (sum_list (map si_billed_nanousd items))"
  by (auto simp: build_native_tool_service_items_def total_billed_sum Let_def split: if_splits)

lemma mcp_items_sum:
  "build_mcp_tool_service_items inp mode = (items, billed) \<Longrightarrow>
     billed = wrap64 (sum_list (map si_billed_nanousd items))"
  by (auto simp: build_mcp_tool_service_items_def total_billed_sum Let_def split: if_splits)

lemma tool_itemsD:
  assumes "tool_items s inp mode pricing = Inr ((native, native_billed), (mcp, mcp_billed))"
  shows "\<exists>free enabled price_of. build_native_tool_service_items inp mode free enabled price_of = (native, native_billed)"
    "build_mcp_tool_service_items inp mode = (mcp, mcp_billed)"
  using assms by (auto simp: tool_items_def attempt_eq_Inr_iff)

lemma bill_is_the_sum_of_its_parts:
  assumes "bill_usage s db inp clock = Inr b"
  shows "ub_billed_nanousd b =
           wrap64 (model_billed (ub_model b) + sum_list (map si_billed_nanousd (ub_service_items b)))"
  using assms
proof (rule bill_usageE)
  fix items services native native_billed mcp mcp_billed pricing group identity m0
  assume items: "build_usage_service_items s (map (\<lambda>(i, x). (x, clock_services clock i)) (enumerate 0 (up_service_items inp)))
      (mode_of_usage s inp) (up_user_id inp) group = Inr (items, services)"
    and tools: "tool_items s inp (mode_of_usage s inp) pricing = Inr ((native, native_billed), (mcp, mcp_billed))"
    and b: "ub_service_items b = items @ native @ mcp"
      "ub_service_billed b = wrap64 (wrap64 (services + native_billed) + mcp_billed)"
      "ub_billed_nanousd b = wrap64 (model_billed (ub_model b) + ub_service_billed b)"
  show ?thesis
    using service_items_sum [OF items] tool_itemsD(1) [OF tools] mcp_items_sum [OF tool_itemsD(2) [OF tools]] b
    by (auto dest!: native_items_sum simp: add.assoc [symmetric])
qed

section \<open>What is not billed\<close>

lemma unpriced_item_billed [simp]: "si_billed_nanousd (unpriced_item inp) = 0"
  by (simp add: unpriced_item_def Let_def zero_item_def)

lemma no_model_billed [simp]: "model_billed (no_model_bill mode) = 0"
  by (simp add: model_billed_def no_model_bill_def no_token_bill_def sum_token_bill_def)

lemma bill_model_none [simp]: "bill_model s inp mode None m k = Inr (no_model_bill mode)"
  by (simp add: bill_model_def)

lemma applied_price_none [simp]:
  "applied_price inp ''self'' pricing = None"
  "is_service_only inp \<Longrightarrow> applied_price inp mode pricing = None"
  by (simp_all add: applied_price_def split: option.splits)

lemma self_item_unbilled:
  "build_usage_service_item s inp ''self'' uid g now = Inr item \<Longrightarrow> si_billed_nanousd item = 0"
  by (auto simp: build_usage_service_item_def Let_def attempt_eq_Inr_iff split: if_splits)

lemma self_items_unbilled:
  "build_usage_service_items s inps ''self'' uid g = Inr (items, billed) \<Longrightarrow>
     \<forall>item \<in> set items. si_billed_nanousd item = 0"
  by (induction s inps "''self''" uid g arbitrary: items billed rule: build_usage_service_items.induct)
    (auto simp: attempt_eq_Inr_iff dest: self_item_unbilled)

lemma self_tools_empty:
  "tool_items s inp ''self'' pricing = Inr ((native, native_billed), (mcp, mcp_billed)) \<Longrightarrow> native = [] \<and> mcp = []"
  by (auto simp: tool_items_def attempt_eq_Inr_iff build_native_tool_service_items_def build_mcp_tool_service_items_def)

lemma sum_list_0_iff_all: "\<forall>x \<in> set xs. f x = 0 \<Longrightarrow> sum_list (map f xs) = (0 :: int)"
  by (induction xs) auto

text \<open>
  A request in self mode costs nothing, whatever its tokens, services and tools are; and for a model
  of the user's own key the price of the model is not billed, only the services and tools.
\<close>

theorem own_cost_is_not_billed:
  assumes "bill_usage s db inp clock = Inr b"
  shows "(ub_mode b = ''self'' \<longrightarrow> ub_billed_nanousd b = 0) \<and>
    (is_model_ref (trim_space (up_platform_model_name inp)) \<longrightarrow>
       ub_billed_nanousd b = wrap64 (sum_list (map si_billed_nanousd (ub_service_items b))))"
  using assms
proof (rule bill_usageE)
  fix pricing m0 items services native native_billed mcp mcp_billed group
  assume mode: "ub_mode b = mode_of_usage s inp"
    and model: "bill_model s inp (case pricing of None \<Rightarrow> ''token'' | Some p \<Rightarrow> normalize_pricing_mode (mp_pricing_mode p))
      (applied_price inp (mode_of_usage s inp) pricing) (scheduled m0 (ub_schedule b)) (ub_tokens b) = Inr (ub_model b)"
    and items: "build_usage_service_items s (map (\<lambda>(i, x). (x, clock_services clock i)) (enumerate 0 (up_service_items inp)))
      (mode_of_usage s inp) (up_user_id inp) group = Inr (items, services)"
    and tools: "tool_items s inp (mode_of_usage s inp) pricing = Inr ((native, native_billed), (mcp, mcp_billed))"
    and b: "ub_service_items b = items @ native @ mcp"
  have no_model: "model_billed (ub_model b) = 0" if "applied_price inp (mode_of_usage s inp) pricing = None"
    using model that by (auto dest: sym)
  have "ub_billed_nanousd b = 0" if self: "ub_mode b = ''self''"
  proof -
    have "\<forall>item \<in> set (ub_service_items b). si_billed_nanousd item = 0"
      using self_items_unbilled [OF items [folded mode, unfolded self]]
        self_tools_empty [OF tools [folded mode, unfolded self]] b by auto
    then have "sum_list (map si_billed_nanousd (ub_service_items b)) = 0"
      by (intro sum_list_0_iff_all)
    moreover have "mode_of_usage s inp = ''self''" using mode self by simp
    ultimately show ?thesis using no_model by (simp add: bill_is_the_sum_of_its_parts [OF assms])
  qed
  moreover have "ub_billed_nanousd b = wrap64 (sum_list (map si_billed_nanousd (ub_service_items b)))"
    if "is_model_ref (trim_space (up_platform_model_name inp))"
    using no_model that by (simp add: bill_is_the_sum_of_its_parts [OF assms] is_service_only_def)
  ultimately show ?thesis by blast
qed

section \<open>Services with a duration\<close>

lemma unpriced_item_fields [simp]:
  "si_duration_seconds (unpriced_item inp) = 0"
  "si_duration_billed (unpriced_item inp) = 0"
  "si_call_billed (unpriced_item inp) = 0"
  "si_bill (unpriced_item inp) = no_token_bill"
  by (simp_all add: unpriced_item_def Let_def zero_item_def)

lemma duration_item_unbilled:
  assumes "price_item s inp p m item = Inr item'" "si_pricing_mode item' = ''duration''"
    "si_duration_seconds item = 0" "si_call_billed item = 0" "si_bill item = no_token_bill"
  shows "si_billed_nanousd item' = 0"
  using assms
  by (auto simp: price_item_def Let_def attempt_eq_Inr_iff with_token_bill_def item_sum_def sum_token_bill_def
      no_token_bill_def split: if_splits)

lemma bill_service_item_duration:
  assumes "bill_service_item s inp pricing m now item = Inr item'" "si_pricing_mode item' = ''duration''"
    "si_duration_seconds item = 0" "si_call_billed item = 0" "si_bill item = no_token_bill" "si_billed_nanousd item = 0"
  shows "si_billed_nanousd item' = 0"
  using assms
  by (auto simp: bill_service_item_def Let_def elim!: duration_item_unbilled split: option.splits if_split_asm)

lemma build_item_cases:
  assumes "build_usage_service_item s inp mode uid g now = Inr item"
  obtains m where "item = unpriced_item inp\<lparr>si_rate_multiplier := m\<rparr>"
  | pricing m m' where
      "bill_service_item s inp pricing m now (unpriced_item inp\<lparr>si_rate_multiplier := m'\<rparr>) = Inr item"
proof (cases "is_model_ref (si_platform_model_name (unpriced_item inp))")
  case True
  then show ?thesis
    using assms that(1) [of "si_rate_multiplier (unpriced_item inp)"] by (simp add: build_usage_service_item_def Let_def)
next
  case False
  then show ?thesis
    using assms that(1) that(2)
    by (simp add: build_usage_service_item_def Let_def attempt_eq_Inr_iff split: if_split_asm) blast+
qed

text \<open>
  A service that its model prices by the second is never billed: the seconds of an item are not set
  anywhere, while \<open>BuildUsageLedger\<close> refuses a model with such a price when it has no seconds.
\<close>

theorem duration_service_costs_nothing:
  assumes "build_usage_service_item s inp mode uid g now = Inr item"
    and "si_pricing_mode item = ''duration''"
  shows "si_billed_nanousd item = 0"
  using assms(1)
proof (cases rule: build_item_cases)
  case (2 pricing m m')
  then show ?thesis using assms(2) by (rule bill_service_item_duration) simp_all
qed simp

section \<open>Tiers\<close>

definition tier_limit :: "tiered_pricing_tier list \<Rightarrow> nat \<Rightarrow> int" where
  "tier_limit tiers i = (if i = 0 then 0 else tier_up_to_tokens (tiers ! (i - 1)))"

lemma find_tier_index:
  assumes "ts \<noteq> []"
  shows "\<exists>i < length ts.
    rt_tier (find_tier input previous last_from (last ts) ts) = ts ! i \<and>
    list_all (\<lambda>t. 0 < tier_up_to_tokens t \<and> tier_up_to_tokens t < input) (take i ts) \<and>
    (Suc i < length ts \<longrightarrow> tier_up_to_tokens (ts ! i) \<le> 0 \<or> input \<le> tier_up_to_tokens (ts ! i)) \<and>
    rt_from_tokens (find_tier input previous last_from (last ts) ts) =
      (if i = 0 then previous else tier_up_to_tokens (ts ! (i - 1))) \<and>
    rt_up_to_tokens (find_tier input previous last_from (last ts) ts) =
      (if 0 < tier_up_to_tokens (ts ! i) \<and> input \<le> tier_up_to_tokens (ts ! i)
       then Some (tier_up_to_tokens (ts ! i)) else None)"
  using assms
proof (induction ts arbitrary: previous last_from)
  case (Cons t ts)
  show ?case
  proof (cases "tier_up_to_tokens t \<le> 0 \<or> input \<le> tier_up_to_tokens t")
    case True
    then show ?thesis by (intro exI [of _ 0]) (auto simp: tier_upper_limit_def)
  next
    case skip: False
    show ?thesis
    proof (cases "ts = []")
      case True
      then show ?thesis using skip by (intro exI [of _ 0]) auto
    next
      case False
      obtain i where i: "i < length ts"
        and "rt_tier (find_tier input (tier_up_to_tokens t) previous (last ts) ts) = ts ! i"
        and "list_all (\<lambda>t. 0 < tier_up_to_tokens t \<and> tier_up_to_tokens t < input) (take i ts)"
        and "Suc i < length ts \<longrightarrow> tier_up_to_tokens (ts ! i) \<le> 0 \<or> input \<le> tier_up_to_tokens (ts ! i)"
        and "rt_from_tokens (find_tier input (tier_up_to_tokens t) previous (last ts) ts) =
          (if i = 0 then tier_up_to_tokens t else tier_up_to_tokens (ts ! (i - 1)))"
        and "rt_up_to_tokens (find_tier input (tier_up_to_tokens t) previous (last ts) ts) =
          (if 0 < tier_up_to_tokens (ts ! i) \<and> input \<le> tier_up_to_tokens (ts ! i)
           then Some (tier_up_to_tokens (ts ! i)) else None)"
        using Cons.IH [OF False, of "tier_up_to_tokens t" previous] by blast
      then show ?thesis using skip False by (intro exI [of _ "Suc i"]) (cases i; auto)
    qed
  qed
qed simp

text \<open>
  The tier of a request is the first whose limit its input does not exceed, a limit of zero standing
  for none, and the last one beyond all limits; the snapshot names the limit before it and its own.
\<close>

theorem resolved_tier_exact:
  assumes "tiers \<noteq> []"
  shows "\<exists>i < length tiers.
    rt_tier (resolve_tiered_pricing_tier input tiers) = tiers ! i \<and>
    list_all (\<lambda>t. 0 < tier_up_to_tokens t \<and> tier_up_to_tokens t < input) (take i tiers) \<and>
    (Suc i < length tiers \<longrightarrow> tier_up_to_tokens (tiers ! i) \<le> 0 \<or> input \<le> tier_up_to_tokens (tiers ! i)) \<and>
    rt_from_tokens (resolve_tiered_pricing_tier input tiers) = tier_limit tiers i \<and>
    rt_up_to_tokens (resolve_tiered_pricing_tier input tiers) =
      (if 0 < tier_up_to_tokens (tiers ! i) \<and> input \<le> tier_up_to_tokens (tiers ! i)
       then Some (tier_up_to_tokens (tiers ! i)) else None)"
  using find_tier_index [OF assms, of input 0 0] assms
  by (auto simp: resolve_tiered_pricing_tier_def tier_limit_def)

theorem resolved_tier_exact_witness:
  "\<exists>i < 2.
    rt_tier (resolve_tiered_pricing_tier 300 [zero_tier\<lparr>tier_up_to_tokens := 200\<rparr>, zero_tier]) =
      [zero_tier\<lparr>tier_up_to_tokens := 200\<rparr>, zero_tier] ! i \<and>
    rt_from_tokens (resolve_tiered_pricing_tier 300 [zero_tier\<lparr>tier_up_to_tokens := 200\<rparr>, zero_tier]) =
      tier_limit [zero_tier\<lparr>tier_up_to_tokens := 200\<rparr>, zero_tier] i"
proof -
  let ?tiers = "[zero_tier\<lparr>tier_up_to_tokens := 200\<rparr>, zero_tier]"
  obtain i where "i < length ?tiers" "rt_tier (resolve_tiered_pricing_tier 300 ?tiers) = ?tiers ! i"
    "rt_from_tokens (resolve_tiered_pricing_tier 300 ?tiers) = tier_limit ?tiers i"
    using resolved_tier_exact [of ?tiers 300] by blast
  then show ?thesis by (intro exI [of _ i]) simp
qed

section \<open>Rounding\<close>

lemma sdiv_nonneg: "0 \<le> a \<Longrightarrow> 0 < b \<Longrightarrow> a sdiv b = a div (b :: int)"
  by (cases "a = 0") (auto simp: signed_divide_int_def sgn_if)

lemma round_div_bounds:
  fixes a b :: int
  assumes "0 < b"
  shows "2 * b * ((a + b div 2) div b) \<le> 2 * a + b" "2 * a - b \<le> 2 * b * ((a + b div 2) div b)"
proof -
  define h q r where "h = b div 2" and "q = (a + h) div b" and "r = (a + h) mod b"
  have "b * q = a + h - r" unfolding q_def r_def by (simp add: minus_mod_eq_mult_div)
  moreover have "0 \<le> r" "r \<le> b - 1" using assms pos_mod_sign pos_mod_bound [of b "a + h"] by (auto simp: r_def)
  moreover have "2 * h \<le> b" "b - 1 \<le> 2 * h" unfolding h_def by presburger+
  ultimately have "2 * (b * q) \<le> 2 * a + b" "2 * a - b \<le> 2 * (b * q)" by linarith+
  then show "2 * b * ((a + b div 2) div b) \<le> 2 * a + b" "2 * a - b \<le> 2 * b * ((a + b div 2) div b)"
    by (simp_all only: mult.assoc flip: h_def q_def)
qed

text \<open>The quotient of a multiplier and of a price per million, where the product fits a word.\<close>

lemma apply_rate_multiplier_round:
  assumes "0 \<le> rate" "0 < rm_numerator m" "0 < rm_denominator m"
    "rate * rm_numerator m + rm_denominator m div 2 \<le> max_int64"
  shows "apply_rate_multiplier rate m = (rate * rm_numerator m + rm_denominator m div 2) div rm_denominator m"
proof (cases "rate = 0 \<or> rm_numerator m = rm_denominator m")
  case True
  have "(rate * d + d div 2) div d = rate" if "0 < d" for d :: int
    using that by (simp add: div_add1_eq zdiv_zmult2_eq [symmetric])
  then show ?thesis
    using True assms by (auto simp: apply_rate_multiplier_def normalize_billing_rate_multiplier_def Let_def)
next
  case False
  have "0 \<le> rate * rm_numerator m" "0 \<le> rm_denominator m div 2" using assms by simp_all
  then have "in_int64 (rate * rm_numerator m)" "in_int64 (rate * rm_numerator m + rm_denominator m div 2)"
    using assms(4) by (simp_all add: in_int64_def min_int64_def)
  moreover have "rm_denominator m sdiv 2 = rm_denominator m div 2"
    using assms(3) by (intro sdiv_nonneg) simp_all
  ultimately show ?thesis
    using False assms sdiv_nonneg [of "rate * rm_numerator m + rm_denominator m div 2" "rm_denominator m"]
    by (simp add: apply_rate_multiplier_def normalize_billing_rate_multiplier_def Let_def)
qed

lemma calc_nanousd_round:
  assumes "0 \<le> tokens" "0 \<le> rate" "tokens * rate + 500000 \<le> max_int64"
  shows "calc_nanousd_by_token tokens rate = (tokens * rate + 500000) div 1000000"
proof (cases "tokens = 0 \<or> rate = 0")
  case False
  have "0 \<le> tokens * rate" using assms by simp
  then have "in_int64 (tokens * rate)" "in_int64 (tokens * rate + 500000)"
    using assms(3) by (simp_all add: in_int64_def min_int64_def)
  then show ?thesis
    using False assms sdiv_nonneg [of "tokens * rate + 500000" 1000000] by (simp add: calc_nanousd_by_token_def)
qed (auto simp: calc_nanousd_by_token_def)

lemma abs_weighted_sum: "0 \<le> d \<Longrightarrow> 0 \<le> t \<Longrightarrow> \<bar>d * x + t * y\<bar> \<le> d * \<bar>x\<bar> + t * \<bar>y\<bar>" for d t x y :: int
  by (rule order_trans [OF abs_triangle_ineq]) (simp add: abs_mult)

text \<open>
  C40. The amount for some tokens is the exact product of tokens, price and multiplier, up to half a nano
  dollar for the rounding of the amount and half a nano dollar per million tokens for that of the price,
  for tokens and a price that are not negative, as long as the products fit 64 bits.
\<close>

theorem price_is_rounded_once_each:
  assumes "0 \<le> tokens" "0 \<le> rate" "0 < rm_numerator m" "0 < rm_denominator m"
    and "rate * rm_numerator m + rm_denominator m div 2 \<le> max_int64"
    and "tokens * apply_rate_multiplier rate m + 500000 \<le> max_int64"
  shows "\<bar>2000000 * rm_denominator m * calc_nanousd_by_token tokens (apply_rate_multiplier rate m)
          - 2 * tokens * rate * rm_numerator m\<bar> \<le> (1000000 + tokens) * rm_denominator m"
proof -
  define d a bill where "d = rm_denominator m" and "a = apply_rate_multiplier rate m"
    and "bill = calc_nanousd_by_token tokens a"
  have a: "a = (rate * rm_numerator m + d div 2) div d"
    using assms by (simp add: a_def d_def apply_rate_multiplier_round)
  have "0 \<le> a" using assms by (simp add: a d_def pos_imp_zdiv_nonneg_iff)
  then have bill: "bill = (tokens * a + 500000) div 1000000"
    using assms by (simp add: bill_def a_def calc_nanousd_round)
  have rate: "\<bar>2 * d * a - 2 * (rate * rm_numerator m)\<bar> \<le> d"
    using round_div_bounds [of d "rate * rm_numerator m"] assms(4) by (simp add: a d_def abs_le_iff algebra_simps)
  have tok: "\<bar>2000000 * bill - 2 * (tokens * a)\<bar> \<le> 1000000"
    using round_div_bounds [of 1000000 "tokens * a"] by (simp add: bill abs_le_iff algebra_simps)
  have "2000000 * d * bill - 2 * tokens * rate * rm_numerator m =
      d * (2000000 * bill - 2 * (tokens * a)) + tokens * (2 * d * a - 2 * (rate * rm_numerator m))"
    by (simp add: algebra_simps)
  also have "\<bar>\<dots>\<bar> \<le> d * \<bar>2000000 * bill - 2 * (tokens * a)\<bar> + tokens * \<bar>2 * d * a - 2 * (rate * rm_numerator m)\<bar>"
    using assms(1,4) by (intro abs_weighted_sum) (simp_all add: d_def)
  also have "\<dots> \<le> d * 1000000 + tokens * d"
    using rate tok assms(1,4) by (intro add_mono mult_left_mono) (simp_all add: d_def)
  finally show ?thesis by (simp add: d_def a_def bill_def algebra_simps)
qed

theorem price_is_rounded_once_each_witness:
  "\<bar>2000000 * rm_denominator (ratio 1 2) * calc_nanousd_by_token 1234567 (apply_rate_multiplier 2500000001 (ratio 1 2))
     - 2 * 1234567 * 2500000001 * rm_numerator (ratio 1 2)\<bar> \<le> (1000000 + 1234567) * rm_denominator (ratio 1 2)"
proof (rule price_is_rounded_once_each)
  have "apply_rate_multiplier 2500000001 (ratio 1 2) = 1250000001"
    by (subst apply_rate_multiplier_round) (simp_all add: ratio_def max_int64_def)
  then show "1234567 * apply_rate_multiplier 2500000001 (ratio 1 2) + 500000 \<le> max_int64"
    by (simp add: max_int64_def)
qed (simp_all add: ratio_def max_int64_def)

section \<open>Estimates\<close>

text \<open>The estimate for a request that turns out to be the one given.\<close>

definition estimate_of :: "usage_pricing_input \<Rightarrow> usage_estimate_input" where
  "estimate_of inp =
     \<lparr>ue_platform_model_name = up_platform_model_name inp, ue_provider_protocol = up_provider_protocol inp,
      ue_upstream_model_name = up_upstream_model_name inp, ue_cache_timeout = up_cache_timeout inp,
      ue_request_speed = up_request_speed inp, ue_request_service_tier = up_usage_service_tier inp,
      ue_input_tokens = tk_input (up_tokens inp), ue_cache_read_tokens = tk_cache_read (up_tokens inp),
      ue_cache_write_tokens = tk_cache_write (up_tokens inp),
      ue_output_tokens = wrap64 (tk_output (up_tokens inp) + tk_reasoning (up_tokens inp)),
      ue_call_count = up_call_count inp, ue_duration_seconds = up_duration_seconds inp\<rparr>"

lemma calc_nanousd_clamp [simp]: "calc_nanousd_by_token (clamp_non_negative tokens) rate = calc_nanousd_by_token tokens rate"
  by (simp add: calc_nanousd_by_token_def clamp_non_negative_def)

lemma clamp_le_0 [simp]: "clamp_non_negative v \<le> 0 \<longleftrightarrow> v \<le> 0" "clamp_non_negative v = 0 \<longleftrightarrow> v \<le> 0"
  by (auto simp: clamp_non_negative_def)

lemma clamp_idem [simp]: "clamp_non_negative (clamp_non_negative v) = clamp_non_negative v"
  by (simp add: clamp_non_negative_def)

lemma div_le_dividend_int: "0 \<le> y \<Longrightarrow> y div 1000000 \<le> (y :: int)"
  using zdiv_mono2 [of y 1 1000000] by simp

lemma in_int64_sdiv:
  assumes "in_int64 x"
  shows "in_int64 (x sdiv 1000000)"
proof -
  have part: "0 \<le> y div 1000000 \<and> y div 1000000 \<le> y" if "0 \<le> y" for y :: int
    using that by (simp add: pos_imp_zdiv_nonneg_iff div_le_dividend_int)
  have ends: "min_int64 \<le> 0" "0 \<le> max_int64" by (simp_all add: min_int64_def max_int64_def)
  consider "x = 0" | "0 < x" | "x < 0" by linarith
  then show ?thesis
  proof cases
    case 3
    then have "x sdiv 1000000 = - (- x div 1000000)" by (simp add: signed_divide_int_def)
    then show ?thesis using part [of "- x"] 3 assms ends by (simp add: in_int64_def)
  qed (use part [of x] assms ends in \<open>simp_all add: in_int64_def signed_divide_int_def\<close>)
qed

lemma wrap64_calc [simp]: "wrap64 (calc_nanousd_by_token tokens rate) = calc_nanousd_by_token tokens rate"
proof (rule wrap64_id)
  show "in_int64 (calc_nanousd_by_token tokens rate)"
    unfolding calc_nanousd_by_token_def by (cases "tokens \<le> 0 \<or> rate \<le> 0") (simp_all only: in_int64_zero in_int64_sdiv in_int64_wrap64 if_True if_False)
qed

lemma clamp_in_int64: "in_int64 v \<Longrightarrow> in_int64 (clamp_non_negative v)"
  by (simp add: clamp_non_negative_def)

lemma calc_nanousd_zero [simp]: "tokens \<le> 0 \<Longrightarrow> calc_nanousd_by_token tokens rate = 0"
  by (simp add: calc_nanousd_by_token_def)

text \<open>Without a breakdown from the provider all cache writes are of the kind the request asked for.\<close>

lemma with_cache_writes_counts [simp]:
  "tk_input (with_cache_writes protocol cache_timeout k) = tk_input k"
  "tk_cache_read (with_cache_writes protocol cache_timeout k) = tk_cache_read k"
  "tk_output (with_cache_writes protocol cache_timeout k) = tk_output k"
  "tk_reasoning (with_cache_writes protocol cache_timeout k) = tk_reasoning k"
  by (simp_all add: with_cache_writes_def split: prod.splits)

lemma undivided_cache_writes:
  assumes "tk_cache_write_5m k = 0" "tk_cache_write_1h k = 0" "in_int64 (tk_cache_write k)"
  defines "w \<equiv> clamp_non_negative (tk_cache_write k)"
  shows "with_cache_writes protocol cache_timeout k =
    (if \<not> is_anthropic protocol \<or> w = 0 then k\<lparr>tk_cache_write := w\<rparr>
     else if normalize_anthropic_cache_timeout cache_timeout = ''1h''
     then k\<lparr>tk_cache_write := w, tk_cache_write_1h := w\<rparr> else k\<lparr>tk_cache_write := w, tk_cache_write_5m := w\<rparr>)"
proof -
  have w: "0 \<le> w" "wrap64 w = w"
    using clamp_in_int64 [OF assms(3)] by (simp_all add: w_def clamp_non_negative_def)
  have zero: "clamp_non_negative 0 = 0" by (simp add: clamp_non_negative_def)
  show ?thesis
    using assms(1,2) w unfolding with_cache_writes_def normalize_cache_write_token_breakdown_def Let_def
    by (auto simp: zero simp flip: w_def)
qed

lemma cache_timeouts [simp]:
  "normalize_anthropic_cache_timeout ''1h'' = ''1h''"
  "normalize_anthropic_cache_timeout ''5m'' = ''5m''"
  by code_simp+

lemma cache_write_bill:
  assumes "tk_cache_write_5m k = 0" "tk_cache_write_1h k = 0" "in_int64 (tk_cache_write k)"
  shows "tb_cache_write (bill_tokens (with_cache_writes protocol cache_timeout k)
        (multiplied_rates m (base_token_rates prices basis protocol cache_timeout))) =
    calc_nanousd_by_token (tk_cache_write k) (apply_rate_multiplier
      (resolve_cache_write_nanousd_per_m_tokens (fst (snd (snd prices))) basis protocol cache_timeout) m)"
proof -
  have timeout: "resolve_cache_write_nanousd_per_m_tokens c basis protocol ''1h'' =
      resolve_cache_write_nanousd_per_m_tokens c basis protocol cache_timeout"
    if "normalize_anthropic_cache_timeout cache_timeout = ''1h''" for c
    using that by (simp add: resolve_cache_write_nanousd_per_m_tokens_def)
  have timeout': "resolve_cache_write_nanousd_per_m_tokens c basis protocol ''5m'' =
      resolve_cache_write_nanousd_per_m_tokens c basis protocol cache_timeout"
    if "normalize_anthropic_cache_timeout cache_timeout \<noteq> ''1h''" for c
    using that by (simp add: resolve_cache_write_nanousd_per_m_tokens_def)
  show ?thesis
    using assms(1,2)
    by (auto simp: undivided_cache_writes [OF assms(1-3)] bill_tokens_def multiplied_rates_def
        base_token_rates_def Let_def calc_cache_write_billed_nanousd_def timeout timeout' split: prod.splits)
qed

lemma estimated_tokens:
  assumes "tk_cache_write_5m (up_tokens inp) = 0" "tk_cache_write_1h (up_tokens inp) = 0"
    "in_int64 (tk_cache_write (up_tokens inp))"
  shows "calc_estimated_token_nanousd (estimate_of inp)
      (fst prices, fst (snd prices),
       resolve_cache_write_nanousd_per_m_tokens (fst (snd (snd prices))) basis (trim_space (up_provider_protocol inp))
         (up_cache_timeout inp), snd (snd (snd prices))) m =
    sum_token_bill (bill_tokens (with_cache_writes (trim_space (up_provider_protocol inp)) (up_cache_timeout inp) (up_tokens inp))
      (multiplied_rates m (base_token_rates prices basis (trim_space (up_provider_protocol inp)) (up_cache_timeout inp))))"
  using cache_write_bill [OF assms]
  by (simp add: calc_estimated_token_nanousd_def estimate_of_def sum_token_bill_def Let_def)
    (simp add: bill_tokens_def multiplied_rates_def base_token_rates_def Let_def split: prod.splits)

lemma model_billed_parts:
  "model_billed (with_model_tokens m base k b) = sum_token_bill (bill_tokens k (multiplied_rates m base))"
  if "mb_call_billed b = 0" "mb_duration_billed b = 0"
  using that by (simp add: model_billed_def with_model_tokens_def Let_def sum_token_bill_def)

lemma pricing_mode_cases: "normalize_pricing_mode v \<in> {''call'', ''duration'', ''tiered'', ''token''}"
  by (simp add: normalize_pricing_mode_def Let_def)

lemma estimate_at_price_billed:
  assumes bill: "bill_model s inp (normalize_pricing_mode (mp_pricing_mode p)) (Some p) m
      (with_cache_writes (trim_space (up_provider_protocol inp)) (up_cache_timeout inp) (up_tokens inp)) = Inr mb"
    and undivided: "tk_cache_write_5m (up_tokens inp) = 0" "tk_cache_write_1h (up_tokens inp) = 0"
      "in_int64 (tk_cache_write (up_tokens inp))"
    and seconds: "normalize_pricing_mode (mp_pricing_mode p) = ''duration'' \<Longrightarrow>
      up_duration_billable inp \<and> 0 < up_duration_seconds inp"
  shows "estimate_at_price s (estimate_of inp) p m = Inr (model_billed mb)"
proof -
  let ?mode = "normalize_pricing_mode (mp_pricing_mode p)"
  have estimate: "(case prices of (input, cache_read, cache_write, output) \<Rightarrow>
      calc_estimated_token_nanousd (estimate_of inp) (input, cache_read,
        resolve_cache_write_nanousd_per_m_tokens cache_write (mp_cache_write_price_basis p)
          (trim_space (up_provider_protocol inp)) (up_cache_timeout inp), output) m) =
    sum_token_bill (bill_tokens (with_cache_writes (trim_space (up_provider_protocol inp)) (up_cache_timeout inp) (up_tokens inp))
      (multiplied_rates m (base_token_rates prices (mp_cache_write_price_basis p)
        (trim_space (up_provider_protocol inp)) (up_cache_timeout inp))))" for prices
    using estimated_tokens [OF undivided, of prices "mp_cache_write_price_basis p" m] by (cases prices) simp
  have inputs: "tiered_pricing_input_tokens i r (tk_cache_write (with_cache_writes protocol timeout (up_tokens inp))) =
      tiered_pricing_input_tokens i r (tk_cache_write (up_tokens inp))" for i r protocol timeout
    using undivided by (simp add: undivided_cache_writes tiered_pricing_input_tokens_def)
  consider "?mode = ''call''" | "?mode = ''duration''" | "?mode = ''tiered''" | "?mode = ''token''"
    using pricing_mode_cases [of "mp_pricing_mode p"] by blast
  then show ?thesis
  proof cases
    case 1
    then show ?thesis using bill
      by (auto simp: bill_model_def estimate_at_price_def estimate_of_def Let_def model_billed_def no_model_bill_def
          no_token_bill_def sum_token_bill_def)
  next
    case 2
    then show ?thesis using bill seconds
      by (auto simp: bill_model_def estimate_at_price_def estimate_of_def Let_def model_billed_def no_model_bill_def
          no_token_bill_def sum_token_bill_def billable_seconds_def clamp_non_negative_def)
  next
    case 3
    then obtain tiers where "parse_tiered_pricing_tiers (bs_codec s) (trim_space (mp_tiered_pricing_json p)) = Inr tiers"
      using bill by (auto simp: bill_model_def attempt_eq_Inr_iff Let_def)
    then show ?thesis
      using 3 bill estimate
      by (auto simp: bill_model_def estimate_at_price_def Let_def parse_tiered_pricing_tiers_def model_billed_parts
          no_model_bill_def inputs estimate_of_def)
  next
    case 4
    then show ?thesis using bill estimate
      by (auto simp: bill_model_def estimate_at_price_def Let_def model_billed_parts no_model_bill_def estimate_of_def)
  qed
qed

lemma no_tools:
  assumes "tool_items s inp mode pricing = Inr ((native, native_billed), (mcp, mcp_billed))"
    "up_server_side_tool_usage inp = []" "up_mcp_tool_usage inp = []"
  shows "native = [] \<and> mcp = []"
  using assms
  by (auto simp: tool_items_def attempt_eq_Inr_iff build_native_tool_service_items_def normalize_usage_count_map_def
      build_mcp_tool_service_items_def map_filter_simps Let_def split: if_split_asm)

text \<open>The prices of a model whose identity is the name itself.\<close>

lemma resolved_pricing_same_name:
  assumes "resolve_platform_model_identity s name = Inr identity" "trim_space (pi_model_name identity) = trim_space name"
  shows "unless_missing None (map_sum (\<lambda>e. e) Some (get_resolved_model_pricing s name)) = model_pricing_or_none s name"
proof -
  have "trim_space name \<noteq> []" using assms(1) by (auto simp: resolve_platform_model_identity_def Let_def)
  then show ?thesis
    using assms by (simp add: get_resolved_model_pricing_def model_pricing_or_none_def get_model_pricing_def Let_def)
qed

text \<open>
  C3. The estimate before a request is what the ledger bills when the request turns out as estimated:
  the same counts, the tier asked for, no speed reported, cache writes not broken down, no services or
  tools, and a model known by its own name.
\<close>

theorem estimate_is_what_is_billed:
  assumes bill: "bill_usage s db inp clock = Inr b"
    and paid: "ub_mode b \<noteq> ''self''" "\<not> is_service_only inp"
    and bare: "up_service_items inp = []" "up_server_side_tool_usage inp = []" "up_mcp_tool_usage inp = []"
    and speed: "up_usage_speed inp = []"
    and undivided: "tk_cache_write_5m (up_tokens inp) = 0" "tk_cache_write_1h (up_tokens inp) = 0"
      "in_int64 (tk_cache_write (up_tokens inp))"
    and identity: "resolve_platform_model_identity s (trim_space (up_platform_model_name inp)) = Inr identity"
      "trim_space (pi_model_name identity) = trim_space (up_platform_model_name inp)"
  shows "estimate_usage_nanousd s db (up_user_id inp) (estimate_of inp) (clock_subscription clock)
           (ledger_at inp clock) = Inr (ub_billed_nanousd b)"
  using bill
proof (rule bill_usageE)
  fix identity' group m0 pricing items services native native_billed mcp mcp_billed
  assume id': "unless_missing no_identity (resolve_platform_model_identity s (trim_space (up_platform_model_name inp))) = Inr identity'"
    and user: "(if mode_of_usage s inp = ''self'' then Inr (None, multiplier_of_usage inp)
      else user_multiplier s db (up_user_id inp) (pi_model_id identity') (multiplier_of_usage inp)
             (clock_subscription clock)) = Inr (group, m0)"
    and pricing: "model_pricing_or_none s (trim_space (up_platform_model_name inp)) = Inr pricing"
    and given: "\<not> price_required inp (mode_of_usage s inp) pricing"
    and schedule: "ub_schedule b = schedule_of s (mode_of_usage s inp) pricing (ledger_at inp clock)"
    and model: "bill_model s inp (case pricing of None \<Rightarrow> ''token'' | Some p \<Rightarrow> normalize_pricing_mode (mp_pricing_mode p))
       (applied_price inp (mode_of_usage s inp) pricing) (scheduled m0 (ub_schedule b)) (ub_tokens b) = Inr (ub_model b)"
    and items: "build_usage_service_items s (map (\<lambda>(i, x). (x, clock_services clock i)) (enumerate 0 (up_service_items inp)))
       (mode_of_usage s inp) (up_user_id inp) group = Inr (items, services)"
    and tools: "tool_items s inp (mode_of_usage s inp) pricing = Inr ((native, native_billed), (mcp, mcp_billed))"
    and b: "ub_mode b = mode_of_usage s inp" "ub_service_items b = items @ native @ mcp"
      "ub_tokens b = with_cache_writes (trim_space (up_provider_protocol inp)) (up_cache_timeout inp) (up_tokens inp)"
  have "items = []" using items bare(1) by simp
  then have "ub_service_items b = []" using b(2) no_tools [OF tools bare(2,3)] by simp
  then have billed: "ub_billed_nanousd b = model_billed (ub_model b)"
    using bill_is_the_sum_of_its_parts [OF bill] by (simp add: model_billed_def)
  have same: "identity' = identity" using id' identity(1) by (simp add: unless_missing_def)
  have mode: "mode_of_usage s inp \<noteq> ''self''" using paid(1) b(1) by simp
  obtain p where p: "pricing = Some p" using given mode paid(2) by (auto simp: price_required_def split: option.splits)
  have prices: "unless_missing None (map_sum (\<lambda>e. e) Some (get_resolved_model_pricing s (trim_space (up_platform_model_name inp)))) = Inr (Some p)"
    using resolved_pricing_same_name [OF identity(1)] identity(2) pricing p by simp
  have multiplier: "resolve_usage_rate_multiplier (trim_space (up_provider_protocol inp)) (trim_space (up_platform_model_name inp))
      (up_upstream_model_name inp) (is_anthropic_fast_mode (trim_space (up_provider_protocol inp)) []
        (normalize_usage_speed (up_request_speed inp)))
      (resolve_billing_service_tier (trim_space (up_provider_protocol inp))
        (normalize_open_ai_service_tier (up_usage_service_tier inp))) = multiplier_of_usage inp"
    by (simp add: multiplier_of_usage_def Let_def speed normalize_usage_speed_def)
  show ?thesis
  proof (cases "mp_is_free p")
    case True
    have "ub_model b = no_model_bill (normalize_pricing_mode (mp_pricing_mode p))"
      using model p True by (simp add: applied_price_def)
    then have "ub_billed_nanousd b = 0" by (simp add: billed)
    moreover have "estimate_usage_nanousd s db (up_user_id inp) (estimate_of inp) (clock_subscription clock)
        (ledger_at inp clock) = Inr 0"
      using prices identity(1) True by (simp add: estimate_usage_nanousd_def estimate_of_def unless_missing_def Let_def)
    ultimately show ?thesis by simp
  next
    case False
    have "estimate_at_price s (estimate_of inp) p (scheduled m0 (ub_schedule b)) = Inr (model_billed (ub_model b))"
      using model p False mode paid(2) given b(3)
      by (intro estimate_at_price_billed undivided)
        (auto simp: applied_price_def price_required_def)
    then show ?thesis
      using prices identity(1) False user same mode schedule p multiplier
      by (simp add: estimate_usage_nanousd_def estimate_of_def [of inp] unless_missing_def Let_def billed schedule_of_def)
  qed
qed

section \<open>Well-formed rows\<close>

definition known_tier :: "string \<Rightarrow> bool" where
  "known_tier v \<longleftrightarrow> v \<in> {[], ''default'', ''flex'', ''priority''}"

text \<open>The counts of a row: nothing negative, and the parts of the cache writes are the whole.\<close>

definition well_formed_counts :: "usage_ledger \<Rightarrow> bool" where
  "well_formed_counts u \<longleftrightarrow>
     0 \<le> ul_cache_write_5m_tokens u \<and> 0 \<le> ul_cache_write_1h_tokens u \<and> in_int64 (ul_cache_write_tokens u) \<and>
     1 \<le> ul_call_count u \<and> 0 \<le> ul_duration_seconds u \<and>
     (if is_anthropic (ul_provider_protocol u)
      then ul_cache_write_tokens u = ul_cache_write_5m_tokens u + ul_cache_write_1h_tokens u
      else ul_cache_write_5m_tokens u = 0 \<and> ul_cache_write_1h_tokens u = 0 \<and> 0 \<le> ul_cache_write_tokens u)"

definition copied_counts :: "token_counts \<Rightarrow> usage_ledger \<Rightarrow> bool" where
  "copied_counts k u \<longleftrightarrow> ul_input_tokens u = tk_input k \<and> ul_cache_read_tokens u = tk_cache_read k \<and>
     ul_output_tokens u = tk_output k \<and> ul_reasoning_tokens u = tk_reasoning k"

lemma breakdown_adds_up:
  assumes "in_int64 t" "clamp_non_negative a + clamp_non_negative b \<le> max_int64"
    and "normalize_cache_write_token_breakdown t a b protocol cache_timeout = (w, w5, w1)"
  shows "0 \<le> w5 \<and> 0 \<le> w1 \<and> in_int64 w \<and>
    (if is_anthropic protocol then w = w5 + w1 else w5 = 0 \<and> w1 = 0 \<and> 0 \<le> w)"
proof -
  define t' a' b' where "t' = clamp_non_negative t" and "a' = clamp_non_negative a" and "b' = clamp_non_negative b"
  have pos: "0 \<le> t'" "0 \<le> a'" "0 \<le> b'" "t' \<le> max_int64" "a' + b' \<le> max_int64" "min_int64 \<le> 0"
    using assms(1,2) by (simp_all add: t'_def a'_def b'_def clamp_non_negative_def in_int64_def min_int64_def max_int64_def)
  have fits: "wrap64 x = x" if "0 \<le> x" "x \<le> max_int64" for x
    using that pos(6) by (intro wrap64_id) (simp add: in_int64_def)
  have eq: "(w, w5, w1) = (if \<not> is_anthropic protocol then (t', 0, 0)
      else if t' \<le> a' + b' then (a' + b', a', b')
      else if normalize_anthropic_cache_timeout cache_timeout = ''1h'' then (t', a', t' - a') else (t', t' - b', b'))"
  proof (cases "t' \<le> a' + b'")
    case True
    then have "t' < a' + b' \<or> t' = a' + b'" by auto
    then show ?thesis
      using True fits [of "a' + b'"] pos
      unfolding assms(3) [symmetric] normalize_cache_write_token_breakdown_def Let_def
        t'_def [symmetric] a'_def [symmetric] b'_def [symmetric]
      by auto
  next
    case False
    then have "wrap64 (t' - (a' + b')) = t' - (a' + b')" "0 < t' - (a' + b')"
      "wrap64 (b' + (t' - (a' + b'))) = t' - a'" "wrap64 (a' + (t' - (a' + b'))) = t' - b'"
      using fits [of "t' - (a' + b')"] fits [of "t' - a'"] fits [of "t' - b'"] pos by simp_all
    then show ?thesis
      using False fits [of "a' + b'"] pos
      unfolding assms(3) [symmetric] normalize_cache_write_token_breakdown_def Let_def
        t'_def [symmetric] a'_def [symmetric] b'_def [symmetric]
      by simp
  qed
  show ?thesis using eq pos by (auto simp: in_int64_def split: if_splits)
qed

text \<open>
  C29. What a ledger row says of a request. The tokens written to the cache, when the total reported fits an int64 and so do
  the two reported parts together: with Anthropic the parts of 5 minutes and of an hour are not negative and add up to the total;
  with any other provider both are zero and the total is not negative. The counts of input, cache reads, output and reasoning
  are those reported, as they are, negative ones too. At least one call is counted, the duration is not negative,
  only Anthropic has a speed, the service tier is a known one, the amount fits the column, the row is dated at the request, and what
  a settlement charges for it is its amount, or nothing when that is negative: the mark of a free model,
  for which nothing is charged, is only set where there is nothing to charge.
\<close>

theorem ledger_is_well_formed:
  assumes "build_usage_ledger s snapshot db inp clock = Inr u"
    and "in_int64 (tk_cache_write (up_tokens inp))"
    and "clamp_non_negative (tk_cache_write_5m (up_tokens inp)) + clamp_non_negative (tk_cache_write_1h (up_tokens inp)) \<le> max_int64"
  shows "well_formed_counts u \<and> copied_counts (up_tokens inp) u \<and> (is_anthropic (ul_provider_protocol u) \<or> ul_usage_speed u = []) \<and> known_tier (ul_service_tier u) \<and>
    in_int64 (ul_billed_nanousd u) \<and> ul_billing_at u = ledger_at inp clock \<and>
    charge_of u = clamp_non_negative (ul_billed_nanousd u)"
proof -
  obtain b where b: "bill_usage s db inp clock = Inr b"
    and u: "ul_billed_nanousd u = ub_billed_nanousd b" "ul_is_free_model u = ub_is_free_model b"
      "ul_provider_protocol u = trim_space (up_provider_protocol inp)"
      "ul_cache_write_tokens u = tk_cache_write (ub_tokens b)" "ul_cache_write_5m_tokens u = tk_cache_write_5m (ub_tokens b)"
      "ul_cache_write_1h_tokens u = tk_cache_write_1h (ub_tokens b)" "ul_call_count u = call_count_or_one (up_call_count inp)"
      "ul_duration_seconds u = billable_seconds inp" "ul_billing_at u = ledger_at inp clock"
      "ul_input_tokens u = tk_input (ub_tokens b)" "ul_cache_read_tokens u = tk_cache_read (ub_tokens b)"
      "ul_output_tokens u = tk_output (ub_tokens b)" "ul_reasoning_tokens u = tk_reasoning (ub_tokens b)"
      "ul_usage_speed u = resolve_billing_speed (trim_space (up_provider_protocol inp))
         (normalize_usage_speed (up_usage_speed inp)) (normalize_usage_speed (up_request_speed inp))"
      "ul_service_tier u = resolve_billing_service_tier (trim_space (up_provider_protocol inp))
         (normalize_open_ai_service_tier (up_usage_service_tier inp))"
    using assms(1) by (auto simp: build_usage_ledger_def attempt_eq_Inr_iff Let_def)
  have "ub_is_free_model b \<Longrightarrow> ub_billed_nanousd b \<le> 0"
    and tokens: "ub_tokens b = with_cache_writes (trim_space (up_provider_protocol inp)) (up_cache_timeout inp) (up_tokens inp)"
    and "in_int64 (ub_billed_nanousd b)"
    using b by (rule bill_usageE, simp)+
  moreover have "well_formed_counts u"
    using breakdown_adds_up [OF assms(2,3), of "trim_space (up_provider_protocol inp)" "up_cache_timeout inp"]
    by (auto simp: well_formed_counts_def u tokens with_cache_writes_def call_count_or_one_def billable_seconds_def
        split: prod.splits)
  moreover have "copied_counts (up_tokens inp) u"
    by (simp add: copied_counts_def u tokens with_cache_writes_def split: prod.splits)
  moreover have "is_anthropic (ul_provider_protocol u) \<or> ul_usage_speed u = []"
    by (simp add: u resolve_billing_speed_def)
  moreover have "known_tier (ul_service_tier u)"
    by (auto simp: known_tier_def u resolve_billing_service_tier_def normalize_open_ai_service_tier_def Let_def)
  ultimately show ?thesis
    by (auto simp: charge_of_def clamp_non_negative_def u)
qed

section \<open>Requests\<close>

text \<open>
  A service in usage mode with the prices of three models: one by the token, one by the second, a free
  one. Groups pay double, there is no schedule, and prices in tiers are given in nano dollars.
\<close>

definition sample_pricing :: "string \<Rightarrow> string \<Rightarrow> bool \<Rightarrow> model_pricing" where
  "sample_pricing name mode free =
     \<lparr>mp_id = 1, mp_platform_model_name = name, mp_currency = ''USD'', mp_is_free = free, mp_pricing_mode = mode,
      mp_input_nanousd = 3000000000, mp_cache_read_nanousd = 300000000, mp_cache_write_nanousd = 3000000000,
      mp_cache_write_price_basis = [], mp_output_nanousd = 15000000000, mp_call_nanousd = 20000000,
      mp_duration_nanousd = 50000000, mp_tiered_pricing_json = [], mp_schedule_pricing_json = []\<rparr>"

definition sample_service :: "int billing_service" where
  "sample_service =
     \<lparr>bs_identities = None, bs_group_rates = Some (\<lambda>_ _ _. Inr 200), bs_video_models = None,
      bs_native_tools = Inr (\<lambda>_ _ _. None),
      bs_prices = [sample_pricing ''claude'' ''token'' False, sample_pricing ''video'' ''duration'' False,
        sample_pricing ''local'' ''token'' True],
      bs_settings = [(''mode'', ''usage'')], bs_parse_amount = (\<lambda>_. None),
      bs_codec = \<lparr>decode_tiers = (\<lambda>_. None), usd_to_nanousd = (\<lambda>v. v),
        schedules = \<lparr>decode_periods = (\<lambda>_. None), encode_periods = (\<lambda>_. [])\<rparr>\<rparr>,
      bs_local_clock = (\<lambda>_. \<lparr>lc_weekday = 1, lc_hour = 12, lc_minute = 0\<rparr>), bs_day_start = (\<lambda>t. t),
      bs_month = (\<lambda>t. (t, t + 1))\<rparr>"

definition sample_counts :: token_counts where
  "sample_counts = \<lparr>tk_input = 1000, tk_cache_read = 200, tk_cache_write = 100, tk_cache_write_5m = 0,
     tk_cache_write_1h = 0, tk_output = 50, tk_reasoning = 20\<rparr>"

definition sample_request :: "string \<Rightarrow> string \<Rightarrow> usage_pricing_input" where
  "sample_request mode name =
     \<lparr>up_authorization = Some \<lparr>ua_mode = mode, ua_ref_no = ''run-1'', ua_reservation = None\<rparr>, up_user_id = 7,
      up_conversation_id = 1, up_platform_model_name = name, up_routed_binding_code = [],
      up_provider_protocol = ''anthropic_messages'', up_upstream_name = ''up'', up_upstream_model_name = name,
      up_cache_timeout = ''1h'', up_request_speed = ''fast'', up_usage_speed = [], up_request_service_tier = [],
      up_usage_service_tier = [], up_usage_source = [], up_billed_reason = [], up_service_only = False,
      up_tokens = sample_counts, up_call_count = 1, up_duration_billable = False, up_duration_seconds = 0,
      up_media_type = [], up_input_image_count = 0, up_latency_ms = 0, up_server_side_tool_usage = [],
      up_mcp_tool_usage = [], up_service_items = [], up_raw_usage_json = [], up_billing_at = 500\<rparr>"

definition with_paid_tool :: "usage_pricing_input \<Rightarrow> usage_pricing_input" where
  "with_paid_tool inp = inp\<lparr>up_mcp_tool_usage :=
     [\<lparr>mt_server_id = 1, mt_server_name = ''s'', mt_tool_name = ''t'', mt_call_count = 2, mt_price_nanousd = 5000\<rparr>]\<rparr>"

definition sample_clock :: clock_readings where
  "sample_clock = \<lparr>clock_subscription = 500, clock_ledger = 500, clock_services = (\<lambda>_. 500)\<rparr>"

definition sample_bill :: "usage_pricing_input \<Rightarrow> usage_bill" where
  "sample_bill inp = projr (bill_usage sample_service empty_db inp sample_clock)"

lemma sample_billI:
  assumes "case bill_usage sample_service empty_db inp sample_clock of Inl _ \<Rightarrow> False | Inr b \<Rightarrow> P b"
  shows "bill_usage sample_service empty_db inp sample_clock = Inr (sample_bill inp)" "P (sample_bill inp)"
  using assms by (auto simp: sample_bill_def split: sum.splits)

theorem own_cost_is_not_billed_witness:
  "ub_mode (sample_bill (with_paid_tool (sample_request ''self'' ''claude''))) = ''self'' \<and>
   ub_billed_nanousd (sample_bill (with_paid_tool (sample_request ''self'' ''claude''))) = 0"
proof -
  have "case bill_usage sample_service empty_db (with_paid_tool (sample_request ''self'' ''claude'')) sample_clock of
      Inl _ \<Rightarrow> False | Inr b \<Rightarrow> ub_mode b = ''self''" by code_simp
  note bill = sample_billI [OF this]
  then show ?thesis using own_cost_is_not_billed [OF bill(1)] by simp
qed

definition no_snapshot :: "usage_pricing_input \<Rightarrow> usage_bill \<Rightarrow> pricing_snapshot" where
  "no_snapshot inp bill = \<lparr>snapshot_text = [], snapshot_settlement = []\<rparr>"

definition sample_ledger :: "usage_pricing_input \<Rightarrow> usage_ledger" where
  "sample_ledger inp = projr (build_usage_ledger sample_service no_snapshot empty_db inp sample_clock)"

text \<open>Two calls of a paid tool by a free model.\<close>

theorem ledger_is_well_formed_witness:
  "let u = sample_ledger (with_paid_tool (sample_request ''usage'' ''local''))
   in ul_cache_write_tokens u = ul_cache_write_5m_tokens u + ul_cache_write_1h_tokens u \<and> charge_of u = 10000"
proof -
  let ?inp = "with_paid_tool (sample_request ''usage'' ''local'')"
  have "case build_usage_ledger sample_service no_snapshot empty_db ?inp sample_clock of
      Inl _ \<Rightarrow> False | Inr u \<Rightarrow> ul_billed_nanousd u = 10000 \<and> is_anthropic (ul_provider_protocol u)" by code_simp
  then have ledger: "build_usage_ledger sample_service no_snapshot empty_db ?inp sample_clock = Inr (sample_ledger ?inp)"
      "ul_billed_nanousd (sample_ledger ?inp) = 10000" "is_anthropic (ul_provider_protocol (sample_ledger ?inp))"
    by (auto simp: sample_ledger_def split: sum.splits)
  have counts: "up_tokens ?inp = sample_counts" by (simp add: with_paid_tool_def sample_request_def)
  have "well_formed_counts (sample_ledger ?inp) \<and> charge_of (sample_ledger ?inp) = clamp_non_negative (ul_billed_nanousd (sample_ledger ?inp))"
    using ledger_is_well_formed [OF ledger(1)]
    by (simp add: counts sample_counts_def in_int64_def min_int64_def max_int64_def clamp_non_negative_def)
  then show ?thesis using ledger(2,3) by (simp add: well_formed_counts_def clamp_non_negative_def)
qed

definition sample_video_service :: service_usage_input where
  "sample_video_service =
     \<lparr>su_service_code = ''clip'', su_service_name = [], su_platform_model_name = ''video'', su_upstream_model_name = [],
      su_provider_protocol = ''openai_responses'', su_cache_timeout = [], su_request_speed = [], su_usage_speed = [],
      su_request_service_tier = [], su_usage_service_tier = [], su_tokens = sample_counts, su_call_count = 1\<rparr>"

definition sample_video_item :: usage_service_item where
  "sample_video_item = projr (build_usage_service_item sample_service sample_video_service ''usage'' 7 None 500)"

theorem duration_service_costs_nothing_witness:
  "si_duration_nanousd_per_second sample_video_item = 100000000 \<and> si_billed_nanousd sample_video_item = 0"
proof -
  let ?item = "build_usage_service_item sample_service sample_video_service ''usage'' 7 None 500"
  have "case ?item of Inl _ \<Rightarrow> False | Inr i \<Rightarrow>
      si_pricing_mode i = ''duration'' \<and> si_duration_nanousd_per_second i = 100000000" by code_simp
  then have "?item = Inr sample_video_item" "si_pricing_mode sample_video_item = ''duration''"
      "si_duration_nanousd_per_second sample_video_item = 100000000"
    by (auto simp: sample_video_item_def split: sum.splits)
  then show ?thesis using duration_service_costs_nothing by blast
qed

theorem estimate_is_what_is_billed_witness:
  "estimate_usage_nanousd sample_service empty_db 7 (estimate_of (sample_request ''usage'' ''claude'')) 500 500 =
     Inr 56520000"
proof -
  let ?inp = "sample_request ''usage'' ''claude''"
  have "case bill_usage sample_service empty_db ?inp sample_clock of
      Inl _ \<Rightarrow> False | Inr b \<Rightarrow> ub_mode b = ''usage'' \<and> ub_billed_nanousd b = 56520000" by code_simp
  note bill = sample_billI [OF this]
  have "estimate_usage_nanousd sample_service empty_db (up_user_id ?inp) (estimate_of ?inp)
      (clock_subscription sample_clock) (ledger_at ?inp sample_clock) = Inr (ub_billed_nanousd (sample_bill ?inp))"
  proof (rule estimate_is_what_is_billed [OF bill(1)])
    show "ub_mode (sample_bill ?inp) \<noteq> ''self''" using bill(2) by simp
    show "\<not> is_service_only ?inp" by code_simp
    show "in_int64 (tk_cache_write (up_tokens ?inp))" by code_simp
    show "resolve_platform_model_identity sample_service (trim_space (up_platform_model_name ?inp)) =
        Inr (no_identity\<lparr>pi_model_name := ''claude''\<rparr>)" by code_simp
    show "trim_space (pi_model_name (no_identity\<lparr>pi_model_name := ''claude''\<rparr>)) = trim_space (up_platform_model_name ?inp)"
      by code_simp
  qed (simp_all add: sample_request_def sample_counts_def)
  then show ?thesis using bill(2) by (simp add: sample_request_def sample_clock_def ledger_at_def is_zero_def zero_time_def)
qed

end
