(* ===== verification/Authorization_Props.thy ===== *)
theory Authorization_Props
  imports Authorization Reservation_Props Usage_Props
begin

text \<open>
  The whole request: it is charged once, in the mode in which it was authorized, whatever happens to the
  settings and the accounts between; the budget that was ensured is held; a refusal changes nothing.
\<close>

section \<open>The reservation of an authorization\<close>

lemma billing_mode_cases: "get_billing_mode s \<in> {''self'', ''usage'', ''period''}"
  by (simp add: get_billing_mode_def Let_def split: option.splits)

lemma billing_mode_trimmed [simp]: "trim_space (get_billing_mode s) = get_billing_mode s"
proof -
  have "trim_space ''self'' = ''self''" "trim_space ''usage'' = ''usage''" "trim_space ''period'' = ''period''" by code_simp+
  then show ?thesis using billing_mode_cases [of s] by auto
qed

lemma mapped_Inr: "mapped err f res = (Inr b, db) \<longleftrightarrow> (\<exists>a. res = (Inr a, db) \<and> b = f a)"
  by (cases res; cases "fst res") (auto simp: mapped_def)

lemma mapped_Inl: "mapped err f res = (Inl e, db) \<longleftrightarrow> (\<exists>e'. res = (Inl e', db) \<and> e = err e')"
  by (cases res; cases "fst res") (auto simp: mapped_def)

lemma map_sum_eq_Inr: "map_sum f g r = Inr b \<longleftrightarrow> (\<exists>a. r = Inr a \<and> b = g a)"
  by (cases r) auto

lemma authorizedE:
  assumes "authorize_usage s user_id name ref_no t1 t2 db = (Inr auth, db1)" "ua_reservation auth = Some r"
  obtains request where "reserve_usage_balance request t2 db = (Inr r, db1)" "rr_user_id request = user_id"
    "ua_mode auth = get_billing_mode s" "rr_mode request = get_billing_mode s" "get_billing_mode s \<noteq> ''self''"
    "ua_ref_no auth = trim_space ref_no" "rr_ref_no request = trim_space ref_no"
proof -
  obtain request where request: "budget_request s db user_id name (trim_space ref_no) t1 = Inr (Some request)"
    and reserve: "reserve_usage_balance request t2 db = (Inr r, db1)"
    and auth: "ua_mode auth = get_billing_mode s" "ua_ref_no auth = trim_space ref_no"
    using assms by (auto simp: authorize_usage_def Let_def mapped_Inr split: sum.splits option.splits)
  have "rr_user_id request = user_id \<and> rr_mode request = get_billing_mode s \<and> rr_ref_no request = trim_space ref_no \<and>
      get_billing_mode s \<noteq> ''self''"
    using request
    by (auto simp: budget_request_def Let_def attempt_eq_Inr_iff usage_request_of_def period_request_of_def
        map_sum_eq_Inr split: if_splits sum.splits)
  then show thesis using that reserve auth by blast
qed

section \<open>The mode is fixed\<close>

lemma authorized_modeI:
  assumes "authorize_usage s user_id name ref_no t1 t2 db = (Inr auth, db1)"
  shows "ua_mode auth = get_billing_mode s"
  using assms by (auto simp: authorize_usage_def Let_def mapped_Inr split: sum.splits option.splits)

lemma authorized_mode_fixed:
  assumes "ua_mode auth = get_billing_mode s"
  shows "authorized_mode s' (Some auth) = get_billing_mode s"
  using assms billing_mode_cases [of s] by (auto simp: authorized_mode_def Let_def)

text \<open>
  The billing mode of a request is the one at its authorization: the bill is made and the usage
  recorded in that mode, and whatever the settings are then has no effect on how it is recorded.
\<close>

theorem mode_fixed_at_authorization:
  assumes "authorize_usage s user_id name ref_no t1 t2 db = (Inr auth, db1)"
  shows "mode_of_usage s' (inp\<lparr>up_authorization := Some auth\<rparr>) = get_billing_mode s \<and>
    record_usage_with_authorization (s'\<lparr>bs_settings := changed\<rparr>) usage (Some auth) clock now settled_at db2 =
      record_usage_with_authorization s' usage (Some auth) clock now settled_at db2"
proof -
  have mode: "ua_mode auth = get_billing_mode s" by (rule authorized_modeI [OF assms])
  then have "mode_of_usage s' (inp\<lparr>up_authorization := Some auth\<rparr>) = get_billing_mode s"
    using billing_mode_cases [of s] by (auto simp: mode_of_usage_def)
  moreover have "settlement_period (s'\<lparr>bs_settings := changed\<rparr>) usage r clock db2 = settlement_period s' usage r clock db2" for r
    by (simp add: settlement_period_def)
  ultimately show ?thesis
    by (simp add: record_usage_with_authorization_def Let_def authorized_mode_fixed [OF mode])
qed

section \<open>A request is charged once\<close>

text \<open>The settlement of a request with a budget, by the mode of its authorization.\<close>

lemma record_with_reservation:
  assumes "authorize_usage s user_id name ref_no t1 t2 db = (Inr auth, db1)" "ua_reservation auth = Some r"
    and "is_zero (ul_billing_at usage) \<or> is_zero (ul_usage_date usage) \<Longrightarrow> get_billing_mode s = ''usage''"
  shows "record_usage_with_authorization s' usage (Some auth) clock now settled_at db2 =
    mapped settlement_error (\<lambda>l. l)
      (if get_billing_mode s = ''usage'' then add_usage_and_settle_balance usage (Some r) settled_at db2
       else add_period_usage_and_settle_overage usage (the (ur_period_start_at r)) (the (ur_period_end_at r))
              (ur_period_limit_nanousd r) (Some r) now settled_at db2)"
  using assms(1,2)
proof (rule authorizedE)
  fix request
  assume reserve: "reserve_usage_balance request t2 db = (Inr r, db1)"
    and mode: "ua_mode auth = get_billing_mode s" "rr_mode request = get_billing_mode s" "get_billing_mode s \<noteq> ''self''"
  note row = granted_row [OF reserve]
  show ?thesis
  proof (cases "get_billing_mode s = ''usage''")
    case True
    then show ?thesis
      using assms(2) by (simp add: record_usage_with_authorization_def Let_def authorized_mode_fixed [OF mode(1)])
  next
    case False
    then have period: "get_billing_mode s = ''period''" using billing_mode_cases [of s] mode(3) by auto
    have "\<not> invalid_reservation_request (request\<lparr>rr_ref_no := trim_space (rr_ref_no request), rr_mode := ''period''\<rparr>)"
      using row(1) mode(2) period billing_mode_trimmed [of s] by simp
    then obtain ps pe where "rr_period_start_at request = Some ps" "rr_period_end_at request = Some pe" "ps < pe"
        "0 \<le> rr_period_credit_nanousd request"
      by (auto simp: invalid_reservation_request_def split: option.splits)
    then have "settlement_period s' usage (Some r) clock db2 =
        Inr (the (ur_period_start_at r), the (ur_period_end_at r), ur_period_limit_nanousd r)"
      using row(4-7) mode(2) period billing_mode_trimmed [of s] by (simp add: settlement_period_def)
    then show ?thesis
      using False assms(2,3) period by (auto simp: record_usage_with_authorization_def Let_def authorized_mode_fixed [OF mode(1)])
  qed
qed

text \<open>
  C1. A request with a budget is charged once. When its usage has been recorded, then whatever billing
  operations follow and whatever the settings have become, recording it again with the same authorization
  gives back one and the same ledger row and leaves the database as it is.
\<close>

theorem request_charged_once:
  fixes s s1 :: "'f billing_service"
  assumes auth: "authorize_usage s user_id name ref_no t1 t2 (billing_run history empty_db) = (Inr auth, db1)"
    "ua_reservation auth = Some r"
    and recorded: "record_usage_with_authorization s1 usage (Some auth) clock now settled_at (billing_run between db1) =
      (Inr answer, db2)"
    and dated: "\<not> is_zero (ul_billing_at usage)" "\<not> is_zero (ul_usage_date usage)"
  shows "\<exists>l \<in> set (table_rows (db_ledgers db2)). \<forall>(s2 :: 'f billing_service) usage' clock' now' again later.
    ul_user_id usage' = ul_user_id usage \<and> \<not> is_zero (ul_billing_at usage') \<and> \<not> is_zero (ul_usage_date usage') \<longrightarrow>
    record_usage_with_authorization s2 usage' (Some auth) clock' now' again (billing_run later db2) =
      (Inr l, billing_run later db2)"
proof -
  let ?mode = "get_billing_mode s" and ?ps = "the (ur_period_start_at r)" and ?pe = "the (ur_period_end_at r)"
  let ?credit = "ur_period_limit_nanousd r"
  let ?accepts = "if ?mode = ''usage'' then (\<lambda>row. ur_mode row = ''usage'')
    else (\<lambda>row. matches_period_reservation row ?ps ?pe ?credit)"
  obtain request where "reserve_usage_balance request t2 (billing_run history empty_db) = (Inr r, db1)"
    using authorizedE [OF auth] by metis
  then have run: "billing_run between db1 = billing_run (history @ ReserveUsage request t2 # between) empty_db"
    by (simp add: billing_run_def)
  have ok: "usage_ok (billing_run between db1)" "accounts_ok (billing_run between db1)"
    unfolding run by (rule run_from_empty)+
  have settled: "(if ?mode = ''usage'' then add_usage_and_settle_balance usage (Some r) settled_at (billing_run between db1)
       else add_period_usage_and_settle_overage usage ?ps ?pe ?credit (Some r) now settled_at (billing_run between db1)) =
      (Inr answer, db2)"
    using recorded dated unfolding record_with_reservation [OF auth, of usage, simplified dated, simplified] mapped_Inr by auto
  then have "\<exists>l. answered ?accepts r (ul_user_id usage) l db2"
    using settle_balance_answered [OF _ ok, of usage r settled_at answer db2]
      settle_period_answered [OF _ ok, of usage ?ps ?pe ?credit r now settled_at answer db2] by (simp split: if_split_asm)
  then obtain l where l: "answered ?accepts r (ul_user_id usage) l db2" ..
  have "record_usage_with_authorization s2 usage' (Some auth) clock' now' again (billing_run later db2) =
      (Inr l, billing_run later db2)"
    if same: "ul_user_id usage' = ul_user_id usage" "\<not> is_zero (ul_billing_at usage')" "\<not> is_zero (ul_usage_date usage')"
    for s2 :: "'f billing_service" and usage' clock' now' again later
  proof -
    note retry = answered_retry [OF answered_run [OF l] same(1), of later]
    have valid: "?mode \<noteq> ''usage'' \<Longrightarrow> \<not> (ul_user_id usage = 0 \<or> is_zero ?ps \<or> \<not> ?ps < ?pe \<or> ?credit < 0)"
      using settled by (auto simp: add_period_usage_and_settle_overage_def split: if_splits)
    have "(if ?mode = ''usage'' then add_usage_and_settle_balance usage' (Some r) again (billing_run later db2)
        else add_period_usage_and_settle_overage usage' ?ps ?pe ?credit (Some r) now' again (billing_run later db2)) =
        (Inr l, billing_run later db2)"
    proof (cases "?mode = ''usage''")
      case True
      then show ?thesis using retry by (simp add: add_usage_and_settle_balance_def transaction_def settle_balance_body_def)
    next
      case False
      then show ?thesis using retry valid same(1)
        by (simp add: add_period_usage_and_settle_overage_def transaction_def settle_period_body_def)
    qed
    then show ?thesis
      using record_with_reservation [OF auth, of usage' s2 clock' now' again "billing_run later db2"] same(2,3)
      by (simp add: mapped_def)
  qed
  moreover have "l \<in> set (table_rows (db_ledgers db2))" using l by (simp add: answered_def)
  ultimately show ?thesis by (intro bexI [of _ l] allI impI) simp_all
qed

section \<open>The budget is held\<close>

lemma find_map_keep: "(\<And>x. P (g x) = P x) \<Longrightarrow> List.find P (map g xs) = map_option g (List.find P xs)"
  by (induction xs) auto

lemma raised_row:
  assumes "raise_usage_balance_reservation user_id ref_no required now db = (Inr (), db')"
    and "find_reservation db user_id (trim_space ref_no) = Some r"
    and "ur_balance_nanousd r + ur_period_credit_nanousd r < required" "0 \<le> ur_balance_nanousd r" "0 \<le> ur_period_credit_nanousd r"
  shows "\<exists>row. find_reservation db' user_id (trim_space ref_no) = Some row \<and> ur_status row = ReservationActive \<and>
    ur_balance_nanousd row + ur_period_credit_nanousd row = required"
proof -
  have body: "raise_body user_id (trim_space ref_no) required now db = (Inr (), db')"
    using assms(1) by (auto simp: raise_usage_balance_reservation_def Let_def transaction_def
        split: if_splits prod.splits sum.splits)
  obtain account db1 where acc: "get_or_create_account_for_update user_id db = (Inr account, db1)"
    using body by (auto simp: raise_body_def split: prod.splits sum.splits)
  have same: "find_reservation db1 user_id (trim_space ref_no) = Some r"
    using account_frame [OF acc] assms(2) by (simp add: find_reservation_def)
  have short: "\<not> required \<le> add_non_negative_int64 (ur_balance_nanousd r) (ur_period_credit_nanousd r)"
    using add_non_negative_le [OF assms(4,5)] assms(3) by simp
  obtain credit where active: "ur_status r = ReservationActive"
    and db': "db' = update_reservation (ur_id r)
      (\<lambda>r. r\<lparr>ur_balance_nanousd := required - credit, ur_period_credit_nanousd := credit\<rparr>) db1"
    using body acc same short by (auto simp: raise_body_def Let_def split: if_splits sum.splits prod.splits)
  have "find_reservation db' user_id (trim_space ref_no) =
      Some (r\<lparr>ur_balance_nanousd := required - credit, ur_period_credit_nanousd := credit\<rparr>)"
    using same unfolding db' find_reservation_def first_row_def update_reservation_def update_rows_def
    by (simp add: find_map_keep)
  then show ?thesis using active by auto
qed

text \<open>
  C31. When a request was authorized with a budget and the budget then ensured for an amount, the row of
  the reservation is active and holds at least that amount.
\<close>

theorem ensured_budget_is_held:
  assumes auth: "authorize_usage s user_id name ref_no t1 t2 db = (Inr auth, db1)" "ua_reservation auth = Some r"
    and ensured: "ensure_usage_authorization_budget (Some auth) required now db1 = (Inr (), db2)"
  shows "\<exists>row. find_reservation db2 user_id (trim_space ref_no) = Some row \<and> ur_status row = ReservationActive \<and>
    required \<le> ur_balance_nanousd row + ur_period_credit_nanousd row"
  using auth
proof (rule authorizedE)
  fix request
  assume reserve: "reserve_usage_balance request t2 db = (Inr r, db1)"
    and user: "rr_user_id request = user_id" "rr_ref_no request = trim_space ref_no"
  note row = granted_row [OF reserve]
  have found: "find_reservation db1 user_id (trim_space ref_no) = Some r" using row(10) row(2,3) user by simp
  show ?thesis
  proof (cases "required \<le> ur_balance_nanousd r + ur_period_credit_nanousd r")
    case True
    then have "db2 = db1"
      using ensured auth(2) row(9) by (simp add: ensure_usage_authorization_budget_def)
    then show ?thesis using found row(8) True by simp
  next
    case False
    then have "raise_usage_balance_reservation user_id (trim_space ref_no) required now db1 = (Inr (), db2)"
      using ensured auth(2) row(2,3,9,11) user by (simp add: ensure_usage_authorization_budget_def mapped_Inr split: if_split_asm)
    then show ?thesis using raised_row [of user_id "trim_space ref_no" required now db1 db2 r] found row(12,13) False by auto
  qed
qed

section \<open>Refusals\<close>

lemma transaction_Inl: "transaction body db = (Inl e, db') \<Longrightarrow> db' = db"
  by (auto simp: transaction_def split: prod.splits sum.splits)

lemma mapped_keeps: "(\<And>e db'. res = (Inl e, db') \<Longrightarrow> db' = db) \<Longrightarrow> isl (fst (mapped err f res)) \<Longrightarrow> snd (mapped err f res) = db"
  by (cases res; cases "fst res") (auto simp: mapped_def)

lemma unit_steps_keep:
  "reserve_usage_balance inp now db = (Inl e, db') \<Longrightarrow> db' = db"
  "raise_usage_balance_reservation u ref_no required now db = (Inl e, db') \<Longrightarrow> db' = db"
  "add_usage usage db = (Inl e, db') \<Longrightarrow> db' = db"
  "add_usage_and_settle_balance usage r settled_at db = (Inl e, db') \<Longrightarrow> db' = db"
  "add_period_usage_and_settle_overage usage ps pe credit r now settled_at db = (Inl e, db') \<Longrightarrow> db' = db"
  by (auto simp: reserve_usage_balance_def raise_usage_balance_reservation_def add_usage_def Let_def
      add_usage_and_settle_balance_def add_period_usage_and_settle_overage_def dest: transaction_Inl split: if_splits)

text \<open>
  A request that is refused, a budget that cannot be raised and a usage that cannot be recorded leave
  the database as it is.
\<close>

theorem refusal_changes_nothing:
  "(isl (fst (authorize_usage s user_id name ref_no t1 t2 db)) \<longrightarrow>
      snd (authorize_usage s user_id name ref_no t1 t2 db) = db) \<and>
   (isl (fst (ensure_usage_authorization_budget auth required now db)) \<longrightarrow>
      snd (ensure_usage_authorization_budget auth required now db) = db) \<and>
   (isl (fst (record_usage_with_authorization s usage auth clock now settled_at db)) \<longrightarrow>
      snd (record_usage_with_authorization s usage auth clock now settled_at db) = db)"
proof (intro conjI impI)
  show "snd (authorize_usage s user_id name ref_no t1 t2 db) = db"
    if "isl (fst (authorize_usage s user_id name ref_no t1 t2 db))"
    using that by (auto simp: authorize_usage_def Let_def split: sum.splits option.splits
        intro!: mapped_keeps dest: unit_steps_keep)
  show "snd (ensure_usage_authorization_budget auth required now db) = db"
    if "isl (fst (ensure_usage_authorization_budget auth required now db))"
    using that by (auto simp: ensure_usage_authorization_budget_def Let_def split: if_splits option.splits
        intro!: mapped_keeps dest: unit_steps_keep)
  show "snd (record_usage_with_authorization s usage auth clock now settled_at db) = db"
    if "isl (fst (record_usage_with_authorization s usage auth clock now settled_at db))"
    using that by (auto simp: record_usage_with_authorization_def Let_def split: if_splits sum.splits
        intro!: mapped_keeps dest: unit_steps_keep)
qed

section \<open>A request of user 7\<close>

text \<open>The balance is 1000; without a configured amount a fifth of it is reserved.\<close>

definition topped_up :: billing_db where
  "topped_up = billing_run [SetBalance 7 1000 ''top''] empty_db"

definition sample_authorization :: "usage_authorization \<times> billing_db" where
  "sample_authorization =
     (case authorize_usage sample_service 7 ''claude'' ''run-1'' 20 20 topped_up of (r, db) \<Rightarrow> (projr r, db))"

definition in_self_mode :: "int billing_service" where
  "in_self_mode = sample_service\<lparr>bs_settings := [(''mode'', ''self'')]\<rparr>"

lemma budgeted_sample:
  "authorize_usage sample_service 7 ''claude'' ''run-1'' 20 20 topped_up =
     (Inr (fst sample_authorization), snd sample_authorization)"
  "map_option ur_balance_nanousd (ua_reservation (fst sample_authorization)) = Some 200"
proof -
  let ?res = "authorize_usage sample_service 7 ''claude'' ''run-1'' 20 20 topped_up"
  have "case ?res of (Inl _, _) \<Rightarrow> False | (Inr a, _) \<Rightarrow> map_option ur_balance_nanousd (ua_reservation a) = Some 200"
    by code_simp
  then show "?res = (Inr (fst sample_authorization), snd sample_authorization)"
    "map_option ur_balance_nanousd (ua_reservation (fst sample_authorization)) = Some 200"
    unfolding sample_authorization_def by (auto split: prod.splits sum.splits)
qed

theorem mode_fixed_at_authorization_witness:
  "mode_of_usage in_self_mode (sample_request ''x'' ''claude''\<lparr>up_authorization := Some (fst sample_authorization)\<rparr>) = ''usage''"
proof -
  have "get_billing_mode sample_service = ''usage''" by code_simp
  then show ?thesis
    using mode_fixed_at_authorization [OF budgeted_sample(1), of in_self_mode "sample_request ''x'' ''claude''"] by simp
qed

theorem ensured_budget_is_held_witness:
  "\<exists>row. find_reservation (snd (ensure_usage_authorization_budget (Some (fst sample_authorization)) 450 21
       (snd sample_authorization))) 7 (trim_space ''run-1'') = Some row \<and>
     450 \<le> ur_balance_nanousd row + ur_period_credit_nanousd row"
proof -
  let ?ensured = "ensure_usage_authorization_budget (Some (fst sample_authorization)) 450 21 (snd sample_authorization)"
  have "\<not> isl (fst ?ensured)" by code_simp
  then have "?ensured = (Inr (), snd ?ensured)" by (cases ?ensured; cases "fst ?ensured") auto
  moreover obtain r where "ua_reservation (fst sample_authorization) = Some r" using budgeted_sample(2) by auto
  ultimately show ?thesis using ensured_budget_is_held [OF budgeted_sample(1)] by blast
qed

theorem request_charged_once_witness:
  "let first = record_usage_with_authorization sample_service (sample_usage 7 ''run-1'' 250 30\<lparr>ul_usage_date := 30\<rparr>)
         (Some (fst sample_authorization)) 30 30 30 (snd sample_authorization);
       db = billing_run [SetBalance 7 5000 ''again''] (snd first)
   in \<exists>l \<in> set (table_rows (db_ledgers (snd first))).
        record_usage_with_authorization in_self_mode (sample_usage 7 ''run-1'' 300 30\<lparr>ul_usage_date := 30\<rparr>)
          (Some (fst sample_authorization)) 60 60 60 db = (Inr l, db)"
proof -
  let ?first = "record_usage_with_authorization sample_service (sample_usage 7 ''run-1'' 250 30\<lparr>ul_usage_date := 30\<rparr>)
    (Some (fst sample_authorization)) 30 30 30 (billing_run [] (snd sample_authorization))"
  have run: "billing_run [] (snd sample_authorization) = snd sample_authorization" by (simp add: billing_run_def)
  have "\<not> isl (fst ?first)" unfolding run by code_simp
  then obtain answer where first: "?first = (Inr answer, snd ?first)" by (cases ?first; cases "fst ?first") auto
  obtain r where r: "ua_reservation (fst sample_authorization) = Some r" using budgeted_sample(2) by auto
  have dated: "\<not> is_zero (ul_billing_at (sample_usage 7 ''run-1'' v 30\<lparr>ul_usage_date := 30\<rparr>))" "\<not> is_zero (ul_usage_date (sample_usage 7 ''run-1'' v 30\<lparr>ul_usage_date := 30\<rparr>))"
      "ul_user_id (sample_usage 7 ''run-1'' v 30\<lparr>ul_usage_date := 30\<rparr>) = 7" for v
    by (simp_all add: sample_usage_def is_zero_def zero_time_def)
  obtain l where l: "l \<in> set (table_rows (db_ledgers (snd ?first)))"
    and again: "\<forall>(s2 :: int billing_service) usage' clock' now' again later.
      ul_user_id usage' = ul_user_id (sample_usage 7 ''run-1'' 250 30\<lparr>ul_usage_date := 30\<rparr>) \<and>
      \<not> is_zero (ul_billing_at usage') \<and> \<not> is_zero (ul_usage_date usage') \<longrightarrow>
      record_usage_with_authorization s2 usage' (Some (fst sample_authorization)) clock' now' again (billing_run later (snd ?first)) =
        (Inr l, billing_run later (snd ?first))"
    using request_charged_once [OF budgeted_sample(1) [unfolded topped_up_def] r first dated(1,2)] by blast
  have "record_usage_with_authorization in_self_mode (sample_usage 7 ''run-1'' 300 30\<lparr>ul_usage_date := 30\<rparr>)
      (Some (fst sample_authorization)) 60 60 60 (billing_run [SetBalance 7 5000 ''again''] (snd ?first)) =
      (Inr l, billing_run [SetBalance 7 5000 ''again''] (snd ?first))"
    using again dated by simp
  then show ?thesis using l unfolding Let_def run by blast
qed

theorem refusal_changes_nothing_witness:
  "isl (fst (authorize_usage sample_service 7 ''unpriced'' ''run-2'' 20 20 topped_up)) \<and>
   snd (authorize_usage sample_service 7 ''unpriced'' ''run-2'' 20 20 topped_up) = topped_up"
proof -
  have "isl (fst (authorize_usage sample_service 7 ''unpriced'' ''run-2'' 20 20 topped_up))" by code_simp
  then show ?thesis using refusal_changes_nothing by blast
qed

end
