(* ===== verification/Message_Db.thy ===== *)
theory Message_Db
  imports Tables
begin

text \<open>
  Conversations and their messages (infra/persistence/postgres/conversation: repository.go and
  repository_message_delete.go): the messages of a conversation form a tree by their parent ids, a retry or an
  edit starts a sibling, and a message is deleted by splicing it out. A row with a deleted_at stays in the table, is
  invisible to every query and still holds its public id. A method is one step, as it locks the row of the conversation
  first. The attachments of a message, hydrated from a table of their own, are a text of the message; whether the files
  of new attachments can be locked is an argument. Usage, billing, moderation, feedback and edit times are left out,
  and so are lost connections.
\<close>

section \<open>Rows\<close>

record message =
  cm_id :: nat
  cm_conversation_id :: nat
  cm_user_id :: nat
  cm_public_id :: string
  cm_parent_id :: "nat option"
  cm_run_id :: string
  cm_role :: string
  cm_content :: string
  cm_reasoning_content :: string
  cm_branch_reason :: string
  cm_source_id :: "nat option"
  cm_token_usage :: int
  cm_status :: string
  cm_error_code :: string
  cm_error_message :: string
  cm_attachments :: string
  cm_deleted :: bool

record chat_conversation =
  cv_id :: nat
  cv_user_id :: nat
  cv_public_id :: string
  cv_message_count :: int
  cv_last_compacted_at :: "time option"

record context_snapshot =
  cs_id :: nat
  cs_conversation_id :: nat
  cs_message_id :: nat
  cs_user_id :: nat
  cs_run_id :: string
  cs_from_turn :: int
  cs_to_turn :: int
  cs_covered_until_id :: nat
  cs_covered_until_public_id :: string
  cs_coverage_path_hash :: string
  cs_covered_count :: int
  cs_source_tokens :: int
  cs_summary_tokens :: int
  cs_summary_text :: string
  cs_strategy :: string

record chat_db =
  cd_conversations :: "chat_conversation table"
  cd_messages :: "message table"
  cd_snapshots :: "context_snapshot table"

definition empty_chat_db :: chat_db where
  "empty_chat_db = \<lparr>cd_conversations = empty_table, cd_messages = empty_table, cd_snapshots = empty_table\<rparr>"

datatype chat_error =
    ErrChatNotFound | ErrChatDuplicate | ErrChatInvalidInput | ErrAttachedFile | ErrMessageParentDeleted
  | ErrMessageDeleteStateInvalid | ErrMessageDeleteRootInvalid | ErrMessageDeleteTargetInvalid
  | ErrConversationNotFound | ErrMessageNotFound | ErrInvalidMessageBranch | ErrContextAncestorSafetyLimit

type_synonym 'a chat_result = "(chat_error + 'a) \<times> chat_db"

definition chat_transaction :: "(chat_db \<Rightarrow> 'a chat_result) \<Rightarrow> chat_db \<Rightarrow> 'a chat_result" where
  "chat_transaction body db = (case body db of (Inl e, _) \<Rightarrow> (Inl e, db) | (Inr a, db') \<Rightarrow> (Inr a, db'))"

definition then_chat :: "'a chat_result \<Rightarrow> ('a \<Rightarrow> chat_db \<Rightarrow> 'b chat_result) \<Rightarrow> 'b chat_result" where
  "then_chat res f = (case res of (Inl e, db) \<Rightarrow> (Inl e, db) | (Inr a, db) \<Rightarrow> f a db)"

text \<open>
  \<open>strings.EqualFold\<close> against an ASCII word, as \<open>SimpleFold\<close> defines it: the ASCII letters and the two
  other runes that fold to one (U+017F to s, U+212A to k).
\<close>

fun fold_case :: "string \<Rightarrow> string" where
  "fold_case [] = []"
| "fold_case (c # s) =
     (if c = CHR 0xC5 \<and> take 1 s = [CHR 0xBF] then CHR ''s'' # fold_case (drop 1 s)
      else if c = CHR 0xE2 \<and> take 2 s = [CHR 0x84, CHR 0xAA] then CHR ''k'' # fold_case (drop 2 s)
      else lower_byte c # fold_case s)"

definition is_word :: "string \<Rightarrow> string \<Rightarrow> bool" where
  "is_word word s \<longleftrightarrow> fold_case (trim_space s) = word"

section \<open>Queries\<close>

definition live_messages :: "chat_db \<Rightarrow> message list" where
  "live_messages db = filter (\<lambda>m. \<not> cm_deleted m) (table_rows (cd_messages db))"

definition get_message_by_id :: "chat_db \<Rightarrow> nat \<Rightarrow> nat \<Rightarrow> message option" where
  "get_message_by_id db conversation_id i =
     List.find (\<lambda>m. cm_id m = i \<and> cm_conversation_id m = conversation_id) (live_messages db)"

definition get_message_by_public_id :: "chat_db \<Rightarrow> nat \<Rightarrow> nat \<Rightarrow> string \<Rightarrow> message option" where
  "get_message_by_public_id db conversation_id user_id public_id =
     List.find (\<lambda>m. cm_conversation_id m = conversation_id \<and> cm_user_id m = user_id \<and> cm_public_id m = public_id)
       (live_messages db)"

definition get_message_by_public_id_for_user :: "chat_db \<Rightarrow> nat \<Rightarrow> string \<Rightarrow> message option" where
  "get_message_by_public_id_for_user db user_id public_id =
     List.find (\<lambda>m. cm_user_id m = user_id \<and> cm_public_id m = public_id) (live_messages db)"

text \<open>The recursive query: from a message up its parents in the conversation, at most so many rows.\<close>

fun ancestors_up :: "chat_db \<Rightarrow> nat \<Rightarrow> nat option \<Rightarrow> nat \<Rightarrow> message list" where
  "ancestors_up db conversation_id (Some i) (Suc depth) =
     (case get_message_by_id db conversation_id i of
        None \<Rightarrow> [] | Some m \<Rightarrow> m # ancestors_up db conversation_id (cm_parent_id m) depth)"
| "ancestors_up db conversation_id _ _ = []"

definition max_ancestor_query_depth :: int where
  "max_ancestor_query_depth = 2000"

definition max_message_query_limit :: int where
  "max_message_query_limit = 1000"

definition list_message_ancestors :: "chat_db \<Rightarrow> nat \<Rightarrow> nat \<Rightarrow> int \<Rightarrow> message list" where
  "list_message_ancestors db conversation_id leaf_id max_depth =
     (let depth = (if max_depth \<le> 0 then 40 else max_depth);
          depth = (if max_ancestor_query_depth < depth then max_ancestor_query_depth else depth)
      in rev (ancestors_up db conversation_id (Some leaf_id) (nat depth)))"

text \<open>A preview row has only some columns; the other fields of the struct are zero.\<close>

definition preview_of :: "nat \<Rightarrow> message \<Rightarrow> message" where
  "preview_of conversation_id m =
     \<lparr>cm_id = cm_id m, cm_conversation_id = conversation_id, cm_user_id = 0, cm_public_id = cm_public_id m,
      cm_parent_id = None, cm_run_id = [], cm_role = cm_role m, cm_content = cm_content m,
      cm_reasoning_content = [], cm_branch_reason = [], cm_source_id = None, cm_token_usage = 0,
      cm_status = cm_status m, cm_error_code = [], cm_error_message = cm_error_message m, cm_attachments = [],
      cm_deleted = False\<rparr>"

text \<open>The newest message, its ancestors, and of these the lowest of a user or an assistant.\<close>

definition list_latest_branch_preview_messages :: "chat_db \<Rightarrow> nat \<Rightarrow> int \<Rightarrow> int \<Rightarrow> message list" where
  "list_latest_branch_preview_messages db conversation_id max_depth limit =
     (let depth = (if max_depth \<le> 0 then 100 else max_depth);
          depth = (if max_ancestor_query_depth < depth then max_ancestor_query_depth else depth);
          rows = (if limit \<le> 0 then 10 else limit);
          rows = (if max_message_query_limit < rows then max_message_query_limit else rows);
          newest = List.find (\<lambda>m. cm_conversation_id m = conversation_id) (rev (live_messages db));
          up = ancestors_up db conversation_id (map_option cm_id newest) (nat depth);
          visible = take (nat rows) (filter (\<lambda>m. cm_role m = ''user'' \<or> cm_role m = ''assistant'') up)
      in map (preview_of conversation_id) (rev visible))"

section \<open>Writing messages\<close>

definition lock_conversation_for_message_write :: "nat \<Rightarrow> chat_db \<Rightarrow> unit chat_result" where
  "lock_conversation_for_message_write conversation_id db =
     (case first_row (\<lambda>c. cv_id c = conversation_id) (cd_conversations db) of
        None \<Rightarrow> (Inl ErrChatNotFound, db) | Some _ \<Rightarrow> (Inr (), db))"

definition lock_parent_message_for_append :: "nat \<Rightarrow> chat_db \<Rightarrow> unit chat_result" where
  "lock_parent_message_for_append parent_id db =
     (case List.find (\<lambda>m. cm_id m = parent_id) (live_messages db) of
        None \<Rightarrow> (Inl ErrMessageParentDeleted, db) | Some _ \<Rightarrow> (Inr (), db))"

text \<open>The row gets the next id; public ids are unique among all rows, deleted ones included.\<close>

definition insert_message :: "message \<Rightarrow> chat_db \<Rightarrow> message chat_result" where
  "insert_message m db =
     (case first_row (\<lambda>r. cm_public_id r = cm_public_id m) (cd_messages db) of
        Some _ \<Rightarrow> (Inl ErrChatDuplicate, db)
      | None \<Rightarrow>
          let (row, t) = create_row (\<lambda>i. m\<lparr>cm_id := i, cm_deleted := False\<rparr>) (cd_messages db)
          in (Inr row, db\<lparr>cd_messages := t\<rparr>))"

definition add_message_count :: "nat \<Rightarrow> int \<Rightarrow> chat_db \<Rightarrow> unit chat_result" where
  "add_message_count conversation_id delta db =
     (case first_row (\<lambda>c. cv_id c = conversation_id) (cd_conversations db) of
        None \<Rightarrow> (Inl ErrChatNotFound, db)
      | Some _ \<Rightarrow> (Inr (), db\<lparr>cd_conversations := update_rows (\<lambda>c. cv_id c = conversation_id)
          (\<lambda>c. c\<lparr>cv_message_count := cv_message_count c + delta\<rparr>) (cd_conversations db)\<rparr>))"

definition create_assistant_branch_message :: "message \<Rightarrow> chat_db \<Rightarrow> message chat_result" where
  "create_assistant_branch_message assistant db =
     (case cm_parent_id assistant of
        None \<Rightarrow> (Inl ErrChatInvalidInput, db)
      | Some parent_id \<Rightarrow> chat_transaction (\<lambda>db.
          then_chat (lock_conversation_for_message_write (cm_conversation_id assistant) db) (\<lambda>_ db.
          then_chat (lock_parent_message_for_append parent_id db) (\<lambda>_ db.
          then_chat (insert_message assistant db) (\<lambda>row db.
          then_chat (add_message_count (cm_conversation_id assistant) 1 db) (\<lambda>_ db. (Inr row, db)))))) db)"

definition create_message_pair_with_user_attachments ::
  "message \<Rightarrow> message \<Rightarrow> bool \<Rightarrow> chat_db \<Rightarrow> (message \<times> message) chat_result" where
  "create_message_pair_with_user_attachments user assistant files_active db =
     chat_transaction (\<lambda>db.
       then_chat (lock_conversation_for_message_write (cm_conversation_id user) db) (\<lambda>_ db.
       then_chat (case cm_parent_id user of
                    None \<Rightarrow> (Inr (), db) | Some parent_id \<Rightarrow> lock_parent_message_for_append parent_id db) (\<lambda>_ db.
       then_chat (insert_message user db) (\<lambda>user_row db.
       then_chat (if files_active then (Inr (), db) else (Inl ErrAttachedFile, db)) (\<lambda>_ db.
       then_chat (insert_message (assistant\<lparr>cm_parent_id := Some (cm_id user_row)\<rparr>) db) (\<lambda>row db.
       then_chat (add_message_count (cm_conversation_id user) 2 db) (\<lambda>_ db. (Inr (user_row, row), db)))))))) db"

definition update_message_state :: "nat \<Rightarrow> string \<Rightarrow> string \<Rightarrow> string \<Rightarrow> chat_db \<Rightarrow> chat_db" where
  "update_message_state i status error_code error_message db =
     db\<lparr>cd_messages := update_rows (\<lambda>m. cm_id m = i \<and> \<not> cm_deleted m)
       (\<lambda>m. m\<lparr>cm_status := status, cm_error_code := error_code, cm_error_message := error_message\<rparr>)
       (cd_messages db)\<rparr>"

text \<open>Editing a message in place; a later query sees the new text.\<close>

definition update_message_content :: "nat \<Rightarrow> string \<Rightarrow> string \<Rightarrow> chat_db \<Rightarrow> message chat_result" where
  "update_message_content user_id public_id content db =
     (let public_id = trim_space public_id
      in if user_id = 0 \<or> public_id = [] then (Inl ErrChatInvalidInput, db)
         else case List.find (\<lambda>m. cm_user_id m = user_id \<and> cm_public_id m = public_id \<and>
                (cm_role m = ''user'' \<or> cm_role m = ''assistant'')) (live_messages db) of
           None \<Rightarrow> (Inl ErrChatNotFound, db)
         | Some m \<Rightarrow> (Inr (m\<lparr>cm_content := content\<rparr>), db\<lparr>cd_messages := update_rows
             (\<lambda>r. cm_id r = cm_id m \<and> \<not> cm_deleted r) (\<lambda>r. r\<lparr>cm_content := content\<rparr>) (cd_messages db)\<rparr>))"

definition create_conversation :: "nat \<Rightarrow> string \<Rightarrow> chat_db \<Rightarrow> chat_conversation chat_result" where
  "create_conversation user_id public_id db =
     (case first_row (\<lambda>c. cv_public_id c = public_id) (cd_conversations db) of
        Some _ \<Rightarrow> (Inl ErrChatDuplicate, db)
      | None \<Rightarrow>
          let (row, t) = create_row (\<lambda>i. \<lparr>cv_id = i, cv_user_id = user_id, cv_public_id = public_id,
                cv_message_count = 0, cv_last_compacted_at = None\<rparr>) (cd_conversations db)
          in (Inr row, db\<lparr>cd_conversations := t\<rparr>))"

section \<open>Deleting a message\<close>

definition children_of :: "chat_db \<Rightarrow> nat \<Rightarrow> nat list \<Rightarrow> nat list" where
  "children_of db conversation_id parents =
     map cm_id (filter (\<lambda>m. cm_conversation_id m = conversation_id \<and>
       (case cm_parent_id m of None \<Rightarrow> False | Some p \<Rightarrow> p \<in> set parents)) (live_messages db))"

text \<open>
  The recursive query of the subtree: each round adds the children of the rows of the last one, until none
  is left. A child has a higher id than its parent, so as many rounds as there are ids are enough.
\<close>

fun subtree_rounds :: "chat_db \<Rightarrow> nat \<Rightarrow> nat list \<Rightarrow> nat \<Rightarrow> nat list" where
  "subtree_rounds db conversation_id ids 0 = []"
| "subtree_rounds db conversation_id ids (Suc n) =
     (if ids = [] then [] else ids @ subtree_rounds db conversation_id (children_of db conversation_id ids) n)"

definition collect_message_subtree_ids :: "chat_db \<Rightarrow> nat \<Rightarrow> nat \<Rightarrow> nat list" where
  "collect_message_subtree_ids db conversation_id i =
     subtree_rounds db conversation_id
       (case get_message_by_id db conversation_id i of None \<Rightarrow> [] | Some m \<Rightarrow> [cm_id m])
       (table_next (cd_messages db))"

definition invalidate_snapshots_covering_messages :: "nat \<Rightarrow> nat list \<Rightarrow> chat_db \<Rightarrow> chat_db" where
  "invalidate_snapshots_covering_messages conversation_id ids db =
     db\<lparr>cd_snapshots := (cd_snapshots db)\<lparr>table_rows := filter (\<lambda>s.
       \<not> (cs_conversation_id s = conversation_id \<and> cs_covered_until_id s \<in> set ids)) (table_rows (cd_snapshots db))\<rparr>\<rparr>"

text \<open>The children of the message move to its parent, the message is marked as deleted.\<close>

definition splice_out :: "nat \<Rightarrow> nat \<Rightarrow> message table \<Rightarrow> message table" where
  "splice_out target parent_id t =
     update_rows (\<lambda>m. cm_id m = target) (\<lambda>m. m\<lparr>cm_deleted := True\<rparr>)
       (update_rows (\<lambda>m. cm_parent_id m = Some target \<and> \<not> cm_deleted m) (\<lambda>m. m\<lparr>cm_parent_id := Some parent_id\<rparr>) t)"

definition delete_message_and_reparent_children :: "nat \<Rightarrow> nat \<Rightarrow> nat \<Rightarrow> chat_db \<Rightarrow> nat chat_result" where
  "delete_message_and_reparent_children user_id conversation_id message_id db =
     chat_transaction (\<lambda>db.
       case first_row (\<lambda>c. cv_id c = conversation_id \<and> cv_user_id c = user_id) (cd_conversations db) of
         None \<Rightarrow> (Inl ErrChatNotFound, db)
       | Some _ \<Rightarrow>
           case List.find (\<lambda>m. cm_id m = message_id \<and> cm_conversation_id m = conversation_id \<and> cm_user_id m = user_id)
               (live_messages db) of
             None \<Rightarrow> (Inl ErrChatNotFound, db)
           | Some target \<Rightarrow>
               if is_word ''pending'' (cm_status target) then (Inl ErrMessageDeleteStateInvalid, db)
               else case cm_parent_id target of
                 None \<Rightarrow> (Inl ErrMessageDeleteRootInvalid, db)
               | Some parent_id \<Rightarrow>
                   let subtree = collect_message_subtree_ids db conversation_id (cm_id target);
                       moved = length (filter (\<lambda>m. cm_parent_id m = Some (cm_id target)) (live_messages db));
                       db = db\<lparr>cd_messages := splice_out (cm_id target) parent_id (cd_messages db)\<rparr>
                   in then_chat (add_message_count conversation_id (- 1) db) (\<lambda>_ db.
                        (Inr moved, invalidate_snapshots_covering_messages conversation_id subtree db))) db"

text \<open>The check of the service (application/conversation/service_message_delete.go).\<close>

definition delete_message :: "nat \<Rightarrow> string \<Rightarrow> string \<Rightarrow> chat_db \<Rightarrow> nat chat_result" where
  "delete_message user_id conversation_public_id message_public_id db =
     (let conversation_key = trim_space conversation_public_id; message_key = trim_space message_public_id
      in if conversation_key = [] then (Inl ErrConversationNotFound, db)
         else if message_key = [] then (Inl ErrMessageNotFound, db)
         else case first_row (\<lambda>c. cv_public_id c = conversation_key \<and> cv_user_id c = user_id) (cd_conversations db) of
           None \<Rightarrow> (Inl ErrConversationNotFound, db)
         | Some c \<Rightarrow>
             case get_message_by_public_id_for_user db user_id message_key of
               None \<Rightarrow> (Inl ErrMessageNotFound, db)
             | Some m \<Rightarrow>
                 if cm_conversation_id m \<noteq> cv_id c then (Inl ErrMessageNotFound, db)
                 else if trim_space (cm_role m) \<noteq> ''user'' \<and> trim_space (cm_role m) \<noteq> ''assistant''
                 then (Inl ErrMessageDeleteTargetInvalid, db)
                 else if is_word ''pending'' (cm_status m) then (Inl ErrMessageDeleteStateInvalid, db)
                 else if cm_parent_id m = None then (Inl ErrMessageDeleteRootInvalid, db)
                 else case delete_message_and_reparent_children user_id (cv_id c) (cm_id m) db of
                   (Inl ErrChatNotFound, db') \<Rightarrow> (Inl ErrMessageNotFound, db')
                 | res \<Rightarrow> res)"

section \<open>Snapshots\<close>

definition create_context_snapshot :: "context_snapshot \<Rightarrow> chat_db \<Rightarrow> context_snapshot \<times> chat_db" where
  "create_context_snapshot s db =
     (let (row, t) = create_row (\<lambda>i. s\<lparr>cs_id := i\<rparr>) (cd_snapshots db) in (row, db\<lparr>cd_snapshots := t\<rparr>))"

definition get_latest_context_snapshot :: "chat_db \<Rightarrow> nat \<Rightarrow> context_snapshot option" where
  "get_latest_context_snapshot db conversation_id =
     List.find (\<lambda>s. cs_conversation_id s = conversation_id) (rev (table_rows (cd_snapshots db)))"

definition update_conversation_compacted_at :: "nat \<Rightarrow> time \<Rightarrow> chat_db \<Rightarrow> chat_db" where
  "update_conversation_compacted_at conversation_id at db =
     db\<lparr>cd_conversations := update_rows (\<lambda>c. cv_id c = conversation_id) (\<lambda>c. c\<lparr>cv_last_compacted_at := Some at\<rparr>)
       (cd_conversations db)\<rparr>"

end
