(* ===== verification/Snapshot_Scope.thy ===== *)
theory Snapshot_Scope
  imports Message_Db
begin

text \<open>
  The part of a branch that a rolling summary stands for (application/compact/snapshot_scope.go), and the
  estimate of the tokens of a text (shared/tokenestimate). SHA-256, from the standard library, is the argument
  \<open>sha256\<close>, a function from bytes to bytes; its hexadecimal text is modelled.
\<close>

section \<open>Tokens\<close>

text \<open>The code point of a rune given by its UTF-8 bytes.\<close>

definition rune_value :: "string \<Rightarrow> int" where
  "rune_value r =
     (case map of_char r of
        [a] \<Rightarrow> a
      | [a, b] \<Rightarrow> (a - 192) * 64 + (b - 128)
      | [a, b, c] \<Rightarrow> ((a - 224) * 64 + (b - 128)) * 64 + (c - 128)
      | [a, b, c, d] \<Rightarrow> (((a - 240) * 64 + (b - 128)) * 64 + (c - 128)) * 64 + (d - 128)
      | _ \<Rightarrow> 0)"

definition is_cjk :: "int \<Rightarrow> bool" where
  "is_cjk c \<longleftrightarrow> 0x2E80 \<le> c \<and> c \<le> 0x9FFF \<or> 0xAC00 \<le> c \<and> c \<le> 0xD7AF \<or> 0xF900 \<le> c \<and> c \<le> 0xFAFF \<or>
     0x20000 \<le> c \<and> c \<le> 0x2A6DF"

definition estimate_tokens :: "string \<Rightarrow> int" where
  "estimate_tokens content =
     (let codes = map rune_value (runes content); cjk = int (length (filter is_cjk codes));
          other = int (length (filter (\<lambda>c. \<not> is_cjk c) codes))
      in (cjk * 2 + 2) div 3 + (other + 3) div 4)"

definition estimate_message_token_total :: "message list \<Rightarrow> int" where
  "estimate_message_token_total messages =
     fold (\<lambda>m sum. if 0 < cm_token_usage m then wrap64 (sum + cm_token_usage m)
                   else wrap64 (sum + (estimate_tokens (cm_content m) + 5))) messages 0"

section \<open>The path hash\<close>

definition hex_digit :: "nat \<Rightarrow> char" where
  "hex_digit d = char_of (if d < 10 then 48 + d else 87 + d)"

definition hex_encode :: "string \<Rightarrow> string" where
  "hex_encode bytes = concat (map (\<lambda>c. [hex_digit (of_char c div 16), hex_digit (of_char c mod 16)]) bytes)"

definition path_line :: "message \<Rightarrow> string" where
  "path_line m =
     dec (cm_id m) @ '':'' @ trim_space (cm_public_id m) @ '':'' @
     dec (case cm_parent_id m of None \<Rightarrow> 0 | Some p \<Rightarrow> p) @ '':'' @ trim_space (cm_role m) @ [CHR 0x0A]"

definition extend_coverage_path_hash :: "(string \<Rightarrow> string) \<Rightarrow> string \<Rightarrow> message list \<Rightarrow> string" where
  "extend_coverage_path_hash sha256 previous_hash messages =
     fold (\<lambda>m state. hex_encode (sha256 (state @ [CHR 0x00] @ path_line m))) messages (trim_space previous_hash)"

definition coverage_path_hash :: "(string \<Rightarrow> string) \<Rightarrow> message list \<Rightarrow> string" where
  "coverage_path_hash sha256 messages = extend_coverage_path_hash sha256 [] messages"

section \<open>The boundary of a snapshot\<close>

definition snapshot_has_coverage :: "context_snapshot option \<Rightarrow> bool" where
  "snapshot_has_coverage snapshot =
     (case snapshot of
        None \<Rightarrow> False
      | Some s \<Rightarrow> trim_space (cs_summary_text s) \<noteq> [] \<and> 0 < cs_covered_until_id s \<and>
          trim_space (cs_covered_until_public_id s) \<noteq> [] \<and> trim_space (cs_coverage_path_hash s) \<noteq> [] \<and>
          0 < cs_covered_count s)"

fun first_index :: "('a \<Rightarrow> bool) \<Rightarrow> 'a list \<Rightarrow> nat option" where
  "first_index P [] = None"
| "first_index P (x # xs) = (if P x then Some 0 else map_option Suc (first_index P xs))"

definition same_public_id :: "message \<Rightarrow> context_snapshot \<Rightarrow> bool" where
  "same_public_id m s \<longleftrightarrow> trim_space (cm_public_id m) = trim_space (cs_covered_until_public_id s)"

text \<open>The search ends at the first message with the id of the boundary, whether it fits or not.\<close>

definition snapshot_boundary_index ::
  "(string \<Rightarrow> string) \<Rightarrow> message list \<Rightarrow> context_snapshot option \<Rightarrow> nat option" where
  "snapshot_boundary_index sha256 messages snapshot =
     (if \<not> snapshot_has_coverage snapshot \<or> messages = [] then None
      else let s = the snapshot
        in case first_index (\<lambda>m. cm_id m = cs_covered_until_id s) messages of
             None \<Rightarrow> None
           | Some index \<Rightarrow>
               if \<not> same_public_id (messages ! index) s then None
               else if int (index + 1) \<noteq> cs_covered_count s then None
               else if coverage_path_hash sha256 (take (index + 1) messages) \<noteq> trim_space (cs_coverage_path_hash s)
               then None else Some index)"

definition snapshot_boundary_ancestor_index :: "message list \<Rightarrow> context_snapshot option \<Rightarrow> nat option" where
  "snapshot_boundary_ancestor_index messages snapshot =
     (if \<not> snapshot_has_coverage snapshot \<or> messages = [] then None
      else let s = the snapshot
        in case first_index (\<lambda>m. cm_id m = cs_covered_until_id s) messages of
             None \<Rightarrow> None
           | Some index \<Rightarrow> if \<not> same_public_id (messages ! index) s then None else Some index)"

text \<open>Every caller tries the strict check and then falls back to the other.\<close>

definition boundary_index :: "(string \<Rightarrow> string) \<Rightarrow> message list \<Rightarrow> context_snapshot option \<Rightarrow> nat option" where
  "boundary_index sha256 messages snapshot =
     (case snapshot_boundary_index sha256 messages snapshot of
        None \<Rightarrow> snapshot_boundary_ancestor_index messages snapshot | Some index \<Rightarrow> Some index)"

section \<open>Turns\<close>

definition count_user_turns :: "message list \<Rightarrow> int" where
  "count_user_turns messages = int (length (filter (\<lambda>m. cm_role m = ''user'') messages))"

text \<open>From the last message back: the turns seen, and the index of the earliest one that is preserved.\<close>

fun scan_turns :: "int \<Rightarrow> (nat \<times> message) list \<Rightarrow> int \<Rightarrow> int \<Rightarrow> int \<times> int" where
  "scan_turns preserve [] turns first = (turns, first)"
| "scan_turns preserve ((index, m) # rest) turns first =
     (if cm_role m \<noteq> ''user'' then scan_turns preserve rest turns first
      else if turns + 1 \<le> preserve then scan_turns preserve rest (turns + 1) (int index)
      else (turns + 1, first))"

definition split_messages_by_preserved_turns :: "message list \<Rightarrow> int \<Rightarrow> message list \<times> message list" where
  "split_messages_by_preserved_turns messages preserve_turns =
     (if messages = [] then ([], [])
      else let preserve = (if preserve_turns \<le> 0 then 8 else preserve_turns);
               (turns, first) = scan_turns preserve (rev (enumerate 0 messages)) 0 (- 1)
        in if turns \<le> preserve \<or> first \<le> 0 then ([], messages)
           else (take (nat first) messages, drop (nat first) messages))"

section \<open>Lemmas\<close>

lemma first_index_Some:
  "first_index P xs = Some i \<longleftrightarrow> i < length xs \<and> P (xs ! i) \<and> (\<forall>j < i. \<not> P (xs ! j))"
proof (induction xs arbitrary: i)
  case Nil
  then show ?case by simp
next
  case (Cons x xs)
  show ?case
  proof (cases i)
    case 0
    then show ?thesis by auto
  next
    case (Suc k)
    then show ?thesis using Cons.IH [of k] by (auto simp: less_Suc_eq_0_disj)
  qed
qed

lemma first_index_None: "first_index P xs = None \<longleftrightarrow> (\<forall>x \<in> set xs. \<not> P x)"
  by (induction xs) auto

lemma first_index_append:
  "first_index P (xs @ ys) = (case first_index P xs of
     Some i \<Rightarrow> Some i | None \<Rightarrow> map_option (\<lambda>i. length xs + i) (first_index P ys))"
proof (induction xs)
  case Nil
  show ?case by (cases "first_index P ys") simp_all
next
  case (Cons x xs)
  then show ?case by (cases "first_index P ys") (auto split: option.splits)
qed

text \<open>The strict check accepts nothing that the other does not.\<close>

lemma boundary_index_is_ancestor_index: "boundary_index sha256 messages s = snapshot_boundary_ancestor_index messages s"
  by (auto simp: boundary_index_def snapshot_boundary_index_def snapshot_boundary_ancestor_index_def Let_def
      split: option.splits)

lemma hex_encode_trim [simp]: "trim_space (hex_encode bytes) = hex_encode bytes"
proof (rule trim_space_plain)
  have digit: "plain_char (hex_digit d)" if "d < 16" for d
    using that by (auto simp: plain_char_def byte_in_def hex_digit_def of_char_of)
  have "of_char c div 16 < (16 :: nat)" for c :: char
    using nat_of_char_less_256 [of c] by linarith
  then show "list_all plain_char (hex_encode bytes)"
    by (induction bytes) (auto simp: hex_encode_def digit)
qed

text \<open>Extending the hash of a prefix gives the hash of the whole.\<close>

lemma hash_state_trim: "trim_space (coverage_path_hash sha256 messages) = coverage_path_hash sha256 messages"
  by (cases messages rule: rev_cases) (simp_all add: coverage_path_hash_def extend_coverage_path_hash_def)

lemma extend_coverage_append:
  "extend_coverage_path_hash sha256 (coverage_path_hash sha256 xs) ys = coverage_path_hash sha256 (xs @ ys)"
  unfolding extend_coverage_path_hash_def hash_state_trim
  by (simp add: coverage_path_hash_def extend_coverage_path_hash_def)

text \<open>The split keeps every message, and the part kept begins with a message of the user.\<close>

lemma scan_turns_index:
  assumes "scan_turns preserve (rev (enumerate 0 ms)) turns first = (turns', first')"
  shows "first' = first \<or> (0 \<le> first' \<and> nat first' < length ms \<and> cm_role (ms ! nat first') = ''user'')"
proof -
  have "first' = first \<or> (\<exists>(i, m) \<in> set rows. first' = int i \<and> cm_role m = ''user'')"
    if "scan_turns preserve rows turns first = (turns', first')" for rows :: "(nat \<times> message) list"
    using that by (induction preserve rows turns first rule: scan_turns.induct) (auto split: if_splits)
  from this [OF assms] show ?thesis by (auto simp: in_set_enumerate_eq)
qed

lemma split_partition: "fst (split_messages_by_preserved_turns ms n) @ snd (split_messages_by_preserved_turns ms n) = ms"
  by (simp add: split_messages_by_preserved_turns_def Let_def split: prod.splits)

end
