(* ===== verification/Branching.thy ===== *)
theory Branching
  imports Snapshot_Scope
begin

text \<open>
  The branch a message is sent on (application/conversation: service_branch.go, service_message_preparation.go and
  filterBlockedMessages of service_moderation.go): the parent of a new message, the pair of messages that is created
  for it, the history that is loaded in pages up the parents, and the messages of it that the model may see. The fresh
  public ids, the text of the attachments and whether their files can be locked are arguments; the number of
  files is not checked here.
\<close>

section \<open>The branch\<close>

record branch_state =
  br_existing_messages :: "message list"
  br_parent_message_id :: "nat option"
  br_parent_public_id :: string
  br_source_message_id :: "nat option"
  br_source_public_id :: string
  br_reuse_user_message :: "message option"

definition is_context_message :: "message \<Rightarrow> bool" where
  "is_context_message m \<longleftrightarrow>
     is_word ''success'' (cm_status m) \<or> cm_role m = ''assistant'' \<and> is_word ''interrupted'' (cm_status m)"

definition select_latest_default_parent_candidate :: "message list \<Rightarrow> message option" where
  "select_latest_default_parent_candidate messages =
     (case List.find (\<lambda>m. cm_role m = ''assistant'' \<and> is_context_message m) (rev messages) of
        Some m \<Rightarrow> Some m
      | None \<Rightarrow> List.find (\<lambda>m. (cm_role m = ''user'' \<or> cm_role m = ''system'') \<and> is_context_message m) (rev messages))"

definition resolve_by_public_id :: "chat_db \<Rightarrow> nat \<Rightarrow> nat \<Rightarrow> string \<Rightarrow> chat_error + message option" where
  "resolve_by_public_id db conversation_id user_id public_id =
     (let key = trim_space public_id
      in if key = [] then Inr None
         else case get_message_by_public_id db conversation_id user_id key of
           None \<Rightarrow> Inl ErrInvalidMessageBranch | Some m \<Rightarrow> Inr (Some m))"

text \<open>A retry or an edit of \<open>source\<close>: the parent must be the one of the source, which is looked up when not given.\<close>

definition parent_of_source ::
  "chat_db \<Rightarrow> nat \<Rightarrow> message \<Rightarrow> message option \<Rightarrow> string \<Rightarrow> chat_error + message option" where
  "parent_of_source db conversation_id source parent branch_reason =
     (if branch_reason \<noteq> ''retry'' \<and> branch_reason \<noteq> ''edit'' then Inl ErrInvalidMessageBranch
      else
        let expected = (case (cm_parent_id source, parent) of
              (None, Some _) \<Rightarrow> Inl ErrInvalidMessageBranch
            | (Some i, None) \<Rightarrow>
                (case get_message_by_id db conversation_id i of
                   None \<Rightarrow> Inl ErrInvalidMessageBranch | Some m \<Rightarrow> Inr (Some m))
            | (Some i, Some m) \<Rightarrow> if cm_id m \<noteq> i then Inl ErrInvalidMessageBranch else Inr (Some m)
            | (None, None) \<Rightarrow> Inr None)
        in case expected of
             Inl e \<Rightarrow> Inl e
           | Inr parent \<Rightarrow>
               if cm_role source = ''user'' then Inr parent
               else if cm_role source = ''assistant'' then
                 (if branch_reason \<noteq> ''retry'' then Inl ErrInvalidMessageBranch
                  else case parent of
                    None \<Rightarrow> Inl ErrInvalidMessageBranch
                  | Some m \<Rightarrow> if cm_role m \<noteq> ''user'' then Inl ErrInvalidMessageBranch else Inr parent)
               else Inl ErrInvalidMessageBranch)"

definition branch_of :: "message option \<Rightarrow> message option \<Rightarrow> branch_state" where
  "branch_of parent source =
     \<lparr>br_existing_messages = [], br_parent_message_id = map_option cm_id parent,
      br_parent_public_id = (case parent of None \<Rightarrow> [] | Some m \<Rightarrow> cm_public_id m),
      br_source_message_id = map_option cm_id source,
      br_source_public_id = (case source of None \<Rightarrow> [] | Some m \<Rightarrow> cm_public_id m),
      br_reuse_user_message =
        (case source of None \<Rightarrow> None | Some m \<Rightarrow> if cm_role m = ''assistant'' then parent else None)\<rparr>"

definition default_branch_preview_depth :: int where
  "default_branch_preview_depth = 2000"

definition default_branch_preview_limit :: int where
  "default_branch_preview_limit = 32"

definition resolve_message_branch ::
  "chat_db \<Rightarrow> nat \<Rightarrow> nat \<Rightarrow> string \<Rightarrow> string \<Rightarrow> string \<Rightarrow> chat_error + branch_state" where
  "resolve_message_branch db conversation_id user_id parent_public_id source_public_id branch_reason =
     (case resolve_by_public_id db conversation_id user_id parent_public_id of
        Inl e \<Rightarrow> Inl e
      | Inr parent \<Rightarrow>
        case resolve_by_public_id db conversation_id user_id source_public_id of
          Inl e \<Rightarrow> Inl e
        | Inr (Some source) \<Rightarrow>
            map_sum (\<lambda>e. e) (\<lambda>parent. branch_of parent (Some source))
              (parent_of_source db conversation_id source parent branch_reason)
        | Inr None \<Rightarrow>
            if branch_reason \<noteq> ''default'' then Inl ErrInvalidMessageBranch
            else case parent of
              Some m \<Rightarrow> Inr (branch_of (Some m) None)
            | None \<Rightarrow> Inr (branch_of (select_latest_default_parent_candidate
                (list_latest_branch_preview_messages db conversation_id default_branch_preview_depth
                   default_branch_preview_limit)) None))"

section \<open>The new messages\<close>

definition normalize_branch_reason :: "string \<Rightarrow> string" where
  "normalize_branch_reason raw =
     (let value = to_lower (trim_space raw) in if value = ''retry'' \<or> value = ''edit'' then value else ''default'')"

definition truncate_trimmed :: "string \<Rightarrow> nat \<Rightarrow> string" where
  "truncate_trimmed value max_runes =
     (let value = trim_space value
      in if max_runes = 0 \<or> length (runes value) \<le> max_runes then value else take_runes max_runes value)"

record send_input =
  sd_conversation_id :: nat
  sd_user_id :: nat
  sd_run_id :: string
  sd_content :: string
  sd_attachments :: string
  sd_files_active :: bool
  sd_user_public_id :: string
  sd_assistant_public_id :: string
  sd_rejected :: "(string \<times> string) option"

text \<open>The row that both messages start from; a send that was rejected is stored with its error.\<close>

definition new_message :: "send_input \<Rightarrow> string \<Rightarrow> message" where
  "new_message inp branch_reason =
     \<lparr>cm_id = 0, cm_conversation_id = sd_conversation_id inp, cm_user_id = sd_user_id inp, cm_public_id = [],
      cm_parent_id = None, cm_run_id = sd_run_id inp, cm_role = [], cm_content = [], cm_reasoning_content = [],
      cm_branch_reason = branch_reason, cm_source_id = None, cm_token_usage = 0,
      cm_status = (if sd_rejected inp = None then ''pending'' else ''error''),
      cm_error_code = (case sd_rejected inp of None \<Rightarrow> [] | Some (code, _) \<Rightarrow> trim_space code),
      cm_error_message = (case sd_rejected inp of None \<Rightarrow> [] | Some (_, text) \<Rightarrow> truncate_trimmed (trim_space text) 255),
      cm_attachments = ''[]'', cm_deleted = False\<rparr>"

definition assistant_message_of :: "send_input \<Rightarrow> string \<Rightarrow> message" where
  "assistant_message_of inp branch_reason =
     (new_message inp branch_reason)\<lparr>cm_public_id := sd_assistant_public_id inp, cm_role := ''assistant''\<rparr>"

definition user_message_of :: "send_input \<Rightarrow> branch_state \<Rightarrow> string \<Rightarrow> message" where
  "user_message_of inp branch branch_reason =
     (new_message inp branch_reason)
       \<lparr>cm_public_id := sd_user_public_id inp, cm_role := ''user'', cm_parent_id := br_parent_message_id branch,
        cm_content := sd_content inp, cm_source_id := br_source_message_id branch, cm_attachments := sd_attachments inp,
        cm_token_usage := (if sd_rejected inp = None then estimate_tokens (sd_content inp) else 0)\<rparr>"

text \<open>The retry of an answer reuses the message of the user; otherwise both messages are new.\<close>

definition create_message_pair :: "send_input \<Rightarrow> branch_state \<Rightarrow> string \<Rightarrow> chat_db \<Rightarrow> (message \<times> message) chat_result" where
  "create_message_pair inp branch branch_reason db =
     (case br_reuse_user_message branch of
        Some user \<Rightarrow>
          then_chat (create_assistant_branch_message
              ((assistant_message_of inp branch_reason)
                 \<lparr>cm_parent_id := Some (cm_id user), cm_source_id := br_source_message_id branch\<rparr>) db)
            (\<lambda>row db. (Inr (user, row), db))
      | None \<Rightarrow>
          create_message_pair_with_user_attachments (user_message_of inp branch branch_reason)
            (assistant_message_of inp branch_reason) (sd_files_active inp) db)"

section \<open>Loading the history\<close>

definition context_ancestor_page_size :: nat where
  "context_ancestor_page_size = 256"

definition context_ancestor_max_count :: nat where
  "context_ancestor_max_count = 10000"

definition context_ancestor_max_bytes :: nat where
  "context_ancestor_max_bytes = 67108864"

definition context_messages_payload_bytes :: "message list \<Rightarrow> nat" where
  "context_messages_payload_bytes messages =
     sum_list (map (\<lambda>m. length (cm_content m) + length (cm_reasoning_content m) + length (cm_attachments m) +
       length (cm_error_message m)) messages)"

definition boundary_in_page :: "context_snapshot option \<Rightarrow> message list \<Rightarrow> nat option" where
  "boundary_in_page snapshot page =
     (if snapshot_has_coverage snapshot
      then first_index (\<lambda>m. cm_id m = cs_covered_until_id (the snapshot) \<and> same_public_id m (the snapshot)) page
      else None)"

text \<open>
  The loop over the pages, from the leaf up. The arguments are the leaf of the next page, the path so far, the
  messages and the bytes loaded. The source asks the database once for each page; here all pages are of one state, so
  a message that is deleted between two pages, which may end the loading early, is left out. Every page that is followed by another is full, so the limit ends the loop.
\<close>

function load_pages ::
  "chat_db \<Rightarrow> nat \<Rightarrow> context_snapshot option \<Rightarrow> nat \<Rightarrow> message list \<Rightarrow> nat \<Rightarrow> nat \<Rightarrow> chat_error + message list" where
  "load_pages db conversation_id snapshot leaf_id path loaded bytes =
     (let page = (if leaf_id = 0 then []
            else list_message_ancestors db conversation_id leaf_id (int context_ancestor_page_size))
      in if page = [] then Inr path
         else
           let boundary = boundary_in_page snapshot page;
               segment = drop (case boundary of None \<Rightarrow> 0 | Some index \<Rightarrow> index) page;
               loaded = loaded + length segment; bytes = bytes + context_messages_payload_bytes segment
           in if context_ancestor_max_count < loaded \<or> context_ancestor_max_bytes < bytes
              then Inl ErrContextAncestorSafetyLimit
              else if boundary \<noteq> None \<or> length page < context_ancestor_page_size then Inr (segment @ path)
              else case cm_parent_id (hd page) of
                None \<Rightarrow> Inr (segment @ path)
              | Some parent_id \<Rightarrow> load_pages db conversation_id snapshot parent_id (segment @ path) loaded bytes)"
  by pat_completeness auto
termination
  by (relation "measure (\<lambda>(db, c, s, leaf_id, path, loaded, bytes). context_ancestor_max_count - loaded)")
    (auto simp: context_ancestor_page_size_def context_ancestor_max_count_def split: if_split_asm)

declare load_pages.simps [simp del]

definition load_message_branch_context ::
  "chat_db \<Rightarrow> nat \<Rightarrow> branch_state \<Rightarrow> context_snapshot option \<Rightarrow> chat_error + branch_state" where
  "load_message_branch_context db conversation_id branch snapshot =
     (case br_parent_message_id branch of
        None \<Rightarrow> Inr branch
      | Some leaf_id \<Rightarrow>
          if leaf_id = 0 then Inr branch
          else map_sum (\<lambda>e. e) (\<lambda>path. branch\<lparr>br_existing_messages := path\<rparr>)
            (load_pages db conversation_id snapshot leaf_id [] 0 0))"

section \<open>What the model may see\<close>

text \<open>The chain from the leaf; a later message with the same id replaces an earlier one, a cycle ends it.\<close>

function path_up :: "message list \<Rightarrow> nat list \<Rightarrow> nat \<Rightarrow> message list" where
  "path_up messages visited i =
     (case List.find (\<lambda>m. cm_id m = i) (rev messages) of
        None \<Rightarrow> []
      | Some m \<Rightarrow>
          if i = 0 \<or> i \<in> set visited then []
          else m # (case cm_parent_id m of None \<Rightarrow> [] | Some p \<Rightarrow> path_up messages (i # visited) p))"
  by pat_completeness auto
termination
proof (relation "measure (\<lambda>(messages, visited, i). card (cm_id ` set messages - set visited))", goal_cases)
  case 1
  show ?case by simp
next
  case (2 messages visited i m p)
  then have "i \<in> cm_id ` set messages - set visited" using find_in [of "\<lambda>m. cm_id m = i" "rev messages" m] by auto
  then have "card (cm_id ` set messages - set (i # visited)) < card (cm_id ` set messages - set visited)"
    by (intro psubset_card_mono) auto
  then show ?case by simp
qed

declare path_up.simps [simp del]

definition build_message_path :: "message list \<Rightarrow> nat \<Rightarrow> message list" where
  "build_message_path messages leaf_id = rev (path_up messages [] leaf_id)"

definition build_branch_message_path :: "branch_state \<Rightarrow> message \<Rightarrow> message list" where
  "build_branch_message_path branch user =
     (case br_reuse_user_message branch of
        Some reused \<Rightarrow> build_message_path (br_existing_messages branch) (cm_id reused)
      | None \<Rightarrow> build_message_path (br_existing_messages branch @ [user]) (cm_id user))"

definition is_recovered_assistant_retry_user :: "message \<Rightarrow> message \<Rightarrow> bool" where
  "is_recovered_assistant_retry_user user retry \<longleftrightarrow>
     cm_role user = ''user'' \<and> is_word ''error'' (cm_status user) \<and> cm_role retry = ''assistant'' \<and>
     is_word ''retry'' (cm_branch_reason retry) \<and> cm_source_id retry \<noteq> None \<and> is_context_message retry \<and>
     cm_parent_id retry = Some (cm_id user)"

fun recover_assistant_retry_user_states :: "message list \<Rightarrow> message list" where
  "recover_assistant_retry_user_states (m # next # rest) =
     (if is_recovered_assistant_retry_user m next
      then m\<lparr>cm_status := ''success'', cm_error_code := [], cm_error_message := []\<rparr> else m) #
     recover_assistant_retry_user_states (next # rest)"
| "recover_assistant_retry_user_states messages = messages"

definition filter_blocked_messages :: "message list \<Rightarrow> message list" where
  "filter_blocked_messages = filter (\<lambda>m. \<not> is_word ''blocked'' (cm_status m))"

definition filter_default_branch_context_messages :: "message list \<Rightarrow> nat \<Rightarrow> message list" where
  "filter_default_branch_context_messages messages current_id =
     filter (\<lambda>m. current_id \<noteq> 0 \<and> cm_id m = current_id \<or> is_context_message m) messages"

definition build_model_context_messages :: "branch_state \<Rightarrow> message \<Rightarrow> string \<Rightarrow> message list" where
  "build_model_context_messages branch user branch_reason =
     (let messages = filter_blocked_messages (recover_assistant_retry_user_states (build_branch_message_path branch user))
      in if \<not> is_word ''default'' branch_reason then messages
         else filter_default_branch_context_messages messages (cm_id user))"

end
