(* ===== verification/Message_Tree.thy ===== *)
theory Message_Tree
  imports Branching
begin

text \<open>
  The messages of a conversation as a tree: the invariant of the tables, the path of a message, and what creating and
  deleting messages does to both.
\<close>

section \<open>Trees\<close>

definition has_parent :: "chat_db \<Rightarrow> message \<Rightarrow> bool" where
  "has_parent db m =
     (case cm_parent_id m of
        None \<Rightarrow> True
      | Some p \<Rightarrow> p < cm_id m \<and>
          (\<exists>q \<in> set (live_messages db). cm_id q = p \<and> cm_conversation_id q = cm_conversation_id m))"

definition messages_in :: "chat_db \<Rightarrow> nat \<Rightarrow> nat" where
  "messages_in db conversation_id = length (filter (\<lambda>m. cm_conversation_id m = conversation_id) (live_messages db))"

text \<open>
  Every message hangs on an older one of its conversation, unless it is a first message, and the count of a
  conversation is the number of its messages.
\<close>

definition well_formed_chat :: "chat_db \<Rightarrow> bool" where
  "well_formed_chat db \<longleftrightarrow>
     keyed cm_id (cd_messages db) \<and> keyed cv_id (cd_conversations db) \<and>
     (\<forall>m \<in> set (table_rows (cd_messages db)). 0 < cm_id m \<and> cm_conversation_id m < table_next (cd_conversations db)) \<and>
     0 < table_next (cd_messages db) \<and>
     (\<forall>m \<in> set (live_messages db). has_parent db m) \<and>
     (\<forall>c \<in> set (table_rows (cd_conversations db)). cv_message_count c = int (messages_in db (cv_id c)))"

lemma live_in: "m \<in> set (live_messages db) \<longleftrightarrow> m \<in> set (table_rows (cd_messages db)) \<and> \<not> cm_deleted m"
  by (auto simp: live_messages_def)

lemma find_by_id:
  assumes "keyed cm_id (cd_messages db)" "m \<in> set (live_messages db)"
  shows "List.find (\<lambda>r. cm_id r = cm_id m) (live_messages db) = Some m"
proof -
  have "distinct (map cm_id (live_messages db))"
    using assms(1) by (auto simp: keyed_def live_messages_def distinct_map inj_on_def)
  then have "first_row (\<lambda>r. cm_id r = cm_id m) \<lparr>table_rows = live_messages db, table_next = 0\<rparr> = Some m"
    using assms(2) by (intro first_row_distinct) simp_all
  then show ?thesis by (simp add: first_row_def)
qed

lemma find_agree: "(\<And>x. x \<in> set xs \<Longrightarrow> P x = Q x) \<Longrightarrow> List.find P xs = List.find Q xs"
  by (induction xs) auto

lemma get_message_Some:
  assumes "keyed cm_id (cd_messages db)"
  shows "get_message_by_id db c i = Some m \<longleftrightarrow> m \<in> set (live_messages db) \<and> cm_id m = i \<and> cm_conversation_id m = c"
proof
  assume "get_message_by_id db c i = Some m"
  then show "m \<in> set (live_messages db) \<and> cm_id m = i \<and> cm_conversation_id m = c"
    unfolding get_message_by_id_def using find_in by fast
next
  assume m: "m \<in> set (live_messages db) \<and> cm_id m = i \<and> cm_conversation_id m = c"
  have "r = m" if "r \<in> set (live_messages db)" "cm_id r = i" for r
    using that m assms by (auto simp: keyed_def live_in distinct_map inj_on_def)
  then have "List.find (\<lambda>r. cm_id r = i \<and> cm_conversation_id r = c) (live_messages db) =
      List.find (\<lambda>r. cm_id r = cm_id m) (live_messages db)"
    using m by (intro find_agree) auto
  then show "get_message_by_id db c i = Some m"
    using find_by_id [OF assms, of m] m by (auto simp: get_message_by_id_def)
qed

section \<open>Paths\<close>

text \<open>The whole branch that ends in a message, from the first message on.\<close>

definition whole_path :: "chat_db \<Rightarrow> nat \<Rightarrow> nat \<Rightarrow> message list" where
  "whole_path db conversation_id i = rev (ancestors_up db conversation_id (Some i) i)"

lemma up_step:
  "ancestors_up db c (Some i) (Suc n) =
     (case get_message_by_id db c i of None \<Rightarrow> [] | Some m \<Rightarrow> m # ancestors_up db c (cm_parent_id m) n)"
  by simp

lemma wf_parent:
  assumes "well_formed_chat db" "get_message_by_id db c i = Some m" "cm_parent_id m = Some p"
  shows "p < i" "\<exists>q. get_message_by_id db c p = Some q" "0 < p"
proof -
  have keyed: "keyed cm_id (cd_messages db)" using assms(1) by (simp add: well_formed_chat_def)
  have m: "m \<in> set (live_messages db)" "cm_id m = i" "cm_conversation_id m = c"
    using assms(2) get_message_Some [OF keyed] by auto
  then have "has_parent db m" using assms(1) by (simp add: well_formed_chat_def)
  then obtain q where q: "q \<in> set (live_messages db)" "cm_id q = p" "cm_conversation_id q = c" "p < i"
    using assms(3) m by (auto simp: has_parent_def)
  then show "p < i" "\<exists>q. get_message_by_id db c p = Some q"
    using get_message_Some [OF keyed] by auto
  show "0 < p" using q assms(1) by (auto simp: well_formed_chat_def live_in)
qed

lemma up_enough:
  assumes "well_formed_chat db" "i \<le> n"
  shows "ancestors_up db c (Some i) n = ancestors_up db c (Some i) i"
  using assms(2)
proof (induction i arbitrary: n rule: less_induct)
  case (less i)
  show ?case
  proof (cases "get_message_by_id db c i")
    case None
    then show ?thesis by (cases n; cases i) auto
  next
    case (Some m)
    then have "0 < i"
      using assms(1) by (auto simp: well_formed_chat_def live_in get_message_Some)
    then obtain k l where nk: "n = Suc k" "i = Suc l" "l \<le> k" using less.prems by (cases n; cases i) auto
    have "ancestors_up db c (cm_parent_id m) k = ancestors_up db c (cm_parent_id m) l"
    proof (cases "cm_parent_id m")
      case None
      then show ?thesis by (cases k; cases l) auto
    next
      case (Some p)
      then have "p < i" using wf_parent(1) [OF assms(1) \<open>get_message_by_id db c i = Some m\<close>] by simp
      then show ?thesis using less.IH [of p k] less.IH [of p l] Some nk by simp
    qed
    then show ?thesis using Some nk by simp
  qed
qed

lemma whole_path_step:
  assumes "well_formed_chat db" "get_message_by_id db c i = Some m"
  shows "whole_path db c i = (case cm_parent_id m of None \<Rightarrow> [] | Some p \<Rightarrow> whole_path db c p) @ [m]"
proof -
  have "0 < i" using assms by (auto simp: well_formed_chat_def live_in get_message_Some)
  then obtain l where l: "i = Suc l" by (cases i) auto
  show ?thesis
  proof (cases "cm_parent_id m")
    case None
    then show ?thesis using assms(2) l by (simp add: whole_path_def)
  next
    case (Some p)
    then have "p \<le> l" using wf_parent(1) [OF assms] l by simp
    then show ?thesis using Some assms(2) l up_enough [OF assms(1), of p l c] by (simp add: whole_path_def)
  qed
qed

lemma whole_path_None: "get_message_by_id db c i = None \<Longrightarrow> whole_path db c i = []"
  by (cases i) (simp_all add: whole_path_def)

text \<open>The ids of a path increase, and each message hangs on the one before it.\<close>

fun linked :: "message list \<Rightarrow> bool" where
  "linked (a # b # ms) \<longleftrightarrow> cm_parent_id b = Some (cm_id a) \<and> cm_id a < cm_id b \<and> linked (b # ms)"
| "linked _ \<longleftrightarrow> True"

lemma linked_snoc: "linked (ms @ [b]) \<longleftrightarrow> linked ms \<and> (ms \<noteq> [] \<longrightarrow> cm_parent_id b = Some (cm_id (last ms)) \<and> cm_id (last ms) < cm_id b)"
  by (induction ms rule: linked.induct) auto

lemma linked_sorted: "linked ms \<Longrightarrow> sorted_wrt (<) (map cm_id ms)"
proof (induction ms rule: linked.induct)
  case (1 a b ms)
  then have "\<forall>x \<in> set (map cm_id ms). cm_id b < x" by simp
  then show ?case using 1 by (auto intro: less_trans)
qed auto

lemma linked_drop: "linked ms \<Longrightarrow> linked (drop n ms)"
proof (induction ms arbitrary: n rule: linked.induct)
  case (1 a b ms)
  then show ?case by (cases n) auto
qed (auto simp: drop_Cons split: nat.splits)

lemma whole_path_linked:
  assumes "well_formed_chat db" "get_message_by_id db c i = Some m"
  shows "linked (whole_path db c i) \<and> last (whole_path db c i) = m \<and> whole_path db c i \<noteq> []"
  using assms(2)
proof (induction i arbitrary: m rule: less_induct)
  case (less i)
  have id: "cm_id m = i" using less.prems assms(1) get_message_Some by (auto simp: well_formed_chat_def)
  show ?case
  proof (cases "cm_parent_id m")
    case None
    then show ?thesis by (simp add: whole_path_step [OF assms(1) less.prems])
  next
    case (Some p)
    obtain q where q: "get_message_by_id db c p = Some q" and p: "p < i"
      using wf_parent [OF assms(1) less.prems Some] by blast
    have "cm_id q = p" using q assms(1) get_message_Some by (auto simp: well_formed_chat_def)
    then show ?thesis
      using less.IH [OF p q] Some p id by (simp add: whole_path_step [OF assms(1) less.prems] linked_snoc)
  qed
qed

section \<open>Writing\<close>

lemma chat_transaction_Inr: "chat_transaction body db = (Inr a, db') \<longleftrightarrow> body db = (Inr a, db')"
  by (auto simp: chat_transaction_def split: prod.splits sum.splits)

lemma chat_transaction_Inl: "chat_transaction body db = (Inl e, db') \<Longrightarrow> db' = db"
  by (auto simp: chat_transaction_def split: prod.splits sum.splits)

lemma then_chat_Inr:
  "then_chat res f = (Inr b, db') \<longleftrightarrow> (\<exists>a db. res = (Inr a, db) \<and> f a db = (Inr b, db'))"
  by (auto simp: then_chat_def split: prod.splits sum.splits)

lemma lock_conversation_Inr:
  "lock_conversation_for_message_write c db = (Inr u, db') \<longleftrightarrow>
     db' = db \<and> first_row (\<lambda>x. cv_id x = c) (cd_conversations db) \<noteq> None"
  by (auto simp: lock_conversation_for_message_write_def split: option.splits)

lemma lock_parent_Inr:
  "lock_parent_message_for_append p db = (Inr u, db') \<longleftrightarrow> db' = db \<and> (\<exists>q \<in> set (live_messages db). cm_id q = p)"
  by (auto simp: lock_parent_message_for_append_def find_None_iff dest!: find_in split: option.splits)

lemma insert_message_Inr:
  "insert_message m db = (Inr row, db') \<longleftrightarrow>
     first_row (\<lambda>r. cm_public_id r = cm_public_id m) (cd_messages db) = None \<and>
     row = m\<lparr>cm_id := table_next (cd_messages db), cm_deleted := False\<rparr> \<and>
     db' = db\<lparr>cd_messages := (cd_messages db)\<lparr>table_rows := table_rows (cd_messages db) @ [row],
       table_next := table_next (cd_messages db) + 1\<rparr>\<rparr>"
  by (auto simp: insert_message_def create_row_def Let_def split: option.splits)

lemma add_message_count_Inr:
  "add_message_count c d db = (Inr u, db') \<longleftrightarrow>
     first_row (\<lambda>x. cv_id x = c) (cd_conversations db) \<noteq> None \<and>
     db' = db\<lparr>cd_conversations := update_rows (\<lambda>x. cv_id x = c)
       (\<lambda>x. x\<lparr>cv_message_count := cv_message_count x + d\<rparr>) (cd_conversations db)\<rparr>"
  by (auto simp: add_message_count_def split: option.splits)

text \<open>
  The invariant but for the counts: each conversation counts \<open>offset\<close> messages less than it has. A write is a
  few steps, and the count comes last.
\<close>

definition chat_shape :: "chat_db \<Rightarrow> bool" where
  "chat_shape db \<longleftrightarrow>
     keyed cm_id (cd_messages db) \<and> keyed cv_id (cd_conversations db) \<and>
     (\<forall>m \<in> set (table_rows (cd_messages db)). 0 < cm_id m \<and> cm_conversation_id m < table_next (cd_conversations db)) \<and>
     0 < table_next (cd_messages db) \<and>
     (\<forall>m \<in> set (live_messages db). has_parent db m)"

definition counts_off :: "(nat \<Rightarrow> int) \<Rightarrow> chat_db \<Rightarrow> bool" where
  "counts_off offset db \<longleftrightarrow> (\<forall>c \<in> set (table_rows (cd_conversations db)).
     cv_message_count c + offset (cv_id c) = int (messages_in db (cv_id c)))"

lemma well_formed_parts: "well_formed_chat db \<longleftrightarrow> chat_shape db \<and> counts_off (\<lambda>_. 0) db"
  by (auto simp: well_formed_chat_def chat_shape_def counts_off_def)

lemma insert_live:
  assumes "insert_message m db = (Inr row, db')"
  shows "live_messages db' = live_messages db @ [row]" "cm_id row = table_next (cd_messages db)"
    "cm_conversation_id row = cm_conversation_id m" "cm_parent_id row = cm_parent_id m"
    "cd_conversations db' = cd_conversations db" "cd_snapshots db' = cd_snapshots db"
  using assms by (auto simp: insert_message_Inr live_messages_def)

lemma has_parent_mono: "has_parent db r \<Longrightarrow> set (live_messages db) \<subseteq> set (live_messages db') \<Longrightarrow> has_parent db' r"
  unfolding has_parent_def by (cases "cm_parent_id r") auto

lemma insert_shape:
  assumes shape: "chat_shape db" and ins: "insert_message m db = (Inr row, db')"
    and conv: "cm_conversation_id m < table_next (cd_conversations db)"
    and parent: "\<And>p. cm_parent_id m = Some p \<Longrightarrow>
      \<exists>q \<in> set (live_messages db). cm_id q = p \<and> cm_conversation_id q = cm_conversation_id m"
  shows "chat_shape db'"
proof -
  have below: "cm_id q < table_next (cd_messages db)" if "q \<in> set (live_messages db)" for q
    using that shape by (auto simp: chat_shape_def keyed_def live_in)
  have "keyed cm_id (cd_messages db')"
    using shape [unfolded chat_shape_def] ins [unfolded insert_message_Inr]
      keyed_create [of cm_id "cd_messages db" "\<lambda>i. m\<lparr>cm_id := i, cm_deleted := False\<rparr>"]
    by (simp add: create_row_def)
  moreover have "has_parent db' row"
  proof (cases "cm_parent_id m")
    case (Some p)
    then show ?thesis
      using parent [OF Some] below insert_live [OF ins] by (fastforce simp: has_parent_def)
  qed (simp add: has_parent_def insert_live [OF ins])
  moreover have "has_parent db' r" if "r \<in> set (live_messages db)" for r
  proof (rule has_parent_mono)
    show "has_parent db r" using that shape unfolding chat_shape_def by blast
    show "set (live_messages db) \<subseteq> set (live_messages db')" unfolding insert_live(1) [OF ins] by auto
  qed
  moreover have "table_rows (cd_messages db') = table_rows (cd_messages db) @ [row]" "0 < table_next (cd_messages db')"
    using ins unfolding insert_message_Inr by auto
  moreover have "0 < cm_id row" using shape unfolding insert_live(2) [OF ins] chat_shape_def by blast
  ultimately show ?thesis
    using shape conv unfolding chat_shape_def insert_live(1,5) [OF ins] by (simp add: insert_live(3) [OF ins])
qed

lemma insert_counts:
  assumes "counts_off offset db" "insert_message m db = (Inr row, db')"
  shows "counts_off (\<lambda>c. offset c + (if c = cm_conversation_id m then 1 else 0)) db'"
  using assms(1) insert_live [OF assms(2)] by (auto simp: counts_off_def messages_in_def)

lemma add_count_ok:
  assumes "chat_shape db" "counts_off (\<lambda>x. if x = c then d else 0) db" "add_message_count c d db = (Inr u, db')"
  shows "well_formed_chat db'"
proof -
  have live: "live_messages db' = live_messages db" "cd_messages db' = cd_messages db"
    using assms(3) by (auto simp: add_message_count_Inr live_messages_def)
  have "keyed cv_id (cd_conversations db')"
    using assms(1,3) by (auto simp: chat_shape_def add_message_count_Inr intro: keyed_update)
  then show ?thesis
    using assms live unfolding well_formed_parts
    by (auto simp: chat_shape_def counts_off_def add_message_count_Inr update_rows_def messages_in_def has_parent_def
        split: option.splits)
qed

text \<open>A parent id that was found in a conversation belongs to it for ever, also when its message is deleted.\<close>

definition belongs_to :: "chat_db \<Rightarrow> nat \<Rightarrow> nat \<Rightarrow> bool" where
  "belongs_to db conversation_id i \<longleftrightarrow>
     i < table_next (cd_messages db) \<and>
     (\<forall>q \<in> set (table_rows (cd_messages db)). cm_id q = i \<longrightarrow> cm_conversation_id q = conversation_id)"

lemma locked_parent:
  assumes "lock_parent_message_for_append p db = (Inr u, db')" "belongs_to db c p"
  shows "\<exists>q \<in> set (live_messages db). cm_id q = p \<and> cm_conversation_id q = c"
  using assms unfolding lock_parent_Inr belongs_to_def by (auto simp: live_in)

lemma counts_zero: "counts_off (\<lambda>_. 0) db \<Longrightarrow> counts_off f db \<longleftrightarrow> (\<forall>c \<in> set (table_rows (cd_conversations db)). f (cv_id c) = 0)"
  by (auto simp: counts_off_def)

lemma locked_conversation:
  assumes "lock_conversation_for_message_write c db = (Inr u, db')" "chat_shape db"
  shows "c < table_next (cd_conversations db)"
  using assms unfolding lock_conversation_Inr chat_shape_def keyed_def by (auto dest!: first_row_in)

lemma create_assistant_ok:
  assumes wf: "well_formed_chat db" and created: "create_assistant_branch_message m db = (Inr row, db')"
    and parent: "\<And>p. cm_parent_id m = Some p \<Longrightarrow> belongs_to db (cm_conversation_id m) p"
  shows "well_formed_chat db'"
proof -
  obtain p db1 where p: "cm_parent_id m = Some p" and ins: "insert_message m db = (Inr row, db1)"
    and locked: "lock_parent_message_for_append p db = (Inr (), db)"
    and conv: "lock_conversation_for_message_write (cm_conversation_id m) db = (Inr (), db)"
    and counted: "add_message_count (cm_conversation_id m) 1 db1 = (Inr (), db')"
    using created by (auto simp: create_assistant_branch_message_def chat_transaction_Inr then_chat_Inr
        lock_conversation_Inr lock_parent_Inr split: option.splits)
  have shape: "chat_shape db" using wf unfolding well_formed_parts by simp
  have "chat_shape db1"
    by (rule insert_shape [OF shape ins locked_conversation [OF conv shape]])
      (use locked_parent [OF locked parent [OF p]] p in simp)
  moreover have "counts_off (\<lambda>x. if x = cm_conversation_id m then 1 else 0) db1"
    using insert_counts [OF _ ins, of "\<lambda>_. 0"] wf unfolding well_formed_parts by simp
  ultimately show ?thesis using add_count_ok counted by blast
qed

lemma create_pair_ok:
  assumes wf: "well_formed_chat db"
    and created: "create_message_pair_with_user_attachments u a files db = (Inr (ur, ar), db')"
    and parent: "\<And>p. cm_parent_id u = Some p \<Longrightarrow> belongs_to db (cm_conversation_id u) p"
    and same: "cm_conversation_id a = cm_conversation_id u"
  shows "well_formed_chat db'"
proof -
  obtain db1 db2 where conv: "lock_conversation_for_message_write (cm_conversation_id u) db = (Inr (), db)"
    and locked: "\<And>p. cm_parent_id u = Some p \<Longrightarrow> lock_parent_message_for_append p db = (Inr (), db)"
    and ins: "insert_message u db = (Inr ur, db1)"
      "insert_message (a\<lparr>cm_parent_id := Some (cm_id ur)\<rparr>) db1 = (Inr ar, db2)"
    and counted: "add_message_count (cm_conversation_id u) 2 db2 = (Inr (), db')"
    using created by (auto simp: create_message_pair_with_user_attachments_def chat_transaction_Inr then_chat_Inr
        lock_conversation_Inr lock_parent_Inr split: option.splits if_splits)
  have shape: "chat_shape db" using wf unfolding well_formed_parts by simp
  have shape1: "chat_shape db1"
    by (rule insert_shape [OF shape ins(1) locked_conversation [OF conv shape]]) (rule locked_parent [OF locked parent])
  have "chat_shape db2"
    by (rule insert_shape [OF shape1 ins(2)])
      (use insert_live [OF ins(1)] same locked_conversation [OF conv shape] in auto)
  moreover have "counts_off (\<lambda>x. if x = cm_conversation_id u then 2 else 0) db2"
  proof -
    have "counts_off (\<lambda>x. if x = cm_conversation_id u then 1 else 0) db1"
      using insert_counts [OF _ ins(1), of "\<lambda>_. 0"] wf unfolding well_formed_parts by simp
    from insert_counts [OF this ins(2)]
    have "counts_off (\<lambda>x. (if x = cm_conversation_id u then 1 else 0) + (if x = cm_conversation_id u then 1 else 0)) db2"
      by (simp add: same)
    moreover have "(\<lambda>x. (if x = cm_conversation_id u then 1 else 0) + (if x = cm_conversation_id u then 1 else 0)) =
        (\<lambda>x. if x = cm_conversation_id u then 2 else (0 :: int))" by auto
    ultimately show ?thesis by (simp only:)
  qed
  ultimately show ?thesis using add_count_ok counted by blast
qed

section \<open>Deleting\<close>

definition reparented :: "nat \<Rightarrow> nat \<Rightarrow> message \<Rightarrow> message" where
  "reparented t p m = (if cm_parent_id m = Some t then m\<lparr>cm_parent_id := Some p\<rparr> else m)"

lemma reparented_simps [simp]:
  "cm_id (reparented t p m) = cm_id m" "cm_conversation_id (reparented t p m) = cm_conversation_id m"
  by (simp_all add: reparented_def)

lemma splice_live:
  "live_messages (db\<lparr>cd_messages := splice_out t p (cd_messages db)\<rparr>) =
     map (reparented t p) (filter (\<lambda>m. cm_id m \<noteq> t) (live_messages db))"
proof -
  have "filter (\<lambda>m. \<not> cm_deleted m) (map (\<lambda>m. if cm_id m = t then m\<lparr>cm_deleted := True\<rparr> else m)
      (map (\<lambda>m. if cm_parent_id m = Some t \<and> \<not> cm_deleted m then m\<lparr>cm_parent_id := Some p\<rparr> else m) rows)) =
    map (reparented t p) (filter (\<lambda>m. cm_id m \<noteq> t) (filter (\<lambda>m. \<not> cm_deleted m) rows))" for rows
    by (induction rows) (auto simp: reparented_def)
  then show ?thesis by (simp add: live_messages_def splice_out_def update_rows_def)
qed

lemma splice_next: "table_next (splice_out t p table) = table_next table"
  by (simp add: splice_out_def update_rows_def)

lemma splice_rows:
  "map cm_id (table_rows (splice_out t p table)) = map cm_id (table_rows table)"
  "map (\<lambda>m. (cm_id m, cm_conversation_id m)) (table_rows (splice_out t p table)) =
     map (\<lambda>m. (cm_id m, cm_conversation_id m)) (table_rows table)"
  by (simp_all add: splice_out_def update_rows_def)

lemma delete_parts:
  assumes "delete_message_and_reparent_children user c i db = (Inr moved, db')"
  obtains target p where "target \<in> set (live_messages db)" "cm_id target = i" "cm_conversation_id target = c"
    "cm_parent_id target = Some p"
    "db' = invalidate_snapshots_covering_messages c (collect_message_subtree_ids db c i)
       (snd (add_message_count c (- 1) (db\<lparr>cd_messages := splice_out i p (cd_messages db)\<rparr>)))"
    "add_message_count c (- 1) (db\<lparr>cd_messages := splice_out i p (cd_messages db)\<rparr>) =
       (Inr (), snd (add_message_count c (- 1) (db\<lparr>cd_messages := splice_out i p (cd_messages db)\<rparr>)))"
proof -
  obtain target p where found: "List.find (\<lambda>m. cm_id m = i \<and> cm_conversation_id m = c \<and> cm_user_id m = user)
      (live_messages db) = Some target" and p: "cm_parent_id target = Some p"
    and rest: "then_chat (add_message_count c (- 1) (db\<lparr>cd_messages := splice_out (cm_id target) p (cd_messages db)\<rparr>))
      (\<lambda>_ db1. (Inr moved, invalidate_snapshots_covering_messages c
         (collect_message_subtree_ids db c (cm_id target)) db1)) = (Inr moved, db')"
    using assms by (auto simp: delete_message_and_reparent_children_def chat_transaction_Inr Let_def
        then_chat_Inr split: option.splits if_splits)
  have t: "target \<in> set (live_messages db)" "cm_id target = i" "cm_conversation_id target = c"
    using find_in [OF found] by auto
  show thesis
    using rest t p by (intro that [of target p]) (auto simp: then_chat_Inr)
qed

lemma filter_out_one:
  assumes "distinct (map cm_id ms)" "t \<in> set ms"
  shows "length (filter P (filter (\<lambda>m. cm_id m \<noteq> cm_id t) ms)) + (if P t then 1 else 0) = length (filter P ms)"
proof -
  obtain xs ys where ms: "ms = xs @ t # ys" using split_list [OF assms(2)] by blast
  have "\<forall>m \<in> set xs \<union> set ys. cm_id m \<noteq> cm_id t" using assms(1) unfolding ms by (auto simp: image_iff)
  then have "filter (\<lambda>m. cm_id m \<noteq> cm_id t) xs = xs" "filter (\<lambda>m. cm_id m \<noteq> cm_id t) ys = ys"
    by (auto intro!: filter_True)
  then show ?thesis unfolding ms by simp
qed

text \<open>A message and its place in the tree after another one of its conversation was spliced out.\<close>

lemma splice_shape:
  assumes wf: "well_formed_chat db"
    and target: "target \<in> set (live_messages db)" "cm_id target = i" "cm_conversation_id target = c" "cm_parent_id target = Some p"
  shows "chat_shape (db\<lparr>cd_messages := splice_out i p (cd_messages db)\<rparr>)"
proof -
  let ?db = "db\<lparr>cd_messages := splice_out i p (cd_messages db)\<rparr>"
  have shape: "chat_shape db" using wf unfolding well_formed_parts by simp
  have keyed: "keyed cm_id (cd_messages db)" using shape by (simp add: chat_shape_def)
  have only: "r = target" if "r \<in> set (live_messages db)" "cm_id r = i" for r
    using that target(1,2) keyed by (auto simp: keyed_def live_in distinct_map inj_on_def)
  obtain q where q: "q \<in> set (live_messages db)" "cm_id q = p" "cm_conversation_id q = c" "p < i"
    using shape target by (fastforce simp: chat_shape_def has_parent_def)
  have stays: "\<exists>x \<in> set (live_messages ?db). cm_id x = cm_id y \<and> cm_conversation_id x = cm_conversation_id y"
    if "y \<in> set (live_messages db)" "cm_id y \<noteq> i" for y
    using that unfolding splice_live by (intro bexI [of _ "reparented i p y"]) auto
  have "has_parent ?db (reparented i p r)" if r: "r \<in> set (live_messages db)" for r
  proof (cases "cm_parent_id r")
    case None
    then show ?thesis by (simp add: has_parent_def reparented_def)
  next
    case (Some x)
    then obtain y where y: "y \<in> set (live_messages db)" "cm_id y = x" "cm_conversation_id y = cm_conversation_id r" "x < cm_id r"
      using shape r by (fastforce simp: chat_shape_def has_parent_def)
    show ?thesis
    proof (cases "x = i")
      case True
      then have "cm_conversation_id r = c" "i < cm_id r" using y only target(3) by auto
      then show ?thesis using stays [of q] q Some True by (auto simp: has_parent_def reparented_def)
    next
      case False
      then show ?thesis using stays [of y] y Some by (auto simp: has_parent_def reparented_def)
    qed
  qed
  then have "\<forall>r \<in> set (live_messages ?db). has_parent ?db r" unfolding splice_live by auto
  moreover have "keyed cm_id (splice_out i p (cd_messages db))"
    using keyed unfolding keyed_def splice_next splice_rows(1) .
  moreover have "\<forall>m \<in> set (table_rows (splice_out i p (cd_messages db))).
      0 < cm_id m \<and> cm_conversation_id m < table_next (cd_conversations db)"
  proof
    fix m assume "m \<in> set (table_rows (splice_out i p (cd_messages db)))"
    then have "(cm_id m, cm_conversation_id m) \<in> (\<lambda>m. (cm_id m, cm_conversation_id m)) ` set (table_rows (cd_messages db))"
      using arg_cong [OF splice_rows(2) [of i p "cd_messages db"], of set] by auto
    then show "0 < cm_id m \<and> cm_conversation_id m < table_next (cd_conversations db)"
      using shape by (auto simp: chat_shape_def)
  qed
  ultimately show ?thesis using shape by (simp add: chat_shape_def splice_next)
qed

lemma splice_counts:
  assumes wf: "well_formed_chat db" and target: "target \<in> set (live_messages db)" "cm_id target = i" "cm_conversation_id target = c"
  shows "counts_off (\<lambda>x. if x = c then - 1 else 0) (db\<lparr>cd_messages := splice_out i p (cd_messages db)\<rparr>)"
proof -
  let ?db = "db\<lparr>cd_messages := splice_out i p (cd_messages db)\<rparr>"
  have "distinct (map cm_id (live_messages db))"
    using wf by (auto simp: well_formed_chat_def keyed_def live_messages_def distinct_map inj_on_def)
  then have "messages_in ?db x + (if c = x then 1 else 0) = messages_in db x" for x
    using filter_out_one [OF _ target(1), of "\<lambda>m. cm_conversation_id m = x"] target(2,3)
    unfolding messages_in_def splice_live by (simp add: filter_map comp_def)
  then have eq: "int (messages_in db x) - (if x = c then 1 else 0) = int (messages_in ?db x)" for x
    by (smt (verit) of_nat_1 of_nat_add of_nat_0)
  show ?thesis
    unfolding counts_off_def
  proof
    fix x assume "x \<in> set (table_rows (cd_conversations ?db))"
    then have "cv_message_count x = int (messages_in db (cv_id x))" using wf by (simp add: well_formed_chat_def)
    then show "cv_message_count x + (if cv_id x = c then - 1 else 0) = int (messages_in ?db (cv_id x))"
      using eq [of "cv_id x"] by (auto split: if_splits)
  qed
qed

lemma invalidate_keeps [simp]:
  "live_messages (invalidate_snapshots_covering_messages c ids db) = live_messages db"
  "cd_messages (invalidate_snapshots_covering_messages c ids db) = cd_messages db"
  "cd_conversations (invalidate_snapshots_covering_messages c ids db) = cd_conversations db"
  by (simp_all add: invalidate_snapshots_covering_messages_def live_messages_def)

lemma well_formed_agree:
  assumes "cd_messages db' = cd_messages db" "cd_conversations db' = cd_conversations db"
  shows "well_formed_chat db' \<longleftrightarrow> well_formed_chat db"
proof -
  have "live_messages db' = live_messages db" using assms(1) by (simp add: live_messages_def)
  moreover from this have "has_parent db' = has_parent db"
    by (intro ext) (simp add: has_parent_def split: option.split)
  ultimately show ?thesis using assms by (simp add: well_formed_chat_def messages_in_def)
qed

lemma delete_ok:
  assumes "well_formed_chat db" "delete_message_and_reparent_children user c i db = (Inr moved, db')"
  shows "well_formed_chat db'"
  using assms(2)
proof (rule delete_parts)
  fix target p
  let ?spliced = "db\<lparr>cd_messages := splice_out i p (cd_messages db)\<rparr>"
  assume target: "target \<in> set (live_messages db)" "cm_id target = i" "cm_conversation_id target = c"
      "cm_parent_id target = Some p"
    and db': "db' = invalidate_snapshots_covering_messages c (collect_message_subtree_ids db c i)
      (snd (add_message_count c (- 1) ?spliced))"
    and counted: "add_message_count c (- 1) ?spliced = (Inr (), snd (add_message_count c (- 1) ?spliced))"
  have "well_formed_chat (snd (add_message_count c (- 1) ?spliced))"
    using add_count_ok [OF splice_shape [OF assms(1) target] splice_counts [OF assms(1) target(1-3)] counted] .
  then show ?thesis unfolding db' by (subst well_formed_agree) simp_all
qed

lemma delete_lookup:
  assumes wf: "well_formed_chat db" and deleted: "delete_message_and_reparent_children user c i db = (Inr moved, db')"
  obtains target p where "get_message_by_id db c i = Some target" "cm_parent_id target = Some p"
    "\<And>j. get_message_by_id db' c j = (if j = i then None else map_option (reparented i p) (get_message_by_id db c j))"
    "cd_snapshots db' = (cd_snapshots db)\<lparr>table_rows := filter (\<lambda>s. \<not> (cs_conversation_id s = c \<and>
       cs_covered_until_id s \<in> set (collect_message_subtree_ids db c i))) (table_rows (cd_snapshots db))\<rparr>"
  using deleted
proof (rule delete_parts)
  fix target p
  let ?spliced = "db\<lparr>cd_messages := splice_out i p (cd_messages db)\<rparr>"
  assume target: "target \<in> set (live_messages db)" "cm_id target = i" "cm_conversation_id target = c"
      "cm_parent_id target = Some p"
    and db': "db' = invalidate_snapshots_covering_messages c (collect_message_subtree_ids db c i)
      (snd (add_message_count c (- 1) ?spliced))"
    and counted: "add_message_count c (- 1) ?spliced = (Inr (), snd (add_message_count c (- 1) ?spliced))"
  have keyed: "keyed cm_id (cd_messages db)" using wf by (simp add: well_formed_chat_def)
  have parts: "live_messages (snd (add_message_count c (- 1) ?spliced)) = live_messages ?spliced"
      "cd_snapshots (snd (add_message_count c (- 1) ?spliced)) = cd_snapshots db"
    using counted by (auto simp: add_message_count_Inr live_messages_def)
  have live: "live_messages db' = map (reparented i p) (filter (\<lambda>m. cm_id m \<noteq> i) (live_messages db))"
    unfolding db' by (simp add: parts(1) splice_live)
  have found: "List.find (\<lambda>m. cm_id m = j \<and> cm_conversation_id m = c) (map (reparented i p) (filter (\<lambda>m. cm_id m \<noteq> i) ms)) =
      (if j = i then None else map_option (reparented i p) (List.find (\<lambda>m. cm_id m = j \<and> cm_conversation_id m = c) ms))"
    for j ms by (induction ms) auto
  have lookup: "get_message_by_id db' c j = (if j = i then None else map_option (reparented i p) (get_message_by_id db c j))" for j
    unfolding get_message_by_id_def live by (rule found)
  have "get_message_by_id db c i = Some target" using target(1-3) get_message_Some [OF keyed] by auto
  moreover have "cd_snapshots db' = (cd_snapshots db)\<lparr>table_rows := filter (\<lambda>s. \<not> (cs_conversation_id s = c \<and>
       cs_covered_until_id s \<in> set (collect_message_subtree_ids db c i))) (table_rows (cd_snapshots db))\<rparr>"
    unfolding db' by (simp add: invalidate_snapshots_covering_messages_def parts(2))
  ultimately show thesis using that target(4) lookup by blast
qed

text \<open>The branch of every other message loses the deleted one, and keeps its order.\<close>

lemma delete_path:
  assumes wf: "well_formed_chat db" and deleted: "delete_message_and_reparent_children user c i db = (Inr moved, db')"
    and there: "get_message_by_id db c j = Some m" "j \<noteq> i"
  shows "map cm_id (whole_path db' c j) = filter (\<lambda>k. k \<noteq> i) (map cm_id (whole_path db c j))"
proof (rule delete_lookup [OF wf deleted])
  fix target p
  assume t: "get_message_by_id db c i = Some target" "cm_parent_id target = Some p"
    and new: "\<And>j. get_message_by_id db' c j = (if j = i then None else map_option (reparented i p) (get_message_by_id db c j))"
  have wf': "well_formed_chat db'" by (rule delete_ok [OF wf deleted])
  have pi: "p < i" using wf_parent [OF wf t] by simp
  have ids: "cm_id m = j" if "get_message_by_id db c j = Some m" for m j
    using that wf get_message_Some by (auto simp: well_formed_chat_def)
  show ?thesis
    using there
  proof (induction j arbitrary: m rule: less_induct)
    case (less j)
    have m': "get_message_by_id db' c j = Some (reparented i p m)" using new less.prems by simp
    show ?case
    proof (cases "cm_parent_id m")
      case None
      then show ?thesis
        using whole_path_step [OF wf less.prems(1)] whole_path_step [OF wf' m'] ids [OF less.prems(1)] less.prems(2)
        by (simp add: reparented_def)
    next
      case (Some x)
      obtain y where y: "get_message_by_id db c x = Some y" and x: "x < j" using wf_parent [OF wf less.prems(1) Some] by blast
      show ?thesis
      proof (cases "x = i")
        case True
        obtain z where "get_message_by_id db c p = Some z" using wf_parent [OF wf t] by blast
        then have "map cm_id (whole_path db' c p) = filter (\<lambda>k. k \<noteq> i) (map cm_id (whole_path db c p))"
          using less.IH [of p] pi x True by simp
        then show ?thesis
          using whole_path_step [OF wf less.prems(1)] whole_path_step [OF wf' m'] whole_path_step [OF wf t(1)]
            ids [OF less.prems(1)] ids [OF t(1)] less.prems(2) Some True t(2)
          by (simp add: reparented_def)
      next
        case False
        then show ?thesis
          using less.IH [OF x y] whole_path_step [OF wf less.prems(1)] whole_path_step [OF wf' m']
            ids [OF less.prems(1)] less.prems(2) Some
          by (simp add: reparented_def)
      qed
    qed
  qed
qed

text \<open>A path through a message begins with the path to that message.\<close>

lemma whole_path_ids:
  assumes "well_formed_chat db" "m \<in> set (whole_path db c j)"
  shows "get_message_by_id db c (cm_id m) = Some m"
  using assms(2)
proof (induction j rule: less_induct)
  case (less j)
  show ?case
  proof (cases "get_message_by_id db c j")
    case None
    then show ?thesis using less.prems by (simp add: whole_path_None)
  next
    case (Some x)
    then have id: "cm_id x = j" using assms(1) get_message_Some by (auto simp: well_formed_chat_def)
    show ?thesis
    proof (cases "m = x")
      case True
      then show ?thesis using Some id by simp
    next
      case False
      then obtain p where p: "cm_parent_id x = Some p" "m \<in> set (whole_path db c p)"
        using less.prems whole_path_step [OF assms(1) Some] by (auto split: option.splits)
      then show ?thesis using less.IH [of p] wf_parent(1) [OF assms(1) Some p(1)] by blast
    qed
  qed
qed

lemma path_ids_le:
  assumes "well_formed_chat db" "m \<in> set (whole_path db c j)"
  shows "cm_id m \<le> j"
  using assms(2)
proof (induction j rule: less_induct)
  case (less j)
  obtain x where x: "get_message_by_id db c j = Some x"
    using less.prems by (cases "get_message_by_id db c j") (auto simp: whole_path_None)
  then have id: "cm_id x = j" using assms(1) get_message_Some by (auto simp: well_formed_chat_def)
  show ?case
  proof (cases "m = x")
    case False
    then obtain p where p: "cm_parent_id x = Some p" "m \<in> set (whole_path db c p)"
      using less.prems whole_path_step [OF assms(1) x] by (auto split: option.splits)
    then show ?thesis using less.IH [of p] wf_parent(1) [OF assms(1) x p(1)] by simp
  qed (simp add: id)
qed

lemma path_prefix:
  assumes "well_formed_chat db" "m \<in> set (whole_path db c j)"
  shows "prefix (whole_path db c (cm_id m)) (whole_path db c j)"
  using assms(2)
proof (induction j rule: less_induct)
  case (less j)
  show ?case
  proof (cases "get_message_by_id db c j")
    case None
    then show ?thesis using less.prems by (simp add: whole_path_None)
  next
    case (Some x)
    then have id: "cm_id x = j" using assms(1) get_message_Some by (auto simp: well_formed_chat_def)
    show ?thesis
    proof (cases "m = x")
      case False
      then obtain p where p: "cm_parent_id x = Some p" "m \<in> set (whole_path db c p)"
        using less.prems whole_path_step [OF assms(1) Some] by (auto split: option.splits)
      then have "prefix (whole_path db c (cm_id m)) (whole_path db c p)"
        using less.IH [of p] wf_parent(1) [OF assms(1) Some p(1)] by blast
      then show ?thesis using p(1) by (simp add: whole_path_step [OF assms(1) Some])
    qed (simp add: id)
  qed
qed

lemma path_next:
  assumes "well_formed_chat db" "m \<in> set (whole_path db c j)" "cm_id m \<noteq> j"
  obtains k x where "get_message_by_id db c k = Some x" "cm_parent_id x = Some (cm_id m)" "x \<in> set (whole_path db c j)"
  using assms(2,3)
proof (induction j arbitrary: thesis rule: less_induct)
  case (less j)
  obtain x where x: "get_message_by_id db c j = Some x"
    using less.prems(2) by (cases "get_message_by_id db c j") (auto simp: whole_path_None)
  then have id: "cm_id x = j" using assms(1) get_message_Some by (auto simp: well_formed_chat_def)
  have step: "whole_path db c j = (case cm_parent_id x of None \<Rightarrow> [] | Some p \<Rightarrow> whole_path db c p) @ [x]"
    by (rule whole_path_step [OF assms(1) x])
  then obtain p where p: "cm_parent_id x = Some p" "m \<in> set (whole_path db c p)"
    using less.prems(2,3) id by (auto split: option.splits)
  show ?case
  proof (cases "cm_id m = p")
    case True
    then show ?thesis using less.prems(1) x p step by auto
  next
    case False
    then show ?thesis
      using less.IH [of p] wf_parent(1) [OF assms(1) x p(1)] p less.prems(1) step by (metis Un_iff option.simps(5) set_append)
  qed
qed

lemma children_of_iff:
  assumes "keyed cm_id (cd_messages db)"
  shows "a \<in> set (children_of db c ids) \<longleftrightarrow>
    (\<exists>m p. get_message_by_id db c a = Some m \<and> cm_parent_id m = Some p \<and> p \<in> set ids)"
  unfolding children_of_def get_message_Some [OF assms] by (auto split: option.splits)

lemma subtree_sound:
  assumes wf: "well_formed_chat db" and "\<forall>a \<in> set ids. get_message_by_id db c a \<noteq> None" "j \<in> set (subtree_rounds db c ids n)"
  shows "get_message_by_id db c j \<noteq> None \<and> (\<exists>m \<in> set (whole_path db c j). cm_id m \<in> set ids)"
  using assms(2,3)
proof (induction n arbitrary: ids)
  case 0
  then show ?case by simp
next
  case (Suc n)
  have keyed: "keyed cm_id (cd_messages db)" using wf by (simp add: well_formed_chat_def)
  have own: "\<exists>m \<in> set (whole_path db c a). cm_id m = a" if "get_message_by_id db c a = Some x" for a x
    using whole_path_linked [OF wf that] get_message_Some [OF keyed, of c a x] that by (metis last_in_set)
  show ?case
  proof (cases "j \<in> set ids")
    case True
    then show ?thesis using Suc.prems(1) own by fastforce
  next
    case False
    then have "j \<in> set (subtree_rounds db c (children_of db c ids) n)" using Suc.prems(2) by (simp split: if_splits)
    then have j: "get_message_by_id db c j \<noteq> None"
      "\<exists>m \<in> set (whole_path db c j). cm_id m \<in> set (children_of db c ids)"
      using Suc.IH [of "children_of db c ids"] children_of_iff [OF keyed] by fastforce+
    then obtain m p where m: "m \<in> set (whole_path db c j)" "get_message_by_id db c (cm_id m) = Some m"
        "cm_parent_id m = Some p" "p \<in> set ids"
      using children_of_iff [OF keyed] whole_path_ids [OF wf] by fastforce
    obtain q where q: "get_message_by_id db c p = Some q" using wf_parent [OF wf m(2,3)] by blast
    have "set (whole_path db c p) \<subseteq> set (whole_path db c j)"
      using path_prefix [OF wf m(1)] m(3) whole_path_step [OF wf m(2)] set_mono_prefix by fastforce
    then show ?thesis using own [OF q] m(4) j(1) by blast
  qed
qed

lemma subtree_complete:
  assumes wf: "well_formed_chat db" and "m \<in> set (whole_path db c j)" "cm_id m \<in> set ids" "j < cm_id m + n"
  shows "j \<in> set (subtree_rounds db c ids n)"
  using assms(2-4)
proof (induction n arbitrary: ids m)
  case 0
  then show ?case using path_ids_le [OF wf 0(1)] by simp
next
  case (Suc n)
  have keyed: "keyed cm_id (cd_messages db)" using wf by (simp add: well_formed_chat_def)
  show ?case
  proof (cases "cm_id m = j")
    case True
    then show ?thesis using Suc.prems(2) by auto
  next
    case False
    obtain k x where x: "get_message_by_id db c k = Some x" "cm_parent_id x = Some (cm_id m)" "x \<in> set (whole_path db c j)"
      using path_next [OF wf Suc.prems(1) False] .
    have k: "cm_id x = k" "cm_id m < k" using x get_message_Some [OF keyed] wf_parent(1) [OF wf x(1,2)] by auto
    have "k \<in> set (children_of db c ids)" using children_of_iff [OF keyed] x(1,2) Suc.prems(2) by blast
    then have "j \<in> set (subtree_rounds db c (children_of db c ids) n)"
      using Suc.IH [OF x(3)] Suc.prems(3) k by simp
    then show ?thesis using Suc.prems(2) by auto
  qed
qed

lemma subtree_iff:
  assumes wf: "well_formed_chat db" and i: "get_message_by_id db c i \<noteq> None"
  shows "j \<in> set (collect_message_subtree_ids db c i) \<longleftrightarrow> (\<exists>m \<in> set (whole_path db c j). cm_id m = i)"
proof -
  have keyed: "keyed cm_id (cd_messages db)" using wf by (simp add: well_formed_chat_def)
  obtain x where x: "get_message_by_id db c i = Some x" using i by blast
  then have "cm_id x = i" by (simp add: get_message_Some [OF keyed])
  then have collected: "collect_message_subtree_ids db c i = subtree_rounds db c [i] (table_next (cd_messages db))"
    using x by (simp add: collect_message_subtree_ids_def)
  show ?thesis
  proof
    assume "j \<in> set (collect_message_subtree_ids db c i)"
    then show "\<exists>m \<in> set (whole_path db c j). cm_id m = i"
      using subtree_sound [OF wf, of "[i]" c j] i unfolding collected by auto
  next
    assume "\<exists>m \<in> set (whole_path db c j). cm_id m = i"
    then obtain m where m: "m \<in> set (whole_path db c j)" "cm_id m = i" by blast
    then obtain x where "get_message_by_id db c j = Some x"
      by (cases "get_message_by_id db c j") (auto simp: whole_path_None)
    then have "j < table_next (cd_messages db)"
      using get_message_Some [OF keyed, of c j x] keyed by (auto simp: keyed_def live_in)
    then show "j \<in> set (collect_message_subtree_ids db c i)"
      using subtree_complete [OF wf m(1), of "[i]"] m(2) unfolding collected by simp
  qed
qed

text \<open>
  C12. Deleting a message takes it out of every branch it lies on and leaves the other messages of the branch in
  their order, and it drops exactly the snapshots of the conversation whose summary reaches past the message: those with the
  message on the path to their boundary.
\<close>

theorem deletion_splices_branches:
  assumes "well_formed_chat db" "delete_message_and_reparent_children user c i db = (Inr moved, db')"
  shows "get_message_by_id db' c i = None \<and>
    (\<forall>j. j \<noteq> i \<and> get_message_by_id db c j \<noteq> None \<longrightarrow>
       map cm_id (whole_path db' c j) = filter (\<lambda>k. k \<noteq> i) (map cm_id (whole_path db c j))) \<and>
    table_rows (cd_snapshots db') = filter (\<lambda>s. \<not> (cs_conversation_id s = c \<and>
      (\<exists>m \<in> set (whole_path db c (cs_covered_until_id s)). cm_id m = i))) (table_rows (cd_snapshots db))"
proof (rule delete_lookup [OF assms])
  fix target p
  assume t: "get_message_by_id db c i = Some target"
    and new: "\<And>j. get_message_by_id db' c j = (if j = i then None else map_option (reparented i p) (get_message_by_id db c j))"
    and snaps: "cd_snapshots db' = (cd_snapshots db)\<lparr>table_rows := filter (\<lambda>s. \<not> (cs_conversation_id s = c \<and>
       cs_covered_until_id s \<in> set (collect_message_subtree_ids db c i))) (table_rows (cd_snapshots db))\<rparr>"
  have "get_message_by_id db c i \<noteq> None" using t by simp
  note subtree = subtree_iff [OF assms(1) this]
  show ?thesis using new delete_path [OF assms] unfolding snaps subtree by auto
qed

end
