(* ===== verification/Model_Caps.thy ===== *)
theory Model_Caps
  imports Prelude
begin

text \<open>
  The context window of a model and the budget that follows from it (domain/channel/model_caps.go). What
  encoding/json makes of the capabilities of a model is the argument \<open>parse\<close>: the values of an object by their
  keys, with numbers as their text.
\<close>

section \<open>Names of models\<close>

text \<open>The letters and the numbers of a name in turn; a separator ends a number, but joins words.\<close>

fun scan_signature :: "string \<Rightarrow> string list \<Rightarrow> string \<Rightarrow> string \<Rightarrow> string list" where
  "scan_signature [] result letters digits =
     result @ (if letters = [] then [] else [letters]) @ (if digits = [] then [] else [digits])"
| "scan_signature (c # s) result letters digits =
     (let flushed_digits = result @ (if digits = [] then [] else [digits]);
          flushed_letters = result @ (if letters = [] then [] else [letters])
      in if byte_in 97 122 c then scan_signature s flushed_digits (letters @ [c]) []
         else if byte_in 48 57 c then scan_signature s flushed_letters [] (digits @ [c])
         else scan_signature s flushed_digits letters [])"

definition model_identifier_signature :: "string \<Rightarrow> string list" where
  "model_identifier_signature value = scan_signature (to_lower (trim_space value)) [] [] []"

text \<open>\<open>strings.FieldsFunc\<close> at slashes and colons.\<close>

fun name_segments :: "string \<Rightarrow> string \<Rightarrow> string list" where
  "name_segments [] word = (if word = [] then [] else [word])"
| "name_segments (c # s) word =
     (if c = CHR ''/'' \<or> c = CHR '':'' then (if word = [] then [] else [word]) @ name_segments s []
      else name_segments s (word @ [c]))"

definition contains_model_pattern :: "string \<Rightarrow> string \<Rightarrow> bool" where
  "contains_model_pattern code pattern \<longleftrightarrow>
     code \<noteq> [] \<and> pattern \<noteq> [] \<and> model_identifier_signature pattern \<noteq> [] \<and>
     list_ex (\<lambda>segment. prefix (model_identifier_signature pattern) (model_identifier_signature segment))
       (name_segments (to_lower code) [])"

section \<open>Capabilities\<close>

record model_caps =
  caps_context_window :: int
  caps_max_output_tokens :: int

definition model_caps_catalog :: "(string list \<times> int \<times> int) list" where
  "model_caps_catalog =
     [([''claude-sonnet-3.7'', ''claude-3.7''], 200000, 16000),
      ([''claude-sonnet-3.5'', ''claude-haiku-3.5'', ''claude-3.5''], 200000, 8192),
      ([''gpt-4.1''], 1047576, 32768), ([''gpt-4.5''], 128000, 16384), ([''gpt-4o''], 128000, 16384),
      ([''o1'', ''o3'', ''o4''], 200000, 100000), ([''gpt-3.5''], 16385, 4096),
      ([''gemini-2.0'', ''gemini-2.5''], 1000000, 8192), ([''gemini-1.5''], 1000000, 8192),
      ([''grok-3''], 131072, 16384)]"

definition min_context_window_override :: int where
  "min_context_window_override = 4096"

definition max_context_window_override :: int where
  "max_context_window_override = 16000000"

definition normalize_fallback_context_window :: "int \<Rightarrow> int" where
  "normalize_fallback_context_window value =
     (if value < min_context_window_override \<or> max_context_window_override < value then 128000 else value)"

definition resolve_model_caps_with_fallback :: "string \<Rightarrow> int \<Rightarrow> model_caps" where
  "resolve_model_caps_with_fallback model_name fallback =
     (let code = to_lower (trim_space model_name)
      in case List.find (\<lambda>(patterns, _). list_ex (contains_model_pattern code) patterns) model_caps_catalog of
           Some (_, window, output) \<Rightarrow> \<lparr>caps_context_window = window, caps_max_output_tokens = output\<rparr>
         | None \<Rightarrow> \<lparr>caps_context_window = normalize_fallback_context_window fallback, caps_max_output_tokens = 8192\<rparr>)"

datatype json_value = JsonNumber string | JsonText string | JsonOther

type_synonym capabilities = "string \<Rightarrow> json_value option"

definition positive_int :: "json_value option \<Rightarrow> int option" where
  "positive_int value =
     (case (case value of Some (JsonNumber text) \<Rightarrow> atoi text | Some (JsonText text) \<Rightarrow> atoi (trim_space text) | _ \<Rightarrow> None) of
        Some n \<Rightarrow> if 0 < n then Some n else None | None \<Rightarrow> None)"

definition parse_capabilities :: "(string \<Rightarrow> capabilities option) \<Rightarrow> string \<Rightarrow> capabilities option" where
  "parse_capabilities parse raw = (if trim_space raw = [] then None else parse (trim_space raw))"

fun first_positive_int :: "capabilities \<Rightarrow> string list \<Rightarrow> int option" where
  "first_positive_int payload [] = None"
| "first_positive_int payload (key # keys) =
     (case positive_int (payload key) of Some n \<Rightarrow> Some n | None \<Rightarrow> first_positive_int payload keys)"

definition context_window_capability_keys :: "string list" where
  "context_window_capability_keys =
     [''contextWindow'', ''context_window'', ''contextWindowTokens'', ''context_window_tokens'']"

definition resolve_model_caps_from_capabilities ::
  "(string \<Rightarrow> capabilities option) \<Rightarrow> string \<Rightarrow> string \<Rightarrow> int \<Rightarrow> model_caps" where
  "resolve_model_caps_from_capabilities parse model_name capabilities_json fallback =
     (let resolved = resolve_model_caps_with_fallback model_name fallback
      in case parse_capabilities parse capabilities_json of
           None \<Rightarrow> resolved
         | Some payload \<Rightarrow>
             let window = first_positive_int payload context_window_capability_keys;
                 output = first_positive_int payload [''maxOutputTokens'', ''max_output_tokens'']
             in \<lparr>caps_context_window = (case window of None \<Rightarrow> caps_context_window resolved | Some n \<Rightarrow> n),
                 caps_max_output_tokens = (case output of None \<Rightarrow> caps_max_output_tokens resolved | Some n \<Rightarrow> n)\<rparr>)"

section \<open>Budgets\<close>

definition effective_context_budget :: "model_caps \<Rightarrow> int" where
  "effective_context_budget caps =
     (let reserve = (if 20000 < caps_max_output_tokens caps then 20000 else caps_max_output_tokens caps);
          budget = caps_context_window caps - reserve - 13000
      in if budget < 4000 then 4000 else budget)"

definition compaction_threshold :: "model_caps \<Rightarrow> int \<Rightarrow> int" where
  "compaction_threshold caps trigger_percent =
     (if trigger_percent \<le> 0 then 0
      else
        let percent = (if 100 < trigger_percent then 100 else trigger_percent);
            threshold = go_div (wrap64 (effective_context_budget caps * percent)) 100
        in if threshold < 4000 then 4000 else threshold)"

text \<open>The token trigger fires at or below the hard budget, for every window that a catalogue entry may declare.\<close>

lemma compaction_threshold_bounds:
  assumes "0 < percent" "0 < caps_max_output_tokens caps" "caps_context_window caps \<le> max_context_window_override"
  shows "4000 \<le> compaction_threshold caps percent" "compaction_threshold caps percent \<le> effective_context_budget caps"
proof -
  let ?b = "effective_context_budget caps"
  define p where "p = (if 100 < percent then 100 else percent)"
  have b: "4000 \<le> ?b" "?b \<le> 16000000"
    using assms(2,3) by (auto simp: effective_context_budget_def Let_def max_context_window_override_def)
  have p: "0 < p" "p \<le> 100" using assms(1) by (auto simp: p_def)
  have le: "?b * p \<le> ?b * 100" "0 \<le> ?b * p" using b p by (simp_all add: mult_left_mono)
  have "?b * p \<le> 1600000000" using le(1) b(2) by linarith
  then have "in_int64 (?b * p)" using le(2) by (simp add: in_int64_def min_int64_def max_int64_def)
  then have "go_div (wrap64 (?b * p)) 100 = ?b * p div 100" using le(2) by (simp add: go_div_def)
  moreover have "?b * p div 100 \<le> ?b * 100 div 100" using le(1) by (rule zdiv_mono1) simp
  ultimately show "4000 \<le> compaction_threshold caps percent" "compaction_threshold caps percent \<le> ?b"
    using b assms(1) by (simp_all add: compaction_threshold_def Let_def flip: p_def)
qed

end
