(* ===== verification/Chat_History.thy ===== *)
theory Chat_History
  imports Message_Tree Compaction
begin

text \<open>
  Conversations over any list of calls. The branch of a message is resolved in one call and used in a later one, so
  that deletions, edits and other messages may come between; a rolling summary is made from messages that were read before.
\<close>

section \<open>Calls\<close>

record chat_state =
  st_db :: chat_db
  st_branches :: "(nat \<times> branch_state) list"
  st_circuit :: compact_circuit

definition empty_chat :: chat_state where
  "empty_chat = \<lparr>st_db = empty_chat_db, st_branches = [],
     st_circuit = \<lparr>consecutive_llm_failures = 0, last_llm_failure_at = 0\<rparr>\<rparr>"

text \<open>\<open>SendOn n\<close> creates the messages for the n-th branch that was resolved.\<close>

datatype chat_call =
    NewConversation nat string
  | ResolveBranch nat nat string string string
  | SendOn nat send_input string
  | SetMessageState nat string string string
  | EditMessage nat string string
  | DeleteMessage nat string string
  | CompactBranch compact_input compact_clocks

fun chat_step :: "compact_env \<Rightarrow> compact_config \<Rightarrow> chat_call \<Rightarrow> chat_state \<Rightarrow> chat_state" where
  "chat_step env cfg (NewConversation user_id public_id) st =
     st\<lparr>st_db := snd (create_conversation user_id public_id (st_db st))\<rparr>"
| "chat_step env cfg (ResolveBranch conversation_id user_id parent source branch_reason) st =
     (case resolve_message_branch (st_db st) conversation_id user_id parent source (normalize_branch_reason branch_reason) of
        Inl e \<Rightarrow> st | Inr branch \<Rightarrow> st\<lparr>st_branches := st_branches st @ [(conversation_id, branch)]\<rparr>)"
| "chat_step env cfg (SendOn n inp branch_reason) st =
     (if n < length (st_branches st)
      then let (conversation_id, branch) = st_branches st ! n
           in st\<lparr>st_db := snd (create_message_pair (inp\<lparr>sd_conversation_id := conversation_id\<rparr>) branch
             (normalize_branch_reason branch_reason) (st_db st))\<rparr>
      else st)"
| "chat_step env cfg (SetMessageState i status error_code error_message) st =
     st\<lparr>st_db := update_message_state i status error_code error_message (st_db st)\<rparr>"
| "chat_step env cfg (EditMessage user_id public_id content) st =
     st\<lparr>st_db := snd (update_message_content user_id public_id content (st_db st))\<rparr>"
| "chat_step env cfg (DeleteMessage user_id conversation_public_id message_public_id) st =
     st\<lparr>st_db := snd (delete_message user_id conversation_public_id message_public_id (st_db st))\<rparr>"
| "chat_step env cfg (CompactBranch inp clocks) st =
     (let (_, circuit, db) = maybe_compact_conversation env cfg inp clocks (st_circuit st) (st_db st)
      in st\<lparr>st_db := db, st_circuit := circuit\<rparr>)"

definition chat_run :: "compact_env \<Rightarrow> compact_config \<Rightarrow> chat_call list \<Rightarrow> chat_state \<Rightarrow> chat_state" where
  "chat_run env cfg = fold (chat_step env cfg)"

section \<open>Rows keep their conversation\<close>

definition chat_grows :: "chat_db \<Rightarrow> chat_db \<Rightarrow> bool" where
  "chat_grows db db' \<longleftrightarrow> table_next (cd_messages db) \<le> table_next (cd_messages db') \<and>
     (\<forall>m \<in> set (table_rows (cd_messages db')). table_next (cd_messages db) \<le> cm_id m \<or>
        (\<exists>r \<in> set (table_rows (cd_messages db)). cm_id r = cm_id m \<and> cm_conversation_id r = cm_conversation_id m))"

lemma chat_grows_refl [simp]: "chat_grows db db"
  by (auto simp: chat_grows_def)

lemma chat_grows_trans:
  assumes ab: "chat_grows a b" and bc: "chat_grows b c"
  shows "chat_grows a c"
  unfolding chat_grows_def
proof (intro conjI ballI)
  show "table_next (cd_messages a) \<le> table_next (cd_messages c)" using assms unfolding chat_grows_def by linarith
  fix m assume "m \<in> set (table_rows (cd_messages c))"
  then consider (new) "table_next (cd_messages b) \<le> cm_id m"
    | (old) r where "r \<in> set (table_rows (cd_messages b))" "cm_id r = cm_id m" "cm_conversation_id r = cm_conversation_id m"
    using bc unfolding chat_grows_def by blast
  then show "table_next (cd_messages a) \<le> cm_id m \<or> (\<exists>r \<in> set (table_rows (cd_messages a)).
      cm_id r = cm_id m \<and> cm_conversation_id r = cm_conversation_id m)"
  proof cases
    case new
    then show ?thesis using ab unfolding chat_grows_def by linarith
  next
    case old
    then show ?thesis using ab unfolding chat_grows_def by metis
  qed
qed

lemma belongs_grows: "belongs_to db c i \<Longrightarrow> chat_grows db db' \<Longrightarrow> belongs_to db' c i"
  unfolding belongs_to_def chat_grows_def by fastforce

lemma chat_grows_update:
  assumes "\<And>m. cm_id (f m) = cm_id m" "\<And>m. cm_conversation_id (f m) = cm_conversation_id m"
  shows "chat_grows db (db\<lparr>cd_messages := update_rows P f (cd_messages db)\<rparr>)"
  using assms by (auto simp: chat_grows_def update_rows_def)

lemma chat_grows_insert: "insert_message m db = (res, db') \<Longrightarrow> chat_grows db db'"
  by (auto simp: insert_message_def create_row_def Let_def chat_grows_def split: option.splits)

lemma chat_grows_count: "add_message_count c d db = (res, db') \<Longrightarrow> chat_grows db db'"
  by (auto simp: add_message_count_def chat_grows_def split: option.splits)

lemma create_assistant_grows:
  assumes "create_assistant_branch_message m db = (Inr row, db')"
  shows "chat_grows db db'"
proof -
  obtain db1 where "insert_message m db = (Inr row, db1)" "add_message_count (cm_conversation_id m) 1 db1 = (Inr (), db')"
    using assms by (auto simp: create_assistant_branch_message_def chat_transaction_Inr then_chat_Inr
        lock_conversation_Inr lock_parent_Inr split: option.splits)
  then show ?thesis using chat_grows_insert chat_grows_count chat_grows_trans by metis
qed

lemma create_pair_grows:
  assumes "create_message_pair_with_user_attachments u a files db = (Inr rows, db')"
  shows "chat_grows db db'"
proof -
  obtain ur ar db1 db2 where "insert_message u db = (Inr ur, db1)"
      "insert_message (a\<lparr>cm_parent_id := Some (cm_id ur)\<rparr>) db1 = (Inr ar, db2)"
      "add_message_count (cm_conversation_id u) 2 db2 = (Inr (), db')"
    using assms by (auto simp: create_message_pair_with_user_attachments_def chat_transaction_Inr then_chat_Inr
        lock_conversation_Inr lock_parent_Inr split: option.splits if_splits)
  then show ?thesis using chat_grows_insert chat_grows_count chat_grows_trans by metis
qed

lemma splice_grows: "chat_grows db (db\<lparr>cd_messages := splice_out i p (cd_messages db)\<rparr>)"
proof -
  let ?db = "db\<lparr>cd_messages := update_rows (\<lambda>m. cm_parent_id m = Some i \<and> \<not> cm_deleted m)
    (\<lambda>m. m\<lparr>cm_parent_id := Some p\<rparr>) (cd_messages db)\<rparr>"
  have "chat_grows ?db (?db\<lparr>cd_messages := update_rows (\<lambda>m. cm_id m = i) (\<lambda>m. m\<lparr>cm_deleted := True\<rparr>) (cd_messages ?db)\<rparr>)"
    by (rule chat_grows_update) simp_all
  moreover have "chat_grows db ?db" by (rule chat_grows_update) simp_all
  ultimately show ?thesis using chat_grows_trans by (fastforce simp: splice_out_def)
qed

lemma delete_grows:
  assumes "delete_message_and_reparent_children user c i db = (Inr moved, db')"
  shows "chat_grows db db'"
  using assms
proof (rule delete_parts)
  fix target p
  let ?spliced = "db\<lparr>cd_messages := splice_out i p (cd_messages db)\<rparr>"
  assume db': "db' = invalidate_snapshots_covering_messages c (collect_message_subtree_ids db c i)
      (snd (add_message_count c (- 1) ?spliced))"
    and counted: "add_message_count c (- 1) ?spliced = (Inr (), snd (add_message_count c (- 1) ?spliced))"
  have "chat_grows db (snd (add_message_count c (- 1) ?spliced))"
    using chat_grows_trans [OF splice_grows chat_grows_count [OF counted]] .
  then show ?thesis unfolding db' by (simp add: chat_grows_def)
qed

section \<open>Every call keeps the invariant\<close>

definition branch_ok :: "chat_db \<Rightarrow> nat \<times> branch_state \<Rightarrow> bool" where
  "branch_ok db = (\<lambda>(c, branch).
     (\<forall>p. br_parent_message_id branch = Some p \<longrightarrow> belongs_to db c p) \<and>
     (\<forall>u. br_reuse_user_message branch = Some u \<longrightarrow> belongs_to db c (cm_id u)))"

text \<open>What a step leaves: a well-formed database in which every row keeps its conversation.\<close>

definition chat_kept :: "chat_db \<Rightarrow> chat_db \<Rightarrow> bool" where
  "chat_kept db db' \<longleftrightarrow> (well_formed_chat db \<longrightarrow> well_formed_chat db') \<and> chat_grows db db'"

lemma chat_kept_refl [simp]: "chat_kept db db"
  by (simp add: chat_kept_def)

lemma found_belongs:
  assumes "well_formed_chat db" "m \<in> set (live_messages db)" "cm_conversation_id m = c"
  shows "belongs_to db c (cm_id m)"
  using assms by (auto simp: well_formed_chat_def keyed_def belongs_to_def live_in distinct_map inj_on_def)

lemma transaction_kept:
  assumes "\<And>a db'. chat_transaction body db = (Inr a, db') \<Longrightarrow> chat_kept db db'"
  shows "chat_kept db (snd (chat_transaction body db))"
proof (cases "chat_transaction body db")
  case (Pair r db')
  then show ?thesis using assms chat_transaction_Inl [of body db] by (cases r) auto
qed

lemma create_pair_kept:
  assumes "well_formed_chat db" "branch_ok db (c, branch)"
  shows "chat_kept db (snd (create_message_pair (inp\<lparr>sd_conversation_id := c\<rparr>) branch reason db))"
proof (cases "br_reuse_user_message branch")
  case None
  let ?u = "user_message_of (inp\<lparr>sd_conversation_id := c\<rparr>) branch reason"
  let ?a = "assistant_message_of (inp\<lparr>sd_conversation_id := c\<rparr>) reason"
  have conv: "cm_conversation_id ?u = c" "cm_conversation_id ?a = c" "cm_parent_id ?u = br_parent_message_id branch"
    by (simp_all add: user_message_of_def assistant_message_of_def new_message_def)
  have "chat_kept db db'" if created: "create_message_pair_with_user_attachments ?u ?a files db = (Inr rows, db')" for rows db' files
  proof -
    obtain ur ar where rows: "rows = (ur, ar)" by (cases rows)
    have "well_formed_chat db'"
      using create_pair_ok [OF assms(1) created [unfolded rows]] assms(2) conv by (simp add: branch_ok_def)
    then show ?thesis using create_pair_grows [OF created] by (simp add: chat_kept_def)
  qed
  then show ?thesis
    using None unfolding create_message_pair_def create_message_pair_with_user_attachments_def
    by (simp del: chat_kept_refl) (rule transaction_kept)
next
  case (Some u)
  let ?a = "(assistant_message_of (inp\<lparr>sd_conversation_id := c\<rparr>) reason)
    \<lparr>cm_parent_id := Some (cm_id u), cm_source_id := br_source_message_id branch\<rparr>"
  have "chat_kept db (snd (create_assistant_branch_message ?a db))"
  proof -
    have "chat_kept db db'" if created: "create_assistant_branch_message ?a db = (Inr row, db')" for row db'
    proof -
      have "well_formed_chat db'"
        using create_assistant_ok [OF assms(1) created] assms(2) Some
        by (simp add: branch_ok_def assistant_message_of_def new_message_def)
      then show ?thesis using create_assistant_grows [OF created] by (simp add: chat_kept_def)
    qed
    then show ?thesis unfolding create_assistant_branch_message_def by (simp del: chat_kept_refl) (rule transaction_kept)
  qed
  then show ?thesis using Some by (auto simp: create_message_pair_def then_chat_def split: prod.splits sum.splits)
qed

lemma ancestors_live:
  "keyed cm_id (cd_messages db) \<Longrightarrow> x \<in> set (ancestors_up db c s n) \<Longrightarrow> x \<in> set (live_messages db) \<and> cm_conversation_id x = c"
proof (induction db c s n rule: ancestors_up.induct)
  case (1 db c i depth)
  then show ?case by (cases "get_message_by_id db c i") (auto simp: get_message_Some)
qed auto

lemma candidate_in: "select_latest_default_parent_candidate ms = Some m \<Longrightarrow> m \<in> set ms"
  unfolding select_latest_default_parent_candidate_def by (auto dest!: find_in split: option.splits)

lemma resolve_branch_ok:
  assumes wf: "well_formed_chat db" and res: "resolve_message_branch db c user parent source reason = Inr branch"
  shows "branch_ok db (c, branch)"
proof -
  have keyed: "keyed cm_id (cd_messages db)" using wf by (simp add: well_formed_chat_def)
  have by_id: "belongs_to db c (cm_id m)" if "get_message_by_id db c i = Some m" for i m
    using that found_belongs [OF wf, of m c] by (simp add: get_message_Some [OF keyed])
  have found: "belongs_to db c (cm_id m)" if "resolve_by_public_id db c user pid = Inr (Some m)" for pid m
    using that found_belongs [OF wf]
    by (auto simp: resolve_by_public_id_def get_message_by_public_id_def Let_def dest!: find_in split: if_splits option.splits)
  have default: "belongs_to db c (cm_id m)"
    if candidate: "select_latest_default_parent_candidate (list_latest_branch_preview_messages db c d l) = Some m" for d l m
  proof -
    obtain x s n where "x \<in> set (ancestors_up db c s n)" "cm_id m = cm_id x"
      using candidate_in [OF candidate] by (auto simp: list_latest_branch_preview_messages_def Let_def preview_of_def dest!: in_set_takeD)
    then show ?thesis using ancestors_live [OF keyed] found_belongs [OF wf] by metis
  qed
  have checked: "belongs_to db c (cm_id m)"
    if "parent_of_source db c src par reason = Inr (Some m)" "\<And>x. par = Some x \<Longrightarrow> belongs_to db c (cm_id x)" for src par m
    using that by_id by (auto simp: parent_of_source_def Let_def split: if_splits option.splits sum.splits)
  have ok: "branch_ok db (c, branch_of par src)" if "\<And>m. par = Some m \<Longrightarrow> belongs_to db c (cm_id m)" for par src
    using that by (auto simp: branch_ok_def branch_of_def split: option.splits if_splits)
  obtain par where par: "resolve_by_public_id db c user parent = Inr par"
    using res by (cases "resolve_by_public_id db c user parent") (auto simp: resolve_message_branch_def)
  obtain src where src: "resolve_by_public_id db c user source = Inr src"
    using res par by (cases "resolve_by_public_id db c user source") (auto simp: resolve_message_branch_def)
  have given: "belongs_to db c (cm_id m)" if "par = Some m" for m using par that found by blast
  show ?thesis
  proof (cases src)
    case None
    then show ?thesis
      using res par src given default by (auto simp: resolve_message_branch_def intro!: ok split: if_splits option.splits)
  next
    case (Some x)
    then obtain par' where "parent_of_source db c x par reason = Inr par'" "branch = branch_of par' (Some x)"
      using res par src
      by (cases "parent_of_source db c x par reason") (auto simp: resolve_message_branch_def)
    then show ?thesis using checked given by (auto intro!: ok)
  qed
qed

lemma update_kept:
  assumes f: "\<And>m. cm_id (f m) = cm_id m" "\<And>m. cm_conversation_id (f m) = cm_conversation_id m"
    "\<And>m. cm_parent_id (f m) = cm_parent_id m" "\<And>m. cm_deleted (f m) = cm_deleted m"
  shows "chat_kept db (db\<lparr>cd_messages := update_rows P f (cd_messages db)\<rparr>)"
proof -
  let ?db = "db\<lparr>cd_messages := update_rows P f (cd_messages db)\<rparr>" and ?g = "\<lambda>m. if P m then f m else m"
  have g: "cm_id (?g m) = cm_id m" "cm_conversation_id (?g m) = cm_conversation_id m" "cm_parent_id (?g m) = cm_parent_id m"
      "cm_deleted (?g m) = cm_deleted m" for m using f by simp_all
  have live: "live_messages ?db = map ?g (live_messages db)"
    by (simp add: live_messages_def update_rows_def filter_map comp_def g)
  have parent: "has_parent ?db (?g m) \<longleftrightarrow> has_parent db m" for m
    unfolding has_parent_def live set_map bex_simps g ..
  have count: "messages_in ?db x = messages_in db x" for x
    unfolding messages_in_def live by (simp add: filter_map comp_def g)
  have "well_formed_chat ?db" if "well_formed_chat db"
  proof -
    have "keyed cm_id (cd_messages ?db)"
      using that keyed_update [of cm_id "cd_messages db" f P] f(1) by (simp add: well_formed_chat_def)
    moreover have "\<forall>m \<in> set (live_messages ?db). has_parent ?db m"
      using that unfolding live set_map ball_simps parent by (simp add: well_formed_chat_def)
    moreover have "table_rows (cd_messages ?db) = map ?g (table_rows (cd_messages db))" by (simp add: update_rows_def)
    then have "\<forall>m \<in> set (table_rows (cd_messages ?db)). 0 < cm_id m \<and> cm_conversation_id m < table_next (cd_conversations ?db)"
      using that unfolding \<open>table_rows (cd_messages ?db) = _\<close> set_map ball_simps g by (simp add: well_formed_chat_def)
    moreover have "table_next (cd_messages ?db) = table_next (cd_messages db)" by (simp add: update_rows_def)
    ultimately show ?thesis using that unfolding well_formed_chat_def count by simp
  qed
  then show ?thesis using chat_grows_update [of f, OF f(1,2)] by (simp add: chat_kept_def)
qed

lemma create_conversation_kept: "chat_kept db (snd (create_conversation user pid db))"
proof (cases "first_row (\<lambda>c. cv_public_id c = pid) (cd_conversations db)")
  case None
  let ?mk = "\<lambda>i. \<lparr>cv_id = i, cv_user_id = user, cv_public_id = pid, cv_message_count = 0, cv_last_compacted_at = None\<rparr>"
  let ?db = "db\<lparr>cd_conversations := snd (create_row ?mk (cd_conversations db))\<rparr>"
  have live: "live_messages ?db = live_messages db" by (simp add: live_messages_def)
  have "well_formed_chat ?db" if wf: "well_formed_chat db"
  proof -
    have "cm_conversation_id m \<noteq> table_next (cd_conversations db)" if "m \<in> set (live_messages db)" for m
      using that wf unfolding well_formed_chat_def by (metis live_in less_irrefl)
    then have none: "messages_in db (table_next (cd_conversations db)) = 0" by (simp add: messages_in_def filter_empty_conv)
    have parent: "has_parent ?db m \<longleftrightarrow> has_parent db m" for m by (simp only: has_parent_def live)
    have count: "messages_in ?db x = messages_in db x" for x by (simp only: messages_in_def live)
    have "keyed cv_id (cd_conversations ?db)"
      using wf keyed_create [of cv_id "cd_conversations db" ?mk] by (simp add: well_formed_chat_def)
    then show ?thesis
      using wf none unfolding well_formed_chat_def parent count live by (auto simp: create_row_def less_SucI)
  qed
  then show ?thesis using None by (auto simp: create_conversation_def chat_kept_def chat_grows_def create_row_def)
qed (simp add: create_conversation_def)

lemma delete_kept: "chat_kept db (snd (delete_message user conversation_public_id message_public_id db))"
proof -
  have "chat_kept db (snd (delete_message_and_reparent_children u c i db))" for u c i
  proof -
    have "chat_kept db db'" if "delete_message_and_reparent_children u c i db = (Inr moved, db')" for moved db'
      using delete_ok [OF _ that] delete_grows [OF that] by (simp add: chat_kept_def)
    then show ?thesis unfolding delete_message_and_reparent_children_def by (rule transaction_kept)
  qed
  note kept = this
  have "chat_kept db db'" if "delete_message_and_reparent_children u c i db = (r, db')" for u c i r db'
    using kept [of u c i] that by simp
  then show ?thesis
    unfolding delete_message_def Let_def by (auto split: option.splits prod.splits sum.splits chat_error.splits)
qed

lemma compact_kept: "chat_kept db (snd (snd (maybe_compact_conversation env cfg inp clocks circuit db)))"
proof -
  have same: "chat_kept db db'" if "cd_messages db' = cd_messages db"
      "cd_conversations db' = update_rows P (\<lambda>c. c\<lparr>cv_last_compacted_at := at\<rparr>) (cd_conversations db)" for db' P at
  proof -
    have live: "live_messages db' = live_messages db" using that(1) by (simp add: live_messages_def)
    have parent: "has_parent db' m \<longleftrightarrow> has_parent db m" for m by (simp only: has_parent_def live)
    have count: "messages_in db' x = messages_in db x" for x by (simp only: messages_in_def live)
    have "keyed cv_id (cd_conversations db')" "table_next (cd_conversations db') = table_next (cd_conversations db)"
      if "well_formed_chat db"
      using that \<open>cd_conversations db' = _\<close> keyed_update [of cv_id "cd_conversations db"]
      by (simp_all add: well_formed_chat_def update_rows_def)
    then have "well_formed_chat db \<longrightarrow> well_formed_chat db'"
      unfolding well_formed_chat_def parent count live that(1) by (auto simp: that(2) update_rows_def)
    then show ?thesis using that(1) by (auto simp: chat_kept_def chat_grows_def)
  qed
  show ?thesis
    unfolding maybe_compact_conversation_def Let_def
    by (auto simp: update_conversation_compacted_at_def create_context_snapshot_def create_row_def Let_def
        intro!: same split: option.splits prod.splits)
qed

section \<open>The tree\<close>

definition state_ok :: "chat_state \<Rightarrow> bool" where
  "state_ok st \<longleftrightarrow> well_formed_chat (st_db st) \<and> list_all (branch_ok (st_db st)) (st_branches st)"

lemma state_kept:
  assumes "state_ok st" "chat_kept (st_db st) db"
  shows "state_ok (st\<lparr>st_db := db\<rparr>)" "state_ok (st\<lparr>st_db := db, st_circuit := circuit\<rparr>)"
proof -
  have "branch_ok db b" if "branch_ok (st_db st) b" for b
    using that belongs_grows assms(2) by (auto simp: branch_ok_def chat_kept_def split: prod.splits)
  then show "state_ok (st\<lparr>st_db := db\<rparr>)" "state_ok (st\<lparr>st_db := db, st_circuit := circuit\<rparr>)"
    using assms by (auto simp: state_ok_def chat_kept_def list_all_iff)
qed

lemma chat_step_ok: "state_ok st \<Longrightarrow> state_ok (chat_step env cfg call st)"
proof (induction env cfg call st rule: chat_step.induct)
  case (2 env cfg c user parent source reason st)
  then show ?case
    using resolve_branch_ok [of "st_db st" c user parent source "normalize_branch_reason reason"]
    by (auto simp: state_ok_def split: sum.splits)
next
  case (3 env cfg n inp reason st)
  show ?case
  proof (cases "n < length (st_branches st)")
    case True
    then obtain c branch where b: "st_branches st ! n = (c, branch)" "branch_ok (st_db st) (c, branch)" "well_formed_chat (st_db st)"
      using 3 by (cases "st_branches st ! n") (auto simp: state_ok_def list_all_length)
    then show ?thesis using state_kept(1) [OF 3 create_pair_kept [OF b(3,2)]] True by simp
  qed (use 3 in simp)
next
  case (7 env cfg inp clocks st)
  then show ?case
    using state_kept(2) [OF 7 compact_kept [of "st_db st" env cfg inp clocks "st_circuit st"]]
    by (auto simp: Let_def split: prod.splits)
qed (auto simp: update_message_state_def update_message_content_def Let_def split: option.splits
    intro!: state_kept create_conversation_kept update_kept delete_kept)

lemma chat_run_ok: "state_ok (chat_run env cfg calls empty_chat)"
proof -
  have "state_ok empty_chat"
    by (simp add: state_ok_def empty_chat_def empty_chat_db_def well_formed_chat_def live_messages_def)
      (simp add: empty_table_def)
  moreover have "state_ok st \<Longrightarrow> state_ok (chat_run env cfg calls st)" for st
    unfolding chat_run_def by (induction calls arbitrary: st) (auto intro: chat_step_ok)
  ultimately show ?thesis by blast
qed

text \<open>
  C9. Whatever list of calls ran on an empty database (conversations created, branches resolved and used later, messages
  edited, finished and deleted, summaries made), the messages of each conversation form trees: every message that is
  not a first one hangs on an older message of its conversation that is not deleted, and each conversation counts its messages.
\<close>

theorem conversations_stay_trees: "well_formed_chat (st_db (chat_run env cfg calls empty_chat))"
  using chat_run_ok [of env cfg calls] by (simp add: state_ok_def)

end
