(* ===== verification/Prompt_Scope.thy ===== *)
theory Prompt_Scope
  imports Compaction
begin

text \<open>
  What of a branch is sent to a model (application/conversation/prompt_scope.go and the image reserve of
  service_branch.go): the messages after the boundary of the snapshot, its summary in place of those before it,
  the estimate of their tokens, and the history in the form of the upstream, with neighbours of one role joined. The
  attachments of a message are JSON; \<open>refs_of\<close> is what encoding/json makes of it. The tool calls, the tool results and the
  bytes of a content part are opaque texts.
\<close>

section \<open>The scope\<close>

record prompt_scope =
  ps_full_branch_messages :: "message list"
  ps_covered_messages :: "message list"
  ps_retained_messages :: "message list"
  ps_snapshot :: "context_snapshot option"
  ps_covered_until_id :: nat

definition build_prompt_scope ::
  "(string \<Rightarrow> string) \<Rightarrow> message list \<Rightarrow> context_snapshot option \<Rightarrow> bool \<Rightarrow> prompt_scope" where
  "build_prompt_scope sha256 messages snapshot enabled =
     (let whole = \<lparr>ps_full_branch_messages = messages, ps_covered_messages = [], ps_retained_messages = messages,
            ps_snapshot = None, ps_covered_until_id = 0\<rparr>
      in if \<not> enabled then whole
         else case boundary_index sha256 messages snapshot of
           None \<Rightarrow> whole
         | Some index \<Rightarrow>
             if length messages \<le> index + 1 then whole
             else \<lparr>ps_full_branch_messages = messages, ps_covered_messages = take (index + 1) messages,
               ps_retained_messages = drop (index + 1) messages, ps_snapshot = snapshot,
               ps_covered_until_id = cs_covered_until_id (the snapshot)\<rparr>)"

definition active_messages :: "prompt_scope \<Rightarrow> message list" where
  "active_messages scope =
     (if ps_retained_messages scope \<noteq> [] then ps_retained_messages scope else ps_full_branch_messages scope)"

record historical_message_scope =
  hs_conversation_id :: nat
  hs_user_id :: nat
  hs_leaf_message_id :: nat
  hs_exclude_through_message_id :: nat

definition historical_message_scope_of :: "prompt_scope \<Rightarrow> nat \<Rightarrow> nat \<Rightarrow> nat \<Rightarrow> historical_message_scope" where
  "historical_message_scope_of scope conversation_id user_id current_id =
     (let none = \<lparr>hs_conversation_id = 0, hs_user_id = 0, hs_leaf_message_id = 0, hs_exclude_through_message_id = 0\<rparr>;
          messages = (if ps_snapshot scope \<noteq> None then ps_retained_messages scope else ps_full_branch_messages scope)
      in if conversation_id = 0 \<or> user_id = 0 \<or> current_id = 0 then none
         else if list_ex (\<lambda>m. 0 < cm_id m \<and> cm_id m \<noteq> current_id) messages
         then \<lparr>hs_conversation_id = conversation_id, hs_user_id = user_id, hs_leaf_message_id = current_id,
               hs_exclude_through_message_id = ps_covered_until_id scope\<rparr>
         else none)"

section \<open>Its tokens\<close>

record attachment_ref =
  ar_kind :: string
  ar_mime_type :: string
  ar_detected_mime :: string

definition parse_attachment_snapshot_refs :: "(string \<Rightarrow> attachment_ref list option) \<Rightarrow> string \<Rightarrow> attachment_ref list" where
  "parse_attachment_snapshot_refs refs_of raw =
     (let payload = trim_space raw
      in if payload = [] \<or> payload = ''[]'' then []
         else case refs_of payload of None \<Rightarrow> [] | Some items \<Rightarrow> items)"

definition normalize_attachment_kind :: "string \<Rightarrow> string \<Rightarrow> string" where
  "normalize_attachment_kind kind mime_type =
     (if trim_space kind \<noteq> [] then trim_space kind
      else if prefix ''image/'' (to_lower (trim_space mime_type)) then ''image'' else ''file'')"

definition is_image_ref :: "attachment_ref \<Rightarrow> bool" where
  "is_image_ref ref \<longleftrightarrow>
     (let mime = (if trim_space (ar_detected_mime ref) = [] then trim_space (ar_mime_type ref)
            else trim_space (ar_detected_mime ref))
      in normalize_attachment_kind (ar_kind ref) mime = ''image'')"

definition max_conversation_image_context_count :: nat where
  "max_conversation_image_context_count = 10"

text \<open>From the last message back, 1024 tokens for each image of a user, while there is room for images.\<close>

fun image_reserve :: "(string \<Rightarrow> attachment_ref list option) \<Rightarrow> message list \<Rightarrow> nat \<Rightarrow> int list" where
  "image_reserve refs_of [] remaining = []"
| "image_reserve refs_of (m # rest) remaining =
     (let images = (if is_word ''user'' (cm_role m)
            then length (filter is_image_ref (parse_attachment_snapshot_refs refs_of (cm_attachments m))) else 0);
          taken = min remaining images
      in 1024 * int taken # image_reserve refs_of rest (remaining - taken))"

definition conversation_image_token_reserve :: "(string \<Rightarrow> attachment_ref list option) \<Rightarrow> message list \<Rightarrow> int list" where
  "conversation_image_token_reserve refs_of messages =
     rev (image_reserve refs_of (rev messages) max_conversation_image_context_count)"

definition estimate_domain_message_tokens :: "bool \<Rightarrow> message \<Rightarrow> int" where
  "estimate_domain_message_tokens include_reasoning m =
     estimate_tokens (cm_content m) +
     (if include_reasoning \<and> cm_role m = ''assistant'' then estimate_tokens (cm_reasoning_content m) else 0)"

definition estimate_prompt_scope_tokens ::
  "(string \<Rightarrow> string) \<Rightarrow> (string \<Rightarrow> attachment_ref list option) \<Rightarrow> message list \<Rightarrow> context_snapshot option \<Rightarrow> bool \<Rightarrow>
     bool \<Rightarrow> int" where
  "estimate_prompt_scope_tokens sha256 refs_of messages snapshot enabled include_reasoning =
     (let scope = build_prompt_scope sha256 messages snapshot enabled; active = active_messages scope
      in sum_list (map (estimate_domain_message_tokens include_reasoning) active) +
         sum_list (conversation_image_token_reserve refs_of active) +
         (case ps_snapshot scope of None \<Rightarrow> 0 | Some s \<Rightarrow> estimate_tokens (cs_summary_text s)))"

section \<open>The history that is sent\<close>

record content_part =
  pt_kind :: string
  pt_text :: string
  pt_payload :: string

record llm_message =
  lm_role :: string
  lm_content :: string
  lm_parts :: "content_part list"
  lm_reasoning_content :: string
  lm_tool_calls :: "string list"
  lm_tool_results :: "string list"
  lm_cache_control :: "string option"

definition is_prompt_history_message :: "message \<Rightarrow> bool" where
  "is_prompt_history_message m \<longleftrightarrow>
     (cm_role m = ''user'' \<or> cm_role m = ''assistant'' \<or> cm_role m = ''system'') \<and> \<not> is_word ''blocked'' (cm_status m)"

definition history_messages_from_domain :: "message list \<Rightarrow> bool \<Rightarrow> llm_message list" where
  "history_messages_from_domain messages reasoning_passback =
     map (\<lambda>m. \<lparr>lm_role = cm_role m, lm_content = cm_content m, lm_parts = [],
         lm_reasoning_content = (if reasoning_passback \<and> cm_role m = ''assistant'' then cm_reasoning_content m else []),
         lm_tool_calls = [], lm_tool_results = [], lm_cache_control = None\<rparr>)
       (filter is_prompt_history_message messages)"

definition join_message_text_segments :: "string \<Rightarrow> string \<Rightarrow> string" where
  "join_message_text_segments left right =
     (if trim_space left = [] then right else if trim_space right = [] then left
      else left @ [CHR 0x0A, CHR 0x0A] @ right)"

definition text_part :: "string \<Rightarrow> content_part" where
  "text_part s = \<lparr>pt_kind = ''text'', pt_text = s, pt_payload = []\<rparr>"

definition message_content_parts :: "llm_message \<Rightarrow> content_part list" where
  "message_content_parts m = (if trim_space (lm_content m) = [] then [] else [text_part (lm_content m)]) @ lm_parts m"

definition mergeable_same_role_pair :: "llm_message \<Rightarrow> llm_message \<Rightarrow> bool" where
  "mergeable_same_role_pair left right \<longleftrightarrow>
     (let role = to_lower (trim_space (lm_role left))
      in role = to_lower (trim_space (lm_role right)) \<and> (role = ''user'' \<or> role = ''assistant'') \<and>
         lm_tool_calls left = [] \<and> lm_tool_results left = [] \<and> lm_tool_calls right = [] \<and> lm_tool_results right = [] \<and>
         lm_cache_control left = None \<and> lm_cache_control right = None)"

definition merge_same_role_message_pair :: "llm_message \<Rightarrow> llm_message \<Rightarrow> llm_message" where
  "merge_same_role_message_pair left right =
     (let merged = left\<lparr>lm_content := join_message_text_segments (lm_content left) (lm_content right),
            lm_reasoning_content := join_message_text_segments (lm_reasoning_content left) (lm_reasoning_content right)\<rparr>
      in if lm_parts left = [] \<and> lm_parts right = [] then merged
         else merged\<lparr>lm_parts := message_content_parts left @ message_content_parts right, lm_content := []\<rparr>)"

definition merge_next :: "llm_message list \<Rightarrow> llm_message \<Rightarrow> llm_message list" where
  "merge_next merged m =
     (if merged \<noteq> [] \<and> mergeable_same_role_pair (last merged) m
      then butlast merged @ [merge_same_role_message_pair (last merged) m] else merged @ [m])"

definition merge_consecutive_same_role_messages :: "llm_message list \<Rightarrow> llm_message list" where
  "merge_consecutive_same_role_messages messages =
     (if length messages < 2 then messages else foldl merge_next [] messages)"

end
