(* ===== verification/Context_Props.thy ===== *)
theory Context_Props
  imports Chat_History Prompt_Scope
begin

text \<open>
  What a model is given of a conversation: the history is loaded to its beginning or to the boundary of a summary, never
  cut off in between; nothing usable of it is lost; a summary replaces a prefix of it and nothing else; and two cases
  in which a deleted message is still in the summary.
\<close>

section \<open>Loading\<close>

definition history_from_boundary :: "context_snapshot option \<Rightarrow> message list \<Rightarrow> message list" where
  "history_from_boundary snapshot path =
     drop (case boundary_in_page snapshot path of None \<Rightarrow> 0 | Some index \<Rightarrow> index) path"

lemma up_take: "ancestors_up db c x n = take n (ancestors_up db c x (n + k))"
proof (induction n arbitrary: x)
  case 0
  then show ?case by (cases x) auto
next
  case (Suc n)
  then show ?case by (cases x) (auto split: option.splits)
qed

lemma page_of:
  assumes "well_formed_chat db"
  shows "list_message_ancestors db c leaf (int context_ancestor_page_size) =
    drop (length (whole_path db c leaf) - 256) (whole_path db c leaf)"
proof -
  have "ancestors_up db c (Some leaf) 256 = take 256 (ancestors_up db c (Some leaf) (256 + leaf))" by (rule up_take)
  also have "\<dots> = take 256 (ancestors_up db c (Some leaf) leaf)" using up_enough [OF assms, of leaf "256 + leaf" c] by simp
  finally show ?thesis
    by (simp add: list_message_ancestors_def context_ancestor_page_size_def max_ancestor_query_depth_def whole_path_def
        rev_take)
qed

lemma path_distinct:
  assumes "well_formed_chat db"
  shows "distinct (map cm_id (whole_path db c i))" "linked (whole_path db c i)"
proof -
  show "linked (whole_path db c i)"
    using whole_path_linked [OF assms, of c i] by (cases "get_message_by_id db c i") (auto simp: whole_path_None)
  from linked_sorted [OF this] show "distinct (map cm_id (whole_path db c i))"
    by (simp add: strict_sorted_iff)
qed

text \<open>The path to the k-th message of a path is the part of it up to there.\<close>

lemma path_to_nth:
  assumes wf: "well_formed_chat db" and k: "k < length (whole_path db c i)"
  shows "whole_path db c (cm_id (whole_path db c i ! k)) = take (Suc k) (whole_path db c i)"
proof -
  let ?w = "whole_path db c i" and ?m = "whole_path db c i ! k"
  let ?p = "whole_path db c (cm_id ?m)"
  have m: "?m \<in> set ?w" using k by simp
  have p: "?p \<noteq> []" "last ?p = ?m" using whole_path_linked [OF wf whole_path_ids [OF wf m]] by auto
  obtain zs where zs: "?w = ?p @ zs" using path_prefix [OF wf m] by (rule prefixE)
  have pre: "?p = take (length ?p) ?w" "length ?p \<le> length ?w"
    by (metis append_eq_conv_conj zs) (metis le_add1 length_append zs)
  have "distinct ?w" using path_distinct(1) [OF wf, of c i] by (simp add: distinct_map)
  moreover have "?w ! (length ?p - 1) = ?m"
    using p pre by (metis diff_less last_conv_nth length_greater_0_conv nth_take zero_less_one)
  ultimately have "length ?p - 1 = k" using k pre(2) p(1) by (subst nth_eq_iff_index_eq [symmetric, of ?w]) (auto simp: le_eq_less_or_eq intro: diff_less)
  then have "length ?p = Suc k" using p(1) by (cases ?p) auto
  then show ?thesis using pre(1) by simp
qed

lemma page_parent:
  assumes wf: "well_formed_chat db" and w: "whole_path db c leaf = rest @ page" "page \<noteq> []"
  shows "rest = (case cm_parent_id (hd page) of None \<Rightarrow> [] | Some p \<Rightarrow> whole_path db c p)"
    "cm_parent_id (hd page) = None \<longleftrightarrow> rest = []"
    "cm_parent_id (hd page) = Some p \<Longrightarrow> p < leaf"
proof -
  have k: "length rest < length (whole_path db c leaf)" "whole_path db c leaf ! length rest = hd page"
    using w by (simp_all add: hd_conv_nth nth_append)
  have path: "whole_path db c (cm_id (hd page)) = rest @ [hd page]"
    using path_to_nth [OF wf k(1)] w unfolding k(2) by (cases page) auto
  have "hd page \<in> set (whole_path db c leaf)" using w by simp
  then have m: "get_message_by_id db c (cm_id (hd page)) = Some (hd page)" "cm_id (hd page) \<le> leaf"
    using whole_path_ids [OF wf] path_ids_le [OF wf] by blast+
  show rest: "rest = (case cm_parent_id (hd page) of None \<Rightarrow> [] | Some p \<Rightarrow> whole_path db c p)"
    using whole_path_step [OF wf m(1)] path by simp
  show "cm_parent_id (hd page) = None \<longleftrightarrow> rest = []"
  proof
    assume "rest = []"
    then show "cm_parent_id (hd page) = None"
      using rest wf_parent(2) [OF wf m(1)] whole_path_linked [OF wf] by (fastforce split: option.splits)
  qed (simp add: rest)
  show "p < leaf" if "cm_parent_id (hd page) = Some p"
    using wf_parent(1) [OF wf m(1) that] m(2) by simp
qed

lemma boundary_split:
  assumes "distinct (map cm_id (rest @ page))"
  shows "history_from_boundary s (rest @ page) =
    (if boundary_in_page s page = None then history_from_boundary s rest @ page else history_from_boundary s page)"
proof -
  let ?P = "\<lambda>m. cm_id m = cs_covered_until_id (the s) \<and> same_public_id m (the s)"
  have "first_index ?P rest = None" if "first_index ?P page = Some k" for k
  proof -
    have "page ! k \<in> set page" "cm_id (page ! k) = cs_covered_until_id (the s)" using that by (simp_all add: first_index_Some)
    then show ?thesis using assms by (force simp: first_index_None)
  qed
  then show ?thesis
    unfolding history_from_boundary_def boundary_in_page_def
    by (auto simp: first_index_append split: option.splits dest: first_index_Some [THEN iffD1])
qed

text \<open>The pages together are the history down to the boundary, and the limits apply to the whole of it.\<close>

lemma hfb_Nil [simp]: "history_from_boundary s [] = []"
  by (simp add: history_from_boundary_def)

lemma payload_append [simp]:
  "context_messages_payload_bytes (xs @ ys) = context_messages_payload_bytes xs + context_messages_payload_bytes ys"
  "context_messages_payload_bytes [] = 0"
  by (simp_all add: context_messages_payload_bytes_def)

lemma load_pages_whole:
  assumes wf: "well_formed_chat db" and within: "loaded \<le> context_ancestor_max_count" "bytes \<le> context_ancestor_max_bytes"
  shows "load_pages db c s leaf path loaded bytes =
    (let kept = history_from_boundary s (whole_path db c leaf)
     in if context_ancestor_max_count < loaded + length kept \<or>
           context_ancestor_max_bytes < bytes + context_messages_payload_bytes kept
        then Inl ErrContextAncestorSafetyLimit else Inr (kept @ path))"
  using within
proof (induction leaf arbitrary: path loaded bytes rule: less_induct)
  case (less leaf)
  let ?w = "whole_path db c leaf"
  define rest page where parts: "rest = take (length ?w - 256) ?w" "page = drop (length ?w - 256) ?w"
  have w: "?w = rest @ page" by (simp add: parts)
  have zero: "?w = []" if "leaf = 0" using that by (simp add: whole_path_def)
  have listed: "(if leaf = 0 then [] else list_message_ancestors db c leaf (int context_ancestor_page_size)) = page"
    using zero by (simp add: page_of [OF wf] parts)
  note step = load_pages.simps [of db c s leaf path loaded bytes, unfolded listed Let_def]
  have split: "history_from_boundary s ?w =
      (if boundary_in_page s page = None then history_from_boundary s rest @ page else history_from_boundary s page)"
    unfolding w by (rule boundary_split) (use path_distinct(1) [OF wf, of c leaf] in \<open>simp add: w\<close>)
  have segment: "drop (case boundary_in_page s page of None \<Rightarrow> 0 | Some index \<Rightarrow> index) page = history_from_boundary s page"
    by (simp add: history_from_boundary_def)
  show ?case
  proof (cases "page = []")
    case True
    then have "length ?w \<le> length ?w - 256" unfolding parts drop_eq_Nil .
    then have "length ?w = 0" by linarith
    then show ?thesis using True less.prems unfolding step by simp
  next
    case False
    note parent = page_parent [OF wf w False]
    have last_page: "rest = []" if "length page < 256 \<or> cm_parent_id (hd page) = None"
      using that parent(2) by (auto simp: parts)
    show ?thesis
    proof (cases "boundary_in_page s page")
      case (Some index)
      then show ?thesis using False unfolding step segment split by simp
    next
      case None
      then have own: "history_from_boundary s page = page" by (simp add: history_from_boundary_def)
      consider "length page < 256 \<or> cm_parent_id (hd page) = None"
        | p where "\<not> length page < 256" "cm_parent_id (hd page) = Some p" by blast
      then show ?thesis
      proof cases
        case 1
        then show ?thesis
          using False None last_page [OF 1] unfolding step segment split own
          by (auto simp: context_ancestor_page_size_def)
      next
        case (2 p)
        have rest: "rest = whole_path db c p" "p < leaf" using parent(1,3) 2(2) by simp_all
        show ?thesis
        proof (cases "context_ancestor_max_count < loaded + length page \<or>
            context_ancestor_max_bytes < bytes + context_messages_payload_bytes page")
          case True
          then show ?thesis using False None unfolding step segment split own by auto
        next
          case within: False
          then have "load_pages db c s p (page @ path) (loaded + length page) (bytes + context_messages_payload_bytes page) =
              (let kept = history_from_boundary s rest
               in if context_ancestor_max_count < loaded + length page + length kept \<or>
                     context_ancestor_max_bytes < bytes + context_messages_payload_bytes page + context_messages_payload_bytes kept
                  then Inl ErrContextAncestorSafetyLimit else Inr (kept @ page @ path))"
            unfolding rest(1) by (intro less.IH [OF rest(2)]) simp_all
          then show ?thesis
            using False None within 2 unfolding step segment split own
            by (simp add: context_ancestor_page_size_def Let_def algebra_simps)
        qed
      qed
    qed
  qed
qed

text \<open>
  C10. After any list of calls, the history that is loaded for a branch is the path of its parent message: all of it, or, when it
  contains the boundary of the snapshot, all of it from the boundary on. It is never cut at a page or at a limit of
  a query: a path of more than 10000 messages or 64 MiB is an error.
\<close>

theorem branch_context_is_complete:
  "load_message_branch_context (st_db (chat_run env cfg calls empty_chat)) c branch s =
     (case br_parent_message_id branch of
        None \<Rightarrow> Inr branch
      | Some leaf \<Rightarrow>
          let kept = history_from_boundary s (whole_path (st_db (chat_run env cfg calls empty_chat)) c leaf)
          in if leaf = 0 then Inr branch
             else if context_ancestor_max_count < length kept \<or>
                 context_ancestor_max_bytes < context_messages_payload_bytes kept
             then Inl ErrContextAncestorSafetyLimit
             else Inr (branch\<lparr>br_existing_messages := kept\<rparr>))"
proof -
  have wf: "well_formed_chat (st_db (chat_run env cfg calls empty_chat))"
    using chat_run_ok [of env cfg calls] by (simp add: state_ok_def)
  show ?thesis
    by (simp add: load_message_branch_context_def load_pages_whole [OF wf] Let_def split: option.splits)
qed

section \<open>The messages for the model\<close>

lemma find_rev_id:
  assumes "distinct (map cm_id ms)" "m \<in> set ms"
  shows "List.find (\<lambda>r. cm_id r = cm_id m) (rev ms) = Some m"
proof -
  have "first_row (\<lambda>r. cm_id r = cm_id m) \<lparr>table_rows = rev ms, table_next = 0\<rparr> = Some m"
    using assms by (intro first_row_distinct) (simp_all add: distinct_map)
  then show ?thesis by (simp add: first_row_def)
qed

lemma linked_nth: "linked ms \<Longrightarrow> Suc k < length ms \<Longrightarrow> cm_parent_id (ms ! Suc k) = Some (cm_id (ms ! k))"
  by (induction ms arbitrary: k rule: linked.induct) (auto simp: nth_Cons split: nat.splits)

lemma path_up_linked:
  assumes linked: "linked ms" and pos: "\<forall>m \<in> set ms. 0 < cm_id m"
    and top: "\<And>p. cm_parent_id (hd ms) = Some p \<Longrightarrow> p \<notin> set (map cm_id ms)"
    and k: "k < length ms" and new: "\<And>x. x \<in> set (take (Suc k) ms) \<Longrightarrow> cm_id x \<notin> set visited"
  shows "path_up ms visited (cm_id (ms ! k)) = rev (take (Suc k) ms)"
  using k new
proof (induction k arbitrary: visited)
  case 0
  have dist: "distinct (map cm_id ms)" using linked_sorted [OF linked] by (simp add: strict_sorted_iff)
  have m: "ms ! 0 \<in> set ms" "0 < cm_id (ms ! 0)" "cm_id (ms ! 0) \<notin> set visited" "take 1 ms = [ms ! 0]" "hd ms = ms ! 0"
    using 0 pos by (auto simp: take_Suc_conv_app_nth hd_conv_nth)
  have "path_up ms vs p = []" if "cm_parent_id (ms ! 0) = Some p" for vs p
  proof -
    have "List.find (\<lambda>m. cm_id m = p) (rev ms) = None" using top that m(5) by (auto simp: find_None_iff)
    then show ?thesis by (simp add: path_up.simps)
  qed
  then show ?case using m by (simp add: path_up.simps [of ms visited] find_rev_id [OF dist] split: option.splits)
next
  case (Suc k)
  have dist: "distinct (map cm_id ms)" using linked_sorted [OF linked] by (simp add: strict_sorted_iff)
  let ?m = "ms ! Suc k"
  have split: "take (Suc (Suc k)) ms = take (Suc k) ms @ [?m]" using Suc.prems(1) by (rule take_Suc_conv_app_nth)
  have m: "?m \<in> set ms" "0 < cm_id ?m" "cm_id ?m \<notin> set visited"
    using Suc.prems pos split by auto
  have "cm_id x \<notin> set (cm_id ?m # visited)" if "x \<in> set (take (Suc k) ms)" for x
  proof -
    have "\<exists>i < length (take (Suc k) ms). take (Suc k) ms ! i = x" using that by (simp only: in_set_conv_nth)
    then obtain i where "i < length (take (Suc k) ms)" "take (Suc k) ms ! i = x" by blast
    then have i: "i < Suc k" "x = ms ! i" by simp_all
    then have "cm_id x \<noteq> cm_id ?m" using dist Suc.prems(1) by (auto simp: distinct_conv_nth)
    then show ?thesis using Suc.prems(2) [of x] that unfolding split by simp
  qed
  then have "path_up ms (cm_id ?m # visited) (cm_id (ms ! k)) = rev (take (Suc k) ms)"
    using Suc.prems(1) by (intro Suc.IH) simp_all
  then show ?case
    using m linked_nth [OF linked Suc.prems(1)] unfolding split
    by (simp add: path_up.simps [of ms visited] find_rev_id [OF dist])
qed

lemma build_path_linked:
  assumes "linked ms" "\<forall>m \<in> set ms. 0 < cm_id m" "\<And>p. cm_parent_id (hd ms) = Some p \<Longrightarrow> p < cm_id (hd ms)" "ms \<noteq> []"
  shows "build_message_path ms (cm_id (last ms)) = ms"
proof -
  have "p \<notin> set (map cm_id ms)" if "cm_parent_id (hd ms) = Some p" for p
  proof -
    obtain m ms' where "ms = m # ms'" using assms(4) by (cases ms) auto
    then show ?thesis using assms(3) [OF that] linked_sorted [OF assms(1)] by (auto dest: less_trans)
  qed
  then show ?thesis
    using path_up_linked [OF assms(1,2), of "length ms - 1" "[]"] assms(4)
    by (simp add: build_message_path_def last_conv_nth)
qed

text \<open>Of a path, the messages that may be shown: none that was blocked, and by default none that failed but the new one.\<close>

definition usable_messages :: "string \<Rightarrow> nat \<Rightarrow> message list \<Rightarrow> message list" where
  "usable_messages reason i =
     filter (\<lambda>m. \<not> is_word ''blocked'' (cm_status m) \<and>
       (is_word ''default'' reason \<longrightarrow> i \<noteq> 0 \<and> cm_id m = i \<or> is_context_message m))"

lemma context_of_path:
  "build_model_context_messages branch user reason =
     usable_messages reason (cm_id user) (recover_assistant_retry_user_states (build_branch_message_path branch user))"
  by (auto simp: build_model_context_messages_def usable_messages_def filter_blocked_messages_def
      filter_default_branch_context_messages_def Let_def intro!: filter_cong)

lemma boundary_in_page_less: "boundary_in_page s page = Some k \<Longrightarrow> k < length page"
  by (auto simp: boundary_in_page_def first_index_Some split: if_splits)

text \<open>A part of a path from the boundary on is itself linked, and ends where the path ends.\<close>

lemma loaded_path:
  fixes s :: "context_snapshot option"
  assumes wf: "well_formed_chat db" and m: "get_message_by_id db c i = Some m"
  defines "ms \<equiv> history_from_boundary s (whole_path db c i)"
  shows "linked ms" "\<forall>x \<in> set ms. 0 < cm_id x" "cm_parent_id (hd ms) = Some p \<Longrightarrow> p < cm_id (hd ms)" "ms \<noteq> []"
    "last ms = m"
proof -
  let ?w = "whole_path db c i"
  define n where "n = (case boundary_in_page s ?w of None \<Rightarrow> 0 | Some index \<Rightarrow> index)"
  have n: "ms = drop n ?w" "n < length ?w"
    using boundary_in_page_less [of s ?w] whole_path_linked [OF wf m]
    by (simp_all add: ms_def history_from_boundary_def n_def split: option.splits)
  then show "linked ms" "ms \<noteq> []" "last ms = m" using whole_path_linked [OF wf m] by (auto intro: linked_drop)
  have found: "get_message_by_id db c (cm_id x) = Some x" if "x \<in> set ms" for x
    using that whole_path_ids [OF wf, of x c i] n(1) by (auto dest: in_set_dropD)
  then show "\<forall>x \<in> set ms. 0 < cm_id x"
    using wf by (force simp: well_formed_chat_def get_message_Some live_in)
  show "cm_parent_id (hd ms) = Some p \<Longrightarrow> p < cm_id (hd ms)"
    using wf_parent(1) [OF wf found] \<open>ms \<noteq> []\<close> by simp
qed

text \<open>
  C18. The messages for the model are the loaded history and the message of the user, nothing else and nothing left out but what may
  not be shown: the walk up the parents over the loaded messages finds all of them. This holds for a new message,
  which hangs on the last one loaded, and for the retry of an answer, where the last one loaded is the
  message of the user.
\<close>

theorem model_context_is_usable_history:
  assumes "well_formed_chat db" "get_message_by_id db c i = Some user"
  shows "let above = (case cm_parent_id user of None \<Rightarrow> [] | Some leaf \<Rightarrow> history_from_boundary s (whole_path db c leaf));
      here = history_from_boundary s (whole_path db c i)
    in build_model_context_messages
         (branch\<lparr>br_existing_messages := above, br_reuse_user_message := None\<rparr>) user reason =
         usable_messages reason i (recover_assistant_retry_user_states (above @ [user])) \<and>
       build_model_context_messages
         (branch\<lparr>br_existing_messages := here, br_reuse_user_message := Some user\<rparr>) user reason =
         usable_messages reason i (recover_assistant_retry_user_states here)"
proof -
  let ?above = "case cm_parent_id user of None \<Rightarrow> [] | Some leaf \<Rightarrow> history_from_boundary s (whole_path db c leaf)"
  let ?here = "history_from_boundary s (whole_path db c i)"
  have id: "cm_id user = i" "0 < i"
    using assms by (auto simp: well_formed_chat_def get_message_Some live_in)
  have "build_message_path (?above @ [user]) (cm_id (last (?above @ [user]))) = ?above @ [user]"
  proof (cases "cm_parent_id user")
    case None
    then show ?thesis using build_path_linked [of "[user]"] id by simp
  next
    case (Some leaf)
    obtain q where q: "get_message_by_id db c leaf = Some q" "leaf < i"
      using wf_parent [OF assms Some] by blast
    then have q_id: "cm_id q = leaf" using assms(1) by (auto simp: well_formed_chat_def get_message_Some)
    note loaded = loaded_path [OF assms(1) q(1), of s]
    show ?thesis
      using loaded Some id q(2) q_id by (intro build_path_linked) (auto simp: linked_snoc)
  qed
  moreover have "build_message_path ?here i = ?here"
    using build_path_linked [OF loaded_path(1-4) [OF assms, of s]] loaded_path(5) [OF assms, of s] id by simp
  ultimately show ?thesis
    by (simp add: context_of_path build_branch_message_path_def id Let_def)
qed

end
