(* ===== verification/Summary_Props.thy ===== *)
theory Summary_Props
  imports Context_Props
begin

text \<open>
  Rolling summaries and the prompt: where a branch is split, what a snapshot must hold to be used, and what of the branch it
  stands for in the next prompt.
\<close>

section \<open>The split\<close>

lemma turns_append [simp]: "count_user_turns (xs @ ys) = count_user_turns xs + count_user_turns ys"
  by (simp add: count_user_turns_def)

lemma turns_Cons: "count_user_turns (m # ms) = (if cm_role m = ''user'' then 1 else 0) + count_user_turns ms"
  by (simp add: count_user_turns_def)

lemma turns_nonneg [simp]: "0 \<le> count_user_turns ms"
  by (simp add: count_user_turns_def)

text \<open>
  While the scan goes back over the first \<open>k\<close> messages, it has seen the turns of the rest, and the index is the
  message of the user that begins them.
\<close>

lemma scan_turns_count:
  assumes "scan_turns preserve (rev (enumerate 0 (take k ms))) turns first = (turns', first')" "preserve < turns'"
    "k \<le> length ms" "turns = count_user_turns (drop k ms)" "turns \<le> preserve"
    "turns = 0 \<or> 0 \<le> first \<and> nat first < length ms \<and> cm_role (ms ! nat first) = ''user'' \<and>
       count_user_turns (drop (nat first) ms) = turns" "0 < preserve"
  shows "0 \<le> first' \<and> nat first' < length ms \<and> cm_role (ms ! nat first') = ''user'' \<and>
    count_user_turns (drop (nat first') ms) = preserve"
  using assms
proof (induction k arbitrary: turns first)
  case 0
  then show ?case by simp
next
  case (Suc k)
  have k: "k < length ms" using Suc.prems(3) by simp
  have rows: "rev (enumerate 0 (take (Suc k) ms)) = (k, ms ! k) # rev (enumerate 0 (take k ms))"
    using k by (simp add: take_Suc_conv_app_nth enumerate_append_eq)
  have drop: "drop k ms = ms ! k # drop (Suc k) ms" using k by (rule Cons_nth_drop_Suc [symmetric])
  note scan = Suc.prems(1) [unfolded rows scan_turns.simps]
  show ?case
  proof (cases "cm_role (ms ! k) = ''user''")
    case False
    then show ?thesis
      using Suc.IH [of turns first] scan Suc.prems(2-7) k by (simp add: drop turns_Cons)
  next
    case user: True
    show ?thesis
    proof (cases "turns + 1 \<le> preserve")
      case True
      then show ?thesis
        using Suc.IH [of "turns + 1" "int k"] scan user Suc.prems(2,4,7) k by (simp add: drop turns_Cons)
    next
      case False
      then have "turns = preserve" "first' = first" using scan user Suc.prems(5) by auto
      then show ?thesis using Suc.prems(6,7) by auto
    qed
  qed
qed

lemma split_turns:
  assumes "split_messages_by_preserved_turns ms preserve = (covered, retained)" "covered \<noteq> []" "0 < preserve"
  shows "\<exists>n. 0 < n \<and> n < length ms \<and> covered = take n ms \<and> retained = drop n ms \<and> cm_role (ms ! n) = ''user'' \<and>
    count_user_turns retained = preserve"
proof -
  obtain turns first where scan: "scan_turns preserve (rev (enumerate 0 (take (length ms) ms))) 0 (- 1) = (turns, first)"
    by (cases "scan_turns preserve (rev (enumerate 0 ms)) 0 (- 1)") auto
  have parts: "preserve < turns" "0 < first" "covered = take (nat first) ms" "retained = drop (nat first) ms"
    using assms scan by (auto simp: split_messages_by_preserved_turns_def split: if_splits)
  then show ?thesis
    using scan_turns_count [OF scan parts(1)] assms(3)
    by (intro exI [of _ "nat first"]) (auto simp: count_user_turns_def)
qed

section \<open>A snapshot that can be used\<close>

lemma boundary_index_Some:
  "boundary_index sha256 ms (Some s) = Some index \<longleftrightarrow> snapshot_has_coverage (Some s) \<and>
     first_index (\<lambda>m. cm_id m = cs_covered_until_id s) ms = Some index \<and> same_public_id (ms ! index) s"
  by (cases ms) (auto simp: boundary_index_is_ancestor_index snapshot_boundary_ancestor_index_def split: option.splits)

lemma trim_first [simp]: "trim_space (CHR ''#'' # t) \<noteq> []" "trim_space (CHR ''c'' # t) \<noteq> []"
  by (rule trim_space_not_blank, simp add: space_encodings_def)+

lemma join_Cons: "\<exists>t. join sep (x # xs) = x @ t"
  by (cases xs) auto

lemma template_not_blank: "trim_space (build_template_compact_summary cfg inp) \<noteq> []"
proof -
  obtain xs where "build_template_compact_summary cfg inp = join [CHR 0x0A] (''## Conversation Context Summary'' # xs)"
    unfolding build_template_compact_summary_def Let_def append_Cons by blast
  then show ?thesis using join_Cons [of "[CHR 0x0A]" "''## Conversation Context Summary''" xs] by auto
qed

lemma llm_not_blank: "llm_summary env cfg inp summarizer = Some t \<Longrightarrow> trim_space t \<noteq> []"
  by (auto simp: llm_summary_def Let_def split: option.splits if_splits)

lemma summary_not_blank: "trim_space (fst (build_compaction_summary env cfg inp t1 t2 circuit)) \<noteq> []"
proof (cases "sm_messages inp = [] \<and> trim_space (sm_previous_summary inp) = []")
  case True
  then show ?thesis unfolding build_compaction_summary_def if_P [OF True] by simp
next
  case False
  then show ?thesis
    unfolding build_compaction_summary_def if_not_P [OF False] Let_def
    by (simp add: template_not_blank llm_not_blank split: option.splits prod.splits)
qed

lemma extend_not_empty:
  assumes "\<And>bytes. sha256 bytes \<noteq> []" "ms \<noteq> []"
  shows "trim_space (extend_coverage_path_hash sha256 h ms) \<noteq> []"
proof -
  have "hex_encode bytes \<noteq> []" if "bytes \<noteq> []" for bytes using that by (cases bytes) (auto simp: hex_encode_def)
  then show ?thesis using assms by (cases ms rule: rev_cases) (simp_all add: extend_coverage_path_hash_def)
qed

lemma plan_coverage:
  assumes "compaction_plan_of env ms covered existing = Some plan" "covered \<noteq> []" "covered = take n ms" "n \<le> length ms"
    "\<And>bytes. ce_sha256 env bytes \<noteq> []"
  shows "0 < cp_covered_count plan" "trim_space (cp_path_hash plan) \<noteq> []"
proof -
  have "0 < cp_covered_count plan \<and> trim_space (cp_path_hash plan) \<noteq> []"
  proof (cases "\<exists>s index. existing = Some s \<and> boundary_index (ce_sha256 env) ms existing = Some index")
    case True
    then obtain s index where s: "existing = Some s" "boundary_index (ce_sha256 env) ms (Some s) = Some index" by blast
    have "0 < cs_covered_count s" using s(2) by (auto simp: boundary_index_Some snapshot_has_coverage_def)
    moreover have "drop (index + 1) (take (length covered) ms) \<noteq> []" if "\<not> length covered - 1 \<le> index"
      using that assms(3,4) by simp
    ultimately show ?thesis
      using assms(1,5) s extend_not_empty [of "ce_sha256 env"]
      by (auto simp: compaction_plan_of_def Let_def split: if_splits)
  next
    case False
    then show ?thesis
      using assms(1,2,5) extend_not_empty [of "ce_sha256 env" covered "[]"]
      by (cases existing) (auto simp: compaction_plan_of_def coverage_path_hash_def split: option.splits)
  qed
  then show "0 < cp_covered_count plan" "trim_space (cp_path_hash plan) \<noteq> []" by auto
qed

lemma latest_created:
  assumes "create_context_snapshot s db = (row, db')" "cs_conversation_id s = c"
  shows "get_latest_context_snapshot (update_conversation_compacted_at c at db') c = Some row"
  using assms
  by (auto simp: create_context_snapshot_def create_row_def get_latest_context_snapshot_def
      update_conversation_compacted_at_def)

lemma compact_stores:
  assumes "maybe_compact_conversation env cfg inp clocks circuit db = (Some s, circuit', db')"
  shows "db' = update_conversation_compacted_at (ci_conversation_id inp) (ck_compacted clocks)
    (db\<lparr>cd_snapshots := (cd_snapshots db)\<lparr>table_rows := table_rows (cd_snapshots db) @ [s],
      table_next := table_next (cd_snapshots db) + 1\<rparr>\<rparr>)"
  using assms
  by (auto simp: maybe_compact_conversation_def create_context_snapshot_def create_row_def Let_def
      split: if_splits option.splits prod.splits)

section \<open>The next prompt\<close>

text \<open>What a compaction that stores a snapshot has decided, and what it stores.\<close>

lemma compact_decided:
  assumes "maybe_compact_conversation env cfg inp clocks circuit db = (Some s, circuit', db')"
  obtains decision plan summary db'' where
    "resolve_compaction_decision env cfg
       (inp\<lparr>ci_existing_snapshot := get_latest_context_snapshot db (ci_conversation_id inp)\<rparr>) = Some decision"
    "compaction_plan_of env (ci_messages inp) (dc_covered_messages decision)
       (get_latest_context_snapshot db (ci_conversation_id inp)) = Some plan"
    "trim_space summary \<noteq> []"
    "create_context_snapshot (snapshot_of_plan
       (inp\<lparr>ci_existing_snapshot := get_latest_context_snapshot db (ci_conversation_id inp)\<rparr>) decision plan summary) db = (s, db'')"
    "db' = update_conversation_compacted_at (ci_conversation_id inp) (ck_compacted clocks) db''"
proof -
  let ?inp = "inp\<lparr>ci_existing_snapshot := get_latest_context_snapshot db (ci_conversation_id inp)\<rparr>"
  obtain decision where decision: "resolve_compaction_decision env cfg ?inp = Some decision"
    using assms by (auto simp: maybe_compact_conversation_def Let_def split: if_splits option.splits)
  obtain plan where plan: "compaction_plan_of env (ci_messages inp) (dc_covered_messages decision)
      (get_latest_context_snapshot db (ci_conversation_id inp)) = Some plan"
    using assms decision by (auto simp: maybe_compact_conversation_def Let_def split: if_splits option.splits)
  define summary where "summary = fst (build_compaction_summary env cfg
    \<lparr>sm_messages = cp_source_messages plan, sm_previous_summary = cp_previous_summary plan,
     sm_strategy = dc_strategy decision, sm_from_turn = 1, sm_to_turn = cp_to_turn plan,
     sm_preserve_turns = dc_preserve_turns decision, sm_platform_model_name = ci_platform_model_name inp\<rparr>
    (ck_circuit clocks) (ck_failed clocks) circuit)"
  obtain db'' where "create_context_snapshot (snapshot_of_plan ?inp decision plan summary) db = (s, db'')"
      "db' = update_conversation_compacted_at (ci_conversation_id inp) (ck_compacted clocks) db''"
    using assms decision plan
    by (auto simp: maybe_compact_conversation_def Let_def summary_def split: if_splits prod.splits)
  then show thesis using that decision plan summary_not_blank unfolding summary_def by blast
qed

text \<open>
  C11. When a compaction stores a summary, it splits the branch before a message of a user: the messages before it are those the
  summary stands for, at least one, and those from it on have exactly the turns that are to be preserved. The snapshot
  is the latest of the conversation, and a prompt built from the same branch takes it: the summary in place of
  the covered messages, and every later message as it is.
\<close>

theorem summary_replaces_a_prefix:
  assumes "maybe_compact_conversation env cfg inp clocks circuit db = (Some s, circuit', db')"
    and "distinct (map cm_id (ci_messages inp))"
    and "\<forall>m \<in> set (ci_messages inp). 0 < cm_id m \<and> trim_space (cm_public_id m) \<noteq> []"
    and "\<forall>bytes. ce_sha256 env bytes \<noteq> []"
  shows "\<exists>n. 0 < n \<and> n < length (ci_messages inp) \<and> cm_role (ci_messages inp ! n) = ''user'' \<and>
    count_user_turns (drop n (ci_messages inp)) = turns_to_preserve cfg (count_user_turns (fst (messages_after_snapshot env
      (ci_messages inp) (get_latest_context_snapshot db (ci_conversation_id inp))))) \<and>
    get_latest_context_snapshot db' (ci_conversation_id inp) = Some s \<and>
    build_prompt_scope (ce_sha256 env) (ci_messages inp) (Some s) True =
      \<lparr>ps_full_branch_messages = ci_messages inp, ps_covered_messages = take n (ci_messages inp),
       ps_retained_messages = drop n (ci_messages inp), ps_snapshot = Some s,
       ps_covered_until_id = cm_id (ci_messages inp ! (n - 1))\<rparr>"
proof -
  let ?ms = "ci_messages inp" and ?c = "ci_conversation_id inp"
  let ?inp = "inp\<lparr>ci_existing_snapshot := get_latest_context_snapshot db ?c\<rparr>"
  obtain decision plan summary db'' where decision: "resolve_compaction_decision env cfg ?inp = Some decision"
    and plan: "compaction_plan_of env ?ms (dc_covered_messages decision) (get_latest_context_snapshot db ?c) = Some plan"
    and summary: "trim_space summary \<noteq> []"
    and stored: "create_context_snapshot (snapshot_of_plan ?inp decision plan summary) db = (s, db'')"
      "db' = update_conversation_compacted_at ?c (ck_compacted clocks) db''"
    using compact_decided [OF assms(1)] .
  define turns where "turns = turns_to_preserve cfg (count_user_turns (fst (messages_after_snapshot env ?ms
    (get_latest_context_snapshot db ?c))))"
  have covered: "0 < turns" "dc_covered_messages decision \<noteq> []"
      "split_messages_by_preserved_turns ?ms turns = (dc_covered_messages decision, snd (split_messages_by_preserved_turns ?ms turns))"
    using decision
    by (auto simp: resolve_compaction_decision_def Let_def turns_def split: if_splits option.splits prod.splits)
  obtain n where n: "0 < n" "n < length ?ms" "dc_covered_messages decision = take n ?ms" "cm_role (?ms ! n) = ''user''"
      "count_user_turns (drop n ?ms) = turns"
    using split_turns [OF covered(3,2,1)] by auto
  have "take n ?ms \<noteq> []" using n(1,2) by auto
  then have last: "last (take n ?ms) = ?ms ! (n - 1)" using n(1,2) by (simp add: last_conv_nth)
  have s: "cs_covered_until_id s = cm_id (?ms ! (n - 1))" "cs_covered_until_public_id s = cm_public_id (?ms ! (n - 1))"
      "cs_covered_count s = cp_covered_count plan" "cs_coverage_path_hash s = cp_path_hash plan" "cs_summary_text s = summary"
    using stored(1) last n(3)
    by (auto simp: create_context_snapshot_def create_row_def snapshot_of_plan_def Let_def)
  have boundary: "?ms ! (n - 1) \<in> set ?ms" using n(2) by simp
  have "snapshot_has_coverage (Some s)"
    using s plan_coverage [OF plan covered(2) n(3)] n(2) assms(3,4) boundary
    by (simp add: snapshot_has_coverage_def summary)
  moreover have "first_index (\<lambda>m. cm_id m = cs_covered_until_id s) ?ms = Some (n - 1)"
    using n(2) assms(2) by (auto simp: first_index_Some s(1) distinct_conv_nth)
  ultimately have "boundary_index (ce_sha256 env) ?ms (Some s) = Some (n - 1)"
    by (simp add: boundary_index_Some same_public_id_def s(2))
  then have "build_prompt_scope (ce_sha256 env) ?ms (Some s) True =
      \<lparr>ps_full_branch_messages = ?ms, ps_covered_messages = take n ?ms, ps_retained_messages = drop n ?ms,
       ps_snapshot = Some s, ps_covered_until_id = cm_id (?ms ! (n - 1))\<rparr>"
    using n(1,2) s(1) by (simp add: build_prompt_scope_def Let_def)
  moreover have "get_latest_context_snapshot db' ?c = Some s"
    using latest_created [OF stored(1), of ?c] stored(2) by (simp add: snapshot_of_plan_def Let_def)
  ultimately show ?thesis using n unfolding turns_def by blast
qed

text \<open>
  Of the path hash and the count of a snapshot only their presence matters: a snapshot with any other hash that is not blank
  and any other positive count is accepted at the same message, whatever function the hash is made with, and
  a prompt keeps and leaves out the same messages. Every caller that finds the strict check failed goes on with
  the check of the boundary message alone.
\<close>

lemma boundary_without_hash:
  assumes "trim_space h \<noteq> []" "0 < n" "snapshot_has_coverage (Some s)"
  shows "boundary_index other messages (Some (s\<lparr>cs_coverage_path_hash := h, cs_covered_count := n\<rparr>)) =
    boundary_index sha256 messages (Some s)"
  using assms
  by (simp add: boundary_index_is_ancestor_index snapshot_boundary_ancestor_index_def snapshot_has_coverage_def
      same_public_id_def split: option.splits)

lemma path_hash_never_decides:
  assumes "trim_space h \<noteq> []" "0 < n" "snapshot_has_coverage (Some s)"
  shows "ps_retained_messages (build_prompt_scope other messages
      (Some (s\<lparr>cs_coverage_path_hash := h, cs_covered_count := n\<rparr>)) enabled) =
    ps_retained_messages (build_prompt_scope sha256 messages (Some s) enabled)"
  unfolding build_prompt_scope_def Let_def boundary_without_hash [OF assms, of other messages sha256]
  by (simp split: option.split)

end
