(* ===== verification/Snapshot_Cache.thy ===== *)
theory Snapshot_Cache
  imports Message_Db
begin

text \<open>
  The cache of the latest snapshots (getCachedSnapshot, invalidateSnapshotCache and the sweep of
  application/conversation/service_cache.go). A snapshot that was found is kept for two minutes. The repository
  answers a conversation without a snapshot with ErrNotFound, so a conversation that has none, like a read that fails,
  leaves no entry. A request that misses reads the database and stores what it found later, by a second
  reading of the clock; other calls may run in between.
\<close>

section \<open>Operations\<close>

record cached_snapshot =
  sc_snapshot :: context_snapshot
  sc_expires_at :: time

type_synonym snapshot_cache = "nat \<Rightarrow> cached_snapshot option"

definition snapshot_cache_ttl :: duration where
  "snapshot_cache_ttl = 2 * minute"

text \<open>The two halves of getCachedSnapshot: before the read of the database, and after it.\<close>

definition lookup_cached_snapshot ::
  "nat \<Rightarrow> time \<Rightarrow> snapshot_cache \<Rightarrow> context_snapshot option \<times> snapshot_cache" where
  "lookup_cached_snapshot conversation_id now cache =
     (case cache conversation_id of
        None \<Rightarrow> (None, cache)
      | Some entry \<Rightarrow>
          if now < sc_expires_at entry then (Some (sc_snapshot entry), cache)
          else (None, cache(conversation_id := None)))"

definition store_cached_snapshot :: "nat \<Rightarrow> context_snapshot option \<Rightarrow> time \<Rightarrow> snapshot_cache \<Rightarrow> snapshot_cache" where
  "store_cached_snapshot conversation_id loaded now cache =
     (case loaded of
        None \<Rightarrow> cache
      | Some s \<Rightarrow> cache(conversation_id := Some \<lparr>sc_snapshot = s, sc_expires_at = now + snapshot_cache_ttl\<rparr>))"

text \<open>
  The whole call: \<open>loaded\<close> is what the database answers, \<open>None\<close> for an error, ErrNotFound included. The
  caller drops the error (service_message_send.go), so the answer \<open>None\<close> is a request without a snapshot.
\<close>

definition get_cached_snapshot ::
  "nat \<Rightarrow> time \<Rightarrow> context_snapshot option \<Rightarrow> time \<Rightarrow> snapshot_cache \<Rightarrow> context_snapshot option \<times> snapshot_cache" where
  "get_cached_snapshot conversation_id now loaded now_stored cache =
     (case lookup_cached_snapshot conversation_id now cache of
        (Some s, cache) \<Rightarrow> (Some s, cache)
      | (None, cache) \<Rightarrow> (loaded, store_cached_snapshot conversation_id loaded now_stored cache))"

definition invalidate_snapshot_cache :: "nat \<Rightarrow> snapshot_cache \<Rightarrow> snapshot_cache" where
  "invalidate_snapshot_cache conversation_id cache = cache(conversation_id := None)"

definition cleanup_expired_snapshots :: "time \<Rightarrow> snapshot_cache \<Rightarrow> snapshot_cache" where
  "cleanup_expired_snapshots now cache =
     (\<lambda>c. case cache c of None \<Rightarrow> None | Some entry \<Rightarrow> if \<not> now < sc_expires_at entry then None else Some entry)"

section \<open>Staleness\<close>

text \<open>
  The calls of a run, with the times the clock showed: the database is replaced by any other one, a request looks into
  the cache and on a miss reads the database, a request that has read stores what it found, a compaction drops an
  entry, the worker sweeps. The state has the database, the cache and what the requests between their two halves
  have read; \<open>StoreSnapshot k\<close> is the second half of the k-th of them, and a request whose read fails never has one.
\<close>

datatype snapshot_call =
    ChangeChat chat_db
  | LookSnapshot nat time
  | StoreSnapshot nat time
  | DropSnapshot nat
  | SweepSnapshots time

record snapshot_state =
  ss_db :: chat_db
  ss_cache :: snapshot_cache
  ss_reading :: "(nat \<times> context_snapshot option) list"

fun snapshot_step :: "snapshot_call \<Rightarrow> snapshot_state \<Rightarrow> snapshot_state" where
  "snapshot_step (ChangeChat db) st = st\<lparr>ss_db := db\<rparr>"
| "snapshot_step (LookSnapshot c now) st =
     (case lookup_cached_snapshot c now (ss_cache st) of
        (Some _, cache) \<Rightarrow> st\<lparr>ss_cache := cache\<rparr>
      | (None, cache) \<Rightarrow>
          st\<lparr>ss_cache := cache, ss_reading := ss_reading st @ [(c, get_latest_context_snapshot (ss_db st) c)]\<rparr>)"
| "snapshot_step (StoreSnapshot k now) st =
     (if k < length (ss_reading st)
      then st\<lparr>ss_cache := store_cached_snapshot (fst (ss_reading st ! k)) (snd (ss_reading st ! k)) now (ss_cache st),
              ss_reading := take k (ss_reading st) @ drop (Suc k) (ss_reading st)\<rparr>
      else st)"
| "snapshot_step (DropSnapshot c) st = st\<lparr>ss_cache := invalidate_snapshot_cache c (ss_cache st)\<rparr>"
| "snapshot_step (SweepSnapshots now) st = st\<lparr>ss_cache := cleanup_expired_snapshots now (ss_cache st)\<rparr>"

definition snapshot_run :: "snapshot_call list \<Rightarrow> chat_db \<Rightarrow> snapshot_state" where
  "snapshot_run calls db = fold snapshot_step calls \<lparr>ss_db = db, ss_cache = (\<lambda>_. None), ss_reading = []\<rparr>"

text \<open>
  A snapshot was read in a run when it was the latest one of the conversation as a look into the cache missed, and
  it was stored at a time when a later call stored what a request had read.
\<close>

definition was_read :: "chat_db \<Rightarrow> snapshot_call list \<Rightarrow> nat \<Rightarrow> context_snapshot option \<Rightarrow> bool" where
  "was_read db calls c found \<longleftrightarrow>
     (\<exists>before now rest. calls = before @ LookSnapshot c now # rest \<and>
        fst (lookup_cached_snapshot c now (ss_cache (snapshot_run before db))) = None \<and>
        found = get_latest_context_snapshot (ss_db (snapshot_run before db)) c)"

definition was_stored :: "chat_db \<Rightarrow> snapshot_call list \<Rightarrow> nat \<Rightarrow> context_snapshot \<Rightarrow> time \<Rightarrow> bool" where
  "was_stored db calls c s t \<longleftrightarrow>
     (\<exists>before k rest. calls = before @ StoreSnapshot k t # rest \<and> was_read db before c (Some s))"

lemma snapshot_run_snoc: "snapshot_run (calls @ [call]) db = snapshot_step call (snapshot_run calls db)"
  by (simp add: snapshot_run_def)

lemma was_read_snoc: "was_read db calls c found \<Longrightarrow> was_read db (calls @ [call]) c found"
  unfolding was_read_def by (metis append.assoc append_Cons)

lemma was_stored_snoc: "was_stored db calls c s t \<Longrightarrow> was_stored db (calls @ [call]) c s t"
  unfolding was_stored_def by (metis append.assoc append_Cons)

definition traced_state :: "chat_db \<Rightarrow> snapshot_call list \<Rightarrow> snapshot_state \<Rightarrow> bool" where
  "traced_state db calls st \<longleftrightarrow>
     (\<forall>(c, found) \<in> set (ss_reading st). was_read db calls c found) \<and>
     (\<forall>c entry. ss_cache st c = Some entry \<longrightarrow>
        (\<exists>t. was_stored db calls c (sc_snapshot entry) t \<and> sc_expires_at entry = t + snapshot_cache_ttl))"

lemma traced_subset:
  assumes "traced_state db calls st"
    and "set (ss_reading st') \<subseteq> set (ss_reading st)"
    and "\<And>c entry. ss_cache st' c = Some entry \<Longrightarrow> ss_cache st c = Some entry"
  shows "traced_state db (calls @ [call]) st'"
  using assms unfolding traced_state_def by (fastforce intro: was_read_snoc was_stored_snoc)

lemma lookup_keeps: "snd (lookup_cached_snapshot c now cache) c' = Some entry \<Longrightarrow> cache c' = Some entry"
  by (auto simp: lookup_cached_snapshot_def split: option.splits if_splits)

lemma look_traced:
  assumes traced: "traced_state db calls (snapshot_run calls db)"
  shows "traced_state db (calls @ [LookSnapshot c now]) (snapshot_step (LookSnapshot c now) (snapshot_run calls db))"
proof -
  let ?st = "snapshot_run calls db"
  obtain hit cache where look: "lookup_cached_snapshot c now (ss_cache ?st) = (hit, cache)"
    by (cases "lookup_cached_snapshot c now (ss_cache ?st)") auto
  have kept: "traced_state db (calls @ [LookSnapshot c now]) (?st\<lparr>ss_cache := cache\<rparr>)"
    by (rule traced_subset [OF traced]) (use lookup_keeps [of c now "ss_cache ?st"] look in auto)
  show ?thesis
  proof (cases hit)
    case None
    then have "was_read db (calls @ [LookSnapshot c now]) c (get_latest_context_snapshot (ss_db ?st) c)"
      using look unfolding was_read_def by fastforce
    then show ?thesis using kept None look by (auto simp: traced_state_def)
  next
    case (Some s)
    then show ?thesis using kept look by simp
  qed
qed

lemma store_traced:
  assumes traced: "traced_state db calls st"
  shows "traced_state db (calls @ [StoreSnapshot k now]) (snapshot_step (StoreSnapshot k now) st)"
proof (cases "k < length (ss_reading st)")
  case True
  obtain c found where read: "ss_reading st ! k = (c, found)" by fastforce
  then have was: "was_read db calls c found"
    using traced True nth_mem [OF True] by (auto simp: traced_state_def)
  have rest: "traced_state db (calls @ [StoreSnapshot k now])
      (st\<lparr>ss_reading := take k (ss_reading st) @ drop (Suc k) (ss_reading st)\<rparr>)"
    by (rule traced_subset [OF traced]) (auto dest: in_set_takeD in_set_dropD)
  show ?thesis
  proof (cases found)
    case None
    then show ?thesis using rest True read by (simp add: store_cached_snapshot_def)
  next
    case (Some s)
    then have "was_stored db (calls @ [StoreSnapshot k now]) c s now"
      using was unfolding was_stored_def by blast
    then show ?thesis
      using rest True read Some by (auto simp: store_cached_snapshot_def traced_state_def)
  qed
next
  case False
  then show ?thesis using traced_subset [OF traced, of st] by simp
qed

lemma snapshot_run_traced: "traced_state db calls (snapshot_run calls db)"
proof (induction calls rule: rev_induct)
  case Nil
  then show ?case by (simp add: snapshot_run_def traced_state_def)
next
  case (snoc call calls)
  have kept: "traced_state db (calls @ [call]) st'"
    if "ss_reading st' = ss_reading (snapshot_run calls db)"
      "\<And>c entry. ss_cache st' c = Some entry \<Longrightarrow> ss_cache (snapshot_run calls db) c = Some entry" for st'
    by (rule traced_subset [OF snoc]) (use that in auto)
  show ?case
  proof (cases call)
    case (LookSnapshot c now)
    then show ?thesis using look_traced [OF snoc] by (simp only: snapshot_run_snoc)
  next
    case (StoreSnapshot k now)
    then show ?thesis using store_traced [OF snoc] by (simp only: snapshot_run_snoc)
  next
    case (ChangeChat db')
    show ?thesis unfolding snapshot_run_snoc by (rule kept) (use ChangeChat in auto)
  next
    case (DropSnapshot c)
    show ?thesis
      unfolding snapshot_run_snoc
      by (rule kept) (use DropSnapshot in \<open>auto simp: invalidate_snapshot_cache_def split: if_splits\<close>)
  next
    case (SweepSnapshots now)
    show ?thesis
      unfolding snapshot_run_snoc
      by (rule kept) (use SweepSnapshots in \<open>auto simp: cleanup_expired_snapshots_def split: option.splits if_splits\<close>)
  qed
qed


end
