(* ===== verification/Chat_Samples.thy ===== *)
theory Chat_Samples
  imports Summary_Props Snapshot_Cache
begin

text \<open>
  A conversation of three questions and answers, by the calls that make it, and the facts of it that the witnesses use.
\<close>

section \<open>The calls\<close>

definition sample_env :: compact_env where
  "sample_env = \<lparr>ce_sha256 = (\<lambda>_. ''h''), ce_parse_capabilities = (\<lambda>_. None), ce_summarizer = None,
     ce_prompt_full = (\<lambda>_ _. []), ce_prompt_lite = (\<lambda>_ _. [])\<rparr>"

definition sample_compact_config :: compact_config where
  "sample_compact_config = \<lparr>cc_context_compact_enabled = True, cc_context_max_turns = 2, cc_context_compact_preserve = 1,
     cc_context_compact_trigger_percent = 0, cc_context_window_fallback_tokens = 0,
     cc_context_compact_highlights_per_role = 0, cc_context_compact_snippet_chars = 0, cc_compact_llm_enabled = False,
     cc_compact_max_failures = 0, cc_compact_system_prompt = [], cc_compact_light_prompt = []\<rparr>"

definition sample_send :: "string \<Rightarrow> string \<Rightarrow> string \<Rightarrow> send_input" where
  "sample_send content user_public_id assistant_public_id =
     \<lparr>sd_conversation_id = 1, sd_user_id = 7, sd_run_id = ''r'', sd_content = content, sd_attachments = ''[]'',
      sd_files_active = True, sd_user_public_id = user_public_id, sd_assistant_public_id = assistant_public_id,
      sd_rejected = None\<rparr>"

definition sample_chat_calls :: "chat_call list" where
  "sample_chat_calls =
     [NewConversation 7 ''c'',
      ResolveBranch 1 7 [] [] [], SendOn 0 (sample_send ''one'' ''u1'' ''a1'') [],
      SetMessageState 1 ''success'' [] [], SetMessageState 2 ''success'' [] [],
      ResolveBranch 1 7 ''a1'' [] [], SendOn 1 (sample_send ''pin'' ''u2'' ''a2'') [],
      SetMessageState 3 ''success'' [] [], SetMessageState 4 ''success'' [] [],
      ResolveBranch 1 7 ''a2'' [] [], SendOn 2 (sample_send ''two'' ''u3'' ''a3'') [],
      SetMessageState 5 ''success'' [] [], SetMessageState 6 ''success'' [] []]"

definition sample_db :: chat_db where
  "sample_db = st_db (chat_run sample_env sample_compact_config sample_chat_calls empty_chat)"

lemma sample_wf: "well_formed_chat sample_db"
  using chat_run_ok [of sample_env sample_compact_config sample_chat_calls] by (simp add: state_ok_def sample_db_def)

text \<open>The tables that the calls make, and those with the third message taken out.\<close>

definition sample_chat_row :: "nat \<Rightarrow> string \<Rightarrow> nat option \<Rightarrow> string \<Rightarrow> string \<Rightarrow> bool \<Rightarrow> message" where
  "sample_chat_row i public_id parent role content deleted =
     \<lparr>cm_id = i, cm_conversation_id = 1, cm_user_id = 7, cm_public_id = public_id, cm_parent_id = parent,
      cm_run_id = ''r'', cm_role = role, cm_content = content, cm_reasoning_content = [],
      cm_branch_reason = ''default'', cm_source_id = None, cm_token_usage = (if content = [] then 0 else 1),
      cm_status = ''success'', cm_error_code = [], cm_error_message = [], cm_attachments = ''[]'', cm_deleted = deleted\<rparr>"

definition sample_tables :: "bool \<Rightarrow> time option \<Rightarrow> context_snapshot table \<Rightarrow> chat_db" where
  "sample_tables pin_deleted compacted snapshots =
     \<lparr>cd_conversations = \<lparr>table_rows = [\<lparr>cv_id = 1, cv_user_id = 7, cv_public_id = ''c'',
        cv_message_count = (if pin_deleted then 5 else 6), cv_last_compacted_at = compacted\<rparr>], table_next = 2\<rparr>,
      cd_messages = \<lparr>table_rows =
        [sample_chat_row 1 ''u1'' None ''user'' ''one'' False, sample_chat_row 2 ''a1'' (Some 1) ''assistant'' [] False,
         sample_chat_row 3 ''u2'' (Some 2) ''user'' ''pin'' pin_deleted,
         sample_chat_row 4 ''a2'' (Some (if pin_deleted then 2 else 3)) ''assistant'' [] False,
         sample_chat_row 5 ''u3'' (Some 4) ''user'' ''two'' False, sample_chat_row 6 ''a3'' (Some 5) ''assistant'' [] False],
        table_next = 7\<rparr>,
      cd_snapshots = snapshots\<rparr>"

lemma sample_db_tables: "sample_db = sample_tables False None empty_table"
  by code_simp

lemma sample_path: "map cm_id (whole_path sample_db 1 6) = [1, 2, 3, 4, 5, 6]"
  by code_simp


text \<open>The branch as it is loaded for the next message, and a compaction of it.\<close>

definition sample_branch :: "message list" where
  "sample_branch = whole_path sample_db 1 6"

definition sample_compact_input :: "message list \<Rightarrow> compact_input" where
  "sample_compact_input messages =
     \<lparr>ci_conversation_id = 1, ci_user_id = 7, ci_run_id = ''r'', ci_messages = messages, ci_existing_snapshot = None,
      ci_prompt_token_estimate = 0, ci_platform_model_name = [], ci_context_model_name = [], ci_capabilities_json = [],
      ci_force = False\<rparr>"

definition sample_clocks :: compact_clocks where
  "sample_clocks = \<lparr>ck_circuit = 0, ck_failed = 0, ck_compacted = 0\<rparr>"

definition compact_sample :: "message list \<Rightarrow> chat_db \<Rightarrow> context_snapshot option \<times> compact_circuit \<times> chat_db" where
  "compact_sample messages db =
     maybe_compact_conversation sample_env sample_compact_config (sample_compact_input messages) sample_clocks
       (st_circuit empty_chat) db"

text \<open>What the compaction of the branch makes, whether or not the message is still there.\<close>

lemma branch_rows: "sample_branch = table_rows (cd_messages (sample_tables False None empty_table))"
  unfolding sample_branch_def sample_db_tables by code_simp
definition sample_text :: string where
  "sample_text = join [CHR 0x0A]
     [''## Conversation Context Summary'',
      ''Compaction strategy: turn_cap | Turns compressed: 1'' @ [CHR 0xE2, CHR 0x80, CHR 0x93] @
        ''2 | Recent 1 turns preserved in full.'', [], ''**User intents & requests:**'', ''- one'', ''- pin'', []]"

definition sample_snapshot :: context_snapshot where
  "sample_snapshot =
     \<lparr>cs_id = 1, cs_conversation_id = 1, cs_message_id = 6, cs_user_id = 7, cs_run_id = ''r'', cs_from_turn = 1,
      cs_to_turn = 2, cs_covered_until_id = 4, cs_covered_until_public_id = ''a2'', cs_coverage_path_hash = ''68'',
      cs_covered_count = 4, cs_source_tokens = 12, cs_summary_tokens = 41, cs_summary_text = sample_text,
      cs_strategy = ''turn_cap''\<rparr>"


lemma compact_made: "fst (compact_sample sample_branch (sample_tables d None empty_table)) = Some sample_snapshot"
  unfolding branch_rows by code_simp

lemma compact_tables: "snd (snd (compact_sample sample_branch (sample_tables d None empty_table))) =
   sample_tables d (Some 0) \<lparr>table_rows = [sample_snapshot], table_next = 2\<rparr>"
proof -
  obtain circuit db' where made: "compact_sample sample_branch (sample_tables d None empty_table) = (Some sample_snapshot, circuit, db')"
    using compact_made [of d] by (cases "compact_sample sample_branch (sample_tables d None empty_table)") auto
  show ?thesis
    unfolding made using compact_stores [OF made [unfolded compact_sample_def]]
    by (simp add: sample_tables_def sample_compact_input_def sample_clocks_def empty_table_def update_conversation_compacted_at_def
        update_rows_def)
qed

section \<open>Witnesses\<close>

lemma sample_delete: "fst (delete_message_and_reparent_children 7 1 3 sample_db) = Inr 1"
  unfolding sample_db_tables by code_simp

lemma deletion_splices_branches_witness:
  "map cm_id (whole_path (snd (delete_message_and_reparent_children 7 1 3 sample_db)) 1 6) = [1, 2, 4, 5, 6]"
proof -
  have deleted: "delete_message_and_reparent_children 7 1 3 sample_db =
      (Inr 1, snd (delete_message_and_reparent_children 7 1 3 sample_db))"
    using sample_delete by (simp add: prod_eq_iff)
  have "get_message_by_id sample_db 1 6 \<noteq> None" unfolding sample_db_tables by code_simp
  then show ?thesis
    using deletion_splices_branches [OF sample_wf deleted] sample_path by simp
qed

lemma sample_last: "\<exists>m. get_message_by_id sample_db 1 6 = Some m"
proof -
  have "get_message_by_id sample_db 1 6 \<noteq> None" unfolding sample_db_tables by code_simp
  then show ?thesis by blast
qed

lemma model_context_is_usable_history_witness:
  "map cm_id (build_model_context_messages
     ((branch_of None None)\<lparr>br_existing_messages := whole_path sample_db 1 6,
        br_reuse_user_message := get_message_by_id sample_db 1 6\<rparr>)
     (the (get_message_by_id sample_db 1 6)) ''default'') = [1, 2, 3, 4, 5, 6]"
proof -
  obtain m where m: "get_message_by_id sample_db 1 6 = Some m" using sample_last by blast
  have "history_from_boundary None (whole_path sample_db 1 6) = whole_path sample_db 1 6"
    unfolding sample_db_tables by code_simp
  moreover have "map cm_id (usable_messages ''default'' 6 (recover_assistant_retry_user_states (whole_path sample_db 1 6))) =
      [1, 2, 3, 4, 5, 6]"
    unfolding sample_db_tables by code_simp
  ultimately show ?thesis
    using model_context_is_usable_history [OF sample_wf m, of None "branch_of None None" "''default''"] m
    by (simp add: Let_def)
qed

lemma summary_replaces_a_prefix_witness:
  "\<exists>n. 0 < n \<and> count_user_turns (drop n sample_branch) = 1 \<and>
     ps_covered_messages (build_prompt_scope (ce_sha256 sample_env) sample_branch
       (fst (compact_sample sample_branch sample_db)) True) = take n sample_branch"
proof -
  obtain s circuit db where made: "compact_sample sample_branch sample_db = (Some s, circuit, db)"
    using compact_made [of False] sample_db_tables by (cases "compact_sample sample_branch sample_db") auto
  have messages: "distinct (map cm_id (ci_messages (sample_compact_input sample_branch)))"
      "\<forall>m \<in> set (ci_messages (sample_compact_input sample_branch)). 0 < cm_id m \<and> trim_space (cm_public_id m) \<noteq> []"
    unfolding branch_rows by code_simp+
  have "\<forall>bytes. ce_sha256 sample_env bytes \<noteq> []" by (simp add: sample_env_def)
  from summary_replaces_a_prefix [OF made [unfolded compact_sample_def] messages this]
  obtain n where n: "0 < n" "count_user_turns (drop n sample_branch) = turns_to_preserve sample_compact_config
      (count_user_turns (fst (messages_after_snapshot sample_env sample_branch (get_latest_context_snapshot sample_db 1))))"
    "ps_covered_messages (build_prompt_scope (ce_sha256 sample_env) sample_branch (Some s) True) = take n sample_branch"
    by (auto simp: sample_compact_input_def)
  have "turns_to_preserve sample_compact_config (count_user_turns (fst (messages_after_snapshot sample_env sample_branch
      (get_latest_context_snapshot sample_db 1)))) = 1"
    unfolding branch_rows sample_db_tables by code_simp
  then show ?thesis using n made by auto
qed

section \<open>A deleted message in the summary\<close>

fun contains_text :: "string \<Rightarrow> string \<Rightarrow> bool" where
  "contains_text word [] \<longleftrightarrow> word = []"
| "contains_text word (c # s) \<longleftrightarrow> take (length word) (c # s) = word \<or> contains_text word s"

definition mentions :: "string \<Rightarrow> context_snapshot option \<Rightarrow> bool" where
  "mentions word s = (case s of None \<Rightarrow> False | Some s \<Rightarrow> contains_text word (cs_summary_text s))"

definition prompt_with :: "context_snapshot option \<Rightarrow> chat_db \<Rightarrow> prompt_scope" where
  "prompt_with snapshot db = build_prompt_scope (ce_sha256 sample_env) (whole_path db 1 6) snapshot True"

definition latest_prompt :: "chat_db \<Rightarrow> prompt_scope" where
  "latest_prompt db = prompt_with (get_latest_context_snapshot db 1) db"

definition delete_pin :: "chat_db \<Rightarrow> chat_db" where
  "delete_pin db = snd (delete_message 7 ''c'' ''u2'' db)"

lemma delete_tables: "delete_pin sample_db = sample_tables True None empty_table"
  unfolding sample_db_tables by code_simp
text \<open>The branch is loaded, the message is deleted, the compaction runs.\<close>

definition late_db :: chat_db where
  "late_db = snd (snd (compact_sample sample_branch (delete_pin sample_db)))"

lemma late_tables: "late_db = sample_tables True (Some 0) \<lparr>table_rows = [sample_snapshot], table_next = 2\<rparr>"
  unfolding late_db_def delete_tables by (rule compact_tables)

text \<open>
  A compaction that starts after the answer, with the branch as it was loaded before it, may come after the deletion of a
  message of that branch: then the summary has the deleted text, and as the boundary message is still on the branch,
  the next prompt takes it. Deleting drops only the snapshots that are there. In the conversation above the
  message is \<open>pin\<close>, the third of six.
\<close>

lemma late_summary_keeps_deleted_text:
  "get_message_by_id (delete_pin sample_db) 1 3 = None \<and> map cm_id (whole_path late_db 1 6) = [1, 2, 4, 5, 6] \<and>
   mentions ''pin'' (ps_snapshot (latest_prompt late_db)) \<and>
   map cm_id (ps_retained_messages (latest_prompt late_db)) = [5, 6]"
proof (intro conjI)
  show "get_message_by_id (delete_pin sample_db) 1 3 = None" unfolding delete_tables by code_simp
  show "map cm_id (whole_path late_db 1 6) = [1, 2, 4, 5, 6]" unfolding late_tables by code_simp
  show "mentions ''pin'' (ps_snapshot (latest_prompt late_db))" unfolding late_tables by code_simp
  show "map cm_id (ps_retained_messages (latest_prompt late_db)) = [5, 6]" unfolding late_tables by code_simp
qed

text \<open>The compaction runs, a request reads the snapshot, the message is deleted, another request follows.\<close>

definition compacted_db :: chat_db where
  "compacted_db = snd (snd (compact_sample sample_branch sample_db))"

lemma compacted_tables: "compacted_db = sample_tables False (Some 0) \<lparr>table_rows = [sample_snapshot], table_next = 2\<rparr>"
  unfolding compacted_db_def sample_db_tables by (rule compact_tables)

lemma compacted_delete: "delete_pin compacted_db = sample_tables True (Some 0) \<lparr>table_rows = [], table_next = 2\<rparr>"
  unfolding compacted_tables by code_simp

definition sample_reads :: "snapshot_call list" where
  "sample_reads = [LookSnapshot 1 0, StoreSnapshot 0 0, ChangeChat (delete_pin compacted_db)]"

definition read_cache :: snapshot_cache where
  "read_cache = ss_cache (snapshot_run sample_reads compacted_db)"

lemma compacted_latest: "get_latest_context_snapshot compacted_db 1 = Some sample_snapshot"
  unfolding compacted_tables by code_simp

lemma deleted_latest: "get_latest_context_snapshot (delete_pin compacted_db) 1 = None"
  unfolding compacted_delete by code_simp

lemma read_db: "ss_db (snapshot_run sample_reads compacted_db) = delete_pin compacted_db"
  by (simp add: sample_reads_def snapshot_run_def lookup_cached_snapshot_def)

lemma read_cached: "get_cached_snapshot 1 minute None minute read_cache = (Some sample_snapshot, read_cache)"
  by (simp add: read_cache_def sample_reads_def snapshot_run_def compacted_latest [simplified] get_cached_snapshot_def
      lookup_cached_snapshot_def store_cached_snapshot_def snapshot_cache_ttl_def minute_def second_def)


definition cached_prompt :: prompt_scope where
  "cached_prompt = prompt_with (fst (get_cached_snapshot 1 minute None minute read_cache)) (delete_pin compacted_db)"

lemma cached_prompt_sends: "cached_prompt = prompt_with (Some sample_snapshot) (delete_pin compacted_db)"
  by (simp add: cached_prompt_def read_cached [simplified])

text \<open>
  A deletion drops the snapshot from the table and not from the cache: a request within two minutes of the last read still
  sends the summary with the deleted text, although the database has none.
\<close>

lemma cached_summary_survives_deletion:
  "get_latest_context_snapshot (delete_pin compacted_db) 1 = None \<and>
   mentions ''pin'' (ps_snapshot cached_prompt) \<and> map cm_id (ps_retained_messages cached_prompt) = [5, 6]"
proof (intro conjI)
  show "get_latest_context_snapshot (delete_pin compacted_db) 1 = None" by (rule deleted_latest)
  show "mentions ''pin'' (ps_snapshot cached_prompt)" unfolding cached_prompt_sends compacted_delete by code_simp
  show "map cm_id (ps_retained_messages cached_prompt) = [5, 6]"
    unfolding cached_prompt_sends compacted_delete by code_simp
qed

end
