(* ===== verification/Spec2Isabelle.thy ===== *)
theory Spec2Isabelle
  imports Circuit Backoff Http_Limit Setting_Coherence Stream_Reader Route_Protocol Route_Props Subscription_Props
    Reservation_Props Schedule_Props Entitlement_Props Authorization_Props Chat_Samples
begin

text \<open>
  A model of the core of the DEEIX-Chat backend (Go, src/backend/internal). The backend sits between
  its users and several model providers (upstreams). For a request it resolves a route (an upstream, a
  binding of the model on it and an API key), keeps two levels of circuit breakers and a backoff per
  route, limits the rate of its own clients, works off uploaded files through a queue and lets clients
  follow a generation through an event log. Each request is authorized against the budget of its user,
  priced from the tokens, calls or seconds it used, and charged to a balance or to the credit of a
  subscription period. What it sends of a conversation is the branch of the message, loaded from a tree of
  messages, with a rolling summary in place of its older part. The state of the first part lives behind the cache interfaces of
  repository/; the model takes their in-memory implementation (infra/cache/memory), one struct behind
  one mutex, as one record on which every method is one function.

  Conventions. A time is an int of nanoseconds; \<open>zero_time\<close> is the zero value of time.Time and
  lies in the past of every clock reading in use. Durations wrap at 64 bits (\<open>wrap64\<close>)
  where the source computes them. Strings are byte strings. A clock reading is an argument, one for
  each time.Now() of the source. A method under the mutex is one atomic step, so what goroutines do
  together is a list of calls in some order; the properties about histories quantify over all such
  lists. An error is a value of a sum, and an index out of range a value of its own.

  Theories, in the order of the imports:
    Prelude: 64-bit arithmetic, decimal text, the trimming and folding of Go strings on UTF-8 bytes,
      lists and maps.
    Cache_State: the record \<open>cache\<close> (cache.go), the expiry test, the sweep (maintenance.go).
    Circuit: breakers of an upstream and of a binding (memory/channel.go): states, probes, failures,
      manual opening and reset, status. The lemmas give the status of a breaker as a function of
      its opening and probe times, and the exact condition on which a failure opens it.
    Backoff: calculateBackoffSeconds as the bounded loop of the source, shown equal to a power of the
      multiplier capped at the maximum wherever the product does not overflow; the record of a
      backoff; the key counter.
    Limiter: the two windows of rate_limiter.go; the sliding one is compared with a limiter that
      keeps every request for ever.
    Http_Limit: transport/http/middleware/ratelimit.go on any limiter, then on the one of Limiter.
    Kv: settings, user settings, retrieval results, one-time login transactions and grants.
    Setting_Coherence: the versioned user-setting cache (conversation/service_cache.go) as a step
      relation whose steps are single backend calls, so that readers and writers interleave; the
      invariant is that a value of the current version is the committed one.
    File_Queue, Queue_Props: file_queue.go: two bounded queues with leases, reclaiming and dead
      letters, and the closing of wake-up channels; invariants over all histories of calls, and the
      refinement of a specification that keeps the unsettled messages of a queue in a bag.
    Gen_Stream, Stream_Props: memory/generation_stream.go: leases of a run, its event log, snapshots,
      readers that resume from a cursor.
    Stream_Reader: a client that watches a run (conversation/generation_stream.go): what it is sent of the
      retained events and checkpoints, and the loop that reads the store for it.
    Route_Protocol: model_catalog.go: from the kind of a model and the compatibility of an upstream to
      wire protocols; stored overrides; the task filter.
    Model_Vendor: the vendor of a model from its names (service_view_normalization.go).
    Route_Data, Routing: ResolveRoute (service_routing.go) over a record of functions, the cache
      backend, and a record of answers of the database. The locale \<open>route_cache\<close> of
      Route_Choice states what the router needs of a backend; its interpretation \<open>memory\<close> proves
      that the cache of Cache_State with the operations of Circuit and Backoff provides it.
    Route_Outcome: MarkRouteSuccess, MarkRouteFailure, the classification and the failover rule.
    Route_Props: the properties of the router, on the in-memory backend or on any.
    Timeline, Timeline_Props: the periods of a user's subscriptions (postgres/billing/repository.go):
      normalisation, the placement of a grant around the periods of its rank or above, the work list
      of what it displaces. The lemmas account for every entitlement at every instant.
    Tables: a table as the list of its rows with the next id, shared by both databases.
    Billing_Db: the billing tables (models/billing.go), transactions with rollback.
    Subscriptions, Subscription_Props: the grant of a subscription on the rows, and the proof that the
      rows implement the timeline.
    Ledger: the reservation of a budget before a call (repository_reservation.go): the sums over the
      tables, the request, raising, release, renewal, reconciliation.
    Settlement: the ledger of usage and its charge against the balance or the credit of a period
      (AddUsage and the two settlements of repository.go), the balance set by an administrator.
    Payments: orders and their callbacks, redemption codes.
    Balance_Props: what an operation does to the balance of each user and to the transactions.
    Billing_History: all these operations as one list of calls; the balance is the sum of what is posted.
    Billing_Safety: no order is credited twice, no code redeemed too often, what an expired order does.
    Settlement_Props: a settled reservation stays settled, so a request is charged once.
    Reservation_Props: what is reserved is covered, the overage of a period is exact when its requests are
      served one after the other, and the case in which reservations held at once change it.
    Schedule, Schedule_Props: the periods of the week in which a price is multiplied
      (application/billing/schedule_pricing.go): validation, storage, the period of an instant.
    Pricing: the arithmetic of prices (application/billing/service.go): multipliers of speed, service
      tier, group and schedule, cache writes, tiers, the amounts of a request at given rates.
    Price_Source: the record \<open>billing_service\<close> of what a bill reads of settings, model prices, groups and
      clock, and the functions that read it.
    Usage_Bill, Usage_Props: the services and tools of a request, BuildUsageLedger and
      EstimateUsageNanousd; when nothing may be billed, that the estimate of a request is what is billed
      for it, the rounding of a price, the form of a ledger row.
    Entitlement, Entitlement_Props: the subscription that counts for a user, the end of its
      entitlement across adjoining rows, the plan of the period, the merged views. The search for the
      end is compared with the least set of ends that the rows reach, the choice with the best rank.
    Authorization, Authorization_Props: AuthorizeUsage, EnsureUsageAuthorizationBudget, renewal, release
      and RecordUsageWithAuthorization over the transactions of Ledger and Settlement. The last theorems
      follow a request from its authorization to its charge across any operations in between.
    Message_Db: conversations, messages and context snapshots (postgres/conversation): the recursive queries,
      creating and editing messages, deleting one by moving its children to its parent.
    Message_Tree: the messages as a tree, the path of a message, and what creating and deleting do to both.
    Branching: the parent of a message, the pair that is created, the history loaded in pages and the
      messages of it that a model may see (service_branch.go, service_message_preparation.go).
    Model_Caps: context windows and the budgets that follow from them (domain/channel/model_caps.go).
    Snapshot_Scope, Compaction: token estimate, path hash and boundary of a snapshot, the split by turns, and
      MaybeCompactConversation with its summary by a model or by a template (application/compact).
    Prompt_Scope: the summary and the messages of the next request (prompt_scope.go).
    Snapshot_Cache: the cache of the snapshots that were found (service_cache.go) and how old its answer may be,
      when other calls run between the read of the database and the entry.
    Chat_History: any list of calls on conversations, where a branch may be used long after it was resolved; the
      invariant of the tree.
    Context_Props, Summary_Props: the loaded history is complete or ends at the boundary of a summary, the model
      sees all that is usable of it, a summary replaces a prefix. A lemma shows that the value of a path hash does
      not matter for the prompt as long as it is not blank.
    Chat_Samples: a conversation made by calls, the witnesses, and two examples in which a deleted message is
      still in the summary that is sent.

  Locales. \<open>swept_map\<close> and \<open>swept_view\<close> (Cache_State): a map of the cache that the sweep only thins
  of entries that no longer count, so that what is read of it is untouched; interpreted on the breakers,
  the backoffs, the windows and the login stores. \<open>sliding_limiter\<close> (Limiter): what the middleware may
  expect of a limiter. \<open>limited_handler\<close> (Http_Limit): a handler behind such a limiter.
  \<open>one_time_store\<close> (Kv): the store of a login transaction or grant. \<open>route_cache\<close> (Route_Choice): the cache
  behind the router. Each is interpreted on the model's own definitions.

  Loops and fuel. Every loop of the source that is modelled terminates and is a total function: those over
  a list by structural recursion, the backoff loop, the groups of the router and its candidates by a
  measure, the placement of a grant by the time left and the periods ahead, and its work list by the
  accessible part of its step relation, since what a grant displaces is of lower rank; the end of an
  entitlement by the number of ends still ahead of it, though the source loops until nothing changes; the
  pages of a history by the limit on the messages loaded, the walk up a path by the messages not yet visited, the
  replay of checkpoints by the number of those pending. A recursive query takes the bound of its text, and that of a subtree, which has none, as many rounds as there are
  ids, shown to be enough as a child has a higher id than its parent.

  Parameters. encoding/json, http.ParseTime, URL validation, key decryption, math/rand, the clock and the
  database of the router are arguments, and so are, for a bill, the conversion of the float64 prices of a
  tier, the local clock of an instant and the calendar, the identity of a model, the rate of the permission
  groups, the models priced by duration, the catalogue of native tools and the text of the JSON snapshot
  (fields of \<open>pricing_codec\<close> and \<open>billing_service\<close>), what a stored event decodes to, and for a summary SHA-256, the model that writes it,
  its built-in instructions and the parser of the capabilities (fields of \<open>compact_env\<close>). Nothing is assumed of them except where a property says so.

  Not modelled. The Redis variant of the cache, whose operations are scripts run by Redis; the
  rest of the conversation service (request assembly, tools, streaming, traces, files, sharing), the editing of plans and prices, payment quotes, listings and statistics of billing and the two writes of a
  subscription past the timeline (CreateSubscription, ReplaceSubscription), users, administration and the other application services, which
  are mostly database orchestration; the provider adapters; the persistence, transport and
  configuration layers; logging. The catalogue annotations of a resolved route are left out. Blocking
  waits are modelled by the channel a reader waits on; how long it waits is not. Some operations of several
  transactions are one step here: the pages of a history are read from one state of the database, and a compaction
  reads the latest snapshot and stores its own at once. Of the registry of running generations only the subscription of a client is there.
\<close>

end
